(* ===== verification/Prelude.thy ===== *)
theory Prelude
  imports
    Complex_Main
    "HOL-Library.AList"
    "HOL-Library.Char_ord"
    "HOL-Library.List_Lexorder"
begin

text \<open>
  What the component theories share.

  \<^item> \<open>'e + 'a\<close> is the result of code that may throw: \<open>Inl e\<close> is the thrown failure,
    \<open>Inr v\<close> the returned value. \<open>bindE\<close> sequences two such computations and \<open>guardE\<close> is an
    early \<open>throw\<close>.
  \<^item> A JavaScript object used as a dictionary is an association list (\<open>dict\<close>): \<open>dget\<close> reads a
    key, \<open>dput\<close> overwrites it in place or appends it, as property assignment does.
  \<^item> A string is a HOL \<open>string\<close>; the order \<open><\<close> on strings is the lexicographic order by
    character code, which is what JavaScript's \<open><\<close> and the default \<open>Array.prototype.sort\<close>
    compare by on ASCII text.
  \<^item> A time stamp is the number of milliseconds it denotes. The code keeps ISO-8601 strings and
    moves between the two with \<open>Date.parse\<close> and \<open>toISOString\<close>, which are inverse to each
    other on the values the code writes.
  \<^item> A finite JavaScript number that need not be an integer is the rational it denotes.

  The collection \<open>result_simps\<close> holds the rewrite rules that take a successful or failed
  result apart, and \<open>dict_simps\<close> the rules for dictionaries.
\<close>

named_theorems result_simps "case analysis of results"
named_theorems dict_simps "dictionaries"

type_synonym timestamp = int
type_synonym ('k, 'v) dict = "('k \<times> 'v) list"

subsection \<open>Results\<close>

definition bindE :: "'err + 'val \<Rightarrow> ('val \<Rightarrow> 'err + 'res) \<Rightarrow> 'err + 'res" where
  "bindE r f = (case r of Inl e \<Rightarrow> Inl e | Inr v \<Rightarrow> f v)"

definition guardE :: "bool \<Rightarrow> 'e \<Rightarrow> 'e + unit" where
  "guardE ok e = (if ok then Inr () else Inl e)"

definition isOk :: "'e + 'a \<Rightarrow> bool" where
  "isOk r = (case r of Inl _ \<Rightarrow> False | Inr _ \<Rightarrow> True)"

lemma bindE_simps [simp]:
  "bindE (Inl e) f = Inl e"
  "bindE (Inr v) f = f v"
  by (simp_all add: bindE_def)

lemma bindE_Inr [result_simps]:
  "bindE r f = Inr y \<longleftrightarrow> (\<exists>x. r = Inr x \<and> f x = Inr y)"
  by (cases r) auto

lemma bindE_Inl [result_simps]:
  "bindE r f = Inl e \<longleftrightarrow> r = Inl e \<or> (\<exists>x. r = Inr x \<and> f x = Inl e)"
  by (cases r) auto

lemma guardE_Inr [result_simps]: "guardE ok e = Inr u \<longleftrightarrow> ok"
  by (simp add: guardE_def)

lemma guardE_Inl [result_simps]: "guardE ok e = Inl e' \<longleftrightarrow> \<not> ok \<and> e' = e"
  by (auto simp: guardE_def)

lemma guardE_True [simp]: "guardE True e = Inr ()"
  by (simp add: guardE_def)

lemma throw_Inr: "(if c then Inl e else r) = Inr y \<longleftrightarrow> \<not> c \<and> r = Inr y"
  by simp

lemma isOk_simps [simp]: "isOk (Inr v)" "\<not> isOk (Inl e)"
  by (simp_all add: isOk_def)

lemma isOk_iff: "isOk r \<longleftrightarrow> (\<exists>v. r = Inr v)"
  by (cases r) auto

text \<open>Running a fallible step over a list stops at the first failure.\<close>

fun foldE :: "('s \<Rightarrow> 'a \<Rightarrow> 'e + 's) \<Rightarrow> 's \<Rightarrow> 'a list \<Rightarrow> 'e + 's" where
  "foldE f s [] = Inr s"
| "foldE f s (x # xs) = bindE (f s x) (\<lambda>s'. foldE f s' xs)"

lemma foldE_append: "foldE f s (xs @ ys) = bindE (foldE f s xs) (\<lambda>s'. foldE f s' ys)"
  by (induction xs arbitrary: s) (auto simp: bindE_def split: sum.splits)

subsection \<open>Dictionaries\<close>

abbreviation dget :: "('k, 'v) dict \<Rightarrow> 'k \<Rightarrow> 'v option" where
  "dget d k \<equiv> map_of d k"

abbreviation dput :: "'k \<Rightarrow> 'v \<Rightarrow> ('k, 'v) dict \<Rightarrow> ('k, 'v) dict" where
  "dput k v d \<equiv> AList.update k v d"

abbreviation dkeys :: "('k, 'v) dict \<Rightarrow> 'k list" where
  "dkeys d \<equiv> map fst d"

lemma dget_dput [dict_simps, simp]: "dget (dput k v d) k' = (if k' = k then Some v else dget d k')"
  by (simp add: update_conv)

lemma dput_keys_present: "k \<in> set (dkeys d) \<Longrightarrow> dkeys (dput k v d) = dkeys d"
  by (induction d) auto

lemma dput_keys_fresh: "k \<notin> set (dkeys d) \<Longrightarrow> dput k v d = d @ [(k, v)]"
  by (induction d) auto

lemma dput_set_keys [dict_simps]: "set (dkeys (dput k v d)) = insert k (set (dkeys d))"
  by (induction d) auto

lemma dput_set: "x \<in> set (dput k v d) \<Longrightarrow> x = (k, v) \<or> x \<in> set d"
  by (induction d) (auto split: if_splits)

lemma dget_None_keys: "dget d k = None \<longleftrightarrow> k \<notin> set (dkeys d)"
  by (simp add: map_of_eq_None_iff)

lemma dget_Some_keys: "dget d k = Some v \<Longrightarrow> k \<in> set (dkeys d)"
  by (metis dget_None_keys option.distinct(1))

text \<open>\<open>[...new Set(xs)]\<close>: duplicates go, the first occurrence stays.\<close>

definition uniq :: "'a list \<Rightarrow> 'a list" where
  "uniq xs = rev (remdups (rev xs))"

lemma uniq_set [simp]: "set (uniq xs) = set xs" "distinct (uniq xs)"
  by (simp_all add: uniq_def)

subsection \<open>Separators and decimal numerals\<close>

text \<open>
  Keys of the store are built by joining fields with a separator. A field that does not contain
  the separator can be read back from the right.
\<close>

lemma sep_inject:
  assumes "xs @ c # a = ys @ c # b" and "c \<notin> set a" and "c \<notin> set b"
  shows "xs = ys \<and> a = b"
  using assms
proof (induction xs arbitrary: ys)
  case Nil
  show ?case
  proof (cases ys)
    case (Cons y ys')
    with Nil.prems have "a = ys' @ c # b" by simp
    with Nil.prems(2) show ?thesis by auto
  qed (use Nil in simp)
next
  case (Cons x xs)
  show ?case
  proof (cases ys)
    case Nil
    with Cons.prems have "xs @ c # a = b" by simp
    with Cons.prems(3) show ?thesis by auto
  qed (use Cons in auto)
qed

definition digit_char :: "nat \<Rightarrow> char" where
  "digit_char d = char_of (48 + d)"

definition is_digit :: "char \<Rightarrow> bool" where
  "is_digit c \<longleftrightarrow> (48::nat) \<le> of_char c \<and> of_char c \<le> (57::nat)"

definition digit_val :: "char \<Rightarrow> nat" where
  "digit_val c = of_char c - 48"

fun show_nat :: "nat \<Rightarrow> string" where
  "show_nat n = (if n < 10 then [digit_char n] else show_nat (n div 10) @ [digit_char (n mod 10)])"

declare show_nat.simps [simp del]

definition read_nat :: "string \<Rightarrow> nat" where
  "read_nat s = foldl (\<lambda>acc c. 10 * acc + digit_val c) 0 s"

lemma digit_val_char [simp]: "d < 10 \<Longrightarrow> digit_val (digit_char d) = d"
  by (simp add: digit_val_def digit_char_def)

lemma is_digit_char [simp]: "d < 10 \<Longrightarrow> is_digit (digit_char d)"
  by (simp add: is_digit_def digit_char_def)

lemma read_nat_snoc: "read_nat (s @ [c]) = 10 * read_nat s + digit_val c"
  by (simp add: read_nat_def)

lemma read_show_nat [simp]: "read_nat (show_nat n) = n"
proof (induction n rule: less_induct)
  case (less k)
  then show ?case
    by (subst show_nat.simps) (simp add: read_nat_snoc read_nat_snoc [of "[]", simplified] read_nat_def [of "[]"])
qed

lemma show_nat_digits: "\<forall>c \<in> set (show_nat n). is_digit c"
proof (induction n rule: show_nat.induct)
  case (1 n)
  then show ?case by (cases "n < 10") (auto simp: show_nat.simps [of n])
qed

lemma show_nat_nonempty [simp]: "show_nat n \<noteq> []"
  by (subst show_nat.simps) simp

lemma show_nat_inject [simp]: "show_nat m = show_nat n \<longleftrightarrow> m = n"
  by (metis read_show_nat)

lemma show_nat_no_colon [simp]: "CHR '':'' \<notin> set (show_nat n)"
  using show_nat_digits [of n] by (auto simp: is_digit_def)

lemma show_nat_no_slash [simp]: "CHR ''/'' \<notin> set (show_nat n)"
  using show_nat_digits [of n] by (auto simp: is_digit_def)

text \<open>\<open>String(n).padStart(w, '0')\<close>\<close>

definition pad_nat :: "nat \<Rightarrow> nat \<Rightarrow> string" where
  "pad_nat w n = replicate (w - length (show_nat n)) (CHR ''0'') @ show_nat n"

lemma read_nat_zeros: "read_nat (replicate k (CHR ''0'') @ s) = read_nat s"
  by (induction k) (simp_all add: read_nat_def digit_val_def)

lemma pad_nat_inject [simp]: "pad_nat w m = pad_nat w n \<longleftrightarrow> m = n"
  by (metis pad_nat_def read_nat_zeros read_show_nat)

lemma pad_nat_no_slash [simp]: "CHR ''/'' \<notin> set (pad_nat w n)"
  by (auto simp: pad_nat_def)

subsection \<open>Strings\<close>

definition startsWith :: "string \<Rightarrow> string \<Rightarrow> bool" where
  "startsWith s p \<longleftrightarrow> take (length p) s = p"

lemma startsWith_append [simp]: "startsWith (p @ s) p"
  by (simp add: startsWith_def)

definition is_space :: "char \<Rightarrow> bool" where
  "is_space c \<longleftrightarrow> c \<in> set '' '' \<or> (9::nat) \<le> of_char c \<and> of_char c \<le> (13::nat)"

text \<open>\<open>String.prototype.trim\<close> on ASCII text\<close>

definition trim :: "string \<Rightarrow> string" where
  "trim s = rev (dropWhile is_space (rev (dropWhile is_space s)))"

lemma trim_last_not_space: "trim s \<noteq> [] \<Longrightarrow> \<not> is_space (last (trim s))"
  unfolding trim_def by (metis hd_dropWhile last_rev rev_is_Nil_conv)

text \<open>\<open>toLowerCase\<close> and \<open>includes\<close> on ASCII text, and a conditional message\<close>

definition lower_char :: "char \<Rightarrow> char" where
  "lower_char c = (let n = (of_char c :: nat) in if 65 \<le> n \<and> n \<le> 90 then char_of (n + 32) else c)"

definition toLowerCase :: "string \<Rightarrow> string" where
  "toLowerCase s = map lower_char s"

fun has_substring :: "string \<Rightarrow> string \<Rightarrow> bool" where
  "has_substring [] p \<longleftrightarrow> p = []"
| "has_substring (c # s) p \<longleftrightarrow> startsWith (c # s) p \<or> has_substring s p"

text \<open>\<open>split\<close> at a character, \<open>join\<close>, and \<open>replace\<close> of every run of characters of a kind by one character\<close>

fun split_on :: "char \<Rightarrow> string \<Rightarrow> string list" where
  "split_on c [] = [[]]"
| "split_on c (x # xs) = (if x = c then [] # split_on c xs else (case split_on c xs of y # ys \<Rightarrow> (x # y) # ys | [] \<Rightarrow> [[x]]))"

fun join_with :: "string \<Rightarrow> string list \<Rightarrow> string" where
  "join_with sep [] = []"
| "join_with sep [x] = x"
| "join_with sep (x # y # ys) = x @ sep @ join_with sep (y # ys)"

function replace_runs :: "(char \<Rightarrow> bool) \<Rightarrow> char \<Rightarrow> string \<Rightarrow> string" where
  "replace_runs P c [] = []"
| "replace_runs P c (x # s) = (if P x then c # replace_runs P c (dropWhile P s) else x # replace_runs P c s)"
  by pat_completeness auto
termination
  by (relation "measure (\<lambda>(P, c, s). length s)") (auto simp: le_imp_less_Suc length_dropWhile_le)

definition tag :: "bool \<Rightarrow> string \<Rightarrow> string list" where
  "tag b r = (if b then [r] else [])"

subsection \<open>Sorting with a comparator\<close>

text \<open>
  \<open>Array.prototype.sort\<close> is stable. A comparator is a function into \<open>rat\<close>, negative when the
  first argument comes first; insertion from the right keeps the order of equal elements.
\<close>

fun insert_by :: "('a \<Rightarrow> 'a \<Rightarrow> rat) \<Rightarrow> 'a \<Rightarrow> 'a list \<Rightarrow> 'a list" where
  "insert_by cmp x [] = [x]"
| "insert_by cmp x (y # ys) = (if cmp x y \<le> 0 then x # y # ys else y # insert_by cmp x ys)"

fun sort_by :: "('a \<Rightarrow> 'a \<Rightarrow> rat) \<Rightarrow> 'a list \<Rightarrow> 'a list" where
  "sort_by cmp [] = []"
| "sort_by cmp (x # xs) = insert_by cmp x (sort_by cmp xs)"

lemma set_insert_by [simp]: "set (insert_by cmp x xs) = insert x (set xs)"
  by (induction xs) auto

lemma set_sort_by [simp]: "set (sort_by cmp xs) = set xs"
  by (induction xs) auto

lemma length_insert_by [simp]: "length (insert_by cmp x xs) = Suc (length xs)"
  by (induction xs) auto

lemma length_sort_by [simp]: "length (sort_by cmp xs) = length xs"
  by (induction xs) auto

lemma distinct_insert_by: "distinct (insert_by cmp x xs) \<longleftrightarrow> x \<notin> set xs \<and> distinct xs"
  by (induction xs) auto

lemma distinct_sort_by [simp]: "distinct (sort_by cmp xs) \<longleftrightarrow> distinct xs"
  by (induction xs) (auto simp: distinct_insert_by)

lemma sort_by_Nil [simp]: "sort_by cmp xs = [] \<longleftrightarrow> xs = []"
  by (metis length_0_conv length_sort_by)

text \<open>
  What a comparator must satisfy for the result to be in order: a total preorder. The locale is
  the interface between \<open>sort_by\<close> and the comparators of the components.
\<close>

locale comparator =
  fixes cmp :: "'a \<Rightarrow> 'a \<Rightarrow> rat"
  assumes cmp_total: "cmp x y \<le> 0 \<or> cmp y x \<le> 0"
    and cmp_trans: "cmp x y \<le> 0 \<Longrightarrow> cmp y z \<le> 0 \<Longrightarrow> cmp x z \<le> 0"
begin

lemma sorted_insert_by:
  "sorted_wrt (\<lambda>a b. cmp a b \<le> 0) ys \<Longrightarrow> sorted_wrt (\<lambda>a b. cmp a b \<le> 0) (insert_by cmp x ys)"
proof (induction ys)
  case Nil
  then show ?case by simp
next
  case (Cons y ys)
  show ?case
  proof (cases "cmp x y \<le> 0")
    case True
    with Cons.prems show ?thesis by (auto intro: cmp_trans)
  next
    case False
    then have "cmp y x \<le> 0" using cmp_total by blast
    with False Cons show ?thesis by auto
  qed
qed

lemma sorted_sort_by: "sorted_wrt (\<lambda>a b. cmp a b \<le> 0) (sort_by cmp xs)"
  by (induction xs) (auto intro: sorted_insert_by)

text \<open>A minimal element is never behind a strictly greater one.\<close>

lemma hd_sort_by_least: "x \<in> set xs \<Longrightarrow> cmp (hd (sort_by cmp xs)) x \<le> 0"
proof -
  assume x: "x \<in> set xs"
  then obtain y ys where eq: "sort_by cmp xs = y # ys"
    by (metis list.exhaust list.set(1) empty_iff set_sort_by)
  have "x \<in> set (y # ys)" using x eq by (metis set_sort_by)
  moreover have "sorted_wrt (\<lambda>a b. cmp a b \<le> 0) (y # ys)"
    using sorted_sort_by [of xs] eq by simp
  moreover have "cmp y y \<le> 0" using cmp_total by blast
  ultimately show ?thesis using eq by auto
qed

end

text \<open>A comparator that orders by a key into a linear order satisfies the contract.\<close>

lemma comparator_key:
  fixes key :: "'a \<Rightarrow> 'k :: linorder"
  assumes "\<And>x y. cmp x y \<le> 0 \<longleftrightarrow> key x \<le> key y"
  shows "comparator cmp"
  by unfold_locales (auto simp: assms)

subsection \<open>JSON values\<close>

text \<open>
  An \<open>unknown\<close> value that came out of JSON. \<open>JNonFinite\<close> is a number outside the finite range
  (the text \<open>1e999\<close> parses to one); an absent property of an object is \<open>undefined\<close>.
\<close>

datatype json =
  JNull | JBool bool | JNum rat | JNonFinite | JStr string | JArr "json list" | JObj "(string \<times> json) list"

fun jget :: "json \<Rightarrow> string \<Rightarrow> json option" where
  "jget (JObj fs) k = map_of fs k"
| "jget _ k = None"

text \<open>A JavaScript number that may be anything\<close>

datatype number = Fin rat | NaN | PosInf | NegInf

subsection \<open>Comparing strings\<close>

text \<open>\<open>a < b ? -1 : a > b ? 1 : 0\<close> on strings\<close>

definition compare_str :: "string \<Rightarrow> string \<Rightarrow> rat" where
  "compare_str a b = (if a < b then -1 else if a > b then 1 else 0)"

interpretation str_cmp: comparator compare_str
  by unfold_locales (auto simp: compare_str_def split: if_splits)

lemma compare_str_0 [simp]: "compare_str a b = 0 \<longleftrightarrow> a = b"
  by (auto simp: compare_str_def)

end
