(* ===== verification/Contracts.thy ===== *)
theory Contracts
  imports Prelude
begin

text \<open>
  The data model of Goal Studio: \<open>src/packages/goals/src/contracts.ts\<close>. Interfaces are records
  (every field carries a prefix of its record), union types of string literals are datatypes, an
  optional field is an \<open>option\<close>, a \<open>Record\<close> is a dictionary and an ISO time stamp is a
  \<open>timestamp\<close>. The operations are the construction of idempotency keys, of store keys and of
  the HTTP status of an error code; the lemmas say that keys are injective, so two steps or two
  records never share one.
\<close>

subsection \<open>Identifiers\<close>

type_synonym ProjectId = string
type_synonym GraphId = string
type_synonym GraphRevision = nat
type_synonym TargetId = string
type_synonym GoalRunId = string
type_synonym TargetAttemptId = string
type_synonym ExecutionId = string
type_synonym EvidenceId = string
type_synonym PromptId = string
type_synonym PromptVersion = nat
type_synonym IdempotencyKey = string

subsection \<open>States and lifecycle\<close>

datatype TargetStatus =
  Queued | Eligible | Active | Verifying | Verified | Completed | Failed | Repairing
| NeedsApproval | Blocked | AwaitingExternal | Stopped

definition TERMINAL_TARGET_STATUSES :: "TargetStatus list" where
  "TERMINAL_TARGET_STATUSES = [Completed, Blocked, Stopped]"

definition UNLOCKING_TARGET_STATUSES :: "TargetStatus list" where
  "UNLOCKING_TARGET_STATUSES = [Completed]"

datatype GoalRunStatus =
  RCreated | RRunning | RPausing | RPaused | RStopping | RStopped | RIdle | RCompleted | RFailed

datatype GoalPhase =
  LOAD_LEDGER | SELECT_TARGET | PLAN_TASK | PREFLIGHT | ROUTE_MODEL | EXECUTE | CHALLENGE
| INDEPENDENT_VERIFY | ACCEPTANCE_GATE | COMMIT_PROGRESS | UNLOCK_DEPENDENCIES | SELECT_NEXT_TARGET
| DIAGNOSE | REPAIR_HYPOTHESIS | REPLAN | RETEST
| BLOCK_TARGET | RECORD_EVIDENCE | AWAIT_APPROVAL | PERSIST_STATE

fun phase_str :: "GoalPhase \<Rightarrow> string" where
  "phase_str LOAD_LEDGER = ''LOAD_LEDGER''"
| "phase_str SELECT_TARGET = ''SELECT_TARGET''"
| "phase_str PLAN_TASK = ''PLAN_TASK''"
| "phase_str PREFLIGHT = ''PREFLIGHT''"
| "phase_str ROUTE_MODEL = ''ROUTE_MODEL''"
| "phase_str EXECUTE = ''EXECUTE''"
| "phase_str CHALLENGE = ''CHALLENGE''"
| "phase_str INDEPENDENT_VERIFY = ''INDEPENDENT_VERIFY''"
| "phase_str ACCEPTANCE_GATE = ''ACCEPTANCE_GATE''"
| "phase_str COMMIT_PROGRESS = ''COMMIT_PROGRESS''"
| "phase_str UNLOCK_DEPENDENCIES = ''UNLOCK_DEPENDENCIES''"
| "phase_str SELECT_NEXT_TARGET = ''SELECT_NEXT_TARGET''"
| "phase_str DIAGNOSE = ''DIAGNOSE''"
| "phase_str REPAIR_HYPOTHESIS = ''REPAIR_HYPOTHESIS''"
| "phase_str REPLAN = ''REPLAN''"
| "phase_str RETEST = ''RETEST''"
| "phase_str BLOCK_TARGET = ''BLOCK_TARGET''"
| "phase_str RECORD_EVIDENCE = ''RECORD_EVIDENCE''"
| "phase_str AWAIT_APPROVAL = ''AWAIT_APPROVAL''"
| "phase_str PERSIST_STATE = ''PERSIST_STATE''"

definition idempotencyKey :: "GoalRunId \<Rightarrow> TargetId \<Rightarrow> nat \<Rightarrow> GoalPhase \<Rightarrow> IdempotencyKey" where
  "idempotencyKey runId targetId attempt phase =
     runId @ '':'' @ targetId @ '':'' @ show_nat attempt @ '':'' @ phase_str phase"

subsection \<open>Graph model\<close>

record GoalProject =
  pj_id :: ProjectId
  pj_name :: string
  pj_createdAt :: timestamp

record ResourceLimits =
  maxTasksPerRun :: nat
  maxRepairsPerTask :: nat
  maxSameActionNoProgress :: nat
  maxRunMinutes :: nat
  hostedSpendUsd :: rat
  localModelFirst :: bool
  maxConcurrentWritersPerWorktree :: nat
  maxConcurrentTargets :: "nat option"

record GoalConstitution =
  con_invariants :: "string list"
  con_resourceLimits :: ResourceLimits
  con_allowedUnattended :: "string list"
  con_needsApproval :: "string list"

record GoalTarget =
  t_id :: TargetId
  t_stage :: string
  t_title :: string
  t_dependsOn :: "TargetId list"
  t_priority :: rat
  t_executor :: string
  t_artifacts :: "string list"
  t_acceptance :: "string list"
  t_externalDependency :: bool
  t_requiresApproval :: bool

record PromptGraphNode =
  n_id :: string
  n_next :: "string list"
  n_promptId :: "PromptId option"

record GoalGraphDefinition =
  g_schemaVersion :: string
  g_name :: string
  g_purpose :: "string option"
  g_constitution :: GoalConstitution
  g_targets :: "GoalTarget list"
  g_entry :: string
  g_nodes :: "PromptGraphNode list"

record GoalGraphRevisionRecord =
  gr_graphId :: GraphId
  gr_projectId :: ProjectId
  gr_revision :: GraphRevision
  gr_definition :: GoalGraphDefinition
  gr_digest :: string
  gr_createdAt :: timestamp
  gr_createdBy :: string
  gr_parentRevision :: "GraphRevision option"

datatype GraphValidationIssueCode =
  SCHEMA | DUPLICATE_TARGET | UNKNOWN_DEPENDENCY | CYCLE | SELF_DEPENDENCY | UNKNOWN_EXECUTOR | INVALID_LIMIT

record GraphValidationIssue =
  iss_code :: GraphValidationIssueCode
  iss_path :: string
  iss_targetIds :: "TargetId list"

record GraphValidationResult =
  vr_valid :: bool
  vr_issues :: "GraphValidationIssue list"

subsection \<open>Errors\<close>

datatype GoalStudioErrorCode =
  VALIDATION | NOT_FOUND | LEDGER_CONFLICT | STALE_LEASE | DUPLICATE | UNAUTHORIZED | FORBIDDEN
| POLICY_DENIED | APPROVAL_REQUIRED | BUDGET_EXCEEDED | NO_ROUTE | EXECUTION_FAILED
| VERIFICATION_FAILED | RETRY_EXHAUSTED | NO_PROGRESS | CANCELLED | INTERNAL

record GoalStudioError =
  e_code :: GoalStudioErrorCode
  e_message :: string
  e_retryable :: bool
  e_details :: "(string, json) dict"

text \<open>
  \<open>new GoalStudioFailure(code, message, options)\<close>. The message and the \<open>details\<close> of a failure that
  a component throws are for people and for logs; where no code reads them the component theories
  leave them out and use \<open>failure\<close>, which keeps the code and the retry flag.
\<close>

definition GoalStudioFailure :: "GoalStudioErrorCode \<Rightarrow> string \<Rightarrow> bool \<Rightarrow> (string, json) dict \<Rightarrow> GoalStudioError" where
  "GoalStudioFailure code msg retryable details =
     \<lparr>e_code = code, e_message = msg, e_retryable = retryable, e_details = details\<rparr>"

abbreviation failure :: "GoalStudioErrorCode \<Rightarrow> GoalStudioError" where
  "failure code \<equiv> GoalStudioFailure code [] False []"

abbreviation retryable_failure :: "GoalStudioErrorCode \<Rightarrow> GoalStudioError" where
  "retryable_failure code \<equiv> GoalStudioFailure code [] True []"

lemma GoalStudioFailure_fields [simp]:
  "e_code (GoalStudioFailure c m r d) = c"
  "e_message (GoalStudioFailure c m r d) = m"
  "e_retryable (GoalStudioFailure c m r d) = r"
  "e_details (GoalStudioFailure c m r d) = d"
  by (simp_all add: GoalStudioFailure_def)

type_synonym 'a result = "GoalStudioError + 'a"

fun GOAL_STUDIO_HTTP_STATUS :: "GoalStudioErrorCode \<Rightarrow> nat" where
  "GOAL_STUDIO_HTTP_STATUS VALIDATION = 400"
| "GOAL_STUDIO_HTTP_STATUS NOT_FOUND = 404"
| "GOAL_STUDIO_HTTP_STATUS LEDGER_CONFLICT = 409"
| "GOAL_STUDIO_HTTP_STATUS STALE_LEASE = 409"
| "GOAL_STUDIO_HTTP_STATUS DUPLICATE = 409"
| "GOAL_STUDIO_HTTP_STATUS UNAUTHORIZED = 401"
| "GOAL_STUDIO_HTTP_STATUS FORBIDDEN = 403"
| "GOAL_STUDIO_HTTP_STATUS POLICY_DENIED = 403"
| "GOAL_STUDIO_HTTP_STATUS APPROVAL_REQUIRED = 202"
| "GOAL_STUDIO_HTTP_STATUS BUDGET_EXCEEDED = 402"
| "GOAL_STUDIO_HTTP_STATUS NO_ROUTE = 503"
| "GOAL_STUDIO_HTTP_STATUS EXECUTION_FAILED = 500"
| "GOAL_STUDIO_HTTP_STATUS VERIFICATION_FAILED = 422"
| "GOAL_STUDIO_HTTP_STATUS RETRY_EXHAUSTED = 409"
| "GOAL_STUDIO_HTTP_STATUS NO_PROGRESS = 409"
| "GOAL_STUDIO_HTTP_STATUS CANCELLED = 409"
| "GOAL_STUDIO_HTTP_STATUS INTERNAL = 500"

subsection \<open>Durable ledger\<close>

record TargetTransition =
  tr_runId :: GoalRunId
  tr_targetId :: TargetId
  tr_fromState :: TargetStatus
  tr_toState :: TargetStatus
  tr_reason :: string
  tr_actor :: string
  tr_timestamp :: "timestamp option"
  tr_attemptId :: "TargetAttemptId option"
  tr_evidenceIds :: "EvidenceId list"

record TargetLedgerEntry =
  le_targetId :: TargetId
  le_status :: TargetStatus
  le_attempts :: nat
  le_repairs :: nat
  le_lastAttemptId :: "TargetAttemptId option"
  le_lastExecutionId :: "ExecutionId option"
  le_evidenceIds :: "EvidenceId list"
  le_blockers :: "string list"
  le_updatedAt :: timestamp

record ModelRouteDecision =
  mr_modelId :: string
  mr_runtimeId :: string
  mr_computerId :: "string option"
  mr_hosted :: bool
  mr_estimatedCostUsd :: rat
  mr_reasons :: "string list"
  mr_rejected :: "(string \<times> string) list"
  mr_decidedAt :: timestamp

datatype AttemptOutcome =
  OSucceeded | OFailed | OCancelled | OAwaitingApproval | OBlocked

record TargetAttempt =
  at_id :: TargetAttemptId
  at_runId :: GoalRunId
  at_targetId :: TargetId
  at_attempt :: nat
  at_phase :: GoalPhase
  at_executionId :: "ExecutionId option"
  at_modelRoute :: "ModelRouteDecision option"
  at_promptRef :: "(PromptId \<times> PromptVersion) option"
  at_repairHypothesis :: "string option"
  at_startedAt :: timestamp
  at_endedAt :: "timestamp option"
  at_outcome :: "AttemptOutcome option"
  at_error :: "GoalStudioError option"

record RunResource =
  res_tasksStarted :: nat
  res_hostedSpendUsd :: rat
  res_startedAt :: timestamp
  res_deadlineAt :: timestamp

record GoalRunLedger =
  r_runId :: GoalRunId
  r_graphId :: GraphId
  r_graphRevision :: GraphRevision
  r_graphDigest :: string
  r_status :: GoalRunStatus
  r_ledgerRevision :: nat
  r_targets :: "(TargetId, TargetLedgerEntry) dict"
  r_resource :: RunResource
  r_createdBy :: string
  r_createdAt :: timestamp
  r_updatedAt :: timestamp

record RunLease =
  ls_runId :: GoalRunId
  ls_holderId :: string
  ls_epoch :: nat
  ls_expiresAt :: timestamp

subsection \<open>Verification and evidence\<close>

datatype VerificationVerdict = PASS | FAIL | UNKNOWN | NOT_RUN

record ArtifactRef =
  ar_uri :: string
  ar_digest :: string
  ar_sizeBytes :: "nat option"

record EvidenceRecord =
  ev_id :: EvidenceId
  ev_runId :: GoalRunId
  ev_targetId :: TargetId
  ev_attemptId :: TargetAttemptId
  ev_graphRevision :: GraphRevision
  ev_workspaceRevision :: string
  ev_artifacts :: "ArtifactRef list"
  ev_validationMethod :: string
  ev_validatorIdentity :: string
  ev_executorIdentity :: string
  ev_verdict :: VerificationVerdict
  ev_criterion :: "string option"
  ev_command :: "string option"
  ev_exitCode :: "int option"
  ev_outputExcerpt :: "string option"
  ev_limitations :: "string list"
  ev_createdAt :: timestamp

datatype GateOutcome = GCompleted | GRepair | GNeedsApproval | GAwaitingExternal | GBlocked

record CriterionVerdict =
  cv_criterion :: string
  cv_verdict :: VerificationVerdict
  cv_evidenceIds :: "EvidenceId list"

record AcceptanceGateDecision =
  gd_runId :: GoalRunId
  gd_targetId :: TargetId
  gd_attemptId :: TargetAttemptId
  gd_decision :: GateOutcome
  gd_perCriterion :: "CriterionVerdict list"
  gd_reasons :: "string list"
  gd_decidedAt :: timestamp

subsection \<open>Recovery and governance decisions\<close>

datatype FailureClass =
  Transient | Deterministic | Environment | Policy | Verification | NoProgress | UnknownFailure

datatype RecoveryAction = Retry | Repair | Block

record RecoveryDecision =
  rd_action :: RecoveryAction
  rd_failureClass :: FailureClass
  rd_diagnosis :: string
  rd_hypothesis :: "string option"
  rd_failureSignature :: string
  rd_reasons :: "string list"

datatype GovernanceEffect = Allow | Ask | Deny

record GovernanceDecision =
  gov_effect :: GovernanceEffect
  gov_reasons :: "string list"
  gov_approvalScope :: "string option"

subsection \<open>Events\<close>

datatype GoalStudioEventType =
  RunCreated | RunStatus | RunIdle | TargetTransitionEv | TargetPhase | AttemptStarted
| AttemptFinished | RouteDecided | ExecutionEvent | VerificationEvidence | GateDecided
| RecoveryDecided | ApprovalRequested | ApprovalResolved | GovernanceDenied | GraphRevisionEv
| PromptVersionEv | ErrorEv

record GoalStudioEvent =
  evt_seq :: nat
  evt_type :: GoalStudioEventType
  evt_runId :: "GoalRunId option"
  evt_targetId :: "TargetId option"
  evt_attemptId :: "TargetAttemptId option"
  evt_executionId :: "ExecutionId option"
  evt_timestamp :: timestamp
  evt_data :: "(string, json) dict"

subsection \<open>Store keys\<close>

datatype GoalStoreKey =
  KGraph GraphId | KGraphRevision GraphId GraphRevision | KRun GoalRunId | KRunLease GoalRunId
| KTransition GoalRunId nat | KAttempt GoalRunId TargetAttemptId | KIdempotency IdempotencyKey
| KEvent GoalRunId nat | KEvidence GoalRunId EvidenceId | KPrompt PromptId PromptVersion
| KPromptHead string | KAudit string

fun GOAL_STORE_KEYS :: "GoalStoreKey \<Rightarrow> string" where
  "GOAL_STORE_KEYS (KGraph g) = ''goals/graphs/'' @ g"
| "GOAL_STORE_KEYS (KGraphRevision g r) = ''goals/graphs/'' @ g @ ''/rev/'' @ pad_nat 8 r"
| "GOAL_STORE_KEYS (KRun r) = ''goals/runs/'' @ r"
| "GOAL_STORE_KEYS (KRunLease r) = ''goals/leases/'' @ r"
| "GOAL_STORE_KEYS (KTransition r s) = ''goals/transitions/'' @ r @ ''/'' @ pad_nat 10 s"
| "GOAL_STORE_KEYS (KAttempt r a) = ''goals/attempts/'' @ r @ ''/'' @ a"
| "GOAL_STORE_KEYS (KIdempotency k) = ''goals/idem/'' @ k"
| "GOAL_STORE_KEYS (KEvent r s) = ''goals/events/'' @ r @ ''/'' @ pad_nat 10 s"
| "GOAL_STORE_KEYS (KEvidence r e) = ''goals/evidence/'' @ r @ ''/'' @ e"
| "GOAL_STORE_KEYS (KPrompt p v) = ''goals/prompts/'' @ p @ ''/v/'' @ pad_nat 6 v"
| "GOAL_STORE_KEYS (KPromptHead k) = ''goals/prompts-head/'' @ k"
| "GOAL_STORE_KEYS (KAudit s) = ''goals/audit/'' @ s"

text \<open>
  A key is well formed when no identifier in it contains the separator; the id patterns the
  components check (run ids, graph ids, prompt ids) exclude it.
\<close>

fun key_wf :: "GoalStoreKey \<Rightarrow> bool" where
  "key_wf (KGraph g) \<longleftrightarrow> CHR ''/'' \<notin> set g"
| "key_wf (KGraphRevision g r) \<longleftrightarrow> CHR ''/'' \<notin> set g"
| "key_wf (KRun r) \<longleftrightarrow> CHR ''/'' \<notin> set r"
| "key_wf (KRunLease r) \<longleftrightarrow> CHR ''/'' \<notin> set r"
| "key_wf (KTransition r s) \<longleftrightarrow> CHR ''/'' \<notin> set r"
| "key_wf (KAttempt r a) \<longleftrightarrow> CHR ''/'' \<notin> set r \<and> CHR ''/'' \<notin> set a"
| "key_wf (KIdempotency k) \<longleftrightarrow> True"
| "key_wf (KEvent r s) \<longleftrightarrow> CHR ''/'' \<notin> set r"
| "key_wf (KEvidence r e) \<longleftrightarrow> CHR ''/'' \<notin> set r \<and> CHR ''/'' \<notin> set e"
| "key_wf (KPrompt p v) \<longleftrightarrow> CHR ''/'' \<notin> set p"
| "key_wf (KPromptHead k) \<longleftrightarrow> True"
| "key_wf (KAudit s) \<longleftrightarrow> True"

subsection \<open>Keys are injective\<close>

lemma phase_str_no_colon [simp]: "CHR '':'' \<notin> set (phase_str p)"
  by (cases p) simp_all

lemma phase_str_inject: "phase_str p = phase_str q \<Longrightarrow> p = q"
  by (cases p; cases q) simp_all

lemma slash_sep_inject:
  "a @ CHR ''/'' # x = b @ CHR ''/'' # y \<Longrightarrow> CHR ''/'' \<notin> set x \<Longrightarrow> CHR ''/'' \<notin> set y \<Longrightarrow> a = b \<and> x = y"
  by (rule sep_inject)

lemma colon_sep_inject:
  "a @ CHR '':'' # x = b @ CHR '':'' # y \<Longrightarrow> CHR '':'' \<notin> set x \<Longrightarrow> CHR '':'' \<notin> set y \<Longrightarrow> a = b \<and> x = y"
  by (rule sep_inject)

text \<open>
  Two side-effecting steps share an idempotency key only if they are the same step: same run,
  same target, same attempt number and same phase. Run ids may contain the separator (the ledger
  accepts it in a run id), target ids may not (\<open>TARGET_ID_PATTERN\<close>).
\<close>

theorem idempotencyKey_injective:
  assumes "idempotencyKey r t n p = idempotencyKey r' t' n' p'"
    and "CHR '':'' \<notin> set t" and "CHR '':'' \<notin> set t'"
  shows "r = r' \<and> t = t' \<and> n = n' \<and> p = p'"
proof -
  have "(r @ '':'' @ t @ '':'' @ show_nat n) @ CHR '':'' # phase_str p =
        (r' @ '':'' @ t' @ '':'' @ show_nat n') @ CHR '':'' # phase_str p'"
    using assms(1) by (simp add: idempotencyKey_def)
  then have 1: "r @ '':'' @ t @ '':'' @ show_nat n = r' @ '':'' @ t' @ '':'' @ show_nat n'"
    and p: "phase_str p = phase_str p'"
    using colon_sep_inject phase_str_no_colon by blast+
  from 1 have "(r @ '':'' @ t) @ CHR '':'' # show_nat n = (r' @ '':'' @ t') @ CHR '':'' # show_nat n'"
    by simp
  then have 2: "r @ '':'' @ t = r' @ '':'' @ t'" and n: "show_nat n = show_nat n'"
    using colon_sep_inject show_nat_no_colon by blast+
  from 2 have "r @ CHR '':'' # t = r' @ CHR '':'' # t'" by simp
  then have "r = r' \<and> t = t'" using assms(2,3) colon_sep_inject by blast
  with n p show ?thesis using phase_str_inject by simp
qed

theorem idempotencyKey_injective_witness:
  "idempotencyKey ''run:1'' ''Y1.2'' 1 EXECUTE = ''run:1:Y1.2:1:EXECUTE'' \<and>
   idempotencyKey ''run:1'' ''Y1.2'' 1 EXECUTE \<noteq> idempotencyKey ''run'' ''Y1.2'' 1 EXECUTE \<and>
   idempotencyKey ''run:1'' ''Y1.2'' 1 EXECUTE \<noteq> idempotencyKey ''run:1'' ''Y1.2'' 11 EXECUTE"
proof -
  have "idempotencyKey ''run:1'' ''Y1.2'' 1 EXECUTE = ''run:1:Y1.2:1:EXECUTE''" by code_simp
  then show ?thesis
    using idempotencyKey_injective [of "''run:1''" "''Y1.2''" 1 EXECUTE "''run''" "''Y1.2''" 1 EXECUTE]
      idempotencyKey_injective [of "''run:1''" "''Y1.2''" 1 EXECUTE "''run:1''" "''Y1.2''" 11 EXECUTE] by auto
qed

text \<open>
  The family of a key is its first two path segments, except that the revisions of a graph live
  below the key of the graph.
\<close>

fun key_family :: "GoalStoreKey \<Rightarrow> nat" where
  "key_family (KGraph g) = 0"
| "key_family (KGraphRevision g r) = 0"
| "key_family (KRun r) = 1"
| "key_family (KRunLease r) = 2"
| "key_family (KTransition r s) = 3"
| "key_family (KAttempt r a) = 4"
| "key_family (KIdempotency k) = 5"
| "key_family (KEvent r s) = 6"
| "key_family (KEvidence r e) = 7"
| "key_family (KPrompt p v) = 8"
| "key_family (KPromptHead k) = 9"
| "key_family (KAudit s) = 10"

lemma key_family_eq:
  "GOAL_STORE_KEYS k = GOAL_STORE_KEYS k' \<Longrightarrow> key_family k = key_family k'"
  by (cases k; cases k'; simp)

lemma rev_segment_inject:
  assumes "g @ ''/rev/'' @ pad_nat w m = g' @ ''/rev/'' @ pad_nat w n"
  shows "g = g' \<and> m = n"
proof -
  from assms have "(g @ ''/rev'') @ CHR ''/'' # pad_nat w m = (g' @ ''/rev'') @ CHR ''/'' # pad_nat w n"
    by simp
  from slash_sep_inject [OF this] show ?thesis by simp
qed

lemma version_segment_inject:
  assumes "p @ ''/v/'' @ pad_nat w m = p' @ ''/v/'' @ pad_nat w n"
  shows "p = p' \<and> m = n"
proof -
  from assms have "(p @ ''/v'') @ CHR ''/'' # pad_nat w m = (p' @ ''/v'') @ CHR ''/'' # pad_nat w n"
    by simp
  from slash_sep_inject [OF this] show ?thesis by simp
qed

text \<open>
  Distinct records live under distinct store keys: on well-formed keys the key function is
  injective across all twelve key families, so no component can overwrite another's record.
\<close>

theorem GOAL_STORE_KEYS_injective:
  assumes "GOAL_STORE_KEYS k = GOAL_STORE_KEYS k'" and "key_wf k" and "key_wf k'"
  shows "k = k'"
proof -
  note fam = key_family_eq [OF assms(1)]
  show ?thesis
  proof (cases k)
    case (KGraph g)
    with fam assms show ?thesis by (cases k') auto
  next
    case (KGraphRevision g r)
    with fam assms show ?thesis by (cases k') (auto dest: rev_segment_inject [simplified])
  next
    case (KPrompt p v)
    with fam assms show ?thesis by (cases k') (auto dest: version_segment_inject [simplified])
  qed (use fam assms in \<open>cases k'; auto dest: slash_sep_inject\<close>)+
qed

theorem GOAL_STORE_KEYS_injective_witness:
  "key_wf (KTransition ''run-1'' 7) \<and> key_wf (KEvent ''run-1'' 7) \<and>
   GOAL_STORE_KEYS (KTransition ''run-1'' 7) \<noteq> GOAL_STORE_KEYS (KEvent ''run-1'' 7)"
  using GOAL_STORE_KEYS_injective [of "KTransition ''run-1'' 7" "KEvent ''run-1'' 7"] by auto

end
