(* ===== verification/Idempotency.thy ===== *)
theory Idempotency
  imports Contracts
begin

text \<open>
  Exactly-once effects: the idempotency records of \<open>src/packages/goals/src/ledger/ledgerStore.ts\<close>
  (\<open>once\<close>, \<open>reconcileEffect\<close>, \<open>pendingEffects\<close>). The record of a key is claimed by an atomic
  update before the effect runs and completed by another after it; a crash in between leaves it in
  flight. \<open>once\<close> is first modelled for a caller that runs alone, over an arbitrary world that the
  effect changes, and then step by step, with any number of callers in any number of instances,
  each step an action that an executable transition function performs.

  The lemmas: a recorded result is replayed and the effect not run again, an effect whose outcome
  is unknown is never run again before it is reconciled, and the number of times an effect was
  started is exactly the number of times its key was released, plus one while it is not released.
\<close>

subsection \<open>Records\<close>

record EffectOwner =
  ow_instanceId :: string
  ow_pid :: int
  ow_host :: string

datatype EffectState = InFlight | Done | FailedEffect | Released

datatype ReconcileOutcome = Applied | NotApplied

record IdempotencyRecord =
  ir_key :: IdempotencyKey
  ir_state :: EffectState
  ir_owner :: EffectOwner
  ir_startedAt :: timestamp
  ir_finishedAt :: "timestamp option"
  ir_resultJson :: "json option"
  ir_error :: "GoalStudioError option"
  ir_runs :: nat
  ir_reconciliation :: "(ReconcileOutcome \<times> string \<times> timestamp) option"

type_synonym IdemStore = "(IdempotencyKey, IdempotencyRecord) dict"

record PendingEffect =
  pe_key :: IdempotencyKey
  pe_owner :: EffectOwner
  pe_startedAt :: timestamp
  pe_ownerAlive :: "bool option"

datatype EffectResolution = ResApplied "json option" | ResNotApplied

text \<open>What an effect throws: a failure of Goal Studio or anything else, with its message.\<close>

datatype thrown = ThrownFailure GoalStudioError | ThrownOther string

text \<open>\<open>ownerAlive\<close> answers \<open>true\<close>, \<open>false\<close> or \<open>'unknown'\<close> (\<open>None\<close>). Whether the liveness test is the
  caller's own and what it answers are parameters.\<close>

definition ownerAlive :: "bool \<Rightarrow> (int \<Rightarrow> bool) \<Rightarrow> EffectOwner \<Rightarrow> EffectOwner \<Rightarrow> bool option" where
  "ownerAlive hasCustomProcessAlive isProcessAlive me owner =
     (if ow_instanceId owner = ow_instanceId me then Some False
      else if ow_host owner \<noteq> ow_host me then None
      else if \<not> hasCustomProcessAlive \<and> ow_pid owner = ow_pid me then Some True
      else Some (isProcessAlive (ow_pid owner)))"

subsection \<open>The atomic updates\<close>

definition claim_record :: "EffectOwner \<Rightarrow> timestamp \<Rightarrow> IdempotencyKey \<Rightarrow> IdempotencyRecord option \<Rightarrow> IdempotencyRecord" where
  "claim_record me now key current =
     \<lparr>ir_key = key, ir_state = InFlight, ir_owner = me, ir_startedAt = now, ir_finishedAt = None,
      ir_resultJson = None, ir_error = None, ir_runs = (case current of None \<Rightarrow> 0 | Some r \<Rightarrow> ir_runs r) + 1,
      ir_reconciliation = None\<rparr>"

definition unreleased :: "IdempotencyRecord option \<Rightarrow> bool" where
  "unreleased r = (case r of None \<Rightarrow> False | Some r \<Rightarrow> ir_state r \<noteq> Released)"

definition claimable :: "IdempotencyRecord option \<Rightarrow> bool" where
  "claimable r = (\<not> unreleased r)"

definition owned_in_flight :: "EffectOwner \<Rightarrow> IdempotencyRecord option \<Rightarrow> bool" where
  "owned_in_flight me r = (case r of
     None \<Rightarrow> False
   | Some r \<Rightarrow> ir_state r = InFlight \<and> ow_instanceId (ir_owner r) = ow_instanceId me)"

definition record_result :: "EffectOwner \<Rightarrow> timestamp \<Rightarrow> json option \<Rightarrow> IdempotencyRecord option \<Rightarrow> IdempotencyRecord result" where
  "record_result me now value current =
     (case current of
        Some r \<Rightarrow>
          if owned_in_flight me current
          then Inr (r\<lparr>ir_state := Done, ir_finishedAt := Some now,
                     ir_resultJson := (case value of None \<Rightarrow> ir_resultJson r | Some v \<Rightarrow> Some v)\<rparr>)
          else Inl (failure DUPLICATE)
      | None \<Rightarrow> Inl (failure DUPLICATE))"

definition retryable_error :: "thrown \<Rightarrow> bool" where
  "retryable_error e = (case e of ThrownFailure f \<Rightarrow> e_retryable f | ThrownOther _ \<Rightarrow> False)"

definition recorded_error :: "thrown \<Rightarrow> GoalStudioError" where
  "recorded_error e = (case e of ThrownFailure f \<Rightarrow> f | ThrownOther m \<Rightarrow> GoalStudioFailure EXECUTION_FAILED m False [])"

definition recordFailure :: "EffectOwner \<Rightarrow> timestamp \<Rightarrow> thrown \<Rightarrow> IdempotencyRecord option \<Rightarrow> IdempotencyRecord option" where
  "recordFailure me now e current =
     (if owned_in_flight me current
      then map_option (\<lambda>r. r\<lparr>ir_state := if retryable_error e then Released else FailedEffect, ir_finishedAt := Some now,
                            ir_error := Some (recorded_error e)\<rparr>) current
      else current)"

definition replay :: "(EffectOwner \<Rightarrow> bool option) \<Rightarrow> IdempotencyRecord \<Rightarrow> json option result" where
  "replay alive r =
     (case ir_state r of
        Done \<Rightarrow> Inr (ir_resultJson r)
      | FailedEffect \<Rightarrow>
          (let e = (case ir_error r of Some e \<Rightarrow> e | None \<Rightarrow> GoalStudioFailure INTERNAL ''effect failed'' False [])
           in Inl (GoalStudioFailure (e_code e) (e_message e) False (e_details e)))
      | _ \<Rightarrow> Inl (GoalStudioFailure DUPLICATE [] (alive (ir_owner r) \<noteq> Some False) []))"

definition reconcile_record :: "timestamp \<Rightarrow> EffectResolution \<Rightarrow> string \<Rightarrow> IdempotencyRecord option \<Rightarrow> IdempotencyRecord result" where
  "reconcile_record now resolution actor current =
     (case current of
        None \<Rightarrow> Inl (failure NOT_FOUND)
      | Some r \<Rightarrow>
          if ir_state r \<noteq> InFlight then Inl (failure VALIDATION)
          else case resolution of
                 ResApplied result \<Rightarrow>
                   Inr (r\<lparr>ir_state := Done, ir_finishedAt := Some now, ir_reconciliation := Some (Applied, actor, now),
                         ir_resultJson := (case result of None \<Rightarrow> ir_resultJson r | Some v \<Rightarrow> Some v)\<rparr>)
               | ResNotApplied \<Rightarrow>
                   Inr (r\<lparr>ir_state := Released, ir_finishedAt := Some now, ir_reconciliation := Some (NotApplied, actor, now)\<rparr>))"

definition effectStatus :: "IdemStore \<Rightarrow> IdempotencyKey \<Rightarrow> IdempotencyRecord option" where
  "effectStatus s key = dget s key"

definition pendingEffects :: "(string \<Rightarrow> string \<Rightarrow> rat) \<Rightarrow> (EffectOwner \<Rightarrow> bool option) \<Rightarrow> IdempotencyKey list \<Rightarrow> string
    \<Rightarrow> IdemStore \<Rightarrow> PendingEffect list" where
  "pendingEffects localeCompare alive inflight keyPrefix s =
     sort_by (\<lambda>a b. localeCompare (pe_key a) (pe_key b))
       (map (\<lambda>r. \<lparr>pe_key = ir_key r, pe_owner = ir_owner r, pe_startedAt = ir_startedAt r, pe_ownerAlive = alive (ir_owner r)\<rparr>)
         (filter (\<lambda>r. ir_state r = InFlight \<and> ir_key r \<notin> set inflight)
           (map snd (filter (\<lambda>(k, _). startsWith k keyPrefix) s))))"

subsection \<open>One caller\<close>

text \<open>
  \<open>once(key, effect)\<close> for a caller that runs alone. The effect acts on a world \<open>'w\<close> and returns a
  value or throws; \<open>crash\<close> says whether the process dies after the effect and before its outcome is
  recorded (\<open>injectFault('AFTER_EFFECT_BEFORE_RECORD')\<close>), which shows as \<open>None\<close>.
\<close>

type_synonym 'w effect = "'w \<Rightarrow> (thrown + json option) \<times> 'w"

definition once_run :: "EffectOwner \<Rightarrow> timestamp \<Rightarrow> IdempotencyKey \<Rightarrow> 'w effect \<Rightarrow> bool
    \<Rightarrow> IdemStore \<times> 'w \<Rightarrow> (thrown + json option \<times> bool) option \<times> IdemStore \<times> 'w" where
  "once_run me now key effect crash sw =
     (let (s, w) = sw; (out, w') = effect w
      in if crash then (None, s, w')
         else case out of
           Inl e \<Rightarrow>
             (Some (Inl e), (case recordFailure me now e (dget s key) of None \<Rightarrow> s | Some r \<Rightarrow> dput key r s), w')
         | Inr value \<Rightarrow>
             (case record_result me now value (dget s key) of
                Inl e \<Rightarrow> (Some (Inl (ThrownFailure e)), s, w')
              | Inr r \<Rightarrow> (Some (Inr (value, False)), dput key r s, w')))"

definition once :: "EffectOwner \<Rightarrow> (EffectOwner \<Rightarrow> bool option) \<Rightarrow> timestamp \<Rightarrow> IdempotencyKey \<Rightarrow> 'w effect \<Rightarrow> bool
    \<Rightarrow> IdemStore \<times> 'w \<Rightarrow> (thrown + json option \<times> bool) option \<times> IdemStore \<times> 'w" where
  "once me alive now key effect crash sw =
     (let (s, w) = sw in
      if key = [] then (Some (Inl (ThrownFailure (failure VALIDATION))), s, w)
      else case effectStatus s key of
        Some r \<Rightarrow>
          if ir_state r \<noteq> Released
          then (Some (case replay alive r of Inl e \<Rightarrow> Inl (ThrownFailure e) | Inr v \<Rightarrow> Inr (v, True)), s, w)
          else once_run me now key effect crash (dput key (claim_record me now key (Some r)) s, w)
      | None \<Rightarrow> once_run me now key effect crash (dput key (claim_record me now key None) s, w))"

subsection \<open>Any number of callers\<close>

text \<open>
  A call of \<open>once\<close> goes through these phases: it awaits the record (\<open>Reading\<close>), has read it (\<open>HasRead\<close>),
  has registered its promise in \<open>inflight\<close> and awaits the claim (\<open>Claiming\<close>), runs the effect
  (\<open>Running\<close>), awaits the record of the outcome (\<open>Recording\<close>), or awaits the promise of another call
  in the same instance (\<open>Waiting\<close>). A settled call has its outcome in \<open>Settled\<close>.
\<close>

datatype CallPhase =
  Reading | HasRead "IdempotencyRecord option" | Claiming | Running | Recording "thrown + json option"
| Waiting nat | Settled "thrown + json option \<times> bool"

record OnceCall =
  oc_owner :: EffectOwner
  oc_key :: IdempotencyKey
  oc_phase :: CallPhase

text \<open>
  A call of \<open>reconcileEffect\<close> awaits the status of the effect and then the update of its record; callers may act
  in between.
\<close>

datatype ReconcilePhase = AwaitingStatus | AwaitingUpdate | Reconciled "IdempotencyRecord result"

record ReconcileCall =
  rc_owner :: EffectOwner
  rc_key :: IdempotencyKey
  rc_resolution :: EffectResolution
  rc_actor :: string
  rc_phase :: ReconcilePhase

text \<open>The ghost components count, per key, how often an effect was started and how often a key was
  released.\<close>

record IdemSystem =
  id_store :: IdemStore
  id_inflight :: "(string \<times> IdempotencyKey, nat) dict"
  id_calls :: "(nat, OnceCall) dict"
  id_reconciles :: "(nat, ReconcileCall) dict"
  id_starts :: "IdempotencyKey list"
  id_releases :: "IdempotencyKey list"

definition initial_idem :: IdemSystem where
  "initial_idem = \<lparr>id_store = [], id_inflight = [], id_calls = [], id_reconciles = [], id_starts = [], id_releases = []\<rparr>"

datatype IdemAction =
  ACall nat EffectOwner IdempotencyKey | ARead nat | ADecide nat | AClaim nat timestamp
| AEffect nat "thrown + json option" | ARecord nat timestamp | AJoin nat
| AReconcile nat EffectOwner IdempotencyKey EffectResolution string | AStatus nat | AUpdate nat timestamp | ACrash string

definition set_phase :: "nat \<Rightarrow> CallPhase \<Rightarrow> IdemSystem \<Rightarrow> IdemSystem" where
  "set_phase c p y = y\<lparr>id_calls := map (\<lambda>(k, call). (k, if k = c then call\<lparr>oc_phase := p\<rparr> else call)) (id_calls y)\<rparr>"

text \<open>The \<open>finally\<close> block: the call settles and the instance forgets the key, whichever call had
  registered it.\<close>

definition settle :: "nat \<Rightarrow> OnceCall \<Rightarrow> thrown + json option \<times> bool \<Rightarrow> IdemSystem \<Rightarrow> IdemSystem" where
  "settle c call out y =
     (let y' = set_phase c (Settled out) y
      in y'\<lparr>id_inflight := filter (\<lambda>(k, _). k \<noteq> (ow_instanceId (oc_owner call), oc_key call)) (id_inflight y')\<rparr>)"

definition to_outcome :: "json option result \<Rightarrow> bool \<Rightarrow> thrown + json option \<times> bool" where
  "to_outcome r replayed = (case r of Inl e \<Rightarrow> Inl (ThrownFailure e) | Inr v \<Rightarrow> Inr (v, replayed))"

definition put_record :: "IdempotencyKey \<Rightarrow> IdempotencyRecord \<Rightarrow> IdemSystem \<Rightarrow> IdemSystem" where
  "put_record key r y = y\<lparr>id_store := dput key r (id_store y)\<rparr>"

definition start_call :: "nat \<Rightarrow> EffectOwner \<Rightarrow> IdempotencyKey \<Rightarrow> IdemSystem \<Rightarrow> IdemSystem option" where
  "start_call c me key y =
     (if dget (id_calls y) c \<noteq> None \<or> key = [] then None
      else let p = (case dget (id_inflight y) (ow_instanceId me, key) of Some other \<Rightarrow> Waiting other | None \<Rightarrow> Reading)
           in Some (y\<lparr>id_calls := dput c \<lparr>oc_owner = me, oc_key = key, oc_phase = p\<rparr> (id_calls y)\<rparr>))"

definition decide_call :: "(EffectOwner \<Rightarrow> EffectOwner \<Rightarrow> bool option) \<Rightarrow> nat \<Rightarrow> OnceCall \<Rightarrow> IdempotencyRecord option
    \<Rightarrow> IdemSystem \<Rightarrow> IdemSystem" where
  "decide_call alive c call existing y =
     (case existing of
        Some r \<Rightarrow>
          if ir_state r \<noteq> Released
          then set_phase c (Settled (to_outcome (replay (alive (oc_owner call)) r) True)) y
          else (set_phase c Claiming y)\<lparr>id_inflight := dput (ow_instanceId (oc_owner call), oc_key call) c (id_inflight y)\<rparr>
      | None \<Rightarrow>
          (set_phase c Claiming y)\<lparr>id_inflight := dput (ow_instanceId (oc_owner call), oc_key call) c (id_inflight y)\<rparr>)"

definition claim_call :: "(EffectOwner \<Rightarrow> EffectOwner \<Rightarrow> bool option) \<Rightarrow> nat \<Rightarrow> OnceCall \<Rightarrow> timestamp \<Rightarrow> IdemSystem \<Rightarrow> IdemSystem" where
  "claim_call alive c call now y =
     (case dget (id_store y) (oc_key call) of
        Some r \<Rightarrow>
          if ir_state r \<noteq> Released then settle c call (to_outcome (replay (alive (oc_owner call)) r) True) y
          else (set_phase c Running (put_record (oc_key call) (claim_record (oc_owner call) now (oc_key call) (Some r)) y))
                 \<lparr>id_starts := oc_key call # id_starts y\<rparr>
      | None \<Rightarrow>
          (set_phase c Running (put_record (oc_key call) (claim_record (oc_owner call) now (oc_key call) None) y))
            \<lparr>id_starts := oc_key call # id_starts y\<rparr>)"

definition record_call :: "nat \<Rightarrow> OnceCall \<Rightarrow> thrown + json option \<Rightarrow> timestamp \<Rightarrow> IdemSystem \<Rightarrow> IdemSystem" where
  "record_call c call out now y =
     (case out of
        Inl e \<Rightarrow>
          (let current = dget (id_store y) (oc_key call);
               y1 = (case recordFailure (oc_owner call) now e current of None \<Rightarrow> y | Some r \<Rightarrow> put_record (oc_key call) r y);
               y2 = (if owned_in_flight (oc_owner call) current \<and> retryable_error e
                     then y1\<lparr>id_releases := oc_key call # id_releases y1\<rparr> else y1)
           in settle c call (Inl e) y2)
      | Inr value \<Rightarrow>
          (case record_result (oc_owner call) now value (dget (id_store y) (oc_key call)) of
             Inl e \<Rightarrow> settle c call (Inl (ThrownFailure e)) y
           | Inr r \<Rightarrow> settle c call (Inr (value, False)) (put_record (oc_key call) r y)))"

definition inflight_keys :: "string \<Rightarrow> IdemSystem \<Rightarrow> IdempotencyKey list" where
  "inflight_keys inst y = map (snd \<circ> fst) (filter (\<lambda>((i, _), _). i = inst) (id_inflight y))"

definition set_reconcile :: "nat \<Rightarrow> ReconcileCall \<Rightarrow> ReconcilePhase \<Rightarrow> IdemSystem \<Rightarrow> IdemSystem" where
  "set_reconcile c call p y = y\<lparr>id_reconciles := dput c (call\<lparr>rc_phase := p\<rparr>) (id_reconciles y)\<rparr>"

text \<open>\<open>reconcileEffect\<close> up to its first \<open>await\<close>, from there to the second, and the update itself\<close>

definition start_reconcile :: "nat \<Rightarrow> EffectOwner \<Rightarrow> IdempotencyKey \<Rightarrow> EffectResolution \<Rightarrow> string \<Rightarrow> IdemSystem \<Rightarrow> IdemSystem option" where
  "start_reconcile c me key resolution actor y =
     (if dget (id_reconciles y) c \<noteq> None then None
      else Some (set_reconcile c \<lparr>rc_owner = me, rc_key = key, rc_resolution = resolution, rc_actor = actor, rc_phase = AwaitingStatus\<rparr>
        (if actor = [] then Reconciled (Inl (failure VALIDATION))
         else if key \<in> set (inflight_keys (ow_instanceId me) y) then Reconciled (Inl (retryable_failure DUPLICATE))
         else AwaitingStatus) y))"

definition check_reconcile :: "(EffectOwner \<Rightarrow> EffectOwner \<Rightarrow> bool option) \<Rightarrow> nat \<Rightarrow> ReconcileCall \<Rightarrow> IdemSystem \<Rightarrow> IdemSystem" where
  "check_reconcile alive c call y =
     set_reconcile c call
       (case effectStatus (id_store y) (rc_key call) of
          None \<Rightarrow> AwaitingUpdate
        | Some r \<Rightarrow> if ir_state r = InFlight \<and> alive (rc_owner call) (ir_owner r) = Some True
            then Reconciled (Inl (retryable_failure DUPLICATE)) else AwaitingUpdate) y"

definition update_reconcile :: "nat \<Rightarrow> ReconcileCall \<Rightarrow> timestamp \<Rightarrow> IdemSystem \<Rightarrow> IdemSystem" where
  "update_reconcile c call now y =
     (case reconcile_record now (rc_resolution call) (rc_actor call) (dget (id_store y) (rc_key call)) of
        Inl e \<Rightarrow> set_reconcile c call (Reconciled (Inl e)) y
      | Inr r \<Rightarrow> (set_reconcile c call (Reconciled (Inr r)) (put_record (rc_key call) r y))
          \<lparr>id_releases := (if ir_state r = Released then [rc_key call] else []) @ id_releases y\<rparr>)"

fun idem_exec :: "(EffectOwner \<Rightarrow> EffectOwner \<Rightarrow> bool option) \<Rightarrow> IdemAction \<Rightarrow> IdemSystem \<Rightarrow> IdemSystem option" where
  "idem_exec alive (ACall c me key) y = start_call c me key y"
| "idem_exec alive (ARead c) y =
     (case dget (id_calls y) c of
        Some call \<Rightarrow> if oc_phase call = Reading then Some (set_phase c (HasRead (effectStatus (id_store y) (oc_key call))) y) else None
      | None \<Rightarrow> None)"
| "idem_exec alive (ADecide c) y =
     (case dget (id_calls y) c of
        Some call \<Rightarrow> (case oc_phase call of HasRead existing \<Rightarrow> Some (decide_call alive c call existing y) | _ \<Rightarrow> None)
      | None \<Rightarrow> None)"
| "idem_exec alive (AClaim c now) y =
     (case dget (id_calls y) c of
        Some call \<Rightarrow> if oc_phase call = Claiming then Some (claim_call alive c call now y) else None
      | None \<Rightarrow> None)"
| "idem_exec alive (AEffect c out) y =
     (case dget (id_calls y) c of
        Some call \<Rightarrow> if oc_phase call = Running then Some (set_phase c (Recording out) y) else None
      | None \<Rightarrow> None)"
| "idem_exec alive (ARecord c now) y =
     (case dget (id_calls y) c of
        Some call \<Rightarrow> (case oc_phase call of Recording out \<Rightarrow> Some (record_call c call out now y) | _ \<Rightarrow> None)
      | None \<Rightarrow> None)"
| "idem_exec alive (AJoin c) y =
     (case dget (id_calls y) c of
        Some call \<Rightarrow>
          (case oc_phase call of
             Waiting other \<Rightarrow>
               (case dget (id_calls y) other of
                  Some o' \<Rightarrow> (case oc_phase o' of
                     Settled (Inl e) \<Rightarrow> Some (set_phase c (Settled (Inl e)) y)
                   | Settled (Inr (v, _)) \<Rightarrow> Some (set_phase c (Settled (Inr (v, True))) y)
                   | _ \<Rightarrow> None)
                | None \<Rightarrow> None)
           | _ \<Rightarrow> None)
      | None \<Rightarrow> None)"
| "idem_exec alive (AReconcile c me key resolution actor) y = start_reconcile c me key resolution actor y"
| "idem_exec alive (AStatus c) y =
     (case dget (id_reconciles y) c of
        Some call \<Rightarrow> if rc_phase call = AwaitingStatus then Some (check_reconcile alive c call y) else None
      | None \<Rightarrow> None)"
| "idem_exec alive (AUpdate c now) y =
     (case dget (id_reconciles y) c of
        Some call \<Rightarrow> if rc_phase call = AwaitingUpdate then Some (update_reconcile c call now y) else None
      | None \<Rightarrow> None)"
| "idem_exec alive (ACrash inst) y =
     Some (y\<lparr>id_inflight := filter (\<lambda>((i, _), _). i \<noteq> inst) (id_inflight y),
            id_calls := filter (\<lambda>(_, call). ow_instanceId (oc_owner call) \<noteq> inst) (id_calls y),
            id_reconciles := filter (\<lambda>(_, call). ow_instanceId (rc_owner call) \<noteq> inst) (id_reconciles y)\<rparr>)"

fun idem_run :: "(EffectOwner \<Rightarrow> EffectOwner \<Rightarrow> bool option) \<Rightarrow> IdemAction list \<Rightarrow> IdemSystem \<Rightarrow> IdemSystem option" where
  "idem_run alive [] y = Some y"
| "idem_run alive (a # as) y = (case idem_exec alive a y of None \<Rightarrow> None | Some y' \<Rightarrow> idem_run alive as y')"

subsection \<open>Replay\<close>

lemmas once_simps = once_def once_run_def effectStatus_def record_result_def owned_in_flight_def claim_record_def replay_def Let_def

text \<open>
  A recorded result is replayed: when \<open>once\<close> returned a value for a key, every later \<open>once\<close> with
  that key, by any instance and with any effect, returns the same value marked as replayed, runs
  nothing and changes nothing.
\<close>

theorem once_result_is_replayed:
  assumes "once me alive now key effect False (s, w) = (Some (Inr (v, b)), s', w')"
  shows "once me' alive' now' key effect' crash' (s', w2) = (Some (Inr (v, True)), s', w2)"
proof (cases "unreleased (dget s key)")
  case True
  with assms show ?thesis
    by (auto simp: once_simps unreleased_def split: if_splits option.splits EffectState.splits sum.splits)
next
  case False
  have step: "once me' alive' now' key effect' crash' (dput key r s0, w2) = (Some (Inr (v, True)), dput key r s0, w2)"
    if "ir_state r = Done" "ir_resultJson r = v" "key \<noteq> []" for r s0
    using that by (simp add: once_simps)
  from False assms obtain s0 r where "s' = dput key r s0" "ir_state r = Done" "ir_resultJson r = v" "key \<noteq> []"
    by (auto simp: once_simps unreleased_def split: if_splits option.splits prod.splits sum.splits)
  with step show ?thesis by blast
qed

definition sample_owner :: EffectOwner where
  "sample_owner = \<lparr>ow_instanceId = ''ledger-1'', ow_pid = 10, ow_host = ''h''\<rparr>"

definition sample_effect :: "nat effect" where
  "sample_effect w = (Inr (Some (JNum 7)), w + 1)"

theorem once_result_is_replayed_witness:
  "\<exists>s'. once sample_owner (\<lambda>_. None) 5 ''k'' sample_effect False ([], 0) = (Some (Inr (Some (JNum 7), False)), s', 1) \<and>
     once (sample_owner\<lparr>ow_instanceId := ''ledger-2''\<rparr>) (\<lambda>_. Some False) 9 ''k'' sample_effect False (s', 1)
       = (Some (Inr (Some (JNum 7), True)), s', 1)"
proof -
  let ?o = "once sample_owner (\<lambda>_. None) 5 ''k'' sample_effect False ([], 0)"
  have "fst ?o = Some (Inr (Some (JNum 7), False)) \<and> snd (snd ?o) = 1" by code_simp
  then obtain s' where s': "?o = (Some (Inr (Some (JNum 7), False)), s', 1)" by (metis prod.collapse)
  with once_result_is_replayed [OF s', of "sample_owner\<lparr>ow_instanceId := ''ledger-2''\<rparr>" "\<lambda>_. Some False" 9 sample_effect False 1]
  show ?thesis by (intro exI [of _ s'] conjI)
qed

text \<open>
  An effect whose outcome is unknown is not run again: when the process dies between the effect and
  the record of its outcome, every later \<open>once\<close> with that key fails with DUPLICATE without running
  anything, by any instance, until the key is reconciled; the
  failure is marked retryable exactly when the owner may still be alive.
\<close>

theorem once_unknown_outcome_not_rerun:
  assumes "once me alive now key effect True (s, w) = (None, s', w')"
  shows "\<exists>e. once me' alive' now' key effect' crash' (s', w2) = (Some (Inl (ThrownFailure e)), s', w2) \<and>
     e_code e = DUPLICATE \<and> e_retryable e = (alive' me \<noteq> Some False)"
  using assms by (auto simp: once_simps split: if_splits option.splits prod.splits)

theorem once_unknown_outcome_not_rerun_witness:
  "\<exists>s' e. once sample_owner (\<lambda>_. None) 5 ''k'' sample_effect True ([], 0) = (None, s', 1) \<and>
     once (sample_owner\<lparr>ow_instanceId := ''ledger-2''\<rparr>) (\<lambda>_. Some False) 9 ''k'' sample_effect False (s', 1)
       = (Some (Inl (ThrownFailure e)), s', 1) \<and> e_code e = DUPLICATE"
proof -
  let ?o = "once sample_owner (\<lambda>_. None) 5 ''k'' sample_effect True ([], 0)"
  have "fst ?o = None \<and> snd (snd ?o) = 1" by code_simp
  then obtain s' where s': "?o = (None, s', 1)" by (metis prod.collapse)
  from once_unknown_outcome_not_rerun [OF s', of "sample_owner\<lparr>ow_instanceId := ''ledger-2''\<rparr>" "\<lambda>_. Some False" 9 sample_effect False 1]
  show ?thesis using s' by (elim exE) (intro exI conjI; blast)
qed

subsection \<open>How often an effect starts\<close>

definition key_ok :: "nat \<Rightarrow> nat \<Rightarrow> IdempotencyRecord option \<Rightarrow> bool" where
  "key_ok starts releases r \<longleftrightarrow>
     starts = (case r of None \<Rightarrow> 0 | Some r \<Rightarrow> ir_runs r) \<and> starts = releases + (if unreleased r then 1 else 0)"

definition idem_ok :: "IdemSystem \<Rightarrow> bool" where
  "idem_ok y \<longleftrightarrow> (\<forall>k. key_ok (count_list (id_starts y) k) (count_list (id_releases y) k) (dget (id_store y) k))"

lemma key_ok_simps [simp]:
  "key_ok n m None \<longleftrightarrow> n = 0 \<and> m = 0"
  "key_ok n m (Some r) \<longleftrightarrow> n = ir_runs r \<and> n = m + (if ir_state r = Released then 0 else 1)"
  by (auto simp: key_ok_def unreleased_def)

lemma idem_okI:
  "(\<And>k. key_ok (count_list (id_starts y) k) (count_list (id_releases y) k) (dget (id_store y) k)) \<Longrightarrow> idem_ok y"
  by (simp add: idem_ok_def)

lemma idem_okD: "idem_ok y \<Longrightarrow> key_ok (count_list (id_starts y) k) (count_list (id_releases y) k) (dget (id_store y) k)"
  by (simp add: idem_ok_def)

lemma set_phase_fields [simp]:
  "id_store (set_phase c p y) = id_store y" "id_starts (set_phase c p y) = id_starts y"
  "id_releases (set_phase c p y) = id_releases y" "id_inflight (set_phase c p y) = id_inflight y"
  by (simp_all add: set_phase_def)

lemma settle_fields [simp]:
  "id_store (settle c call out y) = id_store y" "id_starts (settle c call out y) = id_starts y"
  "id_releases (settle c call out y) = id_releases y"
  by (simp_all add: settle_def Let_def)

lemma put_record_fields [simp]:
  "id_store (put_record k r y) = dput k r (id_store y)" "id_starts (put_record k r y) = id_starts y"
  "id_releases (put_record k r y) = id_releases y"
  by (simp_all add: put_record_def)

lemma idem_ok_fields [simp]:
  "idem_ok (set_phase c p y) = idem_ok y"
  "idem_ok (y\<lparr>id_inflight := i\<rparr>) = idem_ok y"
  "idem_ok (y\<lparr>id_calls := cs\<rparr>) = idem_ok y"
  "idem_ok (y\<lparr>id_inflight := i, id_calls := cs, id_reconciles := rs\<rparr>) = idem_ok y"
  "idem_ok (set_reconcile c rc p' y) = idem_ok y"
  by (simp_all add: idem_ok_def set_reconcile_def)

lemma set_reconcile_fields [simp]:
  "id_store (set_reconcile c rc p y) = id_store y" "id_starts (set_reconcile c rc p y) = id_starts y"
  "id_releases (set_reconcile c rc p y) = id_releases y"
  by (simp_all add: set_reconcile_def)

text \<open>The effect of an action on the record of a key: it stays, or it is claimed, finished or released.\<close>

lemma claim_call_ok:
  assumes "idem_ok y"
  shows "idem_ok (claim_call alive c call now y)"
proof (rule idem_okI)
  fix k
  show "key_ok (count_list (id_starts (claim_call alive c call now y)) k)
      (count_list (id_releases (claim_call alive c call now y)) k) (dget (id_store (claim_call alive c call now y)) k)"
    using idem_okD [OF assms, of k]
    by (cases "dget (id_store y) (oc_key call)"; cases "k = oc_key call")
      (auto simp: claim_call_def claim_record_def split: if_splits)
qed

lemma record_call_ok:
  assumes "idem_ok y"
  shows "idem_ok (record_call c call out now y)"
proof (rule idem_okI)
  fix k
  show "key_ok (count_list (id_starts (record_call c call out now y)) k)
      (count_list (id_releases (record_call c call out now y)) k) (dget (id_store (record_call c call out now y)) k)"
    using idem_okD [OF assms, of k]
    by (cases out; cases "dget (id_store y) (oc_key call)"; cases "k = oc_key call")
      (auto simp: record_call_def record_result_def Let_def recordFailure_def owned_in_flight_def split: if_splits)
qed

lemma update_reconcile_ok:
  assumes "idem_ok y"
  shows "idem_ok (update_reconcile c call now y)"
proof (rule idem_okI)
  fix k
  show "key_ok (count_list (id_starts (update_reconcile c call now y)) k)
      (count_list (id_releases (update_reconcile c call now y)) k) (dget (id_store (update_reconcile c call now y)) k)"
    using idem_okD [OF assms, of k]
    by (cases "dget (id_store y) (rc_key call)"; cases "k = rc_key call")
      (auto simp: update_reconcile_def reconcile_record_def split: EffectResolution.splits)
qed

lemma reconcile_steps_ok:
  "start_reconcile c me key resolution actor y = Some z \<Longrightarrow> idem_ok z = idem_ok y" "idem_ok (check_reconcile alive c call y) = idem_ok y"
  by (auto simp: start_reconcile_def check_reconcile_def split: if_splits)

lemma idem_exec_ok:
  assumes "idem_exec alive a y = Some z" and "idem_ok y"
  shows "idem_ok z"
proof (cases a)
  case (ACall c me key)
  with assms show ?thesis by (auto simp: start_call_def Let_def split: if_splits)
next
  case (ADecide c)
  with assms show ?thesis by (auto simp: decide_call_def split: option.splits CallPhase.splits)
next
  case (AJoin c)
  with assms show ?thesis by (auto split: option.splits CallPhase.splits sum.splits prod.splits)
qed (use assms in \<open>auto simp: claim_call_ok record_call_ok update_reconcile_ok reconcile_steps_ok split: option.splits if_splits CallPhase.splits\<close>)

lemma idem_run_ok: "idem_run alive as y = Some y' \<Longrightarrow> idem_ok y \<Longrightarrow> idem_ok y'"
  by (induction alive as y rule: idem_run.induct) (auto dest: idem_exec_ok split: option.splits)

text \<open>
  C5. Exactly once, under any interleaving of callers and any crashes: the number of times the effect of
  a key was started equals the run counter of its record, and it is the number of times the key was
  released (by a retryable failure or by a reconciliation as not applied), plus one while the key
  is claimed. Without a release an effect is therefore started at most once.
\<close>

theorem effect_starts_bounded_by_releases:
  assumes "idem_run alive as initial_idem = Some y"
  shows "count_list (id_starts y) k = (case dget (id_store y) k of None \<Rightarrow> 0 | Some r \<Rightarrow> ir_runs r) \<and>
     count_list (id_starts y) k = count_list (id_releases y) k + (if unreleased (dget (id_store y) k) then 1 else 0)"
proof -
  have "idem_ok initial_idem" by (simp add: idem_ok_def initial_idem_def)
  from idem_okD [OF idem_run_ok [OF assms this], of k] show ?thesis by (simp add: key_ok_def)
qed

definition sample_alive :: "EffectOwner \<Rightarrow> EffectOwner \<Rightarrow> bool option" where
  "sample_alive me owner = ownerAlive False (\<lambda>_. True) me owner"

definition sample_once_trace :: "IdemAction list" where
  "sample_once_trace = [ACall 1 sample_owner ''k'', ARead 1, ADecide 1, AClaim 1 5, ACrash ''ledger-1'',
     ACall 2 (sample_owner\<lparr>ow_instanceId := ''ledger-2'', ow_pid := 11\<rparr>) ''k'', ARead 2, ADecide 2]"

theorem effect_starts_bounded_by_releases_witness:
  "\<exists>y. idem_run sample_alive sample_once_trace initial_idem = Some y \<and> count_list (id_starts y) ''k'' = 1"
proof -
  have "map_option id_releases (idem_run sample_alive sample_once_trace initial_idem) = Some []"
    "map_option (\<lambda>y. unreleased (dget (id_store y) ''k'')) (idem_run sample_alive sample_once_trace initial_idem) = Some True"
    by code_simp+
  then obtain y where y: "idem_run sample_alive sample_once_trace initial_idem = Some y" "id_releases y = []"
    "unreleased (dget (id_store y) ''k'')" by auto
  from effect_starts_bounded_by_releases [OF y(1), of "''k''"] y show ?thesis by simp
qed

lemma idem_exec_final:
  assumes "idem_exec alive a y = Some z" and r: "dget (id_store y) k = Some r" and fin: "ir_state r \<in> {Done, FailedEffect}"
  shows "dget (id_store z) k = Some r"
  using assms(1)
proof (cases a)
  case (ACall c me key)
  with assms show ?thesis by (auto simp: start_call_def Let_def split: if_splits)
next
  case (ADecide c)
  with assms show ?thesis by (auto simp: decide_call_def split: option.splits CallPhase.splits)
next
  case (AClaim c now)
  with assms show ?thesis by (auto simp: claim_call_def split: option.splits if_splits)
next
  case (ARecord c now)
  then obtain call out where "z = record_call c call out now y"
    using assms(1) by (auto split: option.splits CallPhase.splits)
  with r fin show ?thesis
    by (cases out; cases "oc_key call = k"; cases "dget (id_store y) (oc_key call)")
      (auto simp: record_call_def record_result_def Let_def recordFailure_def owned_in_flight_def)
next
  case (AReconcile c me key resolution actor)
  with assms show ?thesis by (auto simp: start_reconcile_def split: if_splits)
next
  case (AUpdate c now)
  then obtain call where "z = update_reconcile c call now y" using assms(1) by (auto split: option.splits if_splits)
  with r fin show ?thesis
    by (cases "rc_key call = k") (auto simp: update_reconcile_def reconcile_record_def split: sum.splits option.splits EffectResolution.splits if_splits)
qed (use r in \<open>auto simp: check_reconcile_def split: option.splits if_splits CallPhase.splits sum.splits prod.splits\<close>)

text \<open>
  A finished record is final: once the record of a key is done or failed, no action of any caller
  changes it, so the result (or the error) that is replayed never changes.
\<close>

theorem finished_effect_is_final:
  assumes "idem_run alive as y = Some z" and "dget (id_store y) k = Some r" and "ir_state r \<in> {Done, FailedEffect}"
  shows "dget (id_store z) k = Some r"
  using assms
  by (induction alive as y rule: idem_run.induct) (auto dest: idem_exec_final split: option.splits)

theorem finished_effect_is_final_witness:
  "\<exists>y z r. idem_run sample_alive [ACall 1 sample_owner ''k'', ARead 1, ADecide 1, AClaim 1 5, AEffect 1 (Inr None), ARecord 1 6] initial_idem = Some y \<and>
     dget (id_store y) ''k'' = Some r \<and> ir_state r = Done \<and>
     idem_run sample_alive [AReconcile 2 sample_owner ''k'' ResNotApplied ''user:ann'', AStatus 2, AUpdate 2 7] y = Some z \<and> dget (id_store z) ''k'' = Some r"
proof -
  have "map_option (\<lambda>y. map_option ir_state (dget (id_store y) ''k''))
      (idem_run sample_alive [ACall 1 sample_owner ''k'', ARead 1, ADecide 1, AClaim 1 5, AEffect 1 (Inr None), ARecord 1 6] initial_idem) = Some (Some Done)"
    by code_simp
  then obtain y r where y: "idem_run sample_alive [ACall 1 sample_owner ''k'', ARead 1, ADecide 1, AClaim 1 5, AEffect 1 (Inr None), ARecord 1 6] initial_idem = Some y"
    "dget (id_store y) ''k'' = Some r" "ir_state r = Done" by auto
  let ?as = "[AReconcile 2 sample_owner ''k'' ResNotApplied ''user:ann'', AStatus 2, AUpdate 2 7]"
  have "map_option (\<lambda>_. ()) (Option.bind (idem_run sample_alive [ACall 1 sample_owner ''k'', ARead 1, ADecide 1, AClaim 1 5, AEffect 1 (Inr None), ARecord 1 6] initial_idem)
      (idem_run sample_alive ?as)) = Some ()" by code_simp
  with y(1) obtain z where z: "idem_run sample_alive ?as y = Some z" by auto
  from finished_effect_is_final [OF z y(2)] y z show ?thesis by auto
qed

definition racing_trace :: "IdemAction list" where
  "racing_trace = [ACall 1 sample_owner ''k'', ACall 2 sample_owner ''k'', ARead 1, ARead 2, ADecide 1, ADecide 2,
     AClaim 1 5, AClaim 2 6, AReconcile 1 sample_owner ''k'' ResNotApplied ''user:ann'', AStatus 1, AUpdate 1 7,
     ACall 3 sample_owner ''k'', ARead 3, ADecide 3, AClaim 3 8]"

text \<open>
  The limit of the in-process guard. Two concurrent calls with one key in one instance, both past
  the check of \<open>inflight\<close> before either has registered itself: the one that loses the claim
  removes the entry of the winner from \<open>inflight\<close> when it settles, after which the effect can be
  reconciled as not applied, and then started again, while the first effect is still running.
\<close>

theorem once_race_runs_effect_twice:
  "\<exists>y. idem_run sample_alive racing_trace initial_idem = Some y \<and>
     map_option oc_phase (dget (id_calls y) 1) = Some Running \<and> map_option oc_phase (dget (id_calls y) 3) = Some Running"
proof -
  have "map_option (\<lambda>y. (map_option oc_phase (dget (id_calls y) 1), map_option oc_phase (dget (id_calls y) 3)))
      (idem_run sample_alive racing_trace initial_idem) = Some (Some Running, Some Running)"
    by code_simp
  then show ?thesis by auto
qed

end
