(* ===== verification/Eligibility.thy ===== *)
theory Eligibility
  imports Contracts "HOL-Library.Product_Lexorder"
begin

text \<open>
  Scheduling of targets: \<open>src/packages/goals/src/controller/eligibility.ts\<close>. The critical-path
  metrics of the dependency graph, the order in which eligible targets are tried, the rule for
  eligibility and the state machine of one target. The lemmas characterise the metrics by the
  dependency relation, show that the scheduler picks exactly the targets whose dependencies are
  all completed and in which order, and state what the state machine excludes.
\<close>

subsection \<open>Critical-path metrics\<close>

record TargetCriticality =
  tc_targetId :: TargetId
  tc_transitiveDependents :: nat
  tc_longestDownstreamChain :: nat

text \<open>
  \<open>computeCriticality\<close> builds the dictionary of direct dependents in three loops: an empty list
  for every target, one entry per dependency edge (edges from unknown targets are dropped by
  the optional chaining) and a sort of every list.
\<close>

type_synonym dependents_map = "(TargetId, TargetId list) dict"

fun push_dependent :: "TargetId \<Rightarrow> TargetId \<Rightarrow> dependents_map \<Rightarrow> dependents_map" where
  "push_dependent dep t m = (case dget m dep of None \<Rightarrow> m | Some l \<Rightarrow> dput dep (l @ [t]) m)"

definition dependents_of :: "GoalTarget list \<Rightarrow> dependents_map" where
  "dependents_of targets =
     (let m0 = fold (\<lambda>t m. dput (t_id t) [] m) targets [];
          m1 = fold (\<lambda>t m. fold (\<lambda>dep m. push_dependent dep (t_id t) m) (t_dependsOn t) m) targets m0
      in map (\<lambda>(k, l). (k, sort_by compare_str l)) m1)"

definition dependents_get :: "dependents_map \<Rightarrow> TargetId \<Rightarrow> TargetId list" where
  "dependents_get m x = (case dget m x of None \<Rightarrow> [] | Some l \<Rightarrow> l)"

lemma unvisited_less:
  assumes "i \<in> set (dkeys m)" "i \<notin> set stack"
  shows "card (set (dkeys m) - set (i # stack)) < card (set (dkeys m) - set stack)"
  by (rule psubset_card_mono) (use assms in auto)

lemma dependents_get_unknown: "i \<notin> set (dkeys m) \<Longrightarrow> dependents_get m i = []"
  using dget_None_keys [of m i] by (simp add: dependents_get_def)

text \<open>The memoised depth-first search \<open>chain\<close>; the mutable set \<open>stack\<close> holds the nodes of the
  current path and is back in its old state when a call returns.\<close>

function chain :: "dependents_map \<Rightarrow> (TargetId, nat) dict \<Rightarrow> TargetId list \<Rightarrow> TargetId \<Rightarrow> nat \<times> (TargetId, nat) dict"
  and chain_loop :: "dependents_map \<Rightarrow> (TargetId, nat) dict \<Rightarrow> TargetId list \<Rightarrow> TargetId list \<Rightarrow> nat \<Rightarrow> nat \<times> (TargetId, nat) dict" where
  "chain m memo stack i =
     (case dget memo i of
        Some n \<Rightarrow> (n, memo)
      | None \<Rightarrow>
          if i \<in> set stack then (0, memo)
          else (let (best, memo') = chain_loop m memo (i # stack) (dependents_get m i) 0
                in (best, dput i best memo')))"
| "chain_loop m memo stack [] best = (best, memo)"
| "chain_loop m memo stack (d # ds) best =
     (let (n, memo') = chain m memo stack d
      in chain_loop m memo' stack ds (max best (1 + n)))"
  by pat_completeness auto

termination
proof (relation "inv_image (less_than <*lex*> less_than)
    (case_sum (\<lambda>(m, memo, stack, i). (card (set (dkeys m) - set stack), 1::nat))
              (\<lambda>(m, memo, stack, ds, best). (card (set (dkeys m) - set stack), 2 * length ds)))",
    goal_cases)
  case 1
  show ?case by (intro wf_inv_image wf_lex_prod wf_less_than)
next
  case (2 m memo stack i)
  show ?case
  proof (cases "i \<in> set (dkeys m)")
    case True
    with 2 unvisited_less [of i m stack] show ?thesis by simp
  next
    case False
    with 2 dependents_get_unknown [of i m] show ?thesis by simp
  qed
qed auto

text \<open>The breadth-first search that collects the transitive dependents of \<open>self\<close>.\<close>

function collect :: "dependents_map \<Rightarrow> TargetId \<Rightarrow> TargetId list \<Rightarrow> TargetId list \<Rightarrow> TargetId list" where
  "collect m self seen [] = seen"
| "collect m self seen (n # q) =
     (if n \<in> set seen \<or> n = self then collect m self seen q
      else collect m self (n # seen) (q @ dependents_get m n))"
  by pat_completeness auto

termination
proof (relation "inv_image (less_than <*lex*> less_than)
    (\<lambda>(m, self, seen, q). (card (set (dkeys m) - set seen), length q))", goal_cases)
  case 1
  show ?case by (intro wf_inv_image wf_lex_prod wf_less_than)
next
  case (3 m self seen n q)
  show ?case
  proof (cases "n \<in> set (dkeys m)")
    case True
    with 3 unvisited_less [of n m seen] show ?thesis by simp
  next
    case False
    with 3 dependents_get_unknown [of n m] show ?thesis by simp
  qed
qed auto

fun criticality_loop :: "dependents_map \<Rightarrow> GoalTarget list \<Rightarrow> (TargetId, nat) dict
    \<Rightarrow> (TargetId, TargetCriticality) dict \<Rightarrow> (TargetId, TargetCriticality) dict" where
  "criticality_loop m [] memo result = result"
| "criticality_loop m (t # ts) memo result =
     (let seen = collect m (t_id t) [] (dependents_get m (t_id t));
          (n, memo') = chain m memo [] (t_id t)
      in criticality_loop m ts memo'
           (dput (t_id t) \<lparr>tc_targetId = t_id t, tc_transitiveDependents = length seen,
                           tc_longestDownstreamChain = n\<rparr> result))"

definition computeCriticality :: "GoalTarget list \<Rightarrow> (TargetId, TargetCriticality) dict" where
  "computeCriticality targets = criticality_loop (dependents_of targets) targets [] []"

subsection \<open>The order of targets\<close>

definition crit_dependents :: "(TargetId, TargetCriticality) dict \<Rightarrow> TargetId \<Rightarrow> nat" where
  "crit_dependents c i = (case dget c i of None \<Rightarrow> 0 | Some x \<Rightarrow> tc_transitiveDependents x)"

definition crit_chain :: "(TargetId, TargetCriticality) dict \<Rightarrow> TargetId \<Rightarrow> nat" where
  "crit_chain c i = (case dget c i of None \<Rightarrow> 0 | Some x \<Rightarrow> tc_longestDownstreamChain x)"

definition compareTargets :: "(TargetId, TargetCriticality) dict \<Rightarrow> GoalTarget \<Rightarrow> GoalTarget \<Rightarrow> rat" where
  "compareTargets c a b =
     (let dependents = rat_of_nat (crit_dependents c (t_id b)) - rat_of_nat (crit_dependents c (t_id a));
          chainDiff = rat_of_nat (crit_chain c (t_id b)) - rat_of_nat (crit_chain c (t_id a));
          priority = t_priority b - t_priority a
      in if dependents \<noteq> 0 then dependents
         else if chainDiff \<noteq> 0 then chainDiff
         else if priority \<noteq> 0 then priority
         else compare_str (t_id a) (t_id b))"

subsection \<open>Eligibility\<close>

definition isTerminalTargetStatus :: "TargetStatus \<Rightarrow> bool" where
  "isTerminalTargetStatus s \<longleftrightarrow> s \<in> set TERMINAL_TARGET_STATUSES"

definition dependenciesCompleted :: "GoalRunLedger \<Rightarrow> GoalTarget \<Rightarrow> bool" where
  "dependenciesCompleted run target = list_all
     (\<lambda>dep. case dget (r_targets run) dep of
              None \<Rightarrow> False
            | Some entry \<Rightarrow> le_status entry \<in> set UNLOCKING_TARGET_STATUSES) (t_dependsOn target)"

definition SELECTABLE :: "TargetStatus list" where
  "SELECTABLE = [Queued, Eligible]"

definition status_of :: "GoalRunLedger \<Rightarrow> TargetId \<Rightarrow> TargetStatus" where
  "status_of run i = (case dget (r_targets run) i of None \<Rightarrow> Queued | Some entry \<Rightarrow> le_status entry)"

definition eligibleTargets :: "GoalRunLedger \<Rightarrow> GoalTarget list \<Rightarrow> TargetId list" where
  "eligibleTargets run targets =
     (let criticality = computeCriticality targets
      in map t_id (sort_by (compareTargets criticality)
           (filter (\<lambda>t. status_of run (t_id t) \<in> set SELECTABLE \<and> dependenciesCompleted run t) targets)))"

definition newlyUnlockedTargets :: "GoalRunLedger \<Rightarrow> GoalTarget list \<Rightarrow> TargetId list" where
  "newlyUnlockedTargets run targets =
     filter (\<lambda>i. status_of run i = Queued) (eligibleTargets run targets)"

subsection \<open>The state machine of a target\<close>

fun TARGET_TRANSITIONS :: "TargetStatus \<Rightarrow> TargetStatus list" where
  "TARGET_TRANSITIONS Queued = [Eligible, Blocked, Stopped]"
| "TARGET_TRANSITIONS Eligible = [Active, Queued, NeedsApproval, Blocked, Stopped]"
| "TARGET_TRANSITIONS Active = [Verifying, Failed, NeedsApproval, Blocked, Stopped]"
| "TARGET_TRANSITIONS Verifying = [Verified, Failed, AwaitingExternal, Blocked, Stopped]"
| "TARGET_TRANSITIONS Verified = [Completed, NeedsApproval, AwaitingExternal, Failed, Blocked, Stopped]"
| "TARGET_TRANSITIONS Failed = [Repairing, Blocked, Stopped]"
| "TARGET_TRANSITIONS Repairing = [Active, Eligible, Blocked, Stopped]"
| "TARGET_TRANSITIONS NeedsApproval = [Eligible, Completed, Blocked, Stopped]"
| "TARGET_TRANSITIONS AwaitingExternal = [Blocked, Stopped]"
| "TARGET_TRANSITIONS Blocked = []"
| "TARGET_TRANSITIONS Completed = []"
| "TARGET_TRANSITIONS Stopped = []"

fun HUMAN_TARGET_TRANSITIONS :: "TargetStatus \<Rightarrow> TargetStatus list" where
  "HUMAN_TARGET_TRANSITIONS Failed = [Eligible]"
| "HUMAN_TARGET_TRANSITIONS Blocked = [Eligible]"
| "HUMAN_TARGET_TRANSITIONS AwaitingExternal = [Eligible]"
| "HUMAN_TARGET_TRANSITIONS Stopped = [Eligible]"
| "HUMAN_TARGET_TRANSITIONS NeedsApproval = [Eligible, Completed, Blocked]"
| "HUMAN_TARGET_TRANSITIONS _ = []"

definition isUser :: "string \<Rightarrow> bool" where
  "isUser actor = startsWith actor ''user:''"

definition canTransitionTarget :: "TargetStatus \<Rightarrow> TargetStatus \<Rightarrow> string \<Rightarrow> bool" where
  "canTransitionTarget from to actor =
     (if to \<in> set (TARGET_TRANSITIONS from)
      then (if from = NeedsApproval \<and> to = Completed then isUser actor else True)
      else isUser actor \<and> to \<in> set (HUMAN_TARGET_TRANSITIONS from))"

definition assertTargetTransition :: "TargetId \<Rightarrow> TargetStatus \<Rightarrow> TargetStatus \<Rightarrow> string \<Rightarrow> unit result" where
  "assertTargetTransition targetId from to actor = guardE (canTransitionTarget from to actor) (failure VALIDATION)"

subsection \<open>The dependents dictionary\<close>

text \<open>The relation \<open>dep_rel\<close> holds of a target and its direct dependent.\<close>

definition dep_rel :: "GoalTarget list \<Rightarrow> (TargetId \<times> TargetId) set" where
  "dep_rel targets = {(d, t_id t) | d t. t \<in> set targets \<and> d \<in> set (t_dependsOn t) \<and> d \<in> t_id ` set targets}"

definition succ_rel :: "dependents_map \<Rightarrow> (TargetId \<times> TargetId) set" where
  "succ_rel m = {(x, y). y \<in> set (dependents_get m x)}"

lemma dget_init_dependents:
  "dget (fold (\<lambda>t m. dput (t_id t) [] m) targets m) x =
     (if x \<in> t_id ` set targets then Some [] else dget m x)"
  by (induction targets arbitrary: m) auto

lemma push_dependents:
  "map_option set (dget (fold (\<lambda>dep m. push_dependent dep i m) deps m) x) =
     map_option (\<lambda>l. set l \<union> (if x \<in> set deps then {i} else {})) (dget m x)"
proof (induction deps arbitrary: m)
  case Nil
  then show ?case by (cases "dget m x") auto
next
  case (Cons d deps)
  show ?case
    by (simp add: Cons.IH del: push_dependent.simps) (cases "dget m x"; cases "dget m d"; auto)
qed

lemma push_all_dependents:
  "map_option set (dget (fold (\<lambda>t m. fold (\<lambda>dep m. push_dependent dep (t_id t) m) (t_dependsOn t) m) targets m) x) =
     map_option (\<lambda>l. set l \<union> {t_id t | t. t \<in> set targets \<and> x \<in> set (t_dependsOn t)}) (dget m x)"
proof (induction targets arbitrary: m)
  case Nil
  then show ?case by (cases "dget m x") auto
next
  case (Cons t targets)
  have "map_option set (dget (fold (\<lambda>dep m. push_dependent dep (t_id t) m) (t_dependsOn t) m) x) =
     map_option (\<lambda>l. set l \<union> (if x \<in> set (t_dependsOn t) then {t_id t} else {})) (dget m x)"
    by (rule push_dependents)
  then show ?case
    by (cases "dget m x") (auto simp: Cons.IH simp del: push_dependent.simps)
qed

lemma dependents_of_rel: "succ_rel (dependents_of targets) = dep_rel targets"
proof -
  have "set (dependents_get (dependents_of targets) x) = {y. (x, y) \<in> dep_rel targets}" for x
    using push_all_dependents [of targets "fold (\<lambda>t m. dput (t_id t) [] m) targets []" x]
    by (auto simp: dependents_get_def dependents_of_def map_of_map dget_init_dependents dep_rel_def
        simp del: push_dependent.simps split: option.splits if_splits)
  then show ?thesis by (auto simp: succ_rel_def)
qed

subsection \<open>Transitive dependents\<close>

lemma collect_distinct: "distinct seen \<Longrightarrow> distinct (collect m self seen q)"
  by (induction m self seen q rule: collect.induct) auto

lemma collect_grows: "set seen \<union> (set q - {self}) \<subseteq> set (collect m self seen q)"
  by (induction m self seen q rule: collect.induct) auto

lemma collect_not_self: "self \<notin> set seen \<Longrightarrow> self \<notin> set (collect m self seen q)"
  by (induction m self seen q rule: collect.induct) auto

lemma collect_closed:
  assumes "\<And>n. n \<in> set seen \<Longrightarrow> set (dependents_get m n) \<subseteq> set seen \<union> set q \<union> {self}"
    and "n \<in> set (collect m self seen q)"
  shows "set (dependents_get m n) \<subseteq> set (collect m self seen q) \<union> {self}"
  using assms
proof (induction m self seen q arbitrary: n rule: collect.induct)
  case (2 m self seen n' q)
  show ?case
  proof (cases "n' \<in> set seen \<or> n' = self")
    case True
    with 2 show ?thesis by (simp) blast
  next
    case False
    have "set (dependents_get m k) \<subseteq> set (n' # seen) \<union> set (q @ dependents_get m n') \<union> {self}"
      if "k \<in> set (n' # seen)" for k
      using that 2(3) [of k] by auto
    from 2(2) [OF False this] False 2(4) show ?thesis by simp
  qed
qed auto

lemma collect_reachable:
  "set (collect m self seen q) \<subseteq> set seen \<union> {y. \<exists>x\<in>set q. (x, y) \<in> (succ_rel m)\<^sup>*}"
proof (induction m self seen q rule: collect.induct)
  case (2 m self seen n q)
  show ?case
  proof (cases "n \<in> set seen \<or> n = self")
    case False
    have "(n, y) \<in> (succ_rel m)\<^sup>*" if "x \<in> set (dependents_get m n)" "(x, y) \<in> (succ_rel m)\<^sup>*" for x y
      using that by (auto simp: succ_rel_def intro: converse_rtrancl_into_rtrancl)
    with 2(2) [OF False] False show ?thesis by (simp) blast
  qed (use 2 in auto)
qed auto

lemma collect_correct:
  "set (collect m self [] (dependents_get m self)) = {y. (self, y) \<in> (succ_rel m)\<^sup>+ \<and> y \<noteq> self}"
  (is "?R = _")
proof (intro equalityI subsetI)
  fix y assume y: "y \<in> ?R"
  with collect_reachable [of m self "[]" "dependents_get m self"]
  obtain x where "(self, x) \<in> succ_rel m" "(x, y) \<in> (succ_rel m)\<^sup>*"
    by (auto simp: succ_rel_def)
  moreover have "y \<noteq> self" using collect_not_self [of self "[]"] y by auto
  ultimately show "y \<in> {y. (self, y) \<in> (succ_rel m)\<^sup>+ \<and> y \<noteq> self}"
    by (simp add: rtrancl_into_trancl2)
next
  fix y assume "y \<in> {y. (self, y) \<in> (succ_rel m)\<^sup>+ \<and> y \<noteq> self}"
  then have "(self, y) \<in> (succ_rel m)\<^sup>+" and "y \<noteq> self" by auto
  have grow: "set (dependents_get m self) - {self} \<subseteq> ?R"
    using collect_grows [of "[]" "dependents_get m self" self m] by simp
  have "y \<in> ?R \<or> y = self" using \<open>(self, y) \<in> (succ_rel m)\<^sup>+\<close>
  proof (induction rule: trancl_induct)
    case (base z)
    with grow show ?case by (auto simp: succ_rel_def)
  next
    case (step z w)
    show ?case
    proof (cases "z = self")
      case True
      with step grow show ?thesis by (auto simp: succ_rel_def)
    next
      case False
      with step have "z \<in> ?R" by simp
      from collect_closed [OF _ this] step(2) show ?thesis by (auto simp: succ_rel_def)
    qed
  qed
  with \<open>y \<noteq> self\<close> show "y \<in> ?R" by simp
qed

subsection \<open>The longest downstream chain\<close>

definition longest :: "('a \<times> 'a) set \<Rightarrow> 'a \<Rightarrow> nat \<Rightarrow> bool" where
  "longest r x n \<longleftrightarrow> (\<exists>y. (x, y) \<in> r ^^ n) \<and> (\<forall>k y. (x, y) \<in> r ^^ k \<longrightarrow> k \<le> n)"

lemma longest_unique: "longest r x n \<Longrightarrow> longest r x n' \<Longrightarrow> n = n'"
  unfolding longest_def by (meson le_antisym)

lemma longest_step:
  assumes succ: "\<And>d. (x, d) \<in> r \<Longrightarrow> \<exists>n. longest r d n \<and> Suc n \<le> b"
    and b: "b = 0 \<or> (\<exists>d n. (x, d) \<in> r \<and> longest r d n \<and> b = Suc n)"
  shows "longest r x b"
  unfolding longest_def
proof (intro conjI allI impI)
  from b show "\<exists>y. (x, y) \<in> r ^^ b"
  proof
    assume "b = 0"
    then show ?thesis by auto
  next
    assume "\<exists>d n. (x, d) \<in> r \<and> longest r d n \<and> b = Suc n"
    then obtain d n y where "(x, d) \<in> r" "(d, y) \<in> r ^^ n" "b = Suc n"
      unfolding longest_def by blast
    then show ?thesis by (blast intro: relpow_Suc_I2)
  qed
next
  fix k y assume "(x, y) \<in> r ^^ k"
  then show "k \<le> b"
  proof (cases k)
    case (Suc k')
    with \<open>(x, y) \<in> r ^^ k\<close> obtain d where d: "(x, d) \<in> r" "(d, y) \<in> r ^^ k'"
      by (meson relpow_Suc_E2)
    from succ [OF d(1)] obtain n where n: "longest r d n" "Suc n \<le> b" by blast
    from n(1) d(2) have "k' \<le> n" unfolding longest_def by blast
    with n(2) Suc show ?thesis by simp
  qed simp
qed

definition memo_ok :: "dependents_map \<Rightarrow> (TargetId, nat) dict \<Rightarrow> bool" where
  "memo_ok m memo \<longleftrightarrow> (\<forall>i n. dget memo i = Some n \<longrightarrow> longest (succ_rel m) i n)"

lemma chain_longest:
  "acyclic (succ_rel m) \<Longrightarrow> memo_ok m memo \<Longrightarrow> (\<And>s. s \<in> set stack \<Longrightarrow> (s, i) \<in> (succ_rel m)\<^sup>+) \<Longrightarrow>
     longest (succ_rel m) i (fst (chain m memo stack i)) \<and> memo_ok m (snd (chain m memo stack i))"
  and chain_loop_longest:
  "acyclic (succ_rel m) \<Longrightarrow> memo_ok m memo \<Longrightarrow>
     (\<And>s d. s \<in> set stack \<Longrightarrow> d \<in> set ds \<Longrightarrow> (s, d) \<in> (succ_rel m)\<^sup>+) \<Longrightarrow>
     memo_ok m (snd (chain_loop m memo stack ds best)) \<and>
     best \<le> fst (chain_loop m memo stack ds best) \<and>
     (\<forall>d\<in>set ds. \<exists>n. longest (succ_rel m) d n \<and> Suc n \<le> fst (chain_loop m memo stack ds best)) \<and>
     (fst (chain_loop m memo stack ds best) = best \<or>
      (\<exists>d\<in>set ds. \<exists>n. longest (succ_rel m) d n \<and> fst (chain_loop m memo stack ds best) = Suc n))"
proof (induction m memo stack i and m memo stack ds best rule: chain_chain_loop.induct)
  case (1 m memo stack i)
  show ?case
  proof (cases "dget memo i")
    case (Some n)
    with 1 show ?thesis by (simp add: memo_ok_def)
  next
    case None
    have fresh: "i \<notin> set stack" using 1(2,4) by (auto simp: acyclic_def)
    have path: "(s, d) \<in> (succ_rel m)\<^sup>+" if "s \<in> set (i # stack)" "d \<in> set (dependents_get m i)" for s d
    proof -
      have "(i, d) \<in> succ_rel m" using that by (simp add: succ_rel_def)
      with that 1(4) show ?thesis by (auto intro: trancl_into_trancl)
    qed
    let ?L = "chain_loop m memo (i # stack) (dependents_get m i) 0"
    note IH = 1(1) [OF None fresh 1(2,3) path]
    from IH have "longest (succ_rel m) i (fst ?L)"
      by (intro longest_step) (auto simp: succ_rel_def)
    with IH None fresh show ?thesis
      by (auto simp: memo_ok_def split: prod.splits)
  qed
next
  case (2 m memo stack best)
  then show ?case by simp
next
  case (3 m memo stack d ds best)
  obtain n memo' where n: "chain m memo stack d = (n, memo')" by fastforce
  from 3(1) [OF 3(3,4)] 3(5) n have d: "longest (succ_rel m) d n" and ok: "memo_ok m memo'" by auto
  let ?R = "chain_loop m memo' stack ds (max best (1 + n))"
  have R: "chain_loop m memo stack (d # ds) best = ?R" using n by simp
  from 3(2) [OF n [symmetric] refl 3(3) ok] 3(5)
  have IH: "memo_ok m (snd ?R)" "max best (1 + n) \<le> fst ?R"
    "\<forall>d\<in>set ds. \<exists>n. longest (succ_rel m) d n \<and> Suc n \<le> fst ?R"
    "fst ?R = max best (1 + n) \<or> (\<exists>d\<in>set ds. \<exists>n. longest (succ_rel m) d n \<and> fst ?R = Suc n)"
    by auto
  have "fst ?R = best \<or> (\<exists>e\<in>set (d # ds). \<exists>k. longest (succ_rel m) e k \<and> fst ?R = Suc k)"
    using IH(4) d by (auto simp: max_def split: if_splits)
  moreover have "best \<le> fst ?R" "Suc n \<le> fst ?R" using IH(2) by auto
  ultimately show ?case unfolding R using IH(1,3) d by auto
qed

lemma criticality_loop_other:
  "i \<notin> t_id ` set ts \<Longrightarrow> dget (criticality_loop m ts memo res) i = dget res i"
  by (induction m ts memo res rule: criticality_loop.induct) (auto split: prod.splits)

lemma criticality_loop_dependents:
  "i \<in> t_id ` set ts \<Longrightarrow> \<exists>c. dget (criticality_loop m ts memo res) i = Some c \<and> tc_targetId c = i \<and>
     tc_transitiveDependents c = card {y. (i, y) \<in> (succ_rel m)\<^sup>+ \<and> y \<noteq> i}"
proof (induction m ts memo res rule: criticality_loop.induct)
  case (2 m t ts memo res)
  obtain n memo' where n: "chain m memo [] (t_id t) = (n, memo')" by fastforce
  have "length (collect m (t_id t) [] (dependents_get m (t_id t))) =
      card {y. (t_id t, y) \<in> (succ_rel m)\<^sup>+ \<and> y \<noteq> t_id t}"
    using distinct_card [OF collect_distinct [of "[]" m "t_id t" "dependents_get m (t_id t)"]]
      collect_correct [of m "t_id t"] by simp
  with 2 n show ?case
    by (cases "i \<in> t_id ` set ts") (auto simp: criticality_loop_other)
qed simp

lemma criticality_loop_chain:
  "acyclic (succ_rel m) \<Longrightarrow> memo_ok m memo \<Longrightarrow> i \<in> t_id ` set ts \<Longrightarrow>
     \<exists>c. dget (criticality_loop m ts memo res) i = Some c \<and> longest (succ_rel m) i (tc_longestDownstreamChain c)"
proof (induction m ts memo res rule: criticality_loop.induct)
  case (2 m t ts memo res)
  obtain n memo' where n: "chain m memo [] (t_id t) = (n, memo')" by fastforce
  with chain_longest [OF 2(2,3), of "[]" "t_id t"]
  have "longest (succ_rel m) (t_id t) n" "memo_ok m memo'" by auto
  with 2 n show ?case
    by (cases "i \<in> t_id ` set ts") (auto simp: criticality_loop_other)
qed simp

text \<open>
  \<open>impact ts i\<close> is the number of targets that transitively depend on \<open>i\<close>, itself not counted.
\<close>

definition impact :: "GoalTarget list \<Rightarrow> TargetId \<Rightarrow> nat" where
  "impact targets i = card {y. (i, y) \<in> (dep_rel targets)\<^sup>+ \<and> y \<noteq> i}"

lemma crit_dependents_impact:
  "i \<in> t_id ` set targets \<Longrightarrow> crit_dependents (computeCriticality targets) i = impact targets i"
  using criticality_loop_dependents [of i targets "dependents_of targets" "[]" "[]"]
  by (auto simp: crit_dependents_def computeCriticality_def impact_def dependents_of_rel)

subsection \<open>The comparator\<close>

definition target_key :: "(TargetId, TargetCriticality) dict \<Rightarrow> GoalTarget \<Rightarrow> int \<times> int \<times> rat \<times> string" where
  "target_key c t = (- int (crit_dependents c (t_id t)), - int (crit_chain c (t_id t)), - t_priority t, t_id t)"

lemma compareTargets_le_iff: "compareTargets c a b \<le> 0 \<longleftrightarrow> target_key c a \<le> target_key c b"
  by (cases "crit_dependents c (t_id b) = crit_dependents c (t_id a)"; cases "crit_chain c (t_id b) = crit_chain c (t_id a)";
      cases "t_priority b = t_priority a")
    (auto simp: compareTargets_def target_key_def compare_str_def less_eq_prod_simp)

interpretation target_order: comparator "compareTargets c" for c
  by (rule comparator_key) (rule compareTargets_le_iff)

subsection \<open>The metrics and the schedule\<close>

text \<open>
  On an acyclic graph the scheduler's metrics are exact for every target: the breadth-first
  search counts the targets that transitively depend on it, and the memoised depth-first search
  finds the length of the longest chain of dependents below it.
\<close>

theorem computeCriticality_correct:
  assumes "acyclic (dep_rel targets)" and "t \<in> set targets"
  shows "\<exists>c. dget (computeCriticality targets) (t_id t) = Some c \<and>
      tc_transitiveDependents c = card {y. (t_id t, y) \<in> (dep_rel targets)\<^sup>+} \<and>
      longest (dep_rel targets) (t_id t) (tc_longestDownstreamChain c)"
proof -
  have acyc: "acyclic (succ_rel (dependents_of targets))" using assms(1) by (simp add: dependents_of_rel)
  have i: "t_id t \<in> t_id ` set targets" using assms(2) by simp
  have memo: "memo_ok (dependents_of targets) []" by (simp add: memo_ok_def)
  have irrefl: "{y. (t_id t, y) \<in> (dep_rel targets)\<^sup>+ \<and> y \<noteq> t_id t} = {y. (t_id t, y) \<in> (dep_rel targets)\<^sup>+}"
    using assms(1) by (auto simp: acyclic_def)
  show ?thesis
    using criticality_loop_dependents [OF i, of "dependents_of targets" "[]" "[]"]
      criticality_loop_chain [OF acyc memo i, of "[]"]
    by (auto simp: computeCriticality_def dependents_of_rel irrefl)
qed

definition sample_target :: "TargetId \<Rightarrow> TargetId list \<Rightarrow> rat \<Rightarrow> GoalTarget" where
  "sample_target i deps p =
     \<lparr>t_id = i, t_stage = ''Now'', t_title = i, t_dependsOn = deps, t_priority = p, t_executor = ''VERIFY'',
      t_artifacts = [], t_acceptance = [''tests pass''], t_externalDependency = False, t_requiresApproval = False\<rparr>"

definition sample_targets :: "GoalTarget list" where
  "sample_targets = [sample_target ''C'' [''B''] 5, sample_target ''B'' [''A''] 1, sample_target ''A'' [] 1, sample_target ''D'' [] 9]"

lemma dep_rel_Un:
  "dep_rel targets = (\<Union>t \<in> set targets. (\<lambda>d. (d, t_id t)) ` (set (t_dependsOn t) \<inter> t_id ` set targets))"
  by (auto simp: dep_rel_def)

lemma sample_dep_rel: "dep_rel sample_targets = {(''B'', ''C''), (''A'', ''B'')}"
  by (simp add: dep_rel_Un sample_targets_def sample_target_def insert_commute)

lemma sample_acyclic: "acyclic (dep_rel sample_targets)"
proof (rule acyclicI_order [where f = "\<lambda>x. if x = ''A'' then 2 else if x = ''B'' then 1 else (0::nat)"])
  fix a b
  assume "(a, b) \<in> dep_rel sample_targets"
  then show "(if b = ''A'' then 2 else if b = ''B'' then 1 else (0::nat)) < (if a = ''A'' then 2 else if a = ''B'' then 1 else 0)"
    by (auto simp: sample_dep_rel)
qed

theorem computeCriticality_correct_witness:
  "\<exists>c. dget (computeCriticality sample_targets) ''A'' = Some c \<and>
      tc_transitiveDependents c = card {y. (''A'', y) \<in> (dep_rel sample_targets)\<^sup>+} \<and>
      longest (dep_rel sample_targets) ''A'' (tc_longestDownstreamChain c) \<and> tc_longestDownstreamChain c = 2"
proof -
  have "sample_target ''A'' [] 1 \<in> set sample_targets" by (simp add: sample_targets_def)
  from computeCriticality_correct [OF sample_acyclic this]
  obtain c where c: "dget (computeCriticality sample_targets) ''A'' = Some c"
    "tc_transitiveDependents c = card {y. (''A'', y) \<in> (dep_rel sample_targets)\<^sup>+}"
    "longest (dep_rel sample_targets) ''A'' (tc_longestDownstreamChain c)"
    by (auto simp: sample_target_def)
  have "map_option tc_longestDownstreamChain (dget (computeCriticality sample_targets) ''A'') = Some 2"
    by code_simp
  with c show ?thesis by auto
qed

text \<open>
  The scheduler offers exactly the targets that are queued or eligible and whose dependencies
  all have the status completed in the ledger; a dependency that is only verified, or that the
  ledger does not know, keeps a target back.
\<close>

theorem eligibleTargets_iff:
  "i \<in> set (eligibleTargets run targets) \<longleftrightarrow>
     (\<exists>t \<in> set targets. t_id t = i \<and> status_of run i \<in> {Queued, Eligible} \<and>
        set (t_dependsOn t) \<subseteq> {d. \<exists>e. dget (r_targets run) d = Some e \<and> le_status e = Completed})"
  by (auto simp: eligibleTargets_def Let_def SELECTABLE_def dependenciesCompleted_def list_all_iff
      UNLOCKING_TARGET_STATUSES_def split: option.splits) force+

text \<open>
  The order of the schedule is by critical-path impact: a target is never offered before one
  that more targets transitively depend on.
\<close>

theorem eligibleTargets_by_impact:
  "sorted_wrt (\<lambda>i j. impact targets j \<le> impact targets i) (eligibleTargets run targets)"
proof -
  let ?c = "computeCriticality targets"
  let ?xs = "filter (\<lambda>t. status_of run (t_id t) \<in> set SELECTABLE \<and> dependenciesCompleted run t) targets"
  have "sorted_wrt (\<lambda>a b. compareTargets ?c a b \<le> 0) (sort_by (compareTargets ?c) ?xs)"
    by (rule target_order.sorted_sort_by)
  then have "sorted_wrt (\<lambda>a b. impact targets (t_id b) \<le> impact targets (t_id a)) (sort_by (compareTargets ?c) ?xs)"
    by (rule sorted_wrt_mono_rel [rotated])
      (auto simp: compareTargets_le_iff target_key_def less_eq_prod_simp crit_dependents_impact)
  then show ?thesis by (simp add: eligibleTargets_def Let_def sorted_wrt_map)
qed

subsection \<open>Histories of one target\<close>

text \<open>A history is the list of the transitions a target took, each with the actor who asked for it
  and each accepted by \<open>assertTargetTransition\<close>.\<close>

type_synonym target_step = "TargetStatus \<times> TargetStatus \<times> string"

inductive target_history :: "TargetId \<Rightarrow> TargetStatus \<Rightarrow> target_step list \<Rightarrow> TargetStatus \<Rightarrow> bool"
  for i :: TargetId and s\<^sub>0 :: TargetStatus where
  start: "target_history i s\<^sub>0 [] s\<^sub>0"
| step: "target_history i s\<^sub>0 h s \<Longrightarrow> assertTargetTransition i s s' actor = Inr () \<Longrightarrow>
     target_history i s\<^sub>0 (h @ [(s, s', actor)]) s'"

lemmas transition_simps = assertTargetTransition_def canTransitionTarget_def guardE_Inr

lemma transition_into_Completed:
  "assertTargetTransition i s Completed actor = Inr () \<Longrightarrow> s = Verified \<or> s = NeedsApproval \<and> isUser actor"
  by (cases s) (auto simp: transition_simps split: if_splits)

lemma transition_into_Verified: "assertTargetTransition i s Verified actor = Inr () \<Longrightarrow> s = Verifying"
  by (cases s) (auto simp: transition_simps split: if_splits)

lemma transition_into_Verifying: "assertTargetTransition i s Verifying actor = Inr () \<Longrightarrow> s = Active"
  by (cases s) (auto simp: transition_simps split: if_splits)

lemma transition_from_rest:
  "assertTargetTransition i s s' actor = Inr () \<Longrightarrow> s \<in> {Blocked, Stopped} \<Longrightarrow> s' = Eligible \<and> isUser actor"
  by (auto simp: transition_simps split: if_splits)

lemma transition_from_Completed: "assertTargetTransition i Completed s' actor \<noteq> Inr ()"
  by (simp add: transition_simps)

lemma history_evidence:
  "target_history i Queued h s \<Longrightarrow>
     (s = Verifying \<longrightarrow> (\<exists>a. (Active, Verifying, a) \<in> set h)) \<and>
     (s = Verified \<longrightarrow> (\<exists>a b. (Active, Verifying, a) \<in> set h \<and> (Verifying, Verified, b) \<in> set h))"
proof (induction rule: target_history.induct)
  case (step h s s' actor)
  then show ?case
    by (auto dest: transition_into_Verified transition_into_Verifying)
qed simp

text \<open>
  No target is completed without a completed verification or a human decision: in every history
  from queued to completed, the last transition leaves verified, and the history then went through
  active, verifying and verified, or it leaves needs_approval and was made by a user.
\<close>

theorem completed_needs_verification_or_user:
  assumes "target_history i Queued h Completed"
  shows "\<exists>pre from actor. h = pre @ [(from, Completed, actor)] \<and>
     (from = Verified \<and> (\<exists>a b. (Active, Verifying, a) \<in> set pre \<and> (Verifying, Verified, b) \<in> set pre)
      \<or> from = NeedsApproval \<and> isUser actor)"
  using assms
proof (cases rule: target_history.cases)
  case (step pre src actor)
  with transition_into_Completed [OF step(3)] history_evidence [OF step(2)] show ?thesis by auto
qed

theorem completed_needs_verification_or_user_witness:
  "\<exists>h. target_history ''Y1'' Queued h Completed \<and> length h = 5 \<and>
     (\<exists>pre from actor. h = pre @ [(from, Completed, actor)] \<and>
     (from = Verified \<and> (\<exists>a b. (Active, Verifying, a) \<in> set pre \<and> (Verifying, Verified, b) \<in> set pre)
      \<or> from = NeedsApproval \<and> isUser actor))"
proof -
  let ?c = "''controller''"
  have *: "assertTargetTransition ''Y1'' s s' ?c = Inr () \<Longrightarrow> target_history ''Y1'' Queued h s \<Longrightarrow>
      target_history ''Y1'' Queued (h @ [(s, s', ?c)]) s'" for h s s'
    by (rule target_history.step)
  have "target_history ''Y1'' Queued ((((([] @ [(Queued, Eligible, ?c)]) @ [(Eligible, Active, ?c)]) @
      [(Active, Verifying, ?c)]) @ [(Verifying, Verified, ?c)]) @ [(Verified, Completed, ?c)]) Completed"
    by (intro * target_history.start) (simp_all add: transition_simps)
  from completed_needs_verification_or_user [OF this] this show ?thesis
    by (intro exI [of _ "((((([] @ [(Queued, Eligible, ?c)]) @ [(Eligible, Active, ?c)]) @
      [(Active, Verifying, ?c)]) @ [(Verifying, Verified, ?c)]) @ [(Verified, Completed, ?c)])"]) auto
qed

text \<open>
  Completion is final for every actor, and a blocked or stopped target stays where it is unless
  a user sends it back to eligible.
\<close>

theorem terminal_targets_rest:
  assumes "target_history i s h s'" and "isTerminalTargetStatus s"
    and "s = Completed \<or> list_all (\<lambda>(from, to, actor). \<not> isUser actor) h"
  shows "s' = s \<and> h = []"
  using assms
proof (induction rule: target_history.induct)
  case (step h s' s'' actor)
  then have "s' = s" by auto
  with step show ?case
    by (auto simp: isTerminalTargetStatus_def TERMINAL_TARGET_STATUSES_def transition_from_Completed
        dest: transition_from_rest)
qed simp

theorem terminal_targets_rest_witness:
  "isTerminalTargetStatus Completed \<and> target_history ''Y1'' Completed [] Completed \<and>
   (\<forall>s'. \<not> target_history ''Y1'' Completed [(Completed, s', ''user:ann'')] s')"
proof -
  have t: "isTerminalTargetStatus Completed" by code_simp
  have "\<not> target_history ''Y1'' Completed [(Completed, s', ''user:ann'')] s'" for s'
    using terminal_targets_rest [OF _ t] by blast
  with t show ?thesis by (auto intro: target_history.start)
qed

end
