(* ===== verification/Ledger_Store.thy ===== *)
theory Ledger_Store
  imports Eligibility "HOL-Library.Multiset" "HOL-Library.Sublist"
begin

text \<open>
  The durable run ledger: \<open>src/packages/goals/src/ledger/ledgerStore.ts\<close> (runs, leases,
  transitions, attempts) on \<open>atomicUpdate\<close> of \<open>ledger/atomic.ts\<close>. The key-value store is a record
  with one dictionary per key family, which the injectivity of the key function justifies. Each
  method is a function from the store (and the time the clock shows) to a result and the new
  store. \<open>atomicUpdate\<close> is one atomic step whose callback may throw, in which case nothing is
  written; a method that reads, writes several keys and updates is the composition of its steps,
  and the step relation at the end interleaves these steps with those of other callers and lets a
  caller crash between any two of them.

  The lemmas: a lease that was taken over can never commit again (fencing), every commit moves the
  revision by one and changes nothing that is immutable, the transitions of a commit form a chain
  for every target, and the history of transitions is complete, in order and without gaps in every
  reachable state, whichever callers crash or interleave. Reading it back takes two reads of the store, and
  is exact when no commit happens in between; otherwise it may miss what was committed meanwhile.
\<close>

subsection \<open>Stored data\<close>

definition LEDGER_ENVELOPE_VERSION :: nat where
  "LEDGER_ENVELOPE_VERSION = 1"

record StoredLease =
  sl_holderId :: string
  sl_epoch :: nat
  sl_expiresAt :: timestamp
  sl_acquiredAt :: timestamp
  sl_released :: bool

record TransitionBatch =
  tb_revision :: nat
  tb_firstSeq :: nat
  tb_transitions :: "TargetTransition list"

record RunEnvelope =
  en_v :: nat
  en_ledger :: GoalRunLedger
  en_lease :: "StoredLease option"
  en_maxEpoch :: nat
  en_transitionSeq :: nat
  en_lastBatch :: "TransitionBatch option"

record StoredTransition =
  st_seq :: nat
  st_revision :: nat
  st_transition :: TargetTransition

record Store =
  s_runs :: "(GoalRunId, RunEnvelope) dict"
  s_transitions :: "(GoalRunId \<times> nat, StoredTransition) dict"
  s_attempts :: "(GoalRunId \<times> TargetAttemptId, TargetAttempt) dict"

definition empty_store :: Store where
  "empty_store = \<lparr>s_runs = [], s_transitions = [], s_attempts = []\<rparr>"

text \<open>\<open>atomicUpdate(store, key, mutate)\<close> on one key family: the callback sees the current value and
  returns the next one or throws; a throw leaves the store as it was.\<close>

definition atomicUpdate :: "('k, 'v) dict \<Rightarrow> 'k \<Rightarrow> ('v option \<Rightarrow> 'v result) \<Rightarrow> 'v result \<times> ('k, 'v) dict" where
  "atomicUpdate d k mutate =
     (case mutate (dget d k) of Inl e \<Rightarrow> (Inl e, d) | Inr v \<Rightarrow> (Inr v, dput k v d))"

definition update_run :: "Store \<Rightarrow> GoalRunId \<Rightarrow> (RunEnvelope option \<Rightarrow> RunEnvelope result) \<Rightarrow> RunEnvelope result \<times> Store" where
  "update_run s runId mutate =
     (case atomicUpdate (s_runs s) runId mutate of (r, d) \<Rightarrow> (r, s\<lparr>s_runs := d\<rparr>))"

subsection \<open>Reading\<close>

definition readEnvelope :: "Store \<Rightarrow> GoalRunId \<Rightarrow> RunEnvelope option result" where
  "readEnvelope s runId =
     (case dget (s_runs s) runId of
        None \<Rightarrow> Inr None
      | Some e \<Rightarrow> if en_v e \<noteq> LEDGER_ENVELOPE_VERSION then Inl (failure INTERNAL) else Inr (Some e))"

definition requireEnvelope :: "Store \<Rightarrow> GoalRunId \<Rightarrow> RunEnvelope result" where
  "requireEnvelope s runId =
     bindE (readEnvelope s runId) (\<lambda>e. case e of None \<Rightarrow> Inl (failure NOT_FOUND) | Some e \<Rightarrow> Inr e)"

definition getRun :: "Store \<Rightarrow> GoalRunId \<Rightarrow> GoalRunLedger option result" where
  "getRun s runId = bindE (readEnvelope s runId) (\<lambda>e. Inr (map_option en_ledger e))"

text \<open>\<open>listRuns\<close> sorts with \<open>localeCompare\<close>, which belongs to the runtime and is a parameter.\<close>

definition compareRuns :: "(string \<Rightarrow> string \<Rightarrow> rat) \<Rightarrow> GoalRunLedger \<Rightarrow> GoalRunLedger \<Rightarrow> rat" where
  "compareRuns localeCompare a b =
     (let c = rat_of_int (r_createdAt a - r_createdAt b)
      in if c \<noteq> 0 then c else localeCompare (r_runId a) (r_runId b))"

definition listRuns :: "(string \<Rightarrow> string \<Rightarrow> rat) \<Rightarrow> Store \<Rightarrow> GraphId option \<Rightarrow> GoalRunStatus option \<Rightarrow> GoalRunLedger list" where
  "listRuns localeCompare s graphId status =
     sort_by (compareRuns localeCompare)
       (filter (\<lambda>l. (graphId = None \<or> graphId = Some (r_graphId l)) \<and> (status = None \<or> status = Some (r_status l)))
         (filter (\<lambda>l. r_runId l \<noteq> []) (map (en_ledger \<circ> snd) (s_runs s))))"

subsection \<open>Creating a run\<close>

definition id_char :: "char \<Rightarrow> bool" where
  "id_char c \<longleftrightarrow> (let n = (of_char c :: nat) in 65 \<le> n \<and> n \<le> 90 \<or> 97 \<le> n \<and> n \<le> 122 \<or> 48 \<le> n \<and> n \<le> 57)"

definition valid_run_id :: "string \<Rightarrow> bool" where
  "valid_run_id r \<longleftrightarrow> 1 \<le> length r \<and> length r \<le> 128 \<and> list_all (\<lambda>c. id_char c \<or> c \<in> set ''._:-'') r"

text \<open>
  \<open>createRun\<close> collects the entries in an object literal and tests \<open>targets[target.id]\<close>, which is also
  true for the names every object inherits. Of those, the ones a valid target id can spell are:
\<close>

definition OBJECT_PROTOTYPE_NAMES :: "string list" where
  "OBJECT_PROTOTYPE_NAMES =
     [''constructor'', ''hasOwnProperty'', ''isPrototypeOf'', ''propertyIsEnumerable'', ''toLocaleString'',
      ''toString'', ''valueOf'']"

definition new_entry :: "timestamp \<Rightarrow> GoalTarget \<Rightarrow> TargetLedgerEntry" where
  "new_entry now t =
     \<lparr>le_targetId = t_id t, le_status = (if t_dependsOn t = [] then Eligible else Queued), le_attempts = 0,
      le_repairs = 0, le_lastAttemptId = None, le_lastExecutionId = None, le_evidenceIds = [], le_blockers = [],
      le_updatedAt = now\<rparr>"

definition add_entry :: "timestamp \<Rightarrow> (TargetId, TargetLedgerEntry) dict \<Rightarrow> GoalTarget \<Rightarrow> (TargetId, TargetLedgerEntry) dict result" where
  "add_entry now targets t =
     (if dget targets (t_id t) \<noteq> None \<or> t_id t \<in> set OBJECT_PROTOTYPE_NAMES then Inl (failure VALIDATION)
      else Inr (dput (t_id t) (new_entry now t) targets))"

definition new_ledger :: "timestamp \<Rightarrow> GoalGraphRevisionRecord \<Rightarrow> string \<Rightarrow> GoalRunId
    \<Rightarrow> (TargetId, TargetLedgerEntry) dict \<Rightarrow> GoalRunLedger" where
  "new_ledger now graph createdBy runId targets =
     \<lparr>r_runId = runId, r_graphId = gr_graphId graph, r_graphRevision = gr_revision graph,
      r_graphDigest = gr_digest graph, r_status = RCreated, r_ledgerRevision = 1, r_targets = targets,
      r_resource = \<lparr>res_tasksStarted = 0, res_hostedSpendUsd = 0, res_startedAt = now,
                    res_deadlineAt = now + int (maxRunMinutes (con_resourceLimits (g_constitution (gr_definition graph)))) * 60000\<rparr>,
      r_createdBy = createdBy, r_createdAt = now, r_updatedAt = now\<rparr>"

definition new_envelope :: "GoalRunLedger \<Rightarrow> RunEnvelope" where
  "new_envelope ledger =
     \<lparr>en_v = LEDGER_ENVELOPE_VERSION, en_ledger = ledger, en_lease = None, en_maxEpoch = 0, en_transitionSeq = 0,
      en_lastBatch = None\<rparr>"

definition createRun :: "timestamp \<Rightarrow> string \<Rightarrow> GoalGraphRevisionRecord \<Rightarrow> string \<Rightarrow> GoalRunId option \<Rightarrow> Store
    \<Rightarrow> GoalRunLedger result \<times> Store" where
  "createRun now uuid graph createdBy runIdOpt s =
     (let runId = (case runIdOpt of Some r \<Rightarrow> r | None \<Rightarrow> ''run-'' @ uuid)
      in if createdBy = [] \<or> \<not> valid_run_id runId then (Inl (failure VALIDATION), s)
         else case foldE (add_entry now) [] (g_targets (gr_definition graph)) of
                Inl e \<Rightarrow> (Inl e, s)
              | Inr targets \<Rightarrow>
                  (case update_run s runId (\<lambda>current. case current of
                            Some _ \<Rightarrow> Inl (failure DUPLICATE)
                          | None \<Rightarrow> Inr (new_envelope (new_ledger now graph createdBy runId targets))) of
                     (Inl e, s') \<Rightarrow> (Inl e, s')
                   | (Inr envelope, s') \<Rightarrow> (Inr (en_ledger envelope), s')))"

subsection \<open>Leases\<close>

definition toLease :: "GoalRunId \<Rightarrow> StoredLease \<Rightarrow> RunLease" where
  "toLease runId stored =
     \<lparr>ls_runId = runId, ls_holderId = sl_holderId stored, ls_epoch = sl_epoch stored, ls_expiresAt = sl_expiresAt stored\<rparr>"

definition staleLease :: "bool \<Rightarrow> GoalStudioError" where
  "staleLease retryable = GoalStudioFailure STALE_LEASE [] retryable []"

definition assertCurrentLease :: "RunEnvelope \<Rightarrow> RunLease \<Rightarrow> timestamp \<Rightarrow> unit result" where
  "assertCurrentLease envelope lease now =
     (if ls_runId lease \<noteq> r_runId (en_ledger envelope) then Inl (failure STALE_LEASE)
      else case en_lease envelope of
             None \<Rightarrow> Inl (staleLease False)
           | Some current \<Rightarrow>
               if sl_epoch current \<noteq> ls_epoch lease \<or> sl_holderId current \<noteq> ls_holderId lease then Inl (staleLease False)
               else if sl_released current then Inl (staleLease False)
               else if sl_expiresAt current \<le> now then Inl (staleLease True)
               else Inr ())"

definition acquire_update :: "timestamp \<Rightarrow> string \<Rightarrow> int \<Rightarrow> RunEnvelope \<Rightarrow> StoredLease option \<times> RunEnvelope" where
  "acquire_update now holderId ttlMs current =
     (case en_lease current of
        Some held \<Rightarrow>
          if \<not> sl_released held \<and> sl_expiresAt held > now \<and> sl_holderId held \<noteq> holderId then (None, current)
          else (let epoch = max (en_maxEpoch current) (sl_epoch held) + 1;
                    acquired = \<lparr>sl_holderId = holderId, sl_epoch = epoch, sl_expiresAt = now + ttlMs,
                                sl_acquiredAt = now, sl_released = False\<rparr>
                in (Some acquired, current\<lparr>en_lease := Some acquired, en_maxEpoch := epoch\<rparr>))
      | None \<Rightarrow>
          (let epoch = max (en_maxEpoch current) 0 + 1;
               acquired = \<lparr>sl_holderId = holderId, sl_epoch = epoch, sl_expiresAt = now + ttlMs,
                           sl_acquiredAt = now, sl_released = False\<rparr>
           in (Some acquired, current\<lparr>en_lease := Some acquired, en_maxEpoch := epoch\<rparr>)))"

definition acquireLease :: "timestamp \<Rightarrow> GoalRunId \<Rightarrow> string \<Rightarrow> int \<Rightarrow> Store \<Rightarrow> RunLease option result \<times> Store" where
  "acquireLease now runId holderId ttlMs s =
     (if holderId = [] \<or> ttlMs \<le> 0 then (Inl (failure VALIDATION), s)
      else case requireEnvelope s runId of
             Inl e \<Rightarrow> (Inl e, s)
           | Inr _ \<Rightarrow>
               (case update_run s runId (\<lambda>current. case current of
                         None \<Rightarrow> Inl (failure NOT_FOUND)
                       | Some c \<Rightarrow> Inr (snd (acquire_update now holderId ttlMs c))) of
                  (Inl e, s') \<Rightarrow> (Inl e, s')
                | (Inr _, s') \<Rightarrow>
                    (Inr (case dget (s_runs s) runId of
                            None \<Rightarrow> None
                          | Some c \<Rightarrow> map_option (toLease runId) (fst (acquire_update now holderId ttlMs c))), s')))"

definition renew_update :: "timestamp \<Rightarrow> RunLease \<Rightarrow> int \<Rightarrow> RunEnvelope \<Rightarrow> RunEnvelope result" where
  "renew_update now lease ttlMs current =
     (case en_lease current of
        None \<Rightarrow> Inl (staleLease False)
      | Some held \<Rightarrow>
          if sl_epoch held \<noteq> ls_epoch lease \<or> sl_holderId held \<noteq> ls_holderId lease then Inl (staleLease False)
          else if sl_released held then Inl (staleLease False)
          else Inr (current\<lparr>en_lease := Some (held\<lparr>sl_expiresAt := now + ttlMs\<rparr>)\<rparr>))"

definition renewLease :: "timestamp \<Rightarrow> RunLease \<Rightarrow> int \<Rightarrow> Store \<Rightarrow> RunLease result \<times> Store" where
  "renewLease now lease ttlMs s =
     (if ttlMs \<le> 0 then (Inl (failure VALIDATION), s)
      else case requireEnvelope s (ls_runId lease) of
             Inl e \<Rightarrow> (Inl e, s)
           | Inr _ \<Rightarrow>
               (case update_run s (ls_runId lease) (\<lambda>current. case current of
                         None \<Rightarrow> Inl (failure NOT_FOUND)
                       | Some c \<Rightarrow> renew_update now lease ttlMs c) of
                  (Inl e, s') \<Rightarrow> (Inl e, s')
                | (Inr envelope, s') \<Rightarrow>
                    (case en_lease envelope of
                       Some renewed \<Rightarrow> (Inr (toLease (ls_runId lease) renewed), s')
                     | None \<Rightarrow> (Inl (failure INTERNAL), s'))))"

definition release_update :: "timestamp \<Rightarrow> RunLease \<Rightarrow> RunEnvelope \<Rightarrow> RunEnvelope" where
  "release_update now lease current =
     (case en_lease current of
        None \<Rightarrow> current
      | Some held \<Rightarrow>
          if sl_epoch held \<noteq> ls_epoch lease \<or> sl_holderId held \<noteq> ls_holderId lease \<or> sl_released held then current
          else current\<lparr>en_lease := Some (held\<lparr>sl_released := True, sl_expiresAt := now\<rparr>)\<rparr>)"

definition releaseLease :: "timestamp \<Rightarrow> RunLease \<Rightarrow> Store \<Rightarrow> unit result \<times> Store" where
  "releaseLease now lease s =
     (case readEnvelope s (ls_runId lease) of
        Inl e \<Rightarrow> (Inl e, s)
      | Inr None \<Rightarrow> (Inr (), s)
      | Inr (Some envelope) \<Rightarrow>
          (case en_lease envelope of
             None \<Rightarrow> (Inr (), s)
           | Some held \<Rightarrow>
               if sl_epoch held \<noteq> ls_epoch lease \<or> sl_released held then (Inr (), s)
               else (Inr (), s\<lparr>s_runs := dput (ls_runId lease) (release_update now lease envelope) (s_runs s)\<rparr>)))"

definition currentLease :: "Store \<Rightarrow> GoalRunId \<Rightarrow> (RunLease \<times> bool) option result" where
  "currentLease s runId =
     bindE (readEnvelope s runId) (\<lambda>e. Inr (case e of
        None \<Rightarrow> None
      | Some e \<Rightarrow> map_option (\<lambda>l. (toLease runId l, sl_released l)) (en_lease e)))"

subsection \<open>Committing\<close>

definition ledgerConflict :: GoalStudioError where
  "ledgerConflict = retryable_failure LEDGER_CONFLICT"

definition same_immutable :: "GoalRunLedger \<Rightarrow> GoalRunLedger \<Rightarrow> bool" where
  "same_immutable a b \<longleftrightarrow>
     r_runId a = r_runId b \<and> r_graphId a = r_graphId b \<and> r_graphRevision a = r_graphRevision b \<and>
     r_graphDigest a = r_graphDigest b \<and> r_createdBy a = r_createdBy b \<and> r_createdAt a = r_createdAt b"

text \<open>The first loop of \<open>validateTransitions\<close> moves a cursor per target, the second compares where
  every cursor ended with the status the ledger now has.\<close>

definition follow_transition :: "GoalRunId \<Rightarrow> GoalRunLedger \<Rightarrow> GoalRunLedger \<Rightarrow> (TargetId, TargetStatus) dict
    \<Rightarrow> TargetTransition \<Rightarrow> (TargetId, TargetStatus) dict result" where
  "follow_transition runId before after cursor t =
     (if tr_runId t \<noteq> runId then Inl (failure VALIDATION)
      else case dget (r_targets before) (tr_targetId t) of
             None \<Rightarrow> Inl (failure VALIDATION)
           | Some entry \<Rightarrow>
               if dget (r_targets after) (tr_targetId t) = None \<or> tr_actor t = [] then Inl (failure VALIDATION)
               else (let from = (case dget cursor (tr_targetId t) of Some c \<Rightarrow> c | None \<Rightarrow> le_status entry)
                     in if tr_fromState t \<noteq> from then Inl (failure VALIDATION)
                        else Inr (dput (tr_targetId t) (tr_toState t) cursor)))"

definition check_reached :: "GoalRunLedger \<Rightarrow> GoalRunLedger \<Rightarrow> (TargetId, TargetStatus) dict \<Rightarrow> TargetId \<Rightarrow> bool" where
  "check_reached before after cursor i =
     (case (dget (r_targets before) i, dget (r_targets after) i) of
        (Some was, Some now) \<Rightarrow>
          (case dget cursor i of Some c \<Rightarrow> c | None \<Rightarrow> le_status was) = le_status now
      | _ \<Rightarrow> False)"

definition validateTransitions :: "GoalRunId \<Rightarrow> GoalRunLedger \<Rightarrow> GoalRunLedger \<Rightarrow> TargetTransition list \<Rightarrow> unit result" where
  "validateTransitions runId before after transitions =
     bindE (foldE (follow_transition runId before after) [] transitions) (\<lambda>cursor.
       guardE (list_all (check_reached before after cursor) (dkeys (r_targets before) @ dkeys (r_targets after)))
         (failure VALIDATION))"

definition stamp :: "timestamp \<Rightarrow> TargetTransition \<Rightarrow> TargetTransition" where
  "stamp now t = t\<lparr>tr_timestamp := Some (case tr_timestamp t of Some x \<Rightarrow> x | None \<Rightarrow> now)\<rparr>"

type_synonym mutation = "GoalRunLedger \<Rightarrow> GoalRunLedger result"

text \<open>The callback of the atomic update in \<open>commit\<close>.\<close>

definition commit_update :: "timestamp \<Rightarrow> GoalRunId \<Rightarrow> nat \<Rightarrow> RunLease \<Rightarrow> mutation \<Rightarrow> TargetTransition list
    \<Rightarrow> RunEnvelope option \<Rightarrow> RunEnvelope result" where
  "commit_update now runId expectedRevision lease mutate transitions current =
     (case current of
        None \<Rightarrow> Inl (failure NOT_FOUND)
      | Some c \<Rightarrow>
          bindE (assertCurrentLease c lease now) (\<lambda>_.
          bindE (guardE (r_ledgerRevision (en_ledger c) = expectedRevision) ledgerConflict) (\<lambda>_.
          bindE (mutate (en_ledger c)) (\<lambda>draft.
          bindE (guardE (same_immutable draft (en_ledger c)) (failure VALIDATION)) (\<lambda>_.
          bindE (validateTransitions runId (en_ledger c) draft transitions) (\<lambda>_.
            let stamped = map (stamp now) transitions;
                draft' = draft\<lparr>r_ledgerRevision := expectedRevision + 1, r_updatedAt := now\<rparr>
            in Inr (c\<lparr>en_ledger := draft',
                     en_transitionSeq := en_transitionSeq c + length stamped,
                     en_lastBatch := Some \<lparr>tb_revision = r_ledgerRevision draft', tb_firstSeq = en_transitionSeq c + 1,
                                          tb_transitions = stamped\<rparr>\<rparr>)))))))"

text \<open>The checks that \<open>commit\<close> makes before it writes anything; the batch it returns is the one the
  caller then materialises.\<close>

definition commit_check :: "timestamp \<Rightarrow> GoalRunId \<Rightarrow> nat \<Rightarrow> RunLease \<Rightarrow> Store \<Rightarrow> TransitionBatch option result" where
  "commit_check now runId expectedRevision lease s =
     bindE (requireEnvelope s runId) (\<lambda>before.
     bindE (assertCurrentLease before lease now) (\<lambda>_.
     bindE (guardE (r_ledgerRevision (en_ledger before) = expectedRevision) ledgerConflict) (\<lambda>_.
       Inr (en_lastBatch before))))"

text \<open>One key of \<open>materialise\<close>, then the loop over the batch.\<close>

definition put_transition :: "GoalRunId \<Rightarrow> TransitionBatch \<Rightarrow> nat \<Rightarrow> Store \<Rightarrow> Store" where
  "put_transition runId batch i s =
     s\<lparr>s_transitions := dput (runId, tb_firstSeq batch + i)
         \<lparr>st_seq = tb_firstSeq batch + i, st_revision = tb_revision batch, st_transition = tb_transitions batch ! i\<rparr>
         (s_transitions s)\<rparr>"

definition materialise_key :: "GoalRunId \<Rightarrow> TransitionBatch \<Rightarrow> nat \<Rightarrow> Store \<Rightarrow> Store" where
  "materialise_key runId batch i s =
     (if dget (s_transitions s) (runId, tb_firstSeq batch + i) \<noteq> None then s else put_transition runId batch i s)"

definition materialise :: "GoalRunId \<Rightarrow> TransitionBatch option \<Rightarrow> Store \<Rightarrow> Store" where
  "materialise runId batch s =
     (case batch of
        None \<Rightarrow> s
      | Some b \<Rightarrow> fold (materialise_key runId b) [0..<length (tb_transitions b)] s)"

text \<open>\<open>commit\<close> run without interruption; \<open>now\<close> is the time of the check and \<open>now'\<close> the time of the
  update.\<close>

definition commit :: "timestamp \<Rightarrow> timestamp \<Rightarrow> GoalRunId \<Rightarrow> nat \<Rightarrow> RunLease \<Rightarrow> mutation \<Rightarrow> TargetTransition list
    \<Rightarrow> Store \<Rightarrow> GoalRunLedger result \<times> Store" where
  "commit now now' runId expectedRevision lease mutate transitions s =
     (case commit_check now runId expectedRevision lease s of
        Inl e \<Rightarrow> (Inl e, s)
      | Inr batch \<Rightarrow>
          (case update_run (materialise runId batch s) runId
                  (commit_update now' runId expectedRevision lease mutate transitions) of
             (Inl e, s') \<Rightarrow> (Inl e, s')
           | (Inr committed, s') \<Rightarrow> (Inr (en_ledger committed), materialise runId (en_lastBatch committed) s')))"

subsection \<open>The history of transitions\<close>

definition batch_entries :: "TransitionBatch option \<Rightarrow> (nat, TargetTransition) dict" where
  "batch_entries batch = (case batch of None \<Rightarrow> [] | Some b \<Rightarrow> enumerate (tb_firstSeq b) (tb_transitions b))"

definition transitions_by_seq :: "Store \<Rightarrow> GoalRunId \<Rightarrow> RunEnvelope option \<Rightarrow> (nat, TargetTransition) dict" where
  "transitions_by_seq s runId envelope =
     (let stored = map (\<lambda>(_, st). (st_seq st, st_transition st)) (filter (\<lambda>((r, _), _). r = runId) (s_transitions s));
          batch = batch_entries (Option.bind envelope en_lastBatch)
      in fold (\<lambda>(k, t) d. dput k t d) (stored @ batch) [])"

text \<open>
  The history is put together from two reads: the stored transitions are listed in \<open>listed\<close>, the envelope of the
  run is read in \<open>s\<close>, and other callers may have written in between.
\<close>

definition transitions :: "Store \<Rightarrow> Store \<Rightarrow> GoalRunId \<Rightarrow> TargetId option \<Rightarrow> TargetTransition list result" where
  "transitions listed s runId targetId =
     bindE (readEnvelope s runId) (\<lambda>envelope.
       let limit = (case envelope of None \<Rightarrow> 0 | Some e \<Rightarrow> en_transitionSeq e);
           entries = filter (\<lambda>(k, _). k \<le> limit) (transitions_by_seq listed runId envelope)
       in Inr (filter (\<lambda>t. targetId = None \<or> targetId = Some (tr_targetId t))
                 (map snd (sort_by (\<lambda>a b. rat_of_nat (fst a) - rat_of_nat (fst b)) entries))))"

subsection \<open>Attempts\<close>

definition save_attempt_update :: "TargetAttempt \<Rightarrow> TargetAttempt option \<Rightarrow> TargetAttempt result" where
  "save_attempt_update next current =
     (case current of
        None \<Rightarrow> Inr next
      | Some c \<Rightarrow>
          if at_runId c \<noteq> at_runId next \<or> at_targetId c \<noteq> at_targetId next \<or> at_attempt c \<noteq> at_attempt next
             \<or> at_startedAt c \<noteq> at_startedAt next then Inl (failure VALIDATION)
          else if at_outcome c \<noteq> None \<and> (at_outcome next \<noteq> at_outcome c \<or> at_endedAt next \<noteq> at_endedAt c)
          then Inl (failure LEDGER_CONFLICT)
          else Inr next)"

definition saveAttempt :: "TargetAttempt \<Rightarrow> Store \<Rightarrow> unit result \<times> Store" where
  "saveAttempt attempt s =
     (if at_id attempt = [] \<or> at_runId attempt = [] \<or> at_targetId attempt = [] \<or> at_attempt attempt < 1
      then (Inl (failure VALIDATION), s)
      else case atomicUpdate (s_attempts s) (at_runId attempt, at_id attempt) (save_attempt_update attempt) of
             (Inl e, _) \<Rightarrow> (Inl e, s)
           | (Inr _, d) \<Rightarrow> (Inr (), s\<lparr>s_attempts := d\<rparr>))"

definition compareAttempts :: "(string \<Rightarrow> string \<Rightarrow> rat) \<Rightarrow> TargetAttempt \<Rightarrow> TargetAttempt \<Rightarrow> rat" where
  "compareAttempts localeCompare a b =
     (let c1 = localeCompare (at_targetId a) (at_targetId b);
          c2 = rat_of_nat (at_attempt a) - rat_of_nat (at_attempt b);
          c3 = rat_of_int (at_startedAt a - at_startedAt b)
      in if c1 \<noteq> 0 then c1 else if c2 \<noteq> 0 then c2 else if c3 \<noteq> 0 then c3 else localeCompare (at_id a) (at_id b))"

definition attempts :: "(string \<Rightarrow> string \<Rightarrow> rat) \<Rightarrow> Store \<Rightarrow> GoalRunId \<Rightarrow> TargetId option \<Rightarrow> TargetAttempt list" where
  "attempts localeCompare s runId targetId =
     sort_by (compareAttempts localeCompare)
       (filter (\<lambda>a. targetId = None \<or> targetId = Some (at_targetId a))
         (map snd (filter (\<lambda>((r, _), _). r = runId) (s_attempts s))))"

subsection \<open>What a commit guarantees\<close>

text \<open>\<open>linked s ts s'\<close>: the transitions \<open>ts\<close> lead from status \<open>s\<close> to status \<open>s'\<close> without a break.\<close>

fun linked :: "TargetStatus \<Rightarrow> TargetTransition list \<Rightarrow> TargetStatus \<Rightarrow> bool" where
  "linked s [] s' \<longleftrightarrow> s = s'"
| "linked s (t # ts) s' \<longleftrightarrow> tr_fromState t = s \<and> linked (tr_toState t) ts s'"

definition of_target :: "TargetId \<Rightarrow> TargetTransition list \<Rightarrow> TargetTransition list" where
  "of_target i = filter (\<lambda>t. tr_targetId t = i)"

lemma linked_append: "linked s (xs @ ys) s' \<longleftrightarrow> (\<exists>m. linked s xs m \<and> linked m ys s')"
  by (induction xs arbitrary: s) auto

lemma of_target_simps [simp]:
  "of_target i [] = []"
  "of_target i (xs @ ys) = of_target i xs @ of_target i ys"
  by (simp_all add: of_target_def)

lemma stamp_fields [simp]:
  "tr_targetId (stamp now t) = tr_targetId t" "tr_fromState (stamp now t) = tr_fromState t"
  "tr_toState (stamp now t) = tr_toState t"
  by (simp_all add: stamp_def)

lemma linked_stamp [simp]: "linked s (map (stamp now) ts) s' = linked s ts s'"
  by (induction ts arbitrary: s) auto

lemma of_target_stamp [simp]: "of_target i (map (stamp now) ts) = map (stamp now) (of_target i ts)"
  by (simp add: of_target_def filter_map o_def)

definition cursor_at :: "(TargetId, TargetStatus) dict \<Rightarrow> TargetId \<Rightarrow> TargetLedgerEntry \<Rightarrow> TargetStatus" where
  "cursor_at cursor i entry = (case dget cursor i of Some c \<Rightarrow> c | None \<Rightarrow> le_status entry)"

lemma follow_transition_Inr:
  "follow_transition runId before after cursor t = Inr cursor' \<longleftrightarrow>
     (\<exists>entry. dget (r_targets before) (tr_targetId t) = Some entry \<and> tr_runId t = runId \<and>
        dget (r_targets after) (tr_targetId t) \<noteq> None \<and> tr_actor t \<noteq> [] \<and>
        tr_fromState t = cursor_at cursor (tr_targetId t) entry \<and>
        cursor' = dput (tr_targetId t) (tr_toState t) cursor)"
  by (auto simp: follow_transition_def cursor_at_def Let_def split: option.splits if_splits)

lemma follow_transitions_linked:
  assumes "foldE (follow_transition runId before after) cursor ts = Inr cursor'"
    and "dget (r_targets before) i = Some x"
  shows "linked (cursor_at cursor i x) (of_target i ts) (cursor_at cursor' i x)"
  using assms
proof (induction ts arbitrary: cursor)
  case (Cons t ts)
  then obtain c where c: "follow_transition runId before after cursor t = Inr c"
    and rest: "foldE (follow_transition runId before after) c ts = Inr cursor'"
    by (auto simp: bindE_Inr)
  from Cons.IH [OF rest Cons.prems(2)] c Cons.prems(2) show ?case
    by (auto simp: follow_transition_Inr cursor_at_def of_target_def)
qed simp

lemma validateTransitions_Inr:
  assumes "validateTransitions runId before after ts = Inr u"
  obtains cursor where "foldE (follow_transition runId before after) [] ts = Inr cursor"
    and "\<And>i. dget (r_targets before) i \<noteq> None \<or> dget (r_targets after) i \<noteq> None \<Longrightarrow>
           check_reached before after cursor i"
proof -
  from assms obtain cursor where c: "foldE (follow_transition runId before after) [] ts = Inr cursor"
    and all: "list_all (check_reached before after cursor) (dkeys (r_targets before) @ dkeys (r_targets after))"
    by (auto simp: validateTransitions_def result_simps)
  have "check_reached before after cursor i"
    if "dget (r_targets before) i \<noteq> None \<or> dget (r_targets after) i \<noteq> None" for i
  proof -
    have "i \<in> set (dkeys (r_targets before) @ dkeys (r_targets after))"
      using that dget_None_keys [of "r_targets before" i] dget_None_keys [of "r_targets after" i] by auto
    with all show ?thesis by (simp only: list_all_iff)
  qed
  with c show ?thesis by (rule that)
qed

lemma validateTransitions_keys:
  assumes "validateTransitions runId before after ts = Inr u"
  shows "(dget (r_targets after) i = None) = (dget (r_targets before) i = None)"
proof -
  from assms obtain cursor where "dget (r_targets before) i \<noteq> None \<or> dget (r_targets after) i \<noteq> None \<Longrightarrow>
      check_reached before after cursor i"
    using validateTransitions_Inr by metis
  then show ?thesis
    by (cases "dget (r_targets before) i"; cases "dget (r_targets after) i") (auto simp: check_reached_def)
qed

lemma validateTransitions_linked:
  assumes "validateTransitions runId before after ts = Inr u"
    and "dget (r_targets before) i = Some x" and "dget (r_targets after) i = Some y"
  shows "linked (le_status x) (of_target i ts) (le_status y)"
proof -
  from assms(1) obtain cursor where c: "foldE (follow_transition runId before after) [] ts = Inr cursor"
    and "dget (r_targets before) i \<noteq> None \<or> dget (r_targets after) i \<noteq> None \<Longrightarrow> check_reached before after cursor i"
    using validateTransitions_Inr by metis
  with assms(2,3) have "cursor_at cursor i x = le_status y"
    by (simp add: check_reached_def cursor_at_def)
  with follow_transitions_linked [OF c assms(2)] show ?thesis by (simp add: cursor_at_def)
qed

lemma commit_update_Inr:
  "commit_update now runId expected lease mutate ts current = Inr e' \<longleftrightarrow>
     (\<exists>c draft. current = Some c \<and> assertCurrentLease c lease now = Inr () \<and>
        r_ledgerRevision (en_ledger c) = expected \<and> mutate (en_ledger c) = Inr draft \<and>
        same_immutable draft (en_ledger c) \<and> validateTransitions runId (en_ledger c) draft ts = Inr () \<and>
        e' = c\<lparr>en_ledger := draft\<lparr>r_ledgerRevision := expected + 1, r_updatedAt := now\<rparr>,
               en_transitionSeq := en_transitionSeq c + length ts,
               en_lastBatch := Some \<lparr>tb_revision = expected + 1, tb_firstSeq = en_transitionSeq c + 1,
                                    tb_transitions = map (stamp now) ts\<rparr>\<rparr>)"
  by (auto simp: commit_update_def result_simps Let_def split: option.splits)

lemma commit_update_ledger:
  assumes "commit_update now runId expected lease mutate ts (Some c) = Inr e'"
  shows "r_ledgerRevision (en_ledger c) = expected" "r_ledgerRevision (en_ledger e') = expected + 1"
    "same_immutable (en_ledger e') (en_ledger c)"
    "en_lease e' = en_lease c" "en_maxEpoch e' = en_maxEpoch c" "en_v e' = en_v c"
    "(dget (r_targets (en_ledger e')) i = None) = (dget (r_targets (en_ledger c)) i = None)"
    "dget (r_targets (en_ledger c)) i = Some x \<Longrightarrow> dget (r_targets (en_ledger e')) i = Some y \<Longrightarrow>
       linked (le_status x) (of_target i ts) (le_status y)"
  using assms validateTransitions_keys validateTransitions_linked
  by (auto simp: commit_update_Inr same_immutable_def)

lemma update_run_Inr:
  "update_run s r f = (Inr e, s') \<longleftrightarrow> f (dget (s_runs s) r) = Inr e \<and> s' = s\<lparr>s_runs := dput r e (s_runs s)\<rparr>"
  by (auto simp: update_run_def atomicUpdate_def split: sum.splits)

lemma update_run_Inl:
  "update_run s r f = (Inl e, s') \<longleftrightarrow> f (dget (s_runs s) r) = Inl e \<and> s' = s"
  by (auto simp: update_run_def atomicUpdate_def split: sum.splits)

lemma materialise_runs [simp]: "s_runs (materialise r b s) = s_runs s"
proof -
  have "s_runs (fold (materialise_key r x) is s) = s_runs s" for x "is"
    by (induction "is" arbitrary: s) (auto simp: materialise_key_def put_transition_def)
  then show ?thesis by (simp add: materialise_def split: option.split)
qed

subsection \<open>Interleaved callers\<close>

text \<open>
  A caller inside \<open>commit\<close> that has to materialise a batch is a job: the run, the batch, the number
  of keys of the batch it is done with and, when the job comes before the atomic update, the
  arguments of the update. The state of the system is the store, the jobs of all callers and two
  ghost components: the transitions committed so far to each run, and the leases handed out.
\<close>

datatype Job = Job GoalRunId "TransitionBatch option" nat "(nat \<times> RunLease \<times> mutation \<times> TargetTransition list) option"

record LedgerSystem =
  sys_store :: Store
  sys_jobs :: "Job multiset"
  sys_history :: "GoalRunId \<Rightarrow> TargetTransition list"
  sys_issued :: "RunLease set"

definition initial_system :: LedgerSystem where
  "initial_system = \<lparr>sys_store = empty_store, sys_jobs = {#}, sys_history = (\<lambda>_. []), sys_issued = {}\<rparr>"

definition batch_length :: "TransitionBatch option \<Rightarrow> nat" where
  "batch_length b = (case b of None \<Rightarrow> 0 | Some b \<Rightarrow> length (tb_transitions b))"

text \<open>
  In the rule \<open>put\<close> the key is written whether or not it is present, since the caller may have looked
  before another caller wrote it; \<open>skip\<close> needs the key to be present. \<open>crash\<close> also stands for a
  process that dies after its update and before it materialised its own batch.
\<close>

inductive ledger_step :: "LedgerSystem \<Rightarrow> LedgerSystem \<Rightarrow> bool" where
  create: "createRun now uuid graph createdBy runIdOpt (sys_store y) = (res, s') \<Longrightarrow>
     ledger_step y (y\<lparr>sys_store := s'\<rparr>)"
| acquire: "acquireLease now runId holderId ttlMs (sys_store y) = (res, s') \<Longrightarrow>
     ledger_step y (y\<lparr>sys_store := s', sys_issued := sys_issued y \<union> {l. res = Inr (Some l)}\<rparr>)"
| renew: "renewLease now lease ttlMs (sys_store y) = (res, s') \<Longrightarrow>
     ledger_step y (y\<lparr>sys_store := s', sys_issued := sys_issued y \<union> {l. res = Inr l}\<rparr>)"
| release: "dget (s_runs (sys_store y)) (ls_runId lease) = Some e \<Longrightarrow>
     ledger_step y (y\<lparr>sys_store := (sys_store y)\<lparr>s_runs :=
       dput (ls_runId lease) (release_update now lease e) (s_runs (sys_store y))\<rparr>\<rparr>)"
| save: "saveAttempt attempt (sys_store y) = (res', s') \<Longrightarrow> ledger_step y (y\<lparr>sys_store := s'\<rparr>)"
| begin_commit: "commit_check now runId expected lease (sys_store y) = Inr batch \<Longrightarrow>
     ledger_step y (y\<lparr>sys_jobs := add_mset (Job runId batch 0 (Some (expected, lease, mutate, ts))) (sys_jobs y)\<rparr>)"
| skip: "sys_jobs y = add_mset (Job runId (Some b) i k) J \<Longrightarrow> i < length (tb_transitions b) \<Longrightarrow>
     dget (s_transitions (sys_store y)) (runId, tb_firstSeq b + i) \<noteq> None \<Longrightarrow>
     ledger_step y (y\<lparr>sys_jobs := add_mset (Job runId (Some b) (Suc i) k) J\<rparr>)"
| put: "sys_jobs y = add_mset (Job runId (Some b) i k) J \<Longrightarrow> i < length (tb_transitions b) \<Longrightarrow>
     ledger_step y (y\<lparr>sys_store := put_transition runId b i (sys_store y),
                    sys_jobs := add_mset (Job runId (Some b) (Suc i) k) J\<rparr>)"
| update: "sys_jobs y = add_mset (Job runId b i (Some (expected, lease, mutate, ts))) J \<Longrightarrow> i = batch_length b \<Longrightarrow>
     update_run (sys_store y) runId (commit_update now runId expected lease mutate ts) = (Inr e', s') \<Longrightarrow>
     ledger_step y (y\<lparr>sys_store := s', sys_jobs := add_mset (Job runId (en_lastBatch e') 0 None) J,
                    sys_history := (sys_history y)(runId := sys_history y runId @ map (stamp now) ts)\<rparr>)"
| update_fails: "sys_jobs y = add_mset (Job runId b i (Some (expected, lease, mutate, ts))) J \<Longrightarrow> i = batch_length b \<Longrightarrow>
     update_run (sys_store y) runId (commit_update now runId expected lease mutate ts) = (Inl err, s') \<Longrightarrow>
     ledger_step y (y\<lparr>sys_store := s', sys_jobs := J\<rparr>)"
| crash: "sys_jobs y = add_mset j J \<Longrightarrow> ledger_step y (y\<lparr>sys_jobs := J\<rparr>)"

text \<open>The invariant. A batch is a segment of the history; the store holds only transitions of the
  history and all of them that are not in the last batch; a job that can still commit carries the last
  batch of the run.\<close>

definition batch_ok :: "TargetTransition list \<Rightarrow> TransitionBatch \<Rightarrow> bool" where
  "batch_ok h b \<longleftrightarrow> 1 \<le> tb_firstSeq b \<and>
     (\<exists>pre post. h = pre @ tb_transitions b @ post \<and> length pre = tb_firstSeq b - 1)"

definition history_tail :: "TargetTransition list \<Rightarrow> TransitionBatch option \<Rightarrow> bool" where
  "history_tail h b = (case b of
     None \<Rightarrow> h = []
   | Some b \<Rightarrow> \<exists>pre. h = pre @ tb_transitions b \<and> length pre + 1 = tb_firstSeq b)"

definition lease_ok :: "RunEnvelope \<Rightarrow> bool" where
  "lease_ok e \<longleftrightarrow> (\<forall>l. en_lease e = Some l \<longrightarrow> sl_epoch l = en_maxEpoch e)"

definition status_ok :: "TargetTransition list \<Rightarrow> RunEnvelope \<Rightarrow> bool" where
  "status_ok h e \<longleftrightarrow> (\<forall>i x. dget (r_targets (en_ledger e)) i = Some x \<longrightarrow>
     (\<exists>s \<in> {Queued, Eligible}. linked s (of_target i h) (le_status x)))"

definition stored_ok :: "Store \<Rightarrow> TargetTransition list \<Rightarrow> GoalRunId \<Rightarrow> bool" where
  "stored_ok s h r \<longleftrightarrow> (\<forall>q st. ((r, q), st) \<in> set (s_transitions s) \<longrightarrow>
     1 \<le> q \<and> q \<le> length h \<and> st_seq st = q \<and> st_transition st = h ! (q - 1))"

definition env_ok :: "Store \<Rightarrow> TargetTransition list \<Rightarrow> GoalRunId \<Rightarrow> RunEnvelope \<Rightarrow> bool" where
  "env_ok s h r e \<longleftrightarrow> en_v e = LEDGER_ENVELOPE_VERSION \<and> r_runId (en_ledger e) = r \<and> lease_ok e \<and> status_ok h e \<and>
     en_transitionSeq e = length h \<and> history_tail h (en_lastBatch e) \<and>
     (\<forall>b q. en_lastBatch e = Some b \<longrightarrow> 1 \<le> q \<longrightarrow> q < tb_firstSeq b \<longrightarrow> dget (s_transitions s) (r, q) \<noteq> None)"

definition run_ok :: "Store \<Rightarrow> TargetTransition list \<Rightarrow> GoalRunId \<Rightarrow> bool" where
  "run_ok s h r \<longleftrightarrow> stored_ok s h r \<and> (case dget (s_runs s) r of None \<Rightarrow> h = [] | Some e \<Rightarrow> env_ok s h r e)"

fun job_ok :: "Store \<Rightarrow> (GoalRunId \<Rightarrow> TargetTransition list) \<Rightarrow> Job \<Rightarrow> bool" where
  "job_ok s h (Job r b i k) \<longleftrightarrow>
     (\<forall>x. b = Some x \<longrightarrow> batch_ok (h r) x \<and> i \<le> length (tb_transitions x) \<and>
            (\<forall>j < i. dget (s_transitions s) (r, tb_firstSeq x + j) \<noteq> None)) \<and>
     (\<forall>expected lease mutate ts. k = Some (expected, lease, mutate, ts) \<longrightarrow>
        (\<exists>e. dget (s_runs s) r = Some e \<and> expected \<le> r_ledgerRevision (en_ledger e) \<and>
             (expected = r_ledgerRevision (en_ledger e) \<longrightarrow> b = en_lastBatch e)))"

definition issued_ok :: "Store \<Rightarrow> RunLease set \<Rightarrow> bool" where
  "issued_ok s I \<longleftrightarrow> (\<forall>l \<in> I. \<exists>e. dget (s_runs s) (ls_runId l) = Some e \<and> ls_epoch l \<le> en_maxEpoch e)"

definition ledger_inv :: "LedgerSystem \<Rightarrow> bool" where
  "ledger_inv y \<longleftrightarrow> (\<forall>r. run_ok (sys_store y) (sys_history y r) r) \<and>
     (\<forall>j \<in># sys_jobs y. job_ok (sys_store y) (sys_history y) j) \<and> issued_ok (sys_store y) (sys_issued y)"

subsection \<open>The invariant holds in every reachable state\<close>

lemma ledger_invI:
  assumes "\<And>r. run_ok (sys_store y) (sys_history y r) r"
    and "\<And>j. j \<in># sys_jobs y \<Longrightarrow> job_ok (sys_store y) (sys_history y) j"
    and "issued_ok (sys_store y) (sys_issued y)"
  shows "ledger_inv y"
  using assms by (simp add: ledger_inv_def)

lemma ledger_invD:
  assumes "ledger_inv y"
  shows "run_ok (sys_store y) (sys_history y r) r"
    and "j \<in># sys_jobs y \<Longrightarrow> job_ok (sys_store y) (sys_history y) j"
    and "issued_ok (sys_store y) (sys_issued y)"
  using assms by (simp_all add: ledger_inv_def)

text \<open>An update that only touches the lease of a run.\<close>

definition lease_change :: "RunEnvelope \<Rightarrow> RunEnvelope \<Rightarrow> bool" where
  "lease_change e e' \<longleftrightarrow> en_v e' = en_v e \<and> en_ledger e' = en_ledger e \<and> en_transitionSeq e' = en_transitionSeq e \<and>
     en_lastBatch e' = en_lastBatch e \<and> en_maxEpoch e \<le> en_maxEpoch e' \<and> lease_ok e'"

lemma run_ok_lease_ok: "run_ok s h r \<Longrightarrow> dget (s_runs s) r = Some e \<Longrightarrow> lease_ok e"
  by (simp add: run_ok_def env_ok_def)

lemma stored_ok_runs [simp]: "stored_ok (s\<lparr>s_runs := d\<rparr>) h r = stored_ok s h r"
  by (simp add: stored_ok_def)

lemma env_ok_runs [simp]: "env_ok (s\<lparr>s_runs := d\<rparr>) h r e = env_ok s h r e"
  by (simp add: env_ok_def)

lemma run_ok_put_run:
  "run_ok (s\<lparr>s_runs := dput r e (s_runs s)\<rparr>) h r' \<longleftrightarrow>
     (if r' = r then stored_ok s h r \<and> env_ok s h r e else run_ok s h r')"
  by (cases "dget (s_runs s) r'") (simp_all add: run_ok_def)

lemma run_ok_env: "run_ok s h r \<Longrightarrow> dget (s_runs s) r = Some e \<Longrightarrow> stored_ok s h r \<and> env_ok s h r e"
  by (simp add: run_ok_def)

lemma run_ok_no_env: "run_ok s h r \<Longrightarrow> dget (s_runs s) r = None \<Longrightarrow> stored_ok s [] r \<and> h = []"
  by (auto simp: run_ok_def)

lemma issued_ok_put:
  assumes "issued_ok s I" and "dget (s_runs s) r = Some e" and "en_maxEpoch e \<le> en_maxEpoch e'"
  shows "issued_ok (s\<lparr>s_runs := dput r e' (s_runs s)\<rparr>) I"
  unfolding issued_ok_def
proof
  fix l assume "l \<in> I"
  with assms(1) obtain x where "dget (s_runs s) (ls_runId l) = Some x" "ls_epoch l \<le> en_maxEpoch x"
    by (auto simp: issued_ok_def)
  with assms(2,3) show "\<exists>e. dget (s_runs (s\<lparr>s_runs := dput r e' (s_runs s)\<rparr>)) (ls_runId l) = Some e \<and> ls_epoch l \<le> en_maxEpoch e"
    by (cases "ls_runId l = r") auto
qed

lemma lease_change_inv:
  assumes inv: "ledger_inv y" and e: "dget (s_runs (sys_store y)) r = Some e" and ch: "lease_change e e'"
    and new: "\<And>l. l \<in> N \<Longrightarrow> ls_runId l = r \<and> ls_epoch l \<le> en_maxEpoch e'"
  shows "ledger_inv (y\<lparr>sys_store := (sys_store y)\<lparr>s_runs := dput r e' (s_runs (sys_store y))\<rparr>,
                      sys_issued := sys_issued y \<union> N\<rparr>)"
proof (rule ledger_invI, goal_cases)
  case (1 r')
  have "env_ok (sys_store y) h r e \<Longrightarrow> env_ok (sys_store y) h r e'" for h
    using ch by (simp add: env_ok_def lease_change_def status_ok_def)
  with ledger_invD(1) [OF inv, of r'] run_ok_env [OF ledger_invD(1) [OF inv] e] show ?case
    by (simp add: run_ok_put_run)
next
  case (2 j)
  with ledger_invD(2) [OF inv] have "job_ok (sys_store y) (sys_history y) j" by simp
  with e ch show ?case by (cases j) (auto simp: lease_change_def)
next
  case 3
  show ?case
    using issued_ok_put [OF ledger_invD(3) [OF inv] e, of e'] ch new
    by (simp add: lease_change_def issued_ok_def ball_Un)
qed

lemma acquire_update_change:
  assumes "acquire_update now holderId ttlMs e = (a, e')" and "lease_ok e"
  shows "lease_change e e'"
    and "a = None \<Longrightarrow> e' = e"
    and "a = Some l \<Longrightarrow> sl_epoch l = en_maxEpoch e' \<and> en_maxEpoch e < en_maxEpoch e' \<and> en_lease e' = Some l"
  using assms by (auto simp: acquire_update_def lease_change_def lease_ok_def Let_def split: option.splits if_splits)

lemma acquireLease_cases:
  assumes "acquireLease now r holderId ttlMs s = (res, s')"
  obtains (same) "s' = s" "\<And>l. res \<noteq> Inr (Some l)"
  | (updated) e a e' where "dget (s_runs s) r = Some e" "acquire_update now holderId ttlMs e = (a, e')"
      "s' = s\<lparr>s_runs := dput r e' (s_runs s)\<rparr>" "res = Inr (map_option (toLease r) a)"
proof (cases "dget (s_runs s) r")
  case None
  with assms show ?thesis
    by (intro same) (auto simp: acquireLease_def requireEnvelope_def readEnvelope_def split: if_splits)
next
  case (Some e)
  obtain a e' where ae: "acquire_update now holderId ttlMs e = (a, e')" by fastforce
  show ?thesis
  proof (cases "holderId = [] \<or> ttlMs \<le> 0 \<or> en_v e \<noteq> LEDGER_ENVELOPE_VERSION")
    case True
    with Some assms show ?thesis
      by (intro same) (auto simp: acquireLease_def requireEnvelope_def readEnvelope_def split: if_splits)
  next
    case False
    with Some assms ae show ?thesis
      by (intro updated [OF Some ae])
        (auto simp: acquireLease_def requireEnvelope_def readEnvelope_def update_run_def atomicUpdate_def)
  qed
qed

lemma renew_update_change:
  assumes "renew_update now lease ttlMs e = Inr e'" and "lease_ok e"
  shows "lease_change e e'" and "en_maxEpoch e' = ls_epoch lease"
    and "\<exists>l. en_lease e' = Some l \<and> sl_epoch l = ls_epoch lease"
  using assms by (auto simp: renew_update_def lease_change_def lease_ok_def split: option.splits if_splits)

lemma renewLease_cases:
  assumes "renewLease now lease ttlMs s = (res, s')"
  obtains (same) "s' = s" "\<And>l. res \<noteq> Inr l"
  | (updated) e e' where "dget (s_runs s) (ls_runId lease) = Some e" "renew_update now lease ttlMs e = Inr e'"
      "s' = s\<lparr>s_runs := dput (ls_runId lease) e' (s_runs s)\<rparr>"
      "\<And>l. res = Inr l \<Longrightarrow> ls_runId l = ls_runId lease \<and> (\<exists>x. en_lease e' = Some x \<and> ls_epoch l = sl_epoch x)"
proof (cases "dget (s_runs s) (ls_runId lease)")
  case None
  with assms show ?thesis
    by (intro same) (auto simp: renewLease_def requireEnvelope_def readEnvelope_def split: if_splits)
next
  case (Some e)
  show ?thesis
  proof (cases "ttlMs \<le> 0 \<or> en_v e \<noteq> LEDGER_ENVELOPE_VERSION")
    case True
    with Some assms show ?thesis
      by (intro same) (auto simp: renewLease_def requireEnvelope_def readEnvelope_def split: if_splits)
  next
    case False
    note eval = renewLease_def requireEnvelope_def readEnvelope_def update_run_def atomicUpdate_def toLease_def
    show ?thesis
    proof (cases "renew_update now lease ttlMs e")
      case (Inl err)
      with Some False assms show ?thesis by (intro same) (auto simp: eval)
    next
      case (Inr e')
      with Some False assms show ?thesis
        by (intro updated [OF Some Inr]) (auto simp: eval split: option.splits)
    qed
  qed
qed

lemma release_update_change: "lease_ok e \<Longrightarrow> lease_change e (release_update now lease e)"
  by (auto simp: release_update_def lease_change_def lease_ok_def split: option.splits)

text \<open>Creating a run.\<close>

lemma add_entries_status:
  assumes "foldE (add_entry now) d ts = Inr d'" and "\<And>i x. dget d i = Some x \<Longrightarrow> le_status x \<in> {Queued, Eligible}"
    and "dget d' i = Some x"
  shows "le_status x \<in> {Queued, Eligible}"
  using assms
proof (induction ts arbitrary: d)
  case (Cons t ts)
  then obtain d1 where d1: "add_entry now d t = Inr d1" and rest: "foldE (add_entry now) d1 ts = Inr d'"
    by (auto simp: bindE_Inr)
  have "dget d1 i = Some x \<Longrightarrow> le_status x \<in> {Queued, Eligible}" for i x
    using d1 Cons.prems(2) [of i x] by (auto simp: add_entry_def new_entry_def split: if_splits)
  from Cons.IH [OF rest this Cons.prems(3)] show ?case .
qed simp

lemma createRun_cases:
  assumes "createRun now uuid graph createdBy runIdOpt s = (res, s')"
  obtains (same) "s' = s"
  | (created) r targets where "dget (s_runs s) r = None"
      "s' = s\<lparr>s_runs := dput r (new_envelope (new_ledger now graph createdBy r targets)) (s_runs s)\<rparr>"
      "\<And>i x. dget targets i = Some x \<Longrightarrow> le_status x \<in> {Queued, Eligible}"
proof -
  let ?r = "case runIdOpt of Some r \<Rightarrow> r | None \<Rightarrow> ''run-'' @ uuid"
  show ?thesis
  proof (cases "s' = s")
    case False
    with assms obtain targets where "foldE (add_entry now) [] (g_targets (gr_definition graph)) = Inr targets"
      and "dget (s_runs s) ?r = None"
      and "s' = s\<lparr>s_runs := dput ?r (new_envelope (new_ledger now graph createdBy ?r targets)) (s_runs s)\<rparr>"
      by (auto simp: createRun_def Let_def update_run_def atomicUpdate_def split: if_splits sum.splits option.splits)
    with add_entries_status [of now "[]" "g_targets (gr_definition graph)" targets] show ?thesis
      by (intro created [of ?r targets]) simp_all
  qed (rule same)
qed

lemma create_inv:
  assumes inv: "ledger_inv y" and fresh: "dget (s_runs (sys_store y)) r = None"
    and st: "\<And>i x. dget targets i = Some x \<Longrightarrow> le_status x \<in> {Queued, Eligible}"
  shows "ledger_inv (y\<lparr>sys_store := (sys_store y)\<lparr>s_runs :=
           dput r (new_envelope (new_ledger now graph createdBy r targets)) (s_runs (sys_store y))\<rparr>\<rparr>)"
proof (rule ledger_invI, goal_cases)
  case (1 r')
  have "status_ok [] (new_envelope (new_ledger now graph createdBy r targets))"
    using st by (auto simp: status_ok_def new_envelope_def new_ledger_def)
  then have "env_ok (sys_store y) [] r (new_envelope (new_ledger now graph createdBy r targets))"
    by (simp add: env_ok_def new_envelope_def new_ledger_def lease_ok_def history_tail_def)
  with ledger_invD(1) [OF inv, of r'] run_ok_no_env [OF ledger_invD(1) [OF inv] fresh] show ?case
    by (simp add: run_ok_put_run)
next
  case (2 j)
  with ledger_invD(2) [OF inv] have "job_ok (sys_store y) (sys_history y) j" by simp
  with fresh show ?case by (cases j) auto
next
  case 3
  show ?case using ledger_invD(3) [OF inv] fresh by (auto simp: issued_ok_def)
qed

text \<open>Materialising one key.\<close>

lemma put_inv:
  assumes inv: "ledger_inv y" and j: "sys_jobs y = add_mset (Job r (Some b) i k) J" and i: "i < length (tb_transitions b)"
  shows "ledger_inv (y\<lparr>sys_store := put_transition r b i (sys_store y),
           sys_jobs := add_mset (Job r (Some b) (Suc i) k) J\<rparr>)"
proof (rule ledger_invI, goal_cases)
  case (1 r')
  have "batch_ok (sys_history y r) b" using ledger_invD(2) [OF inv, of "Job r (Some b) i k"] j by simp
  then obtain pre post where "sys_history y r = pre @ tb_transitions b @ post" "length pre = tb_firstSeq b - 1" "1 \<le> tb_firstSeq b"
    by (auto simp: batch_ok_def)
  then have "sys_history y r ! (tb_firstSeq b + i - 1) = tb_transitions b ! i" "tb_firstSeq b + i \<le> length (sys_history y r)"
    "1 \<le> tb_firstSeq b"
    using i by (auto simp: nth_append)
  then have "stored_ok (put_transition r b i (sys_store y)) (sys_history y r') r'"
    if "stored_ok (sys_store y) (sys_history y r') r'"
    using that by (fastforce simp: stored_ok_def put_transition_def dest: dput_set)
  then show ?case
    using ledger_invD(1) [OF inv, of r']
    by (auto simp: run_ok_def env_ok_def put_transition_def split: option.splits)
next
  case (2 j')
  have mono: "job_ok (put_transition r b i (sys_store y)) (sys_history y) x" if "job_ok (sys_store y) (sys_history y) x" for x
    using that by (cases x) (simp add: put_transition_def)
  from 2 consider "j' = Job r (Some b) (Suc i) k" | "j' \<in># J" by auto
  then show ?case
  proof cases
    case 1
    have "job_ok (sys_store y) (sys_history y) (Job r (Some b) i k)" by (rule ledger_invD(2) [OF inv]) (simp add: j)
    from mono [OF this] 1 i show ?thesis by (simp add: put_transition_def less_Suc_eq)
  next
    case 2
    then show ?thesis using mono ledger_invD(2) [OF inv] j by simp
  qed
next
  case 3
  show ?case using ledger_invD(3) [OF inv] by (simp add: put_transition_def issued_ok_def)
qed

lemma job_change_inv:
  assumes "ledger_inv y" and "\<And>j. j \<in># J \<Longrightarrow> j \<in># sys_jobs y \<or> job_ok (sys_store y) (sys_history y) j"
  shows "ledger_inv (y\<lparr>sys_jobs := J\<rparr>)"
  using assms by (auto simp: ledger_inv_def)

text \<open>The atomic update of a commit.\<close>

lemma batch_ok_append: "batch_ok h b \<Longrightarrow> batch_ok (h @ x) b"
  by (auto simp: batch_ok_def) (metis append.assoc)

lemma status_ok_commit:
  assumes "status_ok h e" and "commit_update now r expected lease mutate ts (Some e) = Inr e'"
  shows "status_ok (h @ map (stamp now) ts) e'"
  unfolding status_ok_def
proof (intro allI impI)
  fix i x' assume x': "dget (r_targets (en_ledger e')) i = Some x'"
  with commit_update_ledger(7) [OF assms(2), of i] obtain x where x: "dget (r_targets (en_ledger e)) i = Some x"
    by fastforce
  from commit_update_ledger(8) [OF assms(2) x x'] have "linked (le_status x) (of_target i ts) (le_status x')" .
  moreover from assms(1) x obtain s where "s \<in> {Queued, Eligible}" "linked s (of_target i h) (le_status x)"
    by (auto simp: status_ok_def)
  ultimately show "\<exists>s \<in> {Queued, Eligible}. linked s (of_target i (h @ map (stamp now) ts)) (le_status x')"
    by (auto simp: linked_append)
qed

lemma update_run_ok:
  assumes run: "run_ok s h r" and job: "job_ok s H (Job r b (batch_length b) (Some (expected, lease, mutate, ts)))"
    and e: "dget (s_runs s) r = Some e" and up: "commit_update now r expected lease mutate ts (Some e) = Inr e'"
  shows "run_ok (s\<lparr>s_runs := dput r e' (s_runs s)\<rparr>) (h @ map (stamp now) ts) r"
proof -
  have rev: "r_ledgerRevision (en_ledger e) = expected" using commit_update_ledger(1) [OF up] .
  then have b: "b = en_lastBatch e" using job e by simp
  have tail: "history_tail h (en_lastBatch e)" and seq: "en_transitionSeq e = length h"
    using run e by (auto simp: run_ok_def env_ok_def)
  have fields: "en_lastBatch e' = Some \<lparr>tb_revision = expected + 1, tb_firstSeq = length h + 1, tb_transitions = map (stamp now) ts\<rparr>"
    "en_transitionSeq e' = length h + length ts" "en_v e' = en_v e" "r_runId (en_ledger e') = r_runId (en_ledger e)"
    "en_lease e' = en_lease e" "en_maxEpoch e' = en_maxEpoch e"
    using up seq by (auto simp: commit_update_Inr same_immutable_def)
  have present: "dget (s_transitions s) (r, q) \<noteq> None" if "1 \<le> q" "q \<le> length h" for q
  proof (cases "en_lastBatch e")
    case None
    with tail that show ?thesis by (simp add: history_tail_def)
  next
    case (Some x)
    then obtain pre where pre: "h = pre @ tb_transitions x" "length pre + 1 = tb_firstSeq x"
      using tail by (auto simp: history_tail_def)
    show ?thesis
    proof (cases "q < tb_firstSeq x")
      case True
      with run e Some that show ?thesis by (simp add: run_ok_def env_ok_def)
    next
      case False
      then obtain j where "q = tb_firstSeq x + j" using le_Suc_ex not_less by blast
      moreover from this pre that have "j < batch_length b" using b Some by (simp add: batch_length_def)
      ultimately show ?thesis using job b Some by simp
    qed
  qed
  moreover have "status_ok (h @ map (stamp now) ts) e'"
    using status_ok_commit [OF _ up] run e by (simp add: run_ok_def env_ok_def)
  moreover have "stored_ok s (h @ map (stamp now) ts) r"
    using run by (fastforce simp: run_ok_def stored_ok_def nth_append)
  ultimately show ?thesis
    using run e fields by (simp add: run_ok_put_run run_ok_def env_ok_def lease_ok_def history_tail_def)
qed

lemma history_tail_batch_ok:
  assumes "history_tail h (Some b)"
  shows "batch_ok h b"
proof -
  from assms obtain pre where "h = pre @ tb_transitions b @ []" "length pre = tb_firstSeq b - 1" "1 \<le> tb_firstSeq b"
    by (auto simp: history_tail_def)
  then show ?thesis unfolding batch_ok_def by blast
qed

lemma update_job_ok:
  assumes "job_ok s H j" and e: "dget (s_runs s) r = Some e"
    and up: "commit_update now r expected lease mutate ts (Some e) = Inr e'"
  shows "job_ok (s\<lparr>s_runs := dput r e' (s_runs s)\<rparr>) (H(r := H r @ map (stamp now) ts)) j"
proof (cases j)
  case (Job r' b i k)
  with assms(1) e commit_update_ledger(1,2) [OF up] show ?thesis
    by (cases "r' = r") (auto simp: batch_ok_append)
qed

lemma update_inv:
  assumes inv: "ledger_inv y" and j: "sys_jobs y = add_mset (Job r b (batch_length b) (Some (expected, lease, mutate, ts))) J"
    and up: "update_run (sys_store y) r (commit_update now r expected lease mutate ts) = (Inr e', s')"
  shows "ledger_inv (y\<lparr>sys_store := s', sys_jobs := add_mset (Job r (en_lastBatch e') 0 None) J,
           sys_history := (sys_history y)(r := sys_history y r @ map (stamp now) ts)\<rparr>)"
proof -
  from up obtain e where e: "dget (s_runs (sys_store y)) r = Some e"
    and cu: "commit_update now r expected lease mutate ts (Some e) = Inr e'"
    and s': "s' = (sys_store y)\<lparr>s_runs := dput r e' (s_runs (sys_store y))\<rparr>"
    by (auto simp: update_run_Inr commit_update_Inr)
  have job: "job_ok (sys_store y) (sys_history y) (Job r b (batch_length b) (Some (expected, lease, mutate, ts)))"
    by (rule ledger_invD(2) [OF inv]) (simp add: j)
  have runs: "run_ok s' (sys_history y r @ map (stamp now) ts) r"
    unfolding s' by (rule update_run_ok [OF ledger_invD(1) [OF inv] job e cu])
  show ?thesis
  proof (rule ledger_invI, goal_cases)
    case (1 r')
    with runs ledger_invD(1) [OF inv, of r'] show ?case
      by (cases "r' = r") (simp_all add: s' run_ok_put_run)
  next
    case (2 j')
    have "env_ok s' (sys_history y r @ map (stamp now) ts) r e'"
      using run_ok_env [OF runs, of e'] s' by simp
    then have "job_ok s' ((sys_history y)(r := sys_history y r @ map (stamp now) ts)) (Job r (en_lastBatch e') 0 None)"
      by (auto simp: env_ok_def history_tail_batch_ok)
    moreover have "job_ok s' ((sys_history y)(r := sys_history y r @ map (stamp now) ts)) j'" if "j' \<in># J"
      unfolding s' by (rule update_job_ok [OF ledger_invD(2) [OF inv] e cu]) (simp add: j that)
    ultimately show ?case using 2 by auto
  next
    case 3
    show ?case
      using issued_ok_put [OF ledger_invD(3) [OF inv] e, of e'] commit_update_ledger(5) [OF cu] s' by simp
  qed
qed

lemma commit_check_Inr:
  "commit_check now r expected lease s = Inr b \<longleftrightarrow>
     (\<exists>e. dget (s_runs s) r = Some e \<and> en_v e = LEDGER_ENVELOPE_VERSION \<and> assertCurrentLease e lease now = Inr () \<and>
          r_ledgerRevision (en_ledger e) = expected \<and> b = en_lastBatch e)"
  by (auto simp: commit_check_def requireEnvelope_def readEnvelope_def result_simps split: option.splits if_splits)

lemma saveAttempt_store: "saveAttempt a s = (res, s') \<Longrightarrow> s_runs s' = s_runs s \<and> s_transitions s' = s_transitions s"
  by (auto simp: saveAttempt_def split: if_splits prod.splits sum.splits)

lemma ledger_inv_store_cong:
  assumes "ledger_inv y" and "s_runs s' = s_runs (sys_store y)" and "s_transitions s' = s_transitions (sys_store y)"
  shows "ledger_inv (y\<lparr>sys_store := s'\<rparr>)"
proof -
  have "job_ok s' h j = job_ok (sys_store y) h j" for h j using assms(2,3) by (cases j) simp
  moreover have "run_ok s' h r = run_ok (sys_store y) h r" for h r
    using assms(2,3) by (cases "dget (s_runs (sys_store y)) r") (simp_all add: run_ok_def stored_ok_def env_ok_def)
  ultimately show ?thesis using assms by (simp add: ledger_inv_def issued_ok_def)
qed

lemma ledger_step_inv: "ledger_step y y' \<Longrightarrow> ledger_inv y \<Longrightarrow> ledger_inv y'"
proof (induction rule: ledger_step.induct)
  case (create now uuid graph createdBy runIdOpt y res s')
  then show ?case by (cases rule: createRun_cases) (auto intro: create_inv)
next
  case (acquire now runId holderId ttlMs y res s')
  from acquire.hyps show ?case
  proof (cases rule: acquireLease_cases)
    case same
    then show ?thesis using acquire.prems by simp
  next
    case (updated e a e')
    note ch = acquire_update_change [OF updated(2) run_ok_lease_ok [OF ledger_invD(1) [OF acquire.prems] updated(1)]]
    show ?thesis
      unfolding updated(3)
      by (rule lease_change_inv [OF acquire.prems updated(1) ch(1)]) (use ch(3) updated(4) in \<open>auto simp: toLease_def\<close>)
  qed
next
  case (renew now lease ttlMs y res s')
  from renew.hyps show ?case
  proof (cases rule: renewLease_cases)
    case same
    then show ?thesis using renew.prems by simp
  next
    case (updated e e')
    note ch = renew_update_change [OF updated(2) run_ok_lease_ok [OF ledger_invD(1) [OF renew.prems] updated(1)]]
    show ?thesis
      unfolding updated(3)
      by (rule lease_change_inv [OF renew.prems updated(1) ch(1)]) (use ch(2,3) updated(4) in fastforce)
  qed
next
  case (release y lease e now)
  from lease_change_inv [OF release.prems release.hyps release_update_change, of "{}"]
    run_ok_lease_ok [OF ledger_invD(1) [OF release.prems] release.hyps]
  show ?case by simp
next
  case (save attempt y res' s')
  then show ?case using saveAttempt_store by (intro ledger_inv_store_cong) auto
next
  case (begin_commit now runId expected lease y batch mutate ts)
  then obtain e where e: "dget (s_runs (sys_store y)) runId = Some e" "r_ledgerRevision (en_ledger e) = expected"
    "batch = en_lastBatch e"
    by (auto simp: commit_check_Inr)
  with run_ok_env [OF ledger_invD(1) [OF begin_commit.prems] e(1)]
  have "job_ok (sys_store y) (sys_history y) (Job runId batch 0 (Some (expected, lease, mutate, ts)))"
    by (auto simp: env_ok_def history_tail_batch_ok)
  with begin_commit.prems show ?case by (intro job_change_inv) auto
next
  case (skip y runId b i k J)
  have "job_ok (sys_store y) (sys_history y) (Job runId (Some b) i k)"
    by (rule ledger_invD(2) [OF skip.prems]) (simp add: skip.hyps)
  with skip.hyps have "job_ok (sys_store y) (sys_history y) (Job runId (Some b) (Suc i) k)"
    by (simp add: less_Suc_eq)
  with skip show ?case by (intro job_change_inv) auto
next
  case (put y runId b i k J)
  then show ?case by (intro put_inv)
next
  case (update y runId b i expected lease mutate ts J now e' s')
  then show ?case using update_inv by simp
next
  case (update_fails y runId b i expected lease mutate ts J now err s')
  then have "s' = sys_store y" by (simp add: update_run_Inl)
  with update_fails job_change_inv [OF update_fails.prems, of J] show ?case by simp
next
  case (crash y j J)
  then show ?case by (intro job_change_inv) auto
qed

lemma initial_inv: "ledger_inv initial_system"
  by (simp add: ledger_inv_def initial_system_def empty_store_def run_ok_def stored_ok_def issued_ok_def)

definition reachable_ledger :: "LedgerSystem \<Rightarrow> bool" where
  "reachable_ledger y \<longleftrightarrow> ledger_step\<^sup>*\<^sup>* initial_system y"

lemma ledger_steps_inv: "ledger_step\<^sup>*\<^sup>* y y' \<Longrightarrow> ledger_inv y \<Longrightarrow> ledger_inv y'"
  by (induction rule: rtranclp_induct) (auto intro: ledger_step_inv)

lemma reachable_inv: "reachable_ledger y \<Longrightarrow> ledger_inv y"
  unfolding reachable_ledger_def by (rule ledger_steps_inv [OF _ initial_inv])

subsection \<open>Reading the history back\<close>

interpretation seq_order: comparator "\<lambda>(a :: nat \<times> 'a) b. rat_of_nat (fst a) - rat_of_nat (fst b)"
  by (rule comparator_key [where key = fst]) simp

text \<open>The part of a history whose sequence numbers are in a set\<close>

definition history_part :: "nat set \<Rightarrow> 'a list \<Rightarrow> 'a list" where
  "history_part K h = map (\<lambda>k. h ! (k - 1)) (filter (\<lambda>k. k \<in> K) [1..<Suc (length h)])"

lemma history_all: "map (\<lambda>k. h ! (k - 1)) [1..<Suc (length h)] = h"
  by (rule nth_equalityI) (simp_all del: upt_Suc)

lemma history_part_all: "{1..length h} \<subseteq> K \<Longrightarrow> history_part K h = h"
proof -
  assume "{1..length h} \<subseteq> K"
  then have "filter (\<lambda>k. k \<in> K) [1..<Suc (length h)] = [1..<Suc (length h)]" by (auto simp: filter_id_conv)
  then show ?thesis by (simp only: history_part_def history_all)
qed

lemma history_part_subseq: "subseq (history_part K h) h"
proof -
  have "subseq (history_part K h) (map (\<lambda>k. h ! (k - 1)) [1..<Suc (length h)])"
    unfolding history_part_def by (intro subseq_map subseq_filter_left)
  then show ?thesis by (simp only: history_all)
qed

lemma history_part_prefix:
  assumes "{1..m} \<subseteq> K" shows "prefix (take m h) (history_part K h)"
proof (cases "m \<le> length h")
  case True
  then have "[1..<Suc (length h)] = [1..<Suc m] @ [Suc m..<Suc (length h)]" by (metis Suc_le_mono le_add1 le_add_diff_inverse plus_1_eq_Suc upt_add_eq_append)
  moreover have "filter (\<lambda>k. k \<in> K) [1..<Suc m] = [1..<Suc m]" using assms by (auto simp: filter_id_conv)
  moreover have "map (\<lambda>k. h ! (k - 1)) [1..<Suc m] = take m h" using True by (intro nth_equalityI) (simp_all del: upt_Suc)
  ultimately show ?thesis unfolding history_part_def by (metis filter_append map_append prefixI)
next
  case False
  then have "history_part K h = h" using assms by (intro history_part_all) auto
  with False show ?thesis by simp
qed

lemma sort_by_seq:
  fixes d :: "(nat \<times> 'a) list"
  assumes "distinct (dkeys d)" and "\<And>k v. (k, v) \<in> set d \<Longrightarrow> 1 \<le> k \<and> k \<le> length h \<and> v = h ! (k - 1)"
  shows "map snd (sort_by (\<lambda>a b. rat_of_nat (fst a) - rat_of_nat (fst b)) d) = history_part (set (dkeys d)) h"
proof -
  let ?e = "sort_by (\<lambda>a b. rat_of_nat (fst a) - rat_of_nat (fst b)) d"
  have "sorted_wrt (\<lambda>a b. rat_of_nat (fst a) - rat_of_nat (fst b) \<le> 0) ?e" by (rule seq_order.sorted_sort_by)
  then have sorted: "sorted (dkeys ?e)" by (simp add: sorted_map)
  have dist: "distinct (dkeys ?e)"
    using assms(1) by (simp add: distinct_map)
  let ?ks = "filter (\<lambda>k. k \<in> set (dkeys d)) [1..<Suc (length h)]"
  have "1 \<le> k \<and> k < Suc (length h)" if "k \<in> set (dkeys d)" for k using that assms(2) by fastforce
  then have "set ?ks = set (dkeys d)" by (simp only: set_filter set_upt atLeastLessThan_iff) blast
  then have "set (dkeys ?e) = set ?ks" by simp
  then have "dkeys ?e = ?ks"
    by (rule sorted_distinct_set_unique [OF sorted dist sorted_wrt_filter [OF sorted_upt] distinct_filter [OF distinct_upt]])
  moreover have "map snd ?e = map (\<lambda>k. h ! (k - 1)) (dkeys ?e)" using assms(2) by auto
  ultimately show ?thesis by (simp only: history_part_def)
qed

lemma fold_dput_distinct: "distinct (dkeys d) \<Longrightarrow> distinct (dkeys (fold (\<lambda>(k, t) d. dput k t d) L d))"
  by (induction L arbitrary: d) (auto simp: distinct_update)

lemma fold_dput_set: "x \<in> set (fold (\<lambda>(k, t) d. dput k t d) L d) \<Longrightarrow> x \<in> set L \<or> x \<in> set d"
  by (induction L arbitrary: d) (auto dest: dput_set)

lemma fold_dput_keys: "set (dkeys (fold (\<lambda>(k, t) d. dput k t d) L d)) = set (dkeys L) \<union> set (dkeys d)"
  by (induction L arbitrary: d) (auto simp del: set_map simp: dput_set_keys)

lemma by_seq_keys:
  "set (dkeys (transitions_by_seq listed r (Some e))) =
     st_seq ` {st. \<exists>q. ((r, q), st) \<in> set (s_transitions listed)} \<union> set (dkeys (batch_entries (en_lastBatch e)))"
  unfolding transitions_by_seq_def Let_def fold_dput_keys by (force simp: image_iff)

text \<open>What a read may find: the transitions come from a list that was made when the history was \<open>h0\<close>, a prefix of \<open>h\<close>.\<close>

lemma by_seq_sound:
  assumes st: "stored_ok listed h0 r" and h: "prefix h0 h" and env: "env_ok s h r e" and k: "(k, v) \<in> set (transitions_by_seq listed r (Some e))"
  shows "1 \<le> k \<and> k \<le> length h \<and> v = h ! (k - 1)"
proof -
  let ?S = "map (\<lambda>(_, st). (st_seq st, st_transition st)) (filter (\<lambda>((r', _), _). r' = r) (s_transitions listed))"
  let ?B = "batch_entries (en_lastBatch e)"
  have "(k, v) \<in> set (?S @ ?B) \<or> (k, v) \<in> set []"
    by (rule fold_dput_set) (use k in \<open>simp add: transitions_by_seq_def\<close>)
  then consider "(k, v) \<in> set ?S" | "(k, v) \<in> set ?B" by (simp only: set_append Un_iff list.set empty_iff) blast
  then show ?thesis
  proof cases
    case 1
    with st have "1 \<le> k \<and> k \<le> length h0 \<and> v = h0 ! (k - 1)" by (fastforce simp: stored_ok_def)
    with h show ?thesis by (auto simp: prefix_def nth_append)
  next
    case 2
    then show ?thesis using env by (auto simp: env_ok_def history_tail_def batch_entries_def in_set_enumerate_eq nth_append
        split: option.splits)
  qed
qed

lemma by_seq_stored:
  assumes "stored_ok listed h0 r" and "dget (s_transitions listed) (r, k) \<noteq> None"
  shows "k \<in> set (dkeys (transitions_by_seq listed r (Some e)))"
proof -
  from assms(2) obtain st where "((r, k), st) \<in> set (s_transitions listed)" by (auto dest: map_of_SomeD)
  moreover from this assms(1) have "st_seq st = k" by (auto simp: stored_ok_def)
  ultimately show ?thesis unfolding by_seq_keys by blast
qed

lemma before_last_batch:
  assumes env: "env_ok s h r e" and k: "1 \<le> k" "k \<le> length h - batch_length (en_lastBatch e)"
  shows "dget (s_transitions s) (r, k) \<noteq> None"
proof (cases "en_lastBatch e")
  case None
  with env k show ?thesis by (simp add: env_ok_def history_tail_def)
next
  case (Some b)
  then obtain pre where "h = pre @ tb_transitions b" "length pre + 1 = tb_firstSeq b" using env by (auto simp: env_ok_def history_tail_def)
  with Some k have "k < tb_firstSeq b" by (simp add: batch_length_def)
  with env Some k show ?thesis by (simp add: env_ok_def)
qed

lemma in_last_batch:
  assumes env: "env_ok s h r e" and k: "length h - batch_length (en_lastBatch e) < k" "k \<le> length h"
  shows "k \<in> set (dkeys (transitions_by_seq listed r (Some e)))"
proof (cases "en_lastBatch e")
  case (Some b)
  then obtain pre where "h = pre @ tb_transitions b" "length pre + 1 = tb_firstSeq b" using env by (auto simp: env_ok_def history_tail_def)
  with Some k show ?thesis unfolding by_seq_keys by (simp add: batch_length_def batch_entries_def)
qed (use k in \<open>simp add: batch_length_def\<close>)

text \<open>What happens to a run between two states: the history only grows, and as long as the revision stays so do the history and the last batch.\<close>

definition run_later :: "GoalRunId \<Rightarrow> LedgerSystem \<Rightarrow> LedgerSystem \<Rightarrow> bool" where
  "run_later r y z \<longleftrightarrow> prefix (sys_history y r) (sys_history z r) \<and>
     (\<forall>e. dget (s_runs (sys_store y)) r = Some e \<longrightarrow>
       (\<exists>e'. dget (s_runs (sys_store z)) r = Some e' \<and> r_ledgerRevision (en_ledger e) \<le> r_ledgerRevision (en_ledger e') \<and>
         (r_ledgerRevision (en_ledger e') = r_ledgerRevision (en_ledger e) \<longrightarrow>
            en_lastBatch e' = en_lastBatch e \<and> sys_history z r = sys_history y r)))"

lemma run_later_refl: "run_later r y y"
  by (simp add: run_later_def)

lemma run_later_trans:
  assumes "run_later r x y" and "run_later r y z" shows "run_later r x z"
proof -
  have "\<exists>e'. dget (s_runs (sys_store z)) r = Some e' \<and> r_ledgerRevision (en_ledger e) \<le> r_ledgerRevision (en_ledger e') \<and>
      (r_ledgerRevision (en_ledger e') = r_ledgerRevision (en_ledger e) \<longrightarrow> en_lastBatch e' = en_lastBatch e \<and> sys_history z r = sys_history x r)"
    if "dget (s_runs (sys_store x)) r = Some e" for e
  proof -
    from assms(1) that obtain e1 where e1: "dget (s_runs (sys_store y)) r = Some e1" "r_ledgerRevision (en_ledger e) \<le> r_ledgerRevision (en_ledger e1)"
      "r_ledgerRevision (en_ledger e1) = r_ledgerRevision (en_ledger e) \<Longrightarrow> en_lastBatch e1 = en_lastBatch e \<and> sys_history y r = sys_history x r"
      by (auto simp: run_later_def)
    from assms(2) e1(1) obtain e2 where e2: "dget (s_runs (sys_store z)) r = Some e2" "r_ledgerRevision (en_ledger e1) \<le> r_ledgerRevision (en_ledger e2)"
      "r_ledgerRevision (en_ledger e2) = r_ledgerRevision (en_ledger e1) \<Longrightarrow> en_lastBatch e2 = en_lastBatch e1 \<and> sys_history z r = sys_history y r"
      by (auto simp: run_later_def)
    show ?thesis
    proof (intro exI conjI impI)
      assume "r_ledgerRevision (en_ledger e2) = r_ledgerRevision (en_ledger e)"
      with e1(2) e2(2) have "r_ledgerRevision (en_ledger e1) = r_ledgerRevision (en_ledger e)" "r_ledgerRevision (en_ledger e2) = r_ledgerRevision (en_ledger e1)" by simp_all
      with e1(3) e2(3) show "en_lastBatch e2 = en_lastBatch e" "sys_history z r = sys_history x r" by simp_all
    qed (use e1 e2 in simp_all)
  qed
  moreover have "prefix (sys_history x r) (sys_history z r)"
    using assms prefix_order.order_trans unfolding run_later_def by blast
  ultimately show ?thesis by (simp add: run_later_def)
qed

lemma run_later_same: "s_runs (sys_store z) = s_runs (sys_store y) \<Longrightarrow> sys_history z = sys_history y \<Longrightarrow> run_later r y z"
  by (simp add: run_later_def)

lemma run_later_lease: "lease_change e e' \<Longrightarrow> dget (s_runs (sys_store y)) r' = Some e \<Longrightarrow> s_runs (sys_store z) = dput r' e' (s_runs (sys_store y)) \<Longrightarrow>
    sys_history z = sys_history y \<Longrightarrow> run_later r y z"
  by (auto simp: run_later_def lease_change_def)

lemma ledger_step_later: "ledger_step y z \<Longrightarrow> ledger_inv y \<Longrightarrow> run_later r y z"
proof (induction rule: ledger_step.induct)
  case (create now uuid graph createdBy runIdOpt y res s')
  from create.hyps show ?case by (cases rule: createRun_cases) (auto simp: run_later_def)
next
  case (acquire now runId holderId ttlMs y res s')
  from acquire.hyps show ?case
  proof (cases rule: acquireLease_cases)
    case (updated e a e')
    note ch = acquire_update_change(1) [OF updated(2) run_ok_lease_ok [OF ledger_invD(1) [OF acquire.prems] updated(1)]]
    show ?thesis by (rule run_later_lease [OF ch updated(1)]) (simp_all add: updated(3))
  qed (simp add: run_later_same)
next
  case (renew now lease ttlMs y res s')
  from renew.hyps show ?case
  proof (cases rule: renewLease_cases)
    case (updated e e')
    note ch = renew_update_change(1) [OF updated(2) run_ok_lease_ok [OF ledger_invD(1) [OF renew.prems] updated(1)]]
    show ?thesis by (rule run_later_lease [OF ch updated(1)]) (simp_all add: updated(3))
  qed (simp add: run_later_same)
next
  case (release y lease e now)
  have ch: "lease_change e (release_update now lease e)"
    by (rule release_update_change) (rule run_ok_lease_ok [OF ledger_invD(1) [OF release.prems] release.hyps])
  show ?case by (rule run_later_lease [OF ch release.hyps]) simp_all
next
  case (update y runId b i expected lease mutate ts J now e' s')
  then obtain e where "dget (s_runs (sys_store y)) runId = Some e" "s' = (sys_store y)\<lparr>s_runs := dput runId e' (s_runs (sys_store y))\<rparr>"
    "commit_update now runId expected lease mutate ts (Some e) = Inr e'"
    by (auto simp: update_run_Inr commit_update_Inr)
  with commit_update_ledger(1,2) [OF this(3)] show ?case by (auto simp: run_later_def)
qed (auto intro!: run_later_same simp: put_transition_def update_run_Inl dest: saveAttempt_store)

lemma ledger_steps_later:
  assumes "ledger_step\<^sup>*\<^sup>* y z" and inv: "ledger_inv y" shows "run_later r y z"
  using assms(1)
proof (induction rule: rtranclp_induct)
  case (step u v)
  have "run_later r u v" by (rule ledger_step_later [OF step(2) ledger_steps_inv [OF step(1) inv]])
  with step(3) show ?case by (rule run_later_trans)
qed (rule run_later_refl)

text \<open>A read that lists the transitions in one state and reads the envelope in a later one\<close>

lemma transitions_between:
  assumes y: "ledger_inv y" and z: "ledger_inv z" and later: "run_later r y z"
  obtains K where "transitions (sys_store y) (sys_store z) r targetId =
      Inr (filter (\<lambda>t. targetId = None \<or> targetId = Some (tr_targetId t)) (history_part K (sys_history z r)))"
    "\<And>e. dget (s_runs (sys_store y)) r = Some e \<Longrightarrow> {1..length (sys_history y r) - batch_length (en_lastBatch e)} \<subseteq> K"
    "\<And>e. dget (s_runs (sys_store z)) r = Some e \<Longrightarrow> {length (sys_history z r) - batch_length (en_lastBatch e) + 1..length (sys_history z r)} \<subseteq> K"
proof (cases "dget (s_runs (sys_store z)) r")
  case None
  then have y0: "dget (s_runs (sys_store y)) r = None" using later by (cases "dget (s_runs (sys_store y)) r") (auto simp: run_later_def)
  have "sys_history z r = []" "stored_ok (sys_store y) [] r"
    using run_ok_no_env [OF ledger_invD(1) [OF z] None] run_ok_no_env [OF ledger_invD(1) [OF y] y0] by auto
  then have "filter (\<lambda>((r', _), _). r' = r) (s_transitions (sys_store y)) = []"
    by (auto simp: stored_ok_def filter_empty_conv)
  with None y0 \<open>sys_history z r = []\<close> show thesis
    by (intro that [of "{}"]) (simp_all add: transitions_def readEnvelope_def transitions_by_seq_def batch_entries_def history_part_def)
next
  case (Some e)
  let ?D = "transitions_by_seq (sys_store y) r (Some e)"
  have env: "env_ok (sys_store z) (sys_history z r) r e" using run_ok_env [OF ledger_invD(1) [OF z] Some] by simp
  have st: "stored_ok (sys_store y) (sys_history y r) r" using ledger_invD(1) [OF y, of r] by (simp add: run_ok_def)
  have pre: "prefix (sys_history y r) (sys_history z r)" using later by (simp add: run_later_def)
  note sound = by_seq_sound [OF st pre env]
  have "filter (\<lambda>(k, _). k \<le> en_transitionSeq e) ?D = ?D"
    using sound env by (auto simp: filter_id_conv env_ok_def)
  moreover have "distinct (dkeys ?D)" by (simp add: transitions_by_seq_def fold_dput_distinct)
  ultimately have "transitions (sys_store y) (sys_store z) r targetId =
      Inr (filter (\<lambda>t. targetId = None \<or> targetId = Some (tr_targetId t)) (history_part (set (dkeys ?D)) (sys_history z r)))"
    using Some env sort_by_seq [OF _ sound] by (simp add: transitions_def readEnvelope_def env_ok_def)
  moreover have "{1..length (sys_history y r) - batch_length (en_lastBatch e0)} \<subseteq> set (dkeys ?D)"
    if "dget (s_runs (sys_store y)) r = Some e0" for e0
  proof
    fix k assume "k \<in> {1..length (sys_history y r) - batch_length (en_lastBatch e0)}"
    then have "dget (s_transitions (sys_store y)) (r, k) \<noteq> None"
      using run_ok_env [OF ledger_invD(1) [OF y] that] by (intro before_last_batch [where h = "sys_history y r"]) auto
    then show "k \<in> set (dkeys ?D)" by (rule by_seq_stored [OF st])
  qed
  moreover have "{length (sys_history z r) - batch_length (en_lastBatch e) + 1..length (sys_history z r)} \<subseteq> set (dkeys ?D)"
    using in_last_batch [OF env] by auto
  ultimately show thesis using Some by (intro that) auto
qed

subsection \<open>Fencing\<close>

text \<open>
  The contract between leases and the commits they protect: epochs handed out never go down, and
  only the newest epoch is accepted. From these two laws alone, an epoch that has been passed is
  never accepted again.
\<close>

locale fencing =
  fixes step :: "'s \<Rightarrow> 's \<Rightarrow> bool"
    and good :: "'s \<Rightarrow> bool"
    and newest :: "'s \<Rightarrow> nat"
    and accepted :: "'s \<Rightarrow> nat \<Rightarrow> bool"
  assumes good_step: "good s \<Longrightarrow> step s s' \<Longrightarrow> good s'"
    and newest_mono: "good s \<Longrightarrow> step s s' \<Longrightarrow> newest s \<le> newest s'"
    and accepted_newest: "good s \<Longrightarrow> accepted s n \<Longrightarrow> n = newest s"
begin

lemma good_steps: "step\<^sup>*\<^sup>* s s' \<Longrightarrow> good s \<Longrightarrow> good s'"
  by (induction rule: rtranclp_induct) (auto intro: good_step)

lemma newest_steps: "step\<^sup>*\<^sup>* s s' \<Longrightarrow> good s \<Longrightarrow> newest s \<le> newest s'"
proof (induction rule: rtranclp_induct)
  case (step u v)
  then show ?case using newest_mono [of u v] good_steps [of s u] by simp
qed simp

lemma fenced_forever:
  assumes "good s" and "n < newest s" and "step\<^sup>*\<^sup>* s s'"
  shows "\<not> accepted s' n"
proof
  assume "accepted s' n"
  with accepted_newest good_steps assms have "n = newest s'" by blast
  with newest_steps [OF assms(3,1)] assms(2) show False by simp
qed

end

definition newest_epoch :: "GoalRunId \<Rightarrow> LedgerSystem \<Rightarrow> nat" where
  "newest_epoch r y = (case dget (s_runs (sys_store y)) r of None \<Rightarrow> 0 | Some e \<Rightarrow> en_maxEpoch e)"

text \<open>An epoch is accepted when some lease with it passes the check of the commit at some time.\<close>

definition accepts_epoch :: "GoalRunId \<Rightarrow> LedgerSystem \<Rightarrow> nat \<Rightarrow> bool" where
  "accepts_epoch r y n \<longleftrightarrow> (\<exists>e lease now. dget (s_runs (sys_store y)) r = Some e \<and> ls_epoch lease = n \<and>
     assertCurrentLease e lease now = Inr ())"

lemma ledger_step_epoch:
  assumes "ledger_inv y" and "ledger_step y y'"
  shows "newest_epoch r y \<le> newest_epoch r y'"
  using assms(2)
proof cases
  case (create now uuid graph createdBy runIdOpt res s')
  from create(2) show ?thesis
    by (cases rule: createRun_cases) (auto simp: create(1) newest_epoch_def)
next
  case (acquire now runId holderId ttlMs res s')
  from acquire(2) show ?thesis
  proof (cases rule: acquireLease_cases)
    case (updated e a e')
    note run_ok_lease_ok [OF ledger_invD(1) [OF assms(1)] updated(1)]
    from acquire_update_change(1) [OF updated(2) this] updated show ?thesis
      by (auto simp: acquire(1) newest_epoch_def lease_change_def)
  qed (simp add: acquire(1) newest_epoch_def)
next
  case (renew now lease ttlMs res s')
  from renew(2) show ?thesis
  proof (cases rule: renewLease_cases)
    case (updated e e')
    note run_ok_lease_ok [OF ledger_invD(1) [OF assms(1)] updated(1)]
    from renew_update_change(1) [OF updated(2) this] updated show ?thesis
      by (auto simp: renew(1) newest_epoch_def lease_change_def)
  qed (simp add: renew(1) newest_epoch_def)
next
  case (release lease e now)
  from release_update_change [OF run_ok_lease_ok [OF ledger_invD(1) [OF assms(1)] release(2)]] release show ?thesis
    by (auto simp: newest_epoch_def lease_change_def)
next
  case (save attempt res' s')
  then show ?thesis using saveAttempt_store [OF save(2)] by (simp add: newest_epoch_def)
next
  case (update runId b i expected lease mutate ts J now e' s')
  then obtain e where "dget (s_runs (sys_store y)) runId = Some e" "commit_update now runId expected lease mutate ts (Some e) = Inr e'"
    by (auto simp: update_run_Inr commit_update_Inr)
  with commit_update_ledger(5) [OF this(2)] update show ?thesis by (auto simp: newest_epoch_def update_run_Inr)
qed (auto simp: newest_epoch_def put_transition_def update_run_Inl)

interpretation ledger_fence: fencing ledger_step ledger_inv "newest_epoch r" "accepts_epoch r" for r
proof
  fix y y' assume "ledger_inv y" "ledger_step y y'"
  then show "ledger_inv y'" using ledger_step_inv by blast
  show "newest_epoch r y \<le> newest_epoch r y'" using ledger_step_epoch \<open>ledger_inv y\<close> \<open>ledger_step y y'\<close> .
next
  fix y n assume inv: "ledger_inv y" and "accepts_epoch r y n"
  then obtain e lease now where e: "dget (s_runs (sys_store y)) r = Some e" "ls_epoch lease = n"
    "assertCurrentLease e lease now = Inr ()"
    by (auto simp: accepts_epoch_def)
  with run_ok_lease_ok [OF ledger_invD(1) [OF inv] e(1)] show "n = newest_epoch r y"
    by (auto simp: assertCurrentLease_def newest_epoch_def lease_ok_def split: if_splits option.splits)
qed

subsection \<open>Properties of the ledger\<close>

lemma assertCurrentLease_code: "assertCurrentLease e l now = Inl err \<Longrightarrow> e_code err = STALE_LEASE"
  by (auto simp: assertCurrentLease_def staleLease_def split: if_splits option.splits)

lemma acquire_step:
  "acquireLease now r holderId ttlMs (sys_store y) = (Inr (Some l), s') \<Longrightarrow>
     ledger_step y (y\<lparr>sys_store := s', sys_issued := sys_issued y \<union> {l}\<rparr>)"
  using ledger_step.acquire [of now r holderId ttlMs y "Inr (Some l)" s'] by simp

lemma acquire_newest:
  assumes inv: "ledger_inv y" and "acquireLease now r holderId ttlMs (sys_store y) = (Inr (Some l), s')"
  shows "ls_runId l = r" "newest_epoch r y < ls_epoch l" "newest_epoch r (y\<lparr>sys_store := s', sys_issued := I\<rparr>) = ls_epoch l"
proof -
  from assms(2) have "ls_runId l = r \<and> newest_epoch r y < ls_epoch l \<and>
    newest_epoch r (y\<lparr>sys_store := s', sys_issued := I\<rparr>) = ls_epoch l"
  proof (cases rule: acquireLease_cases)
    case (updated e a e')
    then obtain x where "a = Some x" "l = toLease r x" by (cases a) auto
    with acquire_update_change(3) [OF updated(2) run_ok_lease_ok [OF ledger_invD(1) [OF inv] updated(1)] this(1)] updated
    show ?thesis by (simp add: newest_epoch_def toLease_def)
  qed blast
  then show "ls_runId l = r" "newest_epoch r y < ls_epoch l"
    "newest_epoch r (y\<lparr>sys_store := s', sys_issued := I\<rparr>) = ls_epoch l" by auto
qed

text \<open>
  C1. Fencing. Once a lease on a run has been acquired, every lease that was handed out for that run before it
  can never change the run again: in every state the system reaches afterwards, whatever other callers do and
  wherever they crash, the atomic update of a commit with the old lease is rejected with STALE_LEASE and writes
  nothing, whatever the commit was meant to do and however long before the takeover it was begun and had
  passed its first check. A commit that is begun only then is rejected as well, before it writes anything.
\<close>

theorem superseded_lease_never_commits:
  assumes reach: "reachable_ledger y" and old: "l \<in> sys_issued y" and run: "ls_runId l = r"
    and takeover: "acquireLease now r holderId ttlMs (sys_store y) = (Inr (Some l'), s')"
    and later: "ledger_step\<^sup>*\<^sup>* (y\<lparr>sys_store := s', sys_issued := sys_issued y \<union> {l'}\<rparr>) z"
  shows "(\<exists>err. update_run (sys_store z) r (commit_update now2 r expected l mutate ts) = (Inl err, sys_store z) \<and> e_code err = STALE_LEASE) \<and>
    (\<exists>err. commit now1 now2 r expected l mutate ts (sys_store z) = (Inl err, sys_store z) \<and> e_code err = STALE_LEASE)"
proof -
  let ?y = "y\<lparr>sys_store := s', sys_issued := sys_issued y \<union> {l'}\<rparr>"
  note inv = reachable_inv [OF reach]
  have inv': "ledger_inv ?y" using ledger_step_inv [OF acquire_step [OF takeover] inv] .
  have "ls_epoch l \<le> newest_epoch r y"
    using ledger_invD(3) [OF inv] old run by (auto simp: issued_ok_def newest_epoch_def)
  then have less: "ls_epoch l < newest_epoch r ?y" using acquire_newest [OF inv takeover] by simp
  then have no: "\<not> accepts_epoch r z (ls_epoch l)" by (rule ledger_fence.fenced_forever [OF inv' _ later])
  have "0 < newest_epoch r z" using ledger_fence.newest_steps [OF later inv', of r] less by simp
  then obtain e where e: "dget (s_runs (sys_store z)) r = Some e"
    by (auto simp: newest_epoch_def split: option.splits)
  with run_ok_env [OF ledger_invD(1) [OF ledger_steps_inv [OF later inv']]] have v: "en_v e = LEDGER_ENVELOPE_VERSION"
    by (auto simp: env_ok_def)
  have rejected: "\<exists>err. assertCurrentLease e l t = Inl err \<and> e_code err = STALE_LEASE" for t
  proof (cases "assertCurrentLease e l t")
    case (Inr u)
    with no e show ?thesis by (auto simp: accepts_epoch_def)
  qed (use assertCurrentLease_code in blast)
  from rejected [of now2] obtain err where err: "assertCurrentLease e l now2 = Inl err" "e_code err = STALE_LEASE" by blast
  then have "update_run (sys_store z) r (commit_update now2 r expected l mutate ts) = (Inl err, sys_store z)"
    using e by (simp add: update_run_Inl commit_update_def)
  with err(2) rejected [of now1] e v show ?thesis
    by (auto simp: commit_def commit_check_def requireEnvelope_def readEnvelope_def)
qed

definition sample_limits :: ResourceLimits where
  "sample_limits = \<lparr>maxTasksPerRun = 10, maxRepairsPerTask = 2, maxSameActionNoProgress = 2, maxRunMinutes = 60,
     hostedSpendUsd = 0, localModelFirst = True, maxConcurrentWritersPerWorktree = 1, maxConcurrentTargets = None\<rparr>"

definition sample_graph :: GoalGraphRevisionRecord where
  "sample_graph = \<lparr>gr_graphId = ''g'', gr_projectId = ''p'', gr_revision = 1,
     gr_definition = \<lparr>g_schemaVersion = ''1'', g_name = ''demo'', g_purpose = None,
       g_constitution = \<lparr>con_invariants = [], con_resourceLimits = sample_limits, con_allowedUnattended = [], con_needsApproval = []\<rparr>,
       g_targets = sample_targets, g_entry = ''VERIFY'', g_nodes = [\<lparr>n_id = ''VERIFY'', n_next = [], n_promptId = None\<rparr>]\<rparr>,
     gr_digest = ''d'', gr_createdAt = 0, gr_createdBy = ''user:ann'', gr_parentRevision = None\<rparr>"

definition sample_store :: Store where
  "sample_store = snd (createRun 0 [] sample_graph ''user:ann'' (Some ''run-1'') empty_store)"

definition sample_created :: LedgerSystem where
  "sample_created = initial_system\<lparr>sys_store := sample_store\<rparr>"

definition sample_lease :: RunLease where
  "sample_lease = \<lparr>ls_runId = ''run-1'', ls_holderId = ''a'', ls_epoch = 1, ls_expiresAt = 1000\<rparr>"

definition sample_leased :: LedgerSystem where
  "sample_leased = sample_created\<lparr>sys_store := snd (acquireLease 0 ''run-1'' ''a'' 1000 sample_store), sys_issued := {sample_lease}\<rparr>"

lemma sample_created_reachable: "reachable_ledger sample_created"
  unfolding reachable_ledger_def
  by (rule r_into_rtranclp, unfold sample_created_def sample_store_def)
    (rule ledger_step.create [where y = initial_system and res = "fst (createRun 0 [] sample_graph ''user:ann'' (Some ''run-1'') empty_store)"],
     simp add: initial_system_def)

lemma sample_acquire:
  "acquireLease 0 ''run-1'' ''a'' 1000 sample_store = (Inr (Some sample_lease), sys_store sample_leased)"
proof -
  have "fst (acquireLease 0 ''run-1'' ''a'' 1000 sample_store) = Inr (Some sample_lease)" by code_simp
  then show ?thesis by (simp add: sample_leased_def prod_eq_iff)
qed

lemma sample_leased_reachable: "reachable_ledger sample_leased"
proof -
  have "sample_created\<lparr>sys_store := sys_store sample_leased, sys_issued := sys_issued sample_created \<union> {sample_lease}\<rparr> = sample_leased"
    by (simp add: sample_leased_def sample_created_def initial_system_def)
  moreover have "acquireLease 0 ''run-1'' ''a'' 1000 (sys_store sample_created) = (Inr (Some sample_lease), sys_store sample_leased)"
    using sample_acquire by (simp add: sample_created_def)
  ultimately have "ledger_step sample_created sample_leased" using acquire_step by metis
  with sample_created_reachable show ?thesis unfolding reachable_ledger_def by simp
qed

theorem superseded_lease_never_commits_witness:
  "\<exists>l' s' err. acquireLease 2000 ''run-1'' ''b'' 1000 (sys_store sample_leased) = (Inr (Some l'), s') \<and>
     update_run s' ''run-1'' (commit_update 2500 ''run-1'' 1 sample_lease Inr []) = (Inl err, s') \<and> e_code err = STALE_LEASE"
proof -
  have fst: "fst (acquireLease 2000 ''run-1'' ''b'' 1000 (sys_store sample_leased)) =
      Inr (Some \<lparr>ls_runId = ''run-1'', ls_holderId = ''b'', ls_epoch = 2, ls_expiresAt = 3000\<rparr>)"
    unfolding sample_leased_def sample_created_def LedgerSystem.simps by code_simp
  then obtain l' s' where a: "acquireLease 2000 ''run-1'' ''b'' 1000 (sys_store sample_leased) = (Inr (Some l'), s')"
    by (metis prod.collapse)
  have "sample_lease \<in> sys_issued sample_leased" "ls_runId sample_lease = ''run-1''"
    by (simp_all add: sample_leased_def sample_lease_def)
  from superseded_lease_never_commits [OF sample_leased_reachable this a rtranclp.rtrancl_refl, of 2500 1 Inr "[]" 2500]
  show ?thesis using a by simp
qed

text \<open>
  C33. What a successful commit means: the caller held the current lease at the time of the update, the
  ledger was at the expected revision and is now at the next one, nothing immutable changed, no
  target was added or removed, and the transitions given for a target lead, without a break, from
  its old status to its new one.
\<close>

theorem commit_success:
  assumes "commit now now' r expected lease mutate ts s = (Inr ledger, s')"
  shows "\<exists>e e'. dget (s_runs s) r = Some e \<and> dget (s_runs s') r = Some e' \<and> en_ledger e' = ledger \<and>
      assertCurrentLease e lease now' = Inr () \<and>
      r_ledgerRevision (en_ledger e) = expected \<and> r_ledgerRevision ledger = expected + 1 \<and>
      same_immutable ledger (en_ledger e) \<and>
      (\<forall>i. (dget (r_targets ledger) i = None) = (dget (r_targets (en_ledger e)) i = None)) \<and>
      (\<forall>i x x'. dget (r_targets (en_ledger e)) i = Some x \<and> dget (r_targets ledger) i = Some x' \<longrightarrow>
         linked (le_status x) (of_target i ts) (le_status x'))"
proof -
  from assms obtain b e' where up: "update_run (materialise r b s) r (commit_update now' r expected lease mutate ts) =
      (Inr e', (materialise r b s)\<lparr>s_runs := dput r e' (s_runs s)\<rparr>)"
    and l: "en_ledger e' = ledger" and s': "s_runs s' = dput r e' (s_runs s)"
    by (auto simp: commit_def update_run_Inr split: sum.splits prod.splits)
  then obtain e where e: "dget (s_runs s) r = Some e"
    and cu: "commit_update now' r expected lease mutate ts (Some e) = Inr e'"
    by (auto simp: update_run_Inr commit_update_Inr)
  show ?thesis
  proof (intro exI conjI)
    show "assertCurrentLease e lease now' = Inr ()" using cu by (auto simp: commit_update_Inr)
  qed (use e s' l commit_update_ledger [OF cu] in auto)
qed

definition sample_commit :: mutation where
  "sample_commit l = Inr (l\<lparr>r_status := RRunning, r_targets := map (\<lambda>(k, e). (k, if k = ''A'' then e\<lparr>le_status := Active\<rparr> else e)) (r_targets l)\<rparr>)"

definition sample_transition :: TargetTransition where
  "sample_transition = \<lparr>tr_runId = ''run-1'', tr_targetId = ''A'', tr_fromState = Eligible, tr_toState = Active,
     tr_reason = ''selected'', tr_actor = ''controller'', tr_timestamp = None, tr_attemptId = None, tr_evidenceIds = []\<rparr>"

lemma sample_commit_succeeds:
  "isOk (fst (commit 10 10 ''run-1'' 1 sample_lease sample_commit [sample_transition] (sys_store sample_leased)))"
  unfolding sample_leased_def sample_created_def LedgerSystem.simps by code_simp

theorem commit_success_witness:
  "\<exists>ledger s'. commit 10 10 ''run-1'' 1 sample_lease sample_commit [sample_transition] (sys_store sample_leased) = (Inr ledger, s') \<and>
     r_ledgerRevision ledger = 2"
proof -
  obtain ledger s' where c: "commit 10 10 ''run-1'' 1 sample_lease sample_commit [sample_transition] (sys_store sample_leased) = (Inr ledger, s')"
    using sample_commit_succeeds by (metis isOk_iff prod.collapse)
  from commit_success [OF c] c show ?thesis by auto
qed


text \<open>A state in which the caller died right after the atomic update of its commit.\<close>

lemma sample_crashed:
  "\<exists>y. reachable_ledger y \<and> sys_jobs y = {#} \<and> s_transitions (sys_store y) = [] \<and>
     sys_history y ''run-1'' = [stamp 10 sample_transition] \<and>
     (\<exists>e. dget (s_runs (sys_store y)) ''run-1'' = Some e \<and>
       commit_update 10 ''run-1'' 1 sample_lease sample_commit [sample_transition] (dget (s_runs (sys_store sample_leased)) ''run-1'') = Inr e)"
proof -
  let ?y = sample_leased
  let ?s = "sys_store sample_leased"
  let ?f = "commit_update 10 ''run-1'' 1 sample_lease sample_commit [sample_transition]"
  let ?k = "Some (1, sample_lease, sample_commit, [sample_transition])"
  have "commit_check 10 ''run-1'' 1 sample_lease ?s = Inr None \<and> isOk (?f (dget (s_runs ?s) ''run-1'')) \<and> s_transitions ?s = []"
    unfolding sample_leased_def sample_created_def LedgerSystem.simps by code_simp
  then obtain e' where check: "commit_check 10 ''run-1'' 1 sample_lease ?s = Inr None"
    and e': "?f (dget (s_runs ?s) ''run-1'') = Inr e'" and none: "s_transitions ?s = []"
    by (auto simp: isOk_iff)
  let ?s' = "?s\<lparr>s_runs := dput ''run-1'' e' (s_runs ?s)\<rparr>"
  have jobs: "sys_jobs ?y = {#}" "sys_history ?y ''run-1'' = []"
    by (simp_all add: sample_leased_def sample_created_def initial_system_def)
  let ?y1 = "?y\<lparr>sys_jobs := add_mset (Job ''run-1'' None 0 ?k) (sys_jobs ?y)\<rparr>"
  let ?H = "(sys_history ?y1)(''run-1'' := sys_history ?y1 ''run-1'' @ map (stamp 10) [sample_transition])"
  let ?y2 = "?y1\<lparr>sys_store := ?s', sys_jobs := add_mset (Job ''run-1'' (en_lastBatch e') 0 None) {#}, sys_history := ?H\<rparr>"
  have "update_run (sys_store ?y1) ''run-1'' ?f = (Inr e', ?s')" using e' by (simp add: update_run_Inr)
  then have "ledger_step ?y1 ?y2"
    by (rule ledger_step.update [where b = None and i = 0, rotated 2]) (simp_all add: jobs batch_length_def)
  moreover have "ledger_step ?y ?y1" by (rule ledger_step.begin_commit [OF check])
  moreover have "ledger_step ?y2 (?y2\<lparr>sys_jobs := {#}\<rparr>)"
    by (rule ledger_step.crash) simp
  ultimately have "reachable_ledger (?y2\<lparr>sys_jobs := {#}\<rparr>)"
    using sample_leased_reachable unfolding reachable_ledger_def by (meson rtranclp.rtrancl_into_rtrancl)
  then show ?thesis using jobs none e' by (intro exI [of _ "?y2\<lparr>sys_jobs := {#}\<rparr>"]) simp
qed


lemma no_transitions_valid: "validateTransitions r l l [] = Inr ()"
proof -
  have "\<forall>x \<in> set (r_targets l). \<exists>y. dget (r_targets l) (fst x) = Some y" by (metis prod.collapse weak_map_of_SomeI)
  then show ?thesis by (auto simp: validateTransitions_def check_reached_def list_all_iff split: option.splits)
qed

text \<open>
  A read that a commit overlaps may lose the batch before it: the list is made while that batch is only in the
  envelope, and the envelope is read when the next commit has replaced it there.
\<close>

lemma read_over_commit_loses_batch:
  "\<exists>y z. reachable_ledger y \<and> ledger_step\<^sup>*\<^sup>* y z \<and> sys_history y ''run-1'' = [stamp 10 sample_transition] \<and>
     transitions (sys_store y) (sys_store z) ''run-1'' None = Inr []"
proof -
  obtain y e where y: "reachable_ledger y" "sys_jobs y = {#}" "s_transitions (sys_store y) = []" "sys_history y ''run-1'' = [stamp 10 sample_transition]"
    "dget (s_runs (sys_store y)) ''run-1'' = Some e" "commit_update 10 ''run-1'' 1 sample_lease sample_commit [sample_transition] (dget (s_runs (sys_store sample_leased)) ''run-1'') = Inr e"
    using sample_crashed by blast
  obtain e0 where e0: "dget (s_runs (sys_store sample_leased)) ''run-1'' = Some e0" "commit_update 10 ''run-1'' 1 sample_lease sample_commit [sample_transition] (Some e0) = Inr e"
    using y(6) by (cases "dget (s_runs (sys_store sample_leased)) ''run-1''") (auto simp: commit_update_def)
  have "isOk (commit_check 20 ''run-1'' 1 sample_lease (sys_store sample_leased))"
    unfolding sample_leased_def sample_created_def LedgerSystem.simps by code_simp
  then have "assertCurrentLease e0 sample_lease 20 = Inr ()" "en_v e0 = LEDGER_ENVELOPE_VERSION" using e0(1) by (auto simp: isOk_iff commit_check_Inr)
  moreover have "en_lease e = en_lease e0" "r_runId (en_ledger e) = r_runId (en_ledger e0)" "en_v e = en_v e0"
    using e0(2) by (auto simp: commit_update_Inr same_immutable_def)
  ultimately have e: "assertCurrentLease e sample_lease 20 = Inr ()" "en_v e = LEDGER_ENVELOPE_VERSION" 
    by (metis (no_types, lifting) assertCurrentLease_def)+
  have e_batch: "r_ledgerRevision (en_ledger e) = 2"
    "en_lastBatch e = Some \<lparr>tb_revision = 2, tb_firstSeq = en_transitionSeq e0 + 1, tb_transitions = [stamp 10 sample_transition]\<rparr>"
    using e0(2) by (auto simp: commit_update_Inr)
  let ?b = "the (en_lastBatch e)"
  let ?k = "Some (2, sample_lease, Inr, [])"
  let ?y1 = "y\<lparr>sys_jobs := {#Job ''run-1'' (Some ?b) 0 ?k#}\<rparr>"
  have s1: "ledger_step y ?y1"
    using ledger_step.begin_commit [of 20 "''run-1''" 2 sample_lease y "Some ?b" Inr "[]"] e e_batch y(2,5) by (simp add: commit_check_Inr)
  let ?y2 = "?y1\<lparr>sys_store := put_transition ''run-1'' ?b 0 (sys_store y), sys_jobs := {#Job ''run-1'' (Some ?b) 1 ?k#}\<rparr>"
  have s2: "ledger_step ?y1 ?y2"
    using ledger_step.put [of ?y1 "''run-1''" ?b 0 ?k "{#}"] e_batch by simp
  obtain e' where e': "commit_update 20 ''run-1'' 2 sample_lease Inr [] (Some e) = Inr e'" "en_lastBatch e' = Some \<lparr>tb_revision = 3, tb_firstSeq = en_transitionSeq e + 1, tb_transitions = []\<rparr>"
    "en_v e' = LEDGER_ENVELOPE_VERSION"
    using e e_batch by (auto simp: commit_update_Inr same_immutable_def no_transitions_valid)
  let ?s = "put_transition ''run-1'' ?b 0 (sys_store y)"
  let ?s' = "?s\<lparr>s_runs := dput ''run-1'' e' (s_runs ?s)\<rparr>"
  have "update_run (sys_store ?y2) ''run-1'' (commit_update 20 ''run-1'' 2 sample_lease Inr []) = (Inr e', ?s')"
    using e'(1) y(5) by (simp add: update_run_Inr put_transition_def)
  from ledger_step.update [of ?y2 "''run-1''" "Some ?b" 1 2 sample_lease Inr "[]" "{#}", OF _ _ this] e_batch
  obtain z where s3: "ledger_step ?y2 z" "sys_store z = ?s'" by (auto simp: batch_length_def)
  have "transitions (sys_store y) (sys_store z) ''run-1'' None = Inr []"
    using y(3) e' by (simp add: s3(2) transitions_def readEnvelope_def transitions_by_seq_def batch_entries_def)
  with y s1 s2 s3(1) show ?thesis by (meson rtranclp.rtrancl_refl rtranclp.rtrancl_into_rtrancl)
qed

lemma saveAttempt_finished:
  assumes "saveAttempt a s = (res, s')" and "dget (s_attempts s) k = Some c" and "at_outcome c \<noteq> None"
  shows "\<exists>c'. dget (s_attempts s') k = Some c' \<and> at_outcome c' = at_outcome c \<and> at_endedAt c' = at_endedAt c \<and>
     at_runId c' = at_runId c \<and> at_targetId c' = at_targetId c \<and> at_attempt c' = at_attempt c \<and> at_startedAt c' = at_startedAt c"
  using assms
  by (auto simp: saveAttempt_def atomicUpdate_def save_attempt_update_def split: if_splits option.splits sum.splits)

lemma ledger_step_attempts:
  assumes "ledger_step y y'" and "\<And>a res. saveAttempt a (sys_store y) \<noteq> (res, sys_store y')"
  shows "s_attempts (sys_store y') = s_attempts (sys_store y)"
  using assms(1)
proof cases
  case (create now uuid graph createdBy runIdOpt res s')
  from create(2) show ?thesis by (cases rule: createRun_cases) (simp_all add: create(1))
next
  case (acquire now runId holderId ttlMs res s')
  from acquire(2) show ?thesis by (cases rule: acquireLease_cases) (simp_all add: acquire(1))
next
  case (renew now lease ttlMs res s')
  from renew(2) show ?thesis by (cases rule: renewLease_cases) (simp_all add: renew(1))
next
  case (save attempt res' s')
  with assms(2) show ?thesis by simp
qed (auto simp: put_transition_def update_run_Inl update_run_Inr)

text \<open>
  A finished attempt is history: once an attempt is stored with an outcome, no sequence of ledger
  operations changes its outcome, its end time, its run, its target, its number or its start.
\<close>

theorem finished_attempt_is_history:
  assumes "dget (s_attempts (sys_store y)) k = Some c" and "at_outcome c \<noteq> None" and "ledger_step\<^sup>*\<^sup>* y z"
  shows "\<exists>c'. dget (s_attempts (sys_store z)) k = Some c' \<and> at_outcome c' = at_outcome c \<and> at_endedAt c' = at_endedAt c \<and>
     at_runId c' = at_runId c \<and> at_targetId c' = at_targetId c \<and> at_attempt c' = at_attempt c \<and> at_startedAt c' = at_startedAt c"
  using assms(3)
proof (induction rule: rtranclp_induct)
  case base
  show ?case using assms(1) by blast
next
  case (step u v)
  then obtain c' where c': "dget (s_attempts (sys_store u)) k = Some c'" "at_outcome c' = at_outcome c" "at_endedAt c' = at_endedAt c"
    "at_runId c' = at_runId c" "at_targetId c' = at_targetId c" "at_attempt c' = at_attempt c" "at_startedAt c' = at_startedAt c" by blast
  show ?case
  proof (cases "\<exists>a res. saveAttempt a (sys_store u) = (res, sys_store v)")
    case True
    with saveAttempt_finished [OF _ c'(1)] c' assms(2) show ?thesis by fastforce
  next
    case False
    with ledger_step_attempts [OF step(2)] c' show ?thesis by auto
  qed
qed

definition sample_attempt :: TargetAttempt where
  "sample_attempt = \<lparr>at_id = ''a1'', at_runId = ''run-1'', at_targetId = ''A'', at_attempt = 1, at_phase = COMMIT_PROGRESS,
     at_executionId = None, at_modelRoute = None, at_promptRef = None, at_repairHypothesis = None, at_startedAt = 5,
     at_endedAt = Some 9, at_outcome = Some OSucceeded, at_error = None\<rparr>"

theorem finished_attempt_is_history_witness:
  "\<exists>s res s' c'. saveAttempt sample_attempt empty_store = (Inr (), s) \<and>
     saveAttempt (sample_attempt\<lparr>at_outcome := Some OFailed\<rparr>) s = (res, s') \<and>
     dget (s_attempts s') (''run-1'', ''a1'') = Some c' \<and> at_outcome c' = Some OSucceeded"
proof -
  obtain s where s: "saveAttempt sample_attempt empty_store = (Inr (), s)"
    and c: "dget (s_attempts s) (''run-1'', ''a1'') = Some sample_attempt"
    by (simp add: saveAttempt_def sample_attempt_def empty_store_def atomicUpdate_def save_attempt_update_def)
  obtain res s' where s': "saveAttempt (sample_attempt\<lparr>at_outcome := Some OFailed\<rparr>) s = (res, s')" by fastforce
  let ?y = "initial_system\<lparr>sys_store := s\<rparr>"
  have "ledger_step ?y (?y\<lparr>sys_store := s'\<rparr>)" using s' by (intro ledger_step.save) simp
  then have steps: "ledger_step\<^sup>*\<^sup>* ?y (?y\<lparr>sys_store := s'\<rparr>)" by simp
  have "at_outcome sample_attempt \<noteq> None" "dget (s_attempts (sys_store ?y)) (''run-1'', ''a1'') = Some sample_attempt"
    using c by (simp_all add: sample_attempt_def)
  from finished_attempt_is_history [OF this(2,1) steps] show ?thesis
    using s s' by (auto simp: sample_attempt_def)
qed

end
