(* ===== verification/Event_Log.thy ===== *)
theory Event_Log
  imports Ledger_Store
begin

text \<open>
  The durable event log: \<open>src/packages/goals/src/ledger/eventLog.ts\<close>. An append allocates its sequence
  number by an atomic update of the head of the stream, which also keeps the most recent 64 events;
  the event is then written to its own key. Before the update the appender materialises what
  earlier appenders may have left only in the head. A reader merges the keys with the head.
  A subscription delivers what it reads after the last sequence number it delivered.

  The lemmas: as long as fewer than 64 appends land between an appender's read of the head and its
  own update, a reader gets all events of the stream in order without a gap, whichever appenders
  crash; with 64 overlapping appends a crash loses an event; and a subscription delivers every
  event once and in order.
\<close>

subsection \<open>Stored data\<close>

definition GLOBAL_EVENT_STREAM :: string where
  "GLOBAL_EVENT_STREAM = ''_global''"

definition RECENT_WINDOW :: nat where
  "RECENT_WINDOW = 64"

definition DEFAULT_READ_LIMIT :: nat where
  "DEFAULT_READ_LIMIT = 1000"

record EventHead =
  eh_runId :: GoalRunId
  eh_seq :: nat
  eh_recent :: "GoalStudioEvent list"

record EventStore =
  es_heads :: "(GoalRunId, EventHead) dict"
  es_events :: "(GoalRunId \<times> nat, GoalStudioEvent) dict"

subsection \<open>Appending\<close>

definition put_event :: "GoalRunId \<Rightarrow> GoalStudioEvent \<Rightarrow> EventStore \<Rightarrow> EventStore" where
  "put_event stream e s = s\<lparr>es_events := dput (stream, evt_seq e) e (es_events s)\<rparr>"

definition materialise_event :: "GoalRunId \<Rightarrow> GoalStudioEvent \<Rightarrow> EventStore \<Rightarrow> EventStore" where
  "materialise_event stream e s =
     (if dget (es_events s) (stream, evt_seq e) \<noteq> None then s else put_event stream e s)"

definition materialise_events :: "GoalRunId \<Rightarrow> GoalStudioEvent list \<Rightarrow> EventStore \<Rightarrow> EventStore" where
  "materialise_events stream events s = fold (materialise_event stream) events s"

definition lastn :: "nat \<Rightarrow> 'a list \<Rightarrow> 'a list" where
  "lastn n xs = drop (length xs - n) xs"

definition append_update :: "GoalRunId \<Rightarrow> GoalStudioEvent \<Rightarrow> EventHead option \<Rightarrow> GoalStudioEvent \<times> EventHead" where
  "append_update stream base current =
     (let head = (case current of Some h \<Rightarrow> h | None \<Rightarrow> \<lparr>eh_runId = stream, eh_seq = 0, eh_recent = []\<rparr>);
          event = base\<lparr>evt_seq := eh_seq head + 1\<rparr>
      in (event, head\<lparr>eh_seq := evt_seq event, eh_recent := lastn RECENT_WINDOW (eh_recent head @ [event])\<rparr>))"

definition event_stream :: "GoalStudioEvent \<Rightarrow> GoalRunId" where
  "event_stream input = (case evt_runId input of Some r \<Rightarrow> r | None \<Rightarrow> GLOBAL_EVENT_STREAM)"

definition head_recent :: "EventHead option \<Rightarrow> GoalStudioEvent list" where
  "head_recent h = (case h of None \<Rightarrow> [] | Some h \<Rightarrow> eh_recent h)"

definition head_seq :: "EventHead option \<Rightarrow> nat" where
  "head_seq h = (case h of None \<Rightarrow> 0 | Some h \<Rightarrow> eh_seq h)"

text \<open>\<open>append\<close> without interruption; \<open>put_ok\<close> says whether the write of the event's own key succeeds,
  whose failure the code ignores. The time stamp is the caller's or the clock's.\<close>

definition append_event :: "timestamp \<Rightarrow> GoalStudioEvent \<Rightarrow> timestamp option \<Rightarrow> bool \<Rightarrow> EventStore \<Rightarrow> GoalStudioEvent result \<times> EventStore" where
  "append_event now input stamped put_ok s =
     (let stream = event_stream input
      in if \<not> valid_run_id stream then (Inl (failure VALIDATION), s)
         else let base = input\<lparr>evt_timestamp := (case stamped of Some t \<Rightarrow> t | None \<Rightarrow> now)\<rparr>;
                  s1 = materialise_events stream (head_recent (dget (es_heads s) stream)) s;
                  (event, head) = append_update stream base (dget (es_heads s1) stream);
                  s2 = s1\<lparr>es_heads := dput stream head (es_heads s1)\<rparr>
              in (Inr event, if put_ok then put_event stream event s2 else s2))"

subsection \<open>Reading\<close>

definition read_after :: "rat option \<Rightarrow> nat" where
  "read_after afterSeq = (case afterSeq of None \<Rightarrow> 0 | Some a \<Rightarrow> nat (max 0 \<lfloor>a\<rfloor>))"

definition read_limit :: "rat option \<Rightarrow> nat" where
  "read_limit limit = (case limit of None \<Rightarrow> DEFAULT_READ_LIMIT | Some l \<Rightarrow> if l > 0 then nat \<lfloor>l\<rfloor> else DEFAULT_READ_LIMIT)"

definition events_by_seq :: "GoalRunId \<Rightarrow> EventHead \<Rightarrow> EventStore \<Rightarrow> (nat, GoalStudioEvent) dict" where
  "events_by_seq stream head s =
     (let stored = map (\<lambda>(_, e). (evt_seq e, e)) (filter (\<lambda>((r, _), _). r = stream) (es_events s));
          d = fold (\<lambda>(k, e) d. dput k e d) stored []
      in fold (\<lambda>e d. if dget d (evt_seq e) \<noteq> None then d else dput (evt_seq e) e d) (eh_recent head) d)"

definition read :: "GoalRunId option \<Rightarrow> rat option \<Rightarrow> rat option \<Rightarrow> EventStore \<Rightarrow> GoalStudioEvent list" where
  "read runId afterSeq limit s =
     (let stream = (case runId of Some r \<Rightarrow> r | None \<Rightarrow> GLOBAL_EVENT_STREAM)
      in case dget (es_heads s) stream of
           None \<Rightarrow> []
         | Some head \<Rightarrow>
             take (read_limit limit)
               (sort_by (\<lambda>a b. rat_of_nat (evt_seq a) - rat_of_nat (evt_seq b))
                 (filter (\<lambda>e. evt_seq e > read_after afterSeq \<and> evt_seq e \<le> eh_seq head)
                   (map snd (events_by_seq stream head s)))))"

definition head_of :: "GoalRunId option \<Rightarrow> EventStore \<Rightarrow> nat" where
  "head_of runId s = head_seq (dget (es_heads s) (case runId of Some r \<Rightarrow> r | None \<Rightarrow> GLOBAL_EVENT_STREAM))"

subsection \<open>Subscriptions\<close>

text \<open>The ghost component \<open>su_delivered\<close> is what the listener was called with. A listener that throws
  is caught and changes nothing here.\<close>

record Subscription =
  su_runId :: GoalRunId
  su_lastSeq :: "nat option"
  su_early :: "nat list"
  su_draining :: bool
  su_again :: bool
  su_closed :: bool
  su_delivered :: "GoalStudioEvent list"

definition addSubscription :: "GoalRunId \<Rightarrow> nat option \<Rightarrow> Subscription" where
  "addSubscription stream afterSeq =
     \<lparr>su_runId = stream, su_lastSeq = afterSeq, su_early = [], su_draining = False, su_again = False, su_closed = False,
      su_delivered = []\<rparr>"

text \<open>The continuation of the first head read of a subscription without a start; \<open>None\<close> is a failed
  read.\<close>

definition subscription_ready :: "EventHead option option \<Rightarrow> Subscription \<Rightarrow> Subscription" where
  "subscription_ready head sub =
     (case head of
        None \<Rightarrow> sub\<lparr>su_lastSeq := Some 0\<rparr>
      | Some h \<Rightarrow>
          sub\<lparr>su_lastSeq := Some (if su_early sub = [] then head_seq h else min (head_seq h) (Min (set (su_early sub)) - 1))\<rparr>)"

text \<open>\<open>drain\<close> up to its first \<open>await\<close>: the flag tells whether this call goes on to read.\<close>

definition drain_request :: "Subscription \<Rightarrow> Subscription \<times> bool" where
  "drain_request sub =
     (if su_closed sub \<or> su_lastSeq sub = None then (sub, False)
      else if su_draining sub then (sub\<lparr>su_again := True\<rparr>, False)
      else (sub\<lparr>su_draining := True, su_again := False\<rparr>, True))"

definition notify :: "nat \<Rightarrow> Subscription \<Rightarrow> Subscription \<times> bool" where
  "notify seq sub =
     (case su_lastSeq sub of
        None \<Rightarrow> (sub\<lparr>su_early := su_early sub @ [seq]\<rparr>, False)
      | Some l \<Rightarrow> if seq > l then drain_request sub else (sub, False))"

fun deliver :: "GoalStudioEvent list \<Rightarrow> Subscription \<Rightarrow> Subscription" where
  "deliver [] sub = sub"
| "deliver (e # es) sub =
     (if su_closed sub then sub
      else if evt_seq e \<le> (case su_lastSeq sub of Some l \<Rightarrow> l | None \<Rightarrow> 0) then deliver es sub
      else deliver es (sub\<lparr>su_lastSeq := Some (evt_seq e), su_delivered := su_delivered sub @ [e]\<rparr>))"

definition drain_iteration :: "EventStore \<Rightarrow> Subscription \<Rightarrow> Subscription" where
  "drain_iteration s sub =
     deliver (read (Some (su_runId sub)) (map_option rat_of_nat (su_lastSeq sub)) None s) sub"

text \<open>The end of an iteration: go round again or leave the loop; both in one turn of the event loop.\<close>

definition drain_next :: "Subscription \<Rightarrow> Subscription \<times> bool" where
  "drain_next sub =
     (if su_again sub \<and> \<not> su_closed sub then (sub\<lparr>su_again := False\<rparr>, True) else (sub\<lparr>su_draining := False\<rparr>, False))"

subsection \<open>Interleaved appenders\<close>

text \<open>
  An appender before its update has the events it still has to materialise and the sequence number
  of the head it read; after the update it has its own event to write. The ghost component is the
  list of events appended to each stream.
\<close>

datatype AppendJob = Preparing GoalRunId GoalStudioEvent "GoalStudioEvent list" nat | Writing GoalRunId GoalStudioEvent

record EventSystem =
  ey_store :: EventStore
  ey_jobs :: "AppendJob multiset"
  ey_history :: "GoalRunId \<Rightarrow> GoalStudioEvent list"

definition initial_events :: EventSystem where
  "initial_events = \<lparr>ey_store = \<lparr>es_heads = [], es_events = []\<rparr>, ey_jobs = {#}, ey_history = (\<lambda>_. [])\<rparr>"

text \<open>The parameter \<open>w\<close> bounds how many appends may land between an appender's read of the head and
  its update.\<close>

inductive event_step :: "nat \<Rightarrow> EventSystem \<Rightarrow> EventSystem \<Rightarrow> bool" for w :: nat where
  start: "valid_run_id r \<Longrightarrow> event_stream base = r \<Longrightarrow> h = dget (es_heads (ey_store y)) r \<Longrightarrow>
     event_step w y (y\<lparr>ey_jobs := add_mset (Preparing r base (head_recent h) (head_seq h)) (ey_jobs y)\<rparr>)"
| skip: "ey_jobs y = add_mset (Preparing r base (e # es) n) J \<Longrightarrow> dget (es_events (ey_store y)) (r, evt_seq e) \<noteq> None \<Longrightarrow>
     event_step w y (y\<lparr>ey_jobs := add_mset (Preparing r base es n) J\<rparr>)"
| prepare: "ey_jobs y = add_mset (Preparing r base (e # es) n) J \<Longrightarrow>
     event_step w y (y\<lparr>ey_store := put_event r e (ey_store y), ey_jobs := add_mset (Preparing r base es n) J\<rparr>)"
| update: "ey_jobs y = add_mset (Preparing r base [] n) J \<Longrightarrow> head_seq (dget (es_heads (ey_store y)) r) \<le> n + w \<Longrightarrow>
     append_update r base (dget (es_heads (ey_store y)) r) = (e, h') \<Longrightarrow>
     event_step w y (y\<lparr>ey_store := (ey_store y)\<lparr>es_heads := dput r h' (es_heads (ey_store y))\<rparr>,
                     ey_jobs := add_mset (Writing r e) J,
                     ey_history := (ey_history y)(r := ey_history y r @ [e])\<rparr>)"
| finish: "ey_jobs y = add_mset (Writing r e) J \<Longrightarrow>
     event_step w y (y\<lparr>ey_store := put_event r e (ey_store y), ey_jobs := J\<rparr>)"
| crash: "ey_jobs y = add_mset j J \<Longrightarrow> event_step w y (y\<lparr>ey_jobs := J\<rparr>)"

definition reachable_events :: "nat \<Rightarrow> EventSystem \<Rightarrow> bool" where
  "reachable_events w y \<longleftrightarrow> (event_step w)\<^sup>*\<^sup>* initial_events y"

subsection \<open>The invariant of the log\<close>

definition history_ok :: "GoalStudioEvent list \<Rightarrow> bool" where
  "history_ok h \<longleftrightarrow> (\<forall>i < length h. evt_seq (h ! i) = Suc i)"

definition in_history :: "GoalStudioEvent list \<Rightarrow> GoalStudioEvent \<Rightarrow> bool" where
  "in_history h e \<longleftrightarrow> (\<exists>i < length h. e = h ! i \<and> evt_seq e = Suc i)"

definition stream_ok :: "EventStore \<Rightarrow> GoalStudioEvent list \<Rightarrow> GoalRunId \<Rightarrow> bool" where
  "stream_ok s h r \<longleftrightarrow> history_ok h \<and>
     head_seq (dget (es_heads s) r) = length h \<and> head_recent (dget (es_heads s) r) = lastn RECENT_WINDOW h \<and>
     (\<forall>q e. ((r, q), e) \<in> set (es_events s) \<longrightarrow> in_history h e \<and> evt_seq e = q) \<and>
     (\<forall>q. 1 \<le> q \<and> q + RECENT_WINDOW \<le> length h \<longrightarrow> dget (es_events s) (r, q) \<noteq> None)"

fun append_job_ok :: "EventStore \<Rightarrow> (GoalRunId \<Rightarrow> GoalStudioEvent list) \<Rightarrow> AppendJob \<Rightarrow> bool" where
  "append_job_ok s H (Preparing r base es n) \<longleftrightarrow> n \<le> length (H r) \<and> (\<forall>e \<in> set es. in_history (H r) e) \<and>
     (\<forall>q. 1 \<le> q \<and> q \<le> n \<longrightarrow> dget (es_events s) (r, q) \<noteq> None \<or> q \<in> evt_seq ` set es)"
| "append_job_ok s H (Writing r e) \<longleftrightarrow> in_history (H r) e"

definition events_inv :: "EventSystem \<Rightarrow> bool" where
  "events_inv y \<longleftrightarrow> (\<forall>r. stream_ok (ey_store y) (ey_history y r) r) \<and>
     (\<forall>j \<in># ey_jobs y. append_job_ok (ey_store y) (ey_history y) j)"

lemma events_invI:
  assumes "\<And>r. stream_ok (ey_store y) (ey_history y r) r" and "\<And>j. j \<in># ey_jobs y \<Longrightarrow> append_job_ok (ey_store y) (ey_history y) j"
  shows "events_inv y"
  using assms by (simp add: events_inv_def)

lemma events_invD:
  assumes "events_inv y"
  shows "stream_ok (ey_store y) (ey_history y r) r" and "j \<in># ey_jobs y \<Longrightarrow> append_job_ok (ey_store y) (ey_history y) j"
  using assms by (simp_all add: events_inv_def)

lemma in_history_append: "in_history h e \<Longrightarrow> in_history (h @ x) e"
  by (auto simp: in_history_def nth_append)

lemma in_history_recent: "history_ok h \<Longrightarrow> e \<in> set (lastn n h) \<Longrightarrow> in_history h e"
  by (fastforce simp: in_history_def history_ok_def lastn_def in_set_conv_nth)

lemma recent_covers:
  assumes "history_ok h" and "1 \<le> q" "q \<le> length h" "length h < q + n"
  shows "q \<in> evt_seq ` set (lastn n h)"
proof -
  have "h ! (q - 1) \<in> set (lastn n h)"
    using assms by (auto simp: lastn_def in_set_conv_nth intro!: exI [of _ "q - 1 - (length h - n)"])
  moreover have "evt_seq (h ! (q - 1)) = q" using assms by (auto simp: history_ok_def)
  ultimately show ?thesis by force
qed

lemma lastn_lastn: "lastn n (lastn n h @ [e]) = lastn n (h @ [e])"
  by (cases "n \<le> length h") (simp_all add: lastn_def Suc_diff_le)

lemma head_simps [simp]:
  "head_seq (Some h) = eh_seq h" "head_recent (Some h) = eh_recent h"
  by (simp_all add: head_seq_def head_recent_def)

lemma put_event_stream_ok:
  assumes "stream_ok s h r" and "r' = r \<Longrightarrow> in_history h e"
  shows "stream_ok (put_event r' e s) h r"
  using assms by (fastforce simp: stream_ok_def put_event_def dest: dput_set)

lemma put_event_job_ok: "append_job_ok s H j \<Longrightarrow> append_job_ok (put_event r e s) H j"
  by (cases j) (auto simp: put_event_def)

lemma append_update_eq:
  assumes "append_update r base h = (e, h')"
  shows "e = base\<lparr>evt_seq := head_seq h + 1\<rparr>" "eh_seq h' = head_seq h + 1"
    "eh_recent h' = lastn RECENT_WINDOW (head_recent h @ [e])"
  using assms by (auto simp: append_update_def Let_def head_seq_def head_recent_def split: option.splits)

lemma update_events_inv:
  assumes inv: "events_inv y" and j: "ey_jobs y = add_mset (Preparing r base [] n) J"
    and w: "head_seq (dget (es_heads (ey_store y)) r) \<le> n + w" "w < RECENT_WINDOW"
    and up: "append_update r base (dget (es_heads (ey_store y)) r) = (e, h')"
  shows "events_inv (y\<lparr>ey_store := (ey_store y)\<lparr>es_heads := dput r h' (es_heads (ey_store y))\<rparr>,
     ey_jobs := add_mset (Writing r e) J, ey_history := (ey_history y)(r := ey_history y r @ [e])\<rparr>)"
proof (rule events_invI, goal_cases)
  case (1 r')
  note ok = events_invD(1) [OF inv]
  have len: "head_seq (dget (es_heads (ey_store y)) r) = length (ey_history y r)"
    "head_recent (dget (es_heads (ey_store y)) r) = lastn RECENT_WINDOW (ey_history y r)"
    using ok [of r] by (auto simp: stream_ok_def)
  have job: "append_job_ok (ey_store y) (ey_history y) (Preparing r base [] n)"
    by (rule events_invD(2) [OF inv]) (simp add: j)
  have "stream_ok ((ey_store y)\<lparr>es_heads := dput r h' (es_heads (ey_store y))\<rparr>) (ey_history y r @ [e]) r"
    unfolding stream_ok_def
  proof (intro conjI allI impI, goal_cases)
    case 1
    show ?case using ok [of r] append_update_eq(1) [OF up] len
      by (auto simp: stream_ok_def history_ok_def nth_append)
  next
    case (4 q e')
    then show ?case using ok [of r] by (auto simp: stream_ok_def in_history_append)
  next
    case (5 q e')
    then show ?case using ok [of r] by (auto simp: stream_ok_def)
  next
    case (6 q)
    then have "q \<le> n" using w len by simp
    with job 6 show ?case by simp
  qed (simp_all add: append_update_eq(2,3) [OF up] len lastn_lastn)
  with ok [of r'] show ?case by (cases "r' = r") (auto simp: stream_ok_def)
next
  case (2 j')
  have "head_seq (dget (es_heads (ey_store y)) r) = length (ey_history y r)"
    using events_invD(1) [OF inv, of r] by (auto simp: stream_ok_def)
  then have "in_history (ey_history y r @ [e]) e"
    using append_update_eq(1) [OF up] by (auto simp: in_history_def nth_append intro!: exI [of _ "length (ey_history y r)"])
  moreover have "append_job_ok s' ((ey_history y)(r := ey_history y r @ [e])) j'"
    if "append_job_ok (ey_store y) (ey_history y) j'" "es_events s' = es_events (ey_store y)" for s'
    using that by (cases j') (auto simp: in_history_append)
  ultimately show ?case using 2 events_invD(2) [OF inv, of j'] j by auto
qed

lemma jobs_events_inv:
  assumes "events_inv y" and "\<And>j. j \<in># J \<Longrightarrow> j \<in># ey_jobs y \<or> append_job_ok (ey_store y) (ey_history y) j"
  shows "events_inv (y\<lparr>ey_jobs := J\<rparr>)"
  using assms by (auto simp: events_inv_def)

lemma store_events_inv:
  assumes "events_inv y" and "in_history (ey_history y r) e"
  shows "events_inv (y\<lparr>ey_store := put_event r e (ey_store y)\<rparr>)"
  using assms by (auto simp: events_inv_def intro: put_event_stream_ok put_event_job_ok)

lemma event_step_inv:
  assumes "event_step w y y'" and "w < RECENT_WINDOW" and inv: "events_inv y"
  shows "events_inv y'"
  using assms(1)
proof cases
  case (start r base h)
  have "append_job_ok (ey_store y) (ey_history y) (Preparing r base (head_recent h) (head_seq h))"
  proof -
    have ok: "stream_ok (ey_store y) (ey_history y r) r" by (rule events_invD(1) [OF inv])
    then have "dget (es_events (ey_store y)) (r, q) \<noteq> None \<or> q \<in> evt_seq ` set (lastn RECENT_WINDOW (ey_history y r))"
      if "1 \<le> q" "q \<le> length (ey_history y r)" for q
      using that recent_covers [of "ey_history y r" q RECENT_WINDOW]
      by (cases "q + RECENT_WINDOW \<le> length (ey_history y r)") (auto simp: stream_ok_def)
    with ok start show ?thesis by (auto simp: stream_ok_def intro: in_history_recent)
  qed
  then show ?thesis unfolding start(1) by (intro jobs_events_inv [OF inv]) (auto simp: start)
next
  case (skip r base e es n J)
  have "append_job_ok (ey_store y) (ey_history y) (Preparing r base (e # es) n)"
    by (rule events_invD(2) [OF inv]) (simp add: skip)
  with skip have "append_job_ok (ey_store y) (ey_history y) (Preparing r base es n)" by fastforce
  then show ?thesis unfolding skip(1) by (intro jobs_events_inv [OF inv]) (auto simp: skip)
next
  case (prepare r base e es n J)
  have job: "append_job_ok (ey_store y) (ey_history y) (Preparing r base (e # es) n)"
    by (rule events_invD(2) [OF inv]) (simp add: prepare)
  let ?y = "y\<lparr>ey_store := put_event r e (ey_store y)\<rparr>"
  have "events_inv ?y" using store_events_inv [OF inv] job by simp
  moreover have "append_job_ok (ey_store ?y) (ey_history ?y) (Preparing r base es n)"
    using job by (auto simp: put_event_def)
  ultimately have "events_inv (?y\<lparr>ey_jobs := add_mset (Preparing r base es n) J\<rparr>)"
    using prepare by (intro jobs_events_inv) auto
  then show ?thesis by (simp add: prepare)
next
  case (update r base n J e h')
  then show ?thesis using update_events_inv [OF inv] assms(2) by simp
next
  case (finish r e J)
  have "append_job_ok (ey_store y) (ey_history y) (Writing r e)"
    by (rule events_invD(2) [OF inv]) (simp add: finish)
  then have "events_inv (y\<lparr>ey_store := put_event r e (ey_store y)\<rparr>)" using store_events_inv [OF inv] by simp
  then have "events_inv ((y\<lparr>ey_store := put_event r e (ey_store y)\<rparr>)\<lparr>ey_jobs := J\<rparr>)"
    by (rule jobs_events_inv) (simp add: finish)
  then show ?thesis by (simp add: finish)
next
  case (crash j J)
  with inv show ?thesis by (auto intro: jobs_events_inv)
qed

lemma initial_events_inv: "events_inv initial_events"
  by (simp add: events_inv_def initial_events_def stream_ok_def history_ok_def head_seq_def head_recent_def lastn_def)

lemma reachable_events_inv: "reachable_events w y \<Longrightarrow> w < RECENT_WINDOW \<Longrightarrow> events_inv y"
  unfolding reachable_events_def
  by (induction rule: rtranclp_induct) (auto intro: event_step_inv initial_events_inv)

subsection \<open>Reading is complete\<close>

interpretation evt_order: comparator "\<lambda>a b. rat_of_nat (evt_seq a) - rat_of_nat (evt_seq b)"
  by (rule comparator_key [where key = evt_seq]) simp

lemma sort_events:
  assumes h: "history_ok h" and dist: "distinct (map evt_seq xs)"
    and set: "\<And>e. e \<in> set xs \<longleftrightarrow> in_history h e \<and> a < evt_seq e"
  shows "sort_by (\<lambda>a b. rat_of_nat (evt_seq a) - rat_of_nat (evt_seq b)) xs = drop a h"
proof -
  let ?e = "sort_by (\<lambda>a b. rat_of_nat (evt_seq a) - rat_of_nat (evt_seq b)) xs"
  have "sorted_wrt (\<lambda>a b. rat_of_nat (evt_seq a) - rat_of_nat (evt_seq b) \<le> 0) ?e" by (rule evt_order.sorted_sort_by)
  then have sorted: "sorted (map evt_seq ?e)" by (simp add: sorted_map)
  have distinct: "distinct (map evt_seq ?e)" using dist by (simp add: distinct_map)
  have "set (map evt_seq ?e) = set [Suc a..<Suc (length h)]"
  proof (intro equalityI subsetI)
    fix k assume "k \<in> set [Suc a..<Suc (length h)]"
    then have "in_history h (h ! (k - 1)) \<and> evt_seq (h ! (k - 1)) = k"
      using h by (auto simp: in_history_def history_ok_def intro!: exI [of _ "k - 1"])
    then show "k \<in> set (map evt_seq ?e)" using set \<open>k \<in> _\<close> by force
  qed (use set in \<open>auto simp: in_history_def\<close>)
  then have "map evt_seq ?e = [Suc a..<Suc (length h)]"
    by (rule sorted_distinct_set_unique [OF sorted distinct sorted_upt distinct_upt])
  moreover have "map (\<lambda>e. h ! (evt_seq e - 1)) ?e = ?e"
    by (rule map_idI) (use set in \<open>auto simp: in_history_def\<close>)
  then have "?e = map (\<lambda>k. h ! (k - 1)) (map evt_seq ?e)" by (simp add: o_def)
  ultimately have "?e = map (\<lambda>k. h ! (k - 1)) [Suc a..<Suc (length h)]" by metis
  also have "\<dots> = drop a h" by (rule nth_equalityI) (simp_all del: upt_Suc)
  finally show ?thesis .
qed

lemma fold_recent_set:
  "x \<in> set (fold (\<lambda>e d. if dget d (evt_seq e) \<noteq> None then d else dput (evt_seq e) e d) es d) \<Longrightarrow>
     x \<in> set d \<or> (\<exists>e \<in> set es. x = (evt_seq e, e))"
proof (induction es arbitrary: d)
  case (Cons e es)
  from Cons.IH [of "if dget d (evt_seq e) \<noteq> None then d else dput (evt_seq e) e d"] Cons.prems
  show ?case by (auto split: if_splits dest: dput_set)
qed simp

lemma fold_recent_distinct:
  "distinct (dkeys d) \<Longrightarrow>
     distinct (dkeys (fold (\<lambda>e d. if dget d (evt_seq e) \<noteq> None then d else dput (evt_seq e) e d) es d))"
  by (induction es arbitrary: d) (auto simp: distinct_update)

lemma fold_recent_keys:
  "set (dkeys (fold (\<lambda>e d. if dget d (evt_seq e) \<noteq> None then d else dput (evt_seq e) e d) es d)) =
     set (dkeys d) \<union> evt_seq ` set es"
proof (induction es arbitrary: d)
  case (Cons e es)
  show ?case
  proof (cases "dget d (evt_seq e)")
    case None
    then show ?thesis using Cons [of "dput (evt_seq e) e d"] dput_set_keys [of "evt_seq e" e d] by simp
  next
    case (Some x)
    then show ?thesis using Cons [of d] dget_Some_keys [OF Some] by auto
  qed
qed simp

lemma events_by_seq_ok:
  assumes ok: "stream_ok s h r" and head: "dget (es_heads s) r = Some head"
  shows "distinct (dkeys (events_by_seq r head s))"
    and "(k, e) \<in> set (events_by_seq r head s) \<longleftrightarrow> in_history h e \<and> k = evt_seq e"
proof -
  let ?S = "map (\<lambda>(_, e). (evt_seq e, e)) (filter (\<lambda>((r', _), _). r' = r) (es_events s))"
  let ?d = "fold (\<lambda>(k, e) d. dput k e d) ?S []"
  let ?D = "events_by_seq r head s"
  have D: "?D = fold (\<lambda>e d. if dget d (evt_seq e) \<noteq> None then d else dput (evt_seq e) e d) (eh_recent head) ?d"
    by (simp add: events_by_seq_def)
  show dist: "distinct (dkeys ?D)" unfolding D by (intro fold_recent_distinct fold_dput_distinct) simp
  have recent: "eh_recent head = lastn RECENT_WINDOW h" and h: "history_ok h" using ok head by (auto simp: stream_ok_def)
  have sound: "in_history h e \<and> k = evt_seq e" if ke: "(k, e) \<in> set ?D" for k e
  proof -
    from fold_recent_set [OF ke [unfolded D]] consider "(k, e) \<in> set ?d" | "e \<in> set (eh_recent head)" "k = evt_seq e" by auto
    then show ?thesis
    proof cases
      case 1
      then have "(k, e) \<in> set ?S" using fold_dput_set [of "(k, e)" ?S "[]"] by simp
      with ok show ?thesis by (auto simp: stream_ok_def)
    qed (use in_history_recent [OF h] recent in auto)
  qed
  have "k \<in> set (dkeys ?D)" if "1 \<le> k" "k \<le> length h" for k
  proof (cases "k + RECENT_WINDOW \<le> length h")
    case True
    with ok that obtain x where "dget (es_events s) (r, k) = Some x" by (auto simp: stream_ok_def)
    then have x: "((r, k), x) \<in> set (es_events s)" by (rule map_of_SomeD)
    with ok have "evt_seq x = k" by (auto simp: stream_ok_def)
    with x have "k \<in> set (dkeys ?S)" by force
    then have "k \<in> set (dkeys ?d)" unfolding fold_dput_keys by simp
    then show ?thesis unfolding D fold_recent_keys by blast
  next
    case False
    then have "k \<in> evt_seq ` set (eh_recent head)" unfolding recent by (intro recent_covers [OF h that]) simp
    then show ?thesis unfolding D fold_recent_keys by blast
  qed
  note keys = this
  have complete: "(evt_seq e, e) \<in> set ?D" if e: "in_history h e" for e
  proof -
    have "evt_seq e \<in> set (dkeys ?D)" by (rule keys) (use e in \<open>auto simp: in_history_def\<close>)
    then obtain e' where e': "(evt_seq e, e') \<in> set ?D" by auto
    with sound [OF this] e have "e' = e" by (auto simp: in_history_def)
    with e' show ?thesis by simp
  qed
  show "(k, e) \<in> set ?D \<longleftrightarrow> in_history h e \<and> k = evt_seq e" using sound complete by blast
qed

lemma read_stream:
  assumes ok: "stream_ok s h r"
  shows "read (Some r) afterSeq limit s = take (read_limit limit) (drop (read_after afterSeq) h)"
proof (cases "dget (es_heads s) r")
  case None
  with ok show ?thesis by (simp add: read_def stream_ok_def head_seq_def)
next
  case (Some head)
  let ?D = "events_by_seq r head s"
  note D = events_by_seq_ok [OF ok Some]
  have len: "eh_seq head = length h" and h: "history_ok h" using ok Some by (auto simp: stream_ok_def)
  let ?xs = "filter (\<lambda>e. evt_seq e > read_after afterSeq \<and> evt_seq e \<le> eh_seq head) (map snd ?D)"
  have "map evt_seq (map snd ?D) = dkeys ?D" using D(2) by auto
  then have "distinct (map evt_seq ?xs)" using D(1) by (metis distinct_map_filter)
  moreover have "e \<in> set ?xs \<longleftrightarrow> in_history h e \<and> read_after afterSeq < evt_seq e" for e
    using D(2) len by (force simp: in_history_def)
  ultimately have "sort_by (\<lambda>a b. rat_of_nat (evt_seq a) - rat_of_nat (evt_seq b)) ?xs = drop (read_after afterSeq) h"
    by (rule sort_events [OF h])
  with Some show ?thesis by (simp add: read_def)
qed

subsection \<open>Properties of the log\<close>

lemma initial_reachable: "reachable_events w initial_events"
  by (simp add: reachable_events_def)

lemma reachable_events_step: "reachable_events w y \<Longrightarrow> event_step w y y' \<Longrightarrow> reachable_events w y'"
  by (auto simp: reachable_events_def)

text \<open>
  C38. Gap-free resume: as long as at most 63 appends land between an appender's read of the head and
  its own update, a reader that asks for what follows a sequence number gets exactly the events of
  the stream after it, in order and without a gap, up to its limit; and the events are numbered
  one after the other. This holds whichever appenders die between the head and their own key.
\<close>

theorem read_is_gap_free:
  assumes "reachable_events w y" and "w < RECENT_WINDOW"
  shows "read (Some r) afterSeq limit (ey_store y) = take (read_limit limit) (drop (read_after afterSeq) (ey_history y r)) \<and>
     map evt_seq (ey_history y r) = [1..<Suc (length (ey_history y r))]"
proof -
  have ok: "stream_ok (ey_store y) (ey_history y r) r" using events_invD(1) [OF reachable_events_inv [OF assms]] .
  have "map evt_seq (ey_history y r) = [1..<Suc (length (ey_history y r))]"
    by (rule nth_equalityI) (use ok in \<open>auto simp: stream_ok_def history_ok_def simp del: upt_Suc\<close>)
  with read_stream [OF ok] show ?thesis by blast
qed

definition sample_event :: "GoalRunId \<Rightarrow> GoalStudioEvent" where
  "sample_event r = \<lparr>evt_seq = 0, evt_type = RunStatus, evt_runId = Some r, evt_targetId = None, evt_attemptId = None,
     evt_executionId = None, evt_timestamp = 1, evt_data = []\<rparr>"

text \<open>The state after \<open>n\<close> appenders have read the empty head and \<open>m\<close> of them have updated it and died.\<close>

definition numbered :: "nat \<Rightarrow> GoalStudioEvent list" where
  "numbered m = map (\<lambda>i. (sample_event ''run-1'')\<lparr>evt_seq := i\<rparr>) [1..<Suc m]"

definition overlapped_store :: "nat \<Rightarrow> EventStore" where
  "overlapped_store m =
     \<lparr>es_heads = (if m = 0 then [] else [(''run-1'', \<lparr>eh_runId = ''run-1'', eh_seq = m, eh_recent = lastn RECENT_WINDOW (numbered m)\<rparr>)]),
      es_events = []\<rparr>"

definition overlapped :: "nat \<Rightarrow> nat \<Rightarrow> EventSystem" where
  "overlapped n m =
     \<lparr>ey_store = overlapped_store m, ey_jobs = replicate_mset n (Preparing ''run-1'' (sample_event ''run-1'') [] 0),
      ey_history = (\<lambda>_. [])(''run-1'' := numbered m)\<rparr>"

lemmas overlapped_defs = overlapped_def overlapped_store_def

lemma overlapped_head:
  "head_seq (dget (es_heads (ey_store (overlapped n m))) ''run-1'') = m"
  "head_recent (dget (es_heads (ey_store (overlapped n m))) ''run-1'') = lastn RECENT_WINDOW (numbered m)"
  by (simp_all add: overlapped_defs head_seq_def head_recent_def numbered_def lastn_def)

lemma numbered_Suc: "numbered (Suc m) = numbered m @ [(sample_event ''run-1'')\<lparr>evt_seq := Suc m\<rparr>]"
  by (simp add: numbered_def)

lemma overlapped_start: "reachable_events w (overlapped n 0)"
proof (induction n)
  case 0
  have "overlapped 0 0 = initial_events" by (auto simp: overlapped_defs initial_events_def numbered_def)
  then show ?case by (simp add: initial_reachable)
next
  case (Suc n)
  have "event_step w (overlapped n 0) (overlapped n 0\<lparr>ey_jobs := add_mset (Preparing ''run-1'' (sample_event ''run-1'')
      (head_recent None) (head_seq None)) (ey_jobs (overlapped n 0))\<rparr>)"
    by (rule event_step.start) (simp_all add: valid_run_id_def id_char_def event_stream_def sample_event_def overlapped_defs)
  moreover have "overlapped n 0\<lparr>ey_jobs := add_mset (Preparing ''run-1'' (sample_event ''run-1'')
      (head_recent None) (head_seq None)) (ey_jobs (overlapped n 0))\<rparr> = overlapped (Suc n) 0"
    by (simp add: overlapped_defs head_recent_def head_seq_def)
  ultimately show ?case using reachable_events_step [OF Suc] by simp
qed

lemma overlapped_update:
  assumes "reachable_events w (overlapped (Suc n) m)" and "m \<le> w"
  shows "reachable_events w (overlapped n (Suc m))"
proof -
  let ?y = "overlapped (Suc n) m"
  let ?e = "(sample_event ''run-1'')\<lparr>evt_seq := Suc m\<rparr>"
  let ?h = "\<lparr>eh_runId = ''run-1'', eh_seq = Suc m, eh_recent = lastn RECENT_WINDOW (numbered (Suc m))\<rparr>"
  let ?J = "replicate_mset n (Preparing ''run-1'' (sample_event ''run-1'') [] 0)"
  let ?y1 = "?y\<lparr>ey_store := (ey_store ?y)\<lparr>es_heads := dput ''run-1'' ?h (es_heads (ey_store ?y))\<rparr>,
      ey_jobs := add_mset (Writing ''run-1'' ?e) ?J, ey_history := (ey_history ?y)(''run-1'' := ey_history ?y ''run-1'' @ [?e])\<rparr>"
  have "append_update ''run-1'' (sample_event ''run-1'') (dget (es_heads (ey_store ?y)) ''run-1'') = (?e, ?h)"
    by (cases m) (simp_all add: append_update_def Let_def overlapped_defs numbered_Suc lastn_lastn, simp add: numbered_def lastn_def RECENT_WINDOW_def)
  then have "event_step w ?y ?y1"
    by (intro event_step.update [where n = 0 and base = "sample_event ''run-1''"])
      (use assms(2) overlapped_head [of "Suc n" m] in \<open>simp_all add: overlapped_defs\<close>)
  then have "reachable_events w ?y1" by (rule reachable_events_step [OF assms(1)])
  moreover have "event_step w ?y1 (?y1\<lparr>ey_jobs := ?J\<rparr>)" by (rule event_step.crash) simp
  moreover have "?y1\<lparr>ey_jobs := ?J\<rparr> = overlapped n (Suc m)"
    by (auto simp: overlapped_defs numbered_Suc)
  ultimately show ?thesis using reachable_events_step by metis
qed

lemma overlapped_reachable: "m \<le> Suc w \<Longrightarrow> reachable_events w (overlapped n m)"
  by (induction m arbitrary: n) (auto intro: overlapped_start overlapped_update)

theorem read_is_gap_free_witness:
  "\<exists>y. reachable_events 63 y \<and> ey_history y ''run-1'' = numbered 3 \<and> es_events (ey_store y) = [] \<and>
     read (Some ''run-1'') (Some 1) None (ey_store y) = drop 1 (numbered 3)"
proof -
  let ?y = "overlapped 0 3"
  have reach: "reachable_events 63 ?y" by (rule overlapped_reachable) simp
  have "read (Some ''run-1'') (Some 1) None (ey_store ?y) = take (read_limit None) (drop (read_after (Some 1)) (ey_history ?y ''run-1''))"
    using read_is_gap_free [OF reach, of "''run-1''" "Some 1" None] by (simp add: RECENT_WINDOW_def)
  also have "\<dots> = drop 1 (numbered 3)"
    by (simp add: overlapped_defs read_limit_def DEFAULT_READ_LIMIT_def read_after_def numbered_def)
  finally show ?thesis using reach by (intro exI [of _ ?y]) (simp add: overlapped_defs)
qed

text \<open>
  The limit of the recent window: with 64 appends overlapping one appender's read and update, an
  appender that dies before it wrote its own key loses its event. Here 65 appenders read the head
  of an empty stream, each updates it and dies; the first event is then in no place a reader looks.
\<close>

theorem overlapping_appends_lose_an_event:
  "\<exists>y. reachable_events RECENT_WINDOW y \<and> length (ey_history y ''run-1'') = 65 \<and>
     head_of (Some ''run-1'') (ey_store y) = 65 \<and>
     map evt_seq (read (Some ''run-1'') (Some 0) None (ey_store y)) = [2..<66]"
proof (intro exI conjI)
  show "reachable_events RECENT_WINDOW (overlapped 0 65)"
    by (rule overlapped_reachable) (simp add: RECENT_WINDOW_def)
  show "map evt_seq (read (Some ''run-1'') (Some 0) None (ey_store (overlapped 0 65))) = [2..<66]"
    unfolding overlapped_def EventSystem.simps by code_simp
qed (simp_all add: overlapped_defs head_of_def numbered_def)

lemma deliver_segment:
  assumes "history_ok h" and "\<not> su_closed sub" and "su_lastSeq sub = Some l" and "l \<le> length h"
  shows "su_delivered (deliver (take n (drop l h)) sub) = su_delivered sub @ take n (drop l h) \<and>
     su_lastSeq (deliver (take n (drop l h)) sub) = Some (min (length h) (l + n))"
  using assms
proof (induction n arbitrary: l sub)
  case (Suc n)
  show ?case
  proof (cases "l < length h")
    case True
    then have d: "drop l h = h ! l # drop (Suc l) h" by (simp add: Cons_nth_drop_Suc)
    have seq: "evt_seq (h ! l) = Suc l" using True Suc.prems(1) by (simp add: history_ok_def)
    let ?sub = "sub\<lparr>su_lastSeq := Some (Suc l), su_delivered := su_delivered sub @ [h ! l]\<rparr>"
    from Suc.IH [of ?sub "Suc l"] Suc.prems True show ?thesis by (simp add: d seq)
  qed (use Suc.prems in simp)
qed simp

text \<open>
  A subscription delivers every event of its stream once and in order: one round of \<open>drain\<close> hands
  the listener exactly the next events after the last one it delivered, up to the read limit, and
  remembers how far it got.
\<close>

theorem subscription_delivers_once_in_order:
  assumes "reachable_events w y" and "w < RECENT_WINDOW"
    and "\<not> su_closed sub" and "su_lastSeq sub = Some l" and "l \<le> length (ey_history y (su_runId sub))"
  shows "su_delivered (drain_iteration (ey_store y) sub) =
      su_delivered sub @ take DEFAULT_READ_LIMIT (drop l (ey_history y (su_runId sub))) \<and>
    su_lastSeq (drain_iteration (ey_store y) sub) = Some (min (length (ey_history y (su_runId sub))) (l + DEFAULT_READ_LIMIT))"
proof -
  have ok: "stream_ok (ey_store y) (ey_history y (su_runId sub)) (su_runId sub)"
    using events_invD(1) [OF reachable_events_inv [OF assms(1,2)]] .
  have "read (Some (su_runId sub)) (map_option rat_of_nat (su_lastSeq sub)) None (ey_store y) =
      take DEFAULT_READ_LIMIT (drop l (ey_history y (su_runId sub)))"
    using read_stream [OF ok] assms(4) by (simp add: read_limit_def read_after_def)
  with deliver_segment [OF _ assms(3-5), of DEFAULT_READ_LIMIT] ok show ?thesis
    by (simp add: drain_iteration_def stream_ok_def)
qed

theorem subscription_delivers_once_in_order_witness:
  "\<exists>y. reachable_events 63 y \<and> ey_history y ''run-1'' = numbered 3 \<and>
     su_delivered (drain_iteration (ey_store y) (addSubscription ''run-1'' (Some 1))) = drop 1 (numbered 3)"
proof -
  let ?y = "overlapped 0 3"
  let ?sub = "addSubscription ''run-1'' (Some 1)"
  have reach: "reachable_events 63 ?y" by (rule overlapped_reachable) simp
  have "su_delivered (drain_iteration (ey_store ?y) ?sub) =
      su_delivered ?sub @ take DEFAULT_READ_LIMIT (drop 1 (ey_history ?y (su_runId ?sub)))"
    using subscription_delivers_once_in_order [OF reach, of ?sub 1]
    by (simp add: RECENT_WINDOW_def addSubscription_def overlapped_defs numbered_def)
  then show ?thesis
    using reach by (intro exI [of _ ?y]) (simp add: addSubscription_def overlapped_defs DEFAULT_READ_LIMIT_def numbered_def)
qed

end
