(* ===== verification/Gate.thy ===== *)
theory Gate
  imports Contracts
begin

text \<open>
  The acceptance gate: \<open>src/packages/goals/src/verification/gate.ts\<close> with the data of
  \<open>verification/types.ts\<close>. \<open>evaluateGate\<close> is a pure function of the run, the target, the attempt and
  the evidence; the model keeps all of it except the free text of the reasons, of which the leading
  tag is kept. The lemmas characterise when the gate lets a target complete: exactly when every
  criterion has fresh evidence from an independent validator and nothing speaks against it.
\<close>

subsection \<open>Methods and inputs\<close>

definition DETERMINISTIC_METHODS :: "string list" where
  "DETERMINISTIC_METHODS = [''existence'', ''schema'', ''content-check'', ''command'', ''test-suite'']"

definition HUMAN_METHODS :: "string list" where
  "HUMAN_METHODS = [''human-signoff'', ''external-record'']"

definition SELF_REPORT_METHODS :: "string list" where
  "SELF_REPORT_METHODS = [''self-report'', ''self_report'', ''model-claim'', ''executor-claim'']"

record WorkspaceState =
  ws_workspaceRevision :: string
  ws_artifacts :: "ArtifactRef list"
  ws_problems :: "(string \<times> string) list"

record GateInput =
  gi_run :: GoalRunLedger
  gi_target :: GoalTarget
  gi_attempt :: TargetAttempt
  gi_evidence :: "EvidenceRecord list"
  gi_current :: "WorkspaceState option"
  gi_executorIdentity :: "string option"

record GateOptions =
  go_acceptReviewerPass :: bool

subsection \<open>Criteria, freshness and independence\<close>

text \<open>\<open>/^#(\d+)$/\<close>\<close>

definition criterion_number :: "string \<Rightarrow> nat option" where
  "criterion_number s =
     (case s of
        c # ds \<Rightarrow> if c = CHR ''#'' \<and> ds \<noteq> [] \<and> list_all is_digit ds then Some (read_nat ds) else None
      | [] \<Rightarrow> None)"

definition resolveCriterion :: "string list \<Rightarrow> string option \<Rightarrow> string option" where
  "resolveCriterion acceptance ref =
     (case ref of
        None \<Rightarrow> None
      | Some r \<Rightarrow>
          (case criterion_number (trim r) of
             Some n \<Rightarrow> if 1 \<le> n \<and> n \<le> length acceptance then Some (acceptance ! (n - 1)) else None
           | None \<Rightarrow> if r \<in> set acceptance then Some r else None))"

definition byTime :: "EvidenceRecord \<Rightarrow> EvidenceRecord \<Rightarrow> rat" where
  "byTime a b =
     (if ev_createdAt a < ev_createdAt b then -1 else if ev_createdAt a > ev_createdAt b then 1
      else compare_str (ev_id a) (ev_id b))"

definition artifact_map :: "ArtifactRef list \<Rightarrow> (string, ArtifactRef) dict \<Rightarrow> (string, ArtifactRef) dict" where
  "artifact_map artifacts m = fold (\<lambda>a m. dput (ar_uri a) a m) artifacts m"

definition referenceState :: "EvidenceRecord list \<Rightarrow> TargetAttemptId \<Rightarrow> WorkspaceState option" where
  "referenceState evidence attemptId =
     (let checksums = sort_by byTime (filter (\<lambda>e. ev_attemptId e = attemptId \<and> ev_validationMethod e = ''checksum'') evidence);
          candidates = (if checksums \<noteq> [] then checksums
                        else sort_by byTime (filter (\<lambda>e. ev_attemptId e = attemptId \<and> ev_artifacts e \<noteq> []) evidence))
      in if candidates = [] then None
         else let latest = last candidates;
                  batch = filter (\<lambda>e. ev_workspaceRevision e = ev_workspaceRevision latest) candidates;
                  artifacts = fold (\<lambda>e m. artifact_map (ev_artifacts e) m) batch []
              in Some \<lparr>ws_workspaceRevision = ev_workspaceRevision latest, ws_artifacts = map snd artifacts, ws_problems = []\<rparr>)"

definition isSelfReport :: "EvidenceRecord \<Rightarrow> string list \<Rightarrow> bool" where
  "isSelfReport e executors \<longleftrightarrow>
     toLowerCase (ev_validationMethod e) \<in> set SELF_REPORT_METHODS \<or> trim (ev_validatorIdentity e) = [] \<or>
     ev_validatorIdentity e = ev_executorIdentity e \<or> ev_validatorIdentity e \<in> set executors"

definition isFresh :: "EvidenceRecord \<Rightarrow> WorkspaceState \<Rightarrow> bool" where
  "isFresh e ref \<longleftrightarrow> ev_workspaceRevision e = ws_workspaceRevision ref \<and>
     (let current = artifact_map (ws_artifacts ref) []
      in list_all (\<lambda>a. map_option ar_digest (dget current (ar_uri a)) = Some (ar_digest a)) (ev_artifacts e))"

text \<open>\<open>countsAsPass\<close>: a human method counts as soon as its validator is not blank, whoever it is.\<close>

definition countsAsPass :: "GateOptions \<Rightarrow> string list \<Rightarrow> EvidenceRecord \<Rightarrow> bool" where
  "countsAsPass options executors e =
     (if ev_verdict e \<noteq> PASS \<or> isSelfReport e executors then False
      else if ev_validationMethod e \<in> set DETERMINISTIC_METHODS then True
      else if ev_validationMethod e \<in> set HUMAN_METHODS
      then (if ev_validationMethod e = ''human-signoff''
            then startsWith (ev_validatorIdentity e) ''user:'' \<or> trim (ev_validatorIdentity e) \<noteq> []
            else trim (ev_validatorIdentity e) \<noteq> [])
      else if ev_validationMethod e = ''adversarial-review'' then go_acceptReviewerPass options
      else False)"

subsection \<open>Declared artifacts\<close>

text \<open>\<open>/^sha256:[0-9a-f]{64}$/i\<close>\<close>

definition hex_char :: "char \<Rightarrow> bool" where
  "hex_char c \<longleftrightarrow> is_digit c \<or> c \<in> set ''abcdef''"

definition valid_digest :: "string \<Rightarrow> bool" where
  "valid_digest d =
     (let s = toLowerCase d
      in startsWith s ''sha256:'' \<and> length s = 71 \<and> list_all hex_char (drop 7 s))"

definition strip_slashes :: "string \<Rightarrow> string" where
  "strip_slashes s = rev (dropWhile (\<lambda>c. c = CHR ''/'') (rev s))"

definition strip_slash :: "string \<Rightarrow> string" where
  "strip_slash s = (if s \<noteq> [] \<and> last s = CHR ''/'' then butlast s else s)"

definition slashes :: "string \<Rightarrow> string" where
  "slashes s = map (\<lambda>c. if c = CHR 0x5C then CHR ''/'' else c) s"

definition gate_path :: "string \<Rightarrow> string" where
  "gate_path raw =
     (let s = slashes (trim raw);
          t = (if startsWith s ''./'' then drop 2 s else s)
      in strip_slashes t)"

definition verified_by_uri :: "WorkspaceState \<Rightarrow> (string, ArtifactRef) dict" where
  "verified_by_uri ref = fold (\<lambda>a m. dput (strip_slash (ar_uri a)) a m) (ws_artifacts ref) []"

definition artifact_missing :: "WorkspaceState \<Rightarrow> string \<Rightarrow> bool" where
  "artifact_missing ref raw \<longleftrightarrow> dget (verified_by_uri ref) (gate_path raw) = None"

definition artifact_invalid :: "WorkspaceState \<Rightarrow> string \<Rightarrow> bool" where
  "artifact_invalid ref raw =
     (case dget (verified_by_uri ref) (gate_path raw) of
        None \<Rightarrow> False
      | Some found \<Rightarrow> \<not> valid_digest (ar_digest found) \<or> ar_sizeBytes found = Some 0)"

subsection \<open>The decision\<close>

definition gate_scoped :: "GateInput \<Rightarrow> EvidenceRecord list" where
  "gate_scoped inp = filter (\<lambda>e. ev_runId e = r_runId (gi_run inp) \<and> ev_targetId e = t_id (gi_target inp)) (gi_evidence inp)"

definition gate_executors :: "GateInput \<Rightarrow> string list" where
  "gate_executors inp =
     map ev_executorIdentity (filter (\<lambda>e. ev_attemptId e = at_id (gi_attempt inp) \<and> ev_executorIdentity e \<noteq> []) (gate_scoped inp)) @
     (case gi_executorIdentity inp of None \<Rightarrow> [] | Some x \<Rightarrow> if x = [] then [] else [x])"

definition gate_ref :: "GateInput \<Rightarrow> WorkspaceState option" where
  "gate_ref inp = (case gi_current inp of Some c \<Rightarrow> Some c | None \<Rightarrow> referenceState (gate_scoped inp) (at_id (gi_attempt inp)))"

definition gate_considered :: "GateInput \<Rightarrow> EvidenceRecord list" where
  "gate_considered inp =
     filter (\<lambda>e. ev_attemptId e = at_id (gi_attempt inp) \<and> ev_graphRevision e = r_graphRevision (gi_run inp)) (gate_scoped inp)"

definition gate_fresh :: "GateInput \<Rightarrow> EvidenceRecord list" where
  "gate_fresh inp = (case gate_ref inp of None \<Rightarrow> [] | Some ref \<Rightarrow> filter (\<lambda>e. isFresh e ref) (gate_considered inp))"

definition stale_attempt :: "GateInput \<Rightarrow> bool" where
  "stale_attempt inp =
     (case Option.bind (dget (r_targets (gi_run inp)) (t_id (gi_target inp))) le_lastAttemptId of
        None \<Rightarrow> False
      | Some a \<Rightarrow> a \<noteq> at_id (gi_attempt inp))"

definition criterion_verdict :: "GateOptions \<Rightarrow> GateInput \<Rightarrow> string \<Rightarrow> CriterionVerdict" where
  "criterion_verdict options inp criterion =
     (let mine = filter (\<lambda>e. resolveCriterion (t_acceptance (gi_target inp)) (ev_criterion e) = Some criterion) (gate_fresh inp);
          fails = filter (\<lambda>e. ev_verdict e = FAIL) mine;
          passes = filter (countsAsPass options (gate_executors inp)) mine;
          unknown = filter (\<lambda>e. ev_verdict e = UNKNOWN \<or> ev_verdict e = PASS) mine
      in if fails \<noteq> [] then \<lparr>cv_criterion = criterion, cv_verdict = FAIL, cv_evidenceIds = map ev_id fails\<rparr>
         else if passes \<noteq> [] then \<lparr>cv_criterion = criterion, cv_verdict = PASS, cv_evidenceIds = map ev_id passes\<rparr>
         else if unknown \<noteq> [] then \<lparr>cv_criterion = criterion, cv_verdict = UNKNOWN, cv_evidenceIds = map ev_id unknown\<rparr>
         else \<lparr>cv_criterion = criterion, cv_verdict = NOT_RUN, cv_evidenceIds = map ev_id mine\<rparr>)"

definition gate_decidedAt :: "GateInput \<Rightarrow> timestamp" where
  "gate_decidedAt inp =
     (let sorted = sort_by byTime (gate_considered inp)
      in if sorted \<noteq> [] then ev_createdAt (last sorted)
         else case at_endedAt (gi_attempt inp) of Some t \<Rightarrow> t | None \<Rightarrow> at_startedAt (gi_attempt inp))"

definition gate_notes :: "GateInput \<Rightarrow> string list" where
  "gate_notes inp =
     (let a = at_id (gi_attempt inp); scoped = gate_scoped inp
      in tag (stale_attempt inp) ''STALE_ATTEMPT'' @
         tag (\<exists>e \<in> set scoped. ev_attemptId e = a \<and> ev_graphRevision e \<noteq> r_graphRevision (gi_run inp)) ''IGNORED_GRAPH_REVISION'' @
         tag (length (gate_fresh inp) < length (gate_considered inp)) ''STALE_EVIDENCE'' @
         tag (\<exists>e \<in> set scoped. ev_attemptId e \<noteq> a) ''IGNORED_OTHER_ATTEMPTS'' @
         tag (\<exists>e \<in> set (gate_fresh inp). ev_verdict e = PASS \<and> isSelfReport e (gate_executors inp)) ''SELF_VERIFICATION_REJECTED'')"

definition attempt_failed :: "GateInput \<Rightarrow> bool" where
  "attempt_failed inp \<longleftrightarrow> at_outcome (gi_attempt inp) = Some OFailed \<or> at_outcome (gi_attempt inp) = Some OCancelled"

definition gate_failures :: "GateInput \<Rightarrow> EvidenceRecord list" where
  "gate_failures inp = filter (\<lambda>e. ev_verdict e = FAIL) (gate_fresh inp)"

definition ref_problems :: "GateInput \<Rightarrow> (string \<times> string) list" where
  "ref_problems inp = (case gate_ref inp of None \<Rightarrow> [] | Some ref \<Rightarrow> ws_problems ref)"

text \<open>Rules 2 to 6 for a reference state, in the order of the code; the result is the decision and the
  reasons it adds.\<close>

definition gate_rules :: "GateOptions \<Rightarrow> GateInput \<Rightarrow> GateOutcome \<times> string list" where
  "gate_rules options inp =
     (let target = gi_target inp; fresh = gate_fresh inp; passes = countsAsPass options (gate_executors inp) in
      if stale_attempt inp \<or> attempt_failed inp \<or> gate_failures inp \<noteq> [] \<or> ref_problems inp \<noteq> [] then (GRepair, [])
      else case gate_ref inp of
        None \<Rightarrow> (GRepair, [''NOT_VERIFIED''])
      | Some ref \<Rightarrow>
          if fresh = [] then (GRepair, [''NOT_VERIFIED''])
          else if \<exists>raw \<in> set (t_artifacts target). artifact_missing ref raw then (GRepair, [''ARTIFACT_NOT_VERIFIED''])
          else if \<exists>raw \<in> set (t_artifacts target). artifact_invalid ref raw then (GRepair, [''ARTIFACT_INVALID_DIGEST''])
          else if t_externalDependency target \<and> \<not> (\<exists>e \<in> set fresh. ev_validationMethod e \<in> set HUMAN_METHODS \<and> passes e)
          then (GAwaitingExternal, [''AWAITING_EXTERNAL''])
          else if (t_requiresApproval target \<or> t_acceptance target = []) \<and>
                  \<not> (\<exists>e \<in> set fresh. ev_validationMethod e = ''human-signoff'' \<and> passes e)
          then (GNeedsApproval, [''NEEDS_APPROVAL''])
          else if \<exists>c \<in> set (t_acceptance target). cv_verdict (criterion_verdict options inp c) \<noteq> PASS
          then (GRepair, [''OPEN_CRITERION''])
          else (GCompleted, [''COMPLETED'']))"

definition evaluateGate :: "GateOptions \<Rightarrow> GateInput \<Rightarrow> AcceptanceGateDecision result" where
  "evaluateGate options inp =
     (if at_runId (gi_attempt inp) \<noteq> r_runId (gi_run inp) \<or> at_targetId (gi_attempt inp) \<noteq> t_id (gi_target inp)
      then Inl (failure VALIDATION)
      else let (decision, reasons) = gate_rules options inp
           in Inr \<lparr>gd_runId = r_runId (gi_run inp), gd_targetId = t_id (gi_target inp), gd_attemptId = at_id (gi_attempt inp),
                   gd_decision = decision,
                   gd_perCriterion = map (criterion_verdict options inp) (t_acceptance (gi_target inp)),
                   gd_reasons = gate_notes inp @ tag (attempt_failed inp) ''ATTEMPT_FAILED'' @
                     map (\<lambda>_. ''ARTIFACT_PROBLEM'') (ref_problems inp) @ map (\<lambda>_. ''FAIL'') (gate_failures inp) @ reasons,
                   gd_decidedAt = gate_decidedAt inp\<rparr>)"

subsection \<open>Artifact paths\<close>

text \<open>
  The snapshot that the gate compares with names artifacts by \<open>normalizeArtifactPath\<close> of
  \<open>verification/digest.ts\<close>, which uses \<open>path.posix.normalize\<close>: empty and \<open>.\<close> segments go, \<open>..\<close> removes the
  segment before it unless that is \<open>..\<close> too.
\<close>

definition posix_step :: "string list \<Rightarrow> string \<Rightarrow> string list" where
  "posix_step segs s =
     (if s = [] \<or> s = ''.'' then segs
      else if s = ''..'' then (if segs \<noteq> [] \<and> last segs \<noteq> ''..'' then butlast segs else segs @ [s])
      else segs @ [s])"

definition posix_normalize_relative :: "string \<Rightarrow> string" where
  "posix_normalize_relative p =
     (let segs = foldl posix_step [] (split_on (CHR ''/'') p);
          out = (if segs = [] then ''.'' else join_with ''/'' segs)
      in if p \<noteq> [] \<and> last p = CHR ''/'' then out @ ''/'' else out)"

definition drive_path :: "string \<Rightarrow> bool" where
  "drive_path s = (case s of
     a # b # c # _ \<Rightarrow> (let n = (of_char a :: nat) in 65 \<le> n \<and> n \<le> 90 \<or> 97 \<le> n \<and> n \<le> 122) \<and> b = CHR '':'' \<and> c = CHR ''/''
   | _ \<Rightarrow> False)"

definition normalizeArtifactPath :: "string \<Rightarrow> string option" where
  "normalizeArtifactPath entry =
     (let trimmed = slashes (trim entry)
      in if trimmed = [] \<or> CHR 0x00 \<in> set trimmed \<or> startsWith trimmed ''/'' \<or> drive_path trimmed then None
         else let normalized = strip_slashes (posix_normalize_relative trimmed)
              in if normalized = ''.'' \<or> normalized = [] \<or> normalized = ''..'' \<or> startsWith normalized ''../'' then None
                 else Some normalized)"

subsection \<open>When the gate completes a target\<close>

lemma criterion_PASS_iff:
  "cv_verdict (criterion_verdict options inp c) = PASS \<longleftrightarrow>
     (\<forall>e \<in> set (gate_fresh inp). resolveCriterion (t_acceptance (gi_target inp)) (ev_criterion e) = Some c \<longrightarrow> ev_verdict e \<noteq> FAIL) \<and>
     (\<exists>e \<in> set (gate_fresh inp). resolveCriterion (t_acceptance (gi_target inp)) (ev_criterion e) = Some c \<and>
        countsAsPass options (gate_executors inp) e)"
  by (auto simp: criterion_verdict_def Let_def filter_empty_conv)

lemma artifact_checked_iff:
  "\<not> artifact_missing ref raw \<and> \<not> artifact_invalid ref raw \<longleftrightarrow>
     (\<exists>a. dget (verified_by_uri ref) (gate_path raw) = Some a \<and> valid_digest (ar_digest a) \<and> ar_sizeBytes a \<noteq> Some 0)"
  by (cases "dget (verified_by_uri ref) (gate_path raw)") (auto simp: artifact_missing_def artifact_invalid_def)

lemma evaluateGate_decision:
  "evaluateGate options inp = Inr d \<Longrightarrow> gd_decision d = fst (gate_rules options inp)"
  by (auto simp: evaluateGate_def split: if_splits prod.splits)

text \<open>The condition under which a target completes, as the rules state it.\<close>

definition gate_accepts :: "GateOptions \<Rightarrow> GateInput \<Rightarrow> WorkspaceState \<Rightarrow> bool" where
  "gate_accepts options inp ref \<longleftrightarrow>
     (let target = gi_target inp; fresh = set (gate_fresh inp); passes = countsAsPass options (gate_executors inp) in
      \<not> stale_attempt inp \<and> \<not> attempt_failed inp \<and> ws_problems ref = [] \<and> fresh \<noteq> {} \<and>
      (\<forall>e \<in> fresh. ev_verdict e \<noteq> FAIL) \<and>
      (\<forall>raw \<in> set (t_artifacts target). \<exists>a. dget (verified_by_uri ref) (gate_path raw) = Some a \<and>
         valid_digest (ar_digest a) \<and> ar_sizeBytes a \<noteq> Some 0) \<and>
      (t_externalDependency target \<longrightarrow> (\<exists>e \<in> fresh. ev_validationMethod e \<in> set HUMAN_METHODS \<and> passes e)) \<and>
      (t_requiresApproval target \<or> t_acceptance target = [] \<longrightarrow> (\<exists>e \<in> fresh. ev_validationMethod e = ''human-signoff'' \<and> passes e)) \<and>
      (\<forall>c \<in> set (t_acceptance target). \<exists>e \<in> fresh. resolveCriterion (t_acceptance target) (ev_criterion e) = Some c \<and> passes e))"

lemma gate_decision_completed:
  assumes "evaluateGate options inp = Inr d"
  shows "gd_decision d = GCompleted \<longleftrightarrow> (\<exists>ref. gate_ref inp = Some ref \<and> gate_accepts options inp ref)"
proof (cases "gate_ref inp")
  case None
  then show ?thesis using evaluateGate_decision [OF assms] by (auto simp: gate_rules_def Let_def)
next
  case (Some ref)
  let ?fail = "stale_attempt inp \<or> attempt_failed inp \<or> gate_failures inp \<noteq> [] \<or> ref_problems inp \<noteq> []"
  have fail: "?fail \<longleftrightarrow> stale_attempt inp \<or> attempt_failed inp \<or> (\<exists>e \<in> set (gate_fresh inp). ev_verdict e = FAIL) \<or> ws_problems ref \<noteq> []"
    using Some by (auto simp: gate_failures_def ref_problems_def filter_empty_conv)
  have art: "(\<forall>raw \<in> set (t_artifacts (gi_target inp)). \<exists>a. dget (verified_by_uri ref) (gate_path raw) = Some a \<and>
      valid_digest (ar_digest a) \<and> ar_sizeBytes a \<noteq> Some 0) \<longleftrightarrow>
    \<not> (\<exists>raw \<in> set (t_artifacts (gi_target inp)). artifact_missing ref raw) \<and>
    \<not> (\<exists>raw \<in> set (t_artifacts (gi_target inp)). artifact_invalid ref raw)"
    unfolding artifact_checked_iff [symmetric] by blast
  have crit: "\<forall>e \<in> set (gate_fresh inp). ev_verdict e \<noteq> FAIL \<Longrightarrow>
    (\<exists>c \<in> set (t_acceptance (gi_target inp)). cv_verdict (criterion_verdict options inp c) \<noteq> PASS) \<longleftrightarrow>
    \<not> (\<forall>c \<in> set (t_acceptance (gi_target inp)). \<exists>e \<in> set (gate_fresh inp).
        resolveCriterion (t_acceptance (gi_target inp)) (ev_criterion e) = Some c \<and> countsAsPass options (gate_executors inp) e)"
    by (auto simp: criterion_PASS_iff)
  show ?thesis
  proof (cases ?fail)
    case True
    with fail Some evaluateGate_decision [OF assms] show ?thesis
      by (auto simp: gate_rules_def gate_accepts_def Let_def)
  next
    case False
    with fail have nf: "\<forall>e \<in> set (gate_fresh inp). ev_verdict e \<noteq> FAIL" by blast
    have "gd_decision d = GCompleted \<longleftrightarrow> gate_accepts options inp ref"
      unfolding evaluateGate_decision [OF assms] gate_rules_def gate_accepts_def Let_def art
      using Some False crit [OF nf] fail by simp blast
    with Some show ?thesis by simp
  qed
qed

definition sample_digest :: string where
  "sample_digest = ''sha256:'' @ replicate 64 (CHR ''a'')"

definition sample_ref :: WorkspaceState where
  "sample_ref = \<lparr>ws_workspaceRevision = ''content:1'', ws_artifacts = [\<lparr>ar_uri = ''docs/x.md'', ar_digest = sample_digest, ar_sizeBytes = Some 12\<rparr>], ws_problems = []\<rparr>"

definition sample_evidence :: "string \<Rightarrow> EvidenceRecord" where
  "sample_evidence validator =
     \<lparr>ev_id = ''ev-1'', ev_runId = ''run-1'', ev_targetId = ''A'', ev_attemptId = ''a1'', ev_graphRevision = 1,
      ev_workspaceRevision = ''content:1'', ev_artifacts = ws_artifacts sample_ref, ev_validationMethod = ''command'',
      ev_validatorIdentity = validator, ev_executorIdentity = ''agent:x'', ev_verdict = PASS, ev_criterion = Some ''#1'',
      ev_command = Some ''npm test'', ev_exitCode = Some 0, ev_outputExcerpt = None, ev_limitations = [], ev_createdAt = 7\<rparr>"

definition sample_gate :: "string \<Rightarrow> string \<Rightarrow> GateInput" where
  "sample_gate validator artifact =
     \<lparr>gi_run = \<lparr>r_runId = ''run-1'', r_graphId = ''g'', r_graphRevision = 1, r_graphDigest = ''d'', r_status = RRunning,
        r_ledgerRevision = 3, r_targets = [],
        r_resource = \<lparr>res_tasksStarted = 1, res_hostedSpendUsd = 0, res_startedAt = 0, res_deadlineAt = 9\<rparr>,
        r_createdBy = ''user:ann'', r_createdAt = 0, r_updatedAt = 0\<rparr>,
      gi_target = \<lparr>t_id = ''A'', t_stage = ''Now'', t_title = ''A'', t_dependsOn = [], t_priority = 1, t_executor = ''VERIFY'',
        t_artifacts = [artifact], t_acceptance = [''tests pass''], t_externalDependency = False, t_requiresApproval = False\<rparr>,
      gi_attempt = \<lparr>at_id = ''a1'', at_runId = ''run-1'', at_targetId = ''A'', at_attempt = 1, at_phase = ACCEPTANCE_GATE,
        at_executionId = None, at_modelRoute = None, at_promptRef = None, at_repairHypothesis = None, at_startedAt = 5,
        at_endedAt = None, at_outcome = None, at_error = None\<rparr>,
      gi_evidence = [sample_evidence validator], gi_current = Some sample_ref, gi_executorIdentity = Some ''agent:x''\<rparr>"

text \<open>
  C3. The gate completes a target exactly when its acceptance condition holds: the attempt is the
  current one and did not fail, the reference state has no problems, there is fresh evidence and
  none of it is a FAIL, every declared artifact is in the verified set with a valid digest of a
  non-empty file, external dependencies and approvals have their human evidence, and every
  criterion has a fresh independent PASS.
\<close>

theorem gate_completes_iff:
  assumes "evaluateGate options inp = Inr d"
  shows "gd_decision d = GCompleted \<longleftrightarrow> (\<exists>ref. gate_ref inp = Some ref \<and> gate_accepts options inp ref)"
  using assms by (rule gate_decision_completed)

theorem gate_completes_iff_witness:
  "\<exists>d. evaluateGate \<lparr>go_acceptReviewerPass = False\<rparr> (sample_gate ''verifier:wazir'' ''./docs/x.md'') = Inr d \<and>
     gd_decision d = GCompleted \<and>
     gate_accepts \<lparr>go_acceptReviewerPass = False\<rparr> (sample_gate ''verifier:wazir'' ''./docs/x.md'') sample_ref"
proof -
  let ?o = "\<lparr>go_acceptReviewerPass = False\<rparr>" and ?i = "sample_gate ''verifier:wazir'' ''./docs/x.md''"
  have "(case evaluateGate ?o ?i of Inl e \<Rightarrow> False | Inr d \<Rightarrow> gd_decision d = GCompleted)" by code_simp
  then obtain d where d: "evaluateGate ?o ?i = Inr d" "gd_decision d = GCompleted" by (auto split: sum.splits)
  moreover have "gate_ref ?i = Some sample_ref" by (simp add: gate_ref_def sample_gate_def)
  ultimately show ?thesis using gate_completes_iff [OF d(1)] by auto
qed

lemma gate_fresh_D:
  assumes "e \<in> set (gate_fresh inp)" and "gate_ref inp = Some ref"
  shows "e \<in> set (gi_evidence inp)" "ev_runId e = r_runId (gi_run inp)" "ev_targetId e = t_id (gi_target inp)"
    "ev_attemptId e = at_id (gi_attempt inp)" "ev_graphRevision e = r_graphRevision (gi_run inp)"
    "ev_workspaceRevision e = ws_workspaceRevision ref"
    "\<forall>a \<in> set (ev_artifacts e). map_option ar_digest (dget (artifact_map (ws_artifacts ref) []) (ar_uri a)) = Some (ar_digest a)"
  using assms by (auto simp: gate_fresh_def gate_considered_def gate_scoped_def isFresh_def Let_def list_all_iff)

lemma countsAsPass_D:
  assumes "countsAsPass options executors e"
  shows "ev_verdict e = PASS" "ev_validatorIdentity e \<noteq> ev_executorIdentity e" "ev_validatorIdentity e \<notin> set executors"
    "trim (ev_validatorIdentity e) \<noteq> []"
    "ev_validationMethod e \<in> set (DETERMINISTIC_METHODS @ HUMAN_METHODS) \<or>
     ev_validationMethod e = ''adversarial-review'' \<and> go_acceptReviewerPass options"
    "toLowerCase (ev_validationMethod e) \<notin> set SELF_REPORT_METHODS"
  using assms by (auto simp: countsAsPass_def isSelfReport_def split: if_splits)

text \<open>
  C20. No self-verification: when the gate completes a target, every criterion is backed by a PASS
  record of this run, target, attempt and graph revision. The record is fresh: it was made at the workspace
  revision the gate refers to, and every artifact it cites has there the digest it had then. Its validator is a
  named identity different from the record's executor and from every executor of the attempt, and its method is
  a deterministic check, a human one or a review that the options accept, and never a self report.
\<close>

theorem completed_only_by_independent_evidence:
  assumes "evaluateGate options inp = Inr d" and "gd_decision d = GCompleted" and "c \<in> set (t_acceptance (gi_target inp))"
  shows "\<exists>e \<in> set (gi_evidence inp). \<exists>ref. gate_ref inp = Some ref \<and> ev_verdict e = PASS \<and>
      resolveCriterion (t_acceptance (gi_target inp)) (ev_criterion e) = Some c \<and>
      ev_runId e = r_runId (gi_run inp) \<and> ev_targetId e = t_id (gi_target inp) \<and> ev_attemptId e = at_id (gi_attempt inp) \<and>
      ev_graphRevision e = r_graphRevision (gi_run inp) \<and> ev_workspaceRevision e = ws_workspaceRevision ref \<and>
      (\<forall>a \<in> set (ev_artifacts e). map_option ar_digest (dget (artifact_map (ws_artifacts ref) []) (ar_uri a)) = Some (ar_digest a)) \<and>
      trim (ev_validatorIdentity e) \<noteq> [] \<and> ev_validatorIdentity e \<noteq> ev_executorIdentity e \<and>
      ev_validatorIdentity e \<notin> set (gate_executors inp) \<and> toLowerCase (ev_validationMethod e) \<notin> set SELF_REPORT_METHODS \<and>
      (ev_validationMethod e \<in> set (DETERMINISTIC_METHODS @ HUMAN_METHODS) \<or>
         ev_validationMethod e = ''adversarial-review'' \<and> go_acceptReviewerPass options)"
proof -
  from gate_decision_completed [OF assms(1)] assms(2) obtain ref where ref: "gate_ref inp = Some ref"
    and acc: "gate_accepts options inp ref" by blast
  from acc assms(3) obtain e where e: "e \<in> set (gate_fresh inp)"
    "resolveCriterion (t_acceptance (gi_target inp)) (ev_criterion e) = Some c" "countsAsPass options (gate_executors inp) e"
    by (auto simp: gate_accepts_def Let_def)
  note fresh = gate_fresh_D [OF e(1) ref] and pass = countsAsPass_D [OF e(3)]
  show ?thesis
    by (rule bexI [OF _ fresh(1)], rule exI [of _ ref], intro conjI) (rule ref fresh pass e(2))+
qed

theorem completed_only_by_independent_evidence_witness:
  "\<exists>d e. evaluateGate \<lparr>go_acceptReviewerPass = False\<rparr> (sample_gate ''verifier:wazir'' ''docs/x.md'') = Inr d \<and>
     gd_decision d = GCompleted \<and> e = sample_evidence ''verifier:wazir'' \<and>
     ev_validatorIdentity e \<notin> set (gate_executors (sample_gate ''verifier:wazir'' ''docs/x.md''))"
proof -
  let ?o = "\<lparr>go_acceptReviewerPass = False\<rparr>" and ?i = "sample_gate ''verifier:wazir'' ''docs/x.md''"
  have "(case evaluateGate ?o ?i of Inl e \<Rightarrow> False | Inr d \<Rightarrow> gd_decision d = GCompleted)" by code_simp
  then obtain d where d: "evaluateGate ?o ?i = Inr d" "gd_decision d = GCompleted" by (auto split: sum.splits)
  have c: "''tests pass'' \<in> set (t_acceptance (gi_target ?i))" "gi_evidence ?i = [sample_evidence ''verifier:wazir'']"
    by (simp_all add: sample_gate_def)
  from completed_only_by_independent_evidence [OF d c(1)] d c(2) show ?thesis by auto
qed

subsection \<open>Two spellings of an artifact\<close>

lemma strip_slashes_no_slash: "strip_slashes s \<noteq> [] \<Longrightarrow> last (strip_slashes s) \<noteq> CHR ''/''"
  unfolding strip_slashes_def by (metis (mono_tags, lifting) hd_dropWhile last_rev rev_is_Nil_conv)

lemma normalizeArtifactPath_no_slash: "normalizeArtifactPath entry = Some u \<Longrightarrow> strip_slash u = u"
  using strip_slashes_no_slash by (auto simp: normalizeArtifactPath_def Let_def strip_slash_def split: if_splits)

lemma verified_by_uri_only:
  assumes "\<forall>a \<in> set as. strip_slash (ar_uri a) = u" and "k \<noteq> u"
  shows "dget (fold (\<lambda>a m. dput (strip_slash (ar_uri a)) a m) as m) k = dget m k"
  using assms by (induction as arbitrary: m) auto

text \<open>
  An artifact declared by a path that the digester normalises differently from the gate (such as
  \<open>docs//x.md\<close>) can never be verified: the snapshot names it by the digester's spelling, the gate looks
  it up by its own, and the target is never completed whatever the evidence is.
\<close>

theorem respelled_artifact_never_completes:
  assumes "evaluateGate options inp = Inr d" and "gate_ref inp = Some ref"
    and "raw \<in> set (t_artifacts (gi_target inp))" and "normalizeArtifactPath raw = Some u" and "gate_path raw \<noteq> u"
    and "\<forall>a \<in> set (ws_artifacts ref). ar_uri a = u"
  shows "gd_decision d \<noteq> GCompleted"
proof
  assume "gd_decision d = GCompleted"
  with gate_decision_completed [OF assms(1)] assms(2,3) have "dget (verified_by_uri ref) (gate_path raw) \<noteq> None"
    by (auto simp: gate_accepts_def Let_def)
  moreover have "dget (verified_by_uri ref) (gate_path raw) = dget [] (gate_path raw)"
    unfolding verified_by_uri_def
    by (rule verified_by_uri_only [of _ u]) (use assms(5,6) normalizeArtifactPath_no_slash [OF assms(4)] in simp_all)
  ultimately show False by simp
qed

theorem respelled_artifact_never_completes_witness:
  "\<exists>d. evaluateGate \<lparr>go_acceptReviewerPass = False\<rparr> (sample_gate ''verifier:wazir'' ''docs//x.md'') = Inr d \<and>
     normalizeArtifactPath ''docs//x.md'' = Some ''docs/x.md'' \<and> gd_decision d \<noteq> GCompleted"
proof -
  let ?o = "\<lparr>go_acceptReviewerPass = False\<rparr>" and ?i = "sample_gate ''verifier:wazir'' ''docs//x.md''"
  have "isOk (evaluateGate ?o ?i)" by code_simp
  then obtain d where d: "evaluateGate ?o ?i = Inr d" by (auto simp: isOk_iff)
  have n: "normalizeArtifactPath ''docs//x.md'' = Some ''docs/x.md''" "gate_path ''docs//x.md'' \<noteq> ''docs/x.md''" by code_simp+
  have "gate_ref ?i = Some sample_ref" "''docs//x.md'' \<in> set (t_artifacts (gi_target ?i))"
    "\<forall>a \<in> set (ws_artifacts sample_ref). ar_uri a = ''docs/x.md''"
    by (simp_all add: gate_ref_def sample_gate_def sample_ref_def)
  from respelled_artifact_never_completes [OF d this(1,2) n this(3)] d n show ?thesis by auto
qed

end
