(* ===== verification/Verification.thy ===== *)
theory Verification
  imports Gate
begin

text \<open>
  Independent verification: \<open>src/packages/goals/src/verification/service.ts\<close> (\<open>verify\<close>, \<open>recordSignoff\<close>,
  \<open>persist\<close>, \<open>listEvidence\<close>, \<open>gateCurrent\<close>) and the declared checks of \<open>verification/checks.ts\<close>. What
  comes from outside is a parameter: the snapshots of the workspace before and after the checks,
  the runner of commands, the reader of artifacts, the verdict of the JSON-schema check on the bytes
  of a file, the reviewer's answer, the clock and the evidence ids (a hash). The text of output excerpts is left
  out; the limitations keep the ids of checks.

  The lemmas: a verification never records a PASS by the executor, leaves no criterion without a
  record, cannot be followed by a completion when the checks changed the artifacts, and a signoff is
  bound to the latest verified revision and never made by the executor.
\<close>

subsection \<open>Declared checks\<close>

definition DEFAULT_CHECK_TIMEOUT_MS :: int where "DEFAULT_CHECK_TIMEOUT_MS = 120000"
definition MAX_CHECK_TIMEOUT_MS :: int where "MAX_CHECK_TIMEOUT_MS = 600000"
definition MIN_CHECK_TIMEOUT_MS :: int where "MIN_CHECK_TIMEOUT_MS = 1000"

text \<open>The argument is \<open>None\<close> when it is no finite number.\<close>

definition clampTimeout :: "rat option \<Rightarrow> int" where
  "clampTimeout ms =
     (case ms of
        None \<Rightarrow> DEFAULT_CHECK_TIMEOUT_MS
      | Some x \<Rightarrow> min MAX_CHECK_TIMEOUT_MS (max MIN_CHECK_TIMEOUT_MS \<lfloor>x\<rfloor>))"

datatype DeclaredCheckKind = CkCommand | CkExists | CkNonEmpty | CkJsonSchema | CkContains

record DeclaredCheck =
  dc_id :: string
  dc_kind :: DeclaredCheckKind
  dc_criterion :: "string option"
  dc_command :: "string option"
  dc_testSuite :: bool
  dc_artifact :: "string option"
  dc_schema :: "json option"
  dc_pattern :: "string option"
  dc_timeoutMs :: "rat option"

record CheckRunResult =
  cr_exitCode :: int
  cr_timedOut :: bool
  cr_sandbox :: string
  cr_error :: "string option"

record CheckOutcome =
  co_verdict :: VerificationVerdict
  co_method :: string
  co_command :: "string option"
  co_exitCode :: "int option"
  co_limitations :: "string list"

text \<open>\<open>readArtifact\<close> answers with a problem or the bytes of the file; the file system is a parameter.\<close>

type_synonym artifact_reader = "string \<Rightarrow> string + string"

definition read_declared :: "artifact_reader \<Rightarrow> string option \<Rightarrow> string + string" where
  "read_declared read artifact =
     (case artifact of
        None \<Rightarrow> Inl ''check declares no artifact''
      | Some a \<Rightarrow> if a = [] then Inl ''check declares no artifact'' else read a)"

definition outcome :: "VerificationVerdict \<Rightarrow> string \<Rightarrow> string list \<Rightarrow> CheckOutcome" where
  "outcome v m l = \<lparr>co_verdict = v, co_method = m, co_command = None, co_exitCode = None, co_limitations = l\<rparr>"

definition blank :: "string option \<Rightarrow> bool" where
  "blank s = (case s of None \<Rightarrow> True | Some x \<Rightarrow> trim x = [])"

definition run_command_check :: "DeclaredCheck \<Rightarrow> (string \<Rightarrow> int \<Rightarrow> CheckRunResult) option \<Rightarrow> CheckOutcome" where
  "run_command_check check runner =
     (let m = (if dc_testSuite check then ''test-suite'' else ''command'') in
      if blank (dc_command check) then outcome NOT_RUN m [''command check declares no command'']
      else case runner of
        None \<Rightarrow> (outcome NOT_RUN m [''no check runner configured''])\<lparr>co_command := dc_command check\<rparr>
      | Some run \<Rightarrow>
          (let res = run (the (dc_command check)) (clampTimeout (dc_timeoutMs check));
               lim = tag (cr_sandbox res = ''none'') ''ran without an OS sandbox''
           in if cr_error res \<noteq> None \<and> cr_error res \<noteq> Some []
              then (outcome NOT_RUN m (lim @ [''command not run'']))\<lparr>co_command := dc_command check\<rparr>
              else if cr_timedOut res
                  then (outcome FAIL m (lim @ [''timed out'']))\<lparr>co_command := dc_command check, co_exitCode := Some (cr_exitCode res)\<rparr>
                  else (outcome (if cr_exitCode res = 0 then PASS else FAIL) m lim)
                         \<lparr>co_command := dc_command check, co_exitCode := Some (cr_exitCode res)\<rparr>))"

definition runDeclaredCheck :: "artifact_reader \<Rightarrow> (json \<Rightarrow> string \<Rightarrow> VerificationVerdict) \<Rightarrow> DeclaredCheck
    \<Rightarrow> (string \<Rightarrow> int \<Rightarrow> CheckRunResult) option \<Rightarrow> CheckOutcome" where
  "runDeclaredCheck read schemaVerdict check runner =
     (case dc_kind check of
        CkCommand \<Rightarrow> run_command_check check runner
      | CkExists \<Rightarrow>
          (case read_declared read (dc_artifact check) of
             Inl p \<Rightarrow> outcome FAIL ''existence'' [p]
           | Inr bytes \<Rightarrow> outcome PASS ''existence'' [''existence does not establish semantic correctness''])
      | CkNonEmpty \<Rightarrow>
          (case read_declared read (dc_artifact check) of
             Inl p \<Rightarrow> outcome FAIL ''existence'' [p]
           | Inr bytes \<Rightarrow>
               if bytes = [] then outcome FAIL ''existence'' [''artifact is empty'']
               else outcome PASS ''existence'' [''existence does not establish semantic correctness''])
      | CkContains \<Rightarrow>
          (case dc_pattern check of
             None \<Rightarrow> outcome NOT_RUN ''content-check'' [''contains check declares no pattern'']
           | Some p \<Rightarrow>
               if p = [] then outcome NOT_RUN ''content-check'' [''contains check declares no pattern'']
               else case read_declared read (dc_artifact check) of
                 Inl pr \<Rightarrow> outcome FAIL ''content-check'' [pr]
               | Inr bytes \<Rightarrow> outcome (if has_substring bytes p then PASS else FAIL) ''content-check'' [])
      | CkJsonSchema \<Rightarrow>
          (case dc_schema check of
             None \<Rightarrow> outcome NOT_RUN ''schema'' [''schema check declares no schema'']
           | Some sch \<Rightarrow>
               (case read_declared read (dc_artifact check) of
                  Inl pr \<Rightarrow> outcome FAIL ''schema'' [pr]
                | Inr bytes \<Rightarrow>
                    (let v = schemaVerdict sch bytes
                     in outcome v ''schema'' (tag (v = UNKNOWN) ''schema uses unsupported keywords'')))))"

subsection \<open>Verifying an attempt\<close>

record AdversarialFinding =
  af_criterion :: "string option"
  af_verdict :: VerificationVerdict
  af_limitations :: "string list"

text \<open>The reviewer has an identity and answers with an identity of its own and findings, or throws.\<close>

record Review =
  rv_identity :: string
  rv_answer :: "string + (string option \<times> AdversarialFinding list)"

record VerifyInput =
  vi_run :: GoalRunLedger
  vi_target :: GoalTarget
  vi_attempt :: TargetAttempt
  vi_executorIdentity :: string
  vi_validator :: string
  vi_before :: WorkspaceState
  vi_after :: WorkspaceState
  vi_checks :: "DeclaredCheck list"
  vi_review :: "Review option"

text \<open>\<open>make\<close> without the id and the time of creation, which are assigned in the order of the records.\<close>

definition make_evidence :: "VerifyInput \<Rightarrow> string \<Rightarrow> VerificationVerdict \<Rightarrow> string option \<Rightarrow> string list \<Rightarrow> string \<Rightarrow> WorkspaceState \<Rightarrow> EvidenceRecord" where
  "make_evidence vi method verdict criterion limitations validatorIdentity bound =
     (let self = validatorIdentity = vi_executorIdentity vi \<and> verdict = PASS
      in \<lparr>ev_id = [], ev_runId = r_runId (vi_run vi), ev_targetId = t_id (vi_target vi), ev_attemptId = at_id (vi_attempt vi),
          ev_graphRevision = r_graphRevision (vi_run vi), ev_workspaceRevision = ws_workspaceRevision bound,
          ev_artifacts = ws_artifacts bound, ev_validationMethod = method, ev_validatorIdentity = validatorIdentity,
          ev_executorIdentity = vi_executorIdentity vi, ev_verdict = (if self then UNKNOWN else verdict), ev_criterion = criterion,
          ev_command = None, ev_exitCode = None, ev_outputExcerpt = None,
          ev_limitations = limitations @ tag self ''self-verification is not evidence'', ev_createdAt = 0\<rparr>)"

definition no_artifacts :: "WorkspaceState \<Rightarrow> WorkspaceState" where
  "no_artifacts w = w\<lparr>ws_artifacts := []\<rparr>"

definition checksum_records :: "VerifyInput \<Rightarrow> EvidenceRecord list" where
  "checksum_records vi =
     (let before = vi_before vi; v = vi_validator vi;
          problem = (\<lambda>uri. map_of (rev (ws_problems before)) uri) in
      map (\<lambda>ref. case problem (ar_uri ref) of
             Some (p # ps) \<Rightarrow> make_evidence vi ''checksum'' FAIL None [p # ps] v before
           | _ \<Rightarrow> make_evidence vi ''checksum'' PASS None [''checksum binds evidence to bytes''] v before) (ws_artifacts before) @
      map (\<lambda>(uri, reason). make_evidence vi ''checksum'' FAIL None [reason] v (no_artifacts before))
        (filter (\<lambda>(uri, reason). uri \<notin> ar_uri ` set (ws_artifacts before)) (ws_problems before)) @
      (if t_artifacts (vi_target vi) = []
       then [make_evidence vi ''checksum'' UNKNOWN None [''no artifacts to bind evidence to''] v (no_artifacts before)] else []))"

definition independent_validator :: "VerifyInput \<Rightarrow> bool" where
  "independent_validator vi \<longleftrightarrow> vi_validator vi \<noteq> vi_executorIdentity vi"

definition check_record :: "artifact_reader \<Rightarrow> (json \<Rightarrow> string \<Rightarrow> VerificationVerdict) \<Rightarrow> (string \<Rightarrow> int \<Rightarrow> CheckRunResult)
    \<Rightarrow> VerifyInput \<Rightarrow> DeclaredCheck \<Rightarrow> EvidenceRecord" where
  "check_record read schemaVerdict runner vi check =
     (let criterion = resolveCriterion (t_acceptance (vi_target vi)) (dc_criterion check) in
      if dc_criterion check \<noteq> None \<and> criterion = None
      then (make_evidence vi (if dc_kind check = CkCommand then ''command'' else ''existence'') NOT_RUN None [dc_id check] (vi_validator vi) (vi_before vi))
             \<lparr>ev_command := dc_command check\<rparr>
      else let out = runDeclaredCheck read schemaVerdict check (if independent_validator vi then Some runner else None);
               lim = co_limitations out @ tag (\<not> independent_validator vi) ''check not run as independent evidence''
           in (make_evidence vi (co_method out) (co_verdict out) criterion (dc_id check # lim) (vi_validator vi) (vi_before vi))
                \<lparr>ev_command := co_command out, ev_exitCode := co_exitCode out\<rparr>)"

definition mutation_records :: "VerifyInput \<Rightarrow> EvidenceRecord list" where
  "mutation_records vi =
     (if ws_workspaceRevision (vi_after vi) \<noteq> ws_workspaceRevision (vi_before vi)
      then [make_evidence vi ''checksum'' FAIL None [''artifacts mutated while checks ran''] (vi_validator vi) (vi_after vi)] else [])"

definition or_else :: "string \<Rightarrow> string \<Rightarrow> string" where
  "or_else a b = (if a = [] then b else a)"

definition finding_record :: "VerifyInput \<Rightarrow> string \<Rightarrow> AdversarialFinding \<Rightarrow> EvidenceRecord" where
  "finding_record vi reviewerIdentity f =
     (let criterion = resolveCriterion (t_acceptance (vi_target vi)) (af_criterion f);
          selfReview = reviewerIdentity = [] \<or> reviewerIdentity = vi_executorIdentity vi;
          unknownRef = af_criterion f \<noteq> None \<and> criterion = None;
          v1 = (if selfReview then UNKNOWN else af_verdict f);
          v2 = (if unknownRef \<and> v1 = PASS then UNKNOWN else v1)
      in make_evidence vi ''adversarial-review'' v2 criterion
           (af_limitations f @ tag selfReview ''self-review rejected'' @ tag unknownRef ''finding references unknown criterion'')
           (or_else reviewerIdentity ''reviewer:anonymous'') (vi_before vi))"

definition review_records :: "VerifyInput \<Rightarrow> EvidenceRecord list" where
  "review_records vi =
     (case vi_review vi of
        None \<Rightarrow> []
      | Some rv \<Rightarrow>
          (case rv_answer rv of
             Inl err \<Rightarrow> [make_evidence vi ''adversarial-review'' UNKNOWN None [''adversarial review did not complete'']
                           (or_else (rv_identity rv) ''reviewer:anonymous'') (vi_before vi)]
           | Inr (ident, findings) \<Rightarrow>
               map (finding_record vi (case ident of Some i \<Rightarrow> i | None \<Rightarrow> rv_identity rv)) findings))"

definition coverage_records :: "VerifyInput \<Rightarrow> EvidenceRecord list \<Rightarrow> string list \<Rightarrow> EvidenceRecord list" where
  "coverage_records vi records covered =
     map (\<lambda>c. make_evidence vi ''coverage'' NOT_RUN (Some c) [''no deterministic check declared for this criterion''] (vi_validator vi) (vi_before vi))
       (filter (\<lambda>c. c \<notin> set covered \<and> \<not> (\<exists>r \<in> set records. ev_criterion r = Some c)) (uniq (t_acceptance (vi_target vi))))"

definition numbered_records :: "(nat \<Rightarrow> EvidenceRecord \<Rightarrow> EvidenceId) \<Rightarrow> (nat \<Rightarrow> timestamp) \<Rightarrow> EvidenceRecord list \<Rightarrow> EvidenceRecord list" where
  "numbered_records newId clock rs =
     map (\<lambda>(i, r). let r' = r\<lparr>ev_createdAt := clock i\<rparr> in r'\<lparr>ev_id := newId i r'\<rparr>) (enumerate 1 rs)"

definition verify_records :: "artifact_reader \<Rightarrow> (json \<Rightarrow> string \<Rightarrow> VerificationVerdict) \<Rightarrow> (string \<Rightarrow> int \<Rightarrow> CheckRunResult)
    \<Rightarrow> VerifyInput \<Rightarrow> EvidenceRecord list" where
  "verify_records read schemaVerdict runner vi =
     (let checks = map (check_record read schemaVerdict runner vi) (vi_checks vi);
          records = checksum_records vi @ checks @ mutation_records vi @ review_records vi;
          covered = List.map_filter (\<lambda>c. resolveCriterion (t_acceptance (vi_target vi)) (dc_criterion c)) (vi_checks vi)
      in records @ coverage_records vi records covered)"

subsection \<open>The evidence store\<close>

type_synonym EvidenceStore = "(GoalRunId \<times> EvidenceId, EvidenceRecord) dict"

definition persist :: "EvidenceStore \<Rightarrow> EvidenceRecord \<Rightarrow> EvidenceStore result" where
  "persist s r =
     (if dget s (ev_runId r, ev_id r) \<noteq> None then Inl (failure DUPLICATE) else Inr (dput (ev_runId r, ev_id r) r s))"

definition compareEvidence :: "EvidenceRecord \<Rightarrow> EvidenceRecord \<Rightarrow> rat" where
  "compareEvidence a b =
     (if ev_createdAt a < ev_createdAt b then -1 else if ev_createdAt a > ev_createdAt b then 1
      else if ev_id a < ev_id b then -1 else 1)"

definition listEvidence :: "EvidenceStore \<Rightarrow> GoalRunId \<Rightarrow> TargetId option \<Rightarrow> EvidenceRecord list" where
  "listEvidence s runId targetId =
     sort_by compareEvidence
       (filter (\<lambda>e. targetId = None \<or> targetId = Some (ev_targetId e))
         (filter (\<lambda>e. ev_id e \<noteq> [] \<and> ev_runId e = runId) (map snd (filter (\<lambda>((r, _), _). r = runId) s))))"

definition verify :: "artifact_reader \<Rightarrow> (json \<Rightarrow> string \<Rightarrow> VerificationVerdict) \<Rightarrow> (string \<Rightarrow> int \<Rightarrow> CheckRunResult)
    \<Rightarrow> (nat \<Rightarrow> EvidenceRecord \<Rightarrow> EvidenceId) \<Rightarrow> (nat \<Rightarrow> timestamp) \<Rightarrow> VerifyInput \<Rightarrow> EvidenceStore
    \<Rightarrow> (EvidenceRecord list \<times> EvidenceStore) result" where
  "verify read schemaVerdict runner newId clock vi s =
     (if at_runId (vi_attempt vi) \<noteq> r_runId (vi_run vi) \<or> at_targetId (vi_attempt vi) \<noteq> t_id (vi_target vi)
      then Inl (failure VALIDATION)
      else if trim (vi_executorIdentity vi) = [] then Inl (failure VALIDATION)
      else let records = numbered_records newId clock (verify_records read schemaVerdict runner vi)
           in bindE (foldE persist s records) (\<lambda>s'. Inr (records, s')))"

definition gateCurrent :: "GateOptions \<Rightarrow> GoalRunLedger \<Rightarrow> GoalTarget \<Rightarrow> TargetAttempt \<Rightarrow> WorkspaceState \<Rightarrow> string option
    \<Rightarrow> EvidenceStore \<Rightarrow> AcceptanceGateDecision result" where
  "gateCurrent options run target attempt current executorIdentity s =
     evaluateGate options \<lparr>gi_run = run, gi_target = target, gi_attempt = attempt,
       gi_evidence = listEvidence s (r_runId run) (Some (t_id target)), gi_current = Some current,
       gi_executorIdentity = executorIdentity\<rparr>"

subsection \<open>Signoffs\<close>

record SignoffInput =
  so_runId :: GoalRunId
  so_targetId :: TargetId
  so_attemptId :: "TargetAttemptId option"
  so_principal :: string
  so_verdict :: VerificationVerdict
  so_method :: "string option"
  so_source :: "string option"
  so_workspaceRevision :: "string option"
  so_criteria :: "string list"

definition signoff_record :: "SignoffInput \<Rightarrow> string \<Rightarrow> EvidenceRecord \<Rightarrow> WorkspaceState \<Rightarrow> timestamp \<Rightarrow> string option \<Rightarrow> EvidenceRecord" where
  "signoff_record inp method latest ref now criterion =
     \<lparr>ev_id = [], ev_runId = so_runId inp, ev_targetId = so_targetId inp, ev_attemptId = ev_attemptId latest,
      ev_graphRevision = ev_graphRevision latest, ev_workspaceRevision = ws_workspaceRevision ref, ev_artifacts = ws_artifacts ref,
      ev_validationMethod = method, ev_validatorIdentity = ''user:'' @ so_principal inp,
      ev_executorIdentity = ev_executorIdentity latest, ev_verdict = so_verdict inp, ev_criterion = criterion, ev_command = None,
      ev_exitCode = None, ev_outputExcerpt = None,
      ev_limitations = [if method = ''external-record'' then ''operator-attested external record''
                        else ''human judgement bound to the verified artifact digests''],
      ev_createdAt = now\<rparr>"

definition recordSignoff :: "(nat \<Rightarrow> EvidenceRecord \<Rightarrow> EvidenceId) \<Rightarrow> timestamp \<Rightarrow> SignoffInput \<Rightarrow> EvidenceStore
    \<Rightarrow> (EvidenceRecord list \<times> EvidenceStore) result" where
  "recordSignoff newId now inp s =
     (if trim (so_principal inp) = [] then Inl (failure UNAUTHORIZED)
      else if so_verdict inp \<noteq> PASS \<and> so_verdict inp \<noteq> FAIL then Inl (failure VALIDATION)
      else let method = (case so_method inp of Some m \<Rightarrow> m | None \<Rightarrow> ''human-signoff'') in
      if method \<noteq> ''human-signoff'' \<and> method \<noteq> ''external-record'' then Inl (failure VALIDATION)
      else if method = ''external-record'' \<and> blank (so_source inp) then Inl (failure VALIDATION)
      else let all = listEvidence s (so_runId inp) (Some (so_targetId inp));
               checksums = filter (\<lambda>e. ev_validationMethod e = ''checksum'' \<and>
                             (so_attemptId inp = None \<or> so_attemptId inp = Some (ev_attemptId e))) all in
      if checksums = [] then Inl (failure VALIDATION)
      else let latest = last checksums in
      case referenceState all (ev_attemptId latest) of
        None \<Rightarrow> Inl (failure VALIDATION)
      | Some ref \<Rightarrow>
          if so_workspaceRevision inp \<noteq> None \<and> so_workspaceRevision inp \<noteq> Some (ws_workspaceRevision ref) then Inl (failure VALIDATION)
          else if ''user:'' @ so_principal inp = ev_executorIdentity latest \<or> so_principal inp = ev_executorIdentity latest
          then Inl (failure FORBIDDEN)
          else let criteria = uniq (so_criteria inp) in
          if \<exists>c \<in> set criteria. trim c = [] then Inl (failure VALIDATION)
          else let records = map (\<lambda>(i, r). r\<lparr>ev_id := newId i r\<rparr>)
                     (enumerate 1 (map (signoff_record inp method latest ref now) (if criteria = [] then [None] else map Some criteria)))
               in bindE (foldE persist s records) (\<lambda>s'. Inr (records, s')))"

subsection \<open>What a verification records\<close>

lemma make_fields [simp]:
  "ev_criterion (make_evidence vi m v c l val b) = c" "ev_validatorIdentity (make_evidence vi m v c l val b) = val"
  "ev_executorIdentity (make_evidence vi m v c l val b) = vi_executorIdentity vi" "ev_validationMethod (make_evidence vi m v c l val b) = m"
  "ev_workspaceRevision (make_evidence vi m v c l val b) = ws_workspaceRevision b" "ev_artifacts (make_evidence vi m v c l val b) = ws_artifacts b"
  "ev_runId (make_evidence vi m v c l val b) = r_runId (vi_run vi)" "ev_targetId (make_evidence vi m v c l val b) = t_id (vi_target vi)"
  "ev_attemptId (make_evidence vi m v c l val b) = at_id (vi_attempt vi)" "ev_graphRevision (make_evidence vi m v c l val b) = r_graphRevision (vi_run vi)"
  by (simp_all add: make_evidence_def Let_def)

lemma make_no_self_pass: "ev_verdict (make_evidence vi m v c l val b) = PASS \<Longrightarrow> val \<noteq> vi_executorIdentity vi"
  by (auto simp: make_evidence_def Let_def split: if_splits)

lemma make_FAIL [simp]: "ev_verdict (make_evidence vi m FAIL c l val b) = FAIL"
  by (simp add: make_evidence_def Let_def)

definition no_self_pass :: "EvidenceRecord \<Rightarrow> bool" where
  "no_self_pass r \<longleftrightarrow> (ev_verdict r = PASS \<longrightarrow> ev_validatorIdentity r \<noteq> ev_executorIdentity r)"

lemma no_self_pass_make [simp]: "no_self_pass (make_evidence vi m v c l val b)"
  using make_no_self_pass by (auto simp: no_self_pass_def)

lemma no_self_pass_command [simp]:
  "no_self_pass (r\<lparr>ev_command := x\<rparr>) = no_self_pass r" "no_self_pass (r\<lparr>ev_command := x, ev_exitCode := y\<rparr>) = no_self_pass r"
  by (simp_all add: no_self_pass_def)

lemma checksum_no_self_pass: "r \<in> set (checksum_records vi) \<Longrightarrow> no_self_pass r"
  by (auto simp: checksum_records_def Let_def split: option.splits list.splits if_splits)

lemma check_no_self_pass [simp]: "no_self_pass (check_record read sv runner vi check)"
  by (simp add: check_record_def Let_def)

lemma mutation_no_self_pass: "r \<in> set (mutation_records vi) \<Longrightarrow> no_self_pass r"
  by (simp add: mutation_records_def split: if_splits)

lemma finding_no_self_pass [simp]: "no_self_pass (finding_record vi i f)"
  by (simp add: finding_record_def Let_def)

lemma review_no_self_pass:
  assumes "r \<in> set (review_records vi)"
  shows "no_self_pass r"
proof (cases "vi_review vi")
  case (Some rv)
  show ?thesis
  proof (cases "rv_answer rv")
    case (Inr answer)
    then show ?thesis using assms Some by (cases answer) (auto simp: review_records_def)
  qed (use assms Some in \<open>simp add: review_records_def\<close>)
qed (use assms in \<open>simp add: review_records_def\<close>)

lemma verify_records_no_self_pass:
  assumes "r \<in> set (verify_records read sv runner vi)"
  shows "no_self_pass r"
proof -
  from assms consider "r \<in> set (checksum_records vi)" | "r \<in> check_record read sv runner vi ` set (vi_checks vi)"
    | "r \<in> set (mutation_records vi)" | "r \<in> set (review_records vi)" | records covered where "r \<in> set (coverage_records vi records covered)"
    unfolding verify_records_def Let_def by auto
  then show ?thesis
  proof cases
    case 5
    then show ?thesis by (auto simp: coverage_records_def)
  qed (auto intro: checksum_no_self_pass mutation_no_self_pass review_no_self_pass)
qed

lemma check_record_criterion:
  "resolveCriterion (t_acceptance (vi_target vi)) (dc_criterion check) = Some c \<Longrightarrow> ev_criterion (check_record read sv runner vi check) = Some c"
  by (simp add: check_record_def Let_def)

lemma verify_records_cover:
  assumes "c \<in> set (t_acceptance (vi_target vi))"
  shows "\<exists>r \<in> set (verify_records read sv runner vi). ev_criterion r = Some c"
proof -
  let ?checks = "map (check_record read sv runner vi) (vi_checks vi)"
  let ?records = "checksum_records vi @ ?checks @ mutation_records vi @ review_records vi"
  let ?covered = "List.map_filter (\<lambda>c. resolveCriterion (t_acceptance (vi_target vi)) (dc_criterion c)) (vi_checks vi)"
  have covered: "\<exists>r \<in> set ?checks. ev_criterion r = Some c" if "c \<in> set ?covered"
  proof -
    from that obtain check where "check \<in> set (vi_checks vi)" "resolveCriterion (t_acceptance (vi_target vi)) (dc_criterion check) = Some c"
      by (auto simp: List.map_filter_def)
    then show ?thesis using check_record_criterion by force
  qed
  show ?thesis
  proof (cases "c \<in> set ?covered \<or> (\<exists>r \<in> set ?records. ev_criterion r = Some c)")
    case True
    with covered show ?thesis unfolding verify_records_def Let_def set_append by blast
  next
    case False
    with assms have "c \<in> set (filter (\<lambda>c. c \<notin> set ?covered \<and> \<not> (\<exists>r \<in> set ?records. ev_criterion r = Some c)) (uniq (t_acceptance (vi_target vi))))"
      by simp
    then have "\<exists>r \<in> set (coverage_records vi ?records ?covered). ev_criterion r = Some c"
      unfolding coverage_records_def set_map by force
    then show ?thesis unfolding verify_records_def Let_def set_append by blast
  qed
qed

lemma numbered_records_mem:
  "r \<in> set (numbered_records newId clock rs) \<Longrightarrow> \<exists>r0 \<in> set rs. \<exists>i t. r = r0\<lparr>ev_createdAt := t, ev_id := i\<rparr>"
proof -
  assume "r \<in> set (numbered_records newId clock rs)"
  then obtain i r0 where r0: "(i, r0) \<in> set (enumerate 1 rs)" and r: "r = r0\<lparr>ev_createdAt := clock i, ev_id := newId i (r0\<lparr>ev_createdAt := clock i\<rparr>)\<rparr>"
    by (auto simp: numbered_records_def Let_def)
  from r0 have "r0 \<in> set rs" by (auto simp: in_set_enumerate_eq intro!: nth_mem)
  with r show ?thesis by blast
qed

lemma numbered_records_cover:
  assumes "r0 \<in> set rs"
  shows "\<exists>r \<in> set (numbered_records newId clock rs). \<exists>i t. r = r0\<lparr>ev_createdAt := t, ev_id := i\<rparr>"
proof -
  from assms obtain n where n: "n < length rs" "rs ! n = r0" by (auto simp: in_set_conv_nth)
  then have "(1 + n, r0) \<in> set (enumerate 1 rs)" by (auto simp: in_set_enumerate_eq)
  then show ?thesis unfolding numbered_records_def by (force simp: Let_def)
qed

lemma verify_Inr:
  assumes "verify read sv runner newId clock vi s = Inr (records, s')"
  shows "records = numbered_records newId clock (verify_records read sv runner vi)" "foldE persist s records = Inr s'"
    "at_runId (vi_attempt vi) = r_runId (vi_run vi)" "at_targetId (vi_attempt vi) = t_id (vi_target vi)"
  using assms by (auto simp: verify_def Let_def result_simps split: if_splits)

text \<open>
  A verification never vouches for the executor and leaves nothing out: no record it makes is a
  PASS by the executor itself, and every acceptance criterion has at least one record.
\<close>

theorem verify_is_independent_and_complete:
  assumes "verify read sv runner newId clock vi s = Inr (records, s')"
  shows "(\<forall>r \<in> set records. ev_verdict r = PASS \<longrightarrow> ev_validatorIdentity r \<noteq> ev_executorIdentity r) \<and>
     (\<forall>c \<in> set (t_acceptance (vi_target vi)). \<exists>r \<in> set records. ev_criterion r = Some c)"
proof (intro conjI ballI)
  note records = verify_Inr(1) [OF assms]
  fix r assume "r \<in> set records"
  then obtain r0 i t where "r0 \<in> set (verify_records read sv runner vi)" "r = r0\<lparr>ev_createdAt := t, ev_id := i\<rparr>"
    using numbered_records_mem unfolding records by blast
  then show "ev_verdict r = PASS \<longrightarrow> ev_validatorIdentity r \<noteq> ev_executorIdentity r"
    using verify_records_no_self_pass by (auto simp: no_self_pass_def)
next
  note records = verify_Inr(1) [OF assms]
  fix c assume "c \<in> set (t_acceptance (vi_target vi))"
  then obtain r0 where "r0 \<in> set (verify_records read sv runner vi)" "ev_criterion r0 = Some c"
    using verify_records_cover by blast
  moreover from numbered_records_cover [OF this(1), of newId clock] obtain r i t where
    "r \<in> set records" "r = r0\<lparr>ev_createdAt := t, ev_id := i\<rparr>" unfolding records by blast
  ultimately show "\<exists>r \<in> set records. ev_criterion r = Some c" by (intro bexI [of _ r]) simp_all
qed

text \<open>Evidence is append-only.\<close>

lemma persist_keeps: "persist s r = Inr s' \<Longrightarrow> dget s k = Some e \<Longrightarrow> dget s' k = Some e"
  by (auto simp: persist_def split: if_splits)

lemma persist_all:
  assumes "foldE persist s rs = Inr s'"
  shows "(dget s k = Some e \<longrightarrow> dget s' k = Some e) \<and> (\<forall>r \<in> set rs. dget s' (ev_runId r, ev_id r) = Some r)"
  using assms
proof (induction rs arbitrary: s k e)
  case (Cons r rs)
  then obtain s1 where s1: "persist s r = Inr s1" and rest: "foldE persist s1 rs = Inr s'" by (auto simp: bindE_Inr)
  have "dget s1 (ev_runId r, ev_id r) = Some r" using s1 by (auto simp: persist_def split: if_splits)
  with Cons.IH [OF rest] persist_keeps [OF s1] show ?case by auto
qed simp

lemma listEvidence_mem:
  "dget s (runId, i) = Some e \<Longrightarrow> ev_runId e = runId \<Longrightarrow> ev_id e \<noteq> [] \<Longrightarrow> ev_targetId e = t \<Longrightarrow>
     e \<in> set (listEvidence s runId (Some t))"
  by (force simp: listEvidence_def dest: map_of_SomeD)

lemma artifact_map_other: "u \<notin> ar_uri ` set as \<Longrightarrow> dget (artifact_map as m) u = dget m u"
  unfolding artifact_map_def by (induction as arbitrary: m) auto

lemma artifact_map_self:
  "distinct (map ar_uri as) \<Longrightarrow> a \<in> set as \<Longrightarrow> dget (artifact_map as m) (ar_uri a) = Some a"
proof (induction as arbitrary: m)
  case (Cons b as)
  show ?case
  proof (cases "a = b")
    case True
    then have "ar_uri a \<notin> ar_uri ` set as" using Cons.prems by auto
    from artifact_map_other [OF this, of "dput (ar_uri b) b m"] True show ?thesis by (simp add: artifact_map_def)
  qed (use Cons in \<open>auto simp: artifact_map_def\<close>)
qed simp

lemma isFresh_own_state: "ev_workspaceRevision e = ws_workspaceRevision w \<Longrightarrow> ev_artifacts e = ws_artifacts w \<Longrightarrow>
    distinct (map ar_uri (ws_artifacts w)) \<Longrightarrow> isFresh e w"
  by (auto simp: isFresh_def Let_def list_all_iff artifact_map_self)

lemma fresh_FAIL_not_completed:
  assumes "evaluateGate options inp = Inr d" and "e \<in> set (gate_fresh inp)" and "ev_verdict e = FAIL"
  shows "gd_decision d \<noteq> GCompleted"
  using assms gate_decision_completed [OF assms(1)] by (auto simp: gate_accepts_def Let_def)

text \<open>
  Checks that change what they check are caught: when the artifacts differ after the checks ran,
  no gate decision over the stored evidence and the new state completes the target.
\<close>

theorem mutating_checks_never_complete:
  assumes ver: "verify read sv runner newId clock vi s = Inr (records, s')" and ids: "\<And>i r. newId i r \<noteq> []"
    and changed: "ws_workspaceRevision (vi_after vi) \<noteq> ws_workspaceRevision (vi_before vi)"
    and distinct: "distinct (map ar_uri (ws_artifacts (vi_after vi)))"
    and gate: "gateCurrent options (vi_run vi) (vi_target vi) (vi_attempt vi) (vi_after vi) ex s' = Inr d"
  shows "gd_decision d \<noteq> GCompleted"
proof -
  let ?m = "make_evidence vi ''checksum'' FAIL None [''artifacts mutated while checks ran''] (vi_validator vi) (vi_after vi)"
  have "?m \<in> set (verify_records read sv runner vi)" using changed by (simp add: verify_records_def mutation_records_def Let_def)
  then obtain r i t where r: "r \<in> set records" "r = ?m\<lparr>ev_createdAt := t, ev_id := i\<rparr>"
    using numbered_records_cover unfolding verify_Inr(1) [OF ver] by blast
  have "ev_id r \<noteq> []" using r(1) ids unfolding verify_Inr(1) [OF ver] numbered_records_def by (auto simp: Let_def)
  moreover have "dget s' (ev_runId r, ev_id r) = Some r" using persist_all [OF verify_Inr(2) [OF ver]] r(1) by blast
  ultimately have mem: "r \<in> set (listEvidence s' (r_runId (vi_run vi)) (Some (t_id (vi_target vi))))"
    using r(2) by (intro listEvidence_mem) simp_all
  have "isFresh r (vi_after vi)" using r(2) distinct by (intro isFresh_own_state) simp_all
  with mem r(2) show ?thesis
    by (intro fresh_FAIL_not_completed [OF gate [unfolded gateCurrent_def], of r])
      (simp_all add: gate_fresh_def gate_ref_def gate_considered_def gate_scoped_def)
qed

lemma recordSignoff_Inr:
  assumes "recordSignoff newId now inp s = Inr (records, s')"
  defines "all \<equiv> listEvidence s (so_runId inp) (Some (so_targetId inp))"
  defines "cks \<equiv> filter (\<lambda>e. ev_validationMethod e = ''checksum'' \<and> (so_attemptId inp = None \<or> so_attemptId inp = Some (ev_attemptId e))) all"
  obtains ref meth cs where "referenceState all (ev_attemptId (last cks)) = Some ref" and "cks \<noteq> []"
    and "''user:'' @ so_principal inp \<noteq> ev_executorIdentity (last cks)"
    and "records = map (\<lambda>(i, r). r\<lparr>ev_id := newId i r\<rparr>) (enumerate 1 (map (signoff_record inp meth (last cks) ref now) cs))"
    and "foldE persist s records = Inr s'"
proof (cases "referenceState all (ev_attemptId (last cks))")
  case None
  then have False using assms(1) unfolding recordSignoff_def Let_def all_def [symmetric] cks_def [symmetric]
    by (simp add: throw_Inr)
  then show thesis by blast
next
  case (Some ref)
  have "recordSignoff newId now inp s = Inr (records, s')" by fact
  then show thesis unfolding recordSignoff_def Let_def all_def [symmetric] cks_def [symmetric] Some option.case throw_Inr bindE_Inr
    by (elim conjE exE) (rule that [OF Some, of _ "if uniq (so_criteria inp) = [] then [None] else map Some (uniq (so_criteria inp))"],
        assumption, simp, rule sym, simp_all)
qed

text \<open>
  A signoff binds a person to what was verified: every record it makes names the signing user, is
  bound to the attempt, the graph revision and the reference revision of the latest checksum on
  record, and is never made by the executor of that attempt.
\<close>

theorem signoff_is_bound_and_independent:
  assumes "recordSignoff newId now inp s = Inr (records, s')" and "r \<in> set records"
  shows "\<exists>latest ref. latest \<in> set (listEvidence s (so_runId inp) (Some (so_targetId inp))) \<and> ev_validationMethod latest = ''checksum'' \<and>
     referenceState (listEvidence s (so_runId inp) (Some (so_targetId inp))) (ev_attemptId latest) = Some ref \<and>
     ev_attemptId r = ev_attemptId latest \<and> ev_graphRevision r = ev_graphRevision latest \<and>
     ev_workspaceRevision r = ws_workspaceRevision ref \<and> ev_artifacts r = ws_artifacts ref \<and>
     ev_validatorIdentity r = ''user:'' @ so_principal inp \<and> ev_executorIdentity r = ev_executorIdentity latest \<and>
     ev_validatorIdentity r \<noteq> ev_executorIdentity r \<and> dget s' (ev_runId r, ev_id r) = Some r"
proof -
  let ?all = "listEvidence s (so_runId inp) (Some (so_targetId inp))"
  let ?cs = "filter (\<lambda>e. ev_validationMethod e = ''checksum'' \<and> (so_attemptId inp = None \<or> so_attemptId inp = Some (ev_attemptId e))) ?all"
  from assms(1) obtain ref meth cs where ref: "referenceState ?all (ev_attemptId (last ?cs)) = Some ref" and ne: "?cs \<noteq> []"
    and user: "''user:'' @ so_principal inp \<noteq> ev_executorIdentity (last ?cs)"
    and recs: "records = map (\<lambda>(i, r). r\<lparr>ev_id := newId i r\<rparr>) (enumerate 1 (map (signoff_record inp meth (last ?cs) ref now) cs))"
    and store: "foldE persist s records = Inr s'"
    by (rule recordSignoff_Inr)
  have "last ?cs \<in> set ?cs" using ne by (rule last_in_set)
  moreover from assms(2) obtain i c where "r = (signoff_record inp meth (last ?cs) ref now c)\<lparr>ev_id := i\<rparr>"
    unfolding recs by (auto simp: in_set_enumerate_eq)
  moreover have "dget s' (ev_runId r, ev_id r) = Some r" using persist_all [OF store] assms(2) by blast
  ultimately show ?thesis using ref user
    by (intro exI [of _ "last ?cs"] exI [of _ ref]) (simp add: signoff_record_def)
qed

subsection \<open>A concrete verification\<close>

definition sample_check :: DeclaredCheck where
  "sample_check = \<lparr>dc_id = ''unit'', dc_kind = CkCommand, dc_criterion = Some ''#1'', dc_command = Some ''npm test'', dc_testSuite = True,
     dc_artifact = None, dc_schema = None, dc_pattern = None, dc_timeoutMs = None\<rparr>"

definition sample_verify :: "WorkspaceState \<Rightarrow> VerifyInput" where
  "sample_verify after = \<lparr>vi_run = gi_run (sample_gate [] ''docs/x.md''), vi_target = gi_target (sample_gate [] ''docs/x.md''),
     vi_attempt = gi_attempt (sample_gate [] ''docs/x.md''), vi_executorIdentity = ''agent:x'', vi_validator = ''verifier:wazir-deterministic'',
     vi_before = sample_ref, vi_after = after, vi_checks = [sample_check], vi_review = None\<rparr>"

definition sample_runner :: "string \<Rightarrow> int \<Rightarrow> CheckRunResult" where
  "sample_runner command timeout = \<lparr>cr_exitCode = 0, cr_timedOut = False, cr_sandbox = ''bwrap'', cr_error = None\<rparr>"

definition sample_newId :: "nat \<Rightarrow> EvidenceRecord \<Rightarrow> EvidenceId" where
  "sample_newId i r = ''ev-'' @ show_nat i"

definition sample_clock :: "nat \<Rightarrow> timestamp" where
  "sample_clock i = int i"

definition run_sample_verify :: "WorkspaceState \<Rightarrow> (EvidenceRecord list \<times> EvidenceStore) result" where
  "run_sample_verify after = verify (\<lambda>_. Inl ''no file'') (\<lambda>_ _. UNKNOWN) sample_runner sample_newId sample_clock (sample_verify after) []"

definition changed_ref :: WorkspaceState where
  "changed_ref = sample_ref\<lparr>ws_workspaceRevision := ''content:2''\<rparr>"

theorem verify_is_independent_and_complete_witness:
  "\<exists>records s'. run_sample_verify sample_ref = Inr (records, s') \<and> (\<exists>r \<in> set records. ev_criterion r = Some ''tests pass'')"
proof -
  have "isOk (run_sample_verify sample_ref)" by code_simp
  then obtain records s' where v: "run_sample_verify sample_ref = Inr (records, s')" by (auto simp: isOk_iff)
  have "''tests pass'' \<in> set (t_acceptance (vi_target (sample_verify sample_ref)))" by (simp add: sample_verify_def sample_gate_def)
  with verify_is_independent_and_complete [OF v [unfolded run_sample_verify_def]] v show ?thesis by blast
qed

theorem mutating_checks_never_complete_witness:
  "\<exists>records s' d. run_sample_verify changed_ref = Inr (records, s') \<and>
     gateCurrent \<lparr>go_acceptReviewerPass = False\<rparr> (vi_run (sample_verify changed_ref)) (vi_target (sample_verify changed_ref))
       (vi_attempt (sample_verify changed_ref)) changed_ref None s' = Inr d \<and> gd_decision d \<noteq> GCompleted"
proof -
  let ?o = "\<lparr>go_acceptReviewerPass = False\<rparr>" and ?v = "sample_verify changed_ref"
  have "(case run_sample_verify changed_ref of Inl e \<Rightarrow> False
      | Inr (records, s') \<Rightarrow> isOk (gateCurrent ?o (vi_run ?v) (vi_target ?v) (vi_attempt ?v) changed_ref None s'))" by code_simp
  then obtain records s' d where v: "run_sample_verify changed_ref = Inr (records, s')"
    and d: "gateCurrent ?o (vi_run ?v) (vi_target ?v) (vi_attempt ?v) changed_ref None s' = Inr d"
    by (auto simp: isOk_iff split: sum.splits)
  have after: "vi_after ?v = changed_ref" "ws_workspaceRevision (vi_after ?v) \<noteq> ws_workspaceRevision (vi_before ?v)"
    "distinct (map ar_uri (ws_artifacts (vi_after ?v)))"
    by (simp_all add: sample_verify_def changed_ref_def sample_ref_def)
  have "gd_decision d \<noteq> GCompleted"
    by (rule mutating_checks_never_complete [OF v [unfolded run_sample_verify_def] _ after(2,3), of ?o None])
      (simp_all add: sample_newId_def d after(1))
  with v d show ?thesis by blast
qed

definition sample_signoff :: SignoffInput where
  "sample_signoff = \<lparr>so_runId = ''run-1'', so_targetId = ''A'', so_attemptId = None, so_principal = ''ann'', so_verdict = PASS,
     so_method = None, so_source = None, so_workspaceRevision = None, so_criteria = [''#1'']\<rparr>"

definition sample_signoff_run :: "(EvidenceRecord list \<times> EvidenceStore) result" where
  "sample_signoff_run = bindE (run_sample_verify sample_ref) (\<lambda>(_, s). recordSignoff (\<lambda>i r. ''so-'' @ show_nat i) 50 sample_signoff s)"

theorem signoff_is_bound_and_independent_witness:
  "\<exists>s records s' r. recordSignoff (\<lambda>i r. ''so-'' @ show_nat i) 50 sample_signoff s = Inr (records, s') \<and> r \<in> set records \<and>
     ev_validatorIdentity r = ''user:ann''"
proof -
  have "(case sample_signoff_run of Inl e \<Rightarrow> False | Inr (records, _) \<Rightarrow> records \<noteq> [])" by code_simp
  then obtain s records s' where v: "recordSignoff (\<lambda>i r. ''so-'' @ show_nat i) 50 sample_signoff s = Inr (records, s')" and "records \<noteq> []"
    by (auto simp: sample_signoff_run_def bindE_def split: sum.splits)
  then obtain r where r: "r \<in> set records" by (cases records) auto
  have "so_principal sample_signoff = ''ann''" by (simp add: sample_signoff_def)
  with signoff_is_bound_and_independent [OF v r] v r show ?thesis by auto
qed

end
