(* ===== verification/Graph_Cycles.thy ===== *)
theory Graph_Cycles
  imports Eligibility "HOL-Library.Sublist"
begin

text \<open>
  The cycle search of \<open>src/packages/goals/src/graph/validation.ts\<close> (\<open>findCycles\<close>): Tarjan's strongly
  connected components with an explicit work stack, then a breadth-first search for one path per
  component. The state of the iteration is a record, one turn of the inner \<open>while\<close> is \<open>tarjan_step\<close>, and the
  loop is a function that terminates. \<open>localeCompare\<close>, which only orders the reported cycles, is a
  parameter.

  The lemmas show that the search reports a cycle exactly when the dependency relation, without
  self-dependencies and unknown targets, has one.
\<close>

subsection \<open>The search for components\<close>

type_synonym deps_map = "(TargetId, TargetId list) dict"

definition edges_of :: "deps_map \<Rightarrow> TargetId \<Rightarrow> TargetId list" where
  "edges_of deps v = (case dget deps v of Some es \<Rightarrow> es | None \<Rightarrow> [])"

definition deps_map_of :: "(TargetId \<times> TargetId list) list \<Rightarrow> deps_map" where
  "deps_map_of targets =
     fold (\<lambda>(i, ds) m. dput i (filter (\<lambda>d. d \<noteq> i \<and> d \<in> fst ` set targets) ds) m) targets []"

record Tarjan =
  tj_counter :: nat
  tj_index :: "(TargetId, nat) dict"
  tj_low :: "(TargetId, nat) dict"
  tj_onStack :: "TargetId list"
  tj_stack :: "TargetId list"
  tj_work :: "(TargetId \<times> nat) list"
  tj_components :: "TargetId list list"

definition num :: "(TargetId, nat) dict \<Rightarrow> TargetId \<Rightarrow> nat" where
  "num d v = (case dget d v of Some n \<Rightarrow> n | None \<Rightarrow> 0)"

definition tarjan_visit :: "TargetId \<Rightarrow> Tarjan \<Rightarrow> Tarjan" where
  "tarjan_visit v s = s\<lparr>tj_counter := Suc (tj_counter s), tj_index := dput v (tj_counter s) (tj_index s),
     tj_low := dput v (tj_counter s) (tj_low s), tj_onStack := v # tj_onStack s, tj_stack := v # tj_stack s,
     tj_work := (v, 0) # tj_work s\<rparr>"

text \<open>The stacks have their top first. The inner \<open>do\<close> loop pops down to the node of the frame.\<close>

fun pop_component :: "TargetId \<Rightarrow> TargetId list \<Rightarrow> TargetId list \<Rightarrow> TargetId list \<Rightarrow> TargetId list \<times> TargetId list \<times> TargetId list" where
  "pop_component v [] onStack popped = ([], onStack, popped)"
| "pop_component v (n # stack) onStack popped =
     (if n = v then (stack, removeAll n onStack, popped @ [n]) else pop_component v stack (removeAll n onStack) (popped @ [n]))"

definition tarjan_close :: "TargetId \<Rightarrow> Tarjan \<Rightarrow> Tarjan" where
  "tarjan_close v s =
     (if num (tj_low s) v = num (tj_index s) v
      then (case pop_component v (tj_stack s) (tj_onStack s) [] of
              (stack, onStack, popped) \<Rightarrow>
                s\<lparr>tj_stack := stack, tj_onStack := onStack,
                  tj_components := (if length popped > 1 then tj_components s @ [popped] else tj_components s)\<rparr>)
      else s)"

definition tarjan_step :: "deps_map \<Rightarrow> Tarjan \<Rightarrow> Tarjan" where
  "tarjan_step deps s =
     (case tj_work s of
        [] \<Rightarrow> s
      | (v, i) # rest \<Rightarrow>
          (let edges = edges_of deps v in
           if i < length edges
           then let next = edges ! i; s1 = s\<lparr>tj_work := (v, Suc i) # rest\<rparr> in
                if next \<notin> set (dkeys (tj_index s)) then tarjan_visit next s1
                else if next \<in> set (tj_onStack s)
                then s1\<lparr>tj_low := dput v (min (num (tj_low s) v) (num (tj_index s) next)) (tj_low s)\<rparr>
                else s1
           else tarjan_close v
                  (case rest of
                     [] \<Rightarrow> s\<lparr>tj_work := rest\<rparr>
                   | (parent, _) # _ \<Rightarrow>
                       s\<lparr>tj_low := dput parent (min (num (tj_low s) parent) (num (tj_low s) v)) (tj_low s), tj_work := rest\<rparr>)))"

definition deps_universe :: "deps_map \<Rightarrow> TargetId set" where
  "deps_universe deps = (\<Union>(v, es) \<in> set deps. set es)"

definition work_left :: "deps_map \<Rightarrow> (TargetId \<times> nat) list \<Rightarrow> nat" where
  "work_left deps work = sum_list (map (\<lambda>(v, i). Suc (length (edges_of deps v) - i)) work)"

lemma finite_deps_universe [simp]: "finite (deps_universe deps)"
  by (auto simp: deps_universe_def)

lemma edges_of_universe: "w \<in> set (edges_of deps v) \<Longrightarrow> w \<in> deps_universe deps"
  unfolding edges_of_def deps_universe_def
  by (cases "dget deps v") (force dest: map_of_SomeD)+

lemma tarjan_close_simps [simp]:
  "tj_work (tarjan_close v s) = tj_work s" "tj_index (tarjan_close v s) = tj_index s" "tj_low (tarjan_close v s) = tj_low s"
  "tj_counter (tarjan_close v s) = tj_counter s"
  by (simp_all add: tarjan_close_def split: prod.splits)

lemma tarjan_visit_simps [simp]:
  "tj_work (tarjan_visit v s) = (v, 0) # tj_work s" "tj_index (tarjan_visit v s) = dput v (tj_counter s) (tj_index s)"
  "tj_low (tarjan_visit v s) = dput v (tj_counter s) (tj_low s)" "tj_stack (tarjan_visit v s) = v # tj_stack s"
  "tj_onStack (tarjan_visit v s) = v # tj_onStack s" "tj_components (tarjan_visit v s) = tj_components s"
  "tj_counter (tarjan_visit v s) = Suc (tj_counter s)"
  by (simp_all add: tarjan_visit_def)

lemma num_dput [simp]: "num (dput k n d) v = (if v = k then n else num d v)"
  by (simp add: num_def)

lemma indexed_dput [simp]: "fst ` set (dput k v d) = insert k (fst ` set d)"
  using dput_set_keys [of k v d] by simp

text \<open>One turn visits a new node or comes closer to emptying the work stack.\<close>

lemma tarjan_step_decreases:
  assumes "tj_work s \<noteq> []"
  shows "(tarjan_step deps s, s) \<in> measures [\<lambda>s. card (deps_universe deps - set (dkeys (tj_index s))), \<lambda>s. work_left deps (tj_work s)]"
proof -
  obtain v i rest where w: "tj_work s = (v, i) # rest" using assms by (cases "tj_work s") auto
  show ?thesis
  proof (cases "i < length (edges_of deps v)")
    case True
    then have left: "work_left deps ((v, Suc i) # rest) < work_left deps ((v, i) # rest)" by (simp add: work_left_def)
    let ?next = "edges_of deps v ! i"
    have "?next \<in> deps_universe deps" using True by (intro edges_of_universe [of _ _ v]) simp
    then have "card (deps_universe deps - insert ?next (set (dkeys (tj_index s)))) < card (deps_universe deps - set (dkeys (tj_index s)))"
      if "?next \<notin> set (dkeys (tj_index s))" using that by (intro psubset_card_mono) auto
    with True left show ?thesis by (simp add: tarjan_step_def w Let_def)
  next
    case False
    then have "work_left deps rest < work_left deps ((v, i) # rest)" by (simp add: work_left_def)
    with False show ?thesis by (auto simp: tarjan_step_def w Let_def split: list.splits prod.splits)
  qed
qed

function tarjan_loop :: "deps_map \<Rightarrow> Tarjan \<Rightarrow> Tarjan" where
  "tarjan_loop deps s = (if tj_work s = [] then s else tarjan_loop deps (tarjan_step deps s))"
  by pat_completeness auto
termination
  by (relation "measures [\<lambda>(deps, s). card (deps_universe deps - set (dkeys (tj_index s))), \<lambda>(deps, s). work_left deps (tj_work s)]")
    (use tarjan_step_decreases in auto)

declare tarjan_loop.simps [simp del]

definition initial_tarjan :: Tarjan where
  "initial_tarjan = \<lparr>tj_counter = 0, tj_index = [], tj_low = [], tj_onStack = [], tj_stack = [], tj_work = [], tj_components = []\<rparr>"

definition tarjan_root :: "deps_map \<Rightarrow> TargetId \<Rightarrow> Tarjan \<Rightarrow> Tarjan" where
  "tarjan_root deps r s =
     (if r \<in> set (dkeys (tj_index s)) then s else tarjan_loop deps (tarjan_visit r s))"

definition tarjan :: "deps_map \<Rightarrow> TargetId list \<Rightarrow> Tarjan" where
  "tarjan deps order = fold (tarjan_root deps) order initial_tarjan"

subsection \<open>One path per component\<close>

text \<open>
  Following \<open>prev\<close> back to the start. Each entry of \<open>prev\<close> points to a node visited before it, so the walk
  never comes back to an entry; entries are dropped once they are used.
\<close>

function back_path :: "(TargetId, TargetId) dict \<Rightarrow> TargetId \<Rightarrow> TargetId \<Rightarrow> TargetId list" where
  "back_path prev start p =
     (if p = start then []
      else case dget prev p of
        None \<Rightarrow> [p]
      | Some q \<Rightarrow> p # back_path (AList.delete p prev) start q)"
  by pat_completeness auto
termination
proof (relation "measure (\<lambda>(prev, _, _). length prev)", goal_cases)
  case (2 prev start p q)
  then have "(p, q) \<in> set prev" by (auto dest: map_of_SomeD)
  then show ?case by (auto simp: AList.delete_eq intro!: length_filter_less)
qed simp

declare back_path.simps [simp del]

record Bfs =
  bf_queue :: "TargetId list"
  bf_visited :: "TargetId list"
  bf_prev :: "(TargetId, TargetId) dict"

text \<open>The \<open>for\<close> loop over the edges of \<open>cur\<close> returns the path or goes on.\<close>

fun bfs_edges :: "TargetId list \<Rightarrow> TargetId \<Rightarrow> TargetId \<Rightarrow> TargetId list \<Rightarrow> Bfs \<Rightarrow> TargetId list + Bfs" where
  "bfs_edges members start cur [] b = Inr b"
| "bfs_edges members start cur (d # ds) b =
     (if d \<notin> set members then bfs_edges members start cur ds b
      else if d = start then Inl (start # rev (back_path (bf_prev b) start cur) @ [start])
      else if d \<notin> set (bf_visited b)
      then bfs_edges members start cur ds (b\<lparr>bf_visited := d # bf_visited b, bf_prev := dput d cur (bf_prev b), bf_queue := bf_queue b @ [d]\<rparr>)
      else bfs_edges members start cur ds b)"

lemma bfs_edges_measure:
  "bfs_edges members start cur ds b = Inr b' \<Longrightarrow>
     length (bf_queue b') + card (set members - set (bf_visited b')) = length (bf_queue b) + card (set members - set (bf_visited b)) \<and>
     card (set members - set (bf_visited b')) \<le> card (set members - set (bf_visited b))"
proof (induction members start cur ds b rule: bfs_edges.induct)
  case (2 members start cur d ds b)
  show ?case
  proof (cases "d \<in> set members \<and> d \<noteq> start \<and> d \<notin> set (bf_visited b)")
    case True
    let ?S = "set members - set (bf_visited b)"
    have "set members - set (d # bf_visited b) = ?S - {d}" by auto
    moreover have "card ?S = Suc (card (?S - {d}))" using True by (intro card_Suc_Diff1 [symmetric]) simp_all
    ultimately have "card ?S = Suc (card (set members - set (d # bf_visited b)))" by simp
    moreover from True "2.prems" have "bfs_edges members start cur ds
        (b\<lparr>bf_visited := d # bf_visited b, bf_prev := dput d cur (bf_prev b), bf_queue := bf_queue b @ [d]\<rparr>) = Inr b'" by simp
    with True have "length (bf_queue b') + card (set members - set (bf_visited b')) =
        length (bf_queue b @ [d]) + card (set members - set (d # bf_visited b)) \<and>
        card (set members - set (bf_visited b')) \<le> card (set members - set (d # bf_visited b))" using "2.IH"(2) by simp
    ultimately show ?thesis by simp
  next
    case False
    with "2.prems" have "bfs_edges members start cur ds b = Inr b'" by (simp split: if_splits)
    with False "2.prems" show ?thesis using "2.IH"(1,3) by (cases "d \<in> set members"; cases "d = start") simp_all
  qed
qed simp

function bfs_loop :: "deps_map \<Rightarrow> TargetId list \<Rightarrow> TargetId \<Rightarrow> Bfs \<Rightarrow> TargetId list option" where
  "bfs_loop deps members start b =
     (case bf_queue b of
        [] \<Rightarrow> None
      | cur # queue \<Rightarrow>
          (case bfs_edges members start cur (edges_of deps cur) (b\<lparr>bf_queue := queue\<rparr>) of
             Inl path \<Rightarrow> Some path
           | Inr b' \<Rightarrow> bfs_loop deps members start b'))"
  by pat_completeness auto
termination
proof (relation "measure (\<lambda>(_, members, _, b). length (bf_queue b) + card (set members - set (bf_visited b)))", goal_cases)
  case (2 deps members start b cur queue b')
  then show ?case using bfs_edges_measure [of members start cur "edges_of deps cur" "b\<lparr>bf_queue := queue\<rparr>" b'] by simp
qed simp

definition cycle_path :: "deps_map \<Rightarrow> TargetId list \<Rightarrow> TargetId list" where
  "cycle_path deps members =
     (let start = hd (sort_by compare_str members) in
      case bfs_loop deps members start \<lparr>bf_queue = [start], bf_visited = [start], bf_prev = []\<rparr> of
        Some path \<Rightarrow> path
      | None \<Rightarrow> members @ [hd members])"

definition findCycles :: "(string \<Rightarrow> string \<Rightarrow> rat) \<Rightarrow> (TargetId \<times> TargetId list) list \<Rightarrow> TargetId list list" where
  "findCycles localeCompare targets =
     (let deps = deps_map_of targets;
          order = sort_by compare_str (uniq (map fst targets))
      in sort_by (\<lambda>a b. localeCompare (hd a) (hd b)) (map (cycle_path deps) (tj_components (tarjan deps order))))"

subsection \<open>The search finds every cycle and nothing else\<close>

definition edge_rel :: "deps_map \<Rightarrow> (TargetId \<times> TargetId) set" where
  "edge_rel deps = {(v, w). w \<in> set (edges_of deps v)}"

definition finished :: "Tarjan \<Rightarrow> TargetId set" where
  "finished s = set (dkeys (tj_index s)) - fst ` set (tj_work s)"

text \<open>The edges a frame has behind it lead to finished nodes or to frames above it.\<close>

fun frames_ok :: "deps_map \<Rightarrow> TargetId set \<Rightarrow> (TargetId \<times> nat) list \<Rightarrow> bool" where
  "frames_ok deps D [] \<longleftrightarrow> True"
| "frames_ok deps D ((v, i) # rest) \<longleftrightarrow>
     (\<forall>w \<in> set (take i (edges_of deps v)). w \<in> D) \<and> frames_ok deps (insert v D) rest"

fun linked :: "('a \<times> 'a) set \<Rightarrow> 'a list \<Rightarrow> bool" where
  "linked r (x # y # xs) \<longleftrightarrow> (y, x) \<in> r \<and> linked r (y # xs)"
| "linked r xs \<longleftrightarrow> True"

text \<open>
  What holds in every state: the work stack is part of the node stack, which ends with the same
  root, and no node can reach below the root.
\<close>

definition tarjan_stacks :: "Tarjan \<Rightarrow> bool" where
  "tarjan_stacks s \<longleftrightarrow>
     distinct (tj_stack s) \<and> set (tj_onStack s) = set (tj_stack s) \<and> set (tj_stack s) \<subseteq> set (dkeys (tj_index s)) \<and>
     subseq (map fst (tj_work s)) (tj_stack s) \<and> (tj_work s = [] \<longrightarrow> tj_stack s = []) \<and>
     (\<forall>v \<in> set (tj_stack s). num (tj_index s) v < tj_counter s) \<and>
     (tj_work s \<noteq> [] \<longrightarrow> last (tj_stack s) = fst (last (tj_work s)) \<and>
        (\<forall>v \<in> set (tj_stack s). num (tj_index s) (last (tj_stack s)) \<le> num (tj_low s) v \<and> num (tj_low s) v \<le> num (tj_index s) v))"

text \<open>While no cycle was met, the node stack is the path of the frames.\<close>

definition tarjan_path :: "deps_map \<Rightarrow> Tarjan \<Rightarrow> bool" where
  "tarjan_path deps s \<longleftrightarrow>
     tj_components s = [] \<and> tj_stack s = map fst (tj_work s) \<and> linked (edge_rel deps) (map fst (tj_work s)) \<and>
     sorted_wrt (\<lambda>a b. num (tj_index s) b < num (tj_index s) a) (map fst (tj_work s)) \<and>
     (\<forall>v \<in> fst ` set (tj_work s). num (tj_low s) v = num (tj_index s) v) \<and>
     (\<forall>v \<in> finished s. \<forall>w \<in> set (edges_of deps v). w \<in> finished s) \<and>
     frames_ok deps (finished s) (tj_work s) \<and> acyclic (edge_rel deps \<inter> finished s \<times> finished s)"

text \<open>Once a cycle was met, a component with two members has been or will be popped.\<close>

definition cycle_pending :: "Tarjan \<Rightarrow> bool" where
  "cycle_pending s \<longleftrightarrow>
     tj_components s \<noteq> [] \<or> (\<exists>v \<in> set (tj_stack s). v \<notin> fst ` set (tj_work s)) \<or>
     (\<exists>v \<in> fst ` set (tj_work s). num (tj_low s) v < num (tj_index s) v)"

lemma frames_ok_mono: "frames_ok deps A work \<Longrightarrow> A \<subseteq> B \<Longrightarrow> frames_ok deps B work"
proof (induction work arbitrary: A B)
  case (Cons f work)
  obtain v i where f: "f = (v, i)" by (cases f)
  with Cons.IH [of "insert v A" "insert v B"] Cons.prems show ?case by auto
qed simp

lemma linked_reaches: "linked r (x # xs) \<Longrightarrow> y \<in> set (x # xs) \<Longrightarrow> (y, x) \<in> r\<^sup>*"
proof (induction xs arbitrary: x)
  case (Cons z xs)
  then have "(z, x) \<in> r" by simp
  moreover have "(y, z) \<in> r\<^sup>*" if "y \<noteq> x" using Cons that by auto
  ultimately show ?case by (cases "y = x") auto
qed simp

lemma pop_component_eq:
  "v \<notin> set A \<Longrightarrow> pop_component v (A @ v # B) os acc = (B, fold removeAll (A @ [v]) os, acc @ A @ [v])"
  by (induction A arbitrary: os acc) auto

lemma fold_removeAll_set: "set (fold removeAll xs os) = set os - set xs"
  by (induction xs arbitrary: os) auto

lemma subseq_subset: "subseq xs ys \<Longrightarrow> set xs \<subseteq> set ys"
  by (induction rule: list_emb.induct) auto

lemma subseq_ConsE:
  assumes "subseq (v # W) S" and "distinct S"
  obtains A B where "S = A @ v # B" "subseq W B" "v \<notin> set A" "v \<notin> set B" "set A \<inter> set B = {}"
proof -
  from list_emb_ConsD [OF assms(1)] obtain A x B where "S = A @ x # B" "v = x" "subseq W B" by blast
  with assms(2) that show thesis by auto
qed

lemma stacks_frame:
  "tj_work s = (v, i) # rest \<Longrightarrow> tarjan_stacks (s\<lparr>tj_work := (v, j) # rest\<rparr>) = tarjan_stacks s"
  by (simp add: tarjan_stacks_def)

lemma stacks_visit:
  assumes "tarjan_stacks s" and "v \<notin> fst ` set (tj_index s)"
  shows "tarjan_stacks (tarjan_visit v s)"
proof (cases "tj_work s = []")
  case True
  with assms show ?thesis by (simp add: tarjan_stacks_def)
next
  case False
  then have ne: "tj_stack s \<noteq> []" using assms(1) by (auto simp: tarjan_stacks_def)
  then have root: "last (tj_stack s) \<in> set (tj_stack s)" by simp
  have "x \<noteq> v" if "x \<in> set (tj_stack s)" for x using that assms by (auto simp: tarjan_stacks_def)
  with assms False ne root show ?thesis unfolding tarjan_stacks_def by (auto simp: less_Suc_eq less_imp_le)
qed

lemma stacks_low:
  assumes "tarjan_stacks s" and "v \<in> set (tj_stack s)" and "x \<in> set (tj_stack s)"
    and "n = num (tj_low s) x \<or> n = num (tj_index s) x"
  shows "tarjan_stacks (s\<lparr>tj_low := dput v (min (num (tj_low s) v) n) (tj_low s)\<rparr>)"
  using assms by (auto simp: tarjan_stacks_def min_def)

lemma stacks_root:
  assumes "tarjan_stacks s" and "tj_work s = [(v, i)]"
  shows "num (tj_low s) v = num (tj_index s) v"
proof -
  have "tj_stack s \<noteq> []" "last (tj_stack s) = v" using assms by (auto simp: tarjan_stacks_def)
  moreover from this have "v \<in> set (tj_stack s)" by auto
  ultimately show ?thesis using assms by (auto simp: tarjan_stacks_def intro!: antisym)
qed

lemma stacks_close:
  assumes "tarjan_stacks s" and "tj_work s = (v, i) # rest" and "s' = tarjan_close v (s\<lparr>tj_work := rest\<rparr>)"
    and "rest = [] \<longrightarrow> num (tj_low s) v = num (tj_index s) v"
  shows "tarjan_stacks s'"
proof -
  from assms(1,2) have "subseq (v # map fst rest) (tj_stack s)" "distinct (tj_stack s)" by (simp_all add: tarjan_stacks_def)
  from subseq_ConsE [OF this] obtain A B where st: "tj_stack s = A @ v # B" and sub: "subseq (map fst rest) B" and "v \<notin> set A" "v \<notin> set B"
    "set A \<inter> set B = {}" by metis
  show ?thesis
  proof (cases "num (tj_low s) v = num (tj_index s) v")
    case False
    then have "rest \<noteq> []" using assms(4) by blast
    moreover have "subseq (map fst rest) (tj_stack s)" unfolding st using sub by (simp add: list_emb_append2 list_emb.list_emb_Cons)
    ultimately show ?thesis using False assms by (auto simp: tarjan_stacks_def tarjan_close_def)
  next
    case True
    have "B = []" if "rest = []"
    proof -
      have "last (tj_stack s) = v" using assms(1,2) that by (simp add: tarjan_stacks_def)
      with st \<open>v \<notin> set B\<close> show ?thesis by (cases B) (auto split: if_splits)
    qed
    moreover have "B \<noteq> [] \<and> last B = fst (last rest)" if "rest \<noteq> []"
    proof -
      from sub that have "B \<noteq> []" by auto
      then show ?thesis using assms(1,2) that st by (simp add: tarjan_stacks_def)
    qed
    moreover have "rest \<noteq> [] \<Longrightarrow> last (tj_stack s) = last B" using calculation(2) st by auto
    ultimately show ?thesis using assms True st sub \<open>v \<notin> set A\<close> \<open>v \<notin> set B\<close> \<open>set A \<inter> set B = {}\<close>
      unfolding tarjan_stacks_def tarjan_close_def
      by (auto simp: pop_component_eq fold_removeAll_set)
  qed
qed

text \<open>A turn of the loop, by cases.\<close>

definition low_parent :: "(TargetId \<times> nat) list \<Rightarrow> TargetId \<Rightarrow> Tarjan \<Rightarrow> Tarjan" where
  "low_parent rest v s =
     (case rest of [] \<Rightarrow> s
      | (parent, _) # _ \<Rightarrow> s\<lparr>tj_low := dput parent (min (num (tj_low s) parent) (num (tj_low s) v)) (tj_low s)\<rparr>)"

lemma low_parent_simps [simp]:
  "tj_work (low_parent rest v s) = tj_work s" "tj_index (low_parent rest v s) = tj_index s" "tj_stack (low_parent rest v s) = tj_stack s"
  "tj_onStack (low_parent rest v s) = tj_onStack s" "tj_components (low_parent rest v s) = tj_components s"
  "tj_counter (low_parent rest v s) = tj_counter s"
  by (simp_all add: low_parent_def split: list.splits)

lemma tarjan_step_cases:
  assumes "tj_work s = (v, i) # rest"
  obtains
    (Visit) w where "i < length (edges_of deps v)" "w = edges_of deps v ! i" "w \<notin> fst ` set (tj_index s)"
      "tarjan_step deps s = tarjan_visit w (s\<lparr>tj_work := (v, Suc i) # rest\<rparr>)"
  | (Back) w where "i < length (edges_of deps v)" "w = edges_of deps v ! i" "w \<in> set (tj_onStack s)"
      "tarjan_step deps s = (s\<lparr>tj_low := dput v (min (num (tj_low s) v) (num (tj_index s) w)) (tj_low s)\<rparr>)\<lparr>tj_work := (v, Suc i) # rest\<rparr>"
  | (Skip) w where "i < length (edges_of deps v)" "w = edges_of deps v ! i" "w \<in> fst ` set (tj_index s)" "w \<notin> set (tj_onStack s)"
      "tarjan_step deps s = s\<lparr>tj_work := (v, Suc i) # rest\<rparr>"
  | (Close) "length (edges_of deps v) \<le> i" "tarjan_step deps s = tarjan_close v ((low_parent rest v s)\<lparr>tj_work := rest\<rparr>)"
proof (cases "i < length (edges_of deps v)")
  case True
  let ?w = "edges_of deps v ! i"
  consider "?w \<notin> fst ` set (tj_index s)" | "?w \<in> fst ` set (tj_index s)" "?w \<in> set (tj_onStack s)"
    | "?w \<in> fst ` set (tj_index s)" "?w \<notin> set (tj_onStack s)" by blast
  then show thesis
  proof cases
    case 1
    with True assms show thesis by (intro Visit [of ?w]) (simp_all add: tarjan_step_def Let_def)
  next
    case 2
    with True assms show thesis by (intro Back [of ?w]) (simp_all add: tarjan_step_def Let_def)
  next
    case 3
    with True assms show thesis by (intro Skip [of ?w]) (simp_all add: tarjan_step_def Let_def)
  qed
next
  case False
  with assms show thesis by (intro Close) (auto simp: tarjan_step_def Let_def low_parent_def split: list.splits)
qed

lemma work_on_stack: "tarjan_stacks s \<Longrightarrow> (v, i) \<in> set (tj_work s) \<Longrightarrow> v \<in> set (tj_stack s)"
proof -
  assume "tarjan_stacks s" and "(v, i) \<in> set (tj_work s)"
  then have "set (map fst (tj_work s)) \<subseteq> set (tj_stack s)" by (intro subseq_subset) (simp add: tarjan_stacks_def)
  moreover have "v \<in> fst ` set (tj_work s)" using \<open>(v, i) \<in> set (tj_work s)\<close> by (rule rev_image_eqI) simp
  ultimately show ?thesis by auto
qed

lemma stacks_low_parent:
  assumes "tarjan_stacks s" and w: "tj_work s = (v, i) # rest"
  shows "tarjan_stacks (low_parent rest v s)"
proof (cases rest)
  case (Cons g rest')
  obtain p j where "g = (p, j)" by (cases g)
  with Cons w have "p \<in> set (tj_stack s)" "v \<in> set (tj_stack s)"
    using work_on_stack [OF assms(1), of p j] work_on_stack [OF assms(1), of v i] by simp_all
  from stacks_low [OF assms(1) this, of "num (tj_low s) v"] Cons \<open>g = (p, j)\<close> show ?thesis by (simp add: low_parent_def)
qed (use assms in \<open>simp add: low_parent_def\<close>)

lemma stacks_step:
  assumes "tarjan_stacks s"
  shows "tarjan_stacks (tarjan_step deps s)"
proof (cases "tj_work s")
  case Nil
  then show ?thesis using assms by (simp add: tarjan_step_def)
next
  case (Cons f rest)
  obtain v i where "f = (v, i)" by (cases f)
  with Cons have w: "tj_work s = (v, i) # rest" by simp
  have v: "v \<in> set (tj_stack s)" using work_on_stack [OF assms, of v i] w by simp
  from w show ?thesis
  proof (cases rule: tarjan_step_cases [where deps = deps])
    case (Visit x)
    then show ?thesis using assms stacks_frame [OF w] by (simp add: stacks_visit)
  next
    case (Back x)
    then have "x \<in> set (tj_stack s)" using assms by (simp add: tarjan_stacks_def)
    with stacks_low [OF assms v this, of "num (tj_index s) x"] Back stacks_frame w show ?thesis by simp
  next
    case (Skip x)
    then show ?thesis using assms stacks_frame [OF w] by simp
  next
    case Close
    have "tarjan_stacks (low_parent rest v s)" using assms w by (rule stacks_low_parent)
    moreover have "rest = [] \<longrightarrow> num (tj_low (low_parent rest v s)) v = num (tj_index (low_parent rest v s)) v"
      using stacks_root [OF assms, of v i] w by (simp add: low_parent_def)
    ultimately show ?thesis using stacks_close [of "low_parent rest v s" v i rest] Close(2) w by simp
  qed
qed

text \<open>A pending cycle stays pending until it is reported.\<close>

lemma close_pending:
  assumes "tarjan_stacks s" and "tj_work s = (v, i) # rest" and "cycle_pending s"
    and "s' = tarjan_close v (s\<lparr>tj_work := rest\<rparr>)"
  shows "cycle_pending s'"
proof -
  from assms(1,2) have sub: "subseq (v # map fst rest) (tj_stack s)" and "distinct (tj_stack s)" by (simp_all add: tarjan_stacks_def)
  from subseq_ConsE [OF this] obtain A B where st: "tj_stack s = A @ v # B" and "subseq (map fst rest) B" and A: "v \<notin> set A" and "v \<notin> set B"
    "set A \<inter> set B = {}" by metis
  then have v: "v \<notin> fst ` set rest" using subseq_subset [of "map fst rest" B] by auto
  show ?thesis
  proof (cases "num (tj_low s) v = num (tj_index s) v")
    case False
    have "v \<in> set (tj_stack s)" by (simp add: st)
    with False assms(4) v show ?thesis by (auto simp: cycle_pending_def tarjan_close_def)
  next
    case True
    then have s': "s' = s\<lparr>tj_work := rest, tj_stack := B, tj_onStack := fold removeAll (A @ [v]) (tj_onStack s),
        tj_components := (if A \<noteq> [] then tj_components s @ [A @ [v]] else tj_components s)\<rparr>"
      using assms(4) by (simp add: tarjan_close_def st pop_component_eq [OF A])
    from assms(3) consider "tj_components s \<noteq> []" | x where "x \<in> set (tj_stack s)" "x \<notin> fst ` set (tj_work s)"
      | x where "x \<in> fst ` set (tj_work s)" "num (tj_low s) x < num (tj_index s) x" by (auto simp: cycle_pending_def)
    then show ?thesis
    proof cases
      case (2 x)
      then have "x \<noteq> v" "x \<notin> fst ` set rest" using assms(2) by auto
      then show ?thesis using 2(1) by (cases "A = []") (auto simp: s' cycle_pending_def st)
    next
      case (3 x)
      then have "x \<noteq> v" using True by auto
      with 3 assms(2) show ?thesis by (auto simp: s' cycle_pending_def)
    qed (simp add: s' cycle_pending_def)
  qed
qed

lemma pending_low:
  assumes "tarjan_stacks s" and "cycle_pending s" and "s' = s\<lparr>tj_low := dput v (min (num (tj_low s) v) n) (tj_low s)\<rparr>"
  shows "cycle_pending s'"
proof -
  have low: "num (tj_low s') x \<le> num (tj_low s) x" for x by (simp add: assms(3))
  have eq: "tj_work s' = tj_work s" "tj_stack s' = tj_stack s" "tj_components s' = tj_components s" "tj_index s' = tj_index s"
    by (simp_all add: assms(3))
  show ?thesis using assms(2) le_less_trans [OF low] unfolding cycle_pending_def eq by blast
qed

lemma pending_step:
  assumes "tarjan_stacks s" and "cycle_pending s"
  shows "cycle_pending (tarjan_step deps s)"
proof (cases "tj_work s")
  case Nil
  then show ?thesis using assms by (simp add: tarjan_step_def)
next
  case (Cons f rest)
  obtain v i where "f = (v, i)" by (cases f)
  with Cons have w: "tj_work s = (v, i) # rest" by simp
  have frame: "cycle_pending (s\<lparr>tj_work := (v, j) # rest\<rparr>) = cycle_pending s" if "tj_work s = (v, i) # rest" for s :: Tarjan and j
    using that by (simp add: cycle_pending_def)
  from w show ?thesis
  proof (cases rule: tarjan_step_cases [where deps = deps])
    case (Visit x)
    have "set (tj_stack s) \<subseteq> fst ` set (tj_index s)" using assms(1) by (simp add: tarjan_stacks_def)
    moreover have "fst ` set (tj_work s) \<subseteq> set (tj_stack s)" using work_on_stack [OF assms(1)] by auto
    ultimately have "y \<noteq> x" if "y \<in> set (tj_stack s) \<or> y \<in> fst ` set (tj_work s)" for y using that Visit(3) by auto
    then show ?thesis using assms(2) w unfolding Visit(4) cycle_pending_def by fastforce
  next
    case (Back x)
    then show ?thesis using pending_low [OF assms refl] frame w by simp
  next
    case (Skip x)
    then show ?thesis using assms(2) frame w by simp
  next
    case Close
    have "cycle_pending (low_parent rest v s)" using pending_low [OF assms refl] assms(2)
      by (simp add: low_parent_def split: list.splits prod.splits)
    moreover have "tarjan_stacks (low_parent rest v s)" using assms(1) w by (rule stacks_low_parent)
    ultimately show ?thesis using close_pending [of "low_parent rest v s" v i rest] w Close(2) by simp
  qed
qed

text \<open>The path of frames grows and shrinks; it meets one of its own nodes only on a cycle.\<close>

lemma finished_simps:
  "finished (s\<lparr>tj_work := W\<rparr>) = fst ` set (tj_index s) - fst ` set W"
  by (simp add: finished_def)

lemma path_back_edge:
  assumes "tarjan_path deps s" and "tj_work s = (v, i) # rest" and "w \<in> set (tj_stack s)" and "w \<in> set (edges_of deps v)"
  shows "\<not> acyclic (edge_rel deps)"
proof -
  have "(w, v) \<in> (edge_rel deps)\<^sup>*" using assms by (intro linked_reaches [of _ v "map fst rest"]) (simp_all add: tarjan_path_def)
  moreover have "(v, w) \<in> edge_rel deps" using assms(4) by (simp add: edge_rel_def)
  ultimately have "(v, v) \<in> (edge_rel deps)\<^sup>+" by (metis rtrancl_into_trancl2)
  then show ?thesis by (auto simp: acyclic_def)
qed

lemma acyclic_add_source:
  assumes "acyclic (r \<inter> F \<times> F)" and "\<forall>w. (v, w) \<in> r \<longrightarrow> w \<in> F" and "\<forall>x \<in> F. (x, v) \<notin> r" and "v \<notin> F"
  shows "acyclic (r \<inter> insert v F \<times> insert v F)"
proof -
  let ?r = "r \<inter> insert v F \<times> insert v F"
  have step: "y \<in> F \<and> (x \<in> F \<longrightarrow> (x, y) \<in> (r \<inter> F \<times> F)\<^sup>+)" if "(x, y) \<in> ?r\<^sup>+" for x y
    using that
  proof (induction rule: trancl_induct)
    case (base y)
    then show ?case using assms(2-4) by auto
  next
    case (step y z)
    then have "z \<in> F" "(y, z) \<in> r \<inter> F \<times> F" using assms(2-4) by auto
    with step.IH show ?case by (auto intro: trancl_into_trancl)
  qed
  show ?thesis unfolding acyclic_def
  proof (intro allI notI)
    fix x assume "(x, x) \<in> ?r\<^sup>+"
    with step assms(1) show False by (auto simp: acyclic_def)
  qed
qed

lemma path_visit:
  assumes "tarjan_stacks s" and path: "tarjan_path deps s" and w: "tj_work s = (v, i) # rest"
    and i: "i < length (edges_of deps v)" "x = edges_of deps v ! i" "x \<notin> fst ` set (tj_index s)"
  shows "tarjan_path deps (tarjan_visit x (s\<lparr>tj_work := (v, Suc i) # rest\<rparr>))"
proof -
  let ?s = "tarjan_visit x (s\<lparr>tj_work := (v, Suc i) # rest\<rparr>)"
  have stack: "tj_stack s = v # map fst rest" using path w by (simp add: tarjan_path_def)
  have work: "y \<in> fst ` set (tj_index s)" "num (tj_index s) y < tj_counter s" if "y \<in> set (v # map fst rest)" for y
    using assms(1) that unfolding tarjan_stacks_def stack by auto
  have fin: "finished ?s = finished s" using i(3) w work(1) by (auto simp: finished_def)
  have edge: "(v, x) \<in> edge_rel deps" using i by (simp add: edge_rel_def)
  have "set (take (Suc i) (edges_of deps v)) \<subseteq> insert x (finished s)"
    using path i unfolding tarjan_path_def w by (simp add: take_Suc_conv_app_nth subset_iff)
  moreover have "frames_ok deps (insert v (insert x (finished s))) rest"
    using path unfolding tarjan_path_def w by (auto elim: frames_ok_mono)
  ultimately have "frames_ok deps (finished s) (tj_work ?s)" by auto
  moreover have "y \<noteq> x" if "y \<in> set (v # map fst rest)" for y using work(1) [OF that] i(3) by blast
  then have fresh: "x \<noteq> v" "x \<notin> fst ` set rest" by auto
  moreover have "sorted_wrt (\<lambda>a b. num (tj_index ?s) b < num (tj_index ?s) a) (v # map fst rest)"
    using path fresh unfolding tarjan_path_def w by (auto elim!: sorted_wrt_mono_rel [rotated])
  ultimately show ?thesis using path work(2) edge stack unfolding tarjan_path_def fin w by auto
qed

lemma path_close:
  assumes path: "tarjan_path deps s" and w: "tj_work s = (v, i) # rest" and i: "length (edges_of deps v) \<le> i"
    and keys: "v \<in> fst ` set (tj_index s)" and dist: "v \<notin> fst ` set rest"
  shows "tarjan_path deps (tarjan_close v ((low_parent rest v s)\<lparr>tj_work := rest\<rparr>))"
proof -
  let ?s = "tarjan_close v ((low_parent rest v s)\<lparr>tj_work := rest\<rparr>)"
  have low: "num (tj_low (low_parent rest v s)) y = num (tj_low s) y" for y
    using path w by (cases rest) (auto simp: low_parent_def tarjan_path_def)
  have stack: "tj_stack s = v # map fst rest" using path w by (simp add: tarjan_path_def)
  have fin: "finished ?s = insert v (finished s)" using keys dist w by (auto simp: finished_def)
  have "num (tj_low s) v = num (tj_index s) v" using path w by (simp add: tarjan_path_def)
  then have s: "tj_stack ?s = map fst rest" "tj_components ?s = tj_components s"
    by (simp_all add: tarjan_close_def low stack)
  have edges: "\<forall>x \<in> set (edges_of deps v). x \<in> finished s" and frames: "frames_ok deps (insert v (finished s)) rest"
    using path i unfolding tarjan_path_def w by auto
  have v: "v \<notin> finished s" using w by (simp add: finished_def)
  have closed: "\<forall>x \<in> finished s. \<forall>y \<in> set (edges_of deps x). y \<in> finished s" using path by (simp add: tarjan_path_def)
  then have "\<forall>x \<in> finished s. (x, v) \<notin> edge_rel deps" using v by (auto simp: edge_rel_def)
  then have "acyclic (edge_rel deps \<inter> insert v (finished s) \<times> insert v (finished s))"
    using path edges v by (intro acyclic_add_source) (simp_all add: tarjan_path_def edge_rel_def)
  moreover have "linked r (y # ys) \<Longrightarrow> linked r ys" for r and y :: TargetId and ys by (cases ys) auto
  ultimately show ?thesis using path edges frames closed s unfolding tarjan_path_def fin w
    by (auto simp: low)
qed

lemma path_step:
  assumes loops: "\<And>v. v \<notin> set (edges_of deps v)" and stacks: "tarjan_stacks s" and path: "tarjan_path deps s"
  shows "tarjan_path deps (tarjan_step deps s) \<or> cycle_pending (tarjan_step deps s) \<and> \<not> acyclic (edge_rel deps)"
proof (cases "tj_work s")
  case Nil
  then show ?thesis using path by (simp add: tarjan_step_def)
next
  case (Cons f rest)
  obtain v i where "f = (v, i)" by (cases f)
  with Cons have w: "tj_work s = (v, i) # rest" by simp
  then have stack: "tj_stack s = v # map fst rest" using path by (simp add: tarjan_path_def)
  from w show ?thesis
  proof (cases rule: tarjan_step_cases [where deps = deps])
    case (Visit x)
    then show ?thesis using path_visit [OF stacks path w] by simp
  next
    case (Back x)
    then have x: "x \<in> set (edges_of deps v)" "x \<in> set (tj_stack s)" using stacks by (simp_all add: tarjan_stacks_def)
    then have "x \<in> set (map fst rest)" using loops [of v] by (auto simp: stack)
    moreover have "\<forall>y \<in> set (map fst rest). num (tj_index s) y < num (tj_index s) v" using path unfolding tarjan_path_def w by auto
    ultimately have "num (tj_index s) x < num (tj_index s) v" by blast
    then show ?thesis using path_back_edge [OF path w x(2,1)] Back(4) by (simp add: cycle_pending_def min_less_iff_disj)
  next
    case (Skip x)
    then have "x \<in> finished s" using stacks stack w by (auto simp: finished_def tarjan_stacks_def)
    then have "set (take (Suc i) (edges_of deps v)) \<subseteq> finished s"
      using path Skip(1,2) unfolding tarjan_path_def w by (simp add: take_Suc_conv_app_nth subset_iff)
    moreover have "finished (s\<lparr>tj_work := (v, Suc i) # rest\<rparr>) = finished s" using w by (simp add: finished_def)
    ultimately show ?thesis using path w unfolding Skip(5) tarjan_path_def by auto
  next
    case Close
    have "v \<in> fst ` set (tj_index s)" "v \<notin> fst ` set rest" using stacks stack by (auto simp: tarjan_stacks_def)
    with path_close [OF path w Close(1)] Close(2) show ?thesis by simp
  qed
qed

text \<open>The state between two roots.\<close>

definition tarjan_settled :: "deps_map \<Rightarrow> Tarjan \<Rightarrow> bool" where
  "tarjan_settled deps s \<longleftrightarrow> tarjan_stacks s \<and> (tarjan_path deps s \<or> cycle_pending s \<and> \<not> acyclic (edge_rel deps))"

lemma settled_step:
  "(\<And>v. v \<notin> set (edges_of deps v)) \<Longrightarrow> tarjan_settled deps s \<Longrightarrow> tarjan_settled deps (tarjan_step deps s)"
  using path_step pending_step stacks_step unfolding tarjan_settled_def by blast

lemma index_grows: "fst ` set (tj_index s) \<subseteq> fst ` set (tj_index (tarjan_step deps s))"
proof (cases "tj_work s")
  case (Cons f rest)
  obtain v i where "f = (v, i)" by (cases f)
  with Cons have "tj_work s = (v, i) # rest" by simp
  then show ?thesis by (cases rule: tarjan_step_cases [where deps = deps]) auto
qed (simp add: tarjan_step_def)

lemma tarjan_loop_settled:
  assumes "\<And>v. v \<notin> set (edges_of deps v)" and "tarjan_settled deps s"
  shows "tarjan_settled deps (tarjan_loop deps s) \<and> tj_work (tarjan_loop deps s) = [] \<and>
     fst ` set (tj_index s) \<subseteq> fst ` set (tj_index (tarjan_loop deps s))"
  using assms
proof (induction deps s rule: tarjan_loop.induct)
  case (1 deps s)
  show ?case
  proof (cases "tj_work s = []")
    case False
    with 1 settled_step have "tarjan_settled deps (tarjan_loop deps (tarjan_step deps s)) \<and> tj_work (tarjan_loop deps (tarjan_step deps s)) = [] \<and>
      fst ` set (tj_index (tarjan_step deps s)) \<subseteq> fst ` set (tj_index (tarjan_loop deps (tarjan_step deps s)))" by blast
    moreover have "tarjan_loop deps s = tarjan_loop deps (tarjan_step deps s)" using False by (subst tarjan_loop.simps) simp
    ultimately show ?thesis using index_grows [of s deps] by auto
  next
    case True
    then have "tarjan_loop deps s = s" by (subst tarjan_loop.simps) simp
    with True 1 show ?thesis by simp
  qed
qed

lemma settled_visit:
  assumes "tarjan_settled deps s" and "tj_work s = []" and "r \<notin> fst ` set (tj_index s)"
  shows "tarjan_settled deps (tarjan_visit r s)"
proof -
  have st: "tj_stack s = []" using assms by (simp add: tarjan_settled_def tarjan_stacks_def)
  have fin: "finished (tarjan_visit r s) = finished s" using assms(2,3) by (simp add: finished_def)
  have "tarjan_path deps (tarjan_visit r s)" if "tarjan_path deps s"
    using that assms(2) st unfolding tarjan_path_def fin by simp
  moreover have "cycle_pending (tarjan_visit r s)" if "cycle_pending s" using that assms(2) st by (simp add: cycle_pending_def)
  ultimately show ?thesis using assms stacks_visit unfolding tarjan_settled_def by blast
qed

lemma tarjan_root_settled:
  assumes "\<And>v. v \<notin> set (edges_of deps v)" and "tarjan_settled deps s" and "tj_work s = []"
  shows "tarjan_settled deps (tarjan_root deps r s) \<and> tj_work (tarjan_root deps r s) = [] \<and>
     insert r (fst ` set (tj_index s)) \<subseteq> fst ` set (tj_index (tarjan_root deps r s))"
proof (cases "r \<in> fst ` set (tj_index s)")
  case False
  with tarjan_loop_settled [OF assms(1) settled_visit [OF assms(2,3) False]] show ?thesis
    by (auto simp: tarjan_root_def)
qed (use assms in \<open>simp add: tarjan_root_def\<close>)

lemma tarjan_fold_settled:
  assumes "\<And>v. v \<notin> set (edges_of deps v)" and "tarjan_settled deps s" and "tj_work s = []"
  shows "tarjan_settled deps (fold (tarjan_root deps) order s) \<and> tj_work (fold (tarjan_root deps) order s) = [] \<and>
     set order \<union> fst ` set (tj_index s) \<subseteq> fst ` set (tj_index (fold (tarjan_root deps) order s))"
  using assms(2,3)
proof (induction order arbitrary: s)
  case (Cons r order)
  note r = tarjan_root_settled [OF assms(1) Cons.prems, of r]
  from r have "set order \<union> fst ` set (tj_index (tarjan_root deps r s)) \<subseteq> fst ` set (tj_index (fold (tarjan_root deps) (r # order) s))"
    using Cons.IH [of "tarjan_root deps r s"] by simp
  then have "set (r # order) \<union> fst ` set (tj_index s) \<subseteq> fst ` set (tj_index (fold (tarjan_root deps) (r # order) s))"
    using r by (simp only: list.set) blast
  with r Cons.IH [of "tarjan_root deps r s"] show ?case by simp
qed simp

lemma tarjan_components_iff:
  assumes "\<And>v. v \<notin> set (edges_of deps v)" and "edge_rel deps \<subseteq> set order \<times> set order"
  shows "tj_components (tarjan deps order) = [] \<longleftrightarrow> acyclic (edge_rel deps)"
proof -
  let ?s = "tarjan deps order"
  have "tarjan_settled deps initial_tarjan"
    by (simp add: tarjan_settled_def tarjan_stacks_def tarjan_path_def initial_tarjan_def finished_def acyclic_def)
  from tarjan_fold_settled [OF assms(1) this, of order]
  have s: "tarjan_settled deps ?s" "tj_work ?s = []" "set order \<subseteq> fst ` set (tj_index ?s)"
    by (simp_all add: tarjan_def initial_tarjan_def)
  have st: "tj_stack ?s = []" using s by (simp add: tarjan_settled_def tarjan_stacks_def)
  have "edge_rel deps \<inter> finished ?s \<times> finished ?s = edge_rel deps" using assms(2) s by (auto simp: finished_def)
  then have "tj_components ?s = [] \<and> acyclic (edge_rel deps)" if "tarjan_path deps ?s"
    using that unfolding tarjan_path_def by simp
  moreover have "tj_components ?s \<noteq> []" if "cycle_pending ?s" using that s(2) st by (simp add: cycle_pending_def)
  ultimately show ?thesis using s(1) unfolding tarjan_settled_def by blast
qed

lemma deps_map_of_get:
  "dget (fold (\<lambda>(i, ds) m. dput i (f i ds) m) ts m) v =
     (case map_of (rev ts) v of Some ds \<Rightarrow> Some (f v ds) | None \<Rightarrow> dget m v)"
  by (induction ts arbitrary: m) (auto simp: map_add_def split: option.splits)

lemma deps_map_edges:
  assumes "distinct (map fst targets)"
  shows "edge_rel (deps_map_of targets) = {(v, w). \<exists>ds. (v, ds) \<in> set targets \<and> w \<in> set ds \<and> w \<noteq> v \<and> w \<in> fst ` set targets}"
proof -
  have "map_of (rev targets) = map_of targets" using assms by (intro map_of_inject_set [THEN iffD2]) (simp_all add: rev_map [symmetric])
  then have E: "edges_of (deps_map_of targets) v =
      (case map_of targets v of Some ds \<Rightarrow> filter (\<lambda>d. d \<noteq> v \<and> d \<in> fst ` set targets) ds | None \<Rightarrow> [])" for v
    unfolding edges_of_def deps_map_of_def by (simp add: deps_map_of_get [where f = "\<lambda>i. filter (\<lambda>d. d \<noteq> i \<and> d \<in> fst ` set targets)"] split: option.splits)
  have M: "(v, ds) \<in> set targets \<longleftrightarrow> map_of targets v = Some ds" for v ds
    using assms by (simp add: map_of_eq_Some_iff)
  have "(v, w) \<in> edge_rel (deps_map_of targets) \<longleftrightarrow>
      (\<exists>ds. (v, ds) \<in> set targets \<and> w \<in> set ds \<and> w \<noteq> v \<and> w \<in> fst ` set targets)" for v w
    unfolding edge_rel_def M by (cases "map_of targets v") (simp_all add: E)
  then show ?thesis by auto
qed

definition target_pairs :: "GoalTarget list \<Rightarrow> (TargetId \<times> TargetId list) list" where
  "target_pairs targets = map (\<lambda>t. (t_id t, t_dependsOn t)) targets"

lemma target_pairs_edges:
  assumes "distinct (map t_id targets)"
  shows "edge_rel (deps_map_of (target_pairs targets)) = (dep_rel targets - Id)\<inverse>"
proof -
  have "distinct (map fst (target_pairs targets))" using assms by (simp add: target_pairs_def comp_def)
  from deps_map_edges [OF this] show ?thesis by (auto simp: target_pairs_def dep_rel_def image_iff)
qed

lemma findCycles_iff:
  assumes "distinct (map t_id targets)"
  shows "findCycles localeCompare (target_pairs targets) = [] \<longleftrightarrow> acyclic (dep_rel targets - Id)"
proof -
  let ?deps = "deps_map_of (target_pairs targets)"
  let ?order = "sort_by compare_str (uniq (map fst (target_pairs targets)))"
  note edges = target_pairs_edges [OF assms]
  have "v \<notin> set (edges_of ?deps v)" for v
  proof
    assume "v \<in> set (edges_of ?deps v)"
    then have "(v, v) \<in> edge_rel ?deps" by (simp add: edge_rel_def)
    then show False unfolding edges by simp
  qed
  moreover have "edge_rel ?deps \<subseteq> set ?order \<times> set ?order"
    unfolding edges by (auto simp: dep_rel_def target_pairs_def)
  ultimately have "tj_components (tarjan ?deps ?order) = [] \<longleftrightarrow> acyclic (edge_rel ?deps)" by (rule tarjan_components_iff)
  then show ?thesis by (simp add: findCycles_def Let_def edges)
qed

text \<open>
  The cycle search is exact: for targets with distinct ids it reports nothing if and only if the
  dependency relation between known targets, leaving self-dependencies aside, is acyclic.
\<close>

theorem findCycles_exact:
  assumes "distinct (map t_id targets)"
  shows "findCycles localeCompare (target_pairs targets) = [] \<longleftrightarrow> acyclic (dep_rel targets - Id)"
  using assms by (rule findCycles_iff)

definition cyclic_targets :: "GoalTarget list" where
  "cyclic_targets = [sample_target ''A'' [''C''] 1, sample_target ''B'' [''A''] 1, sample_target ''C'' [''B''] 1]"

theorem findCycles_exact_witness:
  "findCycles compare_str (target_pairs sample_targets) = [] \<and> acyclic (dep_rel sample_targets - Id) \<and>
     findCycles compare_str (target_pairs cyclic_targets) = [[''A'', ''C'', ''B'', ''A'']] \<and> \<not> acyclic (dep_rel cyclic_targets - Id)"
proof -
  have found: "findCycles compare_str (target_pairs sample_targets) = []"
    "findCycles compare_str (target_pairs cyclic_targets) = [[''A'', ''C'', ''B'', ''A'']]" by code_simp+
  have "distinct (map t_id sample_targets)" "distinct (map t_id cyclic_targets)"
    by (simp_all add: sample_targets_def cyclic_targets_def sample_target_def)
  from this [THEN findCycles_exact, of compare_str] found show ?thesis by simp
qed

end
