(* ===== verification/Graph_Validation.thy ===== *)
theory Graph_Validation
  imports Graph_Cycles
begin

text \<open>
  Validation of goal graphs: \<open>validateGoalGraph\<close> and its parts in
  \<open>src/packages/goals/src/graph/validation.ts\<close>. The argument is untrusted JSON; an object is its list of
  properties, with distinct names. Issues keep code, path and target ids and drop the message.
  \<open>graph_json\<close> is the JavaScript value of a typed definition.

  The lemmas compute the issues of a typed definition: it is valid exactly when it is well formed,
  that is when identifiers, limits, executors and criteria are as documented, every dependency is
  known and the dependencies are acyclic.
\<close>

subsection \<open>Values\<close>

definition isObject :: "json option \<Rightarrow> bool" where
  "isObject v \<longleftrightarrow> (case v of Some (JObj _) \<Rightarrow> True | _ \<Rightarrow> False)"

fun as_string :: "json \<Rightarrow> string option" where
  "as_string (JStr s) = Some s"
| "as_string _ = None"

definition string_of :: "json option \<Rightarrow> string option" where
  "string_of v = Option.bind v as_string"

fun as_array :: "json option \<Rightarrow> json list option" where
  "as_array (Some (JArr xs)) = Some xs"
| "as_array _ = None"

definition string_array :: "json option \<Rightarrow> string list option" where
  "string_array v =
     (case as_array v of
        None \<Rightarrow> None
      | Some xs \<Rightarrow> if list_all (\<lambda>x. as_string x \<noteq> None) xs then Some (map (\<lambda>x. the (as_string x)) xs) else None)"

definition isStringArray :: "json option \<Rightarrow> bool" where
  "isStringArray v \<longleftrightarrow> string_array v \<noteq> None"

definition nonEmptyString :: "json option \<Rightarrow> bool" where
  "nonEmptyString v \<longleftrightarrow> (case string_of v of Some s \<Rightarrow> trim s \<noteq> [] | None \<Rightarrow> False)"

definition is_boolean :: "json option \<Rightarrow> bool" where
  "is_boolean v \<longleftrightarrow> (case v of Some (JBool _) \<Rightarrow> True | _ \<Rightarrow> False)"

definition finite_number :: "json option \<Rightarrow> rat option" where
  "finite_number v = (case v of Some (JNum q) \<Rightarrow> Some q | _ \<Rightarrow> None)"

definition field :: "json \<Rightarrow> string \<Rightarrow> json option" where
  "field j k = jget j k"

definition code_between :: "nat \<Rightarrow> nat \<Rightarrow> char \<Rightarrow> bool" where
  "code_between lo hi ch \<longleftrightarrow> of_char ch \<in> {lo..hi}"

text \<open>Letters of the two cases and digits\<close>

definition id_char :: "char \<Rightarrow> bool" where
  "id_char ch \<longleftrightarrow> is_digit ch \<or> code_between 65 90 ch \<or> code_between 97 122 ch"

text \<open>\<open>/^[A-Za-z0-9][A-Za-z0-9._-]{0,63}$/\<close>, the pattern of target ids and of node ids\<close>

definition TARGET_ID_PATTERN :: "string \<Rightarrow> bool" where
  "TARGET_ID_PATTERN s \<longleftrightarrow> s \<noteq> [] \<and> length s \<le> 64 \<and> id_char (hd s) \<and> list_all (\<lambda>c. id_char c \<or> c \<in> set ''._-'') (tl s)"

definition MAX_TARGETS :: nat where "MAX_TARGETS = 2000"
definition MAX_EXECUTION_NODES :: nat where "MAX_EXECUTION_NODES = 500"
definition MAX_SAFE_INTEGER :: rat where "MAX_SAFE_INTEGER = 9007199254740991"

definition safe_integer :: "json option \<Rightarrow> rat option" where
  "safe_integer v =
     (case finite_number v of
        Some q \<Rightarrow> if of_int \<lfloor>q\<rfloor> = q \<and> \<bar>q\<bar> \<le> MAX_SAFE_INTEGER then Some q else None
      | None \<Rightarrow> None)"

definition issue :: "GraphValidationIssueCode \<Rightarrow> string \<Rightarrow> TargetId list \<Rightarrow> GraphValidationIssue" where
  "issue c p ts = \<lparr>iss_code = c, iss_path = p, iss_targetIds = ts\<rparr>"

definition when_issue :: "bool \<Rightarrow> GraphValidationIssue \<Rightarrow> GraphValidationIssue list" where
  "when_issue b x = (if b then [x] else [])"

lemma when_issue_Nil [simp]: "when_issue b x = [] \<longleftrightarrow> \<not> b"
  by (simp add: when_issue_def)

subsection \<open>Constitution and limits\<close>

definition INTEGER_LIMITS :: "(string \<times> rat \<times> bool) list" where
  "INTEGER_LIMITS = [(''maxTasksPerRun'', 1, False), (''maxRepairsPerTask'', 0, False), (''maxSameActionNoProgress'', 1, False),
     (''maxRunMinutes'', 1, False), (''maxConcurrentWritersPerWorktree'', 1, False), (''maxConcurrentTargets'', 1, True)]"

definition limit_issue :: "json option \<Rightarrow> string \<times> rat \<times> bool \<Rightarrow> GraphValidationIssue list" where
  "limit_issue v l =
     (case l of (key, mn, optional) \<Rightarrow>
        when_issue (\<not> (v = None \<and> optional) \<and> (case safe_integer v of Some q \<Rightarrow> q < mn | None \<Rightarrow> True))
          (issue INVALID_LIMIT (''constitution.resourceLimits.'' @ key) []))"

definition known_limits :: "string list" where
  "known_limits = map fst INTEGER_LIMITS @ [''hostedSpendUsd'', ''localModelFirst'']"

definition validateLimits :: "json option \<Rightarrow> GraphValidationIssue list" where
  "validateLimits limits =
     (let base = ''constitution.resourceLimits'' in
      case limits of
        Some (JObj fs) \<Rightarrow>
          concat (map (\<lambda>l. limit_issue (map_of fs (fst l)) l) INTEGER_LIMITS) @
          when_issue (case finite_number (map_of fs ''hostedSpendUsd'') of Some q \<Rightarrow> q < 0 | None \<Rightarrow> True)
            (issue INVALID_LIMIT (base @ ''.hostedSpendUsd'') []) @
          when_issue (\<not> is_boolean (map_of fs ''localModelFirst'')) (issue INVALID_LIMIT (base @ ''.localModelFirst'') []) @
          concat (map (\<lambda>key. when_issue (key \<notin> set known_limits) (issue INVALID_LIMIT (base @ ''.'' @ key) [])) (map fst fs))
      | _ \<Rightarrow> [issue SCHEMA base []])"

definition validateConstitution :: "json option \<Rightarrow> GraphValidationIssue list" where
  "validateConstitution c =
     (case c of
        Some (JObj fs) \<Rightarrow>
          when_issue (map_of fs ''objectiveOwner'' \<noteq> Some (JStr ''human'')) (issue SCHEMA ''constitution.objectiveOwner'' []) @
          concat (map (\<lambda>k. when_issue (\<not> isStringArray (map_of fs k)) (issue SCHEMA (''constitution.'' @ k) []))
            [''invariants'', ''allowedUnattended'', ''needsApproval'']) @
          validateLimits (map_of fs ''resourceLimits'')
      | _ \<Rightarrow> [issue SCHEMA ''constitution'' []])"

subsection \<open>Execution graph\<close>

definition indexed :: "string \<Rightarrow> nat \<Rightarrow> string" where
  "indexed base i = base @ ''['' @ show_nat i @ '']''"

definition node_ident :: "json \<Rightarrow> string option" where
  "node_ident n = (case string_of (field n ''id'') of Some i \<Rightarrow> if TARGET_ID_PATTERN i then Some i else None | None \<Rightarrow> None)"

text \<open>The first pass collects the ids, the second checks where \<open>next\<close> points to.\<close>

fun node_issues :: "nat \<Rightarrow> string list \<Rightarrow> json list \<Rightarrow> GraphValidationIssue list \<times> string list" where
  "node_issues i ids [] = ([], ids)"
| "node_issues i ids (n # ns) =
     (case node_ident n of
        None \<Rightarrow> (let (rest, ids') = node_issues (Suc i) ids ns in (issue SCHEMA (indexed ''executionGraph.nodes'' i) [] # rest, ids'))
      | Some v \<Rightarrow>
          (let (rest, ids') = node_issues (Suc i) (ids @ [v]) ns in
           (when_issue (v \<in> set ids) (issue SCHEMA (indexed ''executionGraph.nodes'' i @ ''.id'') []) @
            when_issue (\<not> isStringArray (field n ''next'')) (issue SCHEMA (indexed ''executionGraph.nodes'' i @ ''.next'') []) @
            when_issue (field n ''promptId'' \<noteq> None \<and> \<not> nonEmptyString (field n ''promptId''))
              (issue SCHEMA (indexed ''executionGraph.nodes'' i @ ''.promptId'') []) @ rest, ids')))"

definition next_issues :: "string list \<Rightarrow> nat \<Rightarrow> json \<Rightarrow> GraphValidationIssue list" where
  "next_issues ids i n =
     (case string_array (field n ''next'') of
        None \<Rightarrow> []
      | Some ns \<Rightarrow> concat (map (\<lambda>x. when_issue (x \<notin> set ids) (issue SCHEMA (indexed ''executionGraph.nodes'' i @ ''.next'') [])) ns))"

definition validateExecutionGraph :: "json option \<Rightarrow> GraphValidationIssue list \<times> string list option" where
  "validateExecutionGraph g =
     (case g of
        Some (JObj fs) \<Rightarrow>
          (case as_array (map_of fs ''nodes'') of
             None \<Rightarrow> ([issue SCHEMA ''executionGraph.nodes'' []], None)
           | Some nodes \<Rightarrow>
               (let (issues, ids) = node_issues 0 [] nodes in
                (when_issue (length nodes > MAX_EXECUTION_NODES) (issue SCHEMA ''executionGraph.nodes'' []) @ issues @
                 concat (map (\<lambda>(i, n). next_issues ids i n) (enumerate 0 nodes)) @
                 when_issue (case string_of (map_of fs ''entry'') of Some e \<Rightarrow> e \<notin> set ids | None \<Rightarrow> True)
                   (issue SCHEMA ''executionGraph.entry'' []), Some ids)))
      | _ \<Rightarrow> ([issue SCHEMA ''executionGraph'' []], None))"

subsection \<open>Targets\<close>

definition acceptance_ok :: "json option \<Rightarrow> bool" where
  "acceptance_ok v = (case string_array v of Some as \<Rightarrow> as \<noteq> [] \<and> (\<forall>a \<in> set as. trim a \<noteq> []) | None \<Rightarrow> False)"

definition depends_on_ok :: "json option \<Rightarrow> bool" where
  "depends_on_ok v = (case string_array v of Some ds \<Rightarrow> distinct ds | None \<Rightarrow> False)"

definition id_list :: "json \<Rightarrow> TargetId list" where
  "id_list t = (case string_of (field t ''id'') of Some i \<Rightarrow> [i] | None \<Rightarrow> [])"

text \<open>The \<open>schema\<close> issues of one target, in the order of the checks\<close>

definition target_schema_issues :: "nat \<Rightarrow> json \<Rightarrow> GraphValidationIssue list" where
  "target_schema_issues i t =
     (let schema = (\<lambda>bad f. when_issue bad (issue SCHEMA (indexed ''targets'' i @ ''.'' @ f) (id_list t))) in
      schema (case string_of (field t ''id'') of Some s \<Rightarrow> \<not> TARGET_ID_PATTERN s | None \<Rightarrow> True) ''id'' @
      schema (\<not> nonEmptyString (field t ''stage'')) ''stage'' @
      schema (\<not> nonEmptyString (field t ''title'')) ''title'' @
      schema (\<not> depends_on_ok (field t ''dependsOn'')) ''dependsOn'' @
      schema (finite_number (field t ''priority'') = None) ''priority'' @
      schema (\<not> nonEmptyString (field t ''executor'')) ''executor'' @
      schema (\<not> isStringArray (field t ''artifacts'')) ''artifacts'' @
      schema (\<not> acceptance_ok (field t ''acceptance'')) ''acceptance'' @
      schema (field t ''externalDependency'' \<noteq> None \<and> \<not> is_boolean (field t ''externalDependency'')) ''externalDependency'' @
      schema (field t ''requiresApproval'' \<noteq> None \<and> \<not> is_boolean (field t ''requiresApproval'')) ''requiresApproval'')"

record TargetPass =
  tp_issues :: "GraphValidationIssue list"
  tp_seen :: "(TargetId, nat) dict"
  tp_wellFormed :: "(TargetId \<times> TargetId list) list"

definition unknown_executor :: "string list option \<Rightarrow> json \<Rightarrow> bool" where
  "unknown_executor nodeIds t \<longleftrightarrow>
     nonEmptyString (field t ''executor'') \<and>
     (case nodeIds of None \<Rightarrow> False | Some ids \<Rightarrow> the (string_of (field t ''executor'')) \<notin> set ids)"

definition check_target :: "string list option \<Rightarrow> nat \<Rightarrow> json \<Rightarrow> TargetPass \<Rightarrow> TargetPass" where
  "check_target nodeIds i t s =
     (if \<not> isObject (Some t) then s\<lparr>tp_issues := tp_issues s @ [issue SCHEMA (indexed ''targets'' i) []]\<rparr>
      else let schema = target_schema_issues i t;
               ident = string_of (field t ''id'');
               duplicate = (case ident of Some d \<Rightarrow> d \<in> set (dkeys (tp_seen s)) | None \<Rightarrow> False)
           in s\<lparr>tp_issues := tp_issues s @ schema @
                  when_issue duplicate (issue DUPLICATE_TARGET (indexed ''targets'' i @ ''.id'') (id_list t)) @
                  when_issue (unknown_executor nodeIds t) (issue UNKNOWN_EXECUTOR (indexed ''targets'' i @ ''.executor'') (id_list t)),
                tp_seen := (case ident of Some d \<Rightarrow> if duplicate then tp_seen s else dput d i (tp_seen s) | None \<Rightarrow> tp_seen s),
                tp_wellFormed := (if schema = [] \<and> \<not> duplicate
                   then tp_wellFormed s @ [(the ident, the (string_array (field t ''dependsOn'')))] else tp_wellFormed s)\<rparr>)"

definition check_targets :: "string list option \<Rightarrow> json list \<Rightarrow> TargetPass" where
  "check_targets nodeIds raws =
     fold (\<lambda>(i, t). check_target nodeIds i t) (enumerate 0 raws) \<lparr>tp_issues = [], tp_seen = [], tp_wellFormed = []\<rparr>"

definition dependency_issue :: "(TargetId, nat) dict \<Rightarrow> TargetId \<Rightarrow> TargetId \<Rightarrow> GraphValidationIssue list" where
  "dependency_issue seen i d =
     (let path = (case dget seen i of Some n \<Rightarrow> indexed ''targets'' n @ ''.dependsOn'' | None \<Rightarrow> []) in
      if d = i then [issue SELF_DEPENDENCY path [i]]
      else when_issue (d \<notin> set (dkeys seen)) (issue UNKNOWN_DEPENDENCY path [i, d]))"

definition dependency_issues :: "(TargetId, nat) dict \<Rightarrow> TargetId \<times> TargetId list \<Rightarrow> GraphValidationIssue list" where
  "dependency_issues seen t = concat (map (dependency_issue seen (fst t)) (snd t))"

definition validateGoalGraph :: "(string \<Rightarrow> string \<Rightarrow> rat) \<Rightarrow> json \<Rightarrow> GraphValidationResult" where
  "validateGoalGraph localeCompare def =
     (if \<not> isObject (Some def) then \<lparr>vr_valid = False, vr_issues = [issue SCHEMA [] []]\<rparr>
      else let (graphIssues, nodeIds) = validateExecutionGraph (field def ''executionGraph'');
               issues = when_issue (\<not> nonEmptyString (field def ''schemaVersion'')) (issue SCHEMA ''schemaVersion'' []) @
                 when_issue (\<not> nonEmptyString (field def ''name'')) (issue SCHEMA ''name'' []) @
                 when_issue (field def ''purpose'' \<noteq> None \<and> string_of (field def ''purpose'') = None) (issue SCHEMA ''purpose'' []) @
                 validateConstitution (field def ''constitution'') @ graphIssues
           in case as_array (field def ''targets'') of
                None \<Rightarrow> \<lparr>vr_valid = False, vr_issues = issues @ [issue SCHEMA ''targets'' []]\<rparr>
              | Some raws \<Rightarrow>
                  (let pass = check_targets nodeIds raws;
                       all = issues @ when_issue (raws = []) (issue SCHEMA ''targets'' []) @
                         when_issue (length raws > MAX_TARGETS) (issue SCHEMA ''targets'' []) @ tp_issues pass @
                         concat (map (dependency_issues (tp_seen pass)) (tp_wellFormed pass)) @
                         map (\<lambda>cycle. issue CYCLE ''targets'' cycle) (findCycles localeCompare (tp_wellFormed pass))
                   in \<lparr>vr_valid = (all = []), vr_issues = all\<rparr>))"

subsection \<open>Typed definitions as JavaScript values\<close>

definition strs :: "string list \<Rightarrow> json" where
  "strs xs = JArr (map JStr xs)"

definition opt_field :: "string \<Rightarrow> json option \<Rightarrow> (string \<times> json) list" where
  "opt_field k v = (case v of Some j \<Rightarrow> [(k, j)] | None \<Rightarrow> [])"

definition limits_json :: "ResourceLimits \<Rightarrow> json" where
  "limits_json l = JObj ([(''maxTasksPerRun'', JNum (of_nat (maxTasksPerRun l))), (''maxRepairsPerTask'', JNum (of_nat (maxRepairsPerTask l))),
     (''maxSameActionNoProgress'', JNum (of_nat (maxSameActionNoProgress l))), (''maxRunMinutes'', JNum (of_nat (maxRunMinutes l))),
     (''hostedSpendUsd'', JNum (hostedSpendUsd l)), (''localModelFirst'', JBool (localModelFirst l)),
     (''maxConcurrentWritersPerWorktree'', JNum (of_nat (maxConcurrentWritersPerWorktree l)))] @
     opt_field ''maxConcurrentTargets'' (map_option (\<lambda>n. JNum (of_nat n)) (maxConcurrentTargets l)))"

definition constitution_json :: "GoalConstitution \<Rightarrow> json" where
  "constitution_json c = JObj [(''objectiveOwner'', JStr ''human''), (''invariants'', strs (con_invariants c)),
     (''resourceLimits'', limits_json (con_resourceLimits c)), (''allowedUnattended'', strs (con_allowedUnattended c)),
     (''needsApproval'', strs (con_needsApproval c))]"

definition target_json :: "GoalTarget \<Rightarrow> json" where
  "target_json t = JObj [(''id'', JStr (t_id t)), (''stage'', JStr (t_stage t)), (''title'', JStr (t_title t)),
     (''dependsOn'', strs (t_dependsOn t)), (''priority'', JNum (t_priority t)), (''executor'', JStr (t_executor t)),
     (''artifacts'', strs (t_artifacts t)), (''acceptance'', strs (t_acceptance t)),
     (''externalDependency'', JBool (t_externalDependency t)), (''requiresApproval'', JBool (t_requiresApproval t))]"

definition node_json :: "PromptGraphNode \<Rightarrow> json" where
  "node_json n = JObj ([(''id'', JStr (n_id n)), (''next'', strs (n_next n))] @ opt_field ''promptId'' (map_option JStr (n_promptId n)))"

definition graph_json :: "GoalGraphDefinition \<Rightarrow> json" where
  "graph_json g = JObj ([(''schemaVersion'', JStr (g_schemaVersion g)), (''name'', JStr (g_name g)),
     (''constitution'', constitution_json (g_constitution g)), (''targets'', JArr (map target_json (g_targets g))),
     (''executionGraph'', JObj [(''entry'', JStr (g_entry g)), (''nodes'', JArr (map node_json (g_nodes g)))])] @
     opt_field ''purpose'' (map_option JStr (g_purpose g)))"

definition assertValid :: "(string \<Rightarrow> string \<Rightarrow> rat) \<Rightarrow> GoalGraphDefinition \<Rightarrow> unit result" where
  "assertValid localeCompare g = guardE (vr_valid (validateGoalGraph localeCompare (graph_json g))) (failure VALIDATION)"

subsection \<open>What a valid graph is\<close>

definition nonblank :: "string \<Rightarrow> bool" where
  "nonblank s \<longleftrightarrow> trim s \<noteq> []"

definition safe_nat :: "nat \<Rightarrow> nat \<Rightarrow> bool" where
  "safe_nat mn n \<longleftrightarrow> mn \<le> n \<and> n \<le> 9007199254740991"

definition well_formed_limits :: "ResourceLimits \<Rightarrow> bool" where
  "well_formed_limits l \<longleftrightarrow> safe_nat 1 (maxTasksPerRun l) \<and> safe_nat 0 (maxRepairsPerTask l) \<and> safe_nat 1 (maxSameActionNoProgress l) \<and>
     safe_nat 1 (maxRunMinutes l) \<and> safe_nat 1 (maxConcurrentWritersPerWorktree l) \<and> 0 \<le> hostedSpendUsd l \<and>
     (case maxConcurrentTargets l of Some n \<Rightarrow> safe_nat 1 n | None \<Rightarrow> True)"

definition well_formed_nodes :: "string \<Rightarrow> PromptGraphNode list \<Rightarrow> bool" where
  "well_formed_nodes entry ns \<longleftrightarrow> length ns \<le> 500 \<and> distinct (map n_id ns) \<and> entry \<in> n_id ` set ns \<and>
     (\<forall>n \<in> set ns. TARGET_ID_PATTERN (n_id n) \<and> set (n_next n) \<subseteq> n_id ` set ns \<and>
        (case n_promptId n of Some p \<Rightarrow> nonblank p | None \<Rightarrow> True))"

definition well_formed_target :: "GoalTarget \<Rightarrow> bool" where
  "well_formed_target t \<longleftrightarrow> TARGET_ID_PATTERN (t_id t) \<and> nonblank (t_stage t) \<and> nonblank (t_title t) \<and> distinct (t_dependsOn t) \<and>
     nonblank (t_executor t) \<and> t_acceptance t \<noteq> [] \<and> (\<forall>a \<in> set (t_acceptance t). nonblank a)"

definition well_formed_graph :: "GoalGraphDefinition \<Rightarrow> bool" where
  "well_formed_graph g \<longleftrightarrow> nonblank (g_schemaVersion g) \<and> nonblank (g_name g) \<and>
     well_formed_limits (con_resourceLimits (g_constitution g)) \<and> well_formed_nodes (g_entry g) (g_nodes g) \<and>
     g_targets g \<noteq> [] \<and> length (g_targets g) \<le> 2000 \<and> distinct (map t_id (g_targets g)) \<and>
     (\<forall>t \<in> set (g_targets g). well_formed_target t \<and> t_executor t \<in> n_id ` set (g_nodes g) \<and> set (t_dependsOn t) \<subseteq> t_id ` set (g_targets g)) \<and>
     acyclic (dep_rel (g_targets g))"

lemma value_simps [simp]:
  "string_of (Some (JStr s)) = Some s" "string_array (Some (strs xs)) = Some xs" "isStringArray (Some (strs xs))"
  "nonEmptyString (Some (JStr s)) \<longleftrightarrow> nonblank s" "is_boolean (Some (JBool b))" "finite_number (Some (JNum q)) = Some q"
  "isObject (Some (JObj fs))"
proof -
  show arr: "string_array (Some (strs xs)) = Some xs"
    by (simp add: string_array_def strs_def list_all_iff comp_def)
  show "isStringArray (Some (strs xs))" by (simp add: isStringArray_def arr)
qed (simp_all add: string_of_def nonEmptyString_def nonblank_def is_boolean_def finite_number_def isObject_def)

lemma limit_issue_nat:
  "limit_issue (Some (JNum (of_nat n))) (k, of_nat mn, b) = [] \<longleftrightarrow> safe_nat mn n"
proof -
  have "\<bar>of_nat n :: rat\<bar> \<le> MAX_SAFE_INTEGER \<longleftrightarrow> n \<le> 9007199254740991"
    by (simp add: MAX_SAFE_INTEGER_def)
  then show ?thesis by (auto simp: limit_issue_def safe_integer_def safe_nat_def)
qed

lemmas limit_issue_simps = limit_issue_nat [where mn = 0, unfolded of_nat_0] limit_issue_nat [where mn = 1, unfolded of_nat_1]

lemma validateLimits_json: "validateLimits (Some (limits_json l)) = [] \<longleftrightarrow> well_formed_limits l"
proof -
  have absent: "limit_issue None (k, mn, True) = []" for k mn by (simp add: limit_issue_def)
  show ?thesis
    by (cases "maxConcurrentTargets l")
      (auto simp: validateLimits_def limits_json_def Let_def INTEGER_LIMITS_def known_limits_def opt_field_def
        limit_issue_simps absent well_formed_limits_def)
qed

lemma validateConstitution_json:
  "validateConstitution (Some (constitution_json c)) = [] \<longleftrightarrow> well_formed_limits (con_resourceLimits c)"
  by (simp add: validateConstitution_def constitution_json_def validateLimits_json)

lemma node_json_fields [simp]:
  "field (node_json n) ''id'' = Some (JStr (n_id n))" "field (node_json n) ''next'' = Some (strs (n_next n))"
  "field (node_json n) ''promptId'' = map_option JStr (n_promptId n)"
  by (cases "n_promptId n"; simp add: field_def node_json_def opt_field_def)+

definition node_ok :: "PromptGraphNode \<Rightarrow> bool" where
  "node_ok n \<longleftrightarrow> TARGET_ID_PATTERN (n_id n) \<and> (case n_promptId n of Some p \<Rightarrow> nonblank p | None \<Rightarrow> True)"

lemma node_issues_json:
  "(fst (node_issues i ids (map node_json ns)) = [] \<longleftrightarrow> (\<forall>n \<in> set ns. node_ok n) \<and> distinct (map n_id ns) \<and> set ids \<inter> n_id ` set ns = {}) \<and>
   ((\<forall>n \<in> set ns. node_ok n) \<longrightarrow> snd (node_issues i ids (map node_json ns)) = ids @ map n_id ns)"
proof (induction ns arbitrary: i ids)
  case (Cons n ns)
  show ?case
  proof (cases "TARGET_ID_PATTERN (n_id n)")
    case True
    then have "node_ident (node_json n) = Some (n_id n)" by (simp add: node_ident_def)
    moreover have "(field (node_json n) ''promptId'' \<noteq> None \<and> \<not> nonEmptyString (field (node_json n) ''promptId'')) = (\<not> node_ok n)"
      using True by (cases "n_promptId n") (simp_all add: node_ok_def)
    ultimately show ?thesis using Cons.IH [of "Suc i" "ids @ [n_id n]"] by (auto simp: split_beta)
  next
    case False
    then show ?thesis by (simp add: node_ident_def node_ok_def split_beta)
  qed
qed simp

lemma ball_enumerate_map:
  "(\<And>i x. P i (f x) \<longleftrightarrow> Q x) \<Longrightarrow> (\<forall>(i, y) \<in> set (enumerate k (map f xs)). P i y) \<longleftrightarrow> (\<forall>x \<in> set xs. Q x)"
  by (induction xs arbitrary: k) auto

lemma next_issues_json: "next_issues known i (node_json n) = [] \<longleftrightarrow> set (n_next n) \<subseteq> set known"
  by (auto simp: next_issues_def)

lemma validateExecutionGraph_json:
  assumes "validateExecutionGraph (Some (JObj [(''entry'', JStr entry), (''nodes'', JArr (map node_json ns))])) = (issues, ids)"
  shows "(issues = [] \<longleftrightarrow> well_formed_nodes entry ns) \<and> (issues = [] \<longrightarrow> ids = Some (map n_id ns))"
proof -
  obtain found known where ni: "node_issues 0 [] (map node_json ns) = (found, known)" by fastforce
  have found: "found = [] \<longleftrightarrow> (\<forall>n \<in> set ns. node_ok n) \<and> distinct (map n_id ns)"
    and known: "found = [] \<Longrightarrow> known = map n_id ns"
    using node_issues_json [of 0 "[]" ns] ni by auto
  have ids: "ids = Some known" using assms by (simp add: validateExecutionGraph_def ni split_beta)
  have "issues = [] \<longleftrightarrow> length ns \<le> MAX_EXECUTION_NODES \<and> found = [] \<and>
      (\<forall>(i, n) \<in> set (enumerate 0 (map node_json ns)). next_issues known i n = []) \<and> entry \<in> set known"
    using assms by (auto simp: validateExecutionGraph_def ni)
  moreover have "(\<forall>(i, n) \<in> set (enumerate 0 (map node_json ns)). next_issues known i n = []) \<longleftrightarrow> (\<forall>n \<in> set ns. set (n_next n) \<subseteq> set known)"
    by (rule ball_enumerate_map) (rule next_issues_json)
  ultimately have issues: "issues = [] \<longleftrightarrow> length ns \<le> 500 \<and> found = [] \<and> (\<forall>n \<in> set ns. set (n_next n) \<subseteq> set known) \<and> entry \<in> set known"
    by (simp add: MAX_EXECUTION_NODES_def)
  show ?thesis
  proof (cases "found = []")
    case True
    with issues ids found known show ?thesis unfolding well_formed_nodes_def node_ok_def by auto
  next
    case False
    with issues found show ?thesis unfolding well_formed_nodes_def node_ok_def by blast
  qed
qed

lemma target_json_fields [simp]:
  "field (target_json t) ''id'' = Some (JStr (t_id t))" "field (target_json t) ''stage'' = Some (JStr (t_stage t))"
  "field (target_json t) ''title'' = Some (JStr (t_title t))" "field (target_json t) ''dependsOn'' = Some (strs (t_dependsOn t))"
  "field (target_json t) ''priority'' = Some (JNum (t_priority t))" "field (target_json t) ''executor'' = Some (JStr (t_executor t))"
  "field (target_json t) ''artifacts'' = Some (strs (t_artifacts t))" "field (target_json t) ''acceptance'' = Some (strs (t_acceptance t))"
  "field (target_json t) ''externalDependency'' = Some (JBool (t_externalDependency t))"
  "field (target_json t) ''requiresApproval'' = Some (JBool (t_requiresApproval t))" "isObject (Some (target_json t))"
  by (simp_all add: field_def target_json_def)

lemma target_schema_issues_json: "target_schema_issues i (target_json t) = [] \<longleftrightarrow> well_formed_target t"
  by (auto simp: target_schema_issues_def Let_def depends_on_ok_def acceptance_ok_def well_formed_target_def nonblank_def)

definition target_accepted :: "string list \<Rightarrow> GoalTarget \<Rightarrow> bool" where
  "target_accepted ids t \<longleftrightarrow> well_formed_target t \<and> t_executor t \<in> set ids"

lemma check_target_json:
  fixes t ids i s
  defines "s' \<equiv> check_target (Some ids) i (target_json t) s"
  shows "tp_issues s' = [] \<longleftrightarrow> tp_issues s = [] \<and> target_accepted ids t \<and> t_id t \<notin> set (dkeys (tp_seen s))"
    and "tp_issues s' = [] \<Longrightarrow> set (dkeys (tp_seen s')) = insert (t_id t) (set (dkeys (tp_seen s)))"
    and "tp_issues s' = [] \<Longrightarrow> tp_wellFormed s' = tp_wellFormed s @ target_pairs [t]"
proof -
  have "unknown_executor (Some ids) (target_json t) \<longleftrightarrow> nonblank (t_executor t) \<and> t_executor t \<notin> set ids"
    by (simp add: unknown_executor_def)
  then show accepted: "tp_issues s' = [] \<longleftrightarrow> tp_issues s = [] \<and> target_accepted ids t \<and> t_id t \<notin> set (dkeys (tp_seen s))"
    unfolding s'_def check_target_def target_accepted_def
    by (auto simp: Let_def target_schema_issues_json well_formed_target_def)
  assume "tp_issues s' = []"
  then show "set (dkeys (tp_seen s')) = insert (t_id t) (set (dkeys (tp_seen s)))" "tp_wellFormed s' = tp_wellFormed s @ target_pairs [t]"
    unfolding accepted unfolding s'_def check_target_def target_accepted_def
    by (auto simp: Let_def target_schema_issues_json target_pairs_def)
qed

lemma check_targets_json:
  fixes ts ids i s
  defines "s' \<equiv> fold (\<lambda>(i, t). check_target (Some ids) i t) (enumerate i (map target_json ts)) s"
  shows "(tp_issues s' = [] \<longleftrightarrow> tp_issues s = [] \<and> (\<forall>t \<in> set ts. target_accepted ids t) \<and> distinct (map t_id ts) \<and>
      set (dkeys (tp_seen s)) \<inter> t_id ` set ts = {}) \<and>
    (tp_issues s' = [] \<longrightarrow> set (dkeys (tp_seen s')) = set (dkeys (tp_seen s)) \<union> t_id ` set ts \<and>
      tp_wellFormed s' = tp_wellFormed s @ target_pairs ts)"
  unfolding s'_def
proof (induction ts arbitrary: i s)
  case Nil
  then show ?case by (simp add: target_pairs_def)
next
  case (Cons t ts)
  let ?s = "check_target (Some ids) i (target_json t) s"
  note step = check_target_json [of ids i t s]
  show ?case
  proof (cases "tp_issues ?s = []")
    case True
    with Cons.IH [of "Suc i" ?s] step show ?thesis by (auto simp: target_pairs_def)
  next
    case False
    with Cons.IH [of "Suc i" ?s] step(1) show ?thesis by auto
  qed
qed

lemma dependency_issues_json:
  "dependency_issues seen (v, ds) = [] \<longleftrightarrow> v \<notin> set ds \<and> set ds \<subseteq> set (dkeys seen)"
proof -
  have "dependency_issue seen v d = [] \<longleftrightarrow> d \<noteq> v \<and> d \<in> set (dkeys seen)" for d
    by (simp add: dependency_issue_def Let_def)
  then show ?thesis by (auto simp: dependency_issues_def)
qed

lemma graph_json_fields [simp]:
  "field (graph_json g) ''schemaVersion'' = Some (JStr (g_schemaVersion g))" "field (graph_json g) ''name'' = Some (JStr (g_name g))"
  "field (graph_json g) ''constitution'' = Some (constitution_json (g_constitution g))"
  "field (graph_json g) ''targets'' = Some (JArr (map target_json (g_targets g)))"
  "field (graph_json g) ''executionGraph'' = Some (JObj [(''entry'', JStr (g_entry g)), (''nodes'', JArr (map node_json (g_nodes g)))])"
  "field (graph_json g) ''purpose'' = map_option JStr (g_purpose g)" "isObject (Some (graph_json g))"
  by (cases "g_purpose g"; simp add: field_def graph_json_def opt_field_def)+

lemma acyclic_no_self:
  "(\<forall>t \<in> set ts. t_id t \<notin> set (t_dependsOn t)) \<Longrightarrow> dep_rel ts - Id = dep_rel ts"
  by (auto simp: dep_rel_def)

lemma validateGoalGraph_iff:
  "vr_valid (validateGoalGraph localeCompare (graph_json g)) \<longleftrightarrow> well_formed_graph g"
proof -
  let ?ts = "g_targets g"
  obtain nodeIssues ids where eg: "validateExecutionGraph (field (graph_json g) ''executionGraph'') = (nodeIssues, ids)" by fastforce
  note nodes = validateExecutionGraph_json [OF eg [unfolded graph_json_fields]]
  let ?pass = "check_targets ids (map target_json ?ts)"
  have purpose: "\<not> (field (graph_json g) ''purpose'' \<noteq> None \<and> string_of (field (graph_json g) ''purpose'') = None)"
    by (cases "g_purpose g") simp_all
  have valid: "vr_valid (validateGoalGraph localeCompare (graph_json g)) \<longleftrightarrow>
      nonblank (g_schemaVersion g) \<and> nonblank (g_name g) \<and> well_formed_limits (con_resourceLimits (g_constitution g)) \<and> nodeIssues = [] \<and>
      ?ts \<noteq> [] \<and> length ?ts \<le> MAX_TARGETS \<and> tp_issues ?pass = [] \<and>
      (\<forall>t \<in> set (tp_wellFormed ?pass). dependency_issues (tp_seen ?pass) t = []) \<and> findCycles localeCompare (tp_wellFormed ?pass) = []"
    using eg purpose by (simp add: validateGoalGraph_def Let_def validateConstitution_json not_less)
  have pass: "(tp_issues ?pass = [] \<longleftrightarrow> (\<forall>t \<in> set ?ts. target_accepted (map n_id (g_nodes g)) t) \<and> distinct (map t_id ?ts)) \<and>
      (tp_issues ?pass = [] \<longrightarrow> set (dkeys (tp_seen ?pass)) = t_id ` set ?ts \<and> tp_wellFormed ?pass = target_pairs ?ts)" if "nodeIssues = []"
    using that nodes check_targets_json [of "map n_id (g_nodes g)" 0 ?ts "\<lparr>tp_issues = [], tp_seen = [], tp_wellFormed = []\<rparr>"]
    by (simp add: check_targets_def)
  show ?thesis
  proof (cases "nodeIssues = [] \<and> tp_issues ?pass = []")
    case True
    with pass have ok: "\<forall>t \<in> set ?ts. target_accepted (map n_id (g_nodes g)) t" "distinct (map t_id ?ts)"
      "set (dkeys (tp_seen ?pass)) = t_id ` set ?ts" "tp_wellFormed ?pass = target_pairs ?ts" by simp_all
    have deps: "(\<forall>t \<in> set (tp_wellFormed ?pass). dependency_issues (tp_seen ?pass) t = []) \<longleftrightarrow>
        (\<forall>t \<in> set ?ts. t_id t \<notin> set (t_dependsOn t)) \<and> (\<forall>t \<in> set ?ts. set (t_dependsOn t) \<subseteq> t_id ` set ?ts)"
      unfolding ok(4) target_pairs_def by (auto simp: dependency_issues_json ok(3) [simplified])
    have cycles: "findCycles localeCompare (tp_wellFormed ?pass) = [] \<longleftrightarrow> acyclic (dep_rel ?ts - Id)"
      unfolding ok(4) using ok(2) by (rule findCycles_iff)
    have "(t_id t, t_id t) \<in> dep_rel ?ts" if "t \<in> set ?ts" "t_id t \<in> set (t_dependsOn t)" for t
      using that by (auto simp: dep_rel_def)
    then have self: "t_id t \<notin> set (t_dependsOn t)" if "acyclic (dep_rel ?ts)" "t \<in> set ?ts" for t
      using that unfolding acyclic_def by blast
    have "(\<forall>t \<in> set ?ts. t_id t \<notin> set (t_dependsOn t)) \<and> acyclic (dep_rel ?ts - Id) \<longleftrightarrow> acyclic (dep_rel ?ts)"
      using self acyclic_no_self [of ?ts] by (metis (no_types))
    moreover have "\<forall>t \<in> set ?ts. well_formed_target t \<and> t_executor t \<in> n_id ` set (g_nodes g)"
      using ok(1) by (simp add: target_accepted_def)
    ultimately show ?thesis using True nodes ok(2) unfolding valid deps cycles well_formed_graph_def MAX_TARGETS_def by blast
  next
    case False
    then have "\<not> well_formed_graph g" using nodes pass unfolding well_formed_graph_def target_accepted_def by auto
    with False show ?thesis unfolding valid by blast
  qed
qed

text \<open>
  C34. Validation accepts exactly the well-formed graphs. For every typed definition,
  \<open>validateGoalGraph\<close> reports no issue if and only if names are not blank, ids match their pattern and
  are unique, limits are safe integers in range, every node, executor and dependency reference is
  known, every target has non-blank criteria, and the dependency relation is acyclic.
\<close>

theorem validateGoalGraph_exact:
  "vr_valid (validateGoalGraph localeCompare (graph_json g)) \<longleftrightarrow> well_formed_graph g"
  by (rule validateGoalGraph_iff)

lemma assertValid_iff: "assertValid localeCompare g = Inr u \<longleftrightarrow> well_formed_graph g"
  by (simp add: assertValid_def guardE_Inr validateGoalGraph_iff)

end
