(* ===== verification/Graph_Order.thy ===== *)
theory Graph_Order
  imports Graph_Validation "HOL-Library.Product_Lexorder"
begin

text \<open>
  Orders on a valid graph: \<open>topologicalOrder\<close>, \<open>criticalPath\<close>, \<open>dependents\<close> and \<open>rootTargets\<close> of
  \<open>src/packages/goals/src/graph/validation.ts\<close>. Kahn's algorithm keeps its \<open>remaining\<close> map as a dictionary
  of the dependencies not yet placed.

  The lemmas show that the topological order contains every target once, after its dependencies
  and with the best ready target first at every position, that the critical path is a heaviest
  chain from a root, and that the transitive dependents are the targets reachable in the dependency
  relation.
\<close>

definition byPriorityThenId :: "GoalTarget \<Rightarrow> GoalTarget \<Rightarrow> rat" where
  "byPriorityThenId a b = (if t_priority b \<noteq> t_priority a then t_priority b - t_priority a else compare_str (t_id a) (t_id b))"

interpretation priority_order: comparator byPriorityThenId
  by (rule comparator_key [where key = "\<lambda>t. (- t_priority t, t_id t)"])
    (auto simp: byPriorityThenId_def compare_str_def less_eq_prod_def)

subsection \<open>Topological order\<close>

type_synonym remaining_map = "(TargetId, TargetId list) dict"

definition newly_ready :: "GoalTarget list \<Rightarrow> TargetId \<Rightarrow> remaining_map \<Rightarrow> GoalTarget list" where
  "newly_ready targets placed remaining =
     List.map_filter (\<lambda>(i, ds). if placed \<in> set ds \<and> removeAll placed ds = [] then map_of (map (\<lambda>t. (t_id t, t)) (rev targets)) i else None) remaining"

definition place :: "TargetId \<Rightarrow> remaining_map \<Rightarrow> remaining_map" where
  "place placed remaining = map (\<lambda>(i, ds). (i, removeAll placed ds)) remaining"

definition open_entries :: "remaining_map \<Rightarrow> nat" where
  "open_entries remaining = length (filter (\<lambda>(i, ds). ds \<noteq> []) remaining)"

lemma newly_ready_open: "length (newly_ready targets i rem) + open_entries (place i rem) \<le> open_entries rem"
proof (induction rem)
  case (Cons e rem)
  obtain v ds where "e = (v, ds)" by (cases e)
  with Cons show ?case
    by (auto simp: newly_ready_def place_def open_entries_def map_filter_simps split: option.splits)
qed (simp add: newly_ready_def place_def open_entries_def map_filter_simps)

lemma open_entries_delete: "open_entries (AList.delete i rem) \<le> open_entries rem"
  by (induction rem) (auto simp: open_entries_def)

function topo_loop :: "GoalTarget list \<Rightarrow> remaining_map \<Rightarrow> GoalTarget list \<Rightarrow> GoalTarget list \<Rightarrow> GoalTarget list" where
  "topo_loop targets remaining [] out = out"
| "topo_loop targets remaining (t # ready) out =
     (let rest = AList.delete (t_id t) remaining
      in topo_loop targets (place (t_id t) rest) (sort_by byPriorityThenId (ready @ newly_ready targets (t_id t) rest)) (out @ [t]))"
  by pat_completeness auto
termination
proof (relation "measure (\<lambda>(targets, remaining, ready, out). length ready + open_entries remaining)", goal_cases)
  case (2 targets remaining t ready out rest)
  have "length (newly_ready targets (t_id t) rest) + open_entries (place (t_id t) rest) \<le> open_entries remaining"
    using newly_ready_open [of targets "t_id t" rest] open_entries_delete [of "t_id t" remaining] 2 by simp
  then show ?case by simp
qed simp

definition remaining_of :: "GoalTarget list \<Rightarrow> remaining_map" where
  "remaining_of targets = fold (\<lambda>t. dput (t_id t) (uniq (t_dependsOn t))) targets []"

definition topoTargets :: "GoalTarget list \<Rightarrow> GoalTarget list" where
  "topoTargets targets =
     topo_loop targets (remaining_of targets) (sort_by byPriorityThenId (filter (\<lambda>t. t_dependsOn t = []) targets)) []"

definition topologicalOrder :: "(string \<Rightarrow> string \<Rightarrow> rat) \<Rightarrow> GoalGraphDefinition \<Rightarrow> TargetId list result" where
  "topologicalOrder localeCompare g =
     bindE (assertValid localeCompare g) (\<lambda>_. Inr (map t_id (topoTargets (g_targets g))))"

subsection \<open>Critical path\<close>

record CriticalPathResult =
  cp_path :: "TargetId list"
  cp_weight :: rat

fun comparePaths :: "TargetId list \<Rightarrow> TargetId list \<Rightarrow> int" where
  "comparePaths (x # xs) (y # ys) = (if x \<noteq> y then (if x < y then -1 else 1) else comparePaths xs ys)"
| "comparePaths xs ys = int (length xs) - int (length ys)"

definition better :: "CriticalPathResult \<Rightarrow> CriticalPathResult option \<Rightarrow> CriticalPathResult" where
  "better c p =
     (case p of
        None \<Rightarrow> c
      | Some p \<Rightarrow> if cp_weight c > cp_weight p \<or> cp_weight c = cp_weight p \<and> comparePaths (cp_path c) (cp_path p) < 0 then c else p)"

text \<open>
  \<open>best.get(dep)!\<close> is defined for every dependency, as dependencies come first in the order; a
  missing entry is passed over.
\<close>

definition best_of :: "(TargetId, CriticalPathResult) dict \<Rightarrow> TargetId list \<Rightarrow> CriticalPathResult option" where
  "best_of best is = fold (\<lambda>i p. case dget best i of Some c \<Rightarrow> Some (better c p) | None \<Rightarrow> p) is None"

definition path_step :: "GoalTarget \<Rightarrow> (TargetId, CriticalPathResult) dict \<Rightarrow> (TargetId, CriticalPathResult) dict" where
  "path_step t best =
     (let pred = best_of best (sort_by compare_str (t_dependsOn t)) in
      dput (t_id t) \<lparr>cp_path = (case pred of Some p \<Rightarrow> cp_path p | None \<Rightarrow> []) @ [t_id t],
                    cp_weight = (case pred of Some p \<Rightarrow> cp_weight p | None \<Rightarrow> 0) + t_priority t\<rparr> best)"

definition criticalPath :: "(string \<Rightarrow> string \<Rightarrow> rat) \<Rightarrow> GoalGraphDefinition \<Rightarrow> CriticalPathResult result" where
  "criticalPath localeCompare g =
     bindE (assertValid localeCompare g)
       (\<lambda>_. let order = topoTargets (g_targets g); best = fold path_step order []
            in Inr (case best_of best (map t_id order) of Some c \<Rightarrow> c | None \<Rightarrow> \<lparr>cp_path = [], cp_weight = 0\<rparr>))"

subsection \<open>Dependents and roots\<close>

text \<open>One turn of the \<open>while\<close> loop of \<open>dependents\<close>; \<open>found\<close> and \<open>frontier\<close> have their last element first.\<close>

fun scan_dependents :: "bool \<Rightarrow> TargetId \<Rightarrow> TargetId \<Rightarrow> GoalTarget list \<Rightarrow> TargetId list \<times> TargetId list \<Rightarrow> TargetId list \<times> TargetId list" where
  "scan_dependents transitive self cur [] (found, frontier) = (found, frontier)"
| "scan_dependents transitive self cur (t # ts) (found, frontier) =
     (if cur \<in> set (t_dependsOn t) \<and> t_id t \<notin> set found \<and> t_id t \<noteq> self
      then scan_dependents transitive self cur ts (t_id t # found, if transitive then t_id t # frontier else frontier)
      else scan_dependents transitive self cur ts (found, frontier))"

lemma scan_dependents_measure:
  assumes "scan_dependents tr self cur ts (found, frontier) = (found', frontier')" and "set ts \<subseteq> set targets"
  shows "set found \<subseteq> set found' \<and> length frontier' + card (t_id ` set targets - set found') \<le> length frontier + card (t_id ` set targets - set found)"
  using assms
proof (induction ts arbitrary: found frontier)
  case (Cons t ts)
  show ?case
  proof (cases "cur \<in> set (t_dependsOn t) \<and> t_id t \<notin> set found \<and> t_id t \<noteq> self")
    case True
    let ?S = "t_id ` set targets - set found"
    have "t_id t \<in> ?S" using True Cons.prems by auto
    then have "card ?S = Suc (card (?S - {t_id t}))" by (intro card_Suc_Diff1 [symmetric]) simp_all
    moreover have "t_id ` set targets - set (t_id t # found) = ?S - {t_id t}" by auto
    moreover have "scan_dependents tr self cur ts (t_id t # found, if tr then t_id t # frontier else frontier) = (found', frontier')"
      using True Cons.prems(1) by simp
    note IH = Cons.IH [OF this]
    moreover have "length (if tr then t_id t # frontier else frontier) \<le> Suc (length frontier)" by simp
    ultimately show ?thesis using Cons.prems(2) by simp
  next
    case False
    then have "scan_dependents tr self cur ts (found, frontier) = (found', frontier')" using Cons.prems(1) by (simp split: if_splits)
    from Cons.IH [OF this] Cons.prems(2) show ?thesis by simp
  qed
qed simp

function dependents_loop :: "bool \<Rightarrow> TargetId \<Rightarrow> GoalTarget list \<Rightarrow> TargetId list \<Rightarrow> TargetId list \<Rightarrow> TargetId list" where
  "dependents_loop transitive self targets found [] = found"
| "dependents_loop transitive self targets found (cur # frontier) =
     (case scan_dependents transitive self cur targets (found, frontier) of
        (found', frontier') \<Rightarrow> dependents_loop transitive self targets found' frontier')"
  by pat_completeness auto
termination
proof (relation "measure (\<lambda>(_, _, targets, found, frontier). length frontier + card (t_id ` set targets - set found))", goal_cases)
  case (2 transitive self targets found cur frontier found' frontier')
  then have "scan_dependents transitive self cur targets (found, frontier) = (found', frontier')" by simp
  then show ?case using scan_dependents_measure [of transitive self cur targets found frontier found' frontier' targets] by simp
qed simp

declare dependents_loop.simps [simp del]

definition dependents :: "GoalGraphDefinition \<Rightarrow> TargetId \<Rightarrow> bool \<Rightarrow> TargetId list result" where
  "dependents g targetId transitive =
     (if targetId \<notin> t_id ` set (g_targets g) then Inl (failure NOT_FOUND)
      else let found = dependents_loop transitive targetId (g_targets g) [] [targetId]
           in Inr (map t_id (sort_by byPriorityThenId (filter (\<lambda>t. t_id t \<in> set found) (g_targets g)))))"

definition rootTargets :: "GoalGraphDefinition \<Rightarrow> TargetId list" where
  "rootTargets g = map t_id (sort_by byPriorityThenId (filter (\<lambda>t. t_dependsOn t = []) (g_targets g)))"

subsection \<open>The topological order is correct\<close>

text \<open>The targets that can come next when the ids in \<open>P\<close> are placed\<close>

definition ready_set :: "GoalTarget list \<Rightarrow> TargetId set \<Rightarrow> GoalTarget set" where
  "ready_set targets P = {t \<in> set targets. t_id t \<notin> P \<and> set (t_dependsOn t) \<subseteq> P}"

text \<open>Every position holds a target that is ready there, and the first of those in the order of priorities.\<close>

definition greedy :: "GoalTarget list \<Rightarrow> GoalTarget list \<Rightarrow> bool" where
  "greedy targets out \<longleftrightarrow>
     (\<forall>xs t ys. out = xs @ t # ys \<longrightarrow>
        t \<in> ready_set targets (t_id ` set xs) \<and> (\<forall>z \<in> ready_set targets (t_id ` set xs). byPriorityThenId t z \<le> 0))"

text \<open>What \<open>remaining\<close> holds when the ids in \<open>P\<close> are placed\<close>

definition remaining_ok :: "GoalTarget list \<Rightarrow> TargetId set \<Rightarrow> remaining_map \<Rightarrow> bool" where
  "remaining_ok targets P remaining \<longleftrightarrow> distinct (map fst remaining) \<and>
     (\<forall>i ds. (i, ds) \<in> set remaining \<longrightarrow> (\<exists>t \<in> set targets. t_id t = i \<and> i \<notin> P \<and> set ds = set (t_dependsOn t) - P)) \<and>
     (\<forall>t \<in> set targets. t_id t \<notin> P \<longrightarrow> t_id t \<in> fst ` set remaining)"

definition topo_inv :: "GoalTarget list \<Rightarrow> remaining_map \<Rightarrow> GoalTarget list \<Rightarrow> GoalTarget list \<Rightarrow> bool" where
  "topo_inv targets remaining ready out \<longleftrightarrow>
     greedy targets out \<and> set out \<subseteq> set targets \<and> distinct (map t_id out) \<and>
     set ready = ready_set targets (t_id ` set out) \<and> distinct ready \<and> sorted_wrt (\<lambda>a b. byPriorityThenId a b \<le> 0) ready \<and>
     remaining_ok targets (t_id ` set out) remaining"

lemma byId_some: "map_of (map (\<lambda>t. (t_id t, t)) ts) v = Some u \<Longrightarrow> t_id u = v \<and> u \<in> set ts"
  by (auto dest: map_of_SomeD)

lemma byId_get:
  "distinct (map t_id targets) \<Longrightarrow> u \<in> set targets \<Longrightarrow> map_of (map (\<lambda>t. (t_id t, t)) (rev targets)) (t_id u) = Some u"
  by (rule map_of_is_SomeI) (auto simp: rev_map [symmetric] comp_def)

lemma newly_ready_Cons:
  "newly_ready targets i ((v, ds) # rem) =
     (if i \<in> set ds \<and> removeAll i ds = [] then (case map_of (map (\<lambda>t. (t_id t, t)) (rev targets)) v of Some u \<Rightarrow> [u] | None \<Rightarrow> []) else []) @
     newly_ready targets i rem"
  by (simp add: newly_ready_def map_filter_simps split: option.splits)

lemma newly_ready_distinct:
  "distinct (map fst rem) \<Longrightarrow> distinct (map t_id (newly_ready targets i rem)) \<and> t_id ` set (newly_ready targets i rem) \<subseteq> fst ` set rem"
proof (induction rem)
  case (Cons e rem)
  obtain v ds where e: "e = (v, ds)" by (cases e)
  have IH: "distinct (map t_id (newly_ready targets i rem))" "t_id ` set (newly_ready targets i rem) \<subseteq> fst ` set rem" "v \<notin> fst ` set rem"
    using Cons e by auto
  show ?case
  proof (cases "i \<in> set ds \<and> removeAll i ds = []")
    case True
    show ?thesis
    proof (cases "map_of (map (\<lambda>t. (t_id t, t)) (rev targets)) v")
      case (Some u)
      with byId_some [OF Some] True IH show ?thesis unfolding e newly_ready_Cons by auto
    qed (use True IH in \<open>auto simp: e newly_ready_Cons\<close>)
  next
    case False
    then have "newly_ready targets i (e # rem) = newly_ready targets i rem" by (simp only: e newly_ready_Cons if_False append_Nil)
    with IH show ?thesis by auto
  qed
qed (simp add: newly_ready_def map_filter_simps)

lemma in_delete: "(i, ds) \<in> set (AList.delete k rem) \<longleftrightarrow> (i, ds) \<in> set rem \<and> i \<noteq> k"
  by (auto simp: AList.delete_eq)

lemma remaining_ok_place:
  assumes "remaining_ok targets P rem"
  shows "remaining_ok targets (insert k P) (place k (AList.delete k rem))"
proof -
  have keys: "map fst (place k (AList.delete k rem)) = map fst (AList.delete k rem)" by (simp add: place_def split_beta)
  have "distinct (map fst (AList.delete k rem))" using assms by (simp add: remaining_ok_def distinct_delete)
  moreover have "\<exists>t \<in> set targets. t_id t = i \<and> i \<notin> insert k P \<and> set ds = set (t_dependsOn t) - insert k P"
    if "(i, ds) \<in> set (place k (AList.delete k rem))" for i ds
  proof -
    from that obtain ds0 where e: "(i, ds0) \<in> set rem" "i \<noteq> k" "ds = removeAll k ds0" by (auto simp: place_def in_delete)
    with assms obtain t where "t \<in> set targets" "t_id t = i" "i \<notin> P" "set ds0 = set (t_dependsOn t) - P" unfolding remaining_ok_def by blast
    with e show ?thesis by (intro bexI [of _ t]) auto
  qed
  moreover have "t_id t \<in> fst ` set (place k (AList.delete k rem))" if "t \<in> set targets" "t_id t \<notin> insert k P" for t
  proof -
    from that assms obtain ds where "(t_id t, ds) \<in> set rem" by (auto simp: remaining_ok_def)
    then have "(t_id t, ds) \<in> set (AList.delete k rem)" using that by (simp add: in_delete)
    then have "t_id t \<in> set (map fst (AList.delete k rem))" by (metis fst_conv in_set_zipE zip_map_fst_snd)
    then show ?thesis unfolding keys [symmetric] by simp
  qed
  ultimately show ?thesis unfolding remaining_ok_def keys by blast
qed

lemma newly_ready_iff:
  assumes dist: "distinct (map t_id targets)" and rem: "remaining_ok targets P rem" and k: "k \<notin> P"
  shows "u \<in> set (newly_ready targets k (AList.delete k rem)) \<longleftrightarrow>
     u \<in> set targets \<and> t_id u \<notin> insert k P \<and> k \<in> set (t_dependsOn u) \<and> set (t_dependsOn u) \<subseteq> insert k P"
proof
  assume "u \<in> set (newly_ready targets k (AList.delete k rem))"
  then obtain i ds where e: "(i, ds) \<in> set rem" "i \<noteq> k" and m: "map_of (map (\<lambda>t. (t_id t, t)) (rev targets)) i = Some u"
    and ds: "k \<in> set ds" "removeAll k ds = []"
    by (auto simp: newly_ready_def List.map_filter_def in_delete split: if_splits)
  from rem e obtain w where w: "w \<in> set targets" "t_id w = i" "i \<notin> P" "set ds = set (t_dependsOn w) - P" unfolding remaining_ok_def by blast
  then have "w = u" using byId_get [OF dist, of w] m by simp
  moreover have "set ds - {k} = {}" using ds(2) by (metis set_removeAll list.set(1))
  ultimately show "u \<in> set targets \<and> t_id u \<notin> insert k P \<and> k \<in> set (t_dependsOn u) \<and> set (t_dependsOn u) \<subseteq> insert k P"
    using w ds(1) e by auto
next
  assume u: "u \<in> set targets \<and> t_id u \<notin> insert k P \<and> k \<in> set (t_dependsOn u) \<and> set (t_dependsOn u) \<subseteq> insert k P"
  then obtain ds where e: "(t_id u, ds) \<in> set rem" using rem by (auto simp: remaining_ok_def)
  with rem obtain w where "w \<in> set targets" "t_id w = t_id u" "set ds = set (t_dependsOn w) - P" unfolding remaining_ok_def by blast
  moreover from this u dist have "w = u" by (auto simp: distinct_map inj_on_def)
  ultimately have "set ds = set (t_dependsOn u) - P" by simp
  then have "k \<in> set ds" "set ds - {k} = {}" using u k by auto
  moreover from this have "removeAll k ds = []" by (metis set_removeAll set_empty)
  moreover have "(t_id u, ds) \<in> set (AList.delete k rem)" using e u by (simp add: in_delete)
  ultimately show "u \<in> set (newly_ready targets k (AList.delete k rem))" using byId_get [OF dist, of u] u
    unfolding newly_ready_def List.map_filter_def by force
qed

lemma greedy_snoc:
  assumes "greedy targets out" and "t \<in> ready_set targets (t_id ` set out)"
    and "\<forall>z \<in> ready_set targets (t_id ` set out). byPriorityThenId t z \<le> 0"
  shows "greedy targets (out @ [t])"
  unfolding greedy_def
proof (intro allI impI)
  fix xs x ys assume eq: "out @ [t] = xs @ x # ys"
  show "x \<in> ready_set targets (t_id ` set xs) \<and> (\<forall>z \<in> ready_set targets (t_id ` set xs). byPriorityThenId x z \<le> 0)"
  proof (cases ys rule: rev_cases)
    case Nil
    with eq assms(2,3) show ?thesis by simp
  next
    case (snoc ys' y)
    with eq have "out = xs @ x # ys'" by simp
    with assms(1) show ?thesis unfolding greedy_def by blast
  qed
qed

lemma topo_inv_step:
  assumes dist: "distinct (map t_id targets)" and inv: "topo_inv targets remaining (t # ready) out"
  defines "rest \<equiv> AList.delete (t_id t) remaining"
  shows "topo_inv targets (place (t_id t) rest) (sort_by byPriorityThenId (ready @ newly_ready targets (t_id t) rest)) (out @ [t])"
proof -
  let ?P = "t_id ` set out" and ?new = "newly_ready targets (t_id t) rest"
  have P': "t_id ` set (out @ [t]) = insert (t_id t) ?P" by simp
  have ready: "insert t (set ready) = ready_set targets ?P" "t \<notin> set ready" "distinct ready"
    and sorted: "sorted_wrt (\<lambda>a b. byPriorityThenId a b \<le> 0) (t # ready)" and rem: "remaining_ok targets ?P remaining"
    and out: "greedy targets out" "set out \<subseteq> set targets" "distinct (map t_id out)"
    using inv by (auto simp: topo_inv_def)
  have t: "t \<in> ready_set targets ?P" "t \<in> set targets" "t_id t \<notin> ?P" using ready(1) by (auto simp: ready_set_def)
  have same: "a = b" if "a \<in> set targets" "b \<in> set targets" "t_id a = t_id b" for a b
    using that dist by (auto simp: distinct_map inj_on_def)
  have least: "byPriorityThenId t z \<le> 0" if "z \<in> ready_set targets ?P" for z
    using that sorted priority_order.cmp_total [of t t] unfolding ready(1) [symmetric] by auto
  have new: "set ?new = {u \<in> set targets. t_id u \<notin> insert (t_id t) ?P \<and> t_id t \<in> set (t_dependsOn u) \<and> set (t_dependsOn u) \<subseteq> insert (t_id t) ?P}"
    unfolding rest_def using newly_ready_iff [OF dist rem t(3)] by blast
  have old: "set ready = ready_set targets ?P - {t}" using ready by auto
  have "u \<in> set ready \<union> set ?new \<longleftrightarrow> u \<in> ready_set targets (insert (t_id t) ?P)" for u
    unfolding old new ready_set_def using same [of u t] t(2) by auto
  then have set: "set (sort_by byPriorityThenId (ready @ ?new)) = ready_set targets (insert (t_id t) ?P)" by auto
  have "distinct (map fst rest)" using rem by (simp add: rest_def remaining_ok_def distinct_delete)
  then have "distinct ?new" using newly_ready_distinct [of rest targets "t_id t"] by (auto simp: distinct_map)
  moreover have "set ready \<inter> set ?new = {}" using t(3) unfolding old new ready_set_def by auto
  ultimately have "distinct (sort_by byPriorityThenId (ready @ ?new))" using ready(3) by simp
  moreover have "greedy targets (out @ [t])" using out(1) t(1) least by (intro greedy_snoc) auto
  moreover have "remaining_ok targets (insert (t_id t) ?P) (place (t_id t) rest)" unfolding rest_def using rem by (rule remaining_ok_place)
  ultimately show ?thesis using out t set priority_order.sorted_sort_by unfolding topo_inv_def P' by simp
qed

lemma remaining_of_get: "dget (fold (\<lambda>t. dput (t_id t) (f t)) ts m) v = (case find (\<lambda>t. t_id t = v) (rev ts) of Some t \<Rightarrow> Some (f t) | None \<Rightarrow> dget m v)"
  by (induction ts arbitrary: m rule: rev_induct) auto

lemma remaining_of_ok:
  assumes "distinct (map t_id targets)"
  shows "remaining_ok targets {} (remaining_of targets)"
proof -
  have "distinct (map fst m) \<Longrightarrow> distinct (map fst (fold (\<lambda>t. dput (t_id t) (uniq (t_dependsOn t))) ts m))" for ts m
    by (induction ts arbitrary: m) (auto simp: distinct_update)
  from this [of "[]" targets] have "distinct (map fst (remaining_of targets))" by (simp add: remaining_of_def)
  moreover have "\<exists>t \<in> set targets. t_id t = i \<and> set ds = set (t_dependsOn t)" if "(i, ds) \<in> set (remaining_of targets)" for i ds
  proof -
    have "dget (remaining_of targets) i = Some ds" using that calculation by (rule map_of_is_SomeI [rotated])
    then obtain t where "find (\<lambda>t. t_id t = i) (rev targets) = Some t" "ds = uniq (t_dependsOn t)"
      unfolding remaining_of_def remaining_of_get by (auto split: option.splits)
    then show ?thesis by (auto simp: find_Some_iff rev_nth intro!: bexI [of _ t])
  qed
  moreover have "fst ` set (fold (\<lambda>t. dput (t_id t) (uniq (t_dependsOn t))) ts m) = t_id ` set ts \<union> fst ` set m" for ts m
    by (induction ts arbitrary: m) auto
  from this [of targets "[]"] have "fst ` set (remaining_of targets) = t_id ` set targets" by (simp add: remaining_of_def)
  ultimately show ?thesis by (simp add: remaining_ok_def)
qed

lemma topo_loop_inv:
  "distinct (map t_id targets) \<Longrightarrow> topo_inv targets remaining ready out \<Longrightarrow>
     \<exists>remaining'. topo_inv targets remaining' [] (topo_loop targets remaining ready out)"
proof (induction targets remaining ready out rule: topo_loop.induct)
  case (2 targets remaining t ready out)
  show ?case using 2(1) [OF refl 2(2) topo_inv_step [OF 2(2,3)]] by (simp add: Let_def)
qed auto

text \<open>A finite acyclic dependency relation always has a target that is ready next.\<close>

lemma ready_exists:
  assumes acyc: "acyclic (dep_rel targets)" and deps: "\<forall>t \<in> set targets. set (t_dependsOn t) \<subseteq> t_id ` set targets"
    and left: "t \<in> set targets" "t_id t \<notin> P"
  shows "ready_set targets P \<noteq> {}"
proof -
  have "dep_rel targets \<subseteq> t_id ` set targets \<times> t_id ` set targets" by (auto simp: dep_rel_def)
  then have "wf (dep_rel targets)" using acyc by (intro finite_acyclic_wf) (auto intro: finite_subset)
  moreover have "t_id t \<in> t_id ` set targets - P" using left by simp
  ultimately obtain i where i: "i \<in> t_id ` set targets - P" "\<And>j. (j, i) \<in> dep_rel targets \<Longrightarrow> j \<notin> t_id ` set targets - P"
    by (rule wfE_min) blast
  then obtain u where u: "u \<in> set targets" "t_id u = i" "i \<notin> P" by auto
  have "d \<in> P" if d: "d \<in> set (t_dependsOn u)" for d
  proof -
    have "d \<in> t_id ` set targets" using d u(1) deps by blast
    moreover from this have "(d, i) \<in> dep_rel targets" using d u unfolding dep_rel_def by blast
    ultimately show ?thesis using i(2) by blast
  qed
  with u show ?thesis by (auto simp: ready_set_def)
qed

lemma topoTargets_correct:
  assumes dist: "distinct (map t_id targets)" and acyc: "acyclic (dep_rel targets)"
    and deps: "\<forall>t \<in> set targets. set (t_dependsOn t) \<subseteq> t_id ` set targets"
  shows "distinct (map t_id (topoTargets targets)) \<and> set (topoTargets targets) = set targets \<and> greedy targets (topoTargets targets)"
proof -
  have "topo_inv targets (remaining_of targets) (sort_by byPriorityThenId (filter (\<lambda>t. t_dependsOn t = []) targets)) []"
    using dist remaining_of_ok [OF dist] priority_order.sorted_sort_by
    by (auto simp: topo_inv_def ready_set_def greedy_def distinct_map)
  from topo_loop_inv [OF dist this] obtain rem where inv: "topo_inv targets rem [] (topoTargets targets)" by (auto simp: topoTargets_def)
  then have "ready_set targets (t_id ` set (topoTargets targets)) = {}" "set (topoTargets targets) \<subseteq> set targets" by (simp_all add: topo_inv_def)
  moreover from this have "t_id t \<in> t_id ` set (topoTargets targets)" if "t \<in> set targets" for t
    using that ready_exists [OF acyc deps, of t] by blast
  moreover have "inj_on t_id (set targets)" using dist by (simp add: distinct_map)
  ultimately have "set targets \<subseteq> set (topoTargets targets)" by (meson inj_on_image_mem_iff subsetI)
  then have "set (topoTargets targets) = set targets" using \<open>set (topoTargets targets) \<subseteq> set targets\<close> by blast
  with inv show ?thesis by (simp add: topo_inv_def)
qed

text \<open>
  C35. The topological order of a valid graph. \<open>topologicalOrder\<close> returns exactly when the graph is well
  formed; it lists every target once, and at every position stands the first, by priority and then
  id, of the targets whose dependencies are all earlier.
\<close>

theorem topologicalOrder_correct:
  "if well_formed_graph g
   then \<exists>out. topologicalOrder localeCompare g = Inr (map t_id out) \<and> distinct (map t_id out) \<and> set out = set (g_targets g) \<and>
     greedy (g_targets g) out
   else topologicalOrder localeCompare g = Inl (failure VALIDATION)"
proof (cases "well_formed_graph g")
  case True
  then have "topologicalOrder localeCompare g = Inr (map t_id (topoTargets (g_targets g)))"
    by (simp add: topologicalOrder_def bindE_Inr assertValid_iff)
  moreover have "distinct (map t_id (topoTargets (g_targets g))) \<and> set (topoTargets (g_targets g)) = set (g_targets g) \<and>
      greedy (g_targets g) (topoTargets (g_targets g))"
    using True by (intro topoTargets_correct) (auto simp: well_formed_graph_def)
  ultimately show ?thesis using True by auto
next
  case False
  then have "assertValid localeCompare g = Inl (failure VALIDATION)"
    by (simp add: assertValid_def guardE_def validateGoalGraph_iff)
  with False show ?thesis by (simp add: topologicalOrder_def)
qed

subsection \<open>The critical path is a heaviest chain\<close>

text \<open>Chains of dependencies that start at a target without dependencies, with the sum of their priorities\<close>

inductive root_chain :: "GoalTarget list \<Rightarrow> TargetId list \<Rightarrow> rat \<Rightarrow> bool" for targets :: "GoalTarget list" where
  root: "t \<in> set targets \<Longrightarrow> t_dependsOn t = [] \<Longrightarrow> root_chain targets [t_id t] (t_priority t)"
| step: "root_chain targets p w \<Longrightarrow> t \<in> set targets \<Longrightarrow> last p \<in> set (t_dependsOn t) \<Longrightarrow>
    root_chain targets (p @ [t_id t]) (w + t_priority t)"

lemma better_cases: "better c p = c \<or> p = Some (better c p)"
  by (auto simp: better_def split: option.splits)

lemma better_weight: "cp_weight c \<le> cp_weight (better c p)" "p = Some q \<Longrightarrow> cp_weight q \<le> cp_weight (better c p)"
  by (auto simp: better_def split: option.splits)

lemma best_of_snoc:
  "best_of best (is @ [i]) = (case dget best i of Some c \<Rightarrow> Some (better c (best_of best is)) | None \<Rightarrow> best_of best is)"
  unfolding best_of_def by simp

lemma best_of_correct:
  "(best_of best is = None \<longleftrightarrow> (\<forall>i \<in> set is. dget best i = None)) \<and>
   (\<forall>c. best_of best is = Some c \<longrightarrow> (\<exists>i \<in> set is. dget best i = Some c) \<and>
     (\<forall>i \<in> set is. \<forall>c'. dget best i = Some c' \<longrightarrow> cp_weight c' \<le> cp_weight c))"
proof (induction "is" rule: rev_induct)
  case (snoc i "is")
  show ?case
  proof (cases "dget best i")
    case (Some c)
    let ?p = "best_of best is"
    have "(better c ?p = c \<or> ?p = Some (better c ?p)) \<and> cp_weight c \<le> cp_weight (better c ?p) \<and>
        (\<forall>q. ?p = Some q \<longrightarrow> cp_weight q \<le> cp_weight (better c ?p))"
      using better_cases better_weight by blast
    moreover have "cp_weight c' \<le> cp_weight (better c ?p)" if "j \<in> set is" "dget best j = Some c'" for j c'
    proof (cases ?p)
      case None
      with that snoc.IH show ?thesis by simp
    next
      case (Some q)
      then have "cp_weight c' \<le> cp_weight q" using that snoc.IH by blast
      also have "\<dots> \<le> cp_weight (better c ?p)" using Some by (rule better_weight(2))
      finally show ?thesis .
    qed
    ultimately show ?thesis using Some snoc.IH by (auto simp: best_of_snoc)
  qed (use snoc.IH in \<open>auto simp: best_of_snoc\<close>)
qed (simp add: best_of_def)

text \<open>The entry of a target is the best chain that ends in it.\<close>

definition best_entry :: "GoalTarget list \<Rightarrow> (TargetId, CriticalPathResult) dict \<Rightarrow> TargetId \<Rightarrow> bool" where
  "best_entry targets best i \<longleftrightarrow>
     (\<exists>c. dget best i = Some c \<and> root_chain targets (cp_path c) (cp_weight c) \<and> last (cp_path c) = i \<and>
        (\<forall>p w. root_chain targets p w \<longrightarrow> last p = i \<longrightarrow> w \<le> cp_weight c))"

lemma path_step_entry:
  assumes dist: "distinct (map t_id targets)" and t: "t \<in> set targets"
    and deps: "\<forall>d \<in> set (t_dependsOn t). best_entry targets best d"
  shows "best_entry targets (path_step t best) (t_id t)"
proof -
  let ?pred = "best_of best (sort_by compare_str (t_dependsOn t))"
  have unique: "u = t" if "u \<in> set targets" "t_id u = t_id t" for u using that t dist by (auto simp: distinct_map inj_on_def)
  note best = best_of_correct [of best "sort_by compare_str (t_dependsOn t)"]
  show ?thesis
  proof (cases ?pred)
    case None
    then have none: "t_dependsOn t = []" using best deps by (cases "t_dependsOn t") (auto simp: best_entry_def)
    have "w = t_priority t" if "root_chain targets p w" "last p = t_id t" for p w
      using that
    proof cases
      case (root u)
      with that(2) unique [of u] show ?thesis by auto
    next
      case (step q v u)
      with that(2) unique [of u] none show ?thesis by auto
    qed
    with none show ?thesis using None t
      by (auto simp: best_entry_def path_step_def intro: root_chain.root)
  next
    case (Some c)
    with best obtain d where d: "d \<in> set (t_dependsOn t)" "dget best d = Some c" by auto
    with deps have c: "root_chain targets (cp_path c) (cp_weight c)" "last (cp_path c) = d" by (auto simp: best_entry_def)
    have "w \<le> cp_weight c + t_priority t" if "root_chain targets p w" "last p = t_id t" for p w
      using that
    proof cases
      case (root u)
      with that unique [of u] d show ?thesis by auto
    next
      case (step q v u)
      with that unique [of u] have u: "u = t" "last q \<in> set (t_dependsOn t)" by auto
      with deps obtain c' where c': "dget best (last q) = Some c'" "\<forall>p w. root_chain targets p w \<longrightarrow> last p = last q \<longrightarrow> w \<le> cp_weight c'"
        unfolding best_entry_def by blast
      then have "v \<le> cp_weight c'" using step by blast
      also have "cp_weight c' \<le> cp_weight c" using best Some u(2) c'(1) by auto
      finally show ?thesis using step u by simp
    qed
    moreover have "root_chain targets (cp_path c @ [t_id t]) (cp_weight c + t_priority t)"
      using c d(1) t by (intro root_chain.step) auto
    ultimately show ?thesis using Some by (auto simp: best_entry_def path_step_def)
  qed
qed

lemma path_step_other: "i \<noteq> t_id t \<Longrightarrow> best_entry targets (path_step t best) i = best_entry targets best i"
  by (simp add: best_entry_def path_step_def Let_def)

lemma path_fold_entries:
  assumes dist: "distinct (map t_id targets)" and greedy: "greedy targets out" and out: "distinct (map t_id out)"
  shows "\<forall>t \<in> set out. best_entry targets (fold path_step out []) (t_id t)"
  using greedy out
proof (induction out rule: rev_induct)
  case (snoc t out)
  have "greedy targets out" using snoc.prems(1) unfolding greedy_def by (metis append_Cons append_assoc)
  with snoc have IH: "\<forall>u \<in> set out. best_entry targets (fold path_step out []) (t_id u)" by simp
  have t: "t \<in> ready_set targets (t_id ` set out)" using snoc.prems(1) unfolding greedy_def by blast
  then have "\<forall>d \<in> set (t_dependsOn t). best_entry targets (fold path_step out []) d" using IH unfolding ready_set_def by fastforce
  with t have "best_entry targets (path_step t (fold path_step out [])) (t_id t)"
    by (intro path_step_entry [OF dist]) (simp_all add: ready_set_def)
  moreover have "t_id u \<noteq> t_id t" if "u \<in> set out" for u using snoc.prems(2) that by (force simp: image_iff)
  ultimately show ?case using IH by (auto simp: path_step_other)
qed simp

lemma chain_end: "root_chain targets p w \<Longrightarrow> last p \<in> t_id ` set targets"
  by (erule root_chain.cases) auto

text \<open>
  The critical path of a valid graph is a chain of dependencies that starts at a target without
  dependencies, its weight is the sum of the priorities along it, and no such chain is heavier.
\<close>

theorem criticalPath_maximal:
  assumes "criticalPath localeCompare g = Inr c"
  shows "root_chain (g_targets g) (cp_path c) (cp_weight c) \<and> (\<forall>p w. root_chain (g_targets g) p w \<longrightarrow> w \<le> cp_weight c)"
proof -
  let ?ts = "g_targets g" and ?out = "topoTargets (g_targets g)"
  let ?best = "fold path_step ?out []"
  have wf: "well_formed_graph g" using assms by (auto simp: criticalPath_def bindE_Inr assertValid_iff)
  then have dist: "distinct (map t_id ?ts)" and ne: "?ts \<noteq> []" by (simp_all add: well_formed_graph_def)
  have order: "distinct (map t_id ?out)" "set ?out = set ?ts" "greedy ?ts ?out"
    using wf topoTargets_correct [OF dist] by (auto simp: well_formed_graph_def)
  have entries: "best_entry ?ts ?best (t_id t)" if "t \<in> set ?ts" for t
    using path_fold_entries [OF dist order(3,1)] order(2) that by blast
  obtain t where "t \<in> set ?ts" using ne by (cases ?ts) auto
  note best = best_of_correct [of ?best "map t_id ?out"]
  have "best_of ?best (map t_id ?out) \<noteq> None" using best entries [OF \<open>t \<in> set ?ts\<close>] \<open>t \<in> set ?ts\<close> order(2) unfolding best_entry_def by force
  then have c: "best_of ?best (map t_id ?out) = Some c"
    using assms by (auto simp: criticalPath_def bindE_Inr Let_def)
  with best obtain u where u: "u \<in> set ?ts" "dget ?best (t_id u) = Some c" using order(2) by auto
  have "w \<le> cp_weight c" if chain: "root_chain ?ts p w" for p w
  proof -
    from chain_end [OF chain] obtain v where v: "v \<in> set ?ts" "last p = t_id v" by auto
    with entries [OF v(1)] obtain c' where c': "dget ?best (t_id v) = Some c'" "w \<le> cp_weight c'" using chain unfolding best_entry_def by auto
    have "cp_weight c' \<le> cp_weight c" using best c c'(1) v(1) order(2) by auto
    with c' show ?thesis by simp
  qed
  moreover have "root_chain ?ts (cp_path c) (cp_weight c)" using entries [OF u(1)] u(2) by (simp add: best_entry_def)
  ultimately show ?thesis by blast
qed

subsection \<open>Transitive dependents\<close>

definition direct_dependents :: "GoalTarget list \<Rightarrow> TargetId \<Rightarrow> TargetId set" where
  "direct_dependents targets x = {t_id t | t. t \<in> set targets \<and> x \<in> set (t_dependsOn t)}"

lemma dep_rel_direct: "(x, y) \<in> dep_rel targets \<Longrightarrow> y \<in> direct_dependents targets x"
  by (auto simp: dep_rel_def direct_dependents_def)

lemma scan_dependents_sets:
  assumes "scan_dependents tr self cur ts (found, frontier) = (found', frontier')"
  shows "set found' = set found \<union> (direct_dependents ts cur - {self}) \<and>
     set frontier' = (if tr then set frontier \<union> (set found' - set found) else set frontier)"
  using assms
proof (induction ts arbitrary: found frontier)
  case (Cons t ts)
  have dd: "direct_dependents (t # ts) cur = (if cur \<in> set (t_dependsOn t) then {t_id t} else {}) \<union> direct_dependents ts cur"
    by (auto simp: direct_dependents_def)
  show ?case
  proof (cases "cur \<in> set (t_dependsOn t) \<and> t_id t \<notin> set found \<and> t_id t \<noteq> self")
    case True
    with Cons.prems have "scan_dependents tr self cur ts (t_id t # found, if tr then t_id t # frontier else frontier) = (found', frontier')" by simp
    from Cons.IH [OF this] True show ?thesis unfolding dd by auto
  next
    case False
    then have "scan_dependents tr self cur ts (found, frontier) = (found', frontier')" using Cons.prems by (simp split: if_splits)
    from Cons.IH [OF this] False show ?thesis unfolding dd by auto
  qed
qed (simp add: direct_dependents_def)

lemma dependents_loop_direct: "set (dependents_loop False self targets [] [self]) = direct_dependents targets self - {self}"
proof -
  obtain found frontier where "scan_dependents False self self targets ([], []) = (found, frontier)" by fastforce
  with scan_dependents_sets [OF this] show ?thesis by (simp add: dependents_loop.simps)
qed

definition dependents_inv :: "TargetId \<Rightarrow> GoalTarget list \<Rightarrow> TargetId list \<Rightarrow> TargetId list \<Rightarrow> bool" where
  "dependents_inv self targets found frontier \<longleftrightarrow>
     self \<notin> set found \<and> set frontier \<subseteq> insert self (set found) \<and> set found \<subseteq> {y. (self, y) \<in> (dep_rel targets)\<^sup>+} \<and>
     (\<forall>x \<in> insert self (set found) - set frontier. direct_dependents targets x \<subseteq> insert self (set found))"

lemma dependents_loop_inv:
  "self \<in> t_id ` set targets \<Longrightarrow> dependents_inv self targets found frontier \<Longrightarrow>
     dependents_inv self targets (dependents_loop True self targets found frontier) []"
proof (induction True self targets found frontier rule: dependents_loop.induct)
  case (2 self targets found cur frontier)
  obtain found' frontier' where scan: "scan_dependents True self cur targets (found, frontier) = (found', frontier')" by fastforce
  note sets = scan_dependents_sets [OF scan]
  have cur: "cur = self \<or> (self, cur) \<in> (dep_rel targets)\<^sup>+" using 2(3) by (auto simp: dependents_inv_def)
  then have "cur \<in> t_id ` set targets" using 2(2) by (auto simp: dep_rel_def elim: tranclE)
  then have "(cur, y) \<in> dep_rel targets" if "y \<in> direct_dependents targets cur" for y
    using that by (auto simp: direct_dependents_def dep_rel_def)
  then have "(self, y) \<in> (dep_rel targets)\<^sup>+" if "y \<in> direct_dependents targets cur" for y
    using that cur by (auto intro: trancl_into_trancl)
  then have "dependents_inv self targets found' frontier'"
    using 2(3) sets unfolding dependents_inv_def by (auto; blast)
  with 2(1) [OF scan [symmetric]] 2(2) scan show ?case by (simp add: dependents_loop.simps)
qed (simp add: dependents_loop.simps)

lemma dependents_inv_final:
  assumes "dependents_inv self targets found []"
  shows "set found = {y. (self, y) \<in> (dep_rel targets)\<^sup>+ \<and> y \<noteq> self}"
proof -
  have closed: "direct_dependents targets x \<subseteq> insert self (set found)" if "x \<in> insert self (set found)" for x
    using assms that unfolding dependents_inv_def by (metis Diff_iff empty_iff list.set(1))
  have "y \<in> insert self (set found)" if "(self, y) \<in> (dep_rel targets)\<^sup>+" for y
    using that
  proof (induction rule: trancl_induct)
    case (base y)
    then have "y \<in> direct_dependents targets self" by (rule dep_rel_direct)
    then show ?case using closed by blast
  next
    case (step y z)
    then have "z \<in> direct_dependents targets y" by (intro dep_rel_direct)
    then show ?case using closed step.IH by blast
  qed
  with assms show ?thesis by (auto simp: dependents_inv_def)
qed

text \<open>
  \<open>dependents\<close> answers for every target of the graph, and rejects every other id: without the option
  it lists the other targets that name it as a dependency, with the option every other target
  reachable from it in the dependency relation, in the order of priority and id.
\<close>

theorem dependents_correct:
  "if i \<in> t_id ` set (g_targets g)
   then (\<exists>ts. dependents g i transitive = Inr (map t_id ts) \<and> sorted_wrt (\<lambda>a b. byPriorityThenId a b \<le> 0) ts \<and>
     t_id ` set ts = (if transitive then {y. (i, y) \<in> (dep_rel (g_targets g))\<^sup>+ \<and> y \<noteq> i} else direct_dependents (g_targets g) i - {i}))
   else dependents g i transitive = Inl (failure NOT_FOUND)"
proof (cases "i \<in> t_id ` set (g_targets g)")
  case True
  let ?found = "dependents_loop transitive i (g_targets g) [] [i]"
  let ?ts = "sort_by byPriorityThenId (filter (\<lambda>t. t_id t \<in> set ?found) (g_targets g))"
  have found: "set ?found = (if transitive then {y. (i, y) \<in> (dep_rel (g_targets g))\<^sup>+ \<and> y \<noteq> i} else direct_dependents (g_targets g) i - {i})"
  proof (cases transitive)
    case True
    have "dependents_inv i (g_targets g) [] [i]" by (auto simp: dependents_inv_def)
    note dependents_inv_final [OF dependents_loop_inv [OF \<open>i \<in> t_id ` set (g_targets g)\<close> this]]
    then show ?thesis using True by (simp only: if_True)
  next
    case False
    then show ?thesis by (simp only: dependents_loop_direct if_False)
  qed
  moreover have "set ?found \<subseteq> t_id ` set (g_targets g)"
    unfolding found by (auto simp: direct_dependents_def dep_rel_def elim: tranclE)
  ultimately have "t_id ` set ?ts = set ?found" by auto
  with found have "t_id ` set ?ts = (if transitive then {y. (i, y) \<in> (dep_rel (g_targets g))\<^sup>+ \<and> y \<noteq> i} else direct_dependents (g_targets g) i - {i})"
    by simp
  moreover have "dependents g i transitive = Inr (map t_id ?ts)" using True by (simp add: dependents_def Let_def)
  ultimately show ?thesis using True priority_order.sorted_sort_by unfolding if_P [OF True] by blast
qed (simp add: dependents_def)

subsection \<open>A concrete graph\<close>

definition sample_definition :: "GoalTarget list \<Rightarrow> GoalGraphDefinition" where
  "sample_definition targets = \<lparr>g_schemaVersion = ''1'', g_name = ''demo'', g_purpose = None,
     g_constitution = \<lparr>con_invariants = [], con_resourceLimits = \<lparr>maxTasksPerRun = 10, maxRepairsPerTask = 2, maxSameActionNoProgress = 2,
       maxRunMinutes = 60, hostedSpendUsd = 0, localModelFirst = True, maxConcurrentWritersPerWorktree = 1, maxConcurrentTargets = None\<rparr>,
       con_allowedUnattended = [], con_needsApproval = []\<rparr>,
     g_targets = targets, g_entry = ''VERIFY'', g_nodes = [\<lparr>n_id = ''VERIFY'', n_next = [], n_promptId = None\<rparr>]\<rparr>"

theorem criticalPath_maximal_witness:
  "\<exists>c. criticalPath compare_str (sample_definition sample_targets) = Inr c \<and> cp_path c = [''D''] \<and> cp_weight c = 9 \<and>
     root_chain (g_targets (sample_definition sample_targets)) (cp_path c) (cp_weight c)"
proof -
  have c: "criticalPath compare_str (sample_definition sample_targets) = Inr \<lparr>cp_path = [''D''], cp_weight = 9\<rparr>" by code_simp
  from criticalPath_maximal [OF this] c show ?thesis by simp
qed

text \<open>The path need not end at a leaf: a target of priority 0 is not added to the chain before it.\<close>

lemma criticalPath_stops_before_leaf:
  "criticalPath compare_str (sample_definition [sample_target ''A'' [] 1, sample_target ''B'' [''A''] 0]) = Inr \<lparr>cp_path = [''A''], cp_weight = 1\<rparr> \<and>
   dependents (sample_definition [sample_target ''A'' [] 1, sample_target ''B'' [''A''] 0]) ''A'' False = Inr [''B'']"
  by code_simp

end
