(* ===== verification/Canonical.thy ===== *)
theory Canonical
  imports Contracts "HOL-Library.Multiset"
begin

text \<open>
  Canonical JSON and digests: \<open>src/packages/goals/src/graph/canonical.ts\<close>,
  \<open>src/packages/goals/src/prompts/canonical.ts\<close> and the \<open>canonicalJson\<close> of
  \<open>src/packages/goals/src/governance/index.ts\<close>, over a model of \<open>JSON.stringify\<close>. The text of a
  number and the hash are parameters. A member that is \<open>undefined\<close> is one that is absent.

  The lemmas show that \<open>JSON.stringify\<close> is injective on finite values, so that two values have the same
  canonical text exactly when they are equal up to the order of their members.
\<close>

subsection \<open>\<open>JSON.stringify\<close>\<close>

definition hex_digit :: "nat \<Rightarrow> char" where
  "hex_digit d = (if d < 10 then digit_char d else char_of (87 + d))"

definition json_escape :: "char \<Rightarrow> string" where
  "json_escape ch =
     (let n = (of_char ch :: nat) in
      if n = 34 then [CHR 92, CHR 34]
      else if n = 92 then [CHR 92, CHR 92]
      else if n = 8 then [CHR 92, CHR ''b'']
      else if n = 9 then [CHR 92, CHR ''t'']
      else if n = 10 then [CHR 92, CHR ''n'']
      else if n = 12 then [CHR 92, CHR ''f'']
      else if n = 13 then [CHR 92, CHR ''r'']
      else if n < 32 then [CHR 92, CHR ''u'', CHR ''0'', CHR ''0'', hex_digit (n div 16), hex_digit (n mod 16)]
      else [ch])"

definition json_string :: "string \<Rightarrow> string" where
  "json_string s = CHR 34 # concat (map json_escape s) @ [CHR 34]"

fun commas :: "string list \<Rightarrow> string" where
  "commas [] = []"
| "commas [x] = x"
| "commas (x # xs) = x @ CHR '','' # commas xs"

definition member_text :: "string \<times> string \<Rightarrow> string" where
  "member_text kv = json_string (fst kv) @ CHR '':'' # snd kv"

primrec stringify :: "(rat \<Rightarrow> string) \<Rightarrow> json \<Rightarrow> string" where
  "stringify num JNull = ''null''"
| "stringify num (JBool b) = (if b then ''true'' else ''false'')"
| "stringify num (JNum q) = num q"
| "stringify num JNonFinite = ''null''"
| "stringify num (JStr s) = json_string s"
| "stringify num (JArr xs) = CHR ''['' # commas (map (stringify num) xs) @ '']''"
| "stringify num (JObj fs) = CHR ''{'' # commas (map member_text (map (map_prod id (stringify num)) fs)) @ ''}''"

subsection \<open>Canonical form\<close>

text \<open>
  Assigning members to a fresh object: the name \<open>__proto__\<close> sets the prototype and is no member, and
  names that are array indices are enumerated first, by value.
\<close>

definition index_name :: "string \<Rightarrow> bool" where
  "index_name k \<longleftrightarrow> k \<noteq> [] \<and> list_all is_digit k \<and> show_nat (read_nat k) = k \<and> read_nat k < 4294967295"

definition fresh_object :: "(string \<times> json) list \<Rightarrow> (string \<times> json) list" where
  "fresh_object fs =
     (let ms = filter (\<lambda>(k, _). k \<noteq> ''__proto__'') fs in
      sort_by (\<lambda>a b. of_nat (read_nat (fst a)) - of_nat (read_nat (fst b))) (filter (\<lambda>(k, _). index_name k) ms) @
      filter (\<lambda>(k, _). \<not> index_name k) ms)"

definition by_name :: "(string \<times> 'a) list \<Rightarrow> (string \<times> 'a) list" where
  "by_name fs = sort_by (\<lambda>a b. compare_str (fst a) (fst b)) fs"

primrec normalize :: "json \<Rightarrow> json" where
  "normalize JNull = JNull"
| "normalize (JBool b) = JBool b"
| "normalize (JNum q) = JNum q"
| "normalize JNonFinite = JNonFinite"
| "normalize (JStr s) = JStr s"
| "normalize (JArr xs) = JArr (map normalize xs)"
| "normalize (JObj fs) = JObj (fresh_object (by_name (map (map_prod id normalize) fs)))"

fun collectE :: "('e + 'a) list \<Rightarrow> 'e + 'a list" where
  "collectE [] = Inr []"
| "collectE (r # rs) = bindE r (\<lambda>x. bindE (collectE rs) (\<lambda>xs. Inr (x # xs)))"

definition name_result :: "string \<times> ('e + 'a) \<Rightarrow> 'e + string \<times> 'a" where
  "name_result kr = bindE (snd kr) (\<lambda>v. Inr (fst kr, v))"

text \<open>The version for graphs gives up below 128 levels and on numbers that are not finite.\<close>

definition MAX_DEPTH :: nat where "MAX_DEPTH = 128"

primrec normalize_at :: "json \<Rightarrow> nat \<Rightarrow> string + json" where
  "normalize_at JNull = (\<lambda>d. if d > MAX_DEPTH then Inl ''nested too deeply'' else Inr JNull)"
| "normalize_at (JBool b) = (\<lambda>d. if d > MAX_DEPTH then Inl ''nested too deeply'' else Inr (JBool b))"
| "normalize_at (JNum q) = (\<lambda>d. if d > MAX_DEPTH then Inl ''nested too deeply'' else Inr (JNum q))"
| "normalize_at JNonFinite = (\<lambda>d. if d > MAX_DEPTH then Inl ''nested too deeply'' else Inl ''non-finite number'')"
| "normalize_at (JStr s) = (\<lambda>d. if d > MAX_DEPTH then Inl ''nested too deeply'' else Inr (JStr s))"
| "normalize_at (JArr xs) = (\<lambda>d. if d > MAX_DEPTH then Inl ''nested too deeply''
     else bindE (collectE (map (\<lambda>f. f (Suc d)) (map normalize_at xs))) (\<lambda>ys. Inr (JArr ys)))"
| "normalize_at (JObj fs) = (\<lambda>d. if d > MAX_DEPTH then Inl ''nested too deeply''
     else bindE (collectE (map (\<lambda>(k, f). name_result (k, f (Suc d))) (by_name (map (map_prod id normalize_at) fs))))
       (\<lambda>ms. Inr (JObj (fresh_object ms))))"

definition canonicalJson :: "(rat \<Rightarrow> string) \<Rightarrow> json \<Rightarrow> string + string" where
  "canonicalJson num j = bindE (normalize_at j 0) (\<lambda>v. Inr (stringify num v))"

definition canonicalJson_prompt :: "(rat \<Rightarrow> string) \<Rightarrow> json \<Rightarrow> string" where
  "canonicalJson_prompt num j = stringify num (normalize j)"

definition deepEqual :: "(rat \<Rightarrow> string) \<Rightarrow> json \<Rightarrow> json \<Rightarrow> bool" where
  "deepEqual num a b \<longleftrightarrow> canonicalJson_prompt num a = canonicalJson_prompt num b"

text \<open>The audit trail sorts by \<open>localeCompare\<close> and prints in that order.\<close>

primrec sort_members :: "(string \<Rightarrow> string \<Rightarrow> rat) \<Rightarrow> json \<Rightarrow> json" where
  "sort_members lc JNull = JNull"
| "sort_members lc (JBool b) = JBool b"
| "sort_members lc (JNum q) = JNum q"
| "sort_members lc JNonFinite = JNonFinite"
| "sort_members lc (JStr s) = JStr s"
| "sort_members lc (JArr xs) = JArr (map (sort_members lc) xs)"
| "sort_members lc (JObj fs) = JObj (sort_by (\<lambda>a b. lc (fst a) (fst b)) (map (map_prod id (sort_members lc)) fs))"

definition canonicalJson_audit :: "(string \<Rightarrow> string \<Rightarrow> rat) \<Rightarrow> (rat \<Rightarrow> string) \<Rightarrow> json \<Rightarrow> string" where
  "canonicalJson_audit lc num j = stringify num (sort_members lc j)"

subsection \<open>\<open>JSON.stringify\<close> is injective\<close>

text \<open>What the number format has to satisfy: the documented form of a finite number in JSON\<close>

definition number_format :: "(rat \<Rightarrow> string) \<Rightarrow> bool" where
  "number_format num \<longleftrightarrow> inj num \<and> (\<forall>q. num q \<noteq> [] \<and> (\<forall>ch \<in> set (num q). is_digit ch \<or> ch \<in> set ''+-.e''))"

primrec finite_json :: "json \<Rightarrow> bool" where
  "finite_json JNull \<longleftrightarrow> True"
| "finite_json (JBool b) \<longleftrightarrow> True"
| "finite_json (JNum q) \<longleftrightarrow> True"
| "finite_json JNonFinite \<longleftrightarrow> False"
| "finite_json (JStr s) \<longleftrightarrow> True"
| "finite_json (JArr xs) \<longleftrightarrow> list_all id (map finite_json xs)"
| "finite_json (JObj fs) \<longleftrightarrow> list_all (id \<circ> snd) (map (map_prod id finite_json) fs)"

text \<open>Reading one escaped character back\<close>

definition unhex :: "char \<Rightarrow> nat" where
  "unhex ch = (let n = (of_char ch :: nat) in if n < 58 then n - 48 else n - 87)"

definition read_char :: "string \<Rightarrow> char \<times> string" where
  "read_char s =
     (if hd s \<noteq> CHR 92 then (hd s, tl s)
      else let e = (of_char (s ! 1) :: nat) in
        if e = 98 then (CHR 8, drop 2 s)
        else if e = 116 then (CHR 9, drop 2 s)
        else if e = 110 then (CHR 10, drop 2 s)
        else if e = 102 then (CHR 12, drop 2 s)
        else if e = 114 then (CHR 13, drop 2 s)
        else if e = 117 then (char_of (16 * unhex (s ! 4) + unhex (s ! 5)), drop 6 s)
        else (s ! 1, drop 2 s))"

lemma unhex_hex_digit [simp]: "d < 16 \<Longrightarrow> unhex (hex_digit d) = d"
  by (auto simp: unhex_def hex_digit_def digit_char_def Let_def)

lemma char_codes:
  "char_of (34::nat) = CHR 34" "char_of (92::nat) = CHR 92" "char_of (8::nat) = CHR 8" "char_of (9::nat) = CHR 9"
  "char_of (10::nat) = CHR 10" "char_of (12::nat) = CHR 12" "char_of (13::nat) = CHR 13"
  by code_simp+

lemma read_char_escape: "read_char (json_escape ch @ r) = (ch, r)"
proof -
  let ?n = "of_char ch :: nat"
  consider "?n \<in> {34, 92, 8, 9, 10, 12, 13}" | "?n \<notin> {34, 92, 8, 9, 10, 12, 13}" "?n < 32" | "?n \<notin> {34, 92}" "\<not> ?n < 32" by fastforce
  then show ?thesis
  proof cases
    case 1
    then have "ch \<in> char_of ` {34, 92, 8, 9, 10, 12, 13 :: nat}" using char_of_char [of ch] by (metis imageI)
    then have "ch \<in> set [CHR 34, CHR 92, CHR 8, CHR 9, CHR 10, CHR 12, CHR 13]" unfolding image_insert image_empty char_codes by simp
    then show ?thesis unfolding list.set by (elim insertE emptyE) (simp_all add: json_escape_def read_char_def)
  next
    case 2
    then have "json_escape ch = [CHR 92, CHR ''u'', CHR ''0'', CHR ''0'', hex_digit (?n div 16), hex_digit (?n mod 16)]"
      by (simp add: json_escape_def Let_def)
    moreover have "16 * (?n div 16) + ?n mod 16 = ?n" by simp
    ultimately show ?thesis using 2 by (simp add: read_char_def Let_def numeral_eq_Suc [symmetric])
  next
    case 3
    then have "json_escape ch = [ch]" by (auto simp: json_escape_def Let_def)
    moreover have "ch \<noteq> CHR 92" using 3 by auto
    ultimately show ?thesis by (simp add: read_char_def)
  qed
qed

lemma json_escape_prefix: "json_escape a @ x = json_escape b @ y \<Longrightarrow> a = b \<and> x = y"
  by (metis read_char_escape prod.inject)

lemma json_escape_not_quote: "json_escape ch @ r \<noteq> CHR 34 # t"
proof
  assume "json_escape ch @ r = CHR 34 # t"
  then have "read_char (CHR 34 # t) = (ch, r)" using read_char_escape [of ch r] by simp
  then have "ch = CHR 34" "r = t" by (simp_all add: read_char_def)
  with \<open>json_escape ch @ r = CHR 34 # t\<close> show False by (simp add: json_escape_def)
qed

lemma json_string_inject: "json_string s @ x = json_string t @ y \<longleftrightarrow> s = t \<and> x = y"
proof
  have "concat (map json_escape s) @ CHR 34 # x = concat (map json_escape t) @ CHR 34 # y \<Longrightarrow> s = t \<and> x = y"
  proof (induction s arbitrary: t)
    case Nil
    then show ?case by (cases t) (auto dest: json_escape_not_quote [THEN notE, OF sym])
  next
    case (Cons a s)
    then obtain b t' where t: "t = b # t'" by (cases t) (auto dest: json_escape_not_quote [THEN notE])
    with Cons.prems have "json_escape a @ (concat (map json_escape s) @ CHR 34 # x) = json_escape b @ (concat (map json_escape t') @ CHR 34 # y)" by simp
    from json_escape_prefix [OF this] Cons.IH t show ?case by simp
  qed
  then show "json_string s @ x = json_string t @ y \<Longrightarrow> s = t \<and> x = y" by (simp add: json_string_def)
qed simp

text \<open>A value in a text is followed by nothing or by a comma or a closing bracket.\<close>

definition ends :: "string \<Rightarrow> bool" where
  "ends x \<longleftrightarrow> x = [] \<or> hd x \<in> {CHR '','', CHR '']'', CHR ''}''}"

lemma number_inject:
  assumes num: "number_format num" and eq: "num a @ x = num b @ y" and "ends x" and "ends y"
  shows "a = b \<and> x = y"
proof -
  let ?ok = "\<lambda>ch. is_digit ch \<or> ch \<in> set ''+-.e''"
  have take: "takeWhile ?ok (num q @ z) = num q" if "ends z" for q z
  proof -
    have "\<forall>ch \<in> set (num q). ?ok ch" using num by (simp add: number_format_def)
    moreover have "z = [] \<or> \<not> ?ok (hd z)" using that by (auto simp: ends_def is_digit_def)
    ultimately show ?thesis by (cases z) (simp_all add: takeWhile_append2)
  qed
  from take [OF \<open>ends x\<close>, of a] take [OF \<open>ends y\<close>, of b] eq have "num a = num b" by simp
  with eq num show ?thesis by (auto simp: number_format_def inj_def)
qed

text \<open>The first character tells the kinds of values apart.\<close>

definition json_kind :: "json \<Rightarrow> nat" where
  "json_kind j = (case j of JNull \<Rightarrow> 0 | JBool b \<Rightarrow> (if b then 1 else 2) | JNum _ \<Rightarrow> 3 | JNonFinite \<Rightarrow> 0 | JStr _ \<Rightarrow> 4 | JArr _ \<Rightarrow> 5 | JObj _ \<Rightarrow> 6)"

definition kind_of_char :: "char \<Rightarrow> nat" where
  "kind_of_char ch = (if ch = CHR ''n'' then 0 else if ch = CHR ''t'' then 1 else if ch = CHR ''f'' then 2 else if ch = CHR 34 then 4
     else if ch = CHR ''['' then 5 else if ch = CHR ''{'' then 6 else 3)"

lemma stringify_kind:
  assumes "number_format num"
  shows "stringify num j \<noteq> [] \<and> kind_of_char (hd (stringify num j)) = json_kind j"
proof (cases j)
  case (JNum q)
  have "num q \<noteq> []" "\<forall>ch \<in> set (num q). is_digit ch \<or> ch \<in> set ''+-.e''" using assms by (simp_all add: number_format_def)
  then have "is_digit (hd (num q)) \<or> hd (num q) \<in> set ''+-.e''" by simp
  with JNum \<open>num q \<noteq> []\<close> show ?thesis by (auto simp: json_kind_def kind_of_char_def is_digit_def)
qed (auto simp: json_kind_def kind_of_char_def json_string_def)


lemma same_kind:
  assumes "number_format num" "stringify num a @ x = stringify num b @ y"
  shows "json_kind a = json_kind b"
  using stringify_kind [OF assms(1), of a] stringify_kind [OF assms(1), of b] assms(2) by (metis hd_append2)

lemma stringify_not_closing:
  assumes "number_format num"
  shows "stringify num j \<noteq> [] \<and> hd (stringify num j) \<noteq> CHR '']''"
proof (cases j)
  case (JNum q)
  have "num q \<noteq> []" "\<forall>ch \<in> set (num q). is_digit ch \<or> ch \<in> set ''+-.e''" using assms by (simp_all add: number_format_def)
  then have "is_digit (hd (num q)) \<or> hd (num q) \<in> set ''+-.e''" by simp
  with JNum \<open>num q \<noteq> []\<close> show ?thesis by (auto simp: is_digit_def)
qed (auto simp: json_string_def)

lemma commas_Cons: "commas (x # xs) = x @ (if xs = [] then [] else CHR '','' # commas xs)"
  by (cases xs) simp_all

lemma commas_inject:
  assumes inj: "\<And>a b x y. a \<in> set as \<Longrightarrow> b \<in> set bs \<Longrightarrow> f a @ x = f b @ y \<Longrightarrow> ends x \<Longrightarrow> ends y \<Longrightarrow> a = b \<and> x = y"
    and start: "\<And>a. a \<in> set as \<union> set bs \<Longrightarrow> f a \<noteq> [] \<and> hd (f a) \<noteq> c"
    and c: "c \<in> {CHR '']'', CHR ''}''}"
    and eq: "commas (map f as) @ c # x = commas (map f bs) @ c # y"
  shows "as = bs \<and> x = y"
  using inj start eq
proof (induction as arbitrary: bs)
  case Nil
  show ?case
  proof (cases bs)
    case (Cons b bs')
    with Nil.prems(3) obtain r where "c # x = f b @ r" by (simp add: commas_Cons)
    moreover from Nil.prems(2) [of b] Cons have "f b \<noteq> []" "hd (f b) \<noteq> c" by simp_all
    ultimately show ?thesis by (metis hd_append2 list.sel(1))
  qed (use Nil in simp)
next
  case (Cons a as)
  obtain b bs' where bs: "bs = b # bs'"
  proof (cases bs)
    case Nil
    with Cons.prems(3) have "f a @ (if map f as = [] then [] else CHR '','' # commas (map f as)) @ c # x = c # y"
      by (simp add: commas_Cons)
    moreover from Cons.prems(2) [of a] have "f a \<noteq> []" "hd (f a) \<noteq> c" by simp_all
    ultimately show ?thesis by (metis hd_append2 list.sel(1))
  qed blast
  let ?tail = "\<lambda>zs z. (if map f zs = [] then [] else CHR '','' # commas (map f zs)) @ c # z"
  have "f a @ ?tail as x = f b @ ?tail bs' y" using Cons.prems(3) by (simp add: bs commas_Cons)
  moreover have "ends (?tail zs z)" for zs z using c by (auto simp: ends_def)
  ultimately have "a = b \<and> ?tail as x = ?tail bs' y" using bs by (intro Cons.prems(1)) simp_all
  moreover from this have "as = bs' \<and> x = y"
  proof (cases "as = [] \<or> bs' = []")
    case True
    with \<open>a = b \<and> ?tail as x = ?tail bs' y\<close> c show ?thesis by (auto split: if_splits)
  next
    case False
    with \<open>a = b \<and> ?tail as x = ?tail bs' y\<close> have "commas (map f as) @ c # x = commas (map f bs') @ c # y" by simp
    then show ?thesis
    proof (rule Cons.IH [rotated 2])
      show "u = v \<and> s = t" if "u \<in> set as" "v \<in> set bs'" "f u @ s = f v @ t" "ends s" "ends t" for u v s t
        using Cons.prems(1) [OF _ _ that(3,4,5)] that(1,2) bs by simp
      show "f u \<noteq> [] \<and> hd (f u) \<noteq> c" if "u \<in> set as \<union> set bs'" for u
        using Cons.prems(2) [of u] that bs by auto
    qed
  qed
  ultimately show ?case using bs by simp
qed

lemma finite_json_Arr [simp]: "finite_json (JArr xs) \<longleftrightarrow> (\<forall>v \<in> set xs. finite_json v)"
  by (simp add: list_all_iff)

lemma finite_json_Obj [simp]: "finite_json (JObj fs) \<longleftrightarrow> (\<forall>kv \<in> set fs. finite_json (snd kv))"
  by (simp add: list_all_iff)

declare finite_json.simps(6,7) [simp del]

lemma member_inject:
  assumes v: "\<And>x y. stringify num v @ x = stringify num w @ y \<Longrightarrow> ends x \<Longrightarrow> ends y \<Longrightarrow> v = w \<and> x = y"
    and eq: "member_text (k, stringify num v) @ x = member_text (l, stringify num w) @ y" and "ends x" and "ends y"
  shows "(k, v) = (l, w) \<and> x = y"
proof -
  from eq have "json_string k @ CHR '':'' # stringify num v @ x = json_string l @ CHR '':'' # stringify num w @ y"
    by (simp add: member_text_def)
  then show ?thesis using v [OF _ \<open>ends x\<close> \<open>ends y\<close>] by (simp add: json_string_inject)
qed

lemma stringify_prefix:
  assumes num: "number_format num"
  shows "finite_json a \<Longrightarrow> finite_json b \<Longrightarrow> stringify num a @ x = stringify num b @ y \<Longrightarrow> ends x \<Longrightarrow> ends y \<Longrightarrow> a = b \<and> x = y"
proof (induction a arbitrary: b x y)
  case JNull
  then show ?case using same_kind [OF num, of JNull x b y] by (cases b) (simp_all add: json_kind_def split: if_splits)
next
  case (JBool v)
  then show ?case using same_kind [OF num, of "JBool v" x b y] by (cases b) (simp_all add: json_kind_def split: if_splits)
next
  case (JNum q)
  then have "json_kind b = 3" using same_kind [OF num, of "JNum q" x b y] by (simp add: json_kind_def)
  then obtain r where b: "b = JNum r" by (cases b) (simp_all add: json_kind_def split: if_splits)
  with JNum number_inject [OF num, of q x r y] show ?case by simp
next
  case (JStr s)
  then have "json_kind b = 4" using same_kind [OF num, of "JStr s" x b y] by (simp add: json_kind_def)
  then obtain t where "b = JStr t" by (cases b) (simp_all add: json_kind_def split: if_splits)
  with JStr show ?case by (simp add: json_string_inject)
next
  case (JArr xs)
  then have "json_kind b = 5" using same_kind [OF num, of "JArr xs" x b y] by (simp add: json_kind_def)
  then obtain ys where b: "b = JArr ys" by (cases b) (simp_all add: json_kind_def split: if_splits)
  have "xs = ys \<and> x = y"
  proof (rule commas_inject [where c = "CHR '']''" and f = "stringify num"])
    show "stringify num v \<noteq> [] \<and> hd (stringify num v) \<noteq> CHR '']''" for v
      using stringify_not_closing [OF num] by blast
  qed (use JArr b in auto)
  with b show ?case by simp
next
  case (JObj fs)
  then have "json_kind b = 6" using same_kind [OF num, of "JObj fs" x b y] by (simp add: json_kind_def)
  then obtain gs where b: "b = JObj gs" by (cases b) (simp_all add: json_kind_def split: if_splits)
  let ?f = "\<lambda>kv. member_text (map_prod id (stringify num) kv)"
  have "fs = gs \<and> x = y"
  proof (rule commas_inject [where c = "CHR ''}''" and f = ?f])
    show "?f kv \<noteq> [] \<and> hd (?f kv) \<noteq> CHR ''}''" for kv by (simp add: member_text_def json_string_def)
    show "kv = lw \<and> u = v" if "kv \<in> set fs" "lw \<in> set gs" "?f kv @ u = ?f lw @ v" "ends u" "ends v" for kv lw u v
    proof -
      obtain k i where kv: "kv = (k, i)" by (cases kv)
      obtain l j where lw: "lw = (l, j)" by (cases lw)
      have "i = j \<and> s = t" if "stringify num i @ s = stringify num j @ t" "ends s" "ends t" for s t
      proof (rule JObj.IH)
        show "kv \<in> set fs" "i \<in> Basic_BNFs.snds kv" using \<open>kv \<in> set fs\<close> kv by simp_all
        show "finite_json i" "finite_json j" using JObj.prems(1,2) b \<open>kv \<in> set fs\<close> \<open>lw \<in> set gs\<close> kv lw by auto
      qed (fact that)+
      moreover have "member_text (k, stringify num i) @ u = member_text (l, stringify num j) @ v" using that(3) kv lw by simp
      ultimately have "(k, i) = (l, j) \<and> u = v" using that(4,5) by (rule member_inject)
      with kv lw show ?thesis by simp
    qed
  qed (use JObj b in \<open>auto simp: comp_def\<close>)
  with b show ?case by simp
qed simp

lemma stringify_inject:
  assumes "number_format num" "finite_json a" "finite_json b"
  shows "stringify num a = stringify num b \<longleftrightarrow> a = b"
  using stringify_prefix [OF assms, of "[]" "[]"] by (auto simp: ends_def)

subsection \<open>What the canonical text identifies\<close>

text \<open>
  The value a JSON document denotes: an object is a finite map from names to values, so the order in
  which its members are written is gone.
\<close>

datatype val = VNull | VBool bool | VNum rat | VNonFinite | VStr string | VArr "val list" | VObj "string \<Rightarrow> val option"

primrec meaning :: "json \<Rightarrow> val" where
  "meaning JNull = VNull"
| "meaning (JBool b) = VBool b"
| "meaning (JNum q) = VNum q"
| "meaning JNonFinite = VNonFinite"
| "meaning (JStr s) = VStr s"
| "meaning (JArr xs) = VArr (map meaning xs)"
| "meaning (JObj fs) = VObj (map_of (map (map_prod id meaning) fs))"

text \<open>Names are distinct in every object a program holds; \<open>plain\<close> also keeps \<open>__proto__\<close> out.\<close>

primrec unique_names :: "json \<Rightarrow> bool" where
  "unique_names JNull \<longleftrightarrow> True"
| "unique_names (JBool b) \<longleftrightarrow> True"
| "unique_names (JNum q) \<longleftrightarrow> True"
| "unique_names JNonFinite \<longleftrightarrow> True"
| "unique_names (JStr s) \<longleftrightarrow> True"
| "unique_names (JArr xs) \<longleftrightarrow> list_all id (map unique_names xs)"
| "unique_names (JObj fs) \<longleftrightarrow> distinct (map fst fs) \<and> list_all (id \<circ> snd) (map (map_prod id unique_names) fs)"

primrec no_proto :: "json \<Rightarrow> bool" where
  "no_proto JNull \<longleftrightarrow> True"
| "no_proto (JBool b) \<longleftrightarrow> True"
| "no_proto (JNum q) \<longleftrightarrow> True"
| "no_proto JNonFinite \<longleftrightarrow> True"
| "no_proto (JStr s) \<longleftrightarrow> True"
| "no_proto (JArr xs) \<longleftrightarrow> list_all id (map no_proto xs)"
| "no_proto (JObj fs) \<longleftrightarrow> ''__proto__'' \<notin> set (map fst fs) \<and> list_all (id \<circ> snd) (map (map_prod id no_proto) fs)"

definition plain :: "json \<Rightarrow> bool" where
  "plain j \<longleftrightarrow> finite_json j \<and> unique_names j \<and> no_proto j"

lemma unique_names_Arr [simp]: "unique_names (JArr xs) \<longleftrightarrow> (\<forall>v \<in> set xs. unique_names v)"
  by (simp add: list_all_iff)

lemma unique_names_Obj [simp]: "unique_names (JObj fs) \<longleftrightarrow> distinct (map fst fs) \<and> (\<forall>kv \<in> set fs. unique_names (snd kv))"
  by (simp add: list_all_iff)

lemma no_proto_Arr [simp]: "no_proto (JArr xs) \<longleftrightarrow> (\<forall>v \<in> set xs. no_proto v)"
  by (simp add: list_all_iff)

lemma no_proto_Obj [simp]: "no_proto (JObj fs) \<longleftrightarrow> ''__proto__'' \<notin> set (map fst fs) \<and> (\<forall>kv \<in> set fs. no_proto (snd kv))"
  by (simp add: list_all_iff)

declare unique_names.simps(6,7) [simp del] no_proto.simps(6,7) [simp del]

text \<open>Sorting rearranges.\<close>

lemma mset_insert_by [simp]: "mset (insert_by cmp x xs) = add_mset x (mset xs)"
  by (induction xs) auto

lemma mset_sort_by [simp]: "mset (sort_by cmp xs) = mset xs"
  by (induction xs) auto

lemma map_of_rearranged:
  assumes "mset xs = mset ys" and "distinct (map fst xs)"
  shows "map_of xs = map_of ys" and "distinct (map fst ys)"
proof -
  have "mset (map fst xs) = mset (map fst ys)" using assms(1) by simp
  then show d: "distinct (map fst ys)" using assms(2) by (metis mset_eq_imp_distinct_iff)
  show "map_of xs = map_of ys" using assms d by (intro map_of_inject_set [THEN iffD2]) (auto dest: mset_eq_setD)
qed

lemma mset_fresh_object: "''__proto__'' \<notin> set (map fst fs) \<Longrightarrow> mset (fresh_object fs) = mset fs"
proof -
  assume "''__proto__'' \<notin> set (map fst fs)"
  then have "filter (\<lambda>(k, _). k \<noteq> ''__proto__'') fs = fs" by (auto simp: filter_id_conv image_iff)
  then have "mset (fresh_object fs) = filter_mset (\<lambda>(k, _). index_name k) (mset fs) + filter_mset (\<lambda>(k, _). \<not> index_name k) (mset fs)"
    by (simp add: fresh_object_def Let_def)
  also have "\<dots> = mset fs" by (subst multiset_partition [of "mset fs" "\<lambda>(k, _). index_name k"]) (simp add: case_prod_unfold)
  finally show ?thesis .
qed

lemma meaning_rearranged:
  assumes "mset ms = mset (map (map_prod id f) fs)" and "distinct (map fst fs)" and "\<And>kv. kv \<in> set fs \<Longrightarrow> meaning (f (snd kv)) = meaning (snd kv)"
  shows "meaning (JObj ms) = meaning (JObj fs)"
proof -
  have "mset (map (map_prod id meaning) ms) = mset (map (map_prod id meaning) (map (map_prod id f) fs))"
    using assms(1) by (metis mset_map)
  also have "map (map_prod id meaning) (map (map_prod id f) fs) = map (map_prod id meaning) fs"
  proof -
    have "map_prod id meaning (map_prod id f kv) = map_prod id meaning kv" if "kv \<in> set fs" for kv
      using assms(3) [OF that] by (cases kv) simp
    then show ?thesis unfolding map_map by (intro map_cong refl) (simp only: o_apply)
  qed
  finally have same: "mset (map (map_prod id meaning) fs) = mset (map (map_prod id meaning) ms)" by (rule sym)
  have "map fst (map (map_prod id meaning) fs) = map fst fs" by simp
  with assms(2) have "distinct (map fst (map (map_prod id meaning) fs))" by metis
  from map_of_rearranged(1) [OF same this] show ?thesis by (simp only: meaning.simps)
qed

lemma meaning_normalize: "unique_names j \<Longrightarrow> no_proto j \<Longrightarrow> meaning (normalize j) = meaning j"
proof (induction j)
  case (JObj fs)
  have "''__proto__'' \<notin> set (map fst (by_name (map (map_prod id normalize) fs)))" using JObj.prems by (auto simp: by_name_def image_iff)
  then have "mset (fresh_object (by_name (map (map_prod id normalize) fs))) = mset (map (map_prod id normalize) fs)"
    by (simp add: mset_fresh_object) (simp add: by_name_def)
  then show ?case unfolding normalize.simps using JObj by (intro meaning_rearranged [where f = normalize]) (auto simp: Basic_BNFs.snds.simps)
qed auto

lemma meaning_sort_members: "unique_names j \<Longrightarrow> meaning (sort_members lc j) = meaning j"
proof (induction j)
  case (JObj fs)
  then show ?case unfolding sort_members.simps by (intro meaning_rearranged [where f = "sort_members lc"]) (auto simp: Basic_BNFs.snds.simps)
qed auto

text \<open>A list with distinct names in order is determined by its members.\<close>

lemma by_name_unique:
  assumes "distinct (map fst xs)" and "distinct (map fst ys)" and "set xs = set ys"
  shows "by_name xs = by_name ys"
proof -
  have sorted: "sorted_wrt (\<lambda>a b. fst a \<le> fst b) (by_name zs)" for zs :: "(string \<times> 'a) list"
  proof -
    have eq: "compare_str (fst a) (fst b) \<le> 0 \<longleftrightarrow> fst a \<le> fst b" for a b :: "string \<times> 'a"
      by (auto simp: compare_str_def)
    then have "comparator (\<lambda>a b :: string \<times> 'a. compare_str (fst a) (fst b))" by (rule comparator_key [where key = fst])
    from comparator.sorted_sort_by [OF this, of zs] show ?thesis by (simp add: by_name_def eq)
  qed
  have dist: "distinct (map fst (by_name zs))" if "distinct (map fst zs)" for zs :: "(string \<times> 'a) list"
    by (rule map_of_rearranged(2) [OF _ that]) (simp add: by_name_def)
  have "sorted (map fst (by_name zs))" for zs :: "(string \<times> 'a) list" using sorted by (simp add: sorted_wrt_map)
  moreover have "map fst (by_name xs) = map fst (by_name ys)"
    by (rule sorted_distinct_set_unique) (use calculation dist assms in \<open>auto simp: by_name_def\<close>)
  moreover have "inj_on fst (set (by_name xs) \<union> set (by_name ys))"
    using assms by (simp add: by_name_def distinct_map)
  ultimately show ?thesis by (metis map_inj_on)
qed

lemma map_of_map_prod: "map_of (map (map_prod id f) fs) k = map_option f (map_of fs k)"
  by (induction fs) auto

lemma meaning_eq_normalize:
  "unique_names a \<Longrightarrow> unique_names b \<Longrightarrow> meaning a = meaning b \<Longrightarrow> normalize a = normalize b"
proof (induction a arbitrary: b)
  case (JArr xs)
  then obtain ys where b: "b = JArr ys" by (cases b) auto
  with JArr.prems have "map meaning xs = map meaning ys" by simp
  then have "map normalize xs = map normalize ys"
  proof (intro list_eq_iff_nth_eq [THEN iffD2] conjI allI impI)
    assume eq: "map meaning xs = map meaning ys"
    then show len: "length (map normalize xs) = length (map normalize ys)" by (metis length_map)
    fix i assume "i < length (map normalize xs)"
    with len eq JArr.prems b have "xs ! i \<in> set xs" "ys ! i \<in> set ys" "meaning (xs ! i) = meaning (ys ! i)"
      by (auto simp: list_eq_iff_nth_eq)
    with JArr b \<open>i < _\<close> len show "map normalize xs ! i = map normalize ys ! i" by auto
  qed
  with b show ?case by simp
next
  case (JObj fs)
  then obtain gs where b: "b = JObj gs" by (cases b) auto
  with JObj.prems have d: "distinct (map fst fs)" "distinct (map fst gs)"
    and eq: "map_option meaning (map_of fs k) = map_option meaning (map_of gs k)" for k
    by (simp_all add: map_of_map_prod fun_eq_iff)
  have norm: "normalize v = normalize w" if "map_of fs k = Some v" "map_of gs k = Some w" for k v w
  proof (rule JObj.IH)
    show "(k, v) \<in> set fs" "v \<in> Basic_BNFs.snds (k, v)" using that by (simp_all add: map_of_SomeD)
    show "unique_names v" "unique_names w" using JObj.prems b that by (auto dest!: map_of_SomeD)
    show "meaning v = meaning w" using eq [of k] that by simp
  qed
  have "map_option normalize (map_of fs k) = map_option normalize (map_of gs k)" for k
    using eq [of k] by (cases "map_of fs k"; cases "map_of gs k") (simp_all, erule norm)
  then have "map_of (map (map_prod id normalize) fs) = map_of (map (map_prod id normalize) gs)"
    by (simp add: fun_eq_iff map_of_map_prod)
  then have "set (map (map_prod id normalize) fs) = set (map (map_prod id normalize) gs)"
    using d by (intro map_of_inject_set [THEN iffD1]) (simp_all add: comp_def)
  then have "by_name (map (map_prod id normalize) fs) = by_name (map (map_prod id normalize) gs)"
    using d by (intro by_name_unique) (simp_all add: comp_def)
  with b show ?case by simp
qed (case_tac b; simp)+

lemma finite_normalize: "finite_json j \<Longrightarrow> finite_json (normalize j)"
proof (induction j)
  case (JObj fs)
  have "set (fresh_object ms) \<subseteq> set ms" for ms by (auto simp: fresh_object_def Let_def)
  with JObj show ?case by (force simp: by_name_def Basic_BNFs.snds.simps)
qed auto

lemma finite_sort_members: "finite_json j \<Longrightarrow> finite_json (sort_members lc j)"
proof (induction j)
  case (JObj fs)
  then show ?case by (force simp: Basic_BNFs.snds.simps)
qed auto

lemma normalize_eq_iff: "plain a \<Longrightarrow> plain b \<Longrightarrow> normalize a = normalize b \<longleftrightarrow> meaning a = meaning b"
  unfolding plain_def using meaning_normalize meaning_eq_normalize by metis

lemma prompt_text_iff:
  assumes "number_format num" "plain a" "plain b"
  shows "canonicalJson_prompt num a = canonicalJson_prompt num b \<longleftrightarrow> meaning a = meaning b"
proof -
  have "finite_json (normalize a)" "finite_json (normalize b)" using assms by (simp_all add: plain_def finite_normalize)
  then show ?thesis using assms by (simp add: canonicalJson_prompt_def stringify_inject normalize_eq_iff)
qed

lemma audit_text_meaning:
  assumes "number_format num" "finite_json a" "finite_json b" "unique_names a" "unique_names b"
    and "canonicalJson_audit lc num a = canonicalJson_audit lc num b"
  shows "meaning a = meaning b"
proof -
  have "sort_members lc a = sort_members lc b"
    using assms by (simp add: canonicalJson_audit_def stringify_inject finite_sort_members)
  then show ?thesis using assms(4,5) by (metis meaning_sort_members)
qed

subsection \<open>Which values the graph's canonical form accepts\<close>

primrec nesting :: "json \<Rightarrow> nat" where
  "nesting JNull = 0"
| "nesting (JBool b) = 0"
| "nesting (JNum q) = 0"
| "nesting JNonFinite = 0"
| "nesting (JStr s) = 0"
| "nesting (JArr xs) = foldr max (map Suc (map nesting xs)) 0"
| "nesting (JObj fs) = foldr max (map (Suc \<circ> snd) (map (map_prod id nesting) fs)) 0"

lemma foldr_max_le: "foldr max ns (0::nat) \<le> m \<longleftrightarrow> (\<forall>n \<in> set ns. n \<le> m)"
  by (induction ns) auto

lemma nesting_Arr [simp]: "nesting (JArr xs) \<le> m \<longleftrightarrow> (\<forall>v \<in> set xs. nesting v < m)"
  by (auto simp: foldr_max_le Suc_le_eq)

lemma nesting_Obj [simp]: "nesting (JObj fs) \<le> m \<longleftrightarrow> (\<forall>kv \<in> set fs. nesting (snd kv) < m)"
  by (auto simp: foldr_max_le Suc_le_eq)

declare nesting.simps(6,7) [simp del]

lemma depth_step:
  fixes f :: "'a \<Rightarrow> nat"
  assumes "\<And>m. n \<le> m \<longleftrightarrow> (\<forall>x \<in> A. f x < m)"
  shows "d + n \<le> M \<longleftrightarrow> d \<le> M \<and> (\<forall>x \<in> A. Suc d + f x \<le> M)"
proof (cases "d \<le> M")
  case True
  then have "d + n \<le> M \<longleftrightarrow> n \<le> M - d" by linarith
  moreover have "f x < M - d \<longleftrightarrow> Suc d + f x \<le> M" for x by linarith
  ultimately show ?thesis using True assms by simp
qed simp

lemma insert_by_map: "insert_by (\<lambda>a b. c (fst a) (fst b)) (map_prod id f x) (map (map_prod id f) ys) = map (map_prod id f) (insert_by (\<lambda>a b. c (fst a) (fst b)) x ys)"
  by (induction ys) auto

lemma by_name_map: "by_name (map (map_prod id f) fs) = map (map_prod id f) (by_name fs)"
  unfolding by_name_def by (induction fs) (simp_all only: list.map sort_by.simps insert_by_map)

lemma set_by_name [simp]: "set (by_name fs) = set fs"
  by (simp add: by_name_def)

lemma collectE_Inr: "collectE rs = Inr xs \<longleftrightarrow> rs = map Inr xs"
  by (induction rs arbitrary: xs) (auto simp: result_simps Cons_eq_map_conv)

lemma collectE_map:
  assumes "\<And>x y. x \<in> set xs \<Longrightarrow> f x = Inr y \<longleftrightarrow> P x \<and> y = g x"
  shows "collectE (map f xs) = Inr ys \<longleftrightarrow> (\<forall>x \<in> set xs. P x) \<and> ys = map g xs"
  unfolding collectE_Inr using assms
proof (induction xs arbitrary: ys)
  case (Cons x xs)
  have "map f (x # xs) = map Inr ys \<longleftrightarrow> (\<exists>z zs. ys = z # zs \<and> f x = Inr z \<and> map f xs = map Inr zs)" by (cases ys) auto
  also have "\<dots> \<longleftrightarrow> (\<exists>z zs. ys = z # zs \<and> (P x \<and> z = g x) \<and> (\<forall>x \<in> set xs. P x) \<and> zs = map g xs)"
    using Cons.prems [of x] Cons.IH Cons.prems by simp
  finally show ?case by auto
qed simp

lemma normalize_at_iff:
  "normalize_at j d = Inr v \<longleftrightarrow> finite_json j \<and> d + nesting j \<le> MAX_DEPTH \<and> v = normalize j"
proof (induction j arbitrary: d v)
  case (JArr xs)
  have "collectE (map (\<lambda>x. normalize_at x (Suc d)) xs) = Inr ys \<longleftrightarrow>
      (\<forall>x \<in> set xs. finite_json x \<and> Suc d + nesting x \<le> MAX_DEPTH) \<and> ys = map normalize xs" for ys
    by (rule collectE_map) (use JArr in blast)
  moreover have "d + nesting (JArr xs) \<le> MAX_DEPTH \<longleftrightarrow> d \<le> MAX_DEPTH \<and> (\<forall>x \<in> set xs. Suc d + nesting x \<le> MAX_DEPTH)"
    by (rule depth_step) simp
  ultimately show ?case by (auto simp: result_simps comp_def)
next
  case (JObj fs)
  let ?f = "\<lambda>kv. name_result (fst kv, normalize_at (snd kv) (Suc d))"
  have "collectE (map ?f (by_name fs)) = Inr ys \<longleftrightarrow>
      (\<forall>kv \<in> set (by_name fs). finite_json (snd kv) \<and> Suc d + nesting (snd kv) \<le> MAX_DEPTH) \<and> ys = map (map_prod id normalize) (by_name fs)" for ys
  proof (rule collectE_map)
    fix kv :: "string \<times> json" and y
    assume "kv \<in> set (by_name fs)"
    then have "normalize_at (snd kv) (Suc d) = Inr w \<longleftrightarrow> finite_json (snd kv) \<and> Suc d + nesting (snd kv) \<le> MAX_DEPTH \<and> w = normalize (snd kv)" for w
      by (intro JObj.IH [of kv]) (auto simp: Basic_BNFs.snds.simps)
    then show "?f kv = Inr y \<longleftrightarrow> (finite_json (snd kv) \<and> Suc d + nesting (snd kv) \<le> MAX_DEPTH) \<and> y = map_prod id normalize kv"
      by (cases kv) (auto simp: name_result_def result_simps)
  qed
  moreover have "d + nesting (JObj fs) \<le> MAX_DEPTH \<longleftrightarrow> d \<le> MAX_DEPTH \<and> (\<forall>kv \<in> set fs. Suc d + nesting (snd kv) \<le> MAX_DEPTH)"
    by (rule depth_step) simp
  moreover have step: "map (\<lambda>(k, f). name_result (k, f (Suc d))) (by_name (map (map_prod id normalize_at) fs)) = map ?f (by_name fs)"
    by (simp add: by_name_map case_prod_unfold)
  have "normalize_at (JObj fs) d = (if d > MAX_DEPTH then Inl ''nested too deeply''
      else bindE (collectE (map ?f (by_name fs))) (\<lambda>ms. Inr (JObj (fresh_object ms))))"
    unfolding normalize_at.simps step ..
  ultimately show ?case by (auto simp: result_simps by_name_map)
qed auto

lemma canonicalJson_iff:
  "canonicalJson num j = Inr s \<longleftrightarrow> finite_json j \<and> nesting j \<le> MAX_DEPTH \<and> s = canonicalJson_prompt num j"
  by (auto simp: canonicalJson_def canonicalJson_prompt_def result_simps normalize_at_iff)

subsection \<open>Properties\<close>

text \<open>
  Two plain JSON values (finite numbers, names distinct and not \<open>__proto__\<close>) are \<open>deepEqual\<close>,
  i.e. have the same canonical text, exactly when they denote the same value: the order in which
  members are written does not matter, and nothing else is lost, whatever characters the strings hold.
\<close>
theorem deepEqual_iff_same_value:
  assumes "number_format num" and "plain a" and "plain b"
  shows "deepEqual num a b \<longleftrightarrow> meaning a = meaning b"
  using prompt_text_iff [OF assms] by (simp add: deepEqual_def)

text \<open>A number format for examples: numerator and denominator, joined by \<open>e\<close>\<close>

definition ratio_text :: "rat \<Rightarrow> string" where
  "ratio_text q = (let (n, d) = quotient_of q in
     (if n < 0 then ''-'' else []) @ show_nat (nat \<bar>n\<bar>) @ CHR ''e'' # show_nat (nat d))"

lemma number_format_ratio_text: "number_format ratio_text"
proof -
  have digits: "\<forall>ch \<in> set (show_nat n). is_digit ch \<or> ch \<in> set ''+-.e''" for n using show_nat_digits by blast
  have no_e: "CHR ''e'' \<notin> set (show_nat n)" for n using show_nat_digits [of n] by (auto simp: is_digit_def)
  have sign: "hd (show_nat n) \<noteq> CHR ''-''" for n
  proof
    assume "hd (show_nat n) = CHR ''-''"
    then have "CHR ''-'' \<in> set (show_nat n)" using hd_in_set [of "show_nat n"] by simp
    then show False using show_nat_digits [of n] by (auto simp: is_digit_def)
  qed
  have "p = q" if eq: "ratio_text p = ratio_text q" for p q
  proof -
    obtain n d where p: "quotient_of p = (n, d)" by (cases "quotient_of p")
    obtain m e where q: "quotient_of q = (m, e)" by (cases "quotient_of q")
    have pos: "0 < d" "0 < e" using p q quotient_of_denom_pos by blast+
    from eq have "((if n < 0 then ''-'' else []) @ show_nat (nat \<bar>n\<bar>)) @ CHR ''e'' # show_nat (nat d) =
        ((if m < 0 then ''-'' else []) @ show_nat (nat \<bar>m\<bar>)) @ CHR ''e'' # show_nat (nat e)"
      by (simp add: ratio_text_def p q)
    from sep_inject [OF this no_e no_e] have "(if n < 0 then ''-'' else []) @ show_nat (nat \<bar>n\<bar>) = (if m < 0 then ''-'' else []) @ show_nat (nat \<bar>m\<bar>)"
      and "nat d = nat e" by simp_all
    then have "n = m" "d = e" using pos sign by (auto split: if_splits) (metis list.sel(1))+
    with p q show "p = q" by (metis quotient_of_inject_eq)
  qed
  moreover have "ratio_text q \<noteq> [] \<and> (\<forall>ch \<in> set (ratio_text q). is_digit ch \<or> ch \<in> set ''+-.e'')" for q
    using digits by (auto simp: ratio_text_def Let_def case_prod_unfold)
  ultimately show ?thesis by (simp add: number_format_def inj_def)
qed

theorem deepEqual_iff_same_value_witness:
  "deepEqual ratio_text (JObj [(''a'', JNum 1), (''b'', JArr [JStr ''x'', JNull])]) (JObj [(''b'', JArr [JStr ''x'', JNull]), (''a'', JNum 1)])"
  using deepEqual_iff_same_value [OF number_format_ratio_text,
      of "JObj [(''a'', JNum 1), (''b'', JArr [JStr ''x'', JNull])]" "JObj [(''b'', JArr [JStr ''x'', JNull]), (''a'', JNum 1)]"]
  by (simp add: plain_def fun_eq_iff)

text \<open>
  The canonical form of goal graphs fails exactly on values with a number that is not finite or
  with more than 128 levels of nesting; where it succeeds it is the text the prompt registry uses.
\<close>
theorem canonicalJson_accepts_iff:
  "isOk (canonicalJson num j) \<longleftrightarrow> finite_json j \<and> nesting j \<le> MAX_DEPTH"
  by (auto simp: isOk_iff canonicalJson_iff)

end
