(* ===== verification/Regex.thy ===== *)
theory Regex
  imports Prelude
begin

text \<open>
  The regular expressions the components test text with. A position is the character before it and
  the text after it, which is what \<open>\b\<close>, \<open>^\<close> and \<open>$\<close> look at; \<open>re_match\<close> lists the positions an
  expression can end in. A test asks whether some match exists, so the order in which JavaScript
  explores alternatives does not matter. Expressions with the flag \<open>i\<close> are written in lower case and
  tested on the lower-cased text.

  The lemmas relate the executable matcher to the relation \<open>re_rel\<close>, which reads an expression as a
  set of pairs of positions.
\<close>

datatype cls = OneOf string | NoneOf string | WordChar | Digit | Space | AnyChar

definition is_word :: "char \<Rightarrow> bool" where
  "is_word ch \<longleftrightarrow> is_digit ch \<or> ch = CHR ''_'' \<or> (let n = (of_char ch :: nat) in n \<in> {65..90} \<or> n \<in> {97..122})"

fun in_cls :: "cls \<Rightarrow> char \<Rightarrow> bool" where
  "in_cls (OneOf cs) ch \<longleftrightarrow> ch \<in> set cs"
| "in_cls (NoneOf cs) ch \<longleftrightarrow> ch \<notin> set cs"
| "in_cls WordChar ch \<longleftrightarrow> is_word ch"
| "in_cls Digit ch \<longleftrightarrow> is_digit ch"
| "in_cls Space ch \<longleftrightarrow> is_space ch"
| "in_cls AnyChar ch \<longleftrightarrow> ch \<notin> {CHR 10, CHR 13}"

text \<open>\<open>Rep c lo hi\<close> is a class repeated at least \<open>lo\<close> and, with a bound, at most \<open>hi\<close> times.\<close>

datatype re = Eps | Cls cls | Cat re re | Alt re re | Rep cls nat "nat option" | WordBound | Start | End

type_synonym position = "char option \<times> string"

definition at_boundary :: "position \<Rightarrow> bool" where
  "at_boundary p \<longleftrightarrow>
     (case fst p of None \<Rightarrow> False | Some c \<Rightarrow> is_word c) \<noteq> (case snd p of [] \<Rightarrow> False | c # _ \<Rightarrow> is_word c)"

text \<open>The positions reached by taking more and more characters of a class\<close>

fun runs :: "cls \<Rightarrow> char option \<Rightarrow> string \<Rightarrow> position list" where
  "runs c prev [] = [(prev, [])]"
| "runs c prev (x # s) = (prev, x # s) # (if in_cls c x then runs c (Some x) s else [])"

fun re_match :: "re \<Rightarrow> position \<Rightarrow> position list" where
  "re_match Eps p = [p]"
| "re_match (Cls c) (prev, s) = (case s of [] \<Rightarrow> [] | x # t \<Rightarrow> if in_cls c x then [(Some x, t)] else [])"
| "re_match (Cat a b) p = concat (map (re_match b) (re_match a p))"
| "re_match (Alt a b) p = re_match a p @ re_match b p"
| "re_match (Rep c lo hi) (prev, s) =
     (let ps = runs c prev s in drop lo (case hi of None \<Rightarrow> ps | Some n \<Rightarrow> take (Suc n) ps))"
| "re_match WordBound p = (if at_boundary p then [p] else [])"
| "re_match Start p = (if fst p = None then [p] else [])"
| "re_match End p = (if snd p = [] then [p] else [])"

fun re_search :: "re \<Rightarrow> char option \<Rightarrow> string \<Rightarrow> bool" where
  "re_search r prev [] \<longleftrightarrow> re_match r (prev, []) \<noteq> []"
| "re_search r prev (x # s) \<longleftrightarrow> re_match r (prev, x # s) \<noteq> [] \<or> re_search r (Some x) s"

definition re_test :: "re \<Rightarrow> string \<Rightarrow> bool" where
  "re_test r s = re_search r None s"

definition re_test_i :: "re \<Rightarrow> string \<Rightarrow> bool" where
  "re_test_i r s = re_test r (toLowerCase s)"

subsection \<open>Building expressions\<close>

fun lit :: "string \<Rightarrow> re" where
  "lit [] = Eps"
| "lit [x] = Cls (OneOf [x])"
| "lit (x # xs) = Cat (Cls (OneOf [x])) (lit xs)"

fun cat :: "re list \<Rightarrow> re" where
  "cat [] = Eps"
| "cat [r] = r"
| "cat (r # rs) = Cat r (cat rs)"

fun alt :: "re list \<Rightarrow> re" where
  "alt [] = Cls (OneOf [])"
| "alt [r] = r"
| "alt (r # rs) = Alt r (alt rs)"

definition opt :: "re \<Rightarrow> re" where
  "opt r = Alt r Eps"

definition words :: "string list \<Rightarrow> re" where
  "words ws = alt (map lit ws)"

definition bounded :: "re \<Rightarrow> re" where
  "bounded r = cat [WordBound, r, WordBound]"

definition many_word :: re where
  "many_word = Rep WordChar 0 None"

subsection \<open>What the matcher computes\<close>

text \<open>A run over \<open>u\<close> ends after its last character.\<close>

definition after :: "char option \<Rightarrow> string \<Rightarrow> char option" where
  "after prev u = (if u = [] then prev else Some (last u))"

inductive re_rel :: "re \<Rightarrow> position \<Rightarrow> position \<Rightarrow> bool" where
  eps: "re_rel Eps p p"
| cls: "in_cls c x \<Longrightarrow> re_rel (Cls c) (prev, x # t) (Some x, t)"
| cat: "re_rel a p q \<Longrightarrow> re_rel b q r \<Longrightarrow> re_rel (Cat a b) p r"
| left: "re_rel a p q \<Longrightarrow> re_rel (Alt a b) p q"
| right: "re_rel b p q \<Longrightarrow> re_rel (Alt a b) p q"
| rep: "list_all (in_cls c) u \<Longrightarrow> lo \<le> length u \<Longrightarrow> (case hi of None \<Rightarrow> True | Some n \<Rightarrow> length u \<le> n) \<Longrightarrow>
    re_rel (Rep c lo hi) (prev, u @ t) (after prev u, t)"
| bound: "at_boundary p \<Longrightarrow> re_rel WordBound p p"
| start: "fst p = None \<Longrightarrow> re_rel Start p p"
| ending: "snd p = [] \<Longrightarrow> re_rel End p p"

inductive_cases re_rel_CatE: "re_rel (Cat a b) p r"
inductive_cases re_rel_AltE: "re_rel (Alt a b) p r"
inductive_cases re_rel_RepE: "re_rel (Rep c lo hi) p r"
inductive_simps re_rel_atoms: "re_rel Eps p q" "re_rel (Cls c) p q" "re_rel WordBound p q" "re_rel Start p q" "re_rel End p q"

lemma after_Cons: "after prev (x # u) = after (Some x) u"
  by (simp add: after_def)

lemma runs_nth:
  "k < length (runs c prev s) \<longleftrightarrow> (\<exists>u t. s = u @ t \<and> length u = k \<and> list_all (in_cls c) u)"
  "s = u @ t \<Longrightarrow> list_all (in_cls c) u \<Longrightarrow> runs c prev s ! length u = (after prev u, t)"
proof (induction c prev s arbitrary: k u t rule: runs.induct)
  case (1 c prev)
  {
    case 1
    show ?case by auto
  next
    case 2
    then show ?case by (simp add: after_def)
  }
next
  case (2 c prev x s)
  {
    case 1
    show ?case
    proof (cases k)
      case (Suc m)
      have "(\<exists>u t. x # s = u @ t \<and> length u = Suc m \<and> list_all (in_cls c) u) \<longleftrightarrow>
          in_cls c x \<and> (\<exists>u t. s = u @ t \<and> length u = m \<and> list_all (in_cls c) u)" (is "?L = ?R")
      proof
        assume ?L
        then show ?R by (auto simp: length_Suc_conv) blast
      next
        assume ?R
        then obtain u t where "in_cls c x" "s = u @ t" "length u = m" "list_all (in_cls c) u" by blast
        then show ?L by (intro exI [of _ "x # u"] exI [of _ t]) simp
      qed
      with Suc "2.IH"(1) [of m] show ?thesis by auto
    qed simp
  next
    case 2
    then show ?case using "2.IH"(2) by (cases u) (auto simp: after_def)
  }
qed

lemma in_drop_take:
  "x \<in> set (drop lo (case hi of None \<Rightarrow> xs | Some n \<Rightarrow> take (Suc n) xs)) \<longleftrightarrow>
     (\<exists>k < length xs. xs ! k = x \<and> lo \<le> k \<and> (case hi of None \<Rightarrow> True | Some n \<Rightarrow> k \<le> n))"
proof -
  have "x \<in> set (drop lo ys) \<longleftrightarrow> (\<exists>k < length ys. ys ! k = x \<and> lo \<le> k)" for ys :: "'a list"
  proof
    assume "x \<in> set (drop lo ys)"
    then obtain i where "i < length ys - lo" "drop lo ys ! i = x" by (auto simp: in_set_conv_nth)
    then show "\<exists>k < length ys. ys ! k = x \<and> lo \<le> k" by (intro exI [of _ "lo + i"]) auto
  next
    assume "\<exists>k < length ys. ys ! k = x \<and> lo \<le> k"
    then obtain k where "k < length ys" "ys ! k = x" "lo \<le> k" by blast
    then show "x \<in> set (drop lo ys)" unfolding in_set_conv_nth by (intro exI [of _ "k - lo"]) auto
  qed
  then show ?thesis by (cases hi) (auto simp: less_Suc_eq_le)
qed

text \<open>The matcher finds exactly the matches of the relation.\<close>

lemma re_match_iff: "q \<in> set (re_match r p) \<longleftrightarrow> re_rel r p q"
proof (induction r arbitrary: p q)
  case (Cls c)
  obtain prev s where "p = (prev, s)" by (cases p)
  then show ?case by (cases s) (auto simp: re_rel_atoms)
next
  case (Rep c lo hi)
  obtain prev s where p: "p = (prev, s)" by (cases p)
  show ?case
  proof
    assume "q \<in> set (re_match (Rep c lo hi) p)"
    then obtain k where k: "k < length (runs c prev s)" "runs c prev s ! k = q" "lo \<le> k" "case hi of None \<Rightarrow> True | Some n \<Rightarrow> k \<le> n"
      unfolding p re_match.simps Let_def in_drop_take by blast
    from k(1) obtain u t where "s = u @ t" "length u = k" "list_all (in_cls c) u" unfolding runs_nth(1) by blast
    with k runs_nth(2) [of s u t c prev] show "re_rel (Rep c lo hi) p q" unfolding p by (auto intro: re_rel.rep)
  next
    assume "re_rel (Rep c lo hi) p q"
    then obtain u t where u: "s = u @ t" "q = (after prev u, t)" "list_all (in_cls c) u" "lo \<le> length u"
        "case hi of None \<Rightarrow> True | Some n \<Rightarrow> length u \<le> n"
      unfolding p by (elim re_rel_RepE) auto
    then have "length u < length (runs c prev s)" unfolding runs_nth(1) by blast
    with u runs_nth(2) [OF u(1,3)] show "q \<in> set (re_match (Rep c lo hi) p)"
      unfolding p re_match.simps Let_def in_drop_take by blast
  qed
next
  case (Cat a b)
  have "q \<in> set (re_match (Cat a b) p) \<longleftrightarrow> (\<exists>r. r \<in> set (re_match a p) \<and> q \<in> set (re_match b r))" by auto
  then show ?case unfolding Cat by (blast intro: re_rel.cat elim: re_rel_CatE)
next
  case (Alt a b)
  have "q \<in> set (re_match (Alt a b) p) \<longleftrightarrow> q \<in> set (re_match a p) \<or> q \<in> set (re_match b p)" by simp
  then show ?case unfolding Alt by (blast intro: re_rel.left re_rel.right elim: re_rel_AltE)
qed (auto simp: re_rel_atoms)

lemma re_search_iff: "re_search r prev s \<longleftrightarrow> (\<exists>u t q. s = u @ t \<and> re_rel r (after prev u, t) q)"
proof (induction s arbitrary: prev)
  case Nil
  have "re_search r prev [] \<longleftrightarrow> (\<exists>q. re_rel r (prev, []) q)"
    unfolding re_match_iff [symmetric] re_search.simps by (metis ex_in_conv set_empty)
  then show ?case by (simp add: after_def)
next
  case (Cons x s)
  have here: "re_match r (prev, x # s) \<noteq> [] \<longleftrightarrow> (\<exists>q. re_rel r (prev, x # s) q)"
    unfolding re_match_iff [symmetric] by (metis ex_in_conv set_empty)
  have split: "(\<exists>u t q. x # s = u @ t \<and> P u t q) \<longleftrightarrow> (\<exists>q. P [] (x # s) q) \<or> (\<exists>u t q. s = u @ t \<and> P (x # u) t q)" for P :: "string \<Rightarrow> string \<Rightarrow> position \<Rightarrow> bool"
    by (auto simp: Cons_eq_append_conv)
  have "after prev [] = prev" by (simp add: after_def)
  then show ?case unfolding re_search.simps here Cons.IH split after_Cons by simp
qed

text \<open>A test is the existence of a match somewhere in the text.\<close>

lemma re_test_iff: "re_test r s \<longleftrightarrow> (\<exists>u t q. s = u @ t \<and> re_rel r (after None u, t) q)"
  by (simp add: re_test_def re_search_iff)

end
