(* ===== verification/Audit_Trail.thy ===== *)
theory Audit_Trail
  imports Canonical Regex
begin

text \<open>
  The audit trail of \<open>src/packages/goals/src/governance/index.ts\<close>: redaction of events, the digest that
  chains a record to its predecessor, appending, querying and verification of the chain.

  The store keeps the records under their sequence key. What lies outside is a parameter, collected in
  \<open>AuditDeps\<close>: \<open>localeCompare\<close>, the text of a number, SHA-256, \<open>toISOString\<close> and
  \<open>sanitizeUntrustedOutput\<close> of \<open>src/packages/shared\<close>. An event is the JSON object that is stored;
  every stored value is a record, so the filters on malformed entries have nothing to drop. Appends of one
  instance run one after the other, which is what \<open>enqueueAudit\<close> arranges; an append is split into
  building the record from a listing and storing it, so that two instances can be interleaved.
\<close>

record AuditDeps =
  d_localeCompare :: "string \<Rightarrow> string \<Rightarrow> rat"
  d_number :: "rat \<Rightarrow> string"
  d_sha256 :: "string \<Rightarrow> string"
  d_toISOString :: "timestamp \<Rightarrow> string"
  d_sanitizeUntrustedOutput :: "string \<Rightarrow> string"

record GoalAuditRecord =
  au_seq :: string
  au_seqNumber :: nat
  au_recordedAt :: string
  au_event :: json
  au_prevDigest :: string
  au_digest :: string

type_synonym audit_store = "(string, GoalAuditRecord) dict"

record RawEvent =
  raw_seq :: "rat option"
  raw_type :: string
  raw_runId :: "GoalRunId option"
  raw_targetId :: "TargetId option"
  raw_attemptId :: "TargetAttemptId option"
  raw_executionId :: "ExecutionId option"
  raw_timestamp :: "string option"
  raw_data :: "json option"

subsection \<open>Redaction\<close>

text \<open>Words joined by an optional separator: \<open>a[_-]?b\<close>\<close>

fun joined :: "re \<Rightarrow> re list \<Rightarrow> re list" where
  "joined sep [] = []"
| "joined sep [r] = [r]"
| "joined sep (r # rs) = r # opt sep # joined sep rs"

definition dash :: re where "dash = Cls (OneOf ''_-'')"

definition phrase :: "string list \<Rightarrow> re" where
  "phrase ws = cat (joined dash (map lit ws))"

definition SENSITIVE_KEY_RE :: re where
  "SENSITIVE_KEY_RE = cat
    [alt [Start, dash],
     alt [lit ''secret'', lit ''password'', lit ''passwd'', lit ''token'', phrase [''api'', ''key''], lit ''apikey'',
       phrase [''private'', ''key''], phrase [''access'', ''key''], phrase [''client'', ''secret''], phrase [''auth'', ''token''],
       phrase [''refresh'', ''token''], lit ''bearer'', lit ''credential'', phrase [''connection'', ''string''], phrase [''database'', ''url'']],
     alt [End, dash]]"

definition sensitive_key :: "string \<Rightarrow> bool" where
  "sensitive_key k = re_test_i SENSITIVE_KEY_RE k"

definition dropped_key :: "string \<Rightarrow> bool" where
  "dropped_key k \<longleftrightarrow> k \<in> {''__proto__'', ''constructor'', ''prototype''}"

definition nonempty_string :: "json \<Rightarrow> bool" where
  "nonempty_string v \<longleftrightarrow> (case v of JStr s \<Rightarrow> s \<noteq> [] | _ \<Rightarrow> False)"

lemma size_member [termination_simp]: "(k, v) \<in> set fs \<Longrightarrow> size v < Suc (size_list (size_prod (\<lambda>x. 0) size) fs)"
  by (induction fs) auto

fun sanitizeAuditValue :: "(string \<Rightarrow> string) \<Rightarrow> json \<Rightarrow> json" where
  "sanitizeAuditValue san (JStr s) = JStr (san s)"
| "sanitizeAuditValue san (JArr xs) = JArr (map (sanitizeAuditValue san) xs)"
| "sanitizeAuditValue san (JObj fs) =
     JObj (map (\<lambda>(k, v). (k, if sensitive_key k \<and> nonempty_string v then JStr ''[REDACTED]'' else sanitizeAuditValue san v))
            (filter (\<lambda>(k, v). \<not> dropped_key k) fs))"
| "sanitizeAuditValue san v = v"

subsection \<open>Appending\<close>

definition computeAuditDigest :: "AuditDeps \<Rightarrow> string \<Rightarrow> string \<Rightarrow> string \<Rightarrow> json \<Rightarrow> string" where
  "computeAuditDigest d seq recordedAt prevDigest event =
     d_sha256 d (canonicalJson_audit (d_localeCompare d) (d_number d)
       (JObj [(''seq'', JStr seq), (''recordedAt'', JStr recordedAt), (''prevDigest'', JStr prevDigest), (''event'', event)]))"

definition by_seqNumber :: "GoalAuditRecord \<Rightarrow> GoalAuditRecord \<Rightarrow> rat" where
  "by_seqNumber a b = of_nat (au_seqNumber a) - of_nat (au_seqNumber b)"

text \<open>\<open>store.list('goals/audit/')\<close>, sorted\<close>

definition audit_records :: "audit_store \<Rightarrow> GoalAuditRecord list" where
  "audit_records st = sort_by by_seqNumber (map snd st)"

definition optional_member :: "string \<Rightarrow> string option \<Rightarrow> (string \<times> json) list" where
  "optional_member k v = (case v of None \<Rightarrow> [] | Some s \<Rightarrow> [(k, JStr s)])"

definition sanitized_event :: "AuditDeps \<Rightarrow> nat \<Rightarrow> string \<Rightarrow> RawEvent \<Rightarrow> json" where
  "sanitized_event d seqNumber recordedAt ev =
     sanitizeAuditValue (d_sanitizeUntrustedOutput d) (JObj (
       [(''seq'', JNum (case raw_seq ev of Some q \<Rightarrow> q | None \<Rightarrow> of_nat seqNumber)), (''type'', JStr (raw_type ev))] @
       optional_member ''runId'' (raw_runId ev) @
       optional_member ''targetId'' (raw_targetId ev) @
       optional_member ''attemptId'' (raw_attemptId ev) @
       optional_member ''executionId'' (raw_executionId ev) @
       [(''timestamp'', JStr (case raw_timestamp ev of Some t \<Rightarrow> t | None \<Rightarrow> recordedAt)),
        (''data'', sanitizeAuditValue (d_sanitizeUntrustedOutput d) (case raw_data ev of Some v \<Rightarrow> v | None \<Rightarrow> JObj []))]))"

definition next_record :: "AuditDeps \<Rightarrow> timestamp \<Rightarrow> RawEvent \<Rightarrow> GoalAuditRecord list \<Rightarrow> GoalAuditRecord" where
  "next_record d now ev recs =
     (let seqNumber = (if recs = [] then 0 else au_seqNumber (last recs)) + 1;
          seqKey = pad_nat 10 seqNumber;
          recordedAt = d_toISOString d now;
          prevDigest = (if recs = [] then ''GENESIS'' else au_digest (last recs));
          event = sanitized_event d seqNumber recordedAt ev
      in \<lparr>au_seq = seqKey, au_seqNumber = seqNumber, au_recordedAt = recordedAt, au_event = event,
          au_prevDigest = prevDigest, au_digest = computeAuditDigest d seqKey recordedAt prevDigest event\<rparr>)"

definition put_record :: "GoalAuditRecord \<Rightarrow> audit_store \<Rightarrow> audit_store" where
  "put_record r st = dput (au_seq r) r st"

definition appendAuditInternal :: "AuditDeps \<Rightarrow> timestamp \<Rightarrow> RawEvent \<Rightarrow> audit_store \<Rightarrow> GoalAuditRecord \<times> audit_store" where
  "appendAuditInternal d now ev st = (let r = next_record d now ev (audit_records st) in (r, put_record r st))"

text \<open>\<open>enqueueAudit\<close> runs the appends of one instance in the order of the calls.\<close>

fun enqueueAudit :: "AuditDeps \<Rightarrow> (timestamp \<times> RawEvent) list \<Rightarrow> audit_store \<Rightarrow> audit_store" where
  "enqueueAudit d [] st = st"
| "enqueueAudit d ((now, ev) # evs) st = enqueueAudit d evs (snd (appendAuditInternal d now ev st))"

subsection \<open>Querying\<close>

record GoalAuditQuery =
  q_runId :: "string option"
  q_targetId :: "string option"
  q_type :: "string option"
  q_effect :: "string option"
  q_principal :: "string option"
  q_afterSeq :: "rat option"
  q_limit :: "nat option"

text \<open>A filter that is absent or the empty string is off.\<close>

definition passes :: "string option \<Rightarrow> json option \<Rightarrow> bool" where
  "passes want got \<longleftrightarrow> (case want of None \<Rightarrow> True | Some w \<Rightarrow> w = [] \<or> got = Some (JStr w))"

definition event_data :: "json \<Rightarrow> string \<Rightarrow> json option" where
  "event_data e k = (case jget e ''data'' of None \<Rightarrow> None | Some v \<Rightarrow> jget v k)"

definition query_match :: "GoalAuditQuery \<Rightarrow> GoalAuditRecord \<Rightarrow> bool" where
  "query_match q r \<longleftrightarrow>
     (case q_afterSeq q of None \<Rightarrow> True | Some n \<Rightarrow> n < of_nat (au_seqNumber r)) \<and>
     passes (q_runId q) (jget (au_event r) ''runId'') \<and>
     passes (q_targetId q) (jget (au_event r) ''targetId'') \<and>
     passes (q_type q) (jget (au_event r) ''type'') \<and>
     passes (q_effect q) (event_data (au_event r) ''effect'') \<and>
     passes (q_principal q) (event_data (au_event r) ''principal'')"

definition queryAudit :: "GoalAuditQuery \<Rightarrow> audit_store \<Rightarrow> GoalAuditRecord list" where
  "queryAudit q st =
     (let filtered = filter (query_match q) (audit_records st) in
      case q_limit q of None \<Rightarrow> filtered
      | Some n \<Rightarrow> if n > 0 \<and> length filtered > n then drop (length filtered - n) filtered else filtered)"

subsection \<open>Verifying\<close>

record ChainVerdict =
  cv_valid :: bool
  cv_count :: nat
  cv_brokenAtSeq :: "string option"
  cv_reason :: "string option"

fun verify_from :: "AuditDeps \<Rightarrow> nat \<Rightarrow> string \<Rightarrow> GoalAuditRecord list \<Rightarrow> (string \<times> string) option" where
  "verify_from d i expectedPrev [] = None"
| "verify_from d i expectedPrev (r # rs) =
     (if au_seqNumber r \<noteq> i + 1 then
        Some (au_seq r, ''expected sequence number '' @ show_nat (i + 1) @ '' but found '' @ show_nat (au_seqNumber r))
      else if au_prevDigest r \<noteq> expectedPrev then Some (au_seq r, ''prevDigest mismatch at seq '' @ au_seq r)
      else if computeAuditDigest d (au_seq r) (au_recordedAt r) (au_prevDigest r) (au_event r) \<noteq> au_digest r
      then Some (au_seq r, ''digest mismatch at seq '' @ au_seq r)
      else verify_from d (i + 1) (au_digest r) rs)"

definition verifyAuditChain :: "AuditDeps \<Rightarrow> audit_store \<Rightarrow> ChainVerdict" where
  "verifyAuditChain d st =
     (let records = audit_records st in
      case verify_from d 0 ''GENESIS'' records of
        None \<Rightarrow> \<lparr>cv_valid = True, cv_count = length records, cv_brokenAtSeq = None, cv_reason = None\<rparr>
      | Some (s, why) \<Rightarrow> \<lparr>cv_valid = False, cv_count = length records, cv_brokenAtSeq = Some s, cv_reason = Some why\<rparr>)"

subsection \<open>The chain\<close>

text \<open>What it means for a list of records to be a chain from a given predecessor\<close>

fun chain_from :: "AuditDeps \<Rightarrow> nat \<Rightarrow> string \<Rightarrow> GoalAuditRecord list \<Rightarrow> bool" where
  "chain_from d i prev [] \<longleftrightarrow> True"
| "chain_from d i prev (r # rs) \<longleftrightarrow>
     au_seqNumber r = Suc i \<and> au_prevDigest r = prev \<and>
     au_digest r = computeAuditDigest d (au_seq r) (au_recordedAt r) (au_prevDigest r) (au_event r) \<and>
     chain_from d (Suc i) (au_digest r) rs"

lemma verify_from_iff: "verify_from d i prev rs = None \<longleftrightarrow> chain_from d i prev rs"
  by (induction rs arbitrary: i prev) auto

lemma verifyAuditChain_valid: "cv_valid (verifyAuditChain d st) \<longleftrightarrow> chain_from d 0 ''GENESIS'' (audit_records st)"
  unfolding verifyAuditChain_def Let_def verify_from_iff [symmetric]
  by (cases "verify_from d 0 ''GENESIS'' (audit_records st)") auto

lemma verifyAuditChain_count: "cv_count (verifyAuditChain d st) = length (audit_records st)"
  by (simp add: verifyAuditChain_def Let_def split: option.split prod.split)

text \<open>The digest and the number of the last record of a chain\<close>

definition head_digest :: "string \<Rightarrow> GoalAuditRecord list \<Rightarrow> string" where
  "head_digest prev rs = (if rs = [] then prev else au_digest (last rs))"

lemma chain_append:
  "chain_from d i prev (rs @ ss) \<longleftrightarrow> chain_from d i prev rs \<and> chain_from d (i + length rs) (head_digest prev rs) ss"
proof (induction rs arbitrary: i prev)
  case (Cons r rs)
  have "head_digest (au_digest r) rs = head_digest prev (r # rs)" by (simp add: head_digest_def)
  with Cons show ?case by simp
qed (simp add: head_digest_def)

lemma chain_last_number: "chain_from d i prev rs \<Longrightarrow> rs \<noteq> [] \<Longrightarrow> au_seqNumber (last rs) = i + length rs"
  by (induction rs arbitrary: i prev) (auto split: if_splits)

lemma chain_numbers: "chain_from d i prev rs \<Longrightarrow> r \<in> set rs \<Longrightarrow> au_seqNumber r \<le> i + length rs"
  by (induction rs arbitrary: i prev) fastforce+

text \<open>A store as the appends leave it: every record under its key, and the listing a chain\<close>

definition audit_wf :: "AuditDeps \<Rightarrow> audit_store \<Rightarrow> bool" where
  "audit_wf d st \<longleftrightarrow> (\<forall>(k, r) \<in> set st. k = pad_nat 10 (au_seqNumber r)) \<and> distinct (dkeys st) \<and>
     chain_from d 0 ''GENESIS'' (audit_records st)"

interpretation seq_order: comparator by_seqNumber
  by (rule comparator_key [where key = au_seqNumber]) (simp add: by_seqNumber_def)

lemma sort_snoc_greatest:
  assumes "\<And>y. y \<in> set ys \<Longrightarrow> au_seqNumber y < au_seqNumber x"
  shows "sort_by by_seqNumber (ys @ [x]) = sort_by by_seqNumber ys @ [x]"
  using assms
proof (induction ys)
  case (Cons y ys)
  have "insert_by by_seqNumber y (zs @ [x]) = insert_by by_seqNumber y zs @ [x]" for zs
    using Cons.prems [of y] by (induction zs) (simp_all add: by_seqNumber_def)
  with Cons show ?case by simp
qed simp

lemma append_effect:
  fixes now :: timestamp and ev :: RawEvent
  assumes "audit_wf d st"
  defines "r \<equiv> next_record d now ev (audit_records st)"
  shows "audit_records (put_record r st) = audit_records st @ [r]" and "audit_wf d (put_record r st)"
proof -
  let ?rs = "audit_records st"
  have chain: "chain_from d 0 ''GENESIS'' ?rs" using assms(1) by (simp add: audit_wf_def)
  have number: "au_seqNumber r = Suc (length ?rs)"
    using chain_last_number [OF chain] by (simp add: r_def next_record_def Let_def)
  have key: "au_seq r = pad_nat 10 (au_seqNumber r)" by (simp add: r_def next_record_def Let_def)
  have older: "au_seqNumber y < au_seqNumber r" if "y \<in> snd ` set st" for y
    using chain_numbers [OF chain, of y] that number by (auto simp: audit_records_def)
  then have "au_seq r \<notin> set (dkeys st)" using assms(1) key by (fastforce simp: audit_wf_def)
  then have put: "put_record r st = st @ [(au_seq r, r)]" by (simp add: put_record_def dput_keys_fresh)
  show records: "audit_records (put_record r st) = ?rs @ [r]"
    using sort_snoc_greatest [of "map snd st" r] older by (simp add: put audit_records_def)
  have "chain_from d (length ?rs) (head_digest ''GENESIS'' ?rs) [r]"
    using number by (simp add: r_def next_record_def Let_def head_digest_def)
  then show "audit_wf d (put_record r st)"
    using assms(1) \<open>au_seq r \<notin> set (dkeys st)\<close> key unfolding audit_wf_def records chain_append
    by (simp add: put)
qed

lemma enqueue_effect:
  "audit_wf d st \<Longrightarrow>
     audit_wf d (enqueueAudit d evs st) \<and> length (audit_records (enqueueAudit d evs st)) = length (audit_records st) + length evs \<and>
     take (length (audit_records st)) (audit_records (enqueueAudit d evs st)) = audit_records st"
proof (induction evs arbitrary: st)
  case (Cons e evs)
  obtain now ev where e: "e = (now, ev)" by (cases e)
  let ?st = "snd (appendAuditInternal d now ev st)"
  have st: "audit_wf d ?st" "audit_records ?st = audit_records st @ [next_record d now ev (audit_records st)]"
    using append_effect [OF Cons.prems] by (simp_all add: appendAuditInternal_def Let_def)
  from Cons.IH [OF st(1)] have IH: "audit_wf d (enqueueAudit d evs ?st)"
    "length (audit_records (enqueueAudit d evs ?st)) = Suc (length (audit_records st) + length evs)"
    "take (Suc (length (audit_records st))) (audit_records (enqueueAudit d evs ?st)) = audit_records ?st"
    by (simp_all add: st(2))
  then have "take (length (audit_records st)) (audit_records (enqueueAudit d evs ?st)) = take (length (audit_records st)) (audit_records ?st)"
    by (metis min.absorb1 le_SucI order_refl take_take)
  with IH show ?case by (simp add: e st(2))
qed simp

lemma audit_wf_empty: "audit_wf d []"
  by (simp add: audit_wf_def audit_records_def)

subsection \<open>Tampering\<close>

text \<open>The text a record's digest is taken of\<close>

definition hashed_text :: "AuditDeps \<Rightarrow> GoalAuditRecord \<Rightarrow> string" where
  "hashed_text d r = canonicalJson_audit (d_localeCompare d) (d_number d)
     (JObj [(''seq'', JStr (au_seq r)), (''recordedAt'', JStr (au_recordedAt r)), (''prevDigest'', JStr (au_prevDigest r)), (''event'', au_event r)])"

text \<open>Two records say the same: all fields agree, the events up to the order of their members.\<close>

definition same_record :: "GoalAuditRecord \<Rightarrow> GoalAuditRecord \<Rightarrow> bool" where
  "same_record a b \<longleftrightarrow> au_seq a = au_seq b \<and> au_seqNumber a = au_seqNumber b \<and> au_recordedAt a = au_recordedAt b \<and>
     au_prevDigest a = au_prevDigest b \<and> au_digest a = au_digest b \<and> meaning (au_event a) = meaning (au_event b)"

definition proper_event :: "json \<Rightarrow> bool" where
  "proper_event e \<longleftrightarrow> finite_json e \<and> unique_names e"

lemma computeAuditDigest_text: "computeAuditDigest d (au_seq r) (au_recordedAt r) (au_prevDigest r) (au_event r) = d_sha256 d (hashed_text d r)"
  by (simp add: computeAuditDigest_def hashed_text_def)

lemma hashed_text_inject:
  assumes "number_format (d_number d)" "proper_event (au_event a)" "proper_event (au_event b)" "hashed_text d a = hashed_text d b"
  shows "au_seq a = au_seq b \<and> au_recordedAt a = au_recordedAt b \<and> au_prevDigest a = au_prevDigest b \<and> meaning (au_event a) = meaning (au_event b)"
proof -
  let ?j = "\<lambda>r. JObj [(''seq'', JStr (au_seq r)), (''recordedAt'', JStr (au_recordedAt r)), (''prevDigest'', JStr (au_prevDigest r)), (''event'', au_event r)]"
  have "meaning (?j a) = meaning (?j b)"
    by (rule audit_text_meaning [OF assms(1)]) (use assms in \<open>simp_all add: proper_event_def hashed_text_def\<close>)
  then have m: "map_of (map (map_prod id meaning) [(''seq'', JStr (au_seq a)), (''recordedAt'', JStr (au_recordedAt a)), (''prevDigest'', JStr (au_prevDigest a)), (''event'', au_event a)]) k =
      map_of (map (map_prod id meaning) [(''seq'', JStr (au_seq b)), (''recordedAt'', JStr (au_recordedAt b)), (''prevDigest'', JStr (au_prevDigest b)), (''event'', au_event b)]) k" for k
    by simp
  show ?thesis using m [of "''seq''"] m [of "''recordedAt''"] m [of "''prevDigest''"] m [of "''event''"] by simp
qed

lemma chain_rev_induct_step:
  assumes "chain_from d 0 ''GENESIS'' (rs @ [r])"
  shows "chain_from d 0 ''GENESIS'' rs" "au_seqNumber r = Suc (length rs)" "au_prevDigest r = head_digest ''GENESIS'' rs"
    "au_digest r = d_sha256 d (hashed_text d r)"
  using assms by (simp_all add: chain_append computeAuditDigest_text)

lemma chain_head_hashed: "chain_from d 0 ''GENESIS'' rs \<Longrightarrow> rs \<noteq> [] \<Longrightarrow> head_digest ''GENESIS'' rs = d_sha256 d (hashed_text d (last rs))"
  by (cases rs rule: rev_cases) (simp_all add: head_digest_def chain_append computeAuditDigest_text)

lemma chains_agree:
  assumes num: "number_format (d_number d)"
  shows "chain_from d 0 ''GENESIS'' rs \<Longrightarrow> chain_from d 0 ''GENESIS'' ss \<Longrightarrow> head_digest ''GENESIS'' rs = head_digest ''GENESIS'' ss \<Longrightarrow>
    (\<forall>r \<in> set (rs @ ss). proper_event (au_event r)) \<Longrightarrow> inj_on (d_sha256 d) (hashed_text d ` set (rs @ ss)) \<Longrightarrow>
    (\<forall>r \<in> set (rs @ ss). d_sha256 d (hashed_text d r) \<noteq> ''GENESIS'') \<Longrightarrow> list_all2 same_record rs ss"
proof (induction rs arbitrary: ss rule: rev_induct)
  case Nil
  have "ss = []"
  proof (rule ccontr)
    assume "ss \<noteq> []"
    with Nil chain_head_hashed [of d ss] last_in_set [of ss] show False by (auto simp: head_digest_def)
  qed
  then show ?case by simp
next
  case (snoc r rs)
  have "ss \<noteq> []"
  proof
    assume "ss = []"
    with snoc.prems chain_head_hashed [OF snoc.prems(1)] show False by (auto simp: head_digest_def)
  qed
  then obtain ss' s where ss: "ss = ss' @ [s]" by (metis rev_exhaust)
  note R = chain_rev_induct_step [OF snoc.prems(1)]
  note S = chain_rev_induct_step [OF snoc.prems(2) [unfolded ss]]
  from snoc.prems(3) have dig: "au_digest r = au_digest s" by (simp add: ss head_digest_def)
  with R(4) S(4) have "d_sha256 d (hashed_text d r) = d_sha256 d (hashed_text d s)" by simp
  with snoc.prems(5) have "hashed_text d r = hashed_text d s" by (rule inj_onD) (simp_all add: ss)
  then have eq: "au_seq r = au_seq s" "au_recordedAt r = au_recordedAt s" "au_prevDigest r = au_prevDigest s" "meaning (au_event r) = meaning (au_event s)"
    using hashed_text_inject [OF num, of r s] snoc.prems(4) by (simp_all add: ss)
  have all: "list_all2 same_record rs ss'"
  proof (rule snoc.IH [OF R(1) S(1)])
    show "head_digest ''GENESIS'' rs = head_digest ''GENESIS'' ss'" using eq(3) R(3) S(3) by simp
    show "inj_on (d_sha256 d) (hashed_text d ` set (rs @ ss'))" by (rule inj_on_subset [OF snoc.prems(5)]) (auto simp: ss)
  qed (use snoc.prems(4,6) in \<open>auto simp: ss\<close>)
  then have "length rs = length ss'" by (rule list_all2_lengthD)
  with eq dig R(2) S(2) have "same_record r s" by (simp add: same_record_def)
  with all show ?case by (simp add: ss list_all2_appendI)
qed

subsection \<open>Redaction keeps secrets out\<close>

text \<open>In every object of a value, what stands under a sensitive name is no string but the mark or the empty text.\<close>

primrec redacted :: "json \<Rightarrow> bool" where
  "redacted JNull \<longleftrightarrow> True"
| "redacted (JBool b) \<longleftrightarrow> True"
| "redacted (JNum q) \<longleftrightarrow> True"
| "redacted JNonFinite \<longleftrightarrow> True"
| "redacted (JStr s) \<longleftrightarrow> True"
| "redacted (JArr xs) \<longleftrightarrow> list_all id (map redacted xs)"
| "redacted (JObj fs) \<longleftrightarrow> list_all (\<lambda>(k, v). \<not> dropped_key k \<and> (sensitive_key k \<and> nonempty_string v \<longrightarrow> v = JStr ''[REDACTED]'')) fs \<and>
     list_all (id \<circ> snd) (map (map_prod id redacted) fs)"

lemma redacted_sanitize: "san [] = [] \<Longrightarrow> redacted (sanitizeAuditValue san v)"
proof (induction san v rule: sanitizeAuditValue.induct)
  case (3 san fs)
  have "nonempty_string (sanitizeAuditValue san v) \<longleftrightarrow> False" if "\<not> nonempty_string v" for v
    using that 3(2) by (cases v) (auto simp: nonempty_string_def)
  with 3 show ?case by (auto simp: list_all_iff)
qed (auto simp: list_all_iff)

subsection \<open>Properties\<close>

text \<open>
  Whatever sequence of events one instance appends to an empty trail, \<open>verifyAuditChain\<close> accepts
  the result and counts one record per event, and appending more never changes an earlier record.
\<close>
theorem audit_chain_always_verifies:
  "cv_valid (verifyAuditChain d (enqueueAudit d (es @ fs) [])) \<and>
   cv_count (verifyAuditChain d (enqueueAudit d (es @ fs) [])) = length es + length fs \<and>
   take (length es) (audit_records (enqueueAudit d (es @ fs) [])) = audit_records (enqueueAudit d es [])"
proof -
  have split: "enqueueAudit d (es @ fs) st = enqueueAudit d fs (enqueueAudit d es st)" for st
    by (induction es arbitrary: st) auto
  have es: "audit_wf d (enqueueAudit d es [])" "length (audit_records (enqueueAudit d es [])) = length es"
    using enqueue_effect [OF audit_wf_empty, of d es] by (simp_all add: audit_records_def)
  from enqueue_effect [OF es(1), of fs] es(2) show ?thesis
    by (simp add: split verifyAuditChain_valid verifyAuditChain_count audit_wf_def)
qed

text \<open>
  C23. The trail is tamper-evident: two stores that both verify and end in the same digest hold the same
  records, in number, order and every field, the events up to the order in which members are written,
  as long as SHA-256 has no collision among the texts hashed and never yields the text \<open>GENESIS\<close>.
\<close>
theorem audit_trail_tamper_evident:
  assumes "number_format (d_number d)"
    and "cv_valid (verifyAuditChain d s)" and "cv_valid (verifyAuditChain d t)"
    and "head_digest ''GENESIS'' (audit_records s) = head_digest ''GENESIS'' (audit_records t)"
    and "\<forall>r \<in> set (audit_records s @ audit_records t). proper_event (au_event r)"
    and "inj_on (d_sha256 d) (hashed_text d ` set (audit_records s @ audit_records t))"
    and "\<forall>r \<in> set (audit_records s @ audit_records t). d_sha256 d (hashed_text d r) \<noteq> ''GENESIS''"
  shows "list_all2 same_record (audit_records s) (audit_records t)"
  using chains_agree [OF assms(1) _ _ assms(4,5,6,7)] assms(2,3) by (simp add: verifyAuditChain_valid)

definition sample_deps :: AuditDeps where
  "sample_deps = \<lparr>d_localeCompare = compare_str, d_number = ratio_text, d_sha256 = (\<lambda>s. CHR ''x'' # s),
     d_toISOString = (\<lambda>_. ''2026-01-01T00:00:00.000Z''), d_sanitizeUntrustedOutput = id\<rparr>"

definition sample_event :: "(string \<times> json) list \<Rightarrow> RawEvent" where
  "sample_event fs = \<lparr>raw_seq = None, raw_type = ''error'', raw_runId = Some ''r'', raw_targetId = None, raw_attemptId = None,
     raw_executionId = None, raw_timestamp = None, raw_data = Some (JObj fs)\<rparr>"

definition sample_trail :: "(string \<times> json) list \<Rightarrow> audit_store" where
  "sample_trail fs = enqueueAudit sample_deps [(0, sample_event fs)] []"

lemma sample_trail_records: "audit_records (sample_trail fs) = [next_record sample_deps 0 (sample_event fs) []]"
  by (simp add: sample_trail_def appendAuditInternal_def Let_def put_record_def audit_records_def)

lemma sample_trail_valid: "cv_valid (verifyAuditChain sample_deps (sample_trail fs))"
  using enqueue_effect [OF audit_wf_empty, of sample_deps "[(0, sample_event fs)]"]
  unfolding verifyAuditChain_valid sample_trail_def audit_wf_def by blast

definition swapped :: "(string \<times> json) list" where
  "swapped = [(''b'', JNull), (''a'', JBool True)]"

lemma sample_sanitize: "sanitizeAuditValue id (JObj [(''a'', JBool True), (''b'', JNull)]) = JObj [(''a'', JBool True), (''b'', JNull)]"
    "sanitizeAuditValue id (JObj swapped) = JObj swapped"
  by (simp_all add: swapped_def dropped_key_def nonempty_string_def)

theorem audit_trail_tamper_evident_witness:
  "list_all2 same_record (audit_records (sample_trail [(''a'', JBool True), (''b'', JNull)])) (audit_records (sample_trail swapped))"
proof (rule audit_trail_tamper_evident [of sample_deps])
  show "number_format (d_number sample_deps)" by (simp add: sample_deps_def number_format_ratio_text)
  show "inj_on (d_sha256 sample_deps) A" for A by (simp add: sample_deps_def)
  show "\<forall>r \<in> A. d_sha256 sample_deps (hashed_text sample_deps r) \<noteq> ''GENESIS''" for A by (simp add: sample_deps_def)
qed (rule sample_trail_valid, rule sample_trail_valid, simp_all add: sample_trail_records sample_deps_def head_digest_def next_record_def Let_def
      computeAuditDigest_def canonicalJson_audit_def sanitized_event_def sample_event_def sample_sanitize optional_member_def
      nonempty_string_def dropped_key_def proper_event_def swapped_def compare_str_def)

text \<open>
  Redaction: in what is stored of an event, no object at any depth has a member named \<open>__proto__\<close>,
  \<open>constructor\<close> or \<open>prototype\<close>, and a member whose name marks it as a credential holds the mark
  \<open>[REDACTED]\<close> in place of its text.
\<close>
theorem stored_events_are_redacted:
  assumes "d_sanitizeUntrustedOutput d [] = []"
  shows "redacted (au_event (fst (appendAuditInternal d now ev st)))"
  unfolding appendAuditInternal_def next_record_def Let_def sanitized_event_def fst_conv GoalAuditRecord.select_convs
  by (rule redacted_sanitize) (rule assms)

theorem stored_events_are_redacted_witness:
  "redacted (au_event (fst (appendAuditInternal sample_deps 0 (sample_event [(''api_key'', JStr ''k'')]) [])))"
  by (rule stored_events_are_redacted) (simp add: sample_deps_def)

text \<open>
  Two instances over one store that both list the trail before either stores its record give both
  records the same key: the second replaces the first, one event is gone, and the trail still verifies.
\<close>
theorem overlapping_audit_appends_lose_a_record:
  fixes now1 now2 :: timestamp and ev1 ev2 :: RawEvent
  assumes "audit_wf d st"
  defines "r1 \<equiv> next_record d now1 ev1 (audit_records st)" and "r2 \<equiv> next_record d now2 ev2 (audit_records st)"
  shows "audit_records (put_record r2 (put_record r1 st)) = audit_records st @ [r2] \<and>
    cv_valid (verifyAuditChain d (put_record r2 (put_record r1 st)))"
proof -
  have key: "au_seq r1 = au_seq r2" by (simp add: r1_def r2_def next_record_def Let_def)
  have "put_record r2 (put_record r1 st) = put_record r2 st"
    by (simp add: put_record_def key)
  with append_effect [OF assms(1), of now2 ev2] show ?thesis
    by (simp add: r2_def verifyAuditChain_valid audit_wf_def)
qed

theorem overlapping_audit_appends_lose_a_record_witness:
  "audit_records (put_record (next_record sample_deps 1 (sample_event swapped) []) (put_record (next_record sample_deps 0 (sample_event []) []) [])) =
     [next_record sample_deps 1 (sample_event swapped) []]"
  using overlapping_audit_appends_lose_a_record [OF audit_wf_empty, of sample_deps 1 "sample_event swapped" 0 "sample_event []"]
  by (simp add: audit_records_def)

end
