(* ===== verification/Governance.thy ===== *)
theory Governance
  imports Audit_Trail
begin

text \<open>
  The constitution and its enforcement: \<open>src/packages/goals/src/governance/index.ts\<close> without the audit
  trail, which is in \<open>Audit_Trail\<close>. \<open>preflight\<close> decides whether an attempt may run: it denies, asks for an
  approval or allows, and records the first two in the trail.

  The clock, the graph store and the stored graph revision are arguments. A number that may be anything
  a JavaScript number can be is a \<open>number\<close>; sums of dollars are exact. The expressions the code tests
  text with are transcribed with \<open>Regex\<close>.
\<close>

subsection \<open>Defaults\<close>

definition DEFAULT_CONSTITUTION_INVARIANTS :: "string list" where
  "DEFAULT_CONSTITUTION_INVARIANTS =
     [''no_fabrication'', ''no_unverified_completion'', ''no_wet_lab_or_hazardous_protocols'',
      ''no_unapproved_external_submission'', ''no_unbounded_retry_loops'', ''preserve_reproducibility_artifacts'']"

definition DEFAULT_CONSTITUTION_NEEDS_APPROVAL :: "string list" where
  "DEFAULT_CONSTITUTION_NEEDS_APPROVAL =
     [''paid_api_usage'', ''destructive_changes'', ''protected_branch_merge'', ''external_submission'',
      ''production_deployment'', ''policy_mutation'', ''legal_or_diplomatic_commitment'']"

definition DEFAULT_RESOURCE_LIMITS :: ResourceLimits where
  "DEFAULT_RESOURCE_LIMITS = \<lparr>maxTasksPerRun = 12, maxRepairsPerTask = 3, maxSameActionNoProgress = 2, maxRunMinutes = 90,
     hostedSpendUsd = 0, localModelFirst = True, maxConcurrentWritersPerWorktree = 1, maxConcurrentTargets = Some 1\<rparr>"

definition DEFAULT_GOAL_CONSTITUTION :: GoalConstitution where
  "DEFAULT_GOAL_CONSTITUTION = \<lparr>con_invariants = DEFAULT_CONSTITUTION_INVARIANTS, con_resourceLimits = DEFAULT_RESOURCE_LIMITS,
     con_allowedUnattended =
       [''local read-only research and analysis of authorized sources'',
        ''drafting documents, code and formal models in isolated workspaces'',
        ''running read-only analysis and tests in a configured sandbox'',
        ''writing evidence manifests and updating the target ledger''],
     con_needsApproval = DEFAULT_CONSTITUTION_NEEDS_APPROVAL\<rparr>"

subsection \<open>Expressions\<close>

text \<open>\<open>[_-\s]\<close>, and phrases whose words it may join; \<open>gap\<close> is \<open>\s+\<close>\<close>

definition space_dash :: re where "space_dash = alt [dash, Cls Space]"

definition spaced :: "re list \<Rightarrow> re" where
  "spaced rs = cat (joined space_dash rs)"

definition spaced_words :: "string list \<Rightarrow> re" where
  "spaced_words ws = spaced (map lit ws)"

definition stem :: "re \<Rightarrow> re" where "stem r = cat [r, many_word]"

definition gap :: re where "gap = Rep Space 1 None"

definition MODEL_OR_AGENT_PRINCIPAL_RE :: re where
  "MODEL_OR_AGENT_PRINCIPAL_RE = cat [Start,
     words [''model'', ''agent'', ''executor'', ''llm'', ''assistant'', ''autonomous'', ''subagent'', ''tool'', ''worker-model'', ''bot''],
     alt [Cls (OneOf '':/._-''), End]]"

definition SELF_AUTH_OR_POLICY_MUTATION_RE :: re where
  "SELF_AUTH_OR_POLICY_MUTATION_RE = bounded (alt
     [stem (phrase [''self'', ''approv'']), stem (phrase [''self'', ''authoriz'']), stem (phrase [''self'', ''certif'']),
      phrase [''mutate'', ''constitution''], phrase [''edit'', ''constitution''], phrase [''override'', ''constitution''],
      phrase [''bypass'', ''policy''], phrase [''disable'', ''policy''], stem (phrase [''raise'', ''limit'']), phrase [''raise'', ''budget''],
      phrase [''increase'', ''spend''], stem (phrase [''alter'', ''permission'']), stem (phrase [''grant'', ''permission'']),
      phrase [''modify'', ''rubric''], phrase [''redefine'', ''objective''], phrase [''auto'', ''merge'', ''protected'']])"

definition WET_LAB_OR_HAZARD_RE :: re where
  "WET_LAB_OR_HAZARD_RE = bounded (alt
     [spaced_words [''wet'', ''lab''], stem (lit ''pathogen''), stem (lit ''bioweapon''), stem (spaced_words [''biological'', ''agent'']),
      stem (spaced_words [''chemical'', ''weapon'']), stem (spaced_words [''nerve'', ''agent'']), spaced_words [''toxin'', ''synthesis''],
      spaced_words [''viral'', ''gain'', ''of'', ''function''], spaced_words [''gain'', ''of'', ''function''],
      spaced_words [''hazardous'', ''material'', ''synthesis''], spaced_words [''explosive'', ''synthesis''],
      spaced_words [''radiological'', ''dispersal''], lit ''cbrn'', lit ''anthrax'', lit ''ricin'', lit ''sarin'', spaced_words [''vx'', ''gas''],
      spaced_words [''ebola'', ''culture''], spaced_words [''live'', ''virus'', ''culture''],
      spaced [lit ''biosafety'', lit ''level'', Cls (OneOf ''34'')], spaced [lit ''bsl'', Cls (OneOf ''34'')]])"

definition FABRICATION_RE :: re where
  "FABRICATION_RE = bounded (alt
     [cat [lit ''fabricat'', words [''e'', ''ed'', ''ing''], gap,
        words [''evidence'', ''proof'', ''data'', ''citation'', ''solver'', ''result'', ''verdict'', ''endorsement'', ''adoption'']],
      cat [lit ''invent'', opt (words [''ed'', ''ing'']), gap,
        alt [lit ''endorsement'', lit ''citation'', lit ''ratification'', cat [lit ''solver'', gap, lit ''output''], lit ''proof'']],
      spaced [lit ''fake'', words [''evidence'', ''proof'', ''solver'', ''verification'', ''signature'', ''endorsement'']],
      spaced [lit ''spoof'', words [''validator'', ''verifier'', ''evidence'', ''signature'']],
      stem (spaced_words [''suppress'', ''counterexample'']),
      spaced [cat [lit ''forge'', opt (lit ''d'')], words [''evidence'', ''attestation'', ''record'']]])"

definition UNVERIFIED_COMPLETION_RE :: re where
  "UNVERIFIED_COMPLETION_RE = bounded (alt
     [spaced_words [''unverified'', ''completion''],
      spaced [lit ''mark'', cat [lit ''complete'', opt (lit ''d'')], lit ''without'', words [''evidence'', ''verification'', ''check'']],
      cat [lit ''skip'', opt space_dash, opt (cat [lit ''independent'', opt space_dash]), lit ''verif'', words [''y'', ''ication'']],
      spaced_words [''bypass'', ''acceptance'', ''gate''],
      spaced [lit ''self'', cat [lit ''certif'', words [''y'', ''ied'']], lit ''completion''],
      spaced_words [''assume'', ''success'']])"

definition DESTRUCTIVE_REPRODUCIBILITY_RE :: re where
  "DESTRUCTIVE_REPRODUCIBILITY_RE = bounded (alt
     [spaced [lit ''delete'', words [''audit'', ''evidence'', ''ledger'', ''reproducibility'', ''provenance'', ''history'']],
      spaced [lit ''purge'', words [''audit'', ''evidence'', ''ledger'', ''history'']],
      spaced [lit ''wipe'', words [''evidence'', ''ledger'', ''audit'']],
      spaced_words [''overwrite'', ''history''],
      spaced [lit ''truncate'', words [''audit'', ''ledger'']]])"

definition NEEDS_APPROVAL_ACTION_PATTERNS :: "(string \<times> re) list" where
  "NEEDS_APPROVAL_ACTION_PATTERNS =
    [(''external_submission'', bounded (alt
       [spaced_words [''external'', ''submission''],
        spaced [lit ''submit'', lit ''to'', alt [lit ''journal'', lit ''standards'', lit ''venue'', lit ''regulator'', spaced_words [''third'', ''party'']]],
        stem (spaced_words [''publish'', ''external'']),
        spaced [lit ''send'', words [''email'', ''outreach'', ''message'']],
        spaced [lit ''public'', words [''release'', ''announcement'', ''commitment'']],
        spaced_words [''standards'', ''submission'']])),
     (''protected_branch_merge'', bounded (alt
       [spaced_words [''merge'', ''to'', ''protected''], spaced_words [''protected'', ''branch''],
        spaced [lit ''push'', words [''main'', ''master'', ''production'', ''release'']], spaced_words [''release'', ''branch'']])),
     (''production_deployment'', bounded (alt
       [stem (spaced_words [''deploy'', ''prod'']), stem (spaced_words [''production'', ''deploy''])])),
     (''destructive_changes'', bounded (alt
       [lit ''irreversible'', stem (spaced_words [''destructive'', ''change'']), spaced_words [''force'', ''push''], spaced_words [''drop'', ''database'']])),
     (''legal_or_diplomatic_commitment'', bounded (alt
       [spaced_words [''legal'', ''commitment''], spaced_words [''diplomatic'', ''commitment''], spaced_words [''binding'', ''agreement''],
        spaced_words [''sign'', ''treaty''], spaced [cat [lit ''ratif'', words [''y'', ''ication'']], lit ''claim'']])),
     (''paid_api_usage'', bounded (alt
       [spaced_words [''paid'', ''api'', ''override''], spaced_words [''exceed'', ''spend'', ''cap''], spaced_words [''raise'', ''hosted'', ''spend'']]))]"

subsection \<open>Principals and scopes\<close>

definition isModelOrAgentPrincipal :: "string \<Rightarrow> bool" where
  "isModelOrAgentPrincipal p \<longleftrightarrow> trim p = [] \<or> re_test_i MODEL_OR_AGENT_PRINCIPAL_RE (trim p)"

definition collapse_spaces :: "string \<Rightarrow> string" where
  "collapse_spaces s = replace_runs is_space (CHR ''_'') s"

definition formatApprovalScope :: "GoalRunId \<Rightarrow> TargetId \<Rightarrow> nat \<Rightarrow> string \<Rightarrow> string" where
  "formatApprovalScope runId targetId attempt action =
     (let cleanAction = collapse_spaces (trim (if action = [] then ''execute'' else action)) in
      runId @ '':'' @ targetId @ '':'' @ show_nat attempt @ '':'' @ cleanAction)"

definition decision :: "GovernanceEffect \<Rightarrow> string list \<Rightarrow> GovernanceDecision" where
  "decision e rs = \<lparr>gov_effect = e, gov_reasons = rs, gov_approvalScope = None\<rparr>"

definition quoted :: "string \<Rightarrow> string" where
  "quoted s = [CHR 39] @ s @ [CHR 39]"

definition assertHumanOrSystemPrincipal :: "string \<Rightarrow> string \<Rightarrow> GovernanceDecision" where
  "assertHumanOrSystemPrincipal who operation =
     (let trimmed = trim who in
      if trimmed = [] then decision Deny [''PRINCIPAL_REQUIRED: missing principal for '' @ quoted operation]
      else if isModelOrAgentPrincipal trimmed then decision Deny
        [''MODEL_PRINCIPAL_FORBIDDEN: principal '' @ quoted trimmed @ '' is a model/agent/executor identity and cannot authorize '' @ quoted operation @
         '', approve actions, raise limits, or mutate policy/constitution'']
      else if re_test_i SELF_AUTH_OR_POLICY_MUTATION_RE operation then decision Deny
        [''CONSTITUTION_INVARIANT_VIOLATION: operation '' @ quoted operation @ '' attempts forbidden self-authorization or autonomous constitution/policy mutation'']
      else decision Allow [''principal '' @ quoted trimmed @ '' authorized for '' @ quoted operation])"

subsection \<open>Constitutions\<close>

text \<open>
  An override is a complete constitution, as every caller passes one; an absent \<open>maxConcurrentTargets\<close>
  leaves the base value, as the spread does.
\<close>

definition mergeConstitution :: "GoalConstitution \<Rightarrow> GoalConstitution option \<Rightarrow> GoalConstitution" where
  "mergeConstitution base override =
     (case override of None \<Rightarrow> base
      | Some ov \<Rightarrow>
        \<lparr>con_invariants = uniq (con_invariants base @ con_invariants ov),
         con_resourceLimits = (con_resourceLimits ov)\<lparr>maxConcurrentTargets :=
           (case maxConcurrentTargets (con_resourceLimits ov) of None \<Rightarrow> maxConcurrentTargets (con_resourceLimits base) | Some n \<Rightarrow> Some n)\<rparr>,
         con_allowedUnattended = con_allowedUnattended ov,
         con_needsApproval = uniq (con_needsApproval base @ con_needsApproval ov)\<rparr>)"

text \<open>
  What governance is created with: the graph service (absent, or a lookup that fails or finds nothing as
  \<open>None\<close>), the stored graph revisions, the configured constitution, and what the trail needs
\<close>

record GovernanceDeps =
  gd_audit :: AuditDeps
  gd_graphs :: "(GraphId \<Rightarrow> GraphRevision \<Rightarrow> GoalConstitution option) option"
  gd_storedRevision :: "GraphId \<Rightarrow> GraphRevision \<Rightarrow> GoalConstitution option"
  gd_defaultConstitution :: "GoalConstitution option"

definition baseConstitution :: "GovernanceDeps \<Rightarrow> GoalConstitution" where
  "baseConstitution d = mergeConstitution DEFAULT_GOAL_CONSTITUTION (gd_defaultConstitution d)"

definition resolveConstitution :: "GovernanceDeps \<Rightarrow> GoalRunLedger option \<Rightarrow> GoalConstitution option \<Rightarrow> GoalConstitution" where
  "resolveConstitution d run explicit =
     (case explicit of Some c \<Rightarrow> mergeConstitution (baseConstitution d) (Some c)
      | None \<Rightarrow>
        (case run of None \<Rightarrow> baseConstitution d
         | Some r \<Rightarrow>
           (let fromGraphs = (case gd_graphs d of None \<Rightarrow> None | Some g \<Rightarrow> g (r_graphId r) (r_graphRevision r)) in
            case fromGraphs of Some c \<Rightarrow> mergeConstitution (baseConstitution d) (Some c)
            | None \<Rightarrow>
              (case gd_storedRevision d (r_graphId r) (r_graphRevision r) of
                 Some c \<Rightarrow> mergeConstitution (baseConstitution d) (Some c)
               | None \<Rightarrow> baseConstitution d))))"

record GoalPolicySummary =
  ps_constitution :: GoalConstitution
  ps_invariants :: "string list"
  ps_needsApproval :: "string list"
  ps_resourceLimits :: ResourceLimits
  ps_policyRules :: "string list"
  ps_modelPrincipalsForbidden :: bool

definition getPolicySummary :: "GovernanceDeps \<Rightarrow> string list \<Rightarrow> GoalRunLedger option \<Rightarrow> GoalConstitution option \<Rightarrow> GoalPolicySummary" where
  "getPolicySummary d rules run explicit =
     (let c = resolveConstitution d run explicit in
      \<lparr>ps_constitution = c, ps_invariants = DEFAULT_CONSTITUTION_INVARIANTS, ps_needsApproval = con_needsApproval c,
       ps_resourceLimits = con_resourceLimits c, ps_policyRules = rules, ps_modelPrincipalsForbidden = True\<rparr>)"

subsection \<open>Spending\<close>

text \<open>\<open>toFixed\<close>: the nearest multiple of \<open>10^-f\<close>, ties away from zero, as text and as number\<close>

definition fixed_units :: "nat \<Rightarrow> rat \<Rightarrow> nat" where
  "fixed_units f q = nat \<lfloor>\<bar>q\<bar> * 10 ^ f + 1 / 2\<rfloor>"

definition toFixed :: "nat \<Rightarrow> rat \<Rightarrow> string" where
  "toFixed f q = (let n = fixed_units f q in
     (if q < 0 then ''-'' else []) @ show_nat (n div 10 ^ f) @ ''.'' @ pad_nat f (n mod 10 ^ f))"

definition round_fixed :: "nat \<Rightarrow> rat \<Rightarrow> rat" where
  "round_fixed f q = (if q < 0 then - 1 else 1) * (of_nat (fixed_units f q) / 10 ^ f)"

definition number_text :: "(rat \<Rightarrow> string) \<Rightarrow> number \<Rightarrow> string" where
  "number_text num n = (case n of Fin q \<Rightarrow> num q | NaN \<Rightarrow> ''NaN'' | PosInf \<Rightarrow> ''Infinity'' | NegInf \<Rightarrow> ''-Infinity'')"

text \<open>
  A run may carry a ceiling of its own in fields the type does not declare:
  \<open>resource.hostedSpendCeilingUsd\<close> and \<open>constitution.resourceLimits.hostedSpendUsd\<close>.
\<close>

record RunExtras =
  x_hostedSpendCeilingUsd :: "number option"
  x_hostedSpendUsd :: "number option"

definition inferRunHostedCeiling :: "GovernanceDeps \<Rightarrow> RunExtras \<Rightarrow> GoalConstitution option \<Rightarrow> number" where
  "inferRunHostedCeiling d x c =
     (case x_hostedSpendCeilingUsd x of Some (Fin q) \<Rightarrow> Fin q
      | _ \<Rightarrow> (case x_hostedSpendUsd x of Some n \<Rightarrow> n
        | None \<Rightarrow> (case c of Some k \<Rightarrow> Fin (hostedSpendUsd (con_resourceLimits k))
          | None \<Rightarrow> Fin (hostedSpendUsd (con_resourceLimits (baseConstitution d))))))"

definition authorizeSpend :: "GovernanceDeps \<Rightarrow> RunExtras \<Rightarrow> GoalRunLedger \<Rightarrow> number \<Rightarrow> GoalConstitution option \<Rightarrow> GovernanceDecision" where
  "authorizeSpend d x run amountUsd c =
     (let invalid = decision Deny [''INVALID_SPEND_AMOUNT: amountUsd ('' @ number_text (d_number (gd_audit d)) amountUsd @
            '') must be a finite non-negative number''] in
      case amountUsd of Fin amount \<Rightarrow>
        if amount < 0 then invalid
        else if amount = 0 then decision Allow [''zero-cost ($0) local or free inference is allowed within spend gate'']
        else
          (let currentSpend = res_hostedSpendUsd (r_resource run);
               projected = round_fixed 8 (currentSpend + amount);
               no_budget = decision Deny [''BUDGET_DENIED: hostedSpendUsd ceiling is $0.0000 (no paid hosted inference permitted); requested $'' @ toFixed 4 amount] in
           case inferRunHostedCeiling d x c of Fin cap \<Rightarrow>
             if cap \<le> 0 then no_budget
             else if projected > cap then decision Deny
               [''BUDGET_EXCEEDED: projected hosted spend $'' @ toFixed 4 projected @ '' ($'' @ toFixed 4 currentSpend @ '' + $'' @ toFixed 4 amount @
                '') exceeds ceiling $'' @ toFixed 4 cap]
             else decision Allow [''hosted spend $'' @ toFixed 4 amount @ '' within ceiling ($'' @ toFixed 4 projected @ '' / $'' @ toFixed 4 cap @ '')'']
           | _ \<Rightarrow> no_budget)
      | _ \<Rightarrow> invalid)"

subsection \<open>Preflight\<close>

record GoalPreflightInput =
  pi_run :: GoalRunLedger
  pi_extras :: RunExtras
  pi_target :: GoalTarget
  pi_route :: "ModelRouteDecision option"
  pi_principal :: string
  pi_constitution :: "GoalConstitution option"
  pi_action :: "string option"
  pi_attempt :: "number option"
  pi_context :: "(string \<times> json) list option"

definition ctx :: "GoalPreflightInput \<Rightarrow> string \<Rightarrow> json option" where
  "ctx i k = (case pi_context i of None \<Rightarrow> None | Some fs \<Rightarrow> map_of fs k)"

definition ledger_entry :: "GoalPreflightInput \<Rightarrow> TargetLedgerEntry option" where
  "ledger_entry i = dget (r_targets (pi_run i)) (t_id (pi_target i))"

definition attemptNumber :: "GoalPreflightInput \<Rightarrow> nat" where
  "attemptNumber i =
     (let next = (case ledger_entry i of None \<Rightarrow> 0 | Some e \<Rightarrow> le_attempts e) + 1 in
      case pi_attempt i of Some (Fin q) \<Rightarrow> if q \<ge> 1 then nat \<lfloor>q\<rfloor> else next | _ \<Rightarrow> next)"

definition preflight_action :: "GoalPreflightInput \<Rightarrow> string" where
  "preflight_action i =
     trim (case pi_action i of Some a \<Rightarrow> a
       | None \<Rightarrow> ''execute:'' @ (if t_executor (pi_target i) = [] then t_id (pi_target i) else t_executor (pi_target i)))"

definition corpus :: "GovernanceDeps \<Rightarrow> GoalPreflightInput \<Rightarrow> string" where
  "corpus d i = (let t = pi_target i in
     join_with '' '' ([t_id t, t_stage t, t_title t, t_executor t] @ t_artifacts t @ t_acceptance t @
       [preflight_action i, case pi_context i of None \<Rightarrow> [] | Some fs \<Rightarrow> stringify (d_number (gd_audit d)) (JObj fs)]))"

definition principal_reasons :: "GoalPreflightInput \<Rightarrow> string list" where
  "principal_reasons i =
     (let check = assertHumanOrSystemPrincipal (pi_principal i) (preflight_action i) in
      (if gov_effect check = Deny then gov_reasons check else []) @
      (case ctx i ''principal'' of Some (JStr p) \<Rightarrow>
         tag (p \<noteq> [] \<and> isModelOrAgentPrincipal p) (''MODEL_PRINCIPAL_FORBIDDEN: context principal '' @ quoted p @ '' is a model/agent identity'')
       | _ \<Rightarrow> []) @
      tag (ctx i ''mutateConstitution'' = Some (JBool True) \<or> ctx i ''bypassPolicy'' = Some (JBool True) \<or>
           ctx i ''selfApprove'' = Some (JBool True) \<or> ctx i ''raiseSpendLimit'' \<noteq> None)
        ''CONSTITUTION_INVARIANT_VIOLATION: autonomous mutation of constitution, policy, approval gates, or spend limits is forbidden'')"

definition invariant_reasons :: "string \<Rightarrow> string list" where
  "invariant_reasons text =
     tag (re_test_i SELF_AUTH_OR_POLICY_MUTATION_RE text)
       ''CONSTITUTION_INVARIANT_VIOLATION (objective_owner=human): target or action attempts self-authorization or policy/constitution mutation'' @
     tag (re_test_i WET_LAB_OR_HAZARD_RE text)
       ''CONSTITUTION_INVARIANT_VIOLATION (no_wet_lab_or_hazardous_protocols): wet-lab, biological, chemical, or hazardous protocol execution is strictly forbidden'' @
     tag (re_test_i FABRICATION_RE text)
       ''CONSTITUTION_INVARIANT_VIOLATION (no_fabrication): fabricating evidence, proofs, citations, solver outputs, or endorsements is strictly forbidden'' @
     tag (re_test_i UNVERIFIED_COMPLETION_RE text)
       ''CONSTITUTION_INVARIANT_VIOLATION (no_unverified_completion): marking targets complete without independent verification is strictly forbidden'' @
     tag (re_test_i DESTRUCTIVE_REPRODUCIBILITY_RE text)
       ''CONSTITUTION_INVARIANT_VIOLATION (preserve_reproducibility_artifacts): deleting or overwriting audit, ledger, or reproducibility artifacts is strictly forbidden''"

definition repair_reasons :: "ResourceLimits \<Rightarrow> GoalPreflightInput \<Rightarrow> string list" where
  "repair_reasons limits i =
     (let loops = ''CONSTITUTION_INVARIANT_VIOLATION (no_unbounded_retry_loops): target '' @ quoted (t_id (pi_target i)) in
      case ledger_entry i of None \<Rightarrow> []
      | Some e \<Rightarrow>
        tag (le_repairs e > maxRepairsPerTask limits)
          (loops @ '' repairs ('' @ show_nat (le_repairs e) @ '') exceeded maxRepairsPerTask ('' @ show_nat (maxRepairsPerTask limits) @ '')'') @
        tag (le_attempts e \<ge> maxRepairsPerTask limits + 1 \<and> le_repairs e \<ge> maxRepairsPerTask limits)
          (loops @ '' exhausted attempt/repair cap ('' @ show_nat (le_attempts e) @ '' attempts, '' @ show_nat (le_repairs e) @ '' repairs)''))"

definition limit_reasons :: "GovernanceDeps \<Rightarrow> timestamp \<Rightarrow> ResourceLimits \<Rightarrow> GoalPreflightInput \<Rightarrow> string list" where
  "limit_reasons d now limits i =
     (let run = pi_run i; res = r_resource run; nm = quoted (r_runId run) in
      tag (maxTasksPerRun limits > 0 \<and> res_tasksStarted res \<ge> maxTasksPerRun limits)
        (''RESOURCE_LIMIT_EXCEEDED (maxTasksPerRun): run '' @ nm @ '' has started '' @ show_nat (res_tasksStarted res) @ '' tasks (limit '' @ show_nat (maxTasksPerRun limits) @ '')'') @
      (if now > res_deadlineAt res then
         [''RESOURCE_LIMIT_EXCEEDED (deadlineAt): run '' @ nm @ '' passed deadline '' @ d_toISOString (gd_audit d) (res_deadlineAt res)]
       else tag (maxRunMinutes limits > 0 \<and> now - res_startedAt res > int (maxRunMinutes limits) * 60000)
         (''RESOURCE_LIMIT_EXCEEDED (maxRunMinutes): run '' @ nm @ '' elapsed time exceeded '' @ show_nat (maxRunMinutes limits) @ '' minutes'')))"

text \<open>The decision on the route's cost; without a route, a check of what the run has spent\<close>

definition spend_decision :: "GovernanceDeps \<Rightarrow> GoalConstitution \<Rightarrow> GoalPreflightInput \<Rightarrow> GovernanceDecision" where
  "spend_decision d c i =
     (let run = pi_run i; limits = con_resourceLimits c in
      case pi_route i of
        Some route \<Rightarrow>
          if mr_hosted route \<or> mr_estimatedCostUsd route > 0
          then authorizeSpend d (pi_extras i) run (Fin (mr_estimatedCostUsd route)) (Some c)
          else authorizeSpend d (pi_extras i) run (Fin 0) (Some c)
      | None \<Rightarrow>
          if res_hostedSpendUsd (r_resource run) > hostedSpendUsd limits
          then decision Deny [''BUDGET_EXCEEDED: run '' @ quoted (r_runId run) @ '' cumulative hostedSpendUsd ($'' @
                 toFixed 4 (res_hostedSpendUsd (r_resource run)) @ '') exceeds ceiling ($'' @ toFixed 4 (hostedSpendUsd limits) @ '')'']
          else decision Allow [])"

definition deny_reasons :: "GovernanceDeps \<Rightarrow> timestamp \<Rightarrow> GoalPreflightInput \<Rightarrow> string list" where
  "deny_reasons d now i =
     (let c = resolveConstitution d (Some (pi_run i)) (pi_constitution i);
          limits = con_resourceLimits c;
          spend = spend_decision d c i
      in principal_reasons i @ invariant_reasons (corpus d i) @ repair_reasons limits i @ limit_reasons d now limits i @
         (if gov_effect spend = Deny then gov_reasons spend else []))"

definition approvedScopes :: "GoalPreflightInput \<Rightarrow> string list" where
  "approvedScopes i = (case ctx i ''approvedScopes'' of
     Some (JArr xs) \<Rightarrow> concat (map (\<lambda>v. case v of JStr s \<Rightarrow> [s] | _ \<Rightarrow> []) xs) | _ \<Rightarrow> [])"

definition approval_scope :: "GoalPreflightInput \<Rightarrow> string" where
  "approval_scope i = formatApprovalScope (r_runId (pi_run i)) (t_id (pi_target i)) (attemptNumber i) (preflight_action i)"

definition named_in_context :: "GoalPreflightInput \<Rightarrow> string \<Rightarrow> bool" where
  "named_in_context i item \<longleftrightarrow> (case ctx i ''category'' of Some (JStr c) \<Rightarrow> toLowerCase c = item | _ \<Rightarrow> False)"

definition ask_reasons :: "GovernanceDeps \<Rightarrow> GoalConstitution \<Rightarrow> GoalPreflightInput \<Rightarrow> string list" where
  "ask_reasons d c i =
     (let scope = approval_scope i; approved = scope \<in> set (approvedScopes i); t = pi_target i; action = preflight_action i;
          approval = '' requires explicit human approval for scope '' @ quoted scope in
      tag (t_requiresApproval t \<and> \<not> approved)
        (''TARGET_REQUIRES_APPROVAL: target '' @ quoted (t_id t) @ '' ('' @ t_title t @ '')'' @ approval) @
      concat (map (\<lambda>(category, pattern). tag (re_test_i pattern (corpus d i) \<and> \<not> approved)
        (''CONSTITUTION_NEEDS_APPROVAL ('' @ category @ ''): action '' @ quoted action @ '' on target '' @ quoted (t_id t) @ approval))
        NEEDS_APPROVAL_ACTION_PATTERNS) @
      concat (map (\<lambda>item. let normalizedItem = toLowerCase (trim item) in
          tag (normalizedItem \<noteq> [] \<and> (has_substring (toLowerCase action) normalizedItem \<or> named_in_context i normalizedItem) \<and> \<not> approved)
            (''CONSTITUTION_NEEDS_APPROVAL ('' @ item @ ''):'' @ approval))
        (con_needsApproval c)))"

definition decision_event :: "string \<Rightarrow> string \<Rightarrow> GoalPreflightInput \<Rightarrow> string list \<Rightarrow> string option \<Rightarrow> RawEvent" where
  "decision_event type effect i reasons scope =
     \<lparr>raw_seq = None, raw_type = type, raw_runId = Some (r_runId (pi_run i)), raw_targetId = Some (t_id (pi_target i)),
      raw_attemptId = None, raw_executionId = None, raw_timestamp = None,
      raw_data = Some (JObj ([(''effect'', JStr effect), (''principal'', JStr (pi_principal i)), (''action'', JStr (preflight_action i)),
        (''attempt'', JNum (of_nat (attemptNumber i)))] @ optional_member ''approvalScope'' scope @ [(''reasons'', JArr (map JStr reasons))]))\<rparr>"

definition preflight :: "GovernanceDeps \<Rightarrow> timestamp \<Rightarrow> GoalPreflightInput \<Rightarrow> audit_store \<Rightarrow> GovernanceDecision \<times> audit_store" where
  "preflight d now i st =
     (let c = resolveConstitution d (Some (pi_run i)) (pi_constitution i);
          denied = deny_reasons d now i;
          asks = ask_reasons d c i;
          record_event = (\<lambda>ev. snd (appendAuditInternal (gd_audit d) now ev st))
      in if denied \<noteq> [] then
           (decision Deny denied, record_event (decision_event ''governance.denied'' ''deny'' i denied None))
         else if asks \<noteq> [] then
           (let reasons = uniq asks; scope = approval_scope i in
            (\<lparr>gov_effect = Ask, gov_reasons = reasons, gov_approvalScope = Some scope\<rparr>,
             record_event (decision_event ''approval.requested'' ''ask'' i reasons (Some scope))))
         else
           (decision Allow ((''preflight passed for target '' @ quoted (t_id (pi_target i)) @ '' under principal '' @ quoted (pi_principal i) @
              '' (attempt '' @ show_nat (attemptNumber i) @ '')'') # gov_reasons (spend_decision d c i)), st))"

subsection \<open>Lemmas\<close>

lemma tag_Nil [simp]: "tag b r = [] \<longleftrightarrow> \<not> b"
  by (simp add: tag_def)

lemma decision_effect [simp]: "gov_effect (decision e rs) = e"
  by (simp add: decision_def)

text \<open>Rounding to \<open>f\<close> decimals moves a number by at most half a unit.\<close>

lemma round_fixed_close: "\<bar>round_fixed f q - q\<bar> \<le> 1 / (2 * 10 ^ f)"
proof -
  define n where "n = \<lfloor>\<bar>q\<bar> * 10 ^ f + 1 / 2\<rfloor>"
  have "0 \<le> n" by (simp add: n_def)
  have low: "of_int n \<le> \<bar>q\<bar> * 10 ^ f + 1 / 2" and high: "\<bar>q\<bar> * 10 ^ f + 1 / 2 < of_int n + 1"
    unfolding n_def by linarith+
  have p: "(0::rat) < 10 ^ f" by simp
  have "\<bar>of_int n - \<bar>q\<bar> * 10 ^ f\<bar> \<le> 1 / 2" using low high by linarith
  then have "\<bar>of_int n - \<bar>q\<bar> * 10 ^ f\<bar> / 10 ^ f \<le> (1 / 2) / 10 ^ f" using p by (intro divide_right_mono) simp_all
  moreover have "\<bar>of_int n - \<bar>q\<bar> * 10 ^ f\<bar> / 10 ^ f = \<bar>of_int n / 10 ^ f - \<bar>q\<bar>\<bar>"
  proof -
    have "\<bar>of_int n / 10 ^ f - \<bar>q\<bar>\<bar> = \<bar>(of_int n - \<bar>q\<bar> * 10 ^ f) / 10 ^ f\<bar>" using p by (simp add: diff_divide_distrib)
    then show ?thesis by (simp only: abs_divide power_abs abs_numeral)
  qed
  moreover have "of_nat (fixed_units f q) = (of_int n :: rat)" using \<open>0 \<le> n\<close> by (simp add: fixed_units_def n_def)
  ultimately have "\<bar>of_nat (fixed_units f q) / 10 ^ f - \<bar>q\<bar>\<bar> \<le> 1 / (2 * 10 ^ f)" by simp
  then show ?thesis by (auto simp: round_fixed_def abs_if split: if_splits)
qed

lemma authorizeSpend_effect: "gov_effect (authorizeSpend d x run n c) \<in> {Allow, Deny}"
  by (cases n; cases "inferRunHostedCeiling d x c") (auto simp: authorizeSpend_def Let_def)

lemma authorizeSpend_allow:
  "gov_effect (authorizeSpend d x run n c) = Allow \<longleftrightarrow>
     (\<exists>a. n = Fin a \<and> 0 \<le> a \<and>
       (a = 0 \<or> (\<exists>cap. inferRunHostedCeiling d x c = Fin cap \<and> 0 < cap \<and> round_fixed 8 (res_hostedSpendUsd (r_resource run) + a) \<le> cap)))"
  by (cases n; cases "inferRunHostedCeiling d x c") (auto simp: authorizeSpend_def Let_def not_le not_less)

lemma spend_within:
  assumes "gov_effect (authorizeSpend d x run (Fin a) c) = Allow" and "0 < a" and "inferRunHostedCeiling d x c = Fin cap"
  shows "res_hostedSpendUsd (r_resource run) + a \<le> cap + 1 / 200000000"
proof -
  let ?s = "res_hostedSpendUsd (r_resource run) + a"
  have "?s - round_fixed 8 ?s \<le> 1 / 200000000" using round_fixed_close [of 8 ?s] unfolding abs_le_iff by simp
  moreover have "round_fixed 8 ?s \<le> cap" using assms by (auto simp: authorizeSpend_allow)
  ultimately show ?thesis by linarith
qed

lemma principal_reasons_Nil:
  assumes "principal_reasons i = []"
  shows "trim (pi_principal i) \<noteq> []" and "\<not> re_test_i MODEL_OR_AGENT_PRINCIPAL_RE (trim (trim (pi_principal i)))"
    and "\<not> re_test_i SELF_AUTH_OR_POLICY_MUTATION_RE (preflight_action i)"
  using assms
  by (auto simp: principal_reasons_def assertHumanOrSystemPrincipal_def Let_def isModelOrAgentPrincipal_def decision_def split: if_splits)

lemma trim_trim [simp]: "trim (trim s) = trim s"
proof -
  let ?t = "dropWhile is_space (rev (dropWhile is_space s))"
  have head: "dropWhile is_space (trim s) = trim s"
  proof (cases "trim s")
    case (Cons c r)
    have "\<exists>u. dropWhile is_space s = trim s @ u"
      unfolding trim_def by (metis rev_append rev_rev_ident takeWhile_dropWhile_id)
    then obtain u where u: "dropWhile is_space s = trim s @ u" by blast
    then have "dropWhile is_space s \<noteq> []" "hd (dropWhile is_space s) = c" using Cons by simp_all
    then have "\<not> is_space c" by (metis hd_dropWhile)
    with Cons show ?thesis by simp
  qed simp
  show ?thesis unfolding trim_def [of "trim s"] head unfolding trim_def by (simp add: dropWhile_idem)
qed

lemma preflight_allow:
  assumes "gov_effect (fst (preflight d now i st)) = Allow"
  shows "deny_reasons d now i = []" and "ask_reasons d (resolveConstitution d (Some (pi_run i)) (pi_constitution i)) i = []"
    and "snd (preflight d now i st) = st"
  using assms by (auto simp: preflight_def Let_def split: if_splits)

subsection \<open>Approval scopes\<close>

lemma before_colon:
  assumes "CHR '':'' \<notin> set a" "CHR '':'' \<notin> set b" "a @ CHR '':'' # x = b @ CHR '':'' # y"
  shows "a = b \<and> x = y"
  using assms
proof (induction a arbitrary: b)
  case Nil
  then show ?case by (cases b) auto
next
  case (Cons c a)
  then show ?case by (cases b) auto
qed

lemma formatApprovalScope_inject:
  assumes "formatApprovalScope r t n a = formatApprovalScope r' t' n' a'"
    and "CHR '':'' \<notin> set r" "CHR '':'' \<notin> set r'" "CHR '':'' \<notin> set t" "CHR '':'' \<notin> set t'"
  shows "r = r' \<and> t = t' \<and> n = n'"
proof -
  define x where "x = collapse_spaces (trim (if a = [] then ''execute'' else a))"
  define y where "y = collapse_spaces (trim (if a' = [] then ''execute'' else a'))"
  from assms(1) have "r @ CHR '':'' # t @ CHR '':'' # show_nat n @ CHR '':'' # x = r' @ CHR '':'' # t' @ CHR '':'' # show_nat n' @ CHR '':'' # y"
    by (simp add: formatApprovalScope_def Let_def x_def y_def)
  from before_colon [OF assms(2,3) this] have "r = r'" and 1: "t @ CHR '':'' # show_nat n @ CHR '':'' # x = t' @ CHR '':'' # show_nat n' @ CHR '':'' # y" by simp_all
  from before_colon [OF assms(4,5) 1] have "t = t'" and 2: "show_nat n @ CHR '':'' # x = show_nat n' @ CHR '':'' # y" by simp_all
  from before_colon [OF show_nat_no_colon show_nat_no_colon 2] have "n = n'" by simp
  with \<open>r = r'\<close> \<open>t = t'\<close> show ?thesis by simp
qed

text \<open>What the record of a decision says\<close>

lemma plain_keys: "\<not> sensitive_key ''effect''" "\<not> sensitive_key ''targetId''" "\<not> sensitive_key ''seq''" "\<not> sensitive_key ''type''"
  "\<not> sensitive_key ''runId''" "\<not> sensitive_key ''timestamp''" "\<not> sensitive_key ''data''"
  by code_simp+

lemma decision_event_data:
  "jget (au_event (next_record a now (decision_event ty eff i rs sc) recs)) ''targetId'' = Some (JStr (d_sanitizeUntrustedOutput a (t_id (pi_target i))))"
  "event_data (au_event (next_record a now (decision_event ty eff i rs sc) recs)) ''effect'' =
     Some (JStr (d_sanitizeUntrustedOutput a (d_sanitizeUntrustedOutput a eff)))"
  by (simp_all add: event_data_def next_record_def Let_def sanitized_event_def decision_event_def optional_member_def plain_keys dropped_key_def nonempty_string_def)

subsection \<open>Properties\<close>

text \<open>
  C22. What an allowed preflight guarantees, for every run, target, route and context: the principal is
  named and is no model, agent or executor identity; the action is no self-authorization; the target has
  not used up its repairs, the run neither its tasks nor its time; a route that costs money keeps the
  run's hosted spend within the ceiling (up to the rounding to eight decimals); a target that requires an
  approval has one for exactly this run, target, attempt and action. Nothing is written to the trail.
\<close>
theorem preflight_allow_sound:
  assumes "gov_effect (fst (preflight d now i st)) = Allow"
    and "c = resolveConstitution d (Some (pi_run i)) (pi_constitution i)"
  shows "\<not> isModelOrAgentPrincipal (pi_principal i) \<and>
    \<not> re_test_i SELF_AUTH_OR_POLICY_MUTATION_RE (preflight_action i) \<and> invariant_reasons (corpus d i) = [] \<and>
    (\<forall>e. ledger_entry i = Some e \<longrightarrow> le_repairs e \<le> maxRepairsPerTask (con_resourceLimits c) \<and>
      (le_attempts e \<le> maxRepairsPerTask (con_resourceLimits c) \<or> le_repairs e < maxRepairsPerTask (con_resourceLimits c))) \<and>
    (0 < maxTasksPerRun (con_resourceLimits c) \<longrightarrow> res_tasksStarted (r_resource (pi_run i)) < maxTasksPerRun (con_resourceLimits c)) \<and>
    now \<le> res_deadlineAt (r_resource (pi_run i)) \<and>
    (\<forall>route cap. pi_route i = Some route \<and> 0 < mr_estimatedCostUsd route \<and> inferRunHostedCeiling d (pi_extras i) (Some c) = Fin cap \<longrightarrow>
      res_hostedSpendUsd (r_resource (pi_run i)) + mr_estimatedCostUsd route \<le> cap + 1 / 200000000) \<and>
    (t_requiresApproval (pi_target i) \<longrightarrow> approval_scope i \<in> set (approvedScopes i)) \<and>
    snd (preflight d now i st) = st"
proof -
  note P = preflight_allow [OF assms(1)]
  have D: "principal_reasons i = []" "invariant_reasons (corpus d i) = []" "repair_reasons (con_resourceLimits c) i = []"
    "limit_reasons d now (con_resourceLimits c) i = []" "gov_effect (spend_decision d c i) = Deny \<longrightarrow> gov_reasons (spend_decision d c i) = []"
    using P(1) by (simp_all add: deny_reasons_def Let_def assms(2) split: if_splits)
  have "res_hostedSpendUsd (r_resource (pi_run i)) + mr_estimatedCostUsd route \<le> cap + 1 / 200000000"
    if "pi_route i = Some route" "0 < mr_estimatedCostUsd route" "inferRunHostedCeiling d (pi_extras i) (Some c) = Fin cap" for route cap
  proof (rule spend_within [OF _ that(2,3)])
    have "gov_reasons (authorizeSpend d (pi_extras i) (pi_run i) n (Some c)) \<noteq> []" for n
      by (cases n; cases "inferRunHostedCeiling d (pi_extras i) (Some c)") (auto simp: authorizeSpend_def Let_def decision_def)
    with D(5) that(1,2) authorizeSpend_effect [of d "pi_extras i" "pi_run i" "Fin (mr_estimatedCostUsd route)" "Some c"]
    show "gov_effect (authorizeSpend d (pi_extras i) (pi_run i) (Fin (mr_estimatedCostUsd route)) (Some c)) = Allow"
      by (auto simp: spend_decision_def Let_def)
  qed
  moreover have "t_requiresApproval (pi_target i) \<longrightarrow> approval_scope i \<in> set (approvedScopes i)"
    using P(2) by (simp add: ask_reasons_def Let_def)
  moreover have "\<not> isModelOrAgentPrincipal (pi_principal i)" "\<not> re_test_i SELF_AUTH_OR_POLICY_MUTATION_RE (preflight_action i)"
    using principal_reasons_Nil [OF D(1)] by (simp_all add: isModelOrAgentPrincipal_def)
  ultimately show ?thesis using D(2-4) P(3) by (auto simp: repair_reasons_def limit_reasons_def Let_def split: if_splits)
qed

text \<open>
  C37. An approval is bound to one attempt: when a target requires approval and every approved scope was
  given for another run, target or attempt, preflight does not allow it, whatever actions the scopes name.
\<close>
theorem approval_is_bound_to_attempt:
  assumes "t_requiresApproval (pi_target i)"
    and "\<forall>s \<in> set (approvedScopes i). \<exists>r t n a. s = formatApprovalScope r t n a \<and> CHR '':'' \<notin> set (r @ t) \<and>
      (r, t, n) \<noteq> (r_runId (pi_run i), t_id (pi_target i), attemptNumber i)"
    and "CHR '':'' \<notin> set (r_runId (pi_run i) @ t_id (pi_target i))"
  shows "gov_effect (fst (preflight d now i st)) \<noteq> Allow"
proof
  assume "gov_effect (fst (preflight d now i st)) = Allow"
  from preflight_allow(2) [OF this] assms(1) have "approval_scope i \<in> set (approvedScopes i)" by (simp add: ask_reasons_def Let_def)
  with assms(2) obtain r t n a where s: "approval_scope i = formatApprovalScope r t n a" "CHR '':'' \<notin> set (r @ t)"
    "(r, t, n) \<noteq> (r_runId (pi_run i), t_id (pi_target i), attemptNumber i)" by blast
  from formatApprovalScope_inject [OF s(1) [unfolded approval_scope_def]] s(2,3) assms(3) show False by auto
qed

text \<open>
  Every decision other than allow leaves exactly one new record in the trail, with the run, the target
  and the effect in it, and the trail stays a chain that verifies.
\<close>
theorem preflight_refusals_are_audited:
  assumes "audit_wf (gd_audit d) st" and "gov_effect (fst (preflight d now i st)) \<noteq> Allow"
    and "\<forall>w \<in> {''deny'', ''ask''}. d_sanitizeUntrustedOutput (gd_audit d) w = w"
  shows "\<exists>r. audit_records (snd (preflight d now i st)) = audit_records st @ [r] \<and>
    jget (au_event r) ''targetId'' = Some (JStr (d_sanitizeUntrustedOutput (gd_audit d) (t_id (pi_target i)))) \<and>
    event_data (au_event r) ''effect'' = Some (JStr (if gov_effect (fst (preflight d now i st)) = Deny then ''deny'' else ''ask'')) \<and>
    cv_valid (verifyAuditChain (gd_audit d) (snd (preflight d now i st)))"
proof -
  obtain ty eff rs sc where snd: "snd (preflight d now i st) = snd (appendAuditInternal (gd_audit d) now (decision_event ty eff i rs sc) st)"
    and eff: "eff = (if gov_effect (fst (preflight d now i st)) = Deny then ''deny'' else ''ask'')"
    using assms(2) by (auto simp: preflight_def Let_def split: if_splits)
  let ?r = "next_record (gd_audit d) now (decision_event ty eff i rs sc) (audit_records st)"
  have "audit_records (snd (preflight d now i st)) = audit_records st @ [?r]" "audit_wf (gd_audit d) (snd (preflight d now i st))"
    using append_effect [OF assms(1)] by (simp_all add: snd appendAuditInternal_def Let_def)
  moreover have "d_sanitizeUntrustedOutput (gd_audit d) eff = eff" using assms(3) eff by simp
  ultimately show ?thesis using eff
    by (intro exI [of _ ?r]) (simp add: verifyAuditChain_valid audit_wf_def decision_event_data)
qed

text \<open>A sample run and target for the examples\<close>

definition sample_governance :: GovernanceDeps where
  "sample_governance = \<lparr>gd_audit = sample_deps, gd_graphs = None, gd_storedRevision = (\<lambda>_ _. None), gd_defaultConstitution = None\<rparr>"

definition sample_run :: GoalRunLedger where
  "sample_run = \<lparr>r_runId = ''run1'', r_graphId = ''g'', r_graphRevision = 1, r_graphDigest = [], r_status = RRunning, r_ledgerRevision = 1,
     r_targets = [], r_resource = \<lparr>res_tasksStarted = 0, res_hostedSpendUsd = 0, res_startedAt = 0, res_deadlineAt = 1000\<rparr>,
     r_createdBy = ''user:ada'', r_createdAt = 0, r_updatedAt = 0\<rparr>"

definition sample_input :: "string \<Rightarrow> bool \<Rightarrow> (string \<times> json) list option \<Rightarrow> GoalPreflightInput" where
  "sample_input who approval context = \<lparr>pi_run = sample_run, pi_extras = \<lparr>x_hostedSpendCeilingUsd = None, x_hostedSpendUsd = None\<rparr>,
     pi_target = \<lparr>t_id = ''1'', t_stage = ''2'', t_title = ''3'', t_dependsOn = [], t_priority = 1, t_executor = ''4'', t_artifacts = [],
       t_acceptance = [], t_externalDependency = False, t_requiresApproval = approval\<rparr>,
     pi_route = None, pi_principal = who, pi_constitution = None, pi_action = Some ''5'', pi_attempt = None, pi_context = context\<rparr>"

lemma sample_allowed: "gov_effect (fst (preflight sample_governance 0 (sample_input ''ada'' False None) [])) = Allow"
  by code_simp

theorem preflight_allow_sound_witness:
  "\<not> isModelOrAgentPrincipal ''ada'' \<and> snd (preflight sample_governance 0 (sample_input ''ada'' False None) []) = []"
  using preflight_allow_sound [OF sample_allowed refl] by (simp add: sample_input_def)

definition sample_approved :: GoalPreflightInput where
  "sample_approved = sample_input ''ada'' True (Some [(''approvedScopes'', JArr [JStr (formatApprovalScope ''run1'' ''1'' 2 ''5'')])])"

lemma sample_approved_fields:
  "approvedScopes sample_approved = [formatApprovalScope ''run1'' ''1'' 2 ''5'']" "r_runId (pi_run sample_approved) = ''run1''"
  "t_id (pi_target sample_approved) = ''1''" "attemptNumber sample_approved = 1" "t_requiresApproval (pi_target sample_approved)"
  by (simp_all add: sample_approved_def approvedScopes_def ctx_def sample_input_def sample_run_def attemptNumber_def ledger_entry_def)

theorem approval_is_bound_to_attempt_witness:
  "gov_effect (fst (preflight sample_governance 0 sample_approved [])) \<noteq> Allow"
proof (rule approval_is_bound_to_attempt)
  have "CHR '':'' \<notin> set (''run1'' @ ''1'')" "(''run1'', ''1'', 2 :: nat) \<noteq> (''run1'', ''1'', 1)" by simp_all
  then show "\<forall>s \<in> set (approvedScopes sample_approved). \<exists>r t n a. s = formatApprovalScope r t n a \<and> CHR '':'' \<notin> set (r @ t) \<and>
      (r, t, n) \<noteq> (r_runId (pi_run sample_approved), t_id (pi_target sample_approved), attemptNumber sample_approved)"
    unfolding sample_approved_fields list.set by blast
qed (simp_all add: sample_approved_fields)

lemma sample_denied: "gov_effect (fst (preflight sample_governance 0 (sample_input [] False None) [])) = Deny"
proof -
  have "principal_reasons (sample_input [] False None) \<noteq> []"
    by (simp add: principal_reasons_def assertHumanOrSystemPrincipal_def sample_input_def trim_def decision_def)
  then show ?thesis by (simp add: preflight_def deny_reasons_def Let_def)
qed

theorem preflight_refusals_are_audited_witness:
  "\<exists>r. audit_records (snd (preflight sample_governance 0 (sample_input [] False None) [])) = [r] \<and> event_data (au_event r) ''effect'' = Some (JStr ''deny'')"
proof -
  have "d_sanitizeUntrustedOutput (gd_audit sample_governance) = id" by (simp add: sample_governance_def sample_deps_def)
  then show ?thesis
    using preflight_refusals_are_audited [of sample_governance "[]" 0 "sample_input [] False None"] audit_wf_empty sample_denied
    by (simp add: audit_records_def) blast
qed

text \<open>
  However a graph, a caller or the configuration overrides the constitution, the constitution that is
  enforced keeps every default invariant and every default category that needs approval.
\<close>
theorem constitution_keeps_defaults:
  "set DEFAULT_CONSTITUTION_INVARIANTS \<subseteq> set (con_invariants (resolveConstitution d run explicit)) \<and>
   set DEFAULT_CONSTITUTION_NEEDS_APPROVAL \<subseteq> set (con_needsApproval (resolveConstitution d run explicit))"
proof -
  have merge: "set (con_invariants b) \<subseteq> set (con_invariants (mergeConstitution b ov))"
    "set (con_needsApproval b) \<subseteq> set (con_needsApproval (mergeConstitution b ov))" for b ov
    by (auto simp: mergeConstitution_def split: option.split)
  have base: "set DEFAULT_CONSTITUTION_INVARIANTS \<subseteq> set (con_invariants (baseConstitution d))"
    "set DEFAULT_CONSTITUTION_NEEDS_APPROVAL \<subseteq> set (con_needsApproval (baseConstitution d))"
    using merge [of DEFAULT_GOAL_CONSTITUTION "gd_defaultConstitution d"] by (simp_all add: baseConstitution_def DEFAULT_GOAL_CONSTITUTION_def)
  have "\<exists>ov. resolveConstitution d run explicit = mergeConstitution (baseConstitution d) ov"
    by (auto simp: resolveConstitution_def Let_def mergeConstitution_def split: option.split)
  then show ?thesis using merge base by (metis subset_trans)
qed

text \<open>Spending what is authorized, one amount after the other\<close>

definition spend :: "rat \<Rightarrow> GoalRunLedger \<Rightarrow> GoalRunLedger" where
  "spend a run = run\<lparr>r_resource := (r_resource run)\<lparr>res_hostedSpendUsd := res_hostedSpendUsd (r_resource run) + a\<rparr>\<rparr>"

definition spend_if_authorized :: "GovernanceDeps \<Rightarrow> RunExtras \<Rightarrow> GoalConstitution option \<Rightarrow> number \<Rightarrow> GoalRunLedger \<Rightarrow> GoalRunLedger" where
  "spend_if_authorized d x c n run = (case n of Fin a \<Rightarrow> if gov_effect (authorizeSpend d x run n c) = Allow then spend a run else run | _ \<Rightarrow> run)"

text \<open>
  However many amounts are asked for, and however they interleave with refusals, a run that spends only
  what \<open>authorizeSpend\<close> allows never exceeds its ceiling by more than half of the eighth decimal, unless it
  started above it.
\<close>
theorem authorized_spend_is_bounded:
  assumes "inferRunHostedCeiling d x c = Fin cap"
  shows "res_hostedSpendUsd (r_resource (fold (spend_if_authorized d x c) amounts run)) \<le>
    max (res_hostedSpendUsd (r_resource run)) (cap + 1 / 200000000)"
proof (induction amounts arbitrary: run)
  case (Cons n amounts)
  have "res_hostedSpendUsd (r_resource (spend_if_authorized d x c n run)) \<le> max (res_hostedSpendUsd (r_resource run)) (cap + 1 / 200000000)"
  proof (cases "\<exists>a. n = Fin a \<and> gov_effect (authorizeSpend d x run n c) = Allow")
    case True
    then obtain a where a: "n = Fin a" "gov_effect (authorizeSpend d x run (Fin a) c) = Allow" by blast
    then have "0 \<le> a" by (simp add: authorizeSpend_allow)
    then show ?thesis using spend_within [OF a(2) _ assms] a by (cases "a = 0") (auto simp: spend_if_authorized_def spend_def)
  qed (auto simp: spend_if_authorized_def split: number.split)
  with Cons.IH [of "spend_if_authorized d x c n run"] show ?case by (simp add: max_def split: if_splits)
qed simp

theorem authorized_spend_is_bounded_witness:
  "res_hostedSpendUsd (r_resource (fold (spend_if_authorized sample_governance \<lparr>x_hostedSpendCeilingUsd = Some (Fin 1), x_hostedSpendUsd = None\<rparr> None)
     [Fin (3 / 4), Fin (1 / 2), NaN] sample_run)) \<le> 1 + 1 / 200000000"
  using authorized_spend_is_bounded [of sample_governance "\<lparr>x_hostedSpendCeilingUsd = Some (Fin 1), x_hostedSpendUsd = None\<rparr>" None 1 "[Fin (3 / 4), Fin (1 / 2), NaN]" sample_run]
  by (simp add: inferRunHostedCeiling_def sample_run_def)

end
