(* ===== verification/Failure_Classes.thy ===== *)
theory Failure_Classes
  imports Canonical Regex
begin

text \<open>
  Classification of failed attempts: \<open>src/packages/goals/src/recovery/classify.ts\<close> and
  \<open>signature.ts\<close>, over the failure classes of \<open>src/packages/shared/src/failure.ts\<close>.

  A class of the shared package is its name, a string, as in the source. \<open>fromError\<close> of the core package and
  SHA-256 are parameters of the signature.
\<close>

subsection \<open>Names\<close>

fun code_str :: "GoalStudioErrorCode \<Rightarrow> string" where
  "code_str VALIDATION = ''VALIDATION''"
| "code_str NOT_FOUND = ''NOT_FOUND''"
| "code_str LEDGER_CONFLICT = ''LEDGER_CONFLICT''"
| "code_str STALE_LEASE = ''STALE_LEASE''"
| "code_str DUPLICATE = ''DUPLICATE''"
| "code_str UNAUTHORIZED = ''UNAUTHORIZED''"
| "code_str FORBIDDEN = ''FORBIDDEN''"
| "code_str POLICY_DENIED = ''POLICY_DENIED''"
| "code_str APPROVAL_REQUIRED = ''APPROVAL_REQUIRED''"
| "code_str BUDGET_EXCEEDED = ''BUDGET_EXCEEDED''"
| "code_str NO_ROUTE = ''NO_ROUTE''"
| "code_str EXECUTION_FAILED = ''EXECUTION_FAILED''"
| "code_str VERIFICATION_FAILED = ''VERIFICATION_FAILED''"
| "code_str RETRY_EXHAUSTED = ''RETRY_EXHAUSTED''"
| "code_str NO_PROGRESS = ''NO_PROGRESS''"
| "code_str CANCELLED = ''CANCELLED''"
| "code_str INTERNAL = ''INTERNAL''"

fun class_str :: "FailureClass \<Rightarrow> string" where
  "class_str Transient = ''transient''"
| "class_str Deterministic = ''deterministic''"
| "class_str Environment = ''environment''"
| "class_str Policy = ''policy''"
| "class_str Verification = ''verification''"
| "class_str NoProgress = ''no_progress''"
| "class_str UnknownFailure = ''unknown''"

fun gate_str :: "GateOutcome \<Rightarrow> string" where
  "gate_str GCompleted = ''completed''"
| "gate_str GRepair = ''repair''"
| "gate_str GNeedsApproval = ''needs_approval''"
| "gate_str GAwaitingExternal = ''awaiting_external''"
| "gate_str GBlocked = ''blocked''"

subsection \<open>The classes of the shared package\<close>

type_synonym CoreFailureClass = string

definition FAILURE_CLASSES :: "CoreFailureClass list" where
  "FAILURE_CLASSES =
    [''TRANSIENT_PROVIDER'', ''RATE_LIMIT'', ''SERVER'', ''TIMEOUT'', ''TRANSPORT'', ''EMPTY_RESPONSE'',
     ''MODEL_PROTOCOL'', ''MODEL_CONTEXT_OVERFLOW'', ''MODEL_UNAVAILABLE'',
     ''TOOL_VALIDATION_FAILED'', ''TOOL_EXECUTION_FAILED'', ''TOOL_TIMEOUT'', ''TOOL_OUTCOME_UNKNOWN'',
     ''POLICY_DENIED'', ''APPROVAL_REQUIRED'', ''CODE_FAILURE'', ''BUILD_FAILED'', ''TEST_FAILED'',
     ''LINT_FAILED'', ''TYPECHECK_FAILED'', ''ARTIFACT_CONTRACT_FAILED'', ''WORKSPACE_CONFLICT'',
     ''STALE_EDIT'', ''RESOURCE_EXHAUSTED'', ''MODEL_ADMISSION_DENIED'', ''NON_RECOVERABLE'', ''CANCELLED'',
     ''AUTH_FAILED'', ''QUOTA_EXHAUSTED'']"

definition isFailureClass :: "json \<Rightarrow> bool" where
  "isFailureClass v \<longleftrightarrow> (case v of JStr s \<Rightarrow> s \<in> set FAILURE_CLASSES | _ \<Rightarrow> False)"

definition isProviderRetryable :: "CoreFailureClass \<Rightarrow> bool" where
  "isProviderRetryable c \<longleftrightarrow> c \<in> set [''TRANSIENT_PROVIDER'', ''RATE_LIMIT'', ''SERVER'', ''TIMEOUT'', ''TRANSPORT'', ''EMPTY_RESPONSE'']"

definition POLICY_CODES :: "GoalStudioErrorCode list" where
  "POLICY_CODES = [POLICY_DENIED, FORBIDDEN, UNAUTHORIZED, APPROVAL_REQUIRED, BUDGET_EXCEEDED, CANCELLED]"

definition POLICY_CORE :: "CoreFailureClass list" where
  "POLICY_CORE = [''POLICY_DENIED'', ''APPROVAL_REQUIRED'', ''MODEL_ADMISSION_DENIED'', ''CANCELLED'']"

definition ENVIRONMENT_CORE :: "CoreFailureClass list" where
  "ENVIRONMENT_CORE = [''MODEL_UNAVAILABLE'', ''RESOURCE_EXHAUSTED'', ''WORKSPACE_CONFLICT'', ''AUTH_FAILED'', ''QUOTA_EXHAUSTED'', ''TOOL_OUTCOME_UNKNOWN'']"

definition ENVIRONMENT_TERMINAL_CORE :: "CoreFailureClass list" where
  "ENVIRONMENT_TERMINAL_CORE = [''AUTH_FAILED'', ''QUOTA_EXHAUSTED'']"

definition DETERMINISTIC_CORE :: "CoreFailureClass list" where
  "DETERMINISTIC_CORE = [''CODE_FAILURE'', ''BUILD_FAILED'', ''TEST_FAILED'', ''LINT_FAILED'', ''TYPECHECK_FAILED'', ''ARTIFACT_CONTRACT_FAILED'',
     ''TOOL_VALIDATION_FAILED'', ''TOOL_EXECUTION_FAILED'', ''STALE_EDIT'', ''MODEL_PROTOCOL'', ''MODEL_CONTEXT_OVERFLOW'']"

subsection \<open>Categories from output\<close>

text \<open>Each expression with its test, which is case-sensitive for the first two\<close>

definition PROSE_CATEGORIES :: "((string \<Rightarrow> bool) \<times> CoreFailureClass) list" where
  "PROSE_CATEGORIES =
    [(re_test (bounded (words [''ETIMEDOUT'', ''UND_ERR_CONNECT_TIMEOUT''])), ''TIMEOUT''),
     (re_test (bounded (words [''ECONNRESET'', ''ECONNREFUSED'', ''EPIPE'', ''EAI_AGAIN'', ''UND_ERR_SOCKET''])), ''TRANSPORT''),
     (re_test_i (bounded (alt [lit ''429'', lit ''too many requests'', cat [lit ''rate limit'', opt (lit ''ed'')]])), ''RATE_LIMIT''),
     (re_test_i (bounded (cat [words [''502'', ''503'', ''504''], lit '' '', words [''bad gateway'', ''service unavailable'', ''gateway timeout'']])), ''SERVER''),
     (re_test_i (alt [bounded (cat [lit ''error ts'', Rep Digit 4 (Some 4)]),
        bounded (cat [lit ''type'', opt (lit '' ''), lit ''check'', opt (lit ''ing''), lit '' failed''])]), ''TYPECHECK_FAILED''),
     (re_test_i (alt [bounded (lit ''build failed''), bounded (lit ''compilation failed''), bounded (lit ''cannot find module'')]), ''BUILD_FAILED''),
     (re_test_i (alt [bounded (cat [lit ''lint'', opt (lit ''ing''), lit '' failed'']), bounded (lit ''eslint'')]), ''LINT_FAILED''),
     (re_test_i (alt [bounded (cat [lit ''test'', opt (lit ''s''), lit '' failed'']), bounded (lit ''assertionerror''),
        bounded (cat [lit ''failing test'', opt (lit ''s'')]),
        bounded (cat [lit ''expected '', Rep AnyChar 1 (Some 80), lit '' to '', words [''be'', ''equal'']])]), ''TEST_FAILED''),
     (re_test_i (alt [bounded (lit ''missing artifact''), bounded (lit ''artifact contract'')]), ''ARTIFACT_CONTRACT_FAILED''),
     (re_test_i (bounded (cat [lit ''stale '', words [''edit'', ''file'']])), ''STALE_EDIT''),
     (re_test_i (alt [bounded (cat [lit ''context '', words [''length'', ''window'']]), bounded (lit ''too many tokens'')]), ''MODEL_CONTEXT_OVERFLOW'')]"

fun first_category :: "((string \<Rightarrow> bool) \<times> CoreFailureClass) list \<Rightarrow> string \<Rightarrow> CoreFailureClass option" where
  "first_category [] text = None"
| "first_category ((test, c) # rest) text = (if test text then Some c else first_category rest text)"

definition detail :: "GoalStudioError option \<Rightarrow> string \<Rightarrow> json option" where
  "detail e k = (case e of None \<Rightarrow> None | Some err \<Rightarrow> dget (e_details err) k)"

definition prose :: "GoalStudioError option \<Rightarrow> string" where
  "prose e = take 20000 (join_with [CHR 10]
     ((case e of None \<Rightarrow> [] | Some err \<Rightarrow> [e_message err]) @ (case detail e ''stderr'' of Some (JStr s) \<Rightarrow> [s] | _ \<Rightarrow> [])))"

text \<open>The category and whether it was inferred from text\<close>

definition coreCategoryOf :: "GoalStudioError option \<Rightarrow> CoreFailureClass option \<times> bool" where
  "coreCategoryOf e =
     (let inferred = (case first_category PROSE_CATEGORIES (prose e) of Some c \<Rightarrow> (Some c, True) | None \<Rightarrow> (None, False)) in
      case detail e ''failureClass'' of
        Some (JStr s) \<Rightarrow> if isFailureClass (JStr s) then (Some s, False) else inferred
      | _ \<Rightarrow> inferred)"

subsection \<open>Classifying\<close>

definition by_code_unit :: "string list \<Rightarrow> string list" where
  "by_code_unit xs = sort_by compare_str xs"

definition failedCriteriaOf :: "GoalStudioError option \<Rightarrow> AcceptanceGateDecision option \<Rightarrow> string list" where
  "failedCriteriaOf error gate =
     (let fromGate = (case gate of None \<Rightarrow> []
            | Some g \<Rightarrow> map (\<lambda>row. trim (cv_criterion row)) (filter (\<lambda>row. cv_verdict row \<noteq> PASS) (gd_perCriterion g)));
          fromError = (case detail error ''failedCriteria'' of
              Some (JArr cs) \<Rightarrow> concat (map (\<lambda>c. case c of JStr s \<Rightarrow> if trim s \<noteq> [] then [trim s] else [] | _ \<Rightarrow> []) cs)
            | _ \<Rightarrow> [])
      in by_code_unit (uniq (fromGate @ fromError)))"

record FailureClassification =
  fc_failureClass :: FailureClass
  fc_coreCategory :: CoreFailureClass
  fc_terminal :: bool
  fc_retryable :: bool
  fc_failedCriteria :: "string list"
  fc_diagnosis :: string
  fc_reasons :: "string list"

definition mem :: "CoreFailureClass option \<Rightarrow> CoreFailureClass list \<Rightarrow> bool" where
  "mem c cs \<longleftrightarrow> (case c of None \<Rightarrow> False | Some x \<Rightarrow> x \<in> set cs)"

definition pick :: "CoreFailureClass option \<Rightarrow> CoreFailureClass list \<Rightarrow> CoreFailureClass \<Rightarrow> CoreFailureClass" where
  "pick c cs other = (case c of None \<Rightarrow> other | Some x \<Rightarrow> if x \<in> set cs then x else other)"

definition classifyGoalFailure :: "GoalStudioError option \<Rightarrow> AcceptanceGateDecision option \<Rightarrow> FailureClassification" where
  "classifyGoalFailure error gate =
    (let failedCriteria = failedCriteriaOf error gate;
         code = map_option e_code error;
         (category, fromProse) = coreCategoryOf error;
         retry_flag = (case error of None \<Rightarrow> False | Some e \<Rightarrow> e_retryable e);
         reasons =
           (case code of None \<Rightarrow> [] | Some c \<Rightarrow> [''error code '' @ code_str c @ (if retry_flag then '' (retryable)'' else [])]) @
           (case category of None \<Rightarrow> [] | Some c \<Rightarrow> [''category '' @ c @ (if fromProse then '' (inferred from output)'' else [])]) @
           (case gate of None \<Rightarrow> [] | Some g \<Rightarrow> [''gate decision '' @ gate_str (gd_decision g)]);
         message = (case error of None \<Rightarrow> [] | Some e \<Rightarrow> if e_message e = [] then [] else '': '' @ take 300 (e_message e));
         outcome = (\<lambda>cls core terminal retryable diagnosis more.
           \<lparr>fc_failureClass = cls, fc_coreCategory = core, fc_terminal = terminal, fc_retryable = retryable,
            fc_failedCriteria = failedCriteria, fc_diagnosis = diagnosis, fc_reasons = reasons @ more\<rparr>);
         transientCore = (case category of None \<Rightarrow> False | Some c \<Rightarrow> isProviderRetryable c);
         retryableExecution = retry_flag \<and> (code = Some EXECUTION_FAILED \<or> code = Some INTERNAL) \<and>
           \<not> (mem category DETERMINISTIC_CORE \<or> mem category ENVIRONMENT_CORE)
     in
     if (case code of None \<Rightarrow> False | Some c \<Rightarrow> c \<in> set POLICY_CODES) \<or> (\<not> fromProse \<and> mem category POLICY_CORE) then
       (let core = pick category POLICY_CORE
              (if code = Some APPROVAL_REQUIRED then ''APPROVAL_REQUIRED'' else if code = Some CANCELLED then ''CANCELLED'' else ''POLICY_DENIED'') in
        outcome Policy core True False
          (''Policy or control-plane denial ('' @ (case code of Some c \<Rightarrow> code_str c | None \<Rightarrow> core) @ '')'' @ message)
          [''policy denial: never retried or repaired around''])
     else if code = Some NO_PROGRESS \<or> code = Some RETRY_EXHAUSTED then
       (let name = code_str (the code) in
        outcome NoProgress (case category of Some c \<Rightarrow> c | None \<Rightarrow> ''NON_RECOVERABLE'') True False
          (''Upstream reported '' @ name @ message) [name @ '' reported upstream''])
     else if category = Some ''NON_RECOVERABLE'' \<and> \<not> fromProse then
       outcome Deterministic ''NON_RECOVERABLE'' True False (''Non-recoverable execution failure'' @ message) [''execution reported NON_RECOVERABLE'']
     else if code = Some STALE_LEASE then
       outcome Environment ''WORKSPACE_CONFLICT'' True False (''Run lease lost'' @ message) [''run lease lost: this holder must not continue the target'']
     else if map_option gd_decision gate = Some GBlocked \<and> (error = None \<or> code = Some VERIFICATION_FAILED) then
       outcome Verification ''ARTIFACT_CONTRACT_FAILED'' True False
         (''Acceptance gate blocked the target: '' @ take 300 (join_with ''; '' (case gate of None \<Rightarrow> [] | Some g \<Rightarrow> gd_reasons g))) []
     else if code = Some LEDGER_CONFLICT \<or> transientCore \<or> retryableExecution then
       (let core = (if transientCore then (case category of Some c \<Rightarrow> c | None \<Rightarrow> [])
              else if category = Some ''TOOL_TIMEOUT'' then ''TOOL_TIMEOUT'' else ''TRANSIENT_PROVIDER'') in
        outcome Transient core False True (''Transient failure ('' @ core @ '')'' @ message) [''transient: the same action may succeed on retry''])
     else if category = Some ''TOOL_TIMEOUT'' then
       outcome Transient ''TOOL_TIMEOUT'' False True (''Tool timed out'' @ message) [''tool timeout: retryable once the tool is responsive'']
     else if code = Some NO_ROUTE \<or> mem category ENVIRONMENT_CORE then
       (let core = pick category ENVIRONMENT_CORE ''MODEL_UNAVAILABLE'';
            terminal = core \<in> set ENVIRONMENT_TERMINAL_CORE;
            retryable = \<not> terminal \<and> retry_flag in
        outcome Environment core (terminal \<or> \<not> retryable) retryable (''Environment unavailable ('' @ core @ '')'' @ message)
          [if terminal then ''environment: needs an operator, not a retry''
           else if retryable then ''environment: retry after backoff'' else ''environment: not retryable''])
     else if code = Some VERIFICATION_FAILED \<or> (error = None \<and> map_option gd_decision gate = Some GRepair) then
       (let core = pick category DETERMINISTIC_CORE ''ARTIFACT_CONTRACT_FAILED'';
            which = (if failedCriteria = [] then [] else ''; failing criteria: '' @ take 300 (join_with '' | '' failedCriteria)) in
        outcome Verification core False False (''Independent verification failed'' @ message @ which) [])
     else if code = Some EXECUTION_FAILED \<or> code = Some VALIDATION \<or> mem category DETERMINISTIC_CORE then
       (let core = pick category DETERMINISTIC_CORE ''CODE_FAILURE'' in
        outcome Deterministic core False False (''Deterministic execution failure ('' @ core @ '')'' @ message) [])
     else
       outcome UnknownFailure (case category of Some c \<Rightarrow> c | None \<Rightarrow> ''CODE_FAILURE'') False False
         (''Unclassified failure'' @ (case code of None \<Rightarrow> [] | Some c \<Rightarrow> '' ('' @ code_str c @ '')'') @ message)
         [''unclassified failure: treated as repairable within caps''])"

subsection \<open>Signatures\<close>

record SignatureDeps =
  sd_number :: "rat \<Rightarrow> string"
  sd_sha256 :: "string \<Rightarrow> string"
  sd_fromError :: "GoalStudioError option \<Rightarrow> string"

definition computeFailureSignature :: "SignatureDeps \<Rightarrow> TargetId \<Rightarrow> FailureClassification \<Rightarrow> GoalStudioError option \<Rightarrow> string" where
  "computeFailureSignature d targetId c error =
     (let parts = JObj (
            [(''target'', JStr targetId), (''class'', JStr (class_str (fc_failureClass c))), (''category'', JStr (fc_coreCategory c)),
             (''code'', JStr (case error of Some e \<Rightarrow> code_str (e_code e) | None \<Rightarrow> ''NONE''))] @
            (if fc_failedCriteria c \<noteq> [] then [(''criteria'', JArr (map JStr (fc_failedCriteria c)))]
             else [(''error'', JStr (sd_fromError d error))]))
      in ''fs1:'' @ class_str (fc_failureClass c) @ '':'' @ take 24 (sd_sha256 d (stringify (sd_number d) parts)))"

subsection \<open>Lemmas\<close>

lemma classify_policy:
  assumes "\<exists>e. error = Some e \<and> e_code e \<in> set POLICY_CODES"
  shows "fc_failureClass (classifyGoalFailure error gate) = Policy \<and> fc_terminal (classifyGoalFailure error gate)"
proof -
  obtain category fromProse where cat: "coreCategoryOf error = (category, fromProse)" by (cases "coreCategoryOf error")
  from assms have "case map_option e_code error of None \<Rightarrow> False | Some c \<Rightarrow> c \<in> set POLICY_CODES" by auto
  then show ?thesis unfolding classifyGoalFailure_def Let_def cat by simp
qed

text \<open>A policy failure is terminal, and it is never inferred from text.\<close>

lemma classify_policy_source:
  assumes "fc_failureClass (classifyGoalFailure error gate) = Policy"
  shows "fc_terminal (classifyGoalFailure error gate) \<and>
    (\<exists>e. error = Some e \<and> (e_code e \<in> set POLICY_CODES \<or> (\<exists>c \<in> set POLICY_CORE. dget (e_details e) ''failureClass'' = Some (JStr c))))"
proof -
  obtain category fromProse where cat: "coreCategoryOf error = (category, fromProse)" by (cases "coreCategoryOf error")
  have hit: "(case map_option e_code error of None \<Rightarrow> False | Some c \<Rightarrow> c \<in> set POLICY_CODES) \<or> (\<not> fromProse \<and> mem category POLICY_CORE)"
    using assms unfolding classifyGoalFailure_def Let_def cat by (simp split: if_splits)
  then have "fc_terminal (classifyGoalFailure error gate)" unfolding classifyGoalFailure_def Let_def cat by simp
  moreover have "dget (e_details e) ''failureClass'' = Some (JStr c)" if "\<not> fromProse" "category = Some c" "error = Some e" for c e
    using cat that by (auto simp: coreCategoryOf_def Let_def detail_def split: option.splits json.splits if_splits)
  moreover have "error \<noteq> None" if "\<not> fromProse" "category = Some c" for c
    using cat that by (auto simp: coreCategoryOf_def Let_def detail_def split: option.splits json.splits if_splits)
  ultimately show ?thesis using hit by (cases error; cases category) (auto simp: mem_def)
qed

end
