(* ===== verification/Recovery.thy ===== *)
theory Recovery
  imports Hypothesis
begin

text \<open>
  The recovery service: \<open>src/packages/goals/src/recovery/service.ts\<close>. After a failed attempt it decides
  whether the target is retried, repaired under a new hypothesis, or blocked.

  The stored graph revision, the optional hypothesis generator (which may throw: \<open>Inl\<close>), the resolver of
  limits, which is taken not to throw, and the hints of the core package are arguments. Times are ordered by their value, as their ISO texts are.
\<close>

subsection \<open>Limits\<close>

record RecoveryLimits =
  rl_maxRepairsPerTask :: nat
  rl_maxSameActionNoProgress :: nat
  rl_maxTransientRetries :: nat
  rl_backoffBaseMs :: nat
  rl_backoffMaxMs :: nat

definition DEFAULT_RECOVERY_LIMITS :: RecoveryLimits where
  "DEFAULT_RECOVERY_LIMITS = \<lparr>rl_maxRepairsPerTask = 3, rl_maxSameActionNoProgress = 2, rl_maxTransientRetries = 2,
     rl_backoffBaseMs = 2000, rl_backoffMaxMs = 60000\<rparr>"

record HardCaps =
  hc_maxRepairsPerTask :: nat
  hc_maxSameActionNoProgress :: nat
  hc_maxTransientRetries :: nat
  hc_maxAttemptsPerTarget :: nat
  hc_backoffMaxMs :: nat

definition RECOVERY_HARD_CAPS :: HardCaps where
  "RECOVERY_HARD_CAPS = \<lparr>hc_maxRepairsPerTask = 10, hc_maxSameActionNoProgress = 10, hc_maxTransientRetries = 5,
     hc_maxAttemptsPerTarget = 30, hc_backoffMaxMs = 15 * 60000\<rparr>"

text \<open>A source of limits sets some of them, to any number.\<close>

record RecoveryLimitSource =
  src_maxRepairsPerTask :: "number option"
  src_maxSameActionNoProgress :: "number option"
  src_maxTransientRetries :: "number option"
  src_backoffBaseMs :: "number option"
  src_backoffMaxMs :: "number option"

definition clampInt :: "number option \<Rightarrow> nat \<Rightarrow> nat \<Rightarrow> nat \<Rightarrow> nat" where
  "clampInt v fallback lo hi = (case v of Some (Fin q) \<Rightarrow> min hi (max lo (nat \<lfloor>q\<rfloor>)) | _ \<Rightarrow> fallback)"

definition later :: "'a option \<Rightarrow> 'a option \<Rightarrow> 'a option" where
  "later a b = (case b of None \<Rightarrow> a | Some x \<Rightarrow> Some x)"

definition merge_source :: "RecoveryLimitSource \<Rightarrow> RecoveryLimitSource option \<Rightarrow> RecoveryLimitSource" where
  "merge_source m source = (case source of None \<Rightarrow> m | Some s \<Rightarrow>
     \<lparr>src_maxRepairsPerTask = later (src_maxRepairsPerTask m) (src_maxRepairsPerTask s),
      src_maxSameActionNoProgress = later (src_maxSameActionNoProgress m) (src_maxSameActionNoProgress s),
      src_maxTransientRetries = later (src_maxTransientRetries m) (src_maxTransientRetries s),
      src_backoffBaseMs = later (src_backoffBaseMs m) (src_backoffBaseMs s),
      src_backoffMaxMs = later (src_backoffMaxMs m) (src_backoffMaxMs s)\<rparr>)"

definition no_source :: RecoveryLimitSource where
  "no_source = \<lparr>src_maxRepairsPerTask = None, src_maxSameActionNoProgress = None, src_maxTransientRetries = None,
     src_backoffBaseMs = None, src_backoffMaxMs = None\<rparr>"

definition resolveRecoveryLimits :: "RecoveryLimitSource option list \<Rightarrow> RecoveryLimits" where
  "resolveRecoveryLimits sources =
     (let m = foldl merge_source no_source sources; d = DEFAULT_RECOVERY_LIMITS; caps = RECOVERY_HARD_CAPS;
          backoffMax = clampInt (src_backoffMaxMs m) (rl_backoffMaxMs d) 0 (hc_backoffMaxMs caps) in
      \<lparr>rl_maxRepairsPerTask = clampInt (src_maxRepairsPerTask m) (rl_maxRepairsPerTask d) 0 (hc_maxRepairsPerTask caps),
       rl_maxSameActionNoProgress = clampInt (src_maxSameActionNoProgress m) (rl_maxSameActionNoProgress d) 2 (hc_maxSameActionNoProgress caps),
       rl_maxTransientRetries = clampInt (src_maxTransientRetries m) (rl_maxTransientRetries d) 0 (hc_maxTransientRetries caps),
       rl_backoffBaseMs = clampInt (src_backoffBaseMs m) (rl_backoffBaseMs d) 0 backoffMax,
       rl_backoffMaxMs = backoffMax\<rparr>)"

definition maxAttemptsFor :: "RecoveryLimits \<Rightarrow> nat" where
  "maxAttemptsFor l = min (hc_maxAttemptsPerTarget RECOVERY_HARD_CAPS) ((rl_maxRepairsPerTask l + 1) * (rl_maxTransientRetries l + 1))"

definition backoffMs :: "nat \<Rightarrow> RecoveryLimits \<Rightarrow> number option \<Rightarrow> rat" where
  "backoffMs retryNumber l retryAfterMs =
     (let exp = of_nat (rl_backoffBaseMs l * 2 ^ (min (retryNumber - 1) 20));
          hinted = (case retryAfterMs of Some (Fin q) \<Rightarrow> if q > 0 then q else 0 | _ \<Rightarrow> 0)
      in min (of_nat (rl_backoffMaxMs l)) (max exp hinted))"

subsection \<open>Observations\<close>

record RecoveryDeps =
  rc_signature :: SignatureDeps
  rc_localeCompare :: "string \<Rightarrow> string \<Rightarrow> rat"
  rc_generator :: "(string \<times> (RepairHypothesisRequest \<Rightarrow> string + json list)) option"
  rc_limits :: "RecoveryLimitSource option"
  rc_storedRevision :: "(GraphId \<Rightarrow> GraphRevision \<Rightarrow> GoalGraphRevisionRecord option) option"
  rc_resolveLimits :: "(GoalRunLedger \<Rightarrow> RecoveryLimitSource option) option"

record ObservedFailure =
  of_attempt :: TargetAttempt
  of_classification :: FailureClassification
  of_signature :: string

type_synonym hints = "ObservedFailure list \<Rightarrow> string list \<Rightarrow> string list"

definition observe :: "RecoveryDeps \<Rightarrow> TargetId \<Rightarrow> TargetAttempt \<Rightarrow> GoalStudioError option \<Rightarrow> AcceptanceGateDecision option \<Rightarrow> ObservedFailure" where
  "observe d targetId attempt error gate =
     (let c = classifyGoalFailure error gate in
      \<lparr>of_attempt = attempt, of_classification = c, of_signature = computeFailureSignature (rc_signature d) targetId c error\<rparr>)"

definition isFailedAttempt :: "TargetAttempt \<Rightarrow> bool" where
  "isFailedAttempt a \<longleftrightarrow> at_outcome a = Some OFailed \<or> at_outcome a = Some OBlocked \<or> (at_error a \<noteq> None \<and> at_outcome a \<noteq> Some OSucceeded)"

definition add_hypothesis :: "string list \<Rightarrow> string option \<Rightarrow> string list" where
  "add_hypothesis out v =
     (let clean = (case v of None \<Rightarrow> [] | Some s \<Rightarrow> sanitizeHypothesis (JStr s)) in
      if clean \<noteq> [] \<and> \<not> list_ex (isDuplicateHypothesis clean) out then out @ [clean] else out)"

definition uniqueHypotheses :: "string option list \<Rightarrow> string list" where
  "uniqueHypotheses vs = foldl add_hypothesis [] vs"

definition attemptErrorFromGate :: "AcceptanceGateDecision \<Rightarrow> GoalStudioError" where
  "attemptErrorFromGate gate =
     (let failedCriteria = by_code_unit (uniq (map (\<lambda>row. trim (cv_criterion row)) (filter (\<lambda>row. cv_verdict row \<noteq> PASS) (gd_perCriterion gate)))) in
      \<lparr>e_code = VERIFICATION_FAILED, e_message = ''Acceptance gate decided '' @ gate_str (gd_decision gate), e_retryable = False,
       e_details = [(''failedCriteria'', JArr (map JStr failedCriteria)), (''gateReasons'', JArr (map JStr (take 10 (gd_reasons gate))))]\<rparr>)"

definition recoveryBlocker :: "RecoveryDecision \<Rightarrow> string" where
  "recoveryBlocker r = take 500 (''recovery:'' @ class_str (rd_failureClass r) @ '':'' @ rd_failureSignature r @ '' '' @ rd_diagnosis r)"

definition recoveryBlockError :: "RecoveryDecision \<Rightarrow> GoalStudioError" where
  "recoveryBlockError r =
     \<lparr>e_code = (if rd_failureClass r = Policy then POLICY_DENIED else if rd_failureClass r = NoProgress then NO_PROGRESS else RETRY_EXHAUSTED),
      e_message = take 500 (rd_diagnosis r), e_retryable = False,
      e_details = [(''failureSignature'', JStr (rd_failureSignature r)), (''reasons'', JArr (map JStr (rd_reasons r)))]\<rparr>"

fun action_str :: "RecoveryAction \<Rightarrow> string" where
  "action_str Retry = ''retry''"
| "action_str Repair = ''repair''"
| "action_str Block = ''block''"

definition recoveryEventData :: "RecoveryDecision \<Rightarrow> (string \<times> json) list" where
  "recoveryEventData r =
     [(''action'', JStr (action_str (rd_action r))), (''failureClass'', JStr (class_str (rd_failureClass r))),
      (''failureSignature'', JStr (rd_failureSignature r)), (''diagnosis'', JStr (rd_diagnosis r))] @
     (case rd_hypothesis r of None \<Rightarrow> [] | Some h \<Rightarrow> [(''hypothesis'', JStr h)]) @ [(''reasons'', JArr (map JStr (rd_reasons r)))]"

definition limitsFromStore :: "RecoveryDeps \<Rightarrow> GoalRunLedger \<Rightarrow> RecoveryLimitSource option" where
  "limitsFromStore d run =
     (case rc_storedRevision d of None \<Rightarrow> None
      | Some get \<Rightarrow> (case get (r_graphId run) (r_graphRevision run) of None \<Rightarrow> None
        | Some rec \<Rightarrow>
            if gr_digest rec \<noteq> [] \<and> r_graphDigest run \<noteq> [] \<and> gr_digest rec \<noteq> r_graphDigest run then None
            else (let limits = con_resourceLimits (g_constitution (gr_definition rec)) in
              Some (no_source\<lparr>src_maxRepairsPerTask := Some (Fin (of_nat (maxRepairsPerTask limits))),
                src_maxSameActionNoProgress := Some (Fin (of_nat (maxSameActionNoProgress limits)))\<rparr>))))"

subsection \<open>Proposals\<close>

definition rejected_reason :: "nat \<Rightarrow> string list" where
  "rejected_reason n = tag (n > 0) (''rejected '' @ show_nat n @ '' non-novel hypothesis candidate(s)'')"

text \<open>One generator's candidates in turn: the first that is clean, safe and new, or the counts so far\<close>

fun scan_candidates :: "string \<Rightarrow> bool \<Rightarrow> string list \<Rightarrow> json list \<Rightarrow> nat \<times> string list \<Rightarrow> (string \<times> string list) + (nat \<times> string list)" where
  "scan_candidates gid trusted priors [] acc = Inr acc"
| "scan_candidates gid trusted priors (raw # rest) (rejected, reasons) =
     (let candidate = sanitizeHypothesis raw in
      if candidate = [] then scan_candidates gid trusted priors rest (rejected, reasons)
      else if \<not> trusted \<and> isUnsafeHypothesis candidate then
        scan_candidates gid trusted priors rest (rejected, reasons @ [''rejected unsafe proposal from '' @ gid])
      else if list_ex (isDuplicateHypothesis candidate) priors then
        scan_candidates gid trusted priors rest (rejected + 1, reasons)
      else Inl (candidate, reasons @ rejected_reason rejected @ [''hypothesis from '' @ gid]))"

fun try_generators :: "(string \<times> (string + json list) \<times> bool) list \<Rightarrow> string list \<Rightarrow> nat \<times> string list \<Rightarrow> string option \<times> string list" where
  "try_generators [] priors (rejected, reasons) = (None, reasons @ rejected_reason rejected)"
| "try_generators ((gid, proposed, trusted) # rest) priors (rejected, reasons) =
     (case proposed of
        Inl msg \<Rightarrow> try_generators rest priors (rejected, reasons @ [''hypothesis generator '' @ gid @ '' failed ('' @ take 120 msg @ ''); falling back''])
      | Inr candidates \<Rightarrow>
          (case scan_candidates gid trusted priors (take 32 candidates) (rejected, reasons) of
             Inl (h, rs) \<Rightarrow> (Some h, rs)
           | Inr acc \<Rightarrow> try_generators rest priors acc))"

definition proposeHypothesis :: "RecoveryDeps \<Rightarrow> RepairHypothesisRequest \<Rightarrow> string list \<Rightarrow> string option \<times> string list" where
  "proposeHypothesis d request reasons =
     try_generators
       ((case rc_generator d of None \<Rightarrow> [] | Some (gid, propose) \<Rightarrow> [(gid, propose request, False)]) @
        [(''rule-based-v1'', Inr (map JStr (rule_based_propose request)), True)])
       (hr_priorHypotheses request) (0, reasons)"

subsection \<open>Deciding\<close>

definition attempt_order :: "RecoveryDeps \<Rightarrow> TargetAttempt \<Rightarrow> TargetAttempt \<Rightarrow> rat" where
  "attempt_order d a b =
     (if at_attempt a \<noteq> at_attempt b then of_nat (at_attempt a) - of_nat (at_attempt b)
      else if at_startedAt a \<noteq> at_startedAt b then of_int (at_startedAt a - at_startedAt b)
      else rc_localeCompare d (at_id a) (at_id b))"

definition prior_failures :: "RecoveryDeps \<Rightarrow> GoalTarget \<Rightarrow> TargetAttempt \<Rightarrow> TargetAttempt list \<Rightarrow> ObservedFailure list" where
  "prior_failures d target attempt priors =
     map (\<lambda>a. observe d (t_id target) a (at_error a) None)
       (sort_by (attempt_order d) (filter (\<lambda>a. at_targetId a = t_id target \<and> at_id a \<noteq> at_id attempt \<and> isFailedAttempt a) priors))"

definition retryable_failure_observed :: "ObservedFailure \<Rightarrow> bool" where
  "retryable_failure_observed o1 = fc_retryable (of_classification o1)"

definition retry_streak :: "ObservedFailure list \<Rightarrow> nat" where
  "retry_streak prior = 1 + length (takeWhile retryable_failure_observed (rev prior))"

definition recovery_limits :: "RecoveryDeps \<Rightarrow> GoalRunLedger \<Rightarrow> RecoveryLimits" where
  "recovery_limits d run =
     resolveRecoveryLimits [rc_limits d, limitsFromStore d run, (case rc_resolveLimits d of None \<Rightarrow> None | Some f \<Rightarrow> f run)]"

definition retry_after :: "GoalStudioError \<Rightarrow> number option" where
  "retry_after e = (case dget (e_details e) ''retryAfterMs'' of Some (JNum q) \<Rightarrow> Some (Fin q) | Some JNonFinite \<Rightarrow> Some NaN | _ \<Rightarrow> None)"

definition no_failure :: "AcceptanceGateDecision option \<Rightarrow> bool" where
  "no_failure gate \<longleftrightarrow> (case gate of None \<Rightarrow> True | Some g \<Rightarrow> gd_decision g \<in> {GCompleted, GNeedsApproval, GAwaitingExternal})"

definition decided :: "ObservedFailure \<Rightarrow> RecoveryAction \<Rightarrow> FailureClass \<Rightarrow> string \<Rightarrow> string option \<Rightarrow> string list \<Rightarrow> RecoveryDecision" where
  "decided cur action cls diagnosis hypothesis reasons =
     \<lparr>rd_action = action, rd_failureClass = cls, rd_diagnosis = diagnosis, rd_hypothesis = hypothesis,
      rd_failureSignature = of_signature cur, rd_reasons = reasons\<rparr>"

definition repair_request ::
    "hints \<Rightarrow> GoalRunLedger \<Rightarrow> GoalTarget \<Rightarrow> TargetAttempt \<Rightarrow> ObservedFailure list \<Rightarrow> ObservedFailure \<Rightarrow> string list \<Rightarrow> nat \<Rightarrow> RepairHypothesisRequest" where
  "repair_request hints run target attempt prior cur priorHypotheses repairsUsed =
     (let c = of_classification cur in
      \<lparr>hr_run = run, hr_target = target, hr_attempt = attempt, hr_failureClass = fc_failureClass c, hr_coreCategory = fc_coreCategory c,
       hr_diagnosis = fc_diagnosis c, hr_failureSignature = of_signature cur, hr_failedCriteria = fc_failedCriteria c,
       hr_priorHypotheses = priorHypotheses, hr_repairNumber = repairsUsed + 1,
       hr_hints = hints (filter (\<lambda>p. \<not> retryable_failure_observed p) (prior @ [cur])) (map (\<lambda>cr. ''failing: '' @ cr) (fc_failedCriteria c))\<rparr>)"

text \<open>A repair under a new hypothesis, or a block when no generator has one\<close>

definition plan_repair :: "RecoveryDeps \<Rightarrow> RepairHypothesisRequest \<Rightarrow> ObservedFailure \<Rightarrow> nat \<Rightarrow> RecoveryDecision" where
  "plan_repair d request cur maxRepairs =
     (let c = of_classification cur in
      case proposeHypothesis d request (fc_reasons c) of
        (None, rs) \<Rightarrow> decided cur Block (fc_failureClass c) (''No novel repair hypothesis: '' @ fc_diagnosis c) None (rs @ [''blocked: no novel repair hypothesis''])
      | (Some h, rs) \<Rightarrow> decided cur Repair (fc_failureClass c) (fc_diagnosis c) (Some h)
          (rs @ [''repair '' @ show_nat (hr_repairNumber request) @ ''/'' @ show_nat maxRepairs] @ map (\<lambda>h. ''hint: '' @ h) (take 3 (hr_hints request))))"

text \<open>The decision once the failures are observed\<close>

definition decide_observed ::
    "RecoveryDeps \<Rightarrow> hints \<Rightarrow> (rat \<Rightarrow> string) \<Rightarrow> GoalRunLedger \<Rightarrow> GoalTarget \<Rightarrow> TargetAttempt \<Rightarrow> GoalStudioError \<Rightarrow> ObservedFailure list \<Rightarrow> ObservedFailure \<Rightarrow> RecoveryDecision" where
  "decide_observed d hints num run target attempt error prior cur =
     (let c = of_classification cur;
          limits = recovery_limits d run;
          reasons = fc_reasons c;
          entry = dget (r_targets run) (t_id target);
          block = (\<lambda>cls prefix why. decided cur Block cls (prefix @ fc_diagnosis c) None (reasons @ [why]));
          failedSoFar = length prior + 1;
          attemptCap = maxAttemptsFor limits;
          ledgerAttempts = (case entry of None \<Rightarrow> 0 | Some e \<Rightarrow> le_attempts e);
          streak = retry_streak prior;
          occurrences = 1 + length (filter (\<lambda>p. \<not> retryable_failure_observed p \<and> of_signature p = of_signature cur) prior);
          priorHypotheses = uniqueHypotheses (map (\<lambda>p. at_repairHypothesis (of_attempt p)) prior @ [at_repairHypothesis attempt]);
          repairsUsed = max (case entry of None \<Rightarrow> 0 | Some e \<Rightarrow> le_repairs e) (length priorHypotheses)
      in
      if fc_terminal c then block (fc_failureClass c) [] ''blocked: terminal failure class''
      else if failedSoFar \<ge> attemptCap \<or> ledgerAttempts \<ge> attemptCap then
        block (fc_failureClass c) ''Attempt cap reached: ''
          (''blocked: attempt cap '' @ show_nat attemptCap @ '' reached (failed attempts '' @ show_nat failedSoFar @ '', ledger attempts '' @ show_nat ledgerAttempts @ '')'')
      else if fc_retryable c then
        (if streak > rl_maxTransientRetries limits then
           block (fc_failureClass c) ''Transient retries exhausted: ''
             (''blocked: '' @ show_nat (streak - 1) @ '' consecutive transient retries exhausted (limit '' @ show_nat (rl_maxTransientRetries limits) @ '')'')
         else decided cur Retry (fc_failureClass c) (fc_diagnosis c) None
           (reasons @ [''retry '' @ show_nat streak @ ''/'' @ show_nat (rl_maxTransientRetries limits),
              ''backoff_ms='' @ num (backoffMs streak limits (retry_after error))]))
      else if occurrences \<ge> rl_maxSameActionNoProgress limits then
        block NoProgress ''No progress: ''
          (''blocked: failure signature observed '' @ show_nat occurrences @ '' times with no progress (limit '' @ show_nat (rl_maxSameActionNoProgress limits) @ '')'')
      else if repairsUsed \<ge> rl_maxRepairsPerTask limits then
        block (fc_failureClass c) ''Repair budget exhausted: ''
          (''blocked: repair budget exhausted ('' @ show_nat repairsUsed @ ''/'' @ show_nat (rl_maxRepairsPerTask limits) @ '')'')
      else
        plan_repair d (repair_request hints run target attempt prior cur priorHypotheses repairsUsed) cur (rl_maxRepairsPerTask limits))"

definition decide ::
    "RecoveryDeps \<Rightarrow> hints \<Rightarrow> (rat \<Rightarrow> string) \<Rightarrow> GoalRunLedger \<Rightarrow> GoalTarget \<Rightarrow> TargetAttempt \<Rightarrow> TargetAttempt list \<Rightarrow> AcceptanceGateDecision option \<Rightarrow> GoalStudioError option \<Rightarrow> RecoveryDecision result" where
  "decide d hints num run target attempt priorAttempts gate err =
     (let explicitError = (case err of Some e \<Rightarrow> Some e | None \<Rightarrow> at_error attempt) in
      if at_targetId attempt \<noteq> t_id target then Inl (failure VALIDATION)
      else if explicitError = None \<and> no_failure gate then Inl (failure VALIDATION)
      else
        (let error = (case explicitError of Some e \<Rightarrow> e | None \<Rightarrow> attemptErrorFromGate (the gate));
             prior = prior_failures d target attempt priorAttempts;
             cur = observe d (t_id target) attempt (Some error) gate
         in Inr (decide_observed d hints num run target attempt error prior cur)))"

subsection \<open>Lemmas\<close>

lemma clampInt_bounds: "lo \<le> hi \<Longrightarrow> lo \<le> fallback \<Longrightarrow> fallback \<le> hi \<Longrightarrow> lo \<le> clampInt v fallback lo hi \<and> clampInt v fallback lo hi \<le> hi"
  by (auto simp: clampInt_def split: option.split number.split)

lemma clampInt_upper: "clampInt v fallback lo hi \<le> max fallback hi"
  by (auto simp: clampInt_def split: option.split number.split)

text \<open>The limits in force lie between the documented bounds.\<close>

lemma resolved_limits:
  "rl_maxRepairsPerTask (resolveRecoveryLimits ss) \<le> 10"
  "2 \<le> rl_maxSameActionNoProgress (resolveRecoveryLimits ss)" "rl_maxSameActionNoProgress (resolveRecoveryLimits ss) \<le> 10"
  "rl_maxTransientRetries (resolveRecoveryLimits ss) \<le> 5"
  "rl_backoffMaxMs (resolveRecoveryLimits ss) \<le> 900000"
  using clampInt_bounds [of 0 10 3] clampInt_bounds [of 2 10 2] clampInt_bounds [of 0 5 2] clampInt_bounds [of 0 900000 60000]
  by (simp_all add: resolveRecoveryLimits_def Let_def DEFAULT_RECOVERY_LIMITS_def RECOVERY_HARD_CAPS_def)

lemma maxAttemptsFor_le: "maxAttemptsFor l \<le> 30"
  by (simp add: maxAttemptsFor_def RECOVERY_HARD_CAPS_def)

lemma plan_repair_simps:
  "proposeHypothesis d request (fc_reasons (of_classification cur)) = (None, rs) \<Longrightarrow> rd_action (plan_repair d request cur n) = Block"
  "proposeHypothesis d request (fc_reasons (of_classification cur)) = (Some h, rs) \<Longrightarrow> rd_action (plan_repair d request cur n) = Repair"
  "proposeHypothesis d request (fc_reasons (of_classification cur)) = (Some h, rs) \<Longrightarrow> rd_hypothesis (plan_repair d request cur n) = Some h"
  "rd_failureClass (plan_repair d request cur n) = fc_failureClass (of_classification cur)"
  by (simp_all add: plan_repair_def decided_def Let_def split: prod.split option.split)

lemma plan_repair_not_retry: "rd_action (plan_repair d request cur n) \<noteq> Retry"
proof -
  obtain h rs where p: "proposeHypothesis d request (fc_reasons (of_classification cur)) = (h, rs)" by (cases "proposeHypothesis d request (fc_reasons (of_classification cur))")
  show ?thesis using plan_repair_simps(1,2) p by (cases h) auto
qed

lemma plan_repair_found:
  assumes "rd_action (plan_repair d request cur n) = Repair"
  shows "\<exists>h rs. proposeHypothesis d request (fc_reasons (of_classification cur)) = (Some h, rs) \<and> rd_hypothesis (plan_repair d request cur n) = Some h"
proof -
  obtain h rs where p: "proposeHypothesis d request (fc_reasons (of_classification cur)) = (h, rs)" by (cases "proposeHypothesis d request (fc_reasons (of_classification cur))")
  show ?thesis using plan_repair_simps p assms by (cases h) auto
qed

text \<open>What a decision to go on requires\<close>

lemma decide_observed_going_on:
  assumes "rd_action (decide_observed d hints num run target attempt error prior cur) \<noteq> Block"
  shows "\<not> fc_terminal (of_classification cur)" and "length prior + 1 < maxAttemptsFor (recovery_limits d run)"
  using assms unfolding decide_observed_def Let_def decided_def by (auto split: if_splits)

lemma decide_observed_retry:
  assumes "rd_action (decide_observed d hints num run target attempt error prior cur) = Retry"
  shows "fc_retryable (of_classification cur)" and "retry_streak prior \<le> rl_maxTransientRetries (recovery_limits d run)"
  using assms unfolding decide_observed_def Let_def by (auto simp: decided_def plan_repair_not_retry split: if_splits)

lemma scan_candidates_found:
  "scan_candidates gid trusted priors cs acc = Inl (h, rs) \<Longrightarrow>
     h \<noteq> [] \<and> (\<exists>raw \<in> set cs. h = sanitizeHypothesis raw) \<and> (\<forall>p \<in> set priors. \<not> isDuplicateHypothesis h p) \<and> (trusted \<or> \<not> isUnsafeHypothesis h)"
proof (induction gid trusted priors cs acc rule: scan_candidates.induct)
  case (2 gid trusted priors raw rest rejected reasons)
  then show ?case by (auto simp: Let_def list_ex_iff split: if_splits)
qed simp

text \<open>What the generators can have found\<close>

lemma try_generators_found:
  "try_generators gs priors acc = (Some h, rs) \<Longrightarrow>
     h \<noteq> [] \<and> length h \<le> HYPOTHESIS_MAX_CHARS \<and> (\<forall>p \<in> set priors. \<not> isDuplicateHypothesis h p) \<and>
     (\<exists>gid cs trusted. (gid, Inr cs, trusted) \<in> set gs \<and> (\<exists>raw \<in> set cs. h = sanitizeHypothesis raw) \<and> (trusted \<or> \<not> isUnsafeHypothesis h))"
proof (induction gs priors acc rule: try_generators.induct)
  case (2 gid proposed trusted rest priors rejected reasons)
  show ?case
  proof (cases proposed)
    case (Inl msg)
    with "2.prems" have "try_generators rest priors (rejected, reasons @ [''hypothesis generator '' @ gid @ '' failed ('' @ take 120 msg @ ''); falling back'']) = (Some h, rs)"
      by simp
    from "2.IH"(1) [OF Inl this] show ?thesis by (metis list.set_intros(2))
  next
    case (Inr cs)
    show ?thesis
    proof (cases "scan_candidates gid trusted priors (take 32 cs) (rejected, reasons)")
      case (Inl hr)
      obtain h' rs' where hr: "hr = (h', rs')" by (cases hr)
      with Inl "2.prems" \<open>proposed = Inr cs\<close> have h: "h' = h" by simp
      from scan_candidates_found [OF Inl [unfolded hr h]] have f: "h \<noteq> []" "\<exists>raw \<in> set (take 32 cs). h = sanitizeHypothesis raw"
        "\<forall>p \<in> set priors. \<not> isDuplicateHypothesis h p" "trusted \<or> \<not> isUnsafeHypothesis h" by simp_all
      then have "\<exists>raw \<in> set cs. h = sanitizeHypothesis raw" by (meson in_set_takeD)
      moreover have "length h \<le> HYPOTHESIS_MAX_CHARS" using f(2) sanitizeHypothesis_length by blast
      ultimately show ?thesis using f Inr by (metis list.set_intros(1))
    next
      case (Inr acc')
      with "2.prems" \<open>proposed = Inr cs\<close> have "try_generators rest priors acc' = (Some h, rs)" by simp
      from "2.IH"(2) [OF \<open>proposed = Inr cs\<close> Inr this] show ?thesis by (metis list.set_intros(2))
    qed
  qed
qed simp

lemma decide_observed_repair:
  assumes "rd_action (decide_observed d hints num run target attempt error prior cur) = Repair"
  shows "length (uniqueHypotheses (map (\<lambda>p. at_repairHypothesis (of_attempt p)) prior @ [at_repairHypothesis attempt])) < rl_maxRepairsPerTask (recovery_limits d run)"
    and "\<exists>used. decide_observed d hints num run target attempt error prior cur =
      plan_repair d (repair_request hints run target attempt prior cur
        (uniqueHypotheses (map (\<lambda>p. at_repairHypothesis (of_attempt p)) prior @ [at_repairHypothesis attempt])) used) cur (rl_maxRepairsPerTask (recovery_limits d run))"
  using assms unfolding decide_observed_def Let_def by (auto simp: decided_def split: if_splits option.splits)

text \<open>A repair names a hypothesis that is new, clean and, from an untrusted generator, safe.\<close>

lemma repair_hypothesis:
  assumes "rd_action (decide_observed d hints num run target attempt error prior cur) = Repair"
  shows "\<exists>h. rd_hypothesis (decide_observed d hints num run target attempt error prior cur) = Some h \<and> h \<noteq> [] \<and> length h \<le> HYPOTHESIS_MAX_CHARS \<and>
    (\<forall>p \<in> set (uniqueHypotheses (map (\<lambda>p. at_repairHypothesis (of_attempt p)) prior @ [at_repairHypothesis attempt])). \<not> isDuplicateHypothesis h p) \<and>
    ((\<exists>request. h \<in> (\<lambda>s. sanitizeHypothesis (JStr s)) ` set (rule_based_propose request)) \<or> \<not> isUnsafeHypothesis h)"
proof -
  let ?ps = "uniqueHypotheses (map (\<lambda>p. at_repairHypothesis (of_attempt p)) prior @ [at_repairHypothesis attempt])"
  obtain used where plan: "decide_observed d hints num run target attempt error prior cur =
      plan_repair d (repair_request hints run target attempt prior cur ?ps used) cur (rl_maxRepairsPerTask (recovery_limits d run))"
    using decide_observed_repair(2) [OF assms] by blast
  let ?req = "repair_request hints run target attempt prior cur ?ps used"
  obtain h rs where h: "proposeHypothesis d ?req (fc_reasons (of_classification cur)) = (Some h, rs)"
    "rd_hypothesis (decide_observed d hints num run target attempt error prior cur) = Some h"
    using plan_repair_found assms unfolding plan by blast
  have priors: "hr_priorHypotheses ?req = ?ps" by (simp add: repair_request_def Let_def)
  from try_generators_found [OF h(1) [unfolded proposeHypothesis_def priors]]
  obtain gid cs trusted where found: "h \<noteq> []" "length h \<le> HYPOTHESIS_MAX_CHARS" "\<forall>p \<in> set ?ps. \<not> isDuplicateHypothesis h p"
    "(gid, Inr cs, trusted) \<in> set ((case rc_generator d of None \<Rightarrow> [] | Some (gid, propose) \<Rightarrow> [(gid, propose ?req, False)]) @
      [(''rule-based-v1'', Inr (map JStr (rule_based_propose ?req)), True)])"
    "\<exists>raw \<in> set cs. h = sanitizeHypothesis raw" "trusted \<or> \<not> isUnsafeHypothesis h" by blast
  from found(4) have "cs = map JStr (rule_based_propose ?req) \<or> \<not> trusted" by (auto split: option.splits prod.splits)
  with found(5,6) have "(\<exists>request. h \<in> (\<lambda>s. sanitizeHypothesis (JStr s)) ` set (rule_based_propose request)) \<or> \<not> isUnsafeHypothesis h" by force
  with found h(2) show ?thesis by blast
qed

text \<open>An error that carries a policy denial: by its code or by the class in its details, never by its text\<close>

definition policy_error :: "GoalStudioError \<Rightarrow> bool" where
  "policy_error e \<longleftrightarrow> e_code e \<in> set POLICY_CODES \<or> (\<exists>c \<in> set POLICY_CORE. dget (e_details e) ''failureClass'' = Some (JStr c))"

lemma classify_policy_iff: "fc_failureClass (classifyGoalFailure (Some e) gate) = Policy \<longleftrightarrow> policy_error e"
proof
  assume "policy_error e"
  have core: "set POLICY_CORE \<subseteq> set FAILURE_CLASSES" by (simp add: POLICY_CORE_def FAILURE_CLASSES_def)
  have "coreCategoryOf (Some e) = (Some c, False)" if "dget (e_details e) ''failureClass'' = Some (JStr c)" "c \<in> set POLICY_CORE" for c
    using that core by (auto simp: coreCategoryOf_def detail_def isFailureClass_def)
  with \<open>policy_error e\<close> have "e_code e \<in> set POLICY_CODES \<or> (\<exists>c \<in> set POLICY_CORE. coreCategoryOf (Some e) = (Some c, False))"
    by (auto simp: policy_error_def)
  then show "fc_failureClass (classifyGoalFailure (Some e) gate) = Policy"
  proof
    assume "e_code e \<in> set POLICY_CODES"
    then show ?thesis using classify_policy [of "Some e"] by blast
  next
    assume "\<exists>c \<in> set POLICY_CORE. coreCategoryOf (Some e) = (Some c, False)"
    then obtain c where "c \<in> set POLICY_CORE" "coreCategoryOf (Some e) = (Some c, False)" by blast
    then show ?thesis unfolding classifyGoalFailure_def Let_def by (simp add: mem_def)
  qed
qed (use classify_policy_source [of "Some e" gate] in \<open>auto simp: policy_error_def\<close>)

lemma decided_class:
  "rd_failureClass (decide_observed d hints num run target attempt error prior cur) \<in> {fc_failureClass (of_classification cur), NoProgress}"
proof -
  show ?thesis unfolding decide_observed_def Let_def by (simp add: decided_def plan_repair_simps(4))
qed

lemma terminal_blocks: "fc_terminal (of_classification cur) \<Longrightarrow>
   rd_action (decide_observed d hints num run target attempt error prior cur) = Block \<and>
   rd_failureClass (decide_observed d hints num run target attempt error prior cur) = fc_failureClass (of_classification cur)"
  unfolding decide_observed_def Let_def by (simp add: decided_def)

lemma decide_Inr:
  assumes "decide d hints num run target attempt priors gate err = Inr dec"
  obtains error where "dec = decide_observed d hints num run target attempt error (prior_failures d target attempt priors) (observe d (t_id target) attempt (Some error) gate)"
    and "(case err of Some e \<Rightarrow> Some e | None \<Rightarrow> at_error attempt) = Some error \<or>
      (err = None \<and> at_error attempt = None \<and> (\<exists>g. gate = Some g \<and> error = attemptErrorFromGate g))"
  using assms unfolding decide_def Let_def no_failure_def by (auto split: if_splits option.splits)

lemma prior_failures_length:
  "length (prior_failures d target attempt priors) =
     length (filter (\<lambda>a. at_targetId a = t_id target \<and> at_id a \<noteq> at_id attempt \<and> isFailedAttempt a) priors)"
  by (simp add: prior_failures_def)

subsection \<open>Properties\<close>

text \<open>
  C32. Recovery terminates: whatever the limits, the errors, the generators and the ledger say, a target
  whose failed attempts are all answered by a retry or a repair has failed fewer than 30 times. So the
  thirtieth failure at the latest is answered by a block.
\<close>
theorem recovery_terminates:
  assumes "distinct (map at_id failures)"
    and "\<forall>a \<in> set failures. at_targetId a = t_id target \<and> isFailedAttempt a"
    and "\<forall>k < length failures. \<exists>run gate err dec. decide d hints num run target (failures ! k) (take k failures) gate err = Inr dec \<and> rd_action dec \<noteq> Block"
  shows "length failures < 30"
proof (cases "failures = []")
  case False
  let ?k = "length failures - 1"
  have k: "?k < length failures" using False by simp
  then obtain run gate err dec where dec: "decide d hints num run target (failures ! ?k) (take ?k failures) gate err = Inr dec" "rd_action dec \<noteq> Block"
    using assms(3) by blast
  obtain error where eq: "dec = decide_observed d hints num run target (failures ! ?k) error (prior_failures d target (failures ! ?k) (take ?k failures))
      (observe d (t_id target) (failures ! ?k) (Some error) gate)" using decide_Inr [OF dec(1)] by blast
  have "at_id a \<noteq> at_id (failures ! ?k)" if "a \<in> set (take ?k failures)" for a
  proof -
    from that obtain j where "j < ?k" "a = failures ! j" by (auto simp: in_set_conv_nth)
    with assms(1) k show ?thesis by (simp add: distinct_conv_nth)
  qed
  then have "filter (\<lambda>a. at_targetId a = t_id target \<and> at_id a \<noteq> at_id (failures ! ?k) \<and> isFailedAttempt a) (take ?k failures) = take ?k failures"
    using assms(2) by (intro filter_True) (meson in_set_takeD)
  then have "length (prior_failures d target (failures ! ?k) (take ?k failures)) = ?k" unfolding prior_failures_length by simp
  with decide_observed_going_on(2) [OF dec(2) [unfolded eq]] maxAttemptsFor_le [of "recovery_limits d run"] show ?thesis by simp
qed simp

text \<open>
  C36. A repair is always a new idea: its hypothesis is not empty, at most 600 characters, neither equal to
  nor a rewording of any hypothesis tried before, and screened for unsafe proposals unless the
  deterministic generator made it; and fewer repairs have been tried than the limit, which is at most 10.
\<close>
theorem repairs_are_novel_and_bounded:
  assumes "decide d hints num run target attempt priors gate err = Inr dec" and "rd_action dec = Repair"
  shows "\<exists>h tried. rd_hypothesis dec = Some h \<and> h \<noteq> [] \<and> length h \<le> 600 \<and>
    tried = uniqueHypotheses (map (\<lambda>p. at_repairHypothesis (of_attempt p)) (prior_failures d target attempt priors) @ [at_repairHypothesis attempt]) \<and>
    (\<forall>p \<in> set tried. \<not> isDuplicateHypothesis h p) \<and> length tried < rl_maxRepairsPerTask (recovery_limits d run) \<and> length tried < 10 \<and>
    ((\<exists>request. h \<in> (\<lambda>s. sanitizeHypothesis (JStr s)) ` set (rule_based_propose request)) \<or> \<not> isUnsafeHypothesis h)"
proof -
  obtain error where dec: "dec = decide_observed d hints num run target attempt error (prior_failures d target attempt priors) (observe d (t_id target) attempt (Some error) gate)"
    using decide_Inr [OF assms(1)] by blast
  note r = assms(2) [unfolded dec]
  have "rl_maxRepairsPerTask (recovery_limits d run) \<le> 10" by (simp add: recovery_limits_def resolved_limits)
  moreover note decide_observed_repair(1) [OF r]
  moreover obtain h where "rd_hypothesis dec = Some h" "h \<noteq> []" "length h \<le> 600"
      "\<forall>p \<in> set (uniqueHypotheses (map (\<lambda>p. at_repairHypothesis (of_attempt p)) (prior_failures d target attempt priors) @ [at_repairHypothesis attempt])). \<not> isDuplicateHypothesis h p"
      "(\<exists>request. h \<in> (\<lambda>s. sanitizeHypothesis (JStr s)) ` set (rule_based_propose request)) \<or> \<not> isUnsafeHypothesis h"
    using repair_hypothesis [OF r] unfolding dec HYPOTHESIS_MAX_CHARS_def by blast
  ultimately show ?thesis by (intro exI conjI) (assumption | rule refl | linarith)+
qed

text \<open>
  Policy denials are final and never guessed: with an error at hand, the decision has the class
  \<open>policy\<close> exactly when the error's code or the class in its details says so, whatever its message, its
  output or its retry flag say, and then the target is blocked.
\<close>
theorem policy_denials_block:
  assumes "decide d hints num run target attempt priors gate (Some e) = Inr dec"
  shows "(rd_failureClass dec = Policy \<longleftrightarrow> policy_error e) \<and> (policy_error e \<longrightarrow> rd_action dec = Block)"
proof -
  let ?cur = "observe d (t_id target) attempt (Some e) gate"
  have dec: "dec = decide_observed d hints num run target attempt e (prior_failures d target attempt priors) ?cur"
    using decide_Inr [OF assms] by fastforce
  have cls: "of_classification ?cur = classifyGoalFailure (Some e) gate" by (simp add: observe_def Let_def)
  show ?thesis
  proof (cases "policy_error e")
    case True
    then have "fc_failureClass (classifyGoalFailure (Some e) gate) = Policy" by (simp add: classify_policy_iff)
    with classify_policy_source [OF this] terminal_blocks [of ?cur] True show ?thesis by (simp add: dec cls)
  next
    case False
    then have "fc_failureClass (classifyGoalFailure (Some e) gate) \<noteq> Policy" by (simp add: classify_policy_iff)
    with decided_class [of d hints num run target attempt e "prior_failures d target attempt priors" ?cur] False show ?thesis
      by (auto simp: dec cls)
  qed
qed

text \<open>
  Back-off is bounded and grows: for every configuration the wait before a retry lies between the
  smaller of the base and the maximum, and the maximum, which is at most 15 minutes, and a later retry
  never waits less than an earlier one.
\<close>
theorem backoff_is_bounded_and_monotone:
  fixes ss :: "RecoveryLimitSource option list"
  defines "l \<equiv> resolveRecoveryLimits ss"
  shows "min (of_nat (rl_backoffBaseMs l)) (of_nat (rl_backoffMaxMs l)) \<le> backoffMs n l hint \<and>
    backoffMs n l hint \<le> of_nat (rl_backoffMaxMs l) \<and> of_nat (rl_backoffMaxMs l) \<le> (900000 :: rat) \<and>
    (m \<le> n \<longrightarrow> backoffMs m l hint \<le> backoffMs n l hint)"
proof -
  have pow: "(2::nat) ^ (min (m - 1) 20) \<le> 2 ^ (min (n - 1) 20)" if "m \<le> n" for m n
    using that by (intro power_increasing) auto
  have "of_nat (rl_backoffBaseMs l) \<le> (of_nat (rl_backoffBaseMs l * 2 ^ min (n - 1) 20) :: rat)"
    by (subst of_nat_le_iff) simp
  moreover have "of_nat (rl_backoffBaseMs l * 2 ^ min (m - 1) 20) \<le> (of_nat (rl_backoffBaseMs l * 2 ^ min (n - 1) 20) :: rat)" if "m \<le> n"
    using pow [OF that] by (subst of_nat_le_iff) simp
  moreover have "of_nat (rl_backoffMaxMs l) \<le> (900000 :: rat)"
    using resolved_limits(5) [of ss] of_nat_le_iff [of "rl_backoffMaxMs l" 900000, where ?'a = rat] by (simp add: l_def)
  ultimately show ?thesis unfolding backoffMs_def Let_def
    by (auto intro: min.coboundedI1 min.mono max.mono simp: min_le_iff_disj le_max_iff_disj)
qed

text \<open>A sample target, attempt and run\<close>

definition sample_recovery :: RecoveryDeps where
  "sample_recovery = \<lparr>rc_signature = \<lparr>sd_number = ratio_text, sd_sha256 = (\<lambda>s. []), sd_fromError = (\<lambda>_. [])\<rparr>, rc_localeCompare = compare_str,
     rc_generator = Some (''sample'', \<lambda>_. Inr [JStr ''fix it'']), rc_limits = None, rc_storedRevision = None, rc_resolveLimits = None\<rparr>"

definition sample_ledger :: GoalRunLedger where
  "sample_ledger = \<lparr>r_runId = ''r'', r_graphId = ''g'', r_graphRevision = 1, r_graphDigest = [], r_status = RRunning, r_ledgerRevision = 1,
     r_targets = [], r_resource = \<lparr>res_tasksStarted = 1, res_hostedSpendUsd = 0, res_startedAt = 0, res_deadlineAt = 1000\<rparr>,
     r_createdBy = ''ada'', r_createdAt = 0, r_updatedAt = 0\<rparr>"

definition sample_target :: GoalTarget where
  "sample_target = \<lparr>t_id = ''T'', t_stage = ''s'', t_title = ''t'', t_dependsOn = [], t_priority = 1, t_executor = ''x'', t_artifacts = [],
     t_acceptance = [], t_externalDependency = False, t_requiresApproval = False\<rparr>"

definition sample_attempt :: "GoalStudioErrorCode \<Rightarrow> TargetAttempt" where
  "sample_attempt code = \<lparr>at_id = ''r:T:1'', at_runId = ''r'', at_targetId = ''T'', at_attempt = 1, at_phase = EXECUTE, at_executionId = None,
     at_modelRoute = None, at_promptRef = None, at_repairHypothesis = None, at_startedAt = 0, at_endedAt = None, at_outcome = Some OFailed,
     at_error = Some (failure code)\<rparr>"

definition sample_decision :: "GoalStudioErrorCode \<Rightarrow> RecoveryDecision" where
  "sample_decision code = decide_observed sample_recovery (\<lambda>_ _. []) ratio_text sample_ledger sample_target (sample_attempt code) (failure code) []
     (observe sample_recovery ''T'' (sample_attempt code) (Some (failure code)) None)"

lemma sample_decide: "decide sample_recovery (\<lambda>_ _. []) ratio_text sample_ledger sample_target (sample_attempt code) [] None (Some (failure code)) = Inr (sample_decision code)"
  by (simp add: sample_decision_def decide_def sample_attempt_def sample_target_def Let_def prior_failures_def)

lemma sample_category: "coreCategoryOf (Some (failure code)) = (None, False)"
proof -
  have "first_category PROSE_CATEGORIES [] = None" by code_simp
  then show ?thesis by (simp add: coreCategoryOf_def detail_def prose_def)
qed

lemma sample_limits: "recovery_limits sample_recovery sample_ledger = DEFAULT_RECOVERY_LIMITS"
  by (simp add: recovery_limits_def sample_recovery_def limitsFromStore_def resolveRecoveryLimits_def merge_source_def no_source_def
      clampInt_def DEFAULT_RECOVERY_LIMITS_def Let_def)

lemma sample_classes:
  "fc_retryable (classifyGoalFailure (Some (failure LEDGER_CONFLICT)) None)" "\<not> fc_terminal (classifyGoalFailure (Some (failure LEDGER_CONFLICT)) None)"
  "\<not> fc_retryable (classifyGoalFailure (Some (failure VALIDATION)) None)" "\<not> fc_terminal (classifyGoalFailure (Some (failure VALIDATION)) None)"
  by (simp_all add: classifyGoalFailure_def Let_def sample_category POLICY_CODES_def mem_def)

lemma sample_cap: "maxAttemptsFor DEFAULT_RECOVERY_LIMITS = 12" "rl_maxTransientRetries DEFAULT_RECOVERY_LIMITS = 2"
  "rl_maxRepairsPerTask DEFAULT_RECOVERY_LIMITS = 3" "rl_maxSameActionNoProgress DEFAULT_RECOVERY_LIMITS = 2" "r_targets sample_ledger = []"
  by (simp_all add: maxAttemptsFor_def DEFAULT_RECOVERY_LIMITS_def RECOVERY_HARD_CAPS_def sample_ledger_def)

lemma sample_retry: "rd_action (sample_decision LEDGER_CONFLICT) = Retry"
  by (simp add: sample_decision_def decide_observed_def Let_def observe_def sample_classes sample_limits sample_cap retry_streak_def decided_def)

lemma sample_proposal: "sanitizeHypothesis (JStr ''fix it'') = ''fix it''" "\<not> isUnsafeHypothesis ''fix it''"
  by code_simp+

lemma sample_repair: "rd_action (sample_decision VALIDATION) = Repair"
proof -
  have "proposeHypothesis sample_recovery request reasons = (Some ''fix it'', reasons @ [''hypothesis from sample''])" if "hr_priorHypotheses request = []" for request reasons
    using that by (simp add: proposeHypothesis_def sample_recovery_def sample_proposal rejected_reason_def tag_def)
  then have "rd_action (plan_repair sample_recovery (repair_request h run t a prior cur [] used) cur n) = Repair" for h run t a prior cur used n
    by (intro plan_repair_simps(2)) (simp add: repair_request_def Let_def)
  then show ?thesis
    by (simp add: sample_decision_def decide_observed_def Let_def observe_def sample_classes sample_limits sample_cap
        sample_attempt_def uniqueHypotheses_def add_hypothesis_def)
qed

theorem recovery_terminates_witness: "length [sample_attempt LEDGER_CONFLICT] < 30"
proof (rule recovery_terminates)
  show "\<forall>k < length [sample_attempt LEDGER_CONFLICT]. \<exists>run gate err dec.
      decide sample_recovery (\<lambda>_ _. []) ratio_text run sample_target ([sample_attempt LEDGER_CONFLICT] ! k) (take k [sample_attempt LEDGER_CONFLICT]) gate err = Inr dec \<and> rd_action dec \<noteq> Block"
    using sample_decide [of LEDGER_CONFLICT] sample_retry by (auto intro!: exI)
qed (simp_all add: sample_attempt_def sample_target_def isFailedAttempt_def)

theorem repairs_are_novel_and_bounded_witness:
  "\<exists>h. rd_hypothesis (sample_decision VALIDATION) = Some h \<and> h \<noteq> [] \<and> length h \<le> 600"
  using repairs_are_novel_and_bounded [OF sample_decide sample_repair] by blast

theorem policy_denials_block_witness: "rd_action (sample_decision POLICY_DENIED) = Block"
  using policy_denials_block [OF sample_decide [of POLICY_DENIED]] by (simp add: policy_error_def POLICY_CODES_def)

theorem backoff_is_bounded_and_monotone_witness:
  "backoffMs 1 (resolveRecoveryLimits []) None \<le> backoffMs 3 (resolveRecoveryLimits []) None"
  using backoff_is_bounded_and_monotone [of "[]" 3 None 1] by simp

end
