(* ===== verification/Controller.thy ===== *)
theory Controller
  imports Ledger_Store Governance Recovery
begin

text \<open>
  The controller: \<open>src/packages/goals/src/controller/controller.ts\<close>. Every change it makes to a run goes
  through a commit of the ledger; a \<open>CommitPlan\<close> is what it hands to one: the transitions to record and
  the mutation of the ledger. The first part defines the plans, one per place in the code that commits; the
  second the commit loop with its retries, and the scheduling pass.

  Emitted events and audit entries never influence control flow (their failures are swallowed) and are left
  out, as are timers and the promises that wake a driver. Time stamps of a plan are taken at one instant.
\<close>

subsection \<open>Constants\<close>

definition COMMIT_RETRIES :: nat where "COMMIT_RETRIES = 8"

definition CONTROLLER_ACTOR :: string where "CONTROLLER_ACTOR = ''controller''"

fun RUN_TRANSITIONS :: "GoalRunStatus \<Rightarrow> GoalRunStatus list" where
  "RUN_TRANSITIONS RCreated = [RRunning, RPaused, RStopping, RStopped, RFailed]"
| "RUN_TRANSITIONS RRunning = [RPausing, RPaused, RStopping, RStopped, RIdle, RCompleted, RFailed]"
| "RUN_TRANSITIONS RPausing = [RPaused, RRunning, RStopping, RStopped, RFailed]"
| "RUN_TRANSITIONS RPaused = [RRunning, RStopping, RStopped, RFailed]"
| "RUN_TRANSITIONS RStopping = [RStopped, RFailed]"
| "RUN_TRANSITIONS RIdle = [RRunning, RPaused, RStopping, RStopped, RCompleted, RFailed]"
| "RUN_TRANSITIONS RStopped = []"
| "RUN_TRANSITIONS RCompleted = []"
| "RUN_TRANSITIONS RFailed = []"

definition TERMINAL_RUN :: "GoalRunStatus list" where
  "TERMINAL_RUN = [RStopped, RCompleted, RFailed]"

definition IN_FLIGHT :: "TargetStatus list" where
  "IN_FLIGHT = [Active, Verifying, Verified]"

datatype AbortReason = AbortStop | AbortShutdown | AbortLeaseLost | AbortDeadline

datatype ctl_error = AttemptAborted AbortReason | Thrown GoalStudioError

record Driver =
  dr_runId :: GoalRunId
  dr_lease :: RunLease
  dr_active :: "TargetId list"
  dr_preferred :: "TargetId list"
  dr_disposed :: bool
  dr_lost :: bool

definition humanActor :: "string \<Rightarrow> string result" where
  "humanActor who = (let p = trim who in
     if p = [] then Inl (failure UNAUTHORIZED) else Inr (if startsWith p ''user:'' then p else ''user:'' @ p))"

definition attemptIdFor :: "GoalRunId \<Rightarrow> TargetId \<Rightarrow> nat \<Rightarrow> TargetAttemptId" where
  "attemptIdFor runId targetId attempt = runId @ '':'' @ targetId @ '':'' @ show_nat attempt"

subsection \<open>Approval markers\<close>

datatype MarkerState = Pending | Granted | Denied
datatype ApprovalKind = ExecuteApproval | CompleteApproval

fun marker_state_str :: "MarkerState \<Rightarrow> string" where
  "marker_state_str Pending = ''pending''"
| "marker_state_str Granted = ''granted''"
| "marker_state_str Denied = ''denied''"

fun approval_kind_str :: "ApprovalKind \<Rightarrow> string" where
  "approval_kind_str ExecuteApproval = ''execute''"
| "approval_kind_str CompleteApproval = ''complete''"

definition approvalMarker :: "MarkerState \<Rightarrow> ApprovalKind \<Rightarrow> nat \<Rightarrow> string option \<Rightarrow> string" where
  "approvalMarker state kind attempt scope =
     ''approval:'' @ marker_state_str state @ '':'' @ approval_kind_str kind @ '':'' @ show_nat attempt @ '':'' @
     (case scope of None \<Rightarrow> [] | Some s \<Rightarrow> s)"

record Marker =
  mk_state :: MarkerState
  mk_kind :: ApprovalKind
  mk_attempt :: nat
  mk_scope :: string

text \<open>Dropping a prefix, and the pieces of the expression in \<open>parseApprovalMarker\<close>\<close>

definition after_prefix :: "string \<Rightarrow> string \<Rightarrow> string option" where
  "after_prefix p s = (if startsWith s p then Some (drop (length p) s) else None)"

fun first_choice :: "(string \<times> 'a) list \<Rightarrow> string \<Rightarrow> ('a \<times> string) option" where
  "first_choice [] s = None"
| "first_choice ((p, v) # rest) s = (case after_prefix p s of Some r \<Rightarrow> Some (v, r) | None \<Rightarrow> first_choice rest s)"

definition parseApprovalMarker :: "string \<Rightarrow> Marker option" where
  "parseApprovalMarker marker =
     Option.bind (after_prefix ''approval:'' marker) (\<lambda>s1.
     Option.bind (first_choice [(''pending:'', Pending), (''granted:'', Granted), (''denied:'', Denied)] s1) (\<lambda>(state, s2).
     Option.bind (first_choice [(''execute:'', ExecuteApproval), (''complete:'', CompleteApproval)] s2) (\<lambda>(kind, s3).
       let digits = takeWhile is_digit s3; rest = dropWhile is_digit s3 in
       if digits = [] \<or> rest = [] \<or> hd rest \<noteq> CHR '':'' \<or> CHR 10 \<in> set (tl rest) \<or> CHR 13 \<in> set (tl rest) then None
       else Some \<lparr>mk_state = state, mk_kind = kind, mk_attempt = read_nat digits, mk_scope = tl rest\<rparr>)))"

definition marker_matches :: "(Marker \<Rightarrow> bool) \<Rightarrow> string \<Rightarrow> bool" where
  "marker_matches P b = (case parseApprovalMarker b of None \<Rightarrow> False | Some m \<Rightarrow> P m)"

definition grantedApproval :: "TargetLedgerEntry \<Rightarrow> ApprovalKind option \<Rightarrow> nat option \<Rightarrow> bool" where
  "grantedApproval entry kind attemptNo =
     list_ex (marker_matches (\<lambda>m. mk_state m = Granted \<and> (kind = None \<or> kind = Some (mk_kind m)) \<and> (attemptNo = None \<or> attemptNo = Some (mk_attempt m))))
       (le_blockers entry)"

definition without_pending :: "string list \<Rightarrow> string list" where
  "without_pending bs = filter (\<lambda>b. \<not> startsWith b ''approval:pending:'') bs"

subsection \<open>Changing one target\<close>

record ChangeExtra =
  ce_attemptId :: "TargetAttemptId option"
  ce_evidenceIds :: "EvidenceId list"
  ce_entry :: "TargetLedgerEntry \<Rightarrow> TargetLedgerEntry"

type_synonym CommitPlan = "TargetTransition list \<times> (GoalRunLedger \<Rightarrow> GoalRunLedger)"

definition no_extra :: ChangeExtra where
  "no_extra = \<lparr>ce_attemptId = None, ce_evidenceIds = [], ce_entry = id\<rparr>"

definition emptyEntry :: "TargetId \<Rightarrow> timestamp \<Rightarrow> TargetLedgerEntry" where
  "emptyEntry targetId ts = \<lparr>le_targetId = targetId, le_status = Queued, le_attempts = 0, le_repairs = 0, le_lastAttemptId = None,
     le_lastExecutionId = None, le_evidenceIds = [], le_blockers = [], le_updatedAt = ts\<rparr>"

definition apply_change :: "timestamp \<Rightarrow> TargetId \<Rightarrow> TargetStatus \<Rightarrow> ChangeExtra \<Rightarrow> GoalRunLedger \<Rightarrow> GoalRunLedger" where
  "apply_change now targetId to x l =
     (let entry = (case dget (r_targets l) targetId of Some e \<Rightarrow> e | None \<Rightarrow> emptyEntry targetId now);
          e1 = entry\<lparr>le_status := to, le_updatedAt := now\<rparr>;
          e2 = (if ce_evidenceIds x \<noteq> [] then e1\<lparr>le_evidenceIds := ce_evidenceIds x\<rparr> else e1)
      in l\<lparr>r_targets := dput targetId (ce_entry x e2) (r_targets l), r_updatedAt := now\<rparr>)"

definition change :: "timestamp \<Rightarrow> GoalRunLedger \<Rightarrow> TargetId \<Rightarrow> TargetStatus \<Rightarrow> string \<Rightarrow> string \<Rightarrow> ChangeExtra
    \<Rightarrow> (TargetTransition \<times> (GoalRunLedger \<Rightarrow> GoalRunLedger)) result" where
  "change now fresh targetId to reason actor x =
     (let from = status_of fresh targetId in
      bindE (assertTargetTransition targetId from to actor) (\<lambda>_.
        Inr (\<lparr>tr_runId = r_runId fresh, tr_targetId = targetId, tr_fromState = from, tr_toState = to, tr_reason = reason, tr_actor = actor,
              tr_timestamp = Some now, tr_attemptId = ce_attemptId x, tr_evidenceIds = ce_evidenceIds x\<rparr>,
             apply_change now targetId to x)))"

definition transition_plan :: "timestamp \<Rightarrow> TargetId \<Rightarrow> TargetStatus \<Rightarrow> string \<Rightarrow> string \<Rightarrow> ChangeExtra \<Rightarrow> (GoalRunLedger \<Rightarrow> GoalRunLedger)
    \<Rightarrow> TargetStatus list option \<Rightarrow> GoalRunLedger \<Rightarrow> CommitPlan option result" where
  "transition_plan now targetId to reason actor x also_run onlyFrom fresh =
     (let from = status_of fresh targetId in
      if from = to then Inr None
      else if (case onlyFrom of None \<Rightarrow> False | Some ss \<Rightarrow> from \<notin> set ss) then Inr None
      else bindE (change now fresh targetId to reason actor x) (\<lambda>(t, f). Inr (Some ([t], \<lambda>l. also_run (f l)))))"

subsection \<open>The plans\<close>

definition run_status_plan :: "timestamp \<Rightarrow> GoalRunStatus \<Rightarrow> GoalRunLedger \<Rightarrow> CommitPlan option result" where
  "run_status_plan now to fresh =
     (if r_status fresh = to then Inr None
      else if to \<notin> set (RUN_TRANSITIONS (r_status fresh)) then Inl (failure VALIDATION)
      else Inr (Some ([], \<lambda>l. l\<lparr>r_status := to, r_updatedAt := now\<rparr>)))"

definition limitsOf :: "GoalGraphDefinition \<Rightarrow> ResourceLimits" where
  "limitsOf graph = con_resourceLimits (g_constitution graph)"

definition targetOf :: "GoalGraphDefinition \<Rightarrow> TargetId \<Rightarrow> GoalTarget result" where
  "targetOf graph targetId = (case find (\<lambda>t. t_id t = targetId) (g_targets graph) of Some t \<Rightarrow> Inr t | None \<Rightarrow> Inl (failure NOT_FOUND))"

definition unlock_reason :: "GoalTarget \<Rightarrow> string" where
  "unlock_reason t = ''dependencies completed: '' @ (let deps = join_with '', '' (t_dependsOn t) in if deps = [] then ''(none)'' else deps)"

definition unlock_plan :: "timestamp \<Rightarrow> GoalGraphDefinition \<Rightarrow> GoalRunLedger \<Rightarrow> CommitPlan option result" where
  "unlock_plan now graph fresh =
     (let ids = newlyUnlockedTargets fresh (g_targets graph) in
      if ids = [] then Inr None
      else bindE (collectE (map (\<lambda>i. bindE (targetOf graph i) (\<lambda>t. change now fresh i Eligible (unlock_reason t) CONTROLLER_ACTOR no_extra)) ids)) (\<lambda>cs.
        Inr (Some (map fst cs, \<lambda>l. fold (\<lambda>c. snd c) cs l))))"

text \<open>An approved attempt is resumed under its number; otherwise the attempt counts as a new task.\<close>

definition reuse_attempt :: "TargetLedgerEntry \<Rightarrow> bool" where
  "reuse_attempt e \<longleftrightarrow> le_status e = Eligible \<and> le_attempts e > 0 \<and> grantedApproval e (Some ExecuteApproval) (Some (le_attempts e))"

definition start_plan :: "timestamp \<Rightarrow> GoalGraphDefinition \<Rightarrow> TargetId \<Rightarrow> GoalRunLedger \<Rightarrow> CommitPlan option result" where
  "start_plan now graph targetId fresh =
     (let entry = (case dget (r_targets fresh) targetId of Some e \<Rightarrow> e | None \<Rightarrow> emptyEntry targetId now);
          reuse = reuse_attempt entry in
      if \<not> reuse \<and> res_tasksStarted (r_resource fresh) \<ge> maxTasksPerRun (limitsOf graph) then Inr None
      else
        (let attemptNo = (if reuse then le_attempts entry else le_attempts entry + 1);
             attemptId = attemptIdFor (r_runId fresh) targetId attemptNo;
             reason = (if reuse then ''approved attempt resumed'' else if le_status entry = Repairing then ''RETEST after repair''
               else ''selected: highest critical-path impact among eligible'') in
         bindE (targetOf graph targetId) (\<lambda>_.
         bindE (change now fresh targetId Active reason CONTROLLER_ACTOR
             \<lparr>ce_attemptId = Some attemptId, ce_evidenceIds = [], ce_entry = (\<lambda>e. e\<lparr>le_attempts := attemptNo, le_lastAttemptId := Some attemptId\<rparr>)\<rparr>) (\<lambda>(t, f).
           Inr (Some ([t], \<lambda>l. let l' = f l in
             if reuse then l'
             else l'\<lparr>r_resource := (r_resource l')\<lparr>res_tasksStarted := res_tasksStarted (r_resource l') + 1\<rparr>\<rparr>))))))"

text \<open>Completion: through \<open>verified\<close> when the target is still being verified\<close>

definition progress_plan :: "timestamp \<Rightarrow> TargetId \<Rightarrow> TargetAttemptId \<Rightarrow> EvidenceId list \<Rightarrow> string \<Rightarrow> string \<Rightarrow> GoalRunLedger \<Rightarrow> CommitPlan option result" where
  "progress_plan now targetId attemptId evidenceIds actor reason fresh =
     (let done_extra = \<lparr>ce_attemptId = Some attemptId, ce_evidenceIds = evidenceIds, ce_entry = (\<lambda>e. e\<lparr>le_blockers := without_pending (le_blockers e)\<rparr>)\<rparr>;
          ver_extra = \<lparr>ce_attemptId = Some attemptId, ce_evidenceIds = evidenceIds, ce_entry = id\<rparr>;
          status = map_option le_status (dget (r_targets fresh) targetId) in
      if status = Some Completed then Inr None
      else if status = Some Verifying then
        bindE (change now fresh targetId Verified ''independent verification passed'' ''verifier'' ver_extra) (\<lambda>(t1, f1).
        bindE (change now (f1 fresh) targetId Completed reason actor done_extra) (\<lambda>(t2, f2).
          Inr (Some ([t1, t2], \<lambda>l. f2 (f1 l)))))
      else
        bindE (change now fresh targetId Completed reason actor done_extra) (\<lambda>(t, f). Inr (Some ([t], f))))"

definition approval_plan :: "timestamp \<Rightarrow> TargetId \<Rightarrow> TargetAttempt \<Rightarrow> ApprovalKind \<Rightarrow> string option \<Rightarrow> string list \<Rightarrow> GoalRunLedger \<Rightarrow> CommitPlan option result" where
  "approval_plan now targetId attempt kind scope reasons =
     transition_plan now targetId NeedsApproval (''approval required ('' @ approval_kind_str kind @ ''): '' @ join_with ''; '' reasons) ''governance''
       \<lparr>ce_attemptId = Some (at_id attempt), ce_evidenceIds = [],
        ce_entry = (\<lambda>e. e\<lparr>le_blockers := without_pending (le_blockers e) @ [approvalMarker Pending kind (at_attempt attempt) scope]\<rparr>)\<rparr> id None"

definition block_plan :: "timestamp \<Rightarrow> TargetId \<Rightarrow> TargetAttemptId \<Rightarrow> string \<Rightarrow> EvidenceId list \<Rightarrow> GoalStudioError \<Rightarrow> GoalRunLedger \<Rightarrow> CommitPlan option result" where
  "block_plan now targetId attemptId reason evidenceIds error =
     transition_plan now targetId Blocked reason CONTROLLER_ACTOR
       \<lparr>ce_attemptId = Some attemptId, ce_evidenceIds = evidenceIds,
        ce_entry = (\<lambda>e. e\<lparr>le_blockers := le_blockers e @ [code_str (e_code error) @ '': '' @ reason]\<rparr>)\<rparr> id None"

definition stop_plan :: "timestamp \<Rightarrow> TargetId \<Rightarrow> TargetAttemptId \<Rightarrow> AbortReason \<Rightarrow> GoalRunLedger \<Rightarrow> CommitPlan option result" where
  "stop_plan now targetId attemptId why =
     transition_plan now targetId Stopped (if why = AbortDeadline then ''limit: maxRunMinutes deadline reached'' else ''run stopped by operator'') CONTROLLER_ACTOR
       (no_extra\<lparr>ce_attemptId := Some attemptId\<rparr>) id None"

definition verifying_plan :: "timestamp \<Rightarrow> TargetId \<Rightarrow> TargetAttemptId \<Rightarrow> ModelRouteDecision \<Rightarrow> ExecutionId \<Rightarrow> bool \<Rightarrow> GoalRunLedger \<Rightarrow> CommitPlan option result" where
  "verifying_plan now targetId attemptId route executionId ok =
     transition_plan now targetId Verifying (if ok then ''execution finished; awaiting independent verification'' else ''execution failed'') CONTROLLER_ACTOR
       \<lparr>ce_attemptId = Some attemptId, ce_evidenceIds = [], ce_entry = (\<lambda>e. if executionId \<noteq> [] then e\<lparr>le_lastExecutionId := Some executionId\<rparr> else e)\<rparr>
       (\<lambda>l. if mr_hosted route
            then l\<lparr>r_resource := (r_resource l)\<lparr>res_hostedSpendUsd := res_hostedSpendUsd (r_resource l) + mr_estimatedCostUsd route\<rparr>\<rparr> else l)
       (Some [Active])"

definition failed_plan :: "timestamp \<Rightarrow> TargetId \<Rightarrow> TargetAttemptId \<Rightarrow> string \<Rightarrow> bool \<Rightarrow> GoalRunLedger \<Rightarrow> CommitPlan option result" where
  "failed_plan now targetId attemptId message from_gate =
     transition_plan now targetId Failed message (if from_gate then ''verifier'' else CONTROLLER_ACTOR) (no_extra\<lparr>ce_attemptId := Some attemptId\<rparr>) id
       (Some [Active, Verifying, Verified])"

definition repairing_plan :: "timestamp \<Rightarrow> TargetId \<Rightarrow> TargetAttemptId \<Rightarrow> RecoveryAction \<Rightarrow> string \<Rightarrow> GoalRunLedger \<Rightarrow> CommitPlan option result" where
  "repairing_plan now targetId attemptId action hypothesis =
     transition_plan now targetId Repairing (action_str action @ '': '' @ hypothesis) ''recovery''
       \<lparr>ce_attemptId = Some attemptId, ce_evidenceIds = [], ce_entry = (\<lambda>e. e\<lparr>le_repairs := le_repairs e + 1\<rparr>)\<rparr> id None"

definition retest_plan :: "timestamp \<Rightarrow> TargetId \<Rightarrow> TargetAttemptId \<Rightarrow> string \<Rightarrow> GoalRunLedger \<Rightarrow> CommitPlan option result" where
  "retest_plan now targetId attemptId hypothesis =
     transition_plan now targetId Eligible (''ready for retest: '' @ hypothesis) ''recovery'' (no_extra\<lparr>ce_attemptId := Some attemptId\<rparr>) id None"

definition external_plan :: "timestamp \<Rightarrow> TargetId \<Rightarrow> TargetAttemptId \<Rightarrow> EvidenceId list \<Rightarrow> string list \<Rightarrow> GoalRunLedger \<Rightarrow> CommitPlan option result" where
  "external_plan now targetId attemptId evidenceIds reasons =
     transition_plan now targetId AwaitingExternal (''awaiting attributable external evidence: '' @ join_with ''; '' reasons) ''verifier''
       \<lparr>ce_attemptId = Some attemptId, ce_evidenceIds = evidenceIds, ce_entry = id\<rparr> id None"

definition verified_plan :: "timestamp \<Rightarrow> TargetId \<Rightarrow> TargetAttemptId \<Rightarrow> EvidenceId list \<Rightarrow> GoalRunLedger \<Rightarrow> CommitPlan option result" where
  "verified_plan now targetId attemptId evidenceIds =
     transition_plan now targetId Verified ''independently verified; human sign-off required'' ''verifier''
       \<lparr>ce_attemptId = Some attemptId, ce_evidenceIds = evidenceIds, ce_entry = id\<rparr> id (Some [Verifying])"

definition retry_plan :: "timestamp \<Rightarrow> TargetId \<Rightarrow> string \<Rightarrow> GoalRunLedger \<Rightarrow> CommitPlan option result" where
  "retry_plan now targetId actor =
     transition_plan now targetId Eligible (''retry requested by '' @ actor) actor
       (no_extra\<lparr>ce_entry := (\<lambda>e. e\<lparr>le_repairs := 0, le_blockers := filter (\<lambda>b. startsWith b ''approval:granted:'') (le_blockers e)\<rparr>)\<rparr>) id None"

subsection \<open>The acceptance gate, checked again\<close>

fun verdict_str :: "VerificationVerdict \<Rightarrow> string" where
  "verdict_str PASS = ''PASS''"
| "verdict_str FAIL = ''FAIL''"
| "verdict_str UNKNOWN = ''UNKNOWN''"
| "verdict_str NOT_RUN = ''NOT_RUN''"

definition evidence_reasons :: "EvidenceRecord list \<Rightarrow> string \<Rightarrow> EvidenceId \<Rightarrow> string list" where
  "evidence_reasons evidence executorIdentity i =
     (case map_of (rev (map (\<lambda>e. (ev_id e, e)) evidence)) i of
        None \<Rightarrow> [''evidence '' @ i @ '' not produced by this verification'']
      | Some ev \<Rightarrow>
          if ev_verdict ev \<noteq> PASS then [''evidence '' @ i @ '' verdict '' @ verdict_str (ev_verdict ev)]
          else tag (ev_validatorIdentity ev = ev_executorIdentity ev \<or> ev_validatorIdentity ev = executorIdentity)
            (''evidence '' @ i @ '' is not independent of the executor''))"

definition criterion_reasons :: "EvidenceRecord list \<Rightarrow> string \<Rightarrow> CriterionVerdict \<Rightarrow> string list" where
  "criterion_reasons evidence executorIdentity c =
     tag (cv_verdict c \<noteq> PASS) (''criterion not PASS: '' @ cv_criterion c) @
     tag (cv_evidenceIds c = []) (''criterion has no evidence: '' @ cv_criterion c) @
     concat (map (evidence_reasons evidence executorIdentity) (cv_evidenceIds c))"

definition enforceGate :: "AcceptanceGateDecision \<Rightarrow> EvidenceRecord list \<Rightarrow> GoalTarget \<Rightarrow> string \<Rightarrow> TargetLedgerEntry option \<Rightarrow> GateOutcome \<times> string list" where
  "enforceGate gate evidence target executorIdentity entry =
     (let reasons =
        tag (length (gd_perCriterion gate) < length (t_acceptance target))
          (''gate covered '' @ show_nat (length (gd_perCriterion gate)) @ '' of '' @ show_nat (length (t_acceptance target)) @ '' acceptance criteria'') @
        concat (map (criterion_reasons evidence executorIdentity) (gd_perCriterion gate)) in
      if gd_decision gate \<noteq> GCompleted then (gd_decision gate, [])
      else if reasons \<noteq> [] then (GRepair, reasons)
      else if t_externalDependency target \<and>
        \<not> list_ex (\<lambda>e. ev_verdict e = PASS \<and> ev_validationMethod e \<in> {''external-record'', ''human-signoff''}) evidence
      then (GAwaitingExternal, [''external dependency requires an external-record or human-signoff PASS''])
      else if t_requiresApproval target \<and> \<not> (case entry of None \<Rightarrow> False | Some e \<Rightarrow> grantedApproval e None None)
      then (GNeedsApproval, [''target requires explicit human approval before completion''])
      else (GCompleted, []))"

subsection \<open>After a failure\<close>

definition error_signature :: "TargetAttempt \<Rightarrow> string option" where
  "error_signature a = (case at_error a of None \<Rightarrow> None
     | Some e \<Rightarrow> (case dget (e_details e) ''failureSignature'' of Some (JStr s) \<Rightarrow> Some s | _ \<Rightarrow> None))"

definition same_in_a_row :: "RecoveryDecision \<Rightarrow> TargetAttempt list \<Rightarrow> nat" where
  "same_in_a_row dec atts = length (takeWhile (\<lambda>a. error_signature a = Some (rd_failureSignature dec)) (rev atts))"

text \<open>The error kept on the attempt: the decision's signature and class overwrite those in the details.\<close>

definition recorded_error :: "GoalStudioError \<Rightarrow> RecoveryDecision \<Rightarrow> GoalStudioError" where
  "recorded_error e dec = e\<lparr>e_details := dput ''failureClass'' (JStr (class_str (rd_failureClass dec)))
     (dput ''failureSignature'' (JStr (rd_failureSignature dec)) (e_details e))\<rparr>"

definition recorded_attempt :: "TargetAttempt \<Rightarrow> GoalStudioError \<Rightarrow> RecoveryDecision \<Rightarrow> timestamp \<Rightarrow> TargetAttempt" where
  "recorded_attempt a e dec now = a\<lparr>at_outcome := Some OFailed, at_error := Some (recorded_error e dec), at_endedAt := Some now,
     at_phase := DIAGNOSE,
     at_repairHypothesis := (case rd_hypothesis dec of
        Some h \<Rightarrow> if rd_action dec = Repair \<and> trim h \<noteq> [] then Some (trim h) else at_repairHypothesis a
      | None \<Rightarrow> at_repairHypothesis a)\<rparr>"

text \<open>Whether the failure blocks the target, and otherwise the hypothesis of the next attempt\<close>

definition after_failure :: "ResourceLimits \<Rightarrow> TargetLedgerEntry \<Rightarrow> GoalStudioError \<Rightarrow> RecoveryDecision \<Rightarrow> TargetAttempt list \<Rightarrow> TargetAttempt
    \<Rightarrow> (string \<times> GoalStudioErrorCode) + string" where
  "after_failure limits entry error dec prior attempt =
     (let same = same_in_a_row dec (prior @ [attempt]);
          hypothesis = map_option trim (rd_hypothesis dec);
          priorHypotheses = filter (\<lambda>h. h \<noteq> []) (concat (map (\<lambda>a. case at_repairHypothesis a of None \<Rightarrow> [] | Some h \<Rightarrow> [trim h]) prior)) in
      if rd_action dec = Block then
        Inl (''recovery decided block ('' @ class_str (rd_failureClass dec) @ ''): '' @ rd_diagnosis dec,
             if e_code error = POLICY_DENIED then POLICY_DENIED else RETRY_EXHAUSTED)
      else if le_repairs entry \<ge> maxRepairsPerTask limits then
        Inl (''repair budget exhausted ('' @ show_nat (le_repairs entry) @ ''/'' @ show_nat (maxRepairsPerTask limits) @ '')'', RETRY_EXHAUSTED)
      else if maxSameActionNoProgress limits > 0 \<and> same \<ge> maxSameActionNoProgress limits then
        Inl (''no progress: failure signature '' @ quoted (rd_failureSignature dec) @ '' repeated '' @ show_nat same @ '' times'', NO_PROGRESS)
      else if rd_action dec = Repair then
        (case hypothesis of
           None \<Rightarrow> Inl (''repair requested without a hypothesis'', RETRY_EXHAUSTED)
         | Some h \<Rightarrow>
             if h = [] then Inl (''repair requested without a hypothesis'', RETRY_EXHAUSTED)
             else if h \<in> set priorHypotheses then Inl (''no novel repair hypothesis (repeated: '' @ h @ '')'', NO_PROGRESS)
             else Inr h)
      else Inr (''retry after '' @ class_str (rd_failureClass dec) @ '' failure: '' @ rd_diagnosis dec))"

definition next_attempt :: "timestamp \<Rightarrow> TargetAttempt \<Rightarrow> string \<Rightarrow> TargetAttempt" where
  "next_attempt now a hypothesis =
     \<lparr>at_id = attemptIdFor (at_runId a) (at_targetId a) (at_attempt a + 1), at_runId = at_runId a, at_targetId = at_targetId a, at_attempt = at_attempt a + 1,
      at_phase = REPLAN, at_executionId = None, at_modelRoute = None, at_promptRef = None, at_repairHypothesis = Some hypothesis,
      at_startedAt = now, at_endedAt = None, at_outcome = None, at_error = None\<rparr>"

subsection \<open>Resolving an approval\<close>

definition pending_marker :: "TargetLedgerEntry \<Rightarrow> Marker option" where
  "pending_marker e =
     (if le_status e \<noteq> NeedsApproval then None
      else find (\<lambda>m. mk_state m = Pending) (concat (map (\<lambda>b. case parseApprovalMarker b of None \<Rightarrow> [] | Some m \<Rightarrow> [m]) (le_blockers e))))"

definition scope_option :: "string \<Rightarrow> string option" where
  "scope_option s = (if s = [] then None else Some s)"

definition swap_marker :: "Marker \<Rightarrow> bool \<Rightarrow> TargetLedgerEntry \<Rightarrow> TargetLedgerEntry" where
  "swap_marker m granted e =
     (let old = approvalMarker Pending (mk_kind m) (mk_attempt m) (scope_option (mk_scope m));
          new = approvalMarker (if granted then Granted else Denied) (mk_kind m) (mk_attempt m) (scope_option (mk_scope m)) in
      e\<lparr>le_blockers := filter (\<lambda>b. b \<noteq> old) (le_blockers e) @ [new]\<rparr>)"

definition pending_for :: "GoalRunLedger \<Rightarrow> TargetId \<Rightarrow> (TargetLedgerEntry \<times> Marker) result" where
  "pending_for run targetId =
     (case dget (r_targets run) targetId of None \<Rightarrow> Inl (failure VALIDATION)
      | Some e \<Rightarrow> (case pending_marker e of None \<Rightarrow> Inl (failure VALIDATION)
        | Some m \<Rightarrow> if mk_attempt m \<noteq> le_attempts e then Inl (failure VALIDATION) else Inr (e, m)))"

text \<open>The commits of \<open>resolveApproval\<close>, in order\<close>

definition resolve_plans :: "timestamp \<Rightarrow> TargetId \<Rightarrow> bool \<Rightarrow> string \<Rightarrow> string option \<Rightarrow> TargetLedgerEntry \<Rightarrow> Marker \<Rightarrow> GoalRunId
    \<Rightarrow> (GoalRunLedger \<Rightarrow> CommitPlan option result) list" where
  "resolve_plans now targetId granted actor reason e m runId =
     (let attemptId = attemptIdFor runId targetId (mk_attempt m) in
      if \<not> granted then
        [transition_plan now targetId Blocked (''approval denied by '' @ actor @ (case reason of None \<Rightarrow> [] | Some r \<Rightarrow> if r = [] then [] else '': '' @ r)) actor
           \<lparr>ce_attemptId = Some attemptId, ce_evidenceIds = [],
            ce_entry = (\<lambda>e. let e' = swap_marker m False e in e'\<lparr>le_blockers := le_blockers e' @ [''APPROVAL_DENIED: '' @ actor]\<rparr>)\<rparr> id None]
      else if mk_kind m = ExecuteApproval then
        [transition_plan now targetId Eligible (''execution approved by '' @ actor) actor
           \<lparr>ce_attemptId = Some attemptId, ce_evidenceIds = [], ce_entry = swap_marker m True\<rparr> id None]
      else
        [\<lambda>fresh. Inr (Some ([], \<lambda>l. case dget (r_targets l) targetId of None \<Rightarrow> l
           | Some x \<Rightarrow> l\<lparr>r_targets := dput targetId ((swap_marker m True x)\<lparr>le_updatedAt := now\<rparr>) (r_targets l), r_updatedAt := now\<rparr>)),
         progress_plan now targetId attemptId (le_evidenceIds e) actor (''completion approved by '' @ actor)])"

subsection \<open>Control-plane actions\<close>

text \<open>
  An action reads the run, decides what to ask for, and commits that to the newest ledger, which may have changed
  in between: these are the decisions on the run that was read. \<open>None\<close> means that the run is returned as it is.
\<close>

definition pause_request :: "Driver \<Rightarrow> GoalRunLedger \<Rightarrow> GoalRunStatus option" where
  "pause_request d run =
     (if r_status run \<in> {RPaused, RPausing} then None else Some (if dr_active d \<noteq> [] then RPausing else RPaused))"

definition resume_request :: "GoalRunLedger \<Rightarrow> GoalRunStatus option result" where
  "resume_request run =
     (if r_status run \<in> set TERMINAL_RUN \<or> r_status run = RStopping then Inl (failure VALIDATION)
      else if r_status run = RRunning then Inr None else Inr (Some RRunning))"

definition stop_request :: "Driver \<Rightarrow> GoalRunLedger \<Rightarrow> GoalRunStatus option" where
  "stop_request d run =
     (if r_status run \<in> set TERMINAL_RUN then None else Some (if dr_active d = [] then RStopped else RStopping))"

definition retry_check :: "GoalGraphDefinition \<Rightarrow> TargetId \<Rightarrow> GoalRunLedger \<Rightarrow> unit result" where
  "retry_check graph targetId run =
     bindE (targetOf graph targetId) (\<lambda>_.
       if r_status run \<in> set TERMINAL_RUN then Inl (failure VALIDATION)
       else case dget (r_targets run) targetId of None \<Rightarrow> Inl (failure VALIDATION)
         | Some e \<Rightarrow> guardE (le_status e \<in> {Failed, Blocked, AwaitingExternal, Stopped}) (failure VALIDATION))"

definition run_eligible_check :: "GoalGraphDefinition \<Rightarrow> TargetId \<Rightarrow> GoalRunLedger \<Rightarrow> unit result" where
  "run_eligible_check graph targetId run =
     bindE (targetOf graph targetId) (\<lambda>_.
       if r_status run \<notin> {RRunning, RIdle, RCreated} then Inl (failure VALIDATION)
       else guardE (targetId \<in> set (eligibleTargets run (g_targets graph))) (failure VALIDATION))"

definition init_plan :: "timestamp \<Rightarrow> GoalGraphDefinition \<Rightarrow> GoalRunLedger \<Rightarrow> CommitPlan option result" where
  "init_plan now graph fresh =
     Inr (Some ([], \<lambda>l. l\<lparr>r_targets := fold (\<lambda>t d. if dget d (t_id t) = None then dput (t_id t) (emptyEntry (t_id t) now) d else d) (g_targets graph) (r_targets l)\<rparr>))"

subsection \<open>Markers can be read back\<close>

lemma after_prefix_append [simp]: "after_prefix p (p @ s) = Some s"
  by (simp add: after_prefix_def)

lemma after_prefix_clash: "c \<noteq> d \<Longrightarrow> after_prefix (xs @ c # p) (xs @ d # s) = None"
  by (simp add: after_prefix_def startsWith_def)

lemma digits_then_colon:
  "takeWhile is_digit (show_nat n @ CHR '':'' # s) = show_nat n"
  "dropWhile is_digit (show_nat n @ CHR '':'' # s) = CHR '':'' # s"
  using show_nat_digits [of n] by (auto simp: takeWhile_append dropWhile_append is_digit_def)

lemma choose_state:
  "first_choice [(''pending:'', Pending), (''granted:'', Granted), (''denied:'', Denied)] (marker_state_str st @ CHR '':'' # s) = Some (st, s)"
  by (cases st) (simp_all add: after_prefix_def startsWith_def)

lemma choose_kind:
  "first_choice [(''execute:'', ExecuteApproval), (''complete:'', CompleteApproval)] (approval_kind_str k @ CHR '':'' # s) = Some (k, s)"
  by (cases k) (simp_all add: after_prefix_def startsWith_def)

definition one_line :: "string \<Rightarrow> bool" where
  "one_line s \<longleftrightarrow> CHR 10 \<notin> set s \<and> CHR 13 \<notin> set s"

definition scope_text :: "string option \<Rightarrow> string" where
  "scope_text scope = (case scope of None \<Rightarrow> [] | Some s \<Rightarrow> s)"

lemma parse_marker:
  "parseApprovalMarker (approvalMarker st k n scope) =
     (if one_line (scope_text scope)
      then Some \<lparr>mk_state = st, mk_kind = k, mk_attempt = n, mk_scope = scope_text scope\<rparr> else None)"
proof -
  have "approvalMarker st k n scope =
      ''approval:'' @ marker_state_str st @ CHR '':'' # approval_kind_str k @ CHR '':'' # show_nat n @ CHR '':'' # scope_text scope"
    by (simp add: approvalMarker_def scope_text_def)
  then show ?thesis
    by (simp only: parseApprovalMarker_def after_prefix_append bind.bind_lunit choose_state choose_kind prod.case digits_then_colon Let_def)
      (simp add: one_line_def)
qed

text \<open>
  An approval marker written by the controller is read back with its state, kind, attempt number
  and scope; only a scope that spans several lines makes it unreadable.
\<close>
theorem approvalMarker_roundtrip:
  "parseApprovalMarker (approvalMarker st k n scope) =
     (if one_line (scope_text scope)
      then Some \<lparr>mk_state = st, mk_kind = k, mk_attempt = n, mk_scope = scope_text scope\<rparr> else None)"
  by (rule parse_marker)

subsection \<open>What the second gate requires\<close>

lemma evidence_by_id:
  "map_of (rev (map (\<lambda>e. (ev_id e, e)) evidence)) i = Some e \<Longrightarrow> e \<in> set evidence \<and> ev_id e = i"
  by (auto dest: map_of_SomeD)

lemma evidence_reasons_Nil:
  "evidence_reasons evidence executor i = [] \<Longrightarrow>
     \<exists>e \<in> set evidence. ev_id e = i \<and> ev_verdict e = PASS \<and> ev_validatorIdentity e \<noteq> ev_executorIdentity e \<and> ev_validatorIdentity e \<noteq> executor"
  by (auto simp: evidence_reasons_def split: option.splits if_splits dest!: evidence_by_id)

text \<open>One criterion of a gate decision is backed by passing evidence from validators other than the executor.\<close>

definition independently_backed :: "EvidenceRecord list \<Rightarrow> string \<Rightarrow> CriterionVerdict \<Rightarrow> bool" where
  "independently_backed evidence executor c \<longleftrightarrow>
     cv_verdict c = PASS \<and> cv_evidenceIds c \<noteq> [] \<and>
     (\<forall>i \<in> set (cv_evidenceIds c). \<exists>e \<in> set evidence. ev_id e = i \<and> ev_verdict e = PASS \<and>
        ev_validatorIdentity e \<noteq> ev_executorIdentity e \<and> ev_validatorIdentity e \<noteq> executor)"

lemma criterion_reasons_Nil: "criterion_reasons evidence executor c = [] \<Longrightarrow> independently_backed evidence executor c"
  unfolding criterion_reasons_def independently_backed_def using evidence_reasons_Nil by auto

text \<open>
  C18. The controller's own check lets a target complete only when the gate decided so, every acceptance
  criterion is covered, and each criterion passes on the evidence of validators that are neither the
  executor named in the evidence nor the model that ran the attempt; an external dependency also needs an
  external or human record, and a target that requires approval a granted marker.
\<close>
theorem enforceGate_completes_only_on_evidence:
  assumes "enforceGate gate evidence target executor entry = (GCompleted, rs)"
  shows "gd_decision gate = GCompleted \<and> length (t_acceptance target) \<le> length (gd_perCriterion gate) \<and>
    list_all (independently_backed evidence executor) (gd_perCriterion gate) \<and>
    (t_externalDependency target \<longrightarrow>
       (\<exists>e \<in> set evidence. ev_verdict e = PASS \<and> ev_validationMethod e \<in> {''external-record'', ''human-signoff''})) \<and>
    (t_requiresApproval target \<longrightarrow> (\<exists>en m. entry = Some en \<and> m \<in> set (le_blockers en) \<and> marker_matches (\<lambda>k. mk_state k = Granted) m))"
proof -
  have *: "gd_decision gate = GCompleted" "length (t_acceptance target) \<le> length (gd_perCriterion gate)"
    "\<forall>c \<in> set (gd_perCriterion gate). criterion_reasons evidence executor c = []"
    "t_externalDependency target \<longrightarrow> list_ex (\<lambda>e. ev_verdict e = PASS \<and> ev_validationMethod e \<in> {''external-record'', ''human-signoff''}) evidence"
    "t_requiresApproval target \<longrightarrow> (case entry of None \<Rightarrow> False | Some e \<Rightarrow> grantedApproval e None None)"
    using assms by (simp_all add: enforceGate_def Let_def not_less split: if_splits)
  have "list_all (independently_backed evidence executor) (gd_perCriterion gate)"
    using *(3) criterion_reasons_Nil by (simp add: list_all_iff)
  moreover have "t_requiresApproval target \<longrightarrow> (\<exists>en m. entry = Some en \<and> m \<in> set (le_blockers en) \<and> marker_matches (\<lambda>k. mk_state k = Granted) m)"
    using *(5) by (cases entry) (auto simp: grantedApproval_def list_ex_iff)
  moreover have "t_externalDependency target \<longrightarrow>
      (\<exists>e \<in> set evidence. ev_verdict e = PASS \<and> ev_validationMethod e \<in> {''external-record'', ''human-signoff''})"
    using *(4) by (simp add: list_ex_iff)
  ultimately show ?thesis using *(1,2) by blast
qed

definition sample_evidence :: EvidenceRecord where
  "sample_evidence = \<lparr>ev_id = ''e'', ev_runId = ''r'', ev_targetId = ''t'', ev_attemptId = ''r:t:1'', ev_graphRevision = 1, ev_workspaceRevision = ''w'',
     ev_artifacts = [], ev_validationMethod = ''human-signoff'', ev_validatorIdentity = ''user:v'', ev_executorIdentity = ''m'', ev_verdict = PASS,
     ev_criterion = Some ''c'', ev_command = None, ev_exitCode = None, ev_outputExcerpt = None, ev_limitations = [], ev_createdAt = 0\<rparr>"

definition sample_decision :: AcceptanceGateDecision where
  "sample_decision = \<lparr>gd_runId = ''r'', gd_targetId = ''t'', gd_attemptId = ''r:t:1'', gd_decision = GCompleted,
     gd_perCriterion = [\<lparr>cv_criterion = ''c'', cv_verdict = PASS, cv_evidenceIds = [''e'']\<rparr>], gd_reasons = [], gd_decidedAt = 0\<rparr>"

definition sample_gated :: GoalTarget where
  "sample_gated = (Eligibility.sample_target ''t'' [] 1)\<lparr>t_acceptance := [''c''], t_externalDependency := True, t_requiresApproval := True\<rparr>"

definition sample_granted :: TargetLedgerEntry where
  "sample_granted = (emptyEntry ''t'' 0)\<lparr>le_blockers := [approvalMarker Granted CompleteApproval 1 None]\<rparr>"

theorem enforceGate_completes_only_on_evidence_witness:
  "list_all (independently_backed [sample_evidence] ''m'') (gd_perCriterion sample_decision) \<and>
   enforceGate sample_decision [sample_evidence] sample_gated ''m'' (Some sample_granted) = (GCompleted, [])"
proof -
  have g: "grantedApproval sample_granted None None"
    by (simp add: grantedApproval_def sample_granted_def marker_matches_def parse_marker scope_text_def one_line_def)
  have "enforceGate sample_decision [sample_evidence] sample_gated ''m'' (Some sample_granted) = (GCompleted, [])"
    using g by (simp add: enforceGate_def sample_decision_def criterion_reasons_def evidence_reasons_def sample_evidence_def sample_gated_def tag_def)
  from enforceGate_completes_only_on_evidence [OF this] this show ?thesis by blast
qed

end
