(* ===== verification/Scheduler.thy ===== *)
theory Scheduler
  imports Controller
begin

text \<open>
  How the controller drives a run: \<open>commit\<close>, \<open>step\<close> and \<open>unlockDependencies\<close> of
  \<open>src/packages/goals/src/controller/controller.ts\<close>. The commit loop retries a plan against the newest
  ledger; the scheduling pass resumes, starts and settles. The step relation at the end has one rule per way
  the run or the set of attempts in flight changes; every pass is a sequence of such steps.
\<close>

subsection \<open>Committing with retries\<close>

text \<open>
  \<open>interference\<close> is what other holders write between the read and the commit of a try. A conflict is
  tried again at most \<open>COMMIT_RETRIES\<close> times; a stale lease marks the driver as lost.
\<close>

fun commit_try :: "nat \<Rightarrow> (nat \<Rightarrow> Store \<Rightarrow> Store) \<Rightarrow> timestamp \<Rightarrow> (GoalRunLedger \<Rightarrow> CommitPlan option result) \<Rightarrow> Driver \<Rightarrow> Store
    \<Rightarrow> (ctl_error + GoalRunLedger) \<times> Driver \<times> Store" where
  "commit_try n interference now plan d s =
     (if dr_lost d then (Inl (AttemptAborted AbortLeaseLost), d, s)
      else if dr_disposed d then (Inl (AttemptAborted AbortShutdown), d, s)
      else case getRun s (dr_runId d) of
        Inl e \<Rightarrow> (Inl (Thrown e), d, s)
      | Inr None \<Rightarrow> (Inl (Thrown (failure NOT_FOUND)), d, s)
      | Inr (Some fresh) \<Rightarrow>
          (case plan fresh of
             Inl e \<Rightarrow> (Inl (Thrown e), d, s)
           | Inr None \<Rightarrow> (Inr fresh, d, s)
           | Inr (Some (ts, f)) \<Rightarrow>
               (case commit now now (dr_runId d) (r_ledgerRevision fresh) (dr_lease d) (\<lambda>l. Inr (f l)) ts (interference n s) of
                  (Inr committed, s') \<Rightarrow> (Inr committed, d, s')
                | (Inl e, s') \<Rightarrow>
                    if e_code e = STALE_LEASE then (Inl (Thrown e), d\<lparr>dr_lost := True\<rparr>, s')
                    else if e_code e = LEDGER_CONFLICT \<and> n > 0 then commit_try (n - 1) interference now plan d s'
                    else (Inl (Thrown e), d, s'))))"

declare commit_try.simps [simp del]

definition commit_driver :: "(nat \<Rightarrow> Store \<Rightarrow> Store) \<Rightarrow> timestamp \<Rightarrow> (GoalRunLedger \<Rightarrow> CommitPlan option result) \<Rightarrow> Driver \<Rightarrow> Store
    \<Rightarrow> (ctl_error + GoalRunLedger) \<times> Driver \<times> Store" where
  "commit_driver = commit_try COMMIT_RETRIES"

subsection \<open>The scheduling pass\<close>

text \<open>
  A plan carried out on the ledger without interference. The pass is modelled on a run that nobody else
  commits to between its commits: each of its commits finds the ledger that the one before has left. Where the
  actions of the API commit during a pass, the code computes each commit from the newest ledger
  (\<open>commit_try\<close>); a pass may then throw where the model does not, when a transition it had planned has
  become illegal.
\<close>

definition apply_plan :: "(GoalRunLedger \<Rightarrow> CommitPlan option result) \<Rightarrow> GoalRunLedger \<Rightarrow> GoalRunLedger result" where
  "apply_plan plan run =
     bindE (plan run) (\<lambda>p. case p of None \<Rightarrow> Inr run | Some (_, f) \<Rightarrow> Inr ((f run)\<lparr>r_ledgerRevision := r_ledgerRevision run + 1\<rparr>))"

definition maxConcurrent :: "GoalGraphDefinition \<Rightarrow> nat" where
  "maxConcurrent graph = max 1 (case maxConcurrentTargets (limitsOf graph) of None \<Rightarrow> 1 | Some n \<Rightarrow> n)"

definition in_order :: "GoalGraphDefinition \<Rightarrow> TargetId list \<Rightarrow> TargetId list result" where
  "in_order graph ids =
     bindE (collectE (map (targetOf graph) ids)) (\<lambda>ts. Inr (map t_id (sort_by (compareTargets (computeCriticality (g_targets graph))) ts)))"

definition waiting_in :: "TargetStatus list \<Rightarrow> GoalRunLedger \<Rightarrow> TargetId list \<Rightarrow> TargetId list" where
  "waiting_in ss run active = map (le_targetId \<circ> snd) (filter (\<lambda>(_, e). le_status e \<in> set ss \<and> le_targetId e \<notin> set active) (r_targets run))"

definition wake_run :: "timestamp \<Rightarrow> GoalRunLedger \<Rightarrow> GoalRunLedger result" where
  "wake_run now run = (if r_status run = RIdle then apply_plan (run_status_plan now RRunning) run else Inr run)"

fun resume_loop :: "timestamp \<Rightarrow> nat \<Rightarrow> TargetId list \<Rightarrow> GoalRunLedger \<times> TargetId list \<Rightarrow> (GoalRunLedger \<times> TargetId list) result" where
  "resume_loop now limit [] st = Inr st"
| "resume_loop now limit (i # ids) (run, active) =
     (if length active \<ge> limit then Inr (run, active)
      else bindE (wake_run now run) (\<lambda>run'. resume_loop now limit ids (run', active @ [i])))"

text \<open>The result says whether the budget of tasks stopped the loop.\<close>

fun start_loop :: "timestamp \<Rightarrow> GoalGraphDefinition \<Rightarrow> bool \<Rightarrow> TargetId list \<Rightarrow> GoalRunLedger \<times> TargetId list \<times> TargetId list
    \<Rightarrow> (bool \<times> GoalRunLedger \<times> TargetId list \<times> TargetId list) result" where
  "start_loop now graph autoAdvance [] st = Inr (False, st)"
| "start_loop now graph autoAdvance (i # ids) (run, active, preferred) =
     (if length active \<ge> maxConcurrent graph then Inr (False, run, active, preferred)
      else if \<not> autoAdvance \<and> i \<notin> set preferred then start_loop now graph autoAdvance ids (run, active, preferred)
      else if res_tasksStarted (r_resource run) \<ge> maxTasksPerRun (limitsOf graph) then Inr (True, run, active, preferred)
      else
        bindE (wake_run now run) (\<lambda>run'.
        bindE (start_plan now graph i run') (\<lambda>p.
          case p of None \<Rightarrow> Inr (True, run', active, preferred)
          | Some (_, f) \<Rightarrow>
              start_loop now graph autoAdvance ids
                ((f run')\<lparr>r_ledgerRevision := r_ledgerRevision run' + 1\<rparr>, active @ [i], filter (\<lambda>j. j \<noteq> i) preferred))))"

text \<open>What the pass decides when nothing is in flight\<close>

definition settle_run :: "timestamp \<Rightarrow> GoalGraphDefinition \<Rightarrow> bool \<Rightarrow> nat \<Rightarrow> GoalRunLedger \<Rightarrow> GoalRunLedger result" where
  "settle_run now graph budgetBlocked repairing run =
     (if list_all (\<lambda>t. map_option le_status (dget (r_targets run) (t_id t)) = Some Completed) (g_targets graph)
      then apply_plan (run_status_plan now RCompleted) run
      else if budgetBlocked \<and> repairing + length (eligibleTargets run (g_targets graph)) > 0 then
        bindE (wake_run now run) (\<lambda>r1. bindE (apply_plan (run_status_plan now RStopping) r1) (apply_plan (run_status_plan now RStopped)))
      else if r_status run \<noteq> RIdle then apply_plan (run_status_plan now RIdle) run
      else Inr run)"

definition fresh_work :: "GoalGraphDefinition \<Rightarrow> GoalRunLedger \<Rightarrow> TargetId list \<Rightarrow> TargetId list \<Rightarrow> TargetId list" where
  "fresh_work graph run active preferred =
     (let eligible = filter (\<lambda>i. i \<notin> set active) (eligibleTargets run (g_targets graph));
          first = filter (\<lambda>i. i \<in> set eligible) preferred
      in first @ filter (\<lambda>i. i \<notin> set first) eligible)"

definition schedule :: "timestamp \<Rightarrow> GoalGraphDefinition \<Rightarrow> bool \<Rightarrow> GoalRunLedger \<times> TargetId list \<times> TargetId list
    \<Rightarrow> (bool \<times> GoalRunLedger \<times> TargetId list \<times> TargetId list) result" where
  "schedule now graph autoAdvance st =
     (let (run, active, preferred) = st in
      bindE (in_order graph (waiting_in IN_FLIGHT run active)) (\<lambda>resumable.
      bindE (in_order graph (waiting_in [Repairing] run active)) (\<lambda>repairing.
        bindE (resume_loop now (maxConcurrent graph) resumable (run, active)) (\<lambda>(run1, active1).
        bindE (start_loop now graph autoAdvance (repairing @ fresh_work graph run active preferred) (run1, active1, preferred)) (\<lambda>(blocked, run2, active2, preferred2).
          if active2 \<noteq> [] then Inr (False, run2, active2, preferred2)
          else bindE (settle_run now graph blocked (length repairing) run2) (\<lambda>run3. Inr (True, run3, active2, preferred2)))))))"

text \<open>One pass, without interference; the first component says that the loop may end.\<close>

definition step :: "timestamp \<Rightarrow> GoalGraphDefinition \<Rightarrow> bool \<Rightarrow> GoalRunLedger \<times> TargetId list \<times> TargetId list
    \<Rightarrow> (bool \<times> GoalRunLedger \<times> TargetId list \<times> TargetId list) result" where
  "step now graph autoAdvance st =
     (let (run, active, preferred) = st;
          set_to = (\<lambda>exit to. bindE (apply_plan (run_status_plan now to) run) (\<lambda>r. Inr (exit, r, active, preferred))) in
      case r_status run of
        RCompleted \<Rightarrow> Inr (True, st) | RStopped \<Rightarrow> Inr (True, st) | RFailed \<Rightarrow> Inr (True, st) | RPaused \<Rightarrow> Inr (True, st)
      | RPausing \<Rightarrow> if active = [] then set_to True RPaused else Inr (False, st)
      | RStopping \<Rightarrow> if active = [] then set_to True RStopped else Inr (False, st)
      | RCreated \<Rightarrow> set_to False RRunning
      | _ \<Rightarrow>
          bindE (apply_plan (unlock_plan now graph) run) (\<lambda>run1.
            if now \<ge> res_deadlineAt (r_resource run1) then
              bindE (wake_run now run1) (\<lambda>r1. bindE (apply_plan (run_status_plan now RStopping) r1) (\<lambda>r2. Inr (False, r2, active, preferred)))
            else schedule now graph autoAdvance (run1, active, preferred)))"

text \<open>
  The actions of the API on a run that is driven: \<open>run\<close> is the ledger the action read, \<open>fresh\<close> the one its commit
  finds; \<open>after_retry\<close> is what \<open>retryTarget\<close> does with the ledger it reads at its end.
\<close>

definition request_status :: "timestamp \<Rightarrow> GoalRunStatus option \<Rightarrow> GoalRunLedger \<Rightarrow> GoalRunLedger \<Rightarrow> GoalRunLedger result" where
  "request_status now to run fresh = (case to of None \<Rightarrow> Inr run | Some st \<Rightarrow> apply_plan (run_status_plan now st) fresh)"

definition pause :: "timestamp \<Rightarrow> Driver \<Rightarrow> GoalRunLedger \<Rightarrow> GoalRunLedger \<Rightarrow> GoalRunLedger result" where
  "pause now d run fresh = request_status now (pause_request d run) run fresh"

definition resume :: "timestamp \<Rightarrow> GoalRunLedger \<Rightarrow> GoalRunLedger \<Rightarrow> GoalRunLedger result" where
  "resume now run fresh = bindE (resume_request run) (\<lambda>to. request_status now to run fresh)"

definition stop_run :: "timestamp \<Rightarrow> Driver \<Rightarrow> GoalRunLedger \<Rightarrow> GoalRunLedger \<Rightarrow> GoalRunLedger result" where
  "stop_run now d run fresh = request_status now (stop_request d run) run fresh"

definition retryTarget :: "timestamp \<Rightarrow> GoalGraphDefinition \<Rightarrow> TargetId \<Rightarrow> string \<Rightarrow> GoalRunLedger \<Rightarrow> GoalRunLedger \<Rightarrow> GoalRunLedger result" where
  "retryTarget now graph targetId actor run fresh =
     bindE (retry_check graph targetId run) (\<lambda>_. apply_plan (retry_plan now targetId actor) fresh)"

definition after_retry :: "timestamp \<Rightarrow> GoalRunLedger \<Rightarrow> GoalRunLedger result" where
  "after_retry now run = (if r_status run = RIdle then apply_plan (run_status_plan now RRunning) run else Inr run)"

subsection \<open>The controller as a step relation\<close>

text \<open>
  \<open>controller_plan graph run plan\<close>: a place in the controller that may commit \<open>plan\<close> when the ledger is
  \<open>run\<close>. A run is only set to \<open>completed\<close> after the check that every target is, and actors are never empty
  (\<open>humanActor\<close>). A repair is committed when \<open>after_failure\<close> allowed it, which decides on an entry that was read
  before recovery was asked; as no other attempt at the target runs meanwhile, it has not been repaired
  more often since. Every other plan is committed unconditionally and decides itself what it does.
\<close>

definition all_completed :: "GoalGraphDefinition \<Rightarrow> GoalRunLedger \<Rightarrow> bool" where
  "all_completed graph run \<longleftrightarrow> (\<forall>t \<in> set (g_targets graph). status_of run (t_id t) = Completed)"

definition repairs_of :: "GoalRunLedger \<Rightarrow> TargetId \<Rightarrow> nat" where
  "repairs_of run i = (case dget (r_targets run) i of None \<Rightarrow> 0 | Some e \<Rightarrow> le_repairs e)"

definition entry_of :: "GoalRunLedger \<Rightarrow> TargetId \<Rightarrow> timestamp \<Rightarrow> TargetLedgerEntry" where
  "entry_of run i now = (case dget (r_targets run) i of Some e \<Rightarrow> e | None \<Rightarrow> emptyEntry i now)"

inductive controller_plan :: "GoalGraphDefinition \<Rightarrow> GoalRunLedger \<Rightarrow> (GoalRunLedger \<Rightarrow> CommitPlan option result) \<Rightarrow> bool"
  for graph run where
  init: "controller_plan graph run (init_plan now graph)"
| unlock: "controller_plan graph run (unlock_plan now graph)"
| start: "controller_plan graph run (start_plan now graph i)"
| verifying: "controller_plan graph run (verifying_plan now i a route x ok)"
| verified: "controller_plan graph run (verified_plan now i a evs)"
| progress: "actor \<noteq> [] \<Longrightarrow> controller_plan graph run (progress_plan now i a evs actor reason)"
| external: "controller_plan graph run (external_plan now i a evs rs)"
| approval: "controller_plan graph run (approval_plan now i att k scope rs)"
| block: "controller_plan graph run (block_plan now i a reason evs err)"
| stop: "controller_plan graph run (stop_plan now i a why)"
| failed: "controller_plan graph run (failed_plan now i a msg gate)"
| repairing: "after_failure (limitsOf graph) (entry_of run0 i now0) error dec prior att = Inr h \<Longrightarrow> repairs_of run i \<le> repairs_of run0 i \<Longrightarrow>
    controller_plan graph run (repairing_plan now i a action h)"
| retest: "controller_plan graph run (retest_plan now i a h)"
| retry: "actor \<noteq> [] \<Longrightarrow> controller_plan graph run (retry_plan now i actor)"
| resolve: "actor \<noteq> [] \<Longrightarrow> p \<in> set (resolve_plans now i granted actor reason e m r) \<Longrightarrow> controller_plan graph run p"
| status: "to \<noteq> RCompleted \<Longrightarrow> controller_plan graph run (run_status_plan now to)"
| completed: "all_completed graph run \<Longrightarrow> controller_plan graph run (run_status_plan now RCompleted)"

type_synonym ctl_state = "GoalRunLedger \<times> TargetId list"

inductive ctl_step :: "GoalGraphDefinition \<Rightarrow> ctl_state \<Rightarrow> ctl_state \<Rightarrow> bool" for graph where
  commit: "controller_plan graph run plan \<Longrightarrow> apply_plan plan run = Inr run' \<Longrightarrow> ctl_step graph (run, active) (run', active)"
| launch: "length active < maxConcurrent graph \<Longrightarrow> i \<notin> set active \<Longrightarrow> ctl_step graph (run, active) (run, active @ [i])"
| finish: "ctl_step graph (run, active) (run, removeAll i active)"

inductive_cases ctl_stepE: "ctl_step graph st st'"

subsection \<open>The invariant\<close>

definition attempts_total :: "GoalRunLedger \<Rightarrow> nat" where
  "attempts_total run = sum_list (map (\<lambda>(k, e). le_attempts e) (r_targets run))"

definition entry_ok :: "GoalGraphDefinition \<Rightarrow> TargetId \<Rightarrow> TargetLedgerEntry \<Rightarrow> bool" where
  "entry_ok graph k e \<longleftrightarrow> le_targetId e = k \<and> le_repairs e \<le> maxRepairsPerTask (limitsOf graph)"

definition run_inv :: "GoalGraphDefinition \<Rightarrow> GoalRunLedger \<Rightarrow> bool" where
  "run_inv graph run \<longleftrightarrow>
     distinct (dkeys (r_targets run)) \<and> (\<forall>k e. dget (r_targets run) k = Some e \<longrightarrow> entry_ok graph k e) \<and>
     attempts_total run = res_tasksStarted (r_resource run) \<and>
     res_tasksStarted (r_resource run) \<le> maxTasksPerRun (limitsOf graph) \<and>
     (r_status run = RCompleted \<longrightarrow> all_completed graph run)"

lemma sum_dput_absent: "dget d k = None \<Longrightarrow> sum_list (map (\<lambda>(k, e). f e) (dput k v d)) = sum_list (map (\<lambda>(k, e). f e) d) + (f v :: nat)"
  by (induction d) (auto split: if_splits)

lemma sum_dput_present:
  "dget d k = Some w \<Longrightarrow> distinct (dkeys d) \<Longrightarrow> sum_list (map (\<lambda>(k, e). f e) (dput k v d)) + f w = sum_list (map (\<lambda>(k, e). f e) d) + (f v :: nat)"
proof (induction d)
  case (Cons p d)
  show ?case
  proof (cases "fst p = k")
    case True
    then have "dput k v (p # d) = (k, v) # d" by (cases p) auto
    with True Cons.prems(1) show ?thesis by (cases p) simp
  next
    case False
    with Cons show ?thesis by (cases p) auto
  qed
qed simp

text \<open>The repair budget is checked by \<open>after_failure\<close>.\<close>

lemma repair_allowed: "after_failure (limitsOf graph) (entry_of run i now) error dec prior att = Inr h \<Longrightarrow> repairs_of run i < maxRepairsPerTask (limitsOf graph)"
proof -
  assume "after_failure (limitsOf graph) (entry_of run i now) error dec prior att = Inr h"
  then have "le_repairs (entry_of run i now) < maxRepairsPerTask (limitsOf graph)"
    by (auto simp: after_failure_def Let_def split: if_splits)
  then show ?thesis by (cases "dget (r_targets run) i") (auto simp: entry_of_def repairs_of_def emptyEntry_def)
qed

text \<open>Replacing one entry: what the new entry has to satisfy\<close>

lemma entry_of_inv:
  "run_inv graph run \<Longrightarrow> entry_ok graph i (entry_of run i now)"
  by (auto simp: entry_of_def run_inv_def emptyEntry_def entry_ok_def split: option.splits)

lemma run_inv_put:
  assumes inv: "run_inv graph run" and e': "entry_ok graph i e'"
    and total: "le_attempts e' + res_tasksStarted (r_resource run) = le_attempts (entry_of run i now) + res_tasksStarted res"
    and bound: "res_tasksStarted res \<le> maxTasksPerRun (limitsOf graph)"
    and st: "status_of run i = Completed \<Longrightarrow> le_status e' = Completed" and same: "r_status run' = r_status run"
    and run': "r_targets run' = dput i e' (r_targets run)" "r_resource run' = res"
  shows "run_inv graph run'"
proof -
  have "attempts_total run' = res_tasksStarted res"
  proof (cases "dget (r_targets run) i")
    case None
    then show ?thesis using inv total run' sum_dput_absent [OF None, of le_attempts e']
      by (simp add: attempts_total_def run_inv_def entry_of_def emptyEntry_def)
  next
    case (Some e)
    then show ?thesis using inv total run' sum_dput_present [OF Some, of le_attempts e']
      by (simp add: attempts_total_def run_inv_def entry_of_def)
  qed
  moreover have "distinct (dkeys (r_targets run'))" using inv run' by (simp add: run_inv_def distinct_update)
  moreover have "all_completed graph run \<Longrightarrow> all_completed graph run'"
    using st run' by (auto simp: all_completed_def status_of_def)
  ultimately show ?thesis using inv e' bound same run' by (auto simp: run_inv_def)
qed

text \<open>A change of a target's entry that leaves the target, its counter of attempts and its status to \<open>apply_change\<close>\<close>

definition keeps_counts :: "GoalGraphDefinition \<Rightarrow> GoalRunLedger \<Rightarrow> TargetId \<Rightarrow> ChangeExtra \<Rightarrow> bool" where
  "keeps_counts graph run i x \<longleftrightarrow> (\<forall>e. le_targetId (ce_entry x e) = le_targetId e \<and> le_attempts (ce_entry x e) = le_attempts e \<and>
     (le_repairs e \<le> repairs_of run i \<and> repairs_of run i \<le> maxRepairsPerTask (limitsOf graph) \<longrightarrow> le_repairs (ce_entry x e) \<le> maxRepairsPerTask (limitsOf graph)))"

lemma repairs_of_entry: "le_repairs (entry_of run i now) = repairs_of run i"
  by (simp add: repairs_of_def entry_of_def emptyEntry_def split: option.splits)

lemma apply_change_eq:
  "r_targets (apply_change now i to x l) = dput i (ce_entry x (let e = (entry_of l i now)\<lparr>le_status := to, le_updatedAt := now\<rparr>
     in if ce_evidenceIds x \<noteq> [] then e\<lparr>le_evidenceIds := ce_evidenceIds x\<rparr> else e)) (r_targets l)"
  "r_resource (apply_change now i to x l) = r_resource l" "r_status (apply_change now i to x l) = r_status l"
  by (simp_all add: apply_change_def Let_def entry_of_def)

lemma apply_change_inv:
  assumes inv: "run_inv graph run" and x: "keeps_counts graph run i x" and st: "status_of run i \<noteq> Completed"
  shows "run_inv graph (apply_change now i to x run)"
  using inv
proof (rule run_inv_put [OF _ _ _ _ _ _ apply_change_eq(1,2)])
  have ok: "entry_ok graph i (entry_of run i now)" using inv by (rule entry_of_inv)
  then show "entry_ok graph i (ce_entry x (let e = (entry_of run i now)\<lparr>le_status := to, le_updatedAt := now\<rparr>
     in if ce_evidenceIds x \<noteq> [] then e\<lparr>le_evidenceIds := ce_evidenceIds x\<rparr> else e))"
    using x repairs_of_entry [of run i now] by (simp add: keeps_counts_def entry_ok_def Let_def)
  show "le_attempts (ce_entry x (let e = (entry_of run i now)\<lparr>le_status := to, le_updatedAt := now\<rparr>
     in if ce_evidenceIds x \<noteq> [] then e\<lparr>le_evidenceIds := ce_evidenceIds x\<rparr> else e)) + res_tasksStarted (r_resource run) =
     le_attempts (entry_of run i now) + res_tasksStarted (r_resource run)"
    using x by (simp add: keeps_counts_def Let_def)
qed (use inv st in \<open>simp_all add: apply_change_eq run_inv_def\<close>)

lemma change_Inr:
  "change now fresh i to reason actor x = Inr (t, f) \<longleftrightarrow>
     assertTargetTransition i (status_of fresh i) to actor = Inr () \<and> f = apply_change now i to x \<and>
     t = \<lparr>tr_runId = r_runId fresh, tr_targetId = i, tr_fromState = status_of fresh i, tr_toState = to, tr_reason = reason, tr_actor = actor,
          tr_timestamp = Some now, tr_attemptId = ce_attemptId x, tr_evidenceIds = ce_evidenceIds x\<rparr>"
  by (auto simp: change_def Let_def result_simps)

lemma change_not_completed: "change now fresh i to reason actor x = Inr (t, f) \<Longrightarrow> status_of fresh i \<noteq> Completed"
  using transition_from_Completed by (auto simp: change_Inr)

text \<open>Two ledgers with the same entries, status and number of tasks started\<close>

definition same_run :: "GoalRunLedger \<Rightarrow> GoalRunLedger \<Rightarrow> bool" where
  "same_run a b \<longleftrightarrow> r_targets a = r_targets b \<and> r_status a = r_status b \<and> res_tasksStarted (r_resource a) = res_tasksStarted (r_resource b)"

lemma run_inv_same: "same_run a b \<Longrightarrow> run_inv graph a \<longleftrightarrow> run_inv graph b"
  by (simp add: same_run_def run_inv_def attempts_total_def all_completed_def status_of_def)

lemma same_run_revision [simp]: "same_run (l\<lparr>r_ledgerRevision := n\<rparr>) l"
  by (simp add: same_run_def)

lemma apply_plan_Inr:
  "apply_plan plan run = Inr run' \<longleftrightarrow>
     plan run = Inr None \<and> run' = run \<or> (\<exists>ts f. plan run = Inr (Some (ts, f)) \<and> run' = (f run)\<lparr>r_ledgerRevision := r_ledgerRevision run + 1\<rparr>)"
  by (auto simp: apply_plan_def result_simps split: option.splits)

text \<open>Every plan keeps the invariant of the run.\<close>

definition keeps_inv :: "GoalGraphDefinition \<Rightarrow> GoalRunLedger \<Rightarrow> (GoalRunLedger \<Rightarrow> CommitPlan option result) \<Rightarrow> bool" where
  "keeps_inv graph run plan \<longleftrightarrow> (\<forall>ts f. plan run = Inr (Some (ts, f)) \<longrightarrow> run_inv graph run \<longrightarrow> run_inv graph (f run))"

lemma keeps_inv_apply: "keeps_inv graph run plan \<Longrightarrow> apply_plan plan run = Inr run' \<Longrightarrow> run_inv graph run \<Longrightarrow> run_inv graph run'"
  by (auto simp: keeps_inv_def apply_plan_Inr run_inv_same [OF same_run_revision])

lemma transition_plan_Some:
  "transition_plan now i to reason actor x g onlyFrom fresh = Inr (Some (ts, f)) \<Longrightarrow>
     \<exists>t f0. change now fresh i to reason actor x = Inr (t, f0) \<and> f = (\<lambda>l. g (f0 l)) \<and> ts = [t] \<and> status_of fresh i \<noteq> to"
  by (auto simp: transition_plan_def Let_def result_simps split: if_splits)

lemma transition_plan_keeps:
  assumes x: "keeps_counts graph run i x" and g: "\<And>l. same_run (g l) l"
  shows "keeps_inv graph run (transition_plan now i to reason actor x g onlyFrom)"
  unfolding keeps_inv_def
proof (intro allI impI)
  fix ts f
  assume "transition_plan now i to reason actor x g onlyFrom run = Inr (Some (ts, f))" and inv: "run_inv graph run"
  then obtain t f0 where c: "change now run i to reason actor x = Inr (t, f0)" and f: "f = (\<lambda>l. g (f0 l))"
    using transition_plan_Some by blast
  from c have "f0 = apply_change now i to x" by (simp add: change_Inr)
  then show "run_inv graph (f run)"
    using apply_change_inv [OF inv x change_not_completed [OF c]] f run_inv_same [OF g] by simp
qed

lemma same_run_id [simp]: "same_run (id l) l" "same_run l l"
  by (simp_all add: same_run_def)

lemmas target_plan_defs = verifying_plan_def verified_plan_def external_plan_def approval_plan_def block_plan_def stop_plan_def
  failed_plan_def repairing_plan_def retest_plan_def retry_plan_def no_extra_def

lemma target_plans_keep:
  "keeps_inv graph run (verifying_plan now i a route x ok)" "keeps_inv graph run (verified_plan now i a evs)"
  "keeps_inv graph run (external_plan now i a evs rs)" "keeps_inv graph run (approval_plan now i att k scope rs)"
  "keeps_inv graph run (block_plan now i a reason evs err)" "keeps_inv graph run (stop_plan now i a why)"
  "keeps_inv graph run (failed_plan now i a msg gate)" "keeps_inv graph run (retest_plan now i a h)"
  "keeps_inv graph run (retry_plan now i actor)"
  "repairs_of run i < maxRepairsPerTask (limitsOf graph) \<Longrightarrow> keeps_inv graph run (repairing_plan now i a action h)"
  unfolding target_plan_defs by (rule transition_plan_keeps; auto simp: keeps_counts_def same_run_def)+

lemma run_status_plan_keeps:
  "to \<noteq> RCompleted \<or> all_completed graph run \<Longrightarrow> keeps_inv graph run (run_status_plan now to)"
  by (auto simp: keeps_inv_def run_status_plan_def run_inv_def attempts_total_def all_completed_def status_of_def split: if_splits)

lemma status_apply_change:
  "le_status (ce_entry x (let e = (entry_of l i now)\<lparr>le_status := to, le_updatedAt := now\<rparr>
     in if ce_evidenceIds x \<noteq> [] then e\<lparr>le_evidenceIds := ce_evidenceIds x\<rparr> else e)) = to \<Longrightarrow>
   status_of (apply_change now i to x l) j = (if j = i then to else status_of l j)"
  by (simp add: status_of_def apply_change_eq(1))

lemma status_apply_no_extra [simp]: "status_of (apply_change now i to no_extra l) j = (if j = i then to else status_of l j)"
  by (rule status_apply_change) (simp add: no_extra_def)

lemma unlock_fold:
  "list_all (\<lambda>c. \<exists>i. snd c = apply_change now i Eligible no_extra \<and> status_of l i \<noteq> Completed) cs \<Longrightarrow> run_inv graph l \<Longrightarrow>
     run_inv graph (fold (\<lambda>c. snd c) cs l)"
proof (induction cs arbitrary: l)
  case (Cons c cs)
  then obtain i where c: "snd c = apply_change now i Eligible no_extra" "status_of l i \<noteq> Completed" by auto
  have "run_inv graph (snd c l)"
    using c Cons.prems(2) by (simp add: apply_change_inv keeps_counts_def no_extra_def)
  moreover have "list_all (\<lambda>c. \<exists>i. snd c = apply_change now i Eligible no_extra \<and> status_of (apply_change now i' Eligible no_extra l) i \<noteq> Completed) cs" for i'
    using Cons.prems(1) by (auto simp: list_all_iff)
  ultimately show ?case using Cons.IH c(1) by simp
qed simp

definition unlock_change :: "timestamp \<Rightarrow> GoalGraphDefinition \<Rightarrow> GoalRunLedger \<Rightarrow> TargetId \<Rightarrow> (TargetTransition \<times> (GoalRunLedger \<Rightarrow> GoalRunLedger)) result" where
  "unlock_change now graph run i = bindE (targetOf graph i) (\<lambda>t. change now run i Eligible (unlock_reason t) CONTROLLER_ACTOR no_extra)"

lemma unlock_change_Inr:
  "unlock_change now graph run i = Inr c \<Longrightarrow> snd c = apply_change now i Eligible no_extra \<and> status_of run i \<noteq> Completed"
  unfolding unlock_change_def bindE_Inr by (metis change_Inr change_not_completed prod.collapse)

lemma unlock_plan_Some:
  assumes "unlock_plan now graph run = Inr (Some (ts, f))"
  shows "\<exists>cs :: (TargetTransition \<times> (GoalRunLedger \<Rightarrow> GoalRunLedger)) list. f = fold (\<lambda>c. snd c) cs \<and> list_all (\<lambda>c. \<exists>i. snd c = apply_change now i Eligible no_extra \<and> status_of run i \<noteq> Completed) cs"
proof -
  from assms obtain cs where cs: "collectE (map (unlock_change now graph run) (newlyUnlockedTargets run (g_targets graph))) = Inr cs"
    and f: "f = fold (\<lambda>c. snd c) cs"
    unfolding unlock_plan_def Let_def unlock_change_def [abs_def] by (cases "newlyUnlockedTargets run (g_targets graph) = []") (simp, simp only: if_False bindE_Inr, auto)
  from cs have "\<forall>c \<in> set cs. Inr c \<in> unlock_change now graph run ` set (newlyUnlockedTargets run (g_targets graph))"
    unfolding collectE_Inr by (metis imageI list.set_map)
  then have "\<forall>c \<in> set cs. \<exists>i. unlock_change now graph run i = Inr c" by (metis imageE)
  then have "list_all (\<lambda>c. \<exists>i. snd c = apply_change now i Eligible no_extra \<and> status_of run i \<noteq> Completed) cs"
    unfolding list_all_iff using unlock_change_Inr by blast
  with f show ?thesis by blast
qed

lemma unlock_plan_keeps: "keeps_inv graph run (unlock_plan now graph)"
  unfolding keeps_inv_def
proof (intro allI impI)
  fix ts f
  assume "unlock_plan now graph run = Inr (Some (ts, f))" "run_inv graph run"
  then show "run_inv graph (f run)" using unlock_plan_Some [of now graph run ts f] unlock_fold by blast
qed

text \<open>Starting an attempt\<close>

definition started_entry :: "GoalRunLedger \<Rightarrow> TargetId \<Rightarrow> timestamp \<Rightarrow> TargetLedgerEntry" where
  "started_entry run i now = (let e = entry_of run i now; n = (if reuse_attempt e then le_attempts e else le_attempts e + 1) in
     e\<lparr>le_status := Active, le_updatedAt := now, le_attempts := n, le_lastAttemptId := Some (attemptIdFor (r_runId run) i n)\<rparr>)"

definition started_resource :: "GoalRunLedger \<Rightarrow> TargetId \<Rightarrow> timestamp \<Rightarrow> RunResource" where
  "started_resource run i now = (if reuse_attempt (entry_of run i now) then r_resource run
     else (r_resource run)\<lparr>res_tasksStarted := res_tasksStarted (r_resource run) + 1\<rparr>)"

lemma start_plan_Some:
  assumes "start_plan now graph i run = Inr (Some (ts, f))"
  shows "assertTargetTransition i (status_of run i) Active CONTROLLER_ACTOR = Inr ()"
    "reuse_attempt (entry_of run i now) \<or> res_tasksStarted (r_resource run) < maxTasksPerRun (limitsOf graph)"
    "f run = run\<lparr>r_targets := dput i (started_entry run i now) (r_targets run), r_resource := started_resource run i now, r_updatedAt := now\<rparr>"
proof -
  let ?e = "entry_of run i now"
  have e: "(case dget (r_targets run) i of Some e \<Rightarrow> e | None \<Rightarrow> emptyEntry i now) = ?e" by (simp add: entry_of_def)
  define n where "n = (if reuse_attempt ?e then le_attempts ?e else le_attempts ?e + 1)"
  define x where "x = \<lparr>ce_attemptId = Some (attemptIdFor (r_runId run) i n), ce_evidenceIds = [],
          ce_entry = (\<lambda>e. e\<lparr>le_attempts := n, le_lastAttemptId := Some (attemptIdFor (r_runId run) i n)\<rparr>)\<rparr>"
  from assms show b: "reuse_attempt ?e \<or> res_tasksStarted (r_resource run) < maxTasksPerRun (limitsOf graph)"
    unfolding start_plan_def Let_def e by (auto split: if_splits)
  from assms b obtain reason t f0 where c: "change now run i Active reason CONTROLLER_ACTOR x = Inr (t, f0)"
    and f: "f = (\<lambda>l. let l' = f0 l in if reuse_attempt ?e then l'
             else l'\<lparr>r_resource := (r_resource l')\<lparr>res_tasksStarted := res_tasksStarted (r_resource l') + 1\<rparr>\<rparr>)"
    unfolding start_plan_def Let_def e n_def [symmetric] x_def by (cases "reuse_attempt ?e") (auto simp: bindE_Inr)
  from c show "assertTargetTransition i (status_of run i) Active CONTROLLER_ACTOR = Inr ()" by (simp add: change_Inr)
  from c have f0: "f0 = apply_change now i Active x" by (simp add: change_Inr)
  have "apply_change now i Active x run = run\<lparr>r_targets := dput i (started_entry run i now) (r_targets run), r_updatedAt := now\<rparr>"
    by (simp add: apply_change_def e Let_def x_def started_entry_def n_def)
  then show "f run = run\<lparr>r_targets := dput i (started_entry run i now) (r_targets run), r_resource := started_resource run i now, r_updatedAt := now\<rparr>"
    unfolding f f0 Let_def started_resource_def by (cases "reuse_attempt ?e") simp_all
qed

lemma start_plan_keeps: "keeps_inv graph run (start_plan now graph i)"
  unfolding keeps_inv_def
proof (intro allI impI)
  fix ts f
  assume s: "start_plan now graph i run = Inr (Some (ts, f))" and inv: "run_inv graph run"
  have ok: "entry_ok graph i (entry_of run i now)" using inv by (rule entry_of_inv)
  have "status_of run i \<noteq> Completed" using start_plan_Some(1) [OF s] transition_from_Completed by auto
  then show "run_inv graph (f run)" using ok start_plan_Some(2) [OF s] inv
    by (intro run_inv_put [OF inv, where i = i and now = now and e' = "started_entry run i now" and res = "started_resource run i now"])
      (auto simp: start_plan_Some(3) [OF s] entry_ok_def started_entry_def started_resource_def Let_def run_inv_def)
qed

lemma progress_plan_keeps: "keeps_inv graph run (progress_plan now i a evs actor reason)"
  unfolding keeps_inv_def
proof (intro allI impI)
  fix ts f
  assume p: "progress_plan now i a evs actor reason run = Inr (Some (ts, f))" and inv: "run_inv graph run"
  let ?d = "\<lparr>ce_attemptId = Some a, ce_evidenceIds = evs, ce_entry = (\<lambda>e. e\<lparr>le_blockers := without_pending (le_blockers e)\<rparr>)\<rparr>"
  let ?v = "\<lparr>ce_attemptId = Some a, ce_evidenceIds = evs, ce_entry = id\<rparr>"
  have kv: "keeps_counts graph l i ?v" and kd: "keeps_counts graph l i ?d" for l by (simp_all add: keeps_counts_def)
  show "run_inv graph (f run)"
  proof (cases "map_option le_status (dget (r_targets run) i) = Some Verifying")
    case True
    with p obtain t1 f1 t2 f2 where c: "change now run i Verified ''independent verification passed'' ''verifier'' ?v = Inr (t1, f1)"
      "change now (f1 run) i Completed reason actor ?d = Inr (t2, f2)" "f = (\<lambda>l. f2 (f1 l))"
      unfolding progress_plan_def Let_def True by (auto simp: bindE_Inr)
    have f1: "f1 = apply_change now i Verified ?v" and f2: "f2 = apply_change now i Completed ?d" using c by (simp_all add: change_Inr)
    have "run_inv graph (f1 run)" unfolding f1 by (rule apply_change_inv [OF inv kv change_not_completed [OF c(1)]])
    then have "run_inv graph (f2 (f1 run))" unfolding f2 by (rule apply_change_inv [OF _ kd change_not_completed [OF c(2)]])
    with c(3) show ?thesis by simp
  next
    case False
    with p obtain t where c: "change now run i Completed reason actor ?d = Inr (t, f)"
      unfolding progress_plan_def Let_def by (auto simp: bindE_Inr split: if_splits)
    then have "f = apply_change now i Completed ?d" by (simp add: change_Inr)
    then show ?thesis using apply_change_inv [OF inv kd change_not_completed [OF c]] by simp
  qed
qed

lemma init_plan_keeps: "keeps_inv graph run (init_plan now graph)"
proof -
  let ?add = "\<lambda>t d. if dget d (t_id t) = None then dput (t_id t) (emptyEntry (t_id t) now) d else d"
  have "run_inv graph (run\<lparr>r_targets := d\<rparr>) \<Longrightarrow> run_inv graph (run\<lparr>r_targets := fold ?add ts d\<rparr>)" for ts d
  proof (induction ts arbitrary: d)
    case (Cons t ts)
    have "run_inv graph (run\<lparr>r_targets := dput (t_id t) (emptyEntry (t_id t) now) d\<rparr>)" if "dget d (t_id t) = None"
      using Cons.prems that by (intro run_inv_put [OF Cons.prems, where i = "t_id t" and now = now and e' = "emptyEntry (t_id t) now" and res = "r_resource run"])
        (simp_all add: entry_of_def emptyEntry_def entry_ok_def run_inv_def status_of_def)
    then show ?case using Cons by simp
  qed simp
  from this [of "r_targets run"] show ?thesis by (auto simp: keeps_inv_def init_plan_def)
qed

lemma swap_marker_fields [simp]:
  "le_targetId (swap_marker m g e) = le_targetId e" "le_attempts (swap_marker m g e) = le_attempts e"
  "le_repairs (swap_marker m g e) = le_repairs e" "le_status (swap_marker m g e) = le_status e"
  by (simp_all add: swap_marker_def Let_def)

lemma resolve_plans_keep:
  assumes "p \<in> set (resolve_plans now i granted actor reason e m r)"
  shows "keeps_inv graph run p"
proof (cases "granted \<and> mk_kind m \<noteq> ExecuteApproval")
  case False
  then show ?thesis using assms
    by (cases granted) (auto simp: resolve_plans_def Let_def intro!: transition_plan_keeps simp: keeps_counts_def)
next
  case True
  let ?swap = "\<lambda>l. case dget (r_targets l) i of None \<Rightarrow> l
     | Some x \<Rightarrow> l\<lparr>r_targets := dput i ((swap_marker m True x)\<lparr>le_updatedAt := now\<rparr>) (r_targets l), r_updatedAt := now\<rparr>"
  have "run_inv graph run \<Longrightarrow> run_inv graph (?swap run)"
  proof (cases "dget (r_targets run) i")
    case (Some x)
    assume inv: "run_inv graph run"
    then have "entry_ok graph i x" using Some by (simp add: run_inv_def)
    with Some inv show ?thesis
      by (intro run_inv_put [OF inv, where i = i and now = now and e' = "(swap_marker m True x)\<lparr>le_updatedAt := now\<rparr>" and res = "r_resource run"])
        (simp_all add: entry_ok_def entry_of_def status_of_def run_inv_def)
  qed simp
  then show ?thesis using assms True progress_plan_keeps by (auto simp: resolve_plans_def Let_def keeps_inv_def)
qed

lemma controller_plan_keeps: "controller_plan graph run plan \<Longrightarrow> keeps_inv graph run plan"
  by (induction rule: controller_plan.induct)
    (auto intro: init_plan_keeps unlock_plan_keeps start_plan_keeps target_plans_keep progress_plan_keeps resolve_plans_keep
      run_status_plan_keeps le_less_trans [OF _ repair_allowed])

definition ctl_inv :: "GoalGraphDefinition \<Rightarrow> ctl_state \<Rightarrow> bool" where
  "ctl_inv graph st \<longleftrightarrow> run_inv graph (fst st) \<and> distinct (snd st) \<and> length (snd st) \<le> maxConcurrent graph"

lemma ctl_step_inv: "ctl_step graph st st' \<Longrightarrow> ctl_inv graph st \<Longrightarrow> ctl_inv graph st'"
proof (induction rule: ctl_step.induct)
  case (commit run plan run' active)
  then show ?case using keeps_inv_apply [OF controller_plan_keeps] by (auto simp: ctl_inv_def)
next
  case (finish run active i)
  then show ?case by (auto simp: ctl_inv_def removeAll_filter_not_eq intro: le_trans [OF length_filter_le])
qed (auto simp: ctl_inv_def)

lemma ctl_steps_inv: "(ctl_step graph)\<^sup>*\<^sup>* st st' \<Longrightarrow> ctl_inv graph st \<Longrightarrow> ctl_inv graph st'"
  by (induction rule: rtranclp_induct) (auto intro: ctl_step_inv)

text \<open>A run as \<open>createRun\<close> makes it\<close>

lemma add_entries_inv:
  "foldE (add_entry now) d ts = Inr d' \<Longrightarrow> run_inv graph (run\<lparr>r_targets := d\<rparr>) \<Longrightarrow> run_inv graph (run\<lparr>r_targets := d'\<rparr>)"
proof (induction ts arbitrary: d)
  case (Cons t ts)
  then obtain d1 where d1: "add_entry now d t = Inr d1" "foldE (add_entry now) d1 ts = Inr d'" by (auto simp: bindE_Inr)
  then have "dget d (t_id t) = None" "d1 = dput (t_id t) (new_entry now t) d" by (simp_all add: add_entry_def split: if_splits)
  then have "run_inv graph (run\<lparr>r_targets := d1\<rparr>)"
    using Cons.prems(2) by (intro run_inv_put [OF Cons.prems(2), where i = "t_id t" and now = now and e' = "new_entry now t" and res = "r_resource run"])
      (simp_all add: entry_of_def emptyEntry_def new_entry_def entry_ok_def run_inv_def status_of_def)
  with d1(2) Cons.IH show ?case by blast
qed simp

lemma createRun_inv:
  assumes "createRun now uuid graph createdBy rid s = (Inr run, s')"
  shows "ctl_inv (gr_definition graph) (run, [])"
proof -
  from assms obtain r targets where t: "foldE (add_entry now) [] (g_targets (gr_definition graph)) = Inr targets"
    and run: "run = new_ledger now graph createdBy r targets"
    by (auto simp: createRun_def Let_def update_run_def atomicUpdate_def new_envelope_def split: if_splits sum.splits option.splits)
  have "run_inv (gr_definition graph) (run\<lparr>r_targets := []\<rparr>)"
    by (simp add: run_inv_def run new_ledger_def attempts_total_def)
  from add_entries_inv [OF t this] show ?thesis by (simp add: ctl_inv_def run new_ledger_def)
qed

text \<open>
  C6. Whatever the controller commits, launches and finishes, in any order, after a run was created, where a repair
  is committed when the treatment of a failed attempt (\<open>after_failure\<close>) has decided on it: the
  number of tasks started is the number of attempts over all targets and stays within \<open>maxTasksPerRun\<close>,
  no target is repaired more often than \<open>maxRepairsPerTask\<close>, at most \<open>maxConcurrentTargets\<close> attempts are in
  flight and never two of one target, and the run is \<open>completed\<close> only when every target of the graph is.
\<close>
theorem run_stays_within_limits:
  assumes "createRun now uuid graph createdBy rid s = (Inr run\<^sub>0, s')"
    and "(ctl_step (gr_definition graph))\<^sup>*\<^sup>* (run\<^sub>0, []) (run, active)"
  shows "attempts_total run = res_tasksStarted (r_resource run) \<and>
    res_tasksStarted (r_resource run) \<le> maxTasksPerRun (limitsOf (gr_definition graph)) \<and>
    (\<forall>i e. dget (r_targets run) i = Some e \<longrightarrow> le_repairs e \<le> maxRepairsPerTask (limitsOf (gr_definition graph))) \<and>
    distinct active \<and> length active \<le> maxConcurrent (gr_definition graph) \<and>
    (r_status run = RCompleted \<longrightarrow> (\<forall>t \<in> set (g_targets (gr_definition graph)). status_of run (t_id t) = Completed))"
  using ctl_steps_inv [OF assms(2) createRun_inv [OF assms(1)]] by (simp add: ctl_inv_def run_inv_def entry_ok_def all_completed_def)

definition sample_run :: GoalRunLedger where
  "sample_run = new_ledger 0 sample_graph ''user:ann'' ''run-1'' (map (\<lambda>t. (t_id t, new_entry 0 t)) sample_targets)"

definition sample_running :: GoalRunLedger where
  "sample_running = sample_run\<lparr>r_status := RRunning, r_ledgerRevision := 2\<rparr>"

lemma sample_run_created: "fst (createRun 0 [] sample_graph ''user:ann'' (Some ''run-1'') empty_store) = Inr sample_run"
  by code_simp

lemma sample_run_started: "apply_plan (run_status_plan 0 RRunning) sample_run = Inr sample_running"
  by code_simp

definition sample_active :: GoalRunLedger where
  "sample_active = (case apply_plan (start_plan 0 (gr_definition sample_graph) ''A'') sample_running of Inr r \<Rightarrow> r | Inl e \<Rightarrow> sample_running)"

lemma sample_attempt_started: "apply_plan (start_plan 0 (gr_definition sample_graph) ''A'') sample_running = Inr sample_active"
proof -
  have "isOk (apply_plan (start_plan 0 (gr_definition sample_graph) ''A'') sample_running)" by code_simp
  then show ?thesis by (auto simp: sample_active_def isOk_iff)
qed

lemma sample_steps: "(ctl_step (gr_definition sample_graph))\<^sup>*\<^sup>* (sample_run, []) (sample_active, [''A''])"
proof -
  have "ctl_step (gr_definition sample_graph) (sample_run, []) (sample_running, [])"
    by (rule ctl_step.commit [OF controller_plan.status sample_run_started]) simp
  moreover have "ctl_step (gr_definition sample_graph) (sample_running, []) (sample_active, [])"
    by (rule ctl_step.commit [OF controller_plan.start sample_attempt_started])
  moreover have "ctl_step (gr_definition sample_graph) (sample_active, []) (sample_active, [''A''])"
    using ctl_step.launch [of "[]" "gr_definition sample_graph" "''A''" sample_active] by (simp add: maxConcurrent_def)
  ultimately show ?thesis by (meson rtranclp.rtrancl_refl rtranclp.rtrancl_into_rtrancl)
qed

theorem run_stays_within_limits_witness:
  "attempts_total sample_active = res_tasksStarted (r_resource sample_active) \<and> res_tasksStarted (r_resource sample_active) = 1 \<and>
   distinct [''A''] \<and> length [''A''] \<le> maxConcurrent (gr_definition sample_graph)"
proof -
  have "res_tasksStarted (r_resource sample_active) = 1" by code_simp
  then show ?thesis
    using run_stays_within_limits [of 0 "[]" sample_graph "''user:ann''" "Some ''run-1''" empty_store sample_run _ sample_active "[''A'']"]
      sample_run_created sample_steps by (metis prod.collapse)
qed

text \<open>Only \<open>setRunStatus\<close> changes the status of a run, along \<open>RUN_TRANSITIONS\<close>.\<close>

definition moves_status :: "GoalRunLedger \<Rightarrow> (GoalRunLedger \<Rightarrow> CommitPlan option result) \<Rightarrow> bool" where
  "moves_status run plan \<longleftrightarrow> (\<forall>ts f. plan run = Inr (Some (ts, f)) \<longrightarrow> r_status (f run) \<in> insert (r_status run) (set (RUN_TRANSITIONS (r_status run))))"

lemma transition_plan_status:
  "(\<And>l. same_run (g l) l) \<Longrightarrow> moves_status run (transition_plan now i to reason actor x g onlyFrom)"
  unfolding moves_status_def by (auto dest!: transition_plan_Some simp: change_Inr apply_change_eq same_run_def)

lemma target_plans_status:
  "moves_status run (verifying_plan now i a route x ok)" "moves_status run (verified_plan now i a evs)"
  "moves_status run (external_plan now i a evs rs)" "moves_status run (approval_plan now i att k scope rs)"
  "moves_status run (block_plan now i a reason evs err)" "moves_status run (stop_plan now i a why)"
  "moves_status run (failed_plan now i a msg gate)" "moves_status run (retest_plan now i a h)"
  "moves_status run (retry_plan now i actor)" "moves_status run (repairing_plan now i a action h)"
  unfolding target_plan_defs by (rule transition_plan_status; simp add: same_run_def)+

lemma unlock_fold_status:
  "list_all (\<lambda>c. \<exists>i. snd c = apply_change now i Eligible no_extra \<and> status_of run i \<noteq> Completed) cs \<Longrightarrow>
     r_status (fold (\<lambda>c. snd c) cs l) = r_status l"
  by (induction cs arbitrary: l) (auto simp: apply_change_eq)

lemma unlock_plan_status: "moves_status run (unlock_plan now graph)"
  unfolding moves_status_def
proof (intro allI impI)
  fix ts f
  assume "unlock_plan now graph run = Inr (Some (ts, f))"
  from unlock_plan_Some [OF this] show "r_status (f run) \<in> insert (r_status run) (set (RUN_TRANSITIONS (r_status run)))"
    using unlock_fold_status by auto
qed

lemma progress_plan_status: "moves_status run (progress_plan now i a evs actor reason)"
  unfolding moves_status_def progress_plan_def Let_def by (auto simp: bindE_Inr change_Inr apply_change_eq split: if_splits)

lemma status_plans_status:
  "moves_status run (run_status_plan now to)" "moves_status run (init_plan now graph)" "moves_status run (start_plan now graph i)"
proof -
  show "moves_status run (run_status_plan now to)" by (simp add: moves_status_def run_status_plan_def)
  show "moves_status run (init_plan now graph)" by (auto simp: moves_status_def init_plan_def)
  show "moves_status run (start_plan now graph i)" unfolding moves_status_def by (auto dest!: start_plan_Some(3))
qed

lemma resolve_plans_status:
  assumes "p \<in> set (resolve_plans now i granted actor reason e m r)"
  shows "moves_status run p"
proof (cases "granted \<and> mk_kind m \<noteq> ExecuteApproval")
  case False
  then show ?thesis using assms by (cases granted) (auto simp: resolve_plans_def Let_def intro!: transition_plan_status)
next
  case True
  have "moves_status run (\<lambda>fresh. Inr (Some ([], \<lambda>l. case dget (r_targets l) i of None \<Rightarrow> l
      | Some x \<Rightarrow> l\<lparr>r_targets := dput i ((swap_marker m True x)\<lparr>le_updatedAt := now\<rparr>) (r_targets l), r_updatedAt := now\<rparr>)))"
    by (simp add: moves_status_def split: option.splits)
  with True show ?thesis using assms progress_plan_status unfolding resolve_plans_def Let_def by (elim conjE) (simp only: not_True_eq_False if_False list.set insert_iff empty_iff simp_thms, blast)
qed

lemma controller_plan_status: "controller_plan graph run plan \<Longrightarrow> moves_status run plan"
  by (induction rule: controller_plan.induct)
    (auto intro: unlock_plan_status target_plans_status progress_plan_status status_plans_status resolve_plans_status)

lemma ctl_step_status:
  assumes "ctl_step graph st st'"
  shows "r_status (fst st') \<in> insert (r_status (fst st)) (set (RUN_TRANSITIONS (r_status (fst st))))"
  using assms
proof cases
  case (commit run plan run' active)
  from commit(4) consider "run' = run" | ts f where "plan run = Inr (Some (ts, f))" "r_status run' = r_status (f run)"
    unfolding apply_plan_Inr by auto
  then show ?thesis
  proof cases
    case 2
    then show ?thesis using controller_plan_status [OF commit(3)] commit(1,2) by (auto simp: moves_status_def)
  qed (use commit in simp)
qed simp_all

lemma terminal_run_step: "ctl_step graph st st' \<Longrightarrow> r_status (fst st) \<in> set TERMINAL_RUN \<Longrightarrow> r_status (fst st') = r_status (fst st)"
  by (auto simp: TERMINAL_RUN_def dest!: ctl_step_status)

text \<open>The actions of the API are steps, from the ledger their commit finds, whatever was read before.\<close>

lemma request_step:
  assumes "request_status now to run fresh = Inr run'" and "to \<noteq> Some RCompleted"
  shows "run' = run \<or> ctl_step graph (fresh, active) (run', active)"
proof (cases to)
  case (Some st)
  then have "controller_plan graph fresh (run_status_plan now st)" using assms(2) by (intro controller_plan.status) simp
  with assms(1) Some show ?thesis by (auto simp: request_status_def intro: ctl_step.commit)
qed (use assms in \<open>simp add: request_status_def\<close>)

lemma action_steps:
  "pause now d run fresh = Inr run' \<Longrightarrow> run' = run \<or> ctl_step graph (fresh, active) (run', active)"
  "resume now run fresh = Inr run' \<Longrightarrow> run' = run \<or> ctl_step graph (fresh, active) (run', active)"
  "stop_run now d run fresh = Inr run' \<Longrightarrow> run' = run \<or> ctl_step graph (fresh, active) (run', active)"
  "retryTarget now graph i actor run fresh = Inr run' \<Longrightarrow> actor \<noteq> [] \<Longrightarrow> ctl_step graph (fresh, active) (run', active)"
  by (auto simp: pause_def resume_def stop_run_def retryTarget_def bindE_Inr pause_request_def resume_request_def stop_request_def
    split: if_splits dest!: request_step [where graph = graph and active = active] intro: ctl_step.commit [OF controller_plan.retry])

text \<open>
  Nothing in the start of an attempt looks at the status of the run: when a pause is committed after a pass has
  read the run, the pass still starts the attempt it has selected.
\<close>

lemma start_ignores_pause:
  "\<exists>run'. pause 5 \<lparr>dr_runId = ''run-1'', dr_lease = sample_lease, dr_active = [], dr_preferred = [], dr_disposed = False, dr_lost = False\<rparr>
      sample_running sample_running = Inr run' \<and> r_status run' = RPaused \<and>
    (\<exists>run2. apply_plan (start_plan 6 (gr_definition sample_graph) ''A'') run' = Inr run2 \<and> status_of run2 ''A'' = Active \<and> r_status run2 = RPaused)"
proof -
  let ?d = "\<lparr>dr_runId = ''run-1'', dr_lease = sample_lease, dr_active = [], dr_preferred = [], dr_disposed = False, dr_lost = False\<rparr>"
  have "(case pause 5 ?d sample_running sample_running of Inl e \<Rightarrow> False | Inr run' \<Rightarrow> r_status run' = RPaused \<and>
      (case apply_plan (start_plan 6 (gr_definition sample_graph) ''A'') run' of Inl e \<Rightarrow> False | Inr run2 \<Rightarrow> status_of run2 ''A'' = Active \<and> r_status run2 = RPaused))"
    by code_simp
  then show ?thesis by (auto split: sum.splits)
qed

text \<open>
  A run that was stopped, completed or failed keeps that status, whatever is committed, launched or
  finished afterwards.
\<close>
theorem finished_run_stays_finished:
  assumes "(ctl_step graph)\<^sup>*\<^sup>* (run, active) (run', active')" and "r_status run \<in> set TERMINAL_RUN"
  shows "r_status run' = r_status run"
proof -
  have "(ctl_step graph)\<^sup>*\<^sup>* st st' \<Longrightarrow> r_status (fst st) \<in> set TERMINAL_RUN \<Longrightarrow> r_status (fst st') = r_status (fst st)" for st st'
    by (induction rule: rtranclp_induct) (auto dest: terminal_run_step)
  from this [OF assms(1)] assms(2) show ?thesis by simp
qed

theorem finished_run_stays_finished_witness:
  "\<exists>run'. apply_plan (init_plan 5 (gr_definition sample_graph)) (sample_run\<lparr>r_status := RStopped, r_targets := []\<rparr>) = Inr run' \<and>
     r_targets run' \<noteq> [] \<and> r_status run' = RStopped"
proof -
  let ?r = "sample_run\<lparr>r_status := RStopped, r_targets := []\<rparr>"
  let ?p = "init_plan 5 (gr_definition sample_graph)"
  have "(case apply_plan ?p ?r of Inl e \<Rightarrow> False | Inr r \<Rightarrow> r_targets r \<noteq> [])" by code_simp
  then obtain run' where r: "apply_plan ?p ?r = Inr run'" "r_targets run' \<noteq> []" by (auto split: sum.splits)
  have "(ctl_step (gr_definition sample_graph))\<^sup>*\<^sup>* (?r, []) (run', [])"
    using ctl_step.commit [OF controller_plan.init r(1)] by blast
  from finished_run_stays_finished [OF this] r show ?thesis by (simp add: TERMINAL_RUN_def)
qed

end
