(* ===== verification/Scheduling_Pass.thy ===== *)
theory Scheduling_Pass
  imports Scheduler
begin

text \<open>
  The scheduling pass \<open>step\<close> refines the step relation of the controller: whatever one pass does to the
  ledger and to the attempts in flight is a sequence of commits and launches that the relation allows, so
  the invariants of \<open>Scheduler\<close> hold of the loop as it is written. The last part shows that repeated
  passes come to rest. A pass is taken as it runs when nobody else commits to the run between its commits.
\<close>

subsection \<open>The scheduling pass is a sequence of steps\<close>

lemma status_commit:
  assumes "apply_plan (run_status_plan now to) run = Inr r" and "to \<noteq> RCompleted \<or> all_completed graph run"
  shows "ctl_step graph (run, active) (r, active)" "r_targets r = r_targets run"
proof -
  have "controller_plan graph run (run_status_plan now to)" using assms(2) by (cases "to = RCompleted") (auto intro: controller_plan.intros)
  then show "ctl_step graph (run, active) (r, active)" using assms(1) by (rule ctl_step.commit)
  show "r_targets r = r_targets run" using assms(1) by (auto simp: apply_plan_Inr run_status_plan_def split: if_splits)
qed

lemma wake_run_steps:
  assumes "wake_run now run = Inr r"
  shows "(ctl_step graph)\<^sup>*\<^sup>* (run, active) (r, active)" "r_targets r = r_targets run"
proof (atomize (full), cases "r_status run = RIdle")
  case True
  with assms have "apply_plan (run_status_plan now RRunning) run = Inr r" by (simp add: wake_run_def)
  from status_commit [OF this] show "(ctl_step graph)\<^sup>*\<^sup>* (run, active) (r, active) \<and> r_targets r = r_targets run" by auto
qed (use assms in \<open>simp add: wake_run_def\<close>)

lemma resume_loop_steps:
  assumes "resume_loop now (maxConcurrent graph) ids (run, active) = Inr (run', active')" and "distinct ids" and "set ids \<inter> set active = {}"
  shows "(ctl_step graph)\<^sup>*\<^sup>* (run, active) (run', active') \<and> r_targets run' = r_targets run \<and> set active' \<subseteq> set active \<union> set ids"
  using assms
proof (induction ids arbitrary: run active)
  case (Cons i ids)
  show ?case
  proof (cases "length active \<ge> maxConcurrent graph")
    case False
    with Cons.prems(1) obtain r where w: "wake_run now run = Inr r"
      and rest: "resume_loop now (maxConcurrent graph) ids (r, active @ [i]) = Inr (run', active')" by (auto simp: bindE_Inr)
    have "ctl_step graph (r, active) (r, active @ [i])" using False Cons.prems(3) by (intro ctl_step.launch) auto
    then have s: "(ctl_step graph)\<^sup>*\<^sup>* (run, active) (r, active @ [i])" using wake_run_steps(1) [OF w] by (rule rtranclp.rtrancl_into_rtrancl [rotated])
    from rest Cons.prems have "(ctl_step graph)\<^sup>*\<^sup>* (r, active @ [i]) (run', active') \<and> r_targets run' = r_targets r \<and> set active' \<subseteq> set (active @ [i]) \<union> set ids"
      by (intro Cons.IH) auto
    with s wake_run_steps(2) [OF w] show ?thesis by (auto intro: rtranclp_trans)
  qed (use Cons.prems in auto)
qed simp

lemma start_not_in_flight: "assertTargetTransition i s Active CONTROLLER_ACTOR = Inr () \<Longrightarrow> s \<notin> set IN_FLIGHT"
  by (cases s) (auto simp: transition_simps IN_FLIGHT_def CONTROLLER_ACTOR_def isUser_def startsWith_def)

lemma start_launch_steps:
  assumes w: "wake_run now run = Inr r" and s: "start_plan now graph i r = Inr (Some (ts, f))"
    and room: "length active < maxConcurrent graph" and busy: "i \<in> set active \<Longrightarrow> status_of run i \<in> set IN_FLIGHT"
  shows "(ctl_step graph)\<^sup>*\<^sup>* (run, active) ((f r)\<lparr>r_ledgerRevision := r_ledgerRevision r + 1\<rparr>, active @ [i])"
    "status_of ((f r)\<lparr>r_ledgerRevision := r_ledgerRevision r + 1\<rparr>) j = (if j = i then Active else status_of run j)"
proof -
  let ?r = "(f r)\<lparr>r_ledgerRevision := r_ledgerRevision r + 1\<rparr>"
  note wake = wake_run_steps(1) [OF w, of graph active] wake_run_steps(2) [OF w]
  have c: "ctl_step graph (r, active) (?r, active)"
    using s by (intro ctl_step.commit [OF controller_plan.start [of graph r now i]]) (auto simp: apply_plan_Inr)
  have "status_of r i = status_of run i" using wake(2) by (simp add: status_of_def)
  then have "i \<notin> set active" using busy start_not_in_flight [OF start_plan_Some(1) [OF s]] by auto
  then have "ctl_step graph (?r, active) (?r, active @ [i])" using room by (intro ctl_step.launch) auto
  with wake(1) c show "(ctl_step graph)\<^sup>*\<^sup>* (run, active) (?r, active @ [i])"
    by (meson converse_rtranclp_into_rtranclp rtranclp.rtrancl_refl rtranclp_trans)
  show "status_of ?r j = (if j = i then Active else status_of run j)"
    using wake(2) by (simp add: start_plan_Some(3) [OF s] status_of_def started_entry_def Let_def)
qed

lemma start_loop_Cons:
  assumes "start_loop now graph auto (i # ids) (run, active, preferred) = Inr (b, run', active', preferred')"
  obtains (ended) "active' = active" "wake_run now run = Inr run' \<or> run' = run"
  | (skip) "start_loop now graph auto ids (run, active, preferred) = Inr (b, run', active', preferred')"
  | (start) r ts f where "length active < maxConcurrent graph" "wake_run now run = Inr r" "start_plan now graph i r = Inr (Some (ts, f))"
      "start_loop now graph auto ids ((f r)\<lparr>r_ledgerRevision := r_ledgerRevision r + 1\<rparr>, active @ [i], filter (\<lambda>j. j \<noteq> i) preferred)
         = Inr (b, run', active', preferred')"
  using assms unfolding start_loop.simps bindE_Inr
  by (cases "length active \<ge> maxConcurrent graph"; cases "\<not> auto \<and> i \<notin> set preferred";
      cases "res_tasksStarted (r_resource run) \<ge> maxTasksPerRun (limitsOf graph)")
    (force simp: not_le bindE_Inr split: option.splits)+

lemma start_loop_steps:
  assumes "start_loop now graph auto ids (run, active, preferred) = Inr (b, run', active', preferred')"
    and "\<forall>i \<in> set ids \<inter> set active. status_of run i \<in> set IN_FLIGHT"
  shows "(ctl_step graph)\<^sup>*\<^sup>* (run, active) (run', active')"
  using assms
proof (induction ids arbitrary: run active preferred)
  case (Cons i ids)
  from Cons.prems(1) show ?case
  proof (cases rule: start_loop_Cons)
    case ended
    then show ?thesis using wake_run_steps(1) by auto
  next
    case skip
    with Cons show ?thesis by auto
  next
    case (start r ts f)
    from start(2,3,1) have "i \<in> set active \<Longrightarrow> status_of run i \<in> set IN_FLIGHT" using Cons.prems(2) by simp
    note s = start_launch_steps [OF start(2,3,1) this]
    have "(ctl_step graph)\<^sup>*\<^sup>* ((f r)\<lparr>r_ledgerRevision := r_ledgerRevision r + 1\<rparr>, active @ [i]) (run', active')"
      using Cons.prems(2) by (intro Cons.IH [OF start(4)]) (auto simp: s(2) [simplified] IN_FLIGHT_def)
    with s(1) show ?thesis by (rule rtranclp_trans)
  qed
qed simp

lemma targetOf_id: "targetOf graph i = Inr t \<Longrightarrow> t_id t = i"
  by (auto simp: targetOf_def find_Some_iff split: option.splits)

lemma in_order_Inr:
  assumes "in_order graph ids = Inr out"
  shows "set out = set ids" "distinct ids \<Longrightarrow> distinct out"
proof -
  from assms obtain ts where ts: "map (targetOf graph) ids = map Inr ts"
    and out: "out = map t_id (sort_by (compareTargets (computeCriticality (g_targets graph))) ts)"
    by (auto simp: in_order_def bindE_Inr collectE_Inr)
  have ids: "map t_id ts = ids"
  proof (rule nth_equalityI)
    from ts show len: "length (map t_id ts) = length ids" by (metis length_map)
    fix n assume "n < length (map t_id ts)"
    then have "targetOf graph (ids ! n) = Inr (ts ! n)" using ts len by (metis length_map nth_map)
    then show "map t_id ts ! n = ids ! n" using targetOf_id \<open>n < _\<close> by simp
  qed
  then show "set out = set ids" unfolding out by auto
  assume "distinct ids"
  then have "distinct (map t_id ts)" using ids by simp
  then show "distinct out" unfolding out by (simp add: distinct_map)
qed

lemma waiting_in_ids:
  assumes inv: "run_inv graph run"
  shows "distinct (waiting_in ss run active)" "i \<in> set (waiting_in ss run active) \<Longrightarrow> status_of run i \<in> set ss \<and> i \<notin> set active"
proof -
  have e: "le_targetId e = k \<and> dget (r_targets run) k = Some e" if "(k, e) \<in> set (r_targets run)" for k e
    using inv that map_of_is_SomeI [of "r_targets run" k e] by (auto simp: run_inv_def entry_ok_def)
  have w: "waiting_in ss run active = map fst (filter (\<lambda>(_, e). le_status e \<in> set ss \<and> le_targetId e \<notin> set active) (r_targets run))"
    unfolding waiting_in_def by (rule map_cong) (auto dest: e)
  show "distinct (waiting_in ss run active)"
    using inv unfolding w run_inv_def by (blast intro: distinct_map_filter)
  assume "i \<in> set (waiting_in ss run active)"
  then show "status_of run i \<in> set ss \<and> i \<notin> set active" unfolding w by (auto simp: status_of_def dest: e)
qed

lemma settle_run_steps:
  assumes "settle_run now graph b n run = Inr run'"
  shows "(ctl_step graph)\<^sup>*\<^sup>* (run, active) (run', active)"
proof -
  have all: "list_all (\<lambda>t. map_option le_status (dget (r_targets run) (t_id t)) = Some Completed) (g_targets graph) \<longleftrightarrow> all_completed graph run"
    by (auto simp: all_completed_def list_all_iff status_of_def split: option.splits)
  show ?thesis
  proof (cases "all_completed graph run")
    case True
    with assms have "apply_plan (run_status_plan now RCompleted) run = Inr run'" unfolding settle_run_def all by simp
    from status_commit(1) [OF this] True show ?thesis by auto
  next
    case todo: False
    show ?thesis
    proof (cases "b \<and> n + length (eligibleTargets run (g_targets graph)) > 0")
      case True
      with assms todo obtain r1 r2 where r: "wake_run now run = Inr r1" "apply_plan (run_status_plan now RStopping) r1 = Inr r2"
        "apply_plan (run_status_plan now RStopped) r2 = Inr run'" unfolding settle_run_def all by (auto simp: bindE_Inr)
      have "ctl_step graph (r1, active) (r2, active)" "ctl_step graph (r2, active) (run', active)"
        using status_commit(1) [OF r(2)] status_commit(1) [OF r(3)] by auto
      with wake_run_steps(1) [OF r(1)] show ?thesis by (meson rtranclp.rtrancl_into_rtrancl)
    next
      case False
      with assms todo have "run' = run \<or> apply_plan (run_status_plan now RIdle) run = Inr run'"
        unfolding settle_run_def all by (auto split: if_splits)
      then show ?thesis using status_commit(1) [of now RIdle run run' graph active] by auto
    qed
  qed
qed

lemma schedule_Inr:
  assumes "schedule now graph auto (run, active, preferred) = Inr (b, run', active', preferred')"
  obtains resumable repairing run1 active1 blocked run2 preferred2 where
    "in_order graph (waiting_in IN_FLIGHT run active) = Inr resumable"
    "in_order graph (waiting_in [Repairing] run active) = Inr repairing"
    "resume_loop now (maxConcurrent graph) resumable (run, active) = Inr (run1, active1)"
    "start_loop now graph auto (repairing @ fresh_work graph run active preferred) (run1, active1, preferred) = Inr (blocked, run2, active', preferred2)"
    "active' \<noteq> [] \<and> run' = run2 \<or> active' = [] \<and> settle_run now graph blocked (length repairing) run2 = Inr run'"
proof -
  from assms obtain resumable repairing run1 active1 blocked run2 active2 preferred2 where
    *: "in_order graph (waiting_in IN_FLIGHT run active) = Inr resumable"
    "in_order graph (waiting_in [Repairing] run active) = Inr repairing"
    "resume_loop now (maxConcurrent graph) resumable (run, active) = Inr (run1, active1)"
    "start_loop now graph auto (repairing @ fresh_work graph run active preferred) (run1, active1, preferred) = Inr (blocked, run2, active2, preferred2)"
    and fin: "(if active2 \<noteq> [] then Inr (False, run2, active2, preferred2)
      else bindE (settle_run now graph blocked (length repairing) run2) (\<lambda>run3. Inr (True, run3, active2, preferred2))) = Inr (b, run', active', preferred')"
    unfolding schedule_def Let_def bindE_Inr by (auto simp: bindE_Inr)
  from fin have "active2 = active'" "active' \<noteq> [] \<and> run' = run2 \<or> active' = [] \<and> settle_run now graph blocked (length repairing) run2 = Inr run'"
    by (auto simp: bindE_Inr split: if_splits)
  with * show thesis by (intro that) simp_all
qed

lemma fresh_work_set: "set (fresh_work graph run active preferred) = set (eligibleTargets run (g_targets graph)) - set active"
  by (auto simp: fresh_work_def Let_def)

lemma schedule_steps:
  assumes inv: "run_inv graph run" and s: "schedule now graph auto (run, active, preferred) = Inr (b, run', active', preferred')"
  shows "(ctl_step graph)\<^sup>*\<^sup>* (run, active) (run', active')"
proof -
  from s obtain resumable repairing run1 active1 blocked run2 preferred2 where
    res: "in_order graph (waiting_in IN_FLIGHT run active) = Inr resumable"
    and rep: "in_order graph (waiting_in [Repairing] run active) = Inr repairing"
    and r1: "resume_loop now (maxConcurrent graph) resumable (run, active) = Inr (run1, active1)"
    and r2: "start_loop now graph auto (repairing @ fresh_work graph run active preferred) (run1, active1, preferred) = Inr (blocked, run2, active', preferred2)"
    and fin: "active' \<noteq> [] \<and> run' = run2 \<or> active' = [] \<and> settle_run now graph blocked (length repairing) run2 = Inr run'"
    by (rule schedule_Inr)
  note wait = waiting_in_ids [OF inv]
  have res': "distinct resumable" "\<And>i. i \<in> set resumable \<Longrightarrow> status_of run i \<in> set IN_FLIGHT \<and> i \<notin> set active"
    using in_order_Inr [OF res] wait by auto
  have one: "(ctl_step graph)\<^sup>*\<^sup>* (run, active) (run1, active1) \<and> r_targets run1 = r_targets run \<and> set active1 \<subseteq> set active \<union> set resumable"
    using res' by (intro resume_loop_steps [OF r1]) auto
  have "i \<notin> set active" if "i \<in> set (repairing @ fresh_work graph run active preferred)" for i
    using that in_order_Inr(1) [OF rep] wait(2) by (auto simp: fresh_work_set)
  then have "\<forall>i \<in> set (repairing @ fresh_work graph run active preferred) \<inter> set active1. status_of run1 i \<in> set IN_FLIGHT"
    using one res'(2) by (auto simp: status_of_def)
  from start_loop_steps [OF r2 this] one have "(ctl_step graph)\<^sup>*\<^sup>* (run, active) (run2, active')" by (meson rtranclp_trans)
  moreover have "(ctl_step graph)\<^sup>*\<^sup>* (run2, active') (run', active')"
    using fin settle_run_steps by auto
  ultimately show ?thesis by (rule rtranclp_trans)
qed

lemma unlock_steps: "apply_plan (unlock_plan now graph) run = Inr r \<Longrightarrow> ctl_step graph (run, active) (r, active)"
  by (rule ctl_step.commit [OF controller_plan.unlock])

lemma set_status_steps:
  assumes "bindE (apply_plan (run_status_plan now to) run) (\<lambda>r. Inr (ex, r, active, preferred)) = Inr (b, run', active', preferred')"
    and "to \<noteq> RCompleted"
  shows "(ctl_step graph)\<^sup>*\<^sup>* (run, active) (run', active')"
  using assms status_commit(1) by (auto simp: bindE_Inr)

lemma step_active_run:
  assumes "r_status run \<in> {RRunning, RIdle}" and "step now graph auto (run, active, preferred) = Inr (b, run', active', preferred')"
  obtains run1 where "apply_plan (unlock_plan now graph) run = Inr run1"
    "(if now \<ge> res_deadlineAt (r_resource run1)
      then bindE (wake_run now run1) (\<lambda>r1. bindE (apply_plan (run_status_plan now RStopping) r1) (\<lambda>r2. Inr (False, r2, active, preferred)))
      else schedule now graph auto (run1, active, preferred)) = Inr (b, run', active', preferred')"
  using assms unfolding step_def Let_def by (auto simp: bindE_Inr)

lemma step_steps:
  assumes inv: "run_inv graph run" and s: "step now graph auto (run, active, preferred) = Inr (b, run', active', preferred')"
  shows "(ctl_step graph)\<^sup>*\<^sup>* (run, active) (run', active')"
proof (cases "r_status run \<in> {RRunning, RIdle}")
  case False
  then show ?thesis using s set_status_steps [of now _ run _ active preferred b run' active' preferred' graph]
    unfolding step_def Let_def prod.case by (cases "r_status run") (auto split: if_splits)
next
  case True
  from True s obtain run1 where u: "apply_plan (unlock_plan now graph) run = Inr run1"
    and rest: "(if now \<ge> res_deadlineAt (r_resource run1)
      then bindE (wake_run now run1) (\<lambda>r1. bindE (apply_plan (run_status_plan now RStopping) r1) (\<lambda>r2. Inr (False, r2, active, preferred)))
      else schedule now graph auto (run1, active, preferred)) = Inr (b, run', active', preferred')"
    by (rule step_active_run)
  have inv1: "run_inv graph run1" using keeps_inv_apply [OF unlock_plan_keeps u inv] .
  have "(ctl_step graph)\<^sup>*\<^sup>* (run1, active) (run', active')"
  proof (cases "now \<ge> res_deadlineAt (r_resource run1)")
    case True
    with rest obtain r1 where r1: "wake_run now run1 = Inr r1" "apply_plan (run_status_plan now RStopping) r1 = Inr run'" "active' = active"
      by (auto simp: bindE_Inr)
    have "ctl_step graph (r1, active) (run', active)" using status_commit(1) [OF r1(2)] by auto
    with wake_run_steps(1) [OF r1(1)] r1(3) show ?thesis by (meson rtranclp.rtrancl_into_rtrancl)
  next
    case False
    with rest schedule_steps [OF inv1] show ?thesis by simp
  qed
  with unlock_steps [OF u] show ?thesis by (rule converse_rtranclp_into_rtranclp)
qed

text \<open>
  C7. One pass of the scheduling loop refines the step relation of the controller: from a well-formed run,
  whatever the pass changes in the ledger and in the attempts in flight is a sequence of commits and launches
  the relation allows, and the run is well-formed afterwards.
\<close>
theorem step_refines_ctl_step:
  assumes "ctl_inv graph (run, active)" and "step now graph auto (run, active, preferred) = Inr (exits, run', active', preferred')"
  shows "(ctl_step graph)\<^sup>*\<^sup>* (run, active) (run', active') \<and> ctl_inv graph (run', active')"
proof -
  have "(ctl_step graph)\<^sup>*\<^sup>* (run, active) (run', active')" using assms by (intro step_steps) (simp_all add: ctl_inv_def)
  then show ?thesis using ctl_steps_inv assms(1) by blast
qed

theorem step_refines_ctl_step_witness:
  "\<exists>exits run' active' preferred'. step 1 (gr_definition sample_graph) True (sample_running, [], []) = Inr (exits, run', active', preferred') \<and>
     active' = [''A''] \<and> (ctl_step (gr_definition sample_graph))\<^sup>*\<^sup>* (sample_running, []) (run', active')"
proof -
  let ?g = "gr_definition sample_graph"
  have "createRun 0 [] sample_graph ''user:ann'' (Some ''run-1'') empty_store = (Inr sample_run, sample_store)"
    using sample_run_created by (simp add: prod_eq_iff sample_store_def)
  moreover have "(ctl_step ?g)\<^sup>*\<^sup>* (sample_run, []) (sample_running, [])"
    using status_commit(1) [OF sample_run_started] by auto
  ultimately have inv: "ctl_inv ?g (sample_running, [])" using createRun_inv ctl_steps_inv by blast
  have "(case step 1 ?g True (sample_running, [], []) of Inl e \<Rightarrow> False | Inr (_, _, a, _) \<Rightarrow> a = [''A''])" by code_simp
  then obtain ex run' active' preferred' where s: "step 1 ?g True (sample_running, [], []) = Inr (ex, run', active', preferred')" "active' = [''A'']"
    by (auto split: sum.splits)
  from step_refines_ctl_step [OF inv s(1)] s show ?thesis by blast
qed

subsection \<open>The loop does not idle while there is work\<close>

lemma maxConcurrent_pos [simp]: "0 < maxConcurrent graph"
  by (simp add: maxConcurrent_def)

definition out_of_tasks :: "GoalGraphDefinition \<Rightarrow> GoalRunLedger \<Rightarrow> bool" where
  "out_of_tasks graph run \<longleftrightarrow> res_tasksStarted (r_resource run) \<ge> maxTasksPerRun (limitsOf graph)"

lemma start_loop_grows:
  "start_loop now graph auto ids (run, active, preferred) = Inr (b, run', active', preferred') \<Longrightarrow> length active \<le> length active'"
proof (induction ids arbitrary: run active preferred)
  case (Cons i ids)
  from Cons.prems show ?case
    by (cases rule: start_loop_Cons) (use Cons.IH in fastforce)+
qed simp

lemma resume_loop_idle:
  "resume_loop now (maxConcurrent graph) ids (run, []) = Inr (run', active') \<Longrightarrow> active' = [] \<Longrightarrow> ids = [] \<and> run' = run"
proof (cases ids)
  case (Cons i rest)
  have grows: "resume_loop now n js (r, a) = Inr (r', a') \<Longrightarrow> length a \<le> length a'" for n js r a r' a'
    by (induction js arbitrary: r a) (fastforce simp: bindE_Inr split: if_splits)+
  assume "resume_loop now (maxConcurrent graph) ids (run, []) = Inr (run', active')" "active' = []"
  with Cons obtain r where "resume_loop now (maxConcurrent graph) rest (r, [i]) = Inr (run', [])"
    using maxConcurrent_pos [of graph] by (auto simp: bindE_Inr)
  from grows [OF this] show ?thesis by simp
qed simp

lemma start_loop_idle:
  assumes "start_loop now graph True ids (run, [], preferred) = Inr (b, run', [], preferred')"
  shows "ids = [] \<and> run' = run \<and> \<not> b \<or> b \<and> ids \<noteq> [] \<and> r_targets run' = r_targets run \<and> out_of_tasks graph run'"
proof (cases ids)
  case (Cons i rest)
  show ?thesis
  proof (cases "res_tasksStarted (r_resource run) \<ge> maxTasksPerRun (limitsOf graph)")
    case True
    with assms Cons maxConcurrent_pos [of graph] show ?thesis by (auto simp: out_of_tasks_def)
  next
    case False
    with assms Cons maxConcurrent_pos [of graph] obtain r p where r: "wake_run now run = Inr r" "start_plan now graph i r = Inr p"
      and rest: "(case p of None \<Rightarrow> Inr (True, r, [], preferred)
          | Some (_, f) \<Rightarrow> start_loop now graph True rest ((f r)\<lparr>r_ledgerRevision := Suc (r_ledgerRevision r)\<rparr>, [i], filter (\<lambda>j. j \<noteq> i) preferred))
        = Inr (b, run', [], preferred')"
      by (auto simp: bindE_Inr)
    show ?thesis
    proof (cases p)
      case None
      with r(2) have "out_of_tasks graph r"
        unfolding start_plan_def Let_def out_of_tasks_def by (auto simp: bindE_Inr split: if_splits)
      with None rest wake_run_steps(2) [OF r(1)] Cons show ?thesis by simp
    next
      case (Some q)
      with rest show ?thesis by (auto dest!: start_loop_grows split: prod.splits)
    qed
  qed
qed (use assms in simp)

lemma set_status_result:
  "apply_plan (run_status_plan now to) r = Inr r' \<Longrightarrow> r_status r' = to \<and> r_targets r' = r_targets r \<and> r_resource r' = r_resource r"
  by (auto simp: apply_plan_Inr run_status_plan_def split: if_splits)

lemma wake_run_result: "wake_run now r = Inr r' \<Longrightarrow> r_targets r' = r_targets r \<and> r_resource r' = r_resource r"
  by (auto simp: wake_run_def split: if_splits dest: set_status_result)

text \<open>How a pass with nothing in flight leaves the run\<close>

definition at_rest :: "GoalGraphDefinition \<Rightarrow> GoalRunLedger \<Rightarrow> bool" where
  "at_rest graph run \<longleftrightarrow>
     r_status run = RCompleted \<and> all_completed graph run \<or> r_status run = RStopped \<and> out_of_tasks graph run \<or>
     r_status run = RIdle \<and> eligibleTargets run (g_targets graph) = [] \<and> waiting_in (Repairing # IN_FLIGHT) run [] = []"

lemma settle_run_result:
  assumes "settle_run now graph b n run = Inr run'"
  shows "r_targets run' = r_targets run \<and> r_resource run' = r_resource run \<and>
    (r_status run' = RCompleted \<and> all_completed graph run \<or> r_status run' = RStopped \<and> b \<or>
     r_status run' = RIdle \<and> (b \<longrightarrow> n = 0 \<and> eligibleTargets run (g_targets graph) = []))"
proof -
  have all: "list_all (\<lambda>t. map_option le_status (dget (r_targets run) (t_id t)) = Some Completed) (g_targets graph) \<longleftrightarrow> all_completed graph run"
    by (auto simp: all_completed_def list_all_iff status_of_def split: option.splits)
  show ?thesis
    using assms unfolding settle_run_def all by (auto simp: bindE_Inr split: if_splits dest!: set_status_result wake_run_result)
qed

lemma eligible_same_targets: "r_targets a = r_targets b \<Longrightarrow> eligibleTargets a ts = eligibleTargets b ts"
  by (simp add: eligibleTargets_def status_of_def dependenciesCompleted_def)

lemma waiting_same_targets: "r_targets a = r_targets b \<Longrightarrow> waiting_in ss a act = waiting_in ss b act"
  by (simp add: waiting_in_def)

lemma schedule_at_rest:
  assumes s: "schedule now graph True (run, [], preferred) = Inr (b, run', [], preferred')"
  shows "at_rest graph run'"
proof -
  from s obtain resumable repairing run1 active1 blocked run2 preferred2 where
    res: "in_order graph (waiting_in IN_FLIGHT run []) = Inr resumable"
    and rep: "in_order graph (waiting_in [Repairing] run []) = Inr repairing"
    and r1: "resume_loop now (maxConcurrent graph) resumable (run, []) = Inr (run1, active1)"
    and r2: "start_loop now graph True (repairing @ fresh_work graph run [] preferred) (run1, active1, preferred) = Inr (blocked, run2, [], preferred2)"
    and settle: "settle_run now graph blocked (length repairing) run2 = Inr run'"
    by (rule schedule_Inr) auto
  from start_loop_grows [OF r2] have a1: "active1 = []" by simp
  with resume_loop_idle [OF r1] have r: "resumable = []" "run1 = run" by auto
  have fresh0: "fresh_work graph run [] preferred = [] \<longleftrightarrow> eligibleTargets run (g_targets graph) = []"
    using fresh_work_set [of graph run "[]" preferred] by (metis Diff_empty list.set(1) set_empty)
  from start_loop_idle r2 a1 have "repairing @ fresh_work graph run [] preferred = [] \<and> run2 = run1 \<and> \<not> blocked \<or>
      blocked \<and> repairing @ fresh_work graph run [] preferred \<noteq> [] \<and> r_targets run2 = r_targets run1 \<and> out_of_tasks graph run2" by blast
  then have q: "repairing = [] \<and> eligibleTargets run (g_targets graph) = [] \<and> run2 = run \<and> \<not> blocked \<or>
      blocked \<and> (repairing \<noteq> [] \<or> eligibleTargets run (g_targets graph) \<noteq> []) \<and> r_targets run2 = r_targets run \<and> out_of_tasks graph run2"
    using fresh0 r(2) by auto
  note res' = settle_run_result [OF settle]
  have t: "r_targets run2 = r_targets run" using q by blast
  have same: "r_targets run' = r_targets run" using t res' by simp
  have el: "eligibleTargets run' (g_targets graph) = eligibleTargets run (g_targets graph)"
      "eligibleTargets run2 (g_targets graph) = eligibleTargets run (g_targets graph)"
    using eligible_same_targets [OF same] eligible_same_targets [OF t] by simp_all
  have ac: "all_completed graph run2 = all_completed graph run'" using t same by (simp add: all_completed_def status_of_def)
  have "waiting_in (Repairing # IN_FLIGHT) run' [] = []" if "repairing = []"
  proof -
    have "waiting_in IN_FLIGHT run [] = []" "waiting_in [Repairing] run [] = []"
      using in_order_Inr(1) [OF res] in_order_Inr(1) [OF rep] r(1) that by auto
    then have "waiting_in (Repairing # IN_FLIGHT) run [] = []" by (auto simp: waiting_in_def filter_empty_conv IN_FLIGHT_def)
    then show ?thesis using waiting_same_targets [OF same] by simp
  qed
  then show ?thesis using q res' el ac by (auto simp: at_rest_def out_of_tasks_def)
qed

text \<open>
  C16. The loop of a run that drives itself never rests while there is work. When the run is running or idle, the
  controller advances automatically, nobody else commits to the run meanwhile, and a pass starts with nothing in
  flight and leaves nothing in flight, then either the deadline has passed and the run is stopping, or every
  target is completed and the run is, or the budget of tasks is used up and the run is stopped, or the run is
  idle and no target is eligible, under repair or waiting to be resumed.
\<close>
theorem pass_rests_only_without_work:
  assumes "r_status run \<in> {RRunning, RIdle}" and "step now graph True (run, [], preferred) = Inr (exits, run', [], preferred')"
  shows "r_status run' = RStopping \<and> now \<ge> res_deadlineAt (r_resource run') \<or> at_rest graph run'"
proof -
  from assms obtain run1 where rest: "(if now \<ge> res_deadlineAt (r_resource run1)
      then bindE (wake_run now run1) (\<lambda>r1. bindE (apply_plan (run_status_plan now RStopping) r1) (\<lambda>r2. Inr (False, r2, [], preferred)))
      else schedule now graph True (run1, [], preferred)) = Inr (exits, run', [], preferred')"
    by (rule step_active_run)
  show ?thesis
  proof (cases "now \<ge> res_deadlineAt (r_resource run1)")
    case True
    with rest obtain r1 where "wake_run now run1 = Inr r1" "apply_plan (run_status_plan now RStopping) r1 = Inr run'" by (auto simp: bindE_Inr)
    with True show ?thesis by (auto dest!: set_status_result wake_run_result)
  next
    case False
    with rest schedule_at_rest show ?thesis by auto
  qed
qed

definition sample_done :: GoalRunLedger where
  "sample_done = sample_running\<lparr>r_targets := map (\<lambda>(k, e). (k, e\<lparr>le_status := if k = ''D'' then Completed else Blocked\<rparr>)) (r_targets sample_running)\<rparr>"

theorem pass_rests_only_without_work_witness:
  "\<exists>run'. step 1 (gr_definition sample_graph) True (sample_done, [], []) = Inr (True, run', [], []) \<and>
     r_status run' = RIdle \<and> eligibleTargets run' (g_targets (gr_definition sample_graph)) = []"
proof -
  let ?g = "gr_definition sample_graph"
  have "(case step 1 ?g True (sample_done, [], []) of Inl e \<Rightarrow> False | Inr (x, r, a, p) \<Rightarrow> x \<and> a = [] \<and> p = [] \<and> r_status r = RIdle)" by code_simp
  then obtain run' where s: "step 1 ?g True (sample_done, [], []) = Inr (True, run', [], [])" "r_status run' = RIdle"
    by (auto split: sum.splits)
  moreover have "r_status sample_done \<in> {RRunning, RIdle}" by (simp add: sample_done_def sample_running_def)
  ultimately show ?thesis using pass_rests_only_without_work [OF _ s(1)] by (auto simp: at_rest_def)
qed

subsection \<open>A pass never throws on a well-formed run\<close>

definition driving :: "GoalRunLedger \<Rightarrow> bool" where
  "driving run \<longleftrightarrow> r_status run \<in> {RRunning, RIdle}"

definition known :: "GoalGraphDefinition \<Rightarrow> TargetId \<Rightarrow> bool" where
  "known graph i \<longleftrightarrow> i \<in> t_id ` set (g_targets graph)"

lemma targetOf_known: "known graph i \<Longrightarrow> \<exists>t. targetOf graph i = Inr t"
  by (auto simp: targetOf_def known_def find_None_iff split: option.splits)

lemma in_order_total:
  assumes "\<forall>i \<in> set ids. known graph i"
  shows "\<exists>out. in_order graph ids = Inr out"
proof -
  from assms have "\<exists>ts. map (targetOf graph) ids = map Inr ts"
  proof (induction ids)
    case (Cons i ids)
    obtain t where "targetOf graph i = Inr t" using Cons.prems targetOf_known [of graph i] by auto
    moreover obtain ts where "map (targetOf graph) ids = map Inr ts" using Cons by auto
    ultimately show ?case by (intro exI [of _ "t # ts"]) simp
  qed simp
  then show ?thesis by (auto simp: in_order_def bindE_Inr collectE_Inr)
qed

lemma set_status_total:
  "to \<in> set (RUN_TRANSITIONS (r_status run)) \<Longrightarrow> \<exists>r. apply_plan (run_status_plan now to) run = Inr r"
  by (auto simp: apply_plan_def run_status_plan_def)

lemma wake_run_total: "driving run \<Longrightarrow> \<exists>r. wake_run now run = Inr r \<and> r_status r = RRunning"
  using set_status_total [of RRunning run now] set_status_result [of now RRunning run] by (auto simp: wake_run_def driving_def)

lemma resume_loop_total:
  "driving run \<Longrightarrow> \<exists>r a. resume_loop now n ids (run, active) = Inr (r, a) \<and> driving r"
proof (induction ids arbitrary: run active)
  case (Cons i ids)
  obtain r where "wake_run now run = Inr r" "r_status r = RRunning" using wake_run_total [OF Cons.prems] by blast
  with Cons show ?case by (simp add: driving_def)
qed simp

lemma settle_run_total: "driving run \<Longrightarrow> \<exists>r. settle_run now graph b n run = Inr r"
proof -
  assume d: "driving run"
  obtain r1 where r1: "wake_run now run = Inr r1" "r_status r1 = RRunning" using wake_run_total [OF d] by blast
  obtain r2 where r2: "apply_plan (run_status_plan now RStopping) r1 = Inr r2" using set_status_total [of RStopping r1 now] r1 by auto
  obtain r3 where r3: "apply_plan (run_status_plan now RStopped) r2 = Inr r3"
    using set_status_total [of RStopped r2 now] set_status_result [OF r2] by auto
  show ?thesis using d r1 r2 r3 set_status_total [of RCompleted run now] set_status_total [of RIdle run now]
    by (auto simp: settle_run_def driving_def)
qed

lemma start_plan_total:
  assumes "known graph i" and "status_of run i \<in> {Eligible, Repairing}"
  shows "\<exists>p. start_plan now graph i run = Inr p"
proof -
  obtain t where t: "targetOf graph i = Inr t" using targetOf_known [OF assms(1)] by blast
  have "assertTargetTransition i (status_of run i) Active CONTROLLER_ACTOR = Inr ()"
    using assms(2) by (auto simp: transition_simps)
  then have "\<exists>c. change now run i Active reason CONTROLLER_ACTOR x = Inr c" for reason x
    by (simp add: change_def Let_def)
  with t show ?thesis unfolding start_plan_def Let_def by (auto simp: bindE_Inr)
qed

lemma start_loop_total:
  assumes "\<forall>i \<in> set ids. known graph i \<and> status_of run i \<in> {Eligible, Repairing}" and "distinct ids" and "driving run"
  shows "\<exists>b r a p. start_loop now graph auto ids (run, active, preferred) = Inr (b, r, a, p) \<and> driving r"
  using assms
proof (induction ids arbitrary: run active preferred)
  case (Cons i ids)
  obtain r where r: "wake_run now run = Inr r" "r_status r = RRunning" using wake_run_total [OF Cons.prems(3)] by blast
  have st: "status_of r j = status_of run j" for j using wake_run_result [OF r(1)] by (simp add: status_of_def)
  obtain p where p: "start_plan now graph i r = Inr p" using start_plan_total [of graph i r now] Cons.prems(1) st by auto
  have later: "\<exists>b r' a' p'. start_loop now graph auto ids (run, active, preferred) = Inr (b, r', a', p') \<and> driving r'"
    using Cons.prems by (intro Cons.IH) auto
  show ?case
  proof (cases p)
    case None
    with r p Cons.prems(3) later show ?thesis by (auto simp: driving_def)
  next
    case (Some q)
    obtain ts f where q: "q = (ts, f)" by (cases q)
    let ?r = "(f r)\<lparr>r_ledgerRevision := Suc (r_ledgerRevision r)\<rparr>"
    note s = start_plan_Some(3) [OF p [unfolded Some q]]
    have "status_of ?r j = (if j = i then Active else status_of run j)" for j
      by (simp add: s status_of_def started_entry_def Let_def wake_run_result [OF r(1)])
    then have "\<exists>b r' a' p'. start_loop now graph auto ids (?r, active @ [i], filter (\<lambda>j. j \<noteq> i) preferred) = Inr (b, r', a', p') \<and> driving r'"
      using Cons.prems r(2) by (intro Cons.IH) (auto simp: driving_def s)
    with later show ?thesis using r p Some q Cons.prems(3) by auto
  qed
qed auto

text \<open>Unlocking turns every queued target whose dependencies are completed into an eligible one.\<close>

lemma unlock_change_total: "known graph i \<Longrightarrow> status_of run i = Queued \<Longrightarrow> \<exists>c. unlock_change now graph run i = Inr c"
  using targetOf_known [of graph i] by (auto simp: unlock_change_def change_def Let_def transition_simps)

lemma eligible_known: "i \<in> set (eligibleTargets run (g_targets graph)) \<Longrightarrow> known graph i"
  by (auto simp: eligibleTargets_def known_def Let_def)

lemma fold_unlock_status:
  "list_all2 (\<lambda>i c. snd c = apply_change now i Eligible no_extra) ids cs \<Longrightarrow>
     status_of (fold (\<lambda>c. snd c) cs l) j = (if j \<in> set ids then Eligible else status_of l j)"
  by (induction ids cs arbitrary: l rule: list_all2_induct) auto

lemma unlock_total:
  shows "\<exists>r. apply_plan (unlock_plan now graph) run = Inr r \<and> r_status r = r_status run \<and> r_resource r = r_resource run \<and>
     (\<forall>j. status_of r j = (if j \<in> set (newlyUnlockedTargets run (g_targets graph)) then Eligible else status_of run j))"
proof -
  let ?ids = "newlyUnlockedTargets run (g_targets graph)"
  have "\<exists>c. unlock_change now graph run i = Inr c \<and> snd c = apply_change now i Eligible no_extra" if "i \<in> set ?ids" for i
    using that unlock_change_total [of graph i run now] unlock_change_Inr [of now graph run i] eligible_known
    by (auto simp: newlyUnlockedTargets_def)
  then obtain c where c: "\<forall>i \<in> set ?ids. unlock_change now graph run i = Inr (c i) \<and> snd (c i) = apply_change now i Eligible no_extra" by metis
  then have "collectE (map (unlock_change now graph run) ?ids) = Inr (map c ?ids)" by (simp add: collectE_Inr)
  then have p: "?ids \<noteq> [] \<Longrightarrow> unlock_plan now graph run = Inr (Some (map fst (map c ?ids), \<lambda>l. fold (\<lambda>c. snd c) (map c ?ids) l))"
    by (simp add: unlock_plan_def Let_def unlock_change_def [abs_def])
  have l2: "list_all2 (\<lambda>i c. snd c = apply_change now i Eligible no_extra) ?ids (map c ?ids)"
    using c by (simp add: list_all2_conv_all_nth)
  have keep: "list_all2 (\<lambda>i c. snd c = apply_change now i Eligible no_extra) is cs \<Longrightarrow>
      r_status (fold (\<lambda>c. snd c) cs l) = r_status l \<and> r_resource (fold (\<lambda>c. snd c) cs l) = r_resource l"
    for "is" and cs :: "(TargetTransition \<times> (GoalRunLedger \<Rightarrow> GoalRunLedger)) list" and l
    by (induction "is" cs arbitrary: l rule: list_all2_induct) (auto simp: apply_change_eq)
  show ?thesis
  proof (cases "?ids = []")
    case True
    then show ?thesis by (simp add: apply_plan_def unlock_plan_def)
  next
    case False
    then show ?thesis using p fold_unlock_status [OF l2, of run] keep [OF l2, of run]
      by (auto simp: apply_plan_def status_of_def)
  qed
qed

lemma dependencies_status: "dependenciesCompleted run t \<longleftrightarrow> (\<forall>d \<in> set (t_dependsOn t). status_of run d = Completed)"
  by (auto simp: dependenciesCompleted_def list_all_iff status_of_def UNLOCKING_TARGET_STATUSES_def split: option.splits)

lemma eligible_after_unlock:
  assumes "\<forall>j. status_of r j = (if j \<in> set (newlyUnlockedTargets run ts) then Eligible else status_of run j)"
    and "i \<in> set (eligibleTargets r ts)"
  shows "status_of r i = Eligible"
proof (rule ccontr)
  assume no: "status_of r i \<noteq> Eligible"
  have queued: "status_of run j = Queued" if "j \<in> set (newlyUnlockedTargets run ts)" for j
    using that by (simp add: newlyUnlockedTargets_def)
  from assms(2) no obtain t where t: "t \<in> set ts" "t_id t = i" "status_of r i = Queued" "dependenciesCompleted r t"
    by (auto simp: eligibleTargets_def Let_def SELECTABLE_def)
  with assms(1) have "status_of run i = Queued" "i \<notin> set (newlyUnlockedTargets run ts)" by (auto split: if_splits)
  moreover have "dependenciesCompleted run t" using t(4) assms(1) unfolding dependencies_status by (metis TargetStatus.distinct TargetStatus.simps)
  ultimately show False using t by (auto simp: newlyUnlockedTargets_def eligibleTargets_def Let_def SELECTABLE_def)
qed

lemma fresh_work_distinct:
  "distinct preferred \<Longrightarrow> distinct (map t_id (g_targets graph)) \<Longrightarrow> distinct (fresh_work graph run active preferred)"
proof -
  assume p: "distinct preferred" and g: "distinct (map t_id (g_targets graph))"
  let ?f = "filter (\<lambda>t. status_of run (t_id t) \<in> set SELECTABLE \<and> dependenciesCompleted run t) (g_targets graph)"
  have "distinct (map t_id ?f)" using g by (rule distinct_map_filter)
  then have "distinct (eligibleTargets run (g_targets graph))" by (simp add: eligibleTargets_def Let_def distinct_map)
  with p show ?thesis by (auto simp: fresh_work_def Let_def)
qed

lemma schedule_total:
  assumes inv: "run_inv graph run" and d: "driving run"
    and elig: "\<forall>i \<in> set (eligibleTargets run (g_targets graph)). status_of run i = Eligible"
    and wait: "\<forall>i. status_of run i \<in> set (Repairing # IN_FLIGHT) \<longrightarrow> known graph i"
    and dist: "distinct preferred" "distinct (map t_id (g_targets graph))"
  shows "\<exists>res. schedule now graph auto (run, active, preferred) = Inr res"
proof -
  note w = waiting_in_ids [OF inv]
  have k: "\<forall>i \<in> set (waiting_in IN_FLIGHT run active). known graph i" "\<forall>i \<in> set (waiting_in [Repairing] run active). known graph i"
    using w(2) wait by force+
  from in_order_total [OF k(1)] obtain resumable where res: "in_order graph (waiting_in IN_FLIGHT run active) = Inr resumable" by blast
  from in_order_total [OF k(2)] obtain repairing where rep: "in_order graph (waiting_in [Repairing] run active) = Inr repairing" by blast
  from resume_loop_total [OF d] obtain r1 a1 where r1: "resume_loop now (maxConcurrent graph) resumable (run, active) = Inr (r1, a1)" "driving r1" by blast
  have "distinct resumable" "set resumable \<inter> set active = {}" using in_order_Inr [OF res] w by auto
  from resume_loop_steps [OF r1(1) this] have same: "status_of r1 j = status_of run j" for j by (simp add: status_of_def)
  have rs: "status_of run i = Repairing" if "i \<in> set repairing" for i using that in_order_Inr(1) [OF rep] w(2) by fastforce
  have fs: "status_of run i = Eligible \<and> known graph i" if "i \<in> set (fresh_work graph run active preferred)" for i
    using that elig eligible_known by (auto simp: fresh_work_set)
  have "distinct (repairing @ fresh_work graph run active preferred)"
    using in_order_Inr(2) [OF rep w(1)] fresh_work_distinct [OF dist] rs fs by fastforce
  moreover have "\<forall>i \<in> set (repairing @ fresh_work graph run active preferred). known graph i \<and> status_of r1 i \<in> {Eligible, Repairing}"
    using rs fs wait same by auto
  ultimately obtain b r2 a2 p2 where r2: "start_loop now graph auto (repairing @ fresh_work graph run active preferred) (r1, a1, preferred) = Inr (b, r2, a2, p2)" "driving r2"
    using start_loop_total r1(2) by blast
  from settle_run_total [OF r2(2)] obtain r3 where "settle_run now graph b (length repairing) r2 = Inr r3" by blast
  with res rep r1(1) r2(1) show ?thesis by (auto simp: schedule_def)
qed

text \<open>
  On a well-formed run whose entries all belong to the graph, and when nobody else commits during the pass, a
  pass returns: no transition it attempts is illegal, so the loop cannot die from its own decisions.
\<close>
theorem pass_never_throws:
  assumes inv: "run_inv graph run" and "\<forall>k \<in> set (dkeys (r_targets run)). known graph k"
    and "distinct (map t_id (g_targets graph))" and "distinct preferred"
  shows "\<exists>exits run' active' preferred'. step now graph auto (run, active, preferred) = Inr (exits, run', active', preferred')"
proof (cases "driving run")
  case False
  then show ?thesis
    using set_status_total [of RPaused run now] set_status_total [of RStopped run now] set_status_total [of RRunning run now]
    by (cases "r_status run") (auto simp: step_def driving_def)
next
  case True
  obtain r where r: "apply_plan (unlock_plan now graph) run = Inr r" "r_status r = r_status run"
    "\<forall>j. status_of r j = (if j \<in> set (newlyUnlockedTargets run (g_targets graph)) then Eligible else status_of run j)"
    using unlock_total by blast
  have d: "driving r" using True r(2) by (simp add: driving_def)
  obtain r1 where r1: "wake_run now r = Inr r1" "r_status r1 = RRunning" using wake_run_total [OF d] by blast
  obtain r2 where r2: "apply_plan (run_status_plan now RStopping) r1 = Inr r2" using set_status_total [of RStopping r1 now] r1 by auto
  have "known graph i" if "status_of r i \<in> set (Repairing # IN_FLIGHT)" for i
  proof -
    from that r(3) have "status_of run i \<noteq> Queued" by (auto simp: IN_FLIGHT_def split: if_splits)
    then show ?thesis using assms(2) by (cases "dget (r_targets run) i") (use dget_Some_keys in \<open>auto simp: status_of_def dest!: map_of_SomeD\<close>)
  qed
  then have "\<exists>res. schedule now graph auto (r, active, preferred) = Inr res"
    using assms(3,4) eligible_after_unlock [OF r(3)] by (intro schedule_total [OF keeps_inv_apply [OF unlock_plan_keeps r(1) inv] d]) simp_all
  then obtain ex r3 a3 p3 where "schedule now graph auto (r, active, preferred) = Inr (ex, r3, a3, p3)" by (metis prod_cases4)
  with r(1) r1(1) r2 True show ?thesis unfolding step_def Let_def by (cases "now \<ge> res_deadlineAt (r_resource r)") (auto simp: driving_def)
qed

theorem pass_never_throws_witness:
  "\<exists>exits run' active' preferred'. step 7 (gr_definition sample_graph) False (sample_running, [''D''], [''A'']) = Inr (exits, run', active', preferred')"
proof (rule pass_never_throws)
  have "createRun 0 [] sample_graph ''user:ann'' (Some ''run-1'') empty_store = (Inr sample_run, sample_store)"
    using sample_run_created by (simp add: prod_eq_iff sample_store_def)
  moreover have "(ctl_step (gr_definition sample_graph))\<^sup>*\<^sup>* (sample_run, []) (sample_running, [])"
    using status_commit(1) [OF sample_run_started] by auto
  ultimately show "run_inv (gr_definition sample_graph) sample_running" using createRun_inv ctl_steps_inv by (fastforce simp: ctl_inv_def)
qed (simp_all add: sample_running_def sample_run_def new_ledger_def sample_graph_def sample_targets_def known_def Eligibility.sample_target_def)

end
