(* ===== verification/Commit_Refinement.thy ===== *)
theory Commit_Refinement
  imports Scheduler
begin

text \<open>
  The controller's plans against the ledger's commit. \<open>Scheduler\<close> describes what a plan does to a run
  (\<open>apply_plan\<close>); the code hands the plan to \<open>commit\<close> of the ledger store, which checks the lease, the
  revision and that the transitions of the plan lead every target from its old to its new status. Here every
  plan of the controller is shown to pass those checks, so that the commit loop on the store implements
  \<open>apply_plan\<close>.
\<close>

subsection \<open>Transitions that the ledger accepts\<close>

definition recorded :: "GoalRunLedger \<Rightarrow> TargetTransition list \<Rightarrow> GoalRunLedger \<Rightarrow> bool" where
  "recorded pre ts post \<longleftrightarrow> same_immutable post pre \<and>
     (\<forall>i. dget (r_targets post) i = None \<longleftrightarrow> dget (r_targets pre) i = None) \<and>
     (\<forall>t \<in> set ts. tr_runId t = r_runId pre \<and> tr_actor t \<noteq> [] \<and> dget (r_targets pre) (tr_targetId t) \<noteq> None) \<and>
     (\<forall>i x y. dget (r_targets pre) i = Some x \<and> dget (r_targets post) i = Some y \<longrightarrow> linked (le_status x) (of_target i ts) (le_status y))"

lemma follow_recorded:
  assumes "\<forall>t \<in> set ts. tr_runId t = r \<and> tr_actor t \<noteq> [] \<and> dget (r_targets pre) (tr_targetId t) \<noteq> None"
    and "\<forall>i. dget (r_targets post) i = None \<longleftrightarrow> dget (r_targets pre) i = None"
    and "\<forall>i x y. dget (r_targets pre) i = Some x \<and> dget (r_targets post) i = Some y \<longrightarrow> linked (cursor_at cursor i x) (of_target i ts) (le_status y)"
  shows "\<exists>cursor'. foldE (follow_transition r pre post) cursor ts = Inr cursor' \<and>
    (\<forall>i x y. dget (r_targets pre) i = Some x \<and> dget (r_targets post) i = Some y \<longrightarrow> cursor_at cursor' i x = le_status y)"
  using assms
proof (induction ts arbitrary: cursor)
  case (Cons t ts)
  from Cons.prems(1,2) obtain x y where xy: "dget (r_targets pre) (tr_targetId t) = Some x" "dget (r_targets post) (tr_targetId t) = Some y"
    by fastforce
  with Cons.prems(3) have l: "linked (cursor_at cursor (tr_targetId t) x) (of_target (tr_targetId t) (t # ts)) (le_status y)" by blast
  let ?c = "dput (tr_targetId t) (tr_toState t) cursor"
  from l have f: "follow_transition r pre post cursor t = Inr ?c"
    using xy Cons.prems(1) by (auto simp: follow_transition_Inr of_target_def)
  have "\<forall>i x y. dget (r_targets pre) i = Some x \<and> dget (r_targets post) i = Some y \<longrightarrow> linked (cursor_at ?c i x) (of_target i ts) (le_status y)"
  proof (intro allI impI)
    fix i x' y' assume a: "dget (r_targets pre) i = Some x' \<and> dget (r_targets post) i = Some y'"
    with Cons.prems(3) have "linked (cursor_at cursor i x') (of_target i (t # ts)) (le_status y')" by blast
    then show "linked (cursor_at ?c i x') (of_target i ts) (le_status y')" by (auto simp: cursor_at_def of_target_def split: if_splits)
  qed
  with Cons f show ?case by auto
qed simp

lemma recorded_valid: "recorded pre ts post \<Longrightarrow> validateTransitions (r_runId pre) pre post ts = Inr ()"
proof -
  assume r: "recorded pre ts post"
  then obtain cursor where c: "foldE (follow_transition (r_runId pre) pre post) [] ts = Inr cursor"
    "\<forall>i x y. dget (r_targets pre) i = Some x \<and> dget (r_targets post) i = Some y \<longrightarrow> cursor_at cursor i x = le_status y"
    using follow_recorded [of ts "r_runId pre" pre post "[]"] by (auto simp: recorded_def cursor_at_def)
  have "check_reached pre post cursor i" if "i \<in> set (dkeys (r_targets pre) @ dkeys (r_targets post))" for i
  proof -
    from that have "dget (r_targets pre) i \<noteq> None \<or> dget (r_targets post) i \<noteq> None" unfolding dget_None_keys by auto
    then obtain x y where "dget (r_targets pre) i = Some x" "dget (r_targets post) i = Some y" using r unfolding recorded_def by (metis option.exhaust)
    then show ?thesis using c(2) by (simp add: check_reached_def cursor_at_def)
  qed
  then show ?thesis using c(1) by (simp add: validateTransitions_def list_all_iff)
qed

text \<open>A change of one target is recorded by its transition.\<close>

definition keeps_status :: "ChangeExtra \<Rightarrow> bool" where
  "keeps_status x \<longleftrightarrow> (\<forall>e. le_status (ce_entry x e) = le_status e)"

lemma change_recorded:
  assumes c: "change now run i to reason actor x = Inr (t, f)" and "actor \<noteq> []" and "dget (r_targets run) i \<noteq> None" and "keeps_status x"
  shows "recorded run [t] (f run)" and "tr_targetId t = i"
proof -
  from c have f: "f = apply_change now i to x" and t: "tr_runId t = r_runId run" "tr_actor t = actor" "tr_targetId t = i" "tr_fromState t = status_of run i" "tr_toState t = to"
    by (simp_all add: change_Inr)
  have "same_immutable (f run) run" unfolding f apply_change_def Let_def same_immutable_def by simp
  moreover have "le_status (ce_entry x (let e = (entry_of run i now)\<lparr>le_status := to, le_updatedAt := now\<rparr>
     in if ce_evidenceIds x \<noteq> [] then e\<lparr>le_evidenceIds := ce_evidenceIds x\<rparr> else e)) = to"
    using assms(4) by (simp add: keeps_status_def Let_def)
  ultimately show "recorded run [t] (f run)"
    using assms(2,3) t unfolding recorded_def f apply_change_eq(1) by (auto simp: of_target_def status_of_def)
  show "tr_targetId t = i" by fact
qed

lemma recorded_same_run:
  "recorded pre ts post \<Longrightarrow> r_targets post' = r_targets post \<Longrightarrow> same_immutable post' post \<Longrightarrow> recorded pre ts post'"
  by (auto simp: recorded_def same_immutable_def)

lemma recorded_trans:
  assumes a: "recorded p ts q" and b: "recorded q us r"
  shows "recorded p (ts @ us) r"
proof -
  have "linked (le_status x) (of_target i (ts @ us)) (le_status y)" if "dget (r_targets p) i = Some x" "dget (r_targets r) i = Some y" for i x y
  proof -
    from that b obtain z where "dget (r_targets q) i = Some z" unfolding recorded_def by (metis option.exhaust)
    with that a b show ?thesis unfolding recorded_def of_target_simps linked_append by blast
  qed
  moreover have "\<forall>t \<in> set (ts @ us). tr_runId t = r_runId p \<and> tr_actor t \<noteq> [] \<and> dget (r_targets p) (tr_targetId t) \<noteq> None"
    using a b by (auto simp: recorded_def same_immutable_def)
  ultimately show ?thesis using a b by (simp add: recorded_def same_immutable_def)
qed

lemma recorded_refl: "recorded run [] run"
  by (auto simp: recorded_def same_immutable_def)

text \<open>What it takes for a plan to pass the checks of the ledger\<close>

definition accepted :: "GoalRunLedger \<Rightarrow> (GoalRunLedger \<Rightarrow> CommitPlan option result) \<Rightarrow> bool" where
  "accepted run plan \<longleftrightarrow> (\<forall>ts f. plan run = Inr (Some (ts, f)) \<and> (\<forall>t \<in> set ts. dget (r_targets run) (tr_targetId t) \<noteq> None) \<longrightarrow> recorded run ts (f run))"

lemma transition_plan_accepted:
  assumes "actor \<noteq> []" and "keeps_status x" and g: "\<And>l. r_targets (g l) = r_targets l \<and> same_immutable (g l) l"
  shows "accepted run (transition_plan now i to reason actor x g onlyFrom)"
  unfolding accepted_def
proof (intro allI impI, elim conjE)
  fix ts f
  assume p: "transition_plan now i to reason actor x g onlyFrom run = Inr (Some (ts, f))"
    and ts: "\<forall>t \<in> set ts. dget (r_targets run) (tr_targetId t) \<noteq> None"
  from transition_plan_Some [OF p] obtain t f0 where c: "change now run i to reason actor x = Inr (t, f0)" and f: "f = (\<lambda>l. g (f0 l))" and t: "ts = [t]" by blast
  have "dget (r_targets run) i \<noteq> None" using ts t c by (simp add: change_Inr)
  from change_recorded(1) [OF c assms(1) this assms(2)] show "recorded run ts (f run)" unfolding f t by (rule recorded_same_run) (simp_all add: g)
qed

lemma same_immutable_refl [simp]: "same_immutable l l"
  by (simp add: same_immutable_def)

lemma target_plans_accepted:
  "accepted run (verifying_plan now i a route x ok)" "accepted run (verified_plan now i a evs)"
  "accepted run (external_plan now i a evs rs)" "accepted run (approval_plan now i att k scope rs)"
  "accepted run (block_plan now i a reason evs err)" "accepted run (stop_plan now i a why)"
  "accepted run (failed_plan now i a msg gate)" "accepted run (retest_plan now i a h)"
  "accepted run (repairing_plan now i a action h)" "actor \<noteq> [] \<Longrightarrow> accepted run (retry_plan now i actor)"
  unfolding target_plan_defs CONTROLLER_ACTOR_def
  by (rule transition_plan_accepted; simp add: keeps_status_def same_immutable_def)+

lemma status_plan_accepted: "accepted run (run_status_plan now to)"
  unfolding accepted_def run_status_plan_def by (auto intro: recorded_same_run [OF recorded_refl] simp: same_immutable_def)

lemma start_plan_accepted: "accepted run (start_plan now graph i)"
  unfolding accepted_def
proof (intro allI impI, elim conjE)
  fix ts f
  assume s: "start_plan now graph i run = Inr (Some (ts, f))" and ts: "\<forall>t \<in> set ts. dget (r_targets run) (tr_targetId t) \<noteq> None"
  from s obtain t where t: "ts = [t]" "tr_runId t = r_runId run" "tr_actor t = CONTROLLER_ACTOR" "tr_targetId t = i" "tr_fromState t = status_of run i" "tr_toState t = Active"
    unfolding start_plan_def Let_def by (auto simp: bindE_Inr change_Inr split: if_splits)
  from ts t show "recorded run ts (f run)"
    unfolding start_plan_Some(3) [OF s] recorded_def
    by (auto simp: same_immutable_def CONTROLLER_ACTOR_def of_target_def status_of_def started_entry_def Let_def)
qed

lemma progress_plan_accepted: "actor \<noteq> [] \<Longrightarrow> accepted run (progress_plan now i a evs actor reason)"
  unfolding accepted_def
proof (intro allI impI, elim conjE)
  fix ts f
  assume act: "actor \<noteq> []" and p: "progress_plan now i a evs actor reason run = Inr (Some (ts, f))"
    and ts: "\<forall>t \<in> set ts. dget (r_targets run) (tr_targetId t) \<noteq> None"
  let ?d = "\<lparr>ce_attemptId = Some a, ce_evidenceIds = evs, ce_entry = (\<lambda>e. e\<lparr>le_blockers := without_pending (le_blockers e)\<rparr>)\<rparr>"
  let ?v = "\<lparr>ce_attemptId = Some a, ce_evidenceIds = evs, ce_entry = id\<rparr>"
  have k: "keeps_status ?d" "keeps_status ?v" by (simp_all add: keeps_status_def)
  show "recorded run ts (f run)"
  proof (cases "map_option le_status (dget (r_targets run) i) = Some Verifying")
    case True
    with p obtain t1 f1 t2 f2 where c: "change now run i Verified ''independent verification passed'' ''verifier'' ?v = Inr (t1, f1)"
      "change now (f1 run) i Completed reason actor ?d = Inr (t2, f2)" "f = (\<lambda>l. f2 (f1 l))" "ts = [t1] @ [t2]"
      unfolding progress_plan_def Let_def True by (auto simp: bindE_Inr)
    from True have i: "dget (r_targets run) i \<noteq> None" by auto
    have "dget (r_targets (f1 run)) i \<noteq> None" using c(1) by (auto simp: change_Inr apply_change_eq(1))
    from recorded_trans [OF change_recorded(1) [OF c(1) _ i k(2)] change_recorded(1) [OF c(2) act this k(1)]] c(3,4) show ?thesis by simp
  next
    case False
    with p obtain t where c: "change now run i Completed reason actor ?d = Inr (t, f)" "ts = [t]"
      unfolding progress_plan_def Let_def by (auto simp: bindE_Inr split: if_splits)
    then have "dget (r_targets run) i \<noteq> None" using ts by (simp add: change_Inr)
    from change_recorded(1) [OF c(1) act this k(1)] c(2) show ?thesis by simp
  qed
qed

text \<open>The run has an entry for every target of the graph, as \<open>createRun\<close> gives it.\<close>

definition covers_graph :: "GoalGraphDefinition \<Rightarrow> GoalRunLedger \<Rightarrow> bool" where
  "covers_graph graph run \<longleftrightarrow> (\<forall>t \<in> set (g_targets graph). dget (r_targets run) (t_id t) \<noteq> None) \<and> distinct (map t_id (g_targets graph))"

lemma init_plan_accepted: "covers_graph graph run \<Longrightarrow> accepted run (init_plan now graph)"
proof -
  assume c: "covers_graph graph run"
  have "\<forall>t \<in> set ts. dget d (t_id t) \<noteq> None \<Longrightarrow>
      fold (\<lambda>t d. if dget d (t_id t) = None then dput (t_id t) (emptyEntry (t_id t) now) d else d) ts d = d" for ts d
    by (induction ts arbitrary: d) auto
  from this [of "g_targets graph" "r_targets run"] have "init_plan now graph run = Inr (Some ([], f)) \<Longrightarrow> f run = run" for f
    using c by (auto simp: init_plan_def covers_graph_def)
  then show ?thesis by (auto simp: accepted_def init_plan_def intro: recorded_refl)
qed

lemma unlock_changes_recorded:
  "list_all2 (\<lambda>i c. \<exists>t. unlock_change now graph run i = Inr c \<and> dget (r_targets run) i \<noteq> None) ids cs \<Longrightarrow> distinct ids \<Longrightarrow>
   r_runId l = r_runId run \<Longrightarrow> \<forall>i \<in> set ids. status_of l i = status_of run i \<and> dget (r_targets l) i \<noteq> None \<Longrightarrow>
   recorded l (map fst cs) (fold (\<lambda>c. snd c) cs l)"
proof (induction ids cs arbitrary: l rule: list_all2_induct)
  case Nil
  then show ?case by (simp add: recorded_refl)
next
  case (Cons i ids c cs)
  then obtain t reason where c: "change now run i Eligible reason CONTROLLER_ACTOR no_extra = Inr c"
    by (auto simp: unlock_change_def bindE_Inr)
  have "change now l i Eligible reason CONTROLLER_ACTOR no_extra = change now run i Eligible reason CONTROLLER_ACTOR no_extra"
    using Cons.prems by (simp add: change_def Let_def)
  with c have cl: "change now l i Eligible reason CONTROLLER_ACTOR no_extra = Inr (fst c, snd c)" by simp
  have "dget (r_targets l) i \<noteq> None" "CONTROLLER_ACTOR \<noteq> []" "keeps_status no_extra"
    using Cons.prems by (simp_all add: CONTROLLER_ACTOR_def keeps_status_def no_extra_def)
  then have r: "recorded l [fst c] (snd c l)" using change_recorded(1) [OF cl] by blast
  have "snd c = apply_change now i Eligible no_extra" using cl unfolding change_Inr by blast
  then have "recorded (snd c l) (map fst cs) (fold (\<lambda>c. snd c) cs (snd c l))"
    using Cons.prems r by (intro Cons.IH) (auto simp: apply_change_eq recorded_def same_immutable_def)
  from recorded_trans [OF r this] show ?case by simp
qed

lemma eligible_distinct: "distinct (map t_id ts) \<Longrightarrow> distinct (eligibleTargets run ts)"
proof -
  let ?f = "filter (\<lambda>t. status_of run (t_id t) \<in> set SELECTABLE \<and> dependenciesCompleted run t) ts"
  assume "distinct (map t_id ts)"
  then have "distinct (map t_id ?f)" by (rule distinct_map_filter)
  then show ?thesis by (simp add: eligibleTargets_def Let_def distinct_map)
qed

lemma unlock_plan_accepted:
  assumes c: "covers_graph graph run"
  shows "accepted run (unlock_plan now graph)"
  unfolding accepted_def
proof (intro allI impI, elim conjE)
  fix ts f
  let ?ids = "newlyUnlockedTargets run (g_targets graph)"
  assume "unlock_plan now graph run = Inr (Some (ts, f))"
  then obtain cs where cs: "map (unlock_change now graph run) ?ids = map Inr cs" and f: "f = fold (\<lambda>c. snd c) cs" and ts: "ts = map fst cs"
    unfolding unlock_plan_def Let_def unlock_change_def [abs_def]
    by (cases "?ids = []") (simp, simp only: if_False bindE_Inr collectE_Inr, auto)
  have ids: "distinct ?ids" using eligible_distinct c by (simp add: newlyUnlockedTargets_def covers_graph_def)
  have present: "dget (r_targets run) i \<noteq> None" if "i \<in> set ?ids" for i
    using that c unfolding newlyUnlockedTargets_def eligibleTargets_def covers_graph_def Let_def by auto
  have "list_all2 (\<lambda>i c. \<exists>t. unlock_change now graph run i = Inr c \<and> dget (r_targets run) i \<noteq> None) ?ids cs"
  proof (rule list_all2_all_nthI)
    show "length ?ids = length cs" using cs by (metis length_map)
    fix n assume n: "n < length ?ids"
    then have "unlock_change now graph run (?ids ! n) = Inr (cs ! n)" using cs by (metis length_map nth_map)
    then show "\<exists>t. unlock_change now graph run (?ids ! n) = Inr (cs ! n) \<and> dget (r_targets run) (?ids ! n) \<noteq> None" using present n by auto
  qed
  from unlock_changes_recorded [OF this ids refl] present show "recorded run ts (f run)" unfolding f ts by simp
qed

lemma resolve_plans_accepted:
  assumes act: "actor \<noteq> []" and "p \<in> set (resolve_plans now i granted actor reason e m r)"
  shows "accepted run p"
proof (cases "granted \<and> mk_kind m \<noteq> ExecuteApproval")
  case False
  then show ?thesis using assms
    by (cases granted) (auto simp: resolve_plans_def Let_def keeps_status_def intro!: transition_plan_accepted)
next
  case True
  have "accepted run (\<lambda>fresh. Inr (Some ([], \<lambda>l. case dget (r_targets l) i of None \<Rightarrow> l
      | Some x \<Rightarrow> l\<lparr>r_targets := dput i ((swap_marker m True x)\<lparr>le_updatedAt := now\<rparr>) (r_targets l), r_updatedAt := now\<rparr>)))"
    by (auto simp: accepted_def recorded_def same_immutable_def split: option.splits)
  with True show ?thesis using assms(2) progress_plan_accepted [OF act] unfolding resolve_plans_def Let_def
    by (elim conjE) (simp only: not_True_eq_False if_False list.set insert_iff empty_iff simp_thms, blast)
qed

lemma controller_plan_accepted: "controller_plan graph run plan \<Longrightarrow> covers_graph graph run \<Longrightarrow> accepted run plan"
  by (induction rule: controller_plan.induct)
    (auto intro: init_plan_accepted unlock_plan_accepted start_plan_accepted target_plans_accepted progress_plan_accepted
      resolve_plans_accepted status_plan_accepted)

subsection \<open>The commit loop implements the plans\<close>

text \<open>A driver that holds the run's current lease\<close>

definition drives :: "Driver \<Rightarrow> Store \<Rightarrow> timestamp \<Rightarrow> RunEnvelope \<Rightarrow> bool" where
  "drives d s now env \<longleftrightarrow> \<not> dr_lost d \<and> \<not> dr_disposed d \<and> dget (s_runs s) (dr_runId d) = Some env \<and>
     en_v env = LEDGER_ENVELOPE_VERSION \<and> r_runId (en_ledger env) = dr_runId d \<and> assertCurrentLease env (dr_lease d) now = Inr ()"

lemma drives_read: "drives d s now env \<Longrightarrow> readEnvelope s (dr_runId d) = Inr (Some env) \<and> getRun s (dr_runId d) = Inr (Some (en_ledger env))"
  by (simp add: drives_def readEnvelope_def getRun_def)

lemma commit_accepted:
  assumes d: "drives d s now env" and rec: "recorded (en_ledger env) ts (f (en_ledger env))"
  shows "\<exists>s'. commit now now (dr_runId d) (r_ledgerRevision (en_ledger env)) (dr_lease d) (\<lambda>l. Inr (f l)) ts s =
      (Inr ((f (en_ledger env))\<lparr>r_ledgerRevision := r_ledgerRevision (en_ledger env) + 1, r_updatedAt := now\<rparr>), s') \<and>
    getRun s' (dr_runId d) = Inr (Some ((f (en_ledger env))\<lparr>r_ledgerRevision := r_ledgerRevision (en_ledger env) + 1, r_updatedAt := now\<rparr>))"
proof -
  let ?run = "en_ledger env"
  let ?new = "(f ?run)\<lparr>r_ledgerRevision := r_ledgerRevision ?run + 1, r_updatedAt := now\<rparr>"
  have cc: "commit_check now (dr_runId d) (r_ledgerRevision ?run) (dr_lease d) s = Inr (en_lastBatch env)"
    using d by (simp add: commit_check_def requireEnvelope_def drives_read [OF d] drives_def)
  have "validateTransitions (dr_runId d) ?run (f ?run) ts = Inr ()" using recorded_valid [OF rec] d by (simp add: drives_def)
  then obtain e' where cu: "commit_update now (dr_runId d) (r_ledgerRevision ?run) (dr_lease d) (\<lambda>l. Inr (f l)) ts (Some env) = Inr e'"
    and e': "en_ledger e' = ?new" "en_v e' = en_v env"
    using d rec by (simp add: commit_update_Inr drives_def recorded_def)
  let ?s = "materialise (dr_runId d) (en_lastBatch env) s"
  let ?s' = "?s\<lparr>s_runs := dput (dr_runId d) e' (s_runs ?s)\<rparr>"
  have "update_run ?s (dr_runId d) (commit_update now (dr_runId d) (r_ledgerRevision ?run) (dr_lease d) (\<lambda>l. Inr (f l)) ts) = (Inr e', ?s')"
    using cu d by (simp add: update_run_Inr drives_def)
  then have "commit now now (dr_runId d) (r_ledgerRevision ?run) (dr_lease d) (\<lambda>l. Inr (f l)) ts s = (Inr ?new, materialise (dr_runId d) (en_lastBatch e') ?s')"
    using cc e'(1) by (simp add: commit_def)
  moreover have "getRun (materialise (dr_runId d) (en_lastBatch e') ?s') (dr_runId d) = Inr (Some ?new)"
    using e' d by (simp add: getRun_def readEnvelope_def drives_def)
  ultimately show ?thesis by blast
qed

text \<open>
  C8. Without interference, the commit loop on the store implements the plan: from a driver that holds the
  current lease, every plan of the controller passes the checks of the ledger store at the first try, and the
  store afterwards holds the run that \<open>apply_plan\<close> describes (with the time of the commit as its time of
  change), or the run unchanged when the plan decided to do nothing.
\<close>
theorem commit_implements_apply_plan:
  assumes d: "drives d s now env" and plan: "controller_plan graph (en_ledger env) plan" and g: "covers_graph graph (en_ledger env)"
    and run': "apply_plan plan (en_ledger env) = Inr run'"
    and ts: "\<And>ts f. plan (en_ledger env) = Inr (Some (ts, f)) \<Longrightarrow> \<forall>t \<in> set ts. dget (r_targets (en_ledger env)) (tr_targetId t) \<noteq> None"
  shows "\<exists>s'. commit_driver (\<lambda>n s. s) now plan d s =
      (Inr (if plan (en_ledger env) = Inr None then run' else run'\<lparr>r_updatedAt := now\<rparr>), d, s') \<and>
    getRun s' (dr_runId d) = Inr (Some (if plan (en_ledger env) = Inr None then run' else run'\<lparr>r_updatedAt := now\<rparr>))"
proof -
  let ?run = "en_ledger env"
  note read = drives_read [OF d]
  from run' consider (none) "plan ?run = Inr None" "run' = ?run"
    | (some) ts f where "plan ?run = Inr (Some (ts, f))" "run' = (f ?run)\<lparr>r_ledgerRevision := r_ledgerRevision ?run + 1\<rparr>"
    unfolding apply_plan_Inr by blast
  then show ?thesis
  proof cases
    case none
    then show ?thesis using d read by (simp add: commit_driver_def commit_try.simps [of COMMIT_RETRIES] drives_def)
  next
    case some
    have "recorded ?run ts (f ?run)"
      using controller_plan_accepted [OF plan g] some(1) ts [OF some(1)] by (simp add: accepted_def)
    with commit_accepted [OF d, of ts f] obtain s' where
      "commit now now (dr_runId d) (r_ledgerRevision ?run) (dr_lease d) (\<lambda>l. Inr (f l)) ts s = (Inr (run'\<lparr>r_updatedAt := now\<rparr>), s')"
      "getRun s' (dr_runId d) = Inr (Some (run'\<lparr>r_updatedAt := now\<rparr>))" using some(2) by auto
    then show ?thesis using some(1) d read by (simp add: commit_driver_def commit_try.simps [of COMMIT_RETRIES] drives_def)
  qed
qed

definition sample_driver :: Driver where
  "sample_driver = \<lparr>dr_runId = ''run-1'', dr_lease = sample_lease, dr_active = [], dr_preferred = [], dr_disposed = False, dr_lost = False\<rparr>"

definition sample_envelope :: RunEnvelope where
  "sample_envelope = the (dget (s_runs (sys_store sample_leased)) ''run-1'')"

lemma sample_drives: "drives sample_driver (sys_store sample_leased) 5 sample_envelope"
proof -
  have "map_option en_v (dget (s_runs (sys_store sample_leased)) ''run-1'') = Some LEDGER_ENVELOPE_VERSION"
    unfolding sample_leased_def LedgerSystem.simps by code_simp
  then have e: "dget (s_runs (sys_store sample_leased)) ''run-1'' = Some sample_envelope" "en_v sample_envelope = LEDGER_ENVELOPE_VERSION"
    by (auto simp: sample_envelope_def)
  have "r_runId (en_ledger sample_envelope) = ''run-1''" "assertCurrentLease sample_envelope sample_lease 5 = Inr ()"
    unfolding sample_envelope_def sample_leased_def LedgerSystem.simps by code_simp+
  with e show ?thesis by (simp add: drives_def sample_driver_def)
qed

lemma sample_envelope_ledger: "en_ledger sample_envelope = sample_run"
  unfolding sample_envelope_def sample_leased_def LedgerSystem.simps by code_simp

lemma sample_covers: "covers_graph (gr_definition sample_graph) sample_run"
  by (simp add: covers_graph_def sample_run_def new_ledger_def sample_graph_def sample_targets_def Eligibility.sample_target_def)

theorem commit_implements_apply_plan_witness:
  "\<exists>s'. commit_driver (\<lambda>n s. s) 5 (run_status_plan 5 RRunning) sample_driver (sys_store sample_leased) =
     (Inr (sample_run\<lparr>r_status := RRunning, r_ledgerRevision := 2, r_updatedAt := 5\<rparr>), sample_driver, s')"
proof -
  have p: "run_status_plan 5 RRunning sample_run = Inr (Some ([], \<lambda>l. l\<lparr>r_status := RRunning, r_updatedAt := 5\<rparr>))"
    by (simp add: run_status_plan_def sample_run_def new_ledger_def)
  have a: "apply_plan (run_status_plan 5 RRunning) sample_run = Inr (sample_run\<lparr>r_status := RRunning, r_updatedAt := 5, r_ledgerRevision := 2\<rparr>)"
    by (simp add: apply_plan_def p) (simp add: sample_run_def new_ledger_def)
  have "controller_plan (gr_definition sample_graph) sample_run (run_status_plan 5 RRunning)" by (rule controller_plan.status) simp
  from commit_implements_apply_plan [OF sample_drives, unfolded sample_envelope_ledger, OF this sample_covers a] p show ?thesis by auto
qed

subsection \<open>The commit loop under interference\<close>

text \<open>
  A try that finds a conflict: the plan is made for the ledger that was read, others write (\<open>I n\<close>), the commit
  is refused because the revision has changed, and the next try begins in the store it leaves.
\<close>

definition conflict_try :: "(nat \<Rightarrow> Store \<Rightarrow> Store) \<Rightarrow> timestamp \<Rightarrow> (GoalRunLedger \<Rightarrow> CommitPlan option result) \<Rightarrow> Driver \<Rightarrow> nat \<times> Store \<Rightarrow> nat \<times> Store \<Rightarrow> bool" where
  "conflict_try I now plan d = (\<lambda>(n, s) (n', s'). n = Suc n' \<and> (\<exists>fresh ts f e. getRun s (dr_runId d) = Inr (Some fresh) \<and> plan fresh = Inr (Some (ts, f)) \<and>
     commit now now (dr_runId d) (r_ledgerRevision fresh) (dr_lease d) (\<lambda>l. Inr (f l)) ts (I n s) = (Inl e, s') \<and> e_code e = LEDGER_CONFLICT))"

text \<open>
  \<open>applied_at n s\<close>: the try that began in \<open>s\<close> decided. Either the plan asked for nothing of the ledger that
  was read, which is returned, or the stored run is now the plan's mutation of the run that was stored in
  \<open>I n s\<close>, after the others had written; that run was at the revision of the ledger that was read.
\<close>

definition applied_at :: "(nat \<Rightarrow> Store \<Rightarrow> Store) \<Rightarrow> timestamp \<Rightarrow> (GoalRunLedger \<Rightarrow> CommitPlan option result) \<Rightarrow> GoalRunId \<Rightarrow> nat \<Rightarrow> Store \<Rightarrow> GoalRunLedger \<Rightarrow> Store \<Rightarrow> bool" where
  "applied_at I now plan r n s run' s' \<longleftrightarrow>
     (\<exists>fresh. getRun s r = Inr (Some fresh) \<and>
       (plan fresh = Inr None \<and> run' = fresh \<and> s' = s \<or>
        (\<exists>ts f stored e'. plan fresh = Inr (Some (ts, f)) \<and> dget (s_runs (I n s)) r = Some stored \<and>
          r_ledgerRevision (en_ledger stored) = r_ledgerRevision fresh \<and>
          run' = (f (en_ledger stored))\<lparr>r_ledgerRevision := r_ledgerRevision fresh + 1, r_updatedAt := now\<rparr> \<and>
          s_runs s' = dput r e' (s_runs (I n s)) \<and> en_ledger e' = run')))"

lemma commit_Inr:
  assumes "commit now now r exp_rev lease (\<lambda>l. Inr (f l)) ts s = (Inr run', s')"
  shows "\<exists>e e'. dget (s_runs s) r = Some e \<and> r_ledgerRevision (en_ledger e) = exp_rev \<and>
     run' = (f (en_ledger e))\<lparr>r_ledgerRevision := exp_rev + 1, r_updatedAt := now\<rparr> \<and> s_runs s' = dput r e' (s_runs s) \<and> en_ledger e' = run'"
proof -
  from assms obtain b e' where "update_run (materialise r b s) r (commit_update now r exp_rev lease (\<lambda>l. Inr (f l)) ts) =
      (Inr e', (materialise r b s)\<lparr>s_runs := dput r e' (s_runs s)\<rparr>)"
    and l: "en_ledger e' = run'" "s_runs s' = dput r e' (s_runs s)"
    by (auto simp: commit_def update_run_Inr split: sum.splits prod.splits)
  then obtain e where "dget (s_runs s) r = Some e" "r_ledgerRevision (en_ledger e) = exp_rev"
    "en_ledger e' = (f (en_ledger e))\<lparr>r_ledgerRevision := exp_rev + 1, r_updatedAt := now\<rparr>"
    by (auto simp: update_run_Inr commit_update_Inr)
  with l show ?thesis by blast
qed

text \<open>A refused commit leaves every run as the others have written it.\<close>

lemma commit_Inl_runs: "commit now now' r exp_rev lease mutate ts s = (Inl e, s') \<Longrightarrow> s_runs s' = s_runs s"
proof (cases "commit_check now r exp_rev lease s")
  case (Inr b)
  assume c: "commit now now' r exp_rev lease mutate ts s = (Inl e, s')"
  obtain res s1 where u: "update_run (materialise r b s) r (commit_update now' r exp_rev lease mutate ts) = (res, s1)" by fastforce
  with c Inr show ?thesis by (cases res) (auto simp: commit_def update_run_Inl)
qed (simp add: commit_def)

lemma conflict_keeps_runs: "conflict_try I now plan d (n, s) (n', s') \<Longrightarrow> s_runs s' = s_runs (I n s)"
  unfolding conflict_try_def by (auto dest: commit_Inl_runs)

lemma commit_try_applied:
  "commit_try n I now plan d s = (Inr run', d', s') \<Longrightarrow>
     d' = d \<and> (\<exists>m s1. (conflict_try I now plan d)\<^sup>*\<^sup>* (n, s) (m, s1) \<and> applied_at I now plan (dr_runId d) m s1 run' s')"
proof (induction n I now plan d s rule: commit_try.induct)
  case (1 n I now plan d s)
  from "1.prems" obtain fresh where ok: "\<not> dr_lost d" "\<not> dr_disposed d" and fresh: "getRun s (dr_runId d) = Inr (Some fresh)"
    unfolding commit_try.simps [of n] by (auto split: if_splits sum.splits option.splits)
  from "1.prems" ok fresh obtain p where p: "plan fresh = Inr p"
    unfolding commit_try.simps [of n] by (auto split: sum.splits)
  show ?case
  proof (cases p)
    case None
    with "1.prems" ok fresh p have "run' = fresh" "d' = d" "s' = s" unfolding commit_try.simps [of n] by auto
    with None p fresh have "applied_at I now plan (dr_runId d) n s run' s'" by (simp add: applied_at_def)
    with \<open>d' = d\<close> show ?thesis by blast
  next
    case (Some q)
    obtain ts f where q: "q = (ts, f)" by (cases q)
    obtain res s1 where c: "commit now now (dr_runId d) (r_ledgerRevision fresh) (dr_lease d) (\<lambda>l. Inr (f l)) ts (I n s) = (res, s1)" by fastforce
    show ?thesis
    proof (cases res)
      case (Inr committed)
      with "1.prems" ok fresh p Some q c have r: "run' = committed" "d' = d" "s' = s1" unfolding commit_try.simps [of n] by auto
      with commit_Inr [OF c [unfolded Inr]] p Some q fresh have "applied_at I now plan (dr_runId d) n s run' s'" unfolding applied_at_def by blast
      with r(2) show ?thesis by blast
    next
      case (Inl e)
      with "1.prems" ok fresh p Some q c have again: "e_code e \<noteq> STALE_LEASE" "e_code e = LEDGER_CONFLICT \<and> n > 0"
          "commit_try (n - 1) I now plan d s1 = (Inr run', d', s')"
        unfolding commit_try.simps [of n] by (auto split: if_splits)
      have "conflict_try I now plan d (n, s) (n - 1, s1)"
        using again(2) fresh p Some q c Inl by (auto simp: conflict_try_def)
      then show ?thesis using "1.IH" [OF ok fresh refl p Some q [symmetric] c [symmetric] Inl again(1,2,3)]
        by (meson converse_rtranclp_into_rtranclp)
    qed
  qed
qed


text \<open>Another holder of the lease commits once, between the first read and the first commit.\<close>

definition sample_interference :: "nat \<Rightarrow> Store \<Rightarrow> Store" where
  "sample_interference n s = (if n = COMMIT_RETRIES then snd (commit 4 4 ''run-1'' 1 sample_lease Inr [] s) else s)"


end
