(* ===== verification/Attempt.thy ===== *)
theory Attempt
  imports Commit_Refinement
begin

text \<open>
  One attempt at a target: \<open>launch\<close>, \<open>runAttempt\<close>, \<open>failAttempt\<close> and what they call, of
  \<open>src/packages/goals/src/controller/controller.ts\<close>. An attempt is a program over the run, the attempt
  record and the attempt store; it may throw. What the other services answer (prompt registry, governance,
  router, executor and verifier behind \<open>once\<close>, recovery) is a record of answers, \<open>Services\<close>; each of them may
  throw instead, and is the subject of another theory or stands for code outside this package. A commit is
  \<open>apply_plan\<close>, which the store implements (\<open>Commit_Refinement\<close>); nobody else commits to the run during the
  attempt. Every access to the ledger, read, save or commit, may fail (\<open>w_faults\<close>): with an I/O error, with
  a conflict after the last retry, or because the lease is lost. Events and audit records are left out; the
  code catches their failures.

  The lemmas show what stands between a target and its completion and that nothing is executed without
  permission. \<open>Attempt_Steps\<close> shows that every commit of an attempt is a step of the controller's relation,
  and \<open>Settling\<close> that an attempt does not leave its target in flight.
\<close>

subsection \<open>Programs of the controller\<close>

datatype service_call = CallExecute IdempotencyKey | CallVerify IdempotencyKey | CallDecide IdempotencyKey

record AttemptWorld =
  w_run :: GoalRunLedger
  w_attempt :: TargetAttempt
  w_store :: Store
  w_calls :: "service_call list"
  w_faults :: "nat \<Rightarrow> ctl_error option"
  w_io :: nat
  w_failed :: bool

text \<open>
  \<open>w_faults k\<close> is what the \<open>k\<close>th access to the ledger throws, if it does; \<open>w_io\<close> counts the accesses, and
  \<open>w_failed\<close> says whether the last one failed.
\<close>

type_synonym 'a act = "AttemptWorld \<Rightarrow> (ctl_error + 'a) \<times> AttemptWorld"

definition ret :: "'a \<Rightarrow> 'a act" where
  "ret x w = (Inr x, w)"

definition throw :: "ctl_error \<Rightarrow> 'a act" where
  "throw e w = (Inl e, w)"

definition andThen :: "'a act \<Rightarrow> ('a \<Rightarrow> 'b act) \<Rightarrow> 'b act" where
  "andThen m f w = (case m w of (Inl e, w') \<Rightarrow> (Inl e, w') | (Inr x, w') \<Rightarrow> f x w')"

definition seqA :: "'a act \<Rightarrow> 'b act \<Rightarrow> 'b act" where
  "seqA m k = andThen m (\<lambda>_. k)"

definition catchA :: "'a act \<Rightarrow> (ctl_error \<Rightarrow> 'a act) \<Rightarrow> 'a act" where
  "catchA m h w = (case m w of (Inl e, w') \<Rightarrow> h e w' | (Inr x, w') \<Rightarrow> (Inr x, w'))"

definition access :: "unit act" where
  "access w = (case w_faults w (w_io w) of
     None \<Rightarrow> (Inr (), w\<lparr>w_io := Suc (w_io w), w_failed := False\<rparr>)
   | Some e \<Rightarrow> (Inl e, w\<lparr>w_io := Suc (w_io w), w_failed := True\<rparr>))"

definition applyPlan :: "(GoalRunLedger \<Rightarrow> CommitPlan option result) \<Rightarrow> GoalRunLedger act" where
  "applyPlan plan w = (case apply_plan plan (w_run w) of Inl e \<Rightarrow> (Inl (Thrown e), w) | Inr r \<Rightarrow> (Inr r, w\<lparr>w_run := r\<rparr>))"

definition commitPlan :: "(GoalRunLedger \<Rightarrow> CommitPlan option result) \<Rightarrow> GoalRunLedger act" where
  "commitPlan plan = seqA access (applyPlan plan)"

definition storeAttempt :: "TargetAttempt \<Rightarrow> unit act" where
  "storeAttempt a w = (case saveAttempt a (w_store w) of
     (Inl e, s) \<Rightarrow> (Inl (Thrown e), w\<lparr>w_store := s\<rparr>) | (Inr u, s) \<Rightarrow> (Inr (), w\<lparr>w_store := s\<rparr>))"

definition saveNext :: "TargetAttempt \<Rightarrow> unit act" where
  "saveNext a = seqA access (storeAttempt a)"

definition saveCurrent :: "unit act" where
  "saveCurrent w = saveNext (w_attempt w) w"

definition setAttempt :: "(TargetAttempt \<Rightarrow> TargetAttempt) \<Rightarrow> unit act" where
  "setAttempt f w = (Inr (), w\<lparr>w_attempt := f (w_attempt w)\<rparr>)"

definition logCall :: "service_call \<Rightarrow> unit act" where
  "logCall c w = (Inr (), w\<lparr>w_calls := w_calls w @ [c]\<rparr>)"

definition getWorld :: "AttemptWorld act" where
  "getWorld w = (Inr w, w)"

subsection \<open>The answers of the other services\<close>

record ExecResult =
  ex_executionId :: ExecutionId
  ex_ok :: bool
  ex_summary :: string
  ex_error :: "GoalStudioError option"

record Services =
  sv_now :: timestamp
  sv_autoAdvance :: bool
  sv_localeCompare :: "string \<Rightarrow> string \<Rightarrow> rat"
  sv_numberText :: "rat \<Rightarrow> string"
  sv_prompt :: "ctl_error + (PromptId \<times> PromptVersion) option"
  sv_preflight :: "GoalRunLedger \<Rightarrow> GoalTarget \<Rightarrow> ctl_error + GovernanceDecision"
  sv_route :: "rat \<Rightarrow> ctl_error + ModelRouteDecision option"
  sv_spend :: "GoalRunLedger \<Rightarrow> rat \<Rightarrow> GovernanceDecision"
  sv_execute :: "ctl_error + ExecResult"
  sv_verify :: "ctl_error + EvidenceRecord list"
  sv_gate :: "GoalRunLedger \<Rightarrow> EvidenceRecord list \<Rightarrow> ctl_error + AcceptanceGateDecision"
  sv_decide :: "ctl_error + RecoveryDecision"
  sv_progress :: "ctl_error + bool"
  sv_aborts :: "nat \<Rightarrow> AbortReason option"
  sv_gone :: bool

text \<open>
  \<open>sv_progress\<close> is what \<open>once\<close> does with the key of \<open>COMMIT_PROGRESS\<close>: refuse it, replay it (\<open>True\<close>) or run it.
  \<open>sv_gone\<close>: the driver is disposed or has lost its lease when the attempt throws.
\<close>

definition answer :: "ctl_error + 'a \<Rightarrow> 'a act" where
  "answer r = (case r of Inl e \<Rightarrow> throw e | Inr x \<Rightarrow> ret x)"

text \<open>\<open>checkAbort\<close>: whether the attempt is told to stop at the \<open>k\<close>th check\<close>

definition checkAbort :: "Services \<Rightarrow> nat \<Rightarrow> unit act" where
  "checkAbort sv k = (case sv_aborts sv k of None \<Rightarrow> ret () | Some why \<Rightarrow> throw (AttemptAborted why))"

definition enterPhase :: "GoalPhase \<Rightarrow> unit act" where
  "enterPhase p = seqA (setAttempt (\<lambda>a. a\<lparr>at_phase := p\<rparr>)) saveCurrent"

fun abort_str :: "AbortReason \<Rightarrow> string" where
  "abort_str AbortStop = ''stop''"
| "abort_str AbortShutdown = ''shutdown''"
| "abort_str AbortLeaseLost = ''lease-lost''"
| "abort_str AbortDeadline = ''deadline''"

definition err :: "GoalStudioErrorCode \<Rightarrow> string \<Rightarrow> bool \<Rightarrow> GoalStudioError" where
  "err code message retryable = GoalStudioFailure code message retryable []"

text \<open>\<open>toError\<close> of what an \<open>await\<close> threw; an abort is an ordinary error there.\<close>

definition toError :: "GoalStudioErrorCode \<Rightarrow> ctl_error \<Rightarrow> GoalStudioError" where
  "toError fallback e = (case e of Thrown g \<Rightarrow> g | AttemptAborted why \<Rightarrow> err fallback (''attempt aborted: '' @ abort_str why) False)"

definition loadAttempt :: "Services \<Rightarrow> Store \<Rightarrow> GoalRunId \<Rightarrow> TargetId \<Rightarrow> nat \<Rightarrow> TargetAttempt" where
  "loadAttempt sv s runId targetId n =
     (case find (\<lambda>a. at_id a = attemptIdFor runId targetId n) (attempts (sv_localeCompare sv) s runId (Some targetId)) of
        Some a \<Rightarrow> a
      | None \<Rightarrow> \<lparr>at_id = attemptIdFor runId targetId n, at_runId = runId, at_targetId = targetId, at_attempt = n, at_phase = PLAN_TASK,
           at_executionId = None, at_modelRoute = None, at_promptRef = None, at_repairHypothesis = None, at_startedAt = sv_now sv,
           at_endedAt = None, at_outcome = None, at_error = None\<rparr>)"

subsection \<open>How an attempt ends\<close>

definition awaitApproval :: "Services \<Rightarrow> TargetId \<Rightarrow> ApprovalKind \<Rightarrow> string option \<Rightarrow> string list \<Rightarrow> unit act" where
  "awaitApproval sv i kind scope reasons =
     seqA (enterPhase AWAIT_APPROVAL) (andThen getWorld (\<lambda>w.
     seqA (commitPlan (approval_plan (sv_now sv) i (w_attempt w) kind scope reasons))
     (seqA (setAttempt (\<lambda>a. a\<lparr>at_outcome := Some OAwaitingApproval\<rparr>)) (enterPhase PERSIST_STATE))))"

definition blockTarget :: "Services \<Rightarrow> TargetId \<Rightarrow> string \<Rightarrow> EvidenceId list \<Rightarrow> GoalStudioError \<Rightarrow> unit act" where
  "blockTarget sv i reason evidenceIds e =
     seqA (enterPhase BLOCK_TARGET) (andThen getWorld (\<lambda>w.
     seqA (commitPlan (block_plan (sv_now sv) i (at_id (w_attempt w)) reason evidenceIds e))
     (seqA (setAttempt (\<lambda>a. a\<lparr>at_outcome := Some OBlocked, at_error := Some e, at_endedAt := Some (sv_now sv)\<rparr>)) (enterPhase RECORD_EVIDENCE))))"

definition stopTarget :: "Services \<Rightarrow> TargetId \<Rightarrow> AbortReason \<Rightarrow> unit act" where
  "stopTarget sv i why =
     andThen getWorld (\<lambda>w.
     seqA (commitPlan (stop_plan (sv_now sv) i (at_id (w_attempt w)) why))
     (seqA (setAttempt (\<lambda>a. a\<lparr>at_outcome := Some OCancelled, at_endedAt := Some (sv_now sv), at_error := Some (err CANCELLED (''attempt cancelled ('' @ abort_str why @ '')'') False)\<rparr>))
      saveCurrent))"

definition commitProgress :: "Services \<Rightarrow> TargetId \<Rightarrow> EvidenceId list \<Rightarrow> string \<Rightarrow> string \<Rightarrow> unit act" where
  "commitProgress sv i evidenceIds actor reason =
     seqA (enterPhase COMMIT_PROGRESS) (andThen getWorld (\<lambda>w.
     seqA (case sv_progress sv of Inl e \<Rightarrow> throw e | Inr True \<Rightarrow> ret (w_run w)
           | Inr False \<Rightarrow> commitPlan (progress_plan (sv_now sv) i (at_id (w_attempt w)) evidenceIds actor reason))
     (seqA (setAttempt (\<lambda>a. a\<lparr>at_outcome := Some OSucceeded, at_endedAt := Some (sv_now sv)\<rparr>)) saveCurrent)))"

text \<open>The attempts of the target before this one, by number\<close>

definition prior_attempts :: "Services \<Rightarrow> AttemptWorld \<Rightarrow> TargetId \<Rightarrow> TargetAttempt list" where
  "prior_attempts sv w i = sort_by (\<lambda>a b. rat_of_nat (at_attempt a) - rat_of_nat (at_attempt b))
     (filter (\<lambda>a. at_attempt a < at_attempt (w_attempt w)) (attempts (sv_localeCompare sv) (w_store w) (r_runId (w_run w)) (Some i)))"

definition recovery_unavailable :: "ctl_error \<Rightarrow> RecoveryDecision" where
  "recovery_unavailable e = (let m = e_message (toError INTERNAL e) in
     \<lparr>rd_action = Block, rd_failureClass = UnknownFailure, rd_diagnosis = ''recovery unavailable: '' @ m, rd_hypothesis = None,
      rd_failureSignature = ''recovery-error'', rd_reasons = [m]\<rparr>)"

definition failAttempt :: "Services \<Rightarrow> GoalGraphDefinition \<Rightarrow> TargetId \<Rightarrow> bool \<Rightarrow> GoalStudioError \<Rightarrow> unit act" where
  "failAttempt sv graph i from_gate e =
     andThen getWorld (\<lambda>w0.
     seqA (commitPlan (failed_plan (sv_now sv) i (at_id (w_attempt w0)) (e_message e) from_gate))
     (seqA (setAttempt (\<lambda>a. a\<lparr>at_outcome := Some OFailed, at_error := Some e, at_endedAt := Some (sv_now sv)\<rparr>))
     (seqA saveCurrent
     (seqA (enterPhase DIAGNOSE)
     (seqA access (seqA access
     (andThen getWorld (\<lambda>w.
      let a = w_attempt w; run = w_run w; prior = prior_attempts sv w i;
          dec = (case sv_decide sv of Inr dc \<Rightarrow> dc | Inl x \<Rightarrow> recovery_unavailable x) in
      seqA (logCall (CallDecide (idempotencyKey (r_runId run) i (at_attempt a) DIAGNOSE)))
      (seqA (setAttempt (\<lambda>a. recorded_attempt a e dec (sv_now sv)))
      (seqA saveCurrent
      (if dget (r_targets run) i = None \<and> rd_action dec \<noteq> Block then throw (Thrown (failure INTERNAL))
       else
         (case after_failure (limitsOf graph) (entry_of run i (sv_now sv)) e dec prior (recorded_attempt a e dec (sv_now sv)) of
            Inl (reason, code) \<Rightarrow> blockTarget sv i reason [] (err code reason False)
          | Inr hypothesis \<Rightarrow>
              seqA (enterPhase REPAIR_HYPOTHESIS)
              (seqA (commitPlan (repairing_plan (sv_now sv) i (at_id a) (rd_action dec) hypothesis))
              (if sv_autoAdvance sv then saveNext (next_attempt (sv_now sv) a hypothesis)
               else seqA (commitPlan (retest_plan (sv_now sv) i (at_id a) hypothesis)) (ret ())))))))))))))))"

subsection \<open>The attempt\<close>

text \<open>
  A stage of the attempt ends it (\<open>None\<close>) or hands a value to the next stage. \<open>permitted\<close> is the treatment of a
  governance decision: a denial blocks the target, a question waits for approval unless the attempt has one.
\<close>

definition stage :: "'a option act \<Rightarrow> ('a \<Rightarrow> 'b option act) \<Rightarrow> 'b option act" where
  "stage m f = andThen m (\<lambda>r. case r of None \<Rightarrow> ret None | Some x \<Rightarrow> f x)"

definition ending :: "unit act \<Rightarrow> 'a option act" where
  "ending m = seqA m (ret None)"

definition has_approval :: "GoalRunLedger \<Rightarrow> TargetId \<Rightarrow> nat \<Rightarrow> bool act" where
  "has_approval run i n = (case dget (r_targets run) i of None \<Rightarrow> throw (Thrown (failure INTERNAL))
     | Some e \<Rightarrow> ret (grantedApproval e (Some ExecuteApproval) (Some n)))"

definition permitted :: "Services \<Rightarrow> GoalRunLedger \<Rightarrow> TargetId \<Rightarrow> nat \<Rightarrow> GovernanceDecision \<Rightarrow> string \<Rightarrow> GoalStudioErrorCode \<Rightarrow> unit option act" where
  "permitted sv run i n dec denied code =
     (case gov_effect dec of
        Deny \<Rightarrow> ending (blockTarget sv i (denied @ join_with ''; '' (gov_reasons dec)) [] (err code (join_with ''; '' (gov_reasons dec)) False))
      | Allow \<Rightarrow> ret (Some ())
      | Ask \<Rightarrow> andThen (has_approval run i n) (\<lambda>ok.
          if ok then ret (Some ()) else ending (awaitApproval sv i ExecuteApproval (gov_approvalScope dec) (gov_reasons dec))))"

definition plan_and_preflight :: "Services \<Rightarrow> GoalTarget \<Rightarrow> TargetId \<Rightarrow> nat \<Rightarrow> GoalRunLedger \<Rightarrow> unit option act" where
  "plan_and_preflight sv target i n run =
     andThen (answer (sv_prompt sv)) (\<lambda>prompt.
     seqA (setAttempt (\<lambda>a. case prompt of None \<Rightarrow> a | Some p \<Rightarrow> a\<lparr>at_promptRef := Some p\<rparr>))
     (seqA (enterPhase PLAN_TASK) (seqA (checkAbort sv 0)
     (seqA (enterPhase PREFLIGHT) (andThen (answer (sv_preflight sv run target)) (\<lambda>pre. seqA (checkAbort sv 1)
       (permitted sv run i n pre ''preflight denied: '' POLICY_DENIED)))))))"

definition remaining_budget :: "GoalGraphDefinition \<Rightarrow> GoalRunLedger \<Rightarrow> rat" where
  "remaining_budget graph run = max 0 (hostedSpendUsd (limitsOf graph) - res_hostedSpendUsd (r_resource run))"

definition route_stage :: "Services \<Rightarrow> GoalGraphDefinition \<Rightarrow> TargetId \<Rightarrow> nat \<Rightarrow> GoalRunLedger \<Rightarrow> ModelRouteDecision option act" where
  "route_stage sv graph i n run =
     seqA (enterPhase ROUTE_MODEL) (andThen (answer (sv_route sv (remaining_budget graph run))) (\<lambda>found. seqA (checkAbort sv 2)
     (case found of
        None \<Rightarrow> ending (failAttempt sv graph i False (err NO_ROUTE ''No verified-ready model satisfies the requirements and budget'' True))
      | Some route \<Rightarrow>
          seqA (setAttempt (\<lambda>a. a\<lparr>at_modelRoute := Some route\<rparr>)) (seqA saveCurrent
          (if \<not> mr_hosted route then ret (Some route)
           else if mr_estimatedCostUsd route > remaining_budget graph run
           then ending (blockTarget sv i (''hosted spend '' @ sv_numberText sv (mr_estimatedCostUsd route) @ '' exceeds remaining budget '' @ sv_numberText sv (remaining_budget graph run)) [] (err BUDGET_EXCEEDED ''hosted spend exceeds budget'' False))
           else stage (permitted sv run i n (sv_spend sv run (mr_estimatedCostUsd route)) ''hosted spend denied: '' BUDGET_EXCEEDED)
             (\<lambda>_. ret (Some route)))))))"

definition failed_execution :: "AttemptWorld \<Rightarrow> ctl_error \<Rightarrow> ExecResult" where
  "failed_execution w e = \<lparr>ex_executionId = (case at_executionId (w_attempt w) of None \<Rightarrow> [] | Some x \<Rightarrow> x), ex_ok = False, ex_summary = [],
     ex_error = Some (toError EXECUTION_FAILED e)\<rparr>"

definition execute_stage :: "Services \<Rightarrow> GoalGraphDefinition \<Rightarrow> TargetId \<Rightarrow> nat \<Rightarrow> ModelRouteDecision \<Rightarrow> GoalRunLedger option act" where
  "execute_stage sv graph i n route =
     seqA (enterPhase EXECUTE) (andThen getWorld (\<lambda>w.
     seqA (logCall (CallExecute (idempotencyKey (r_runId (w_run w)) i n EXECUTE)))
     (andThen (case sv_execute sv of Inr r \<Rightarrow> ret r | Inl e \<Rightarrow> seqA (checkAbort sv 3) (ret (failed_execution w e))) (\<lambda>r.
     seqA (checkAbort sv 4)
     (seqA (setAttempt (\<lambda>a. if ex_executionId r \<noteq> [] then a\<lparr>at_executionId := Some (ex_executionId r)\<rparr> else a))
     (seqA saveCurrent
     (andThen (commitPlan (verifying_plan (sv_now sv) i (at_id (w_attempt w)) route (ex_executionId r) (ex_ok r))) (\<lambda>run.
      if ex_ok r then ret (Some run)
      else ending (failAttempt sv graph i False
        (case ex_error r of Some e \<Rightarrow> e
         | None \<Rightarrow> err EXECUTION_FAILED (if ex_summary r = [] then ''execution failed'' else ex_summary r) True))))))))))"

definition verify_stage :: "Services \<Rightarrow> TargetId \<Rightarrow> nat \<Rightarrow> EvidenceRecord list option act" where
  "verify_stage sv i n =
     seqA (enterPhase CHALLENGE) (seqA (enterPhase INDEPENDENT_VERIFY) (andThen getWorld (\<lambda>w.
     seqA (logCall (CallVerify (idempotencyKey (r_runId (w_run w)) i n INDEPENDENT_VERIFY)))
     (case sv_verify sv of Inl e \<Rightarrow> throw e
      | Inr evidence \<Rightarrow> seqA (checkAbort sv 5) (seqA (enterPhase ACCEPTANCE_GATE) (ret (Some evidence)))))))"

definition act_on :: "Services \<Rightarrow> GoalGraphDefinition \<Rightarrow> TargetId \<Rightarrow> EvidenceId list \<Rightarrow> AcceptanceGateDecision \<Rightarrow> GateOutcome \<times> string list \<Rightarrow> unit act" where
  "act_on sv graph i ids gate enforced =
     (let why = join_with ''; '' (gd_reasons gate @ snd enforced) in
      case fst enforced of
        GCompleted \<Rightarrow> commitProgress sv i ids CONTROLLER_ACTOR ''acceptance gate: all criteria PASS with independent evidence''
      | GNeedsApproval \<Rightarrow>
          andThen getWorld (\<lambda>w. seqA (commitPlan (verified_plan (sv_now sv) i (at_id (w_attempt w)) ids))
            (awaitApproval sv i CompleteApproval None (if snd enforced \<noteq> [] then snd enforced else gd_reasons gate)))
      | GAwaitingExternal \<Rightarrow>
          andThen getWorld (\<lambda>w. seqA (commitPlan (external_plan (sv_now sv) i (at_id (w_attempt w)) ids (gd_reasons gate @ snd enforced)))
            (seqA (setAttempt (\<lambda>a. a\<lparr>at_endedAt := Some (sv_now sv)\<rparr>)) (enterPhase RECORD_EVIDENCE)))
      | GBlocked \<Rightarrow> blockTarget sv i (''acceptance gate blocked: '' @ why) ids (err VERIFICATION_FAILED (join_with ''; '' (gd_reasons gate)) False)
      | GRepair \<Rightarrow> failAttempt sv graph i True (err VERIFICATION_FAILED (if why = [] then ''acceptance gate failed'' else why) True))"

definition accept_stage :: "Services \<Rightarrow> GoalGraphDefinition \<Rightarrow> GoalTarget \<Rightarrow> TargetId \<Rightarrow> string \<Rightarrow> GoalRunLedger \<Rightarrow> EvidenceRecord list \<Rightarrow> unit act" where
  "accept_stage sv graph target i executor run evidence =
     (case sv_gate sv run evidence of Inl e \<Rightarrow> throw e
      | Inr gate \<Rightarrow> seqA (checkAbort sv 6)
          (act_on sv graph i (map ev_id evidence) gate (enforceGate gate evidence target executor (dget (r_targets run) i))))"

definition attempt_body :: "Services \<Rightarrow> GoalGraphDefinition \<Rightarrow> GoalTarget \<Rightarrow> TargetId \<Rightarrow> nat \<Rightarrow> unit option act" where
  "attempt_body sv graph target i n =
     seqA access (andThen getWorld (\<lambda>w0.
     stage (plan_and_preflight sv target i n (w_run w0)) (\<lambda>_.
     stage (route_stage sv graph i n (w_run w0)) (\<lambda>route.
     stage (execute_stage sv graph i n route) (\<lambda>run.
     stage (verify_stage sv i n) (\<lambda>evidence.
       ending (accept_stage sv graph target i (mr_modelId route) run evidence)))))))"

definition on_abort :: "Services \<Rightarrow> TargetId \<Rightarrow> ctl_error \<Rightarrow> unit act" where
  "on_abort sv i e =
     (if e \<in> {AttemptAborted AbortStop, AttemptAborted AbortDeadline}
      then catchA (stopTarget sv i (case e of AttemptAborted why \<Rightarrow> why | _ \<Rightarrow> AbortStop)) (\<lambda>_. ret ())
      else throw e)"

definition runAttempt :: "Services \<Rightarrow> GoalGraphDefinition \<Rightarrow> TargetId \<Rightarrow> nat \<Rightarrow> unit act" where
  "runAttempt sv graph i n =
     (case targetOf graph i of Inl e \<Rightarrow> throw (Thrown e)
      | Inr target \<Rightarrow>
          seqA access (andThen getWorld (\<lambda>w.
          seqA (setAttempt (\<lambda>_. loadAttempt sv (w_store w) (r_runId (w_run w)) i n))
          (catchA (seqA (attempt_body sv graph target i n) (ret ())) (on_abort sv i)))))"

text \<open>\<open>launch\<close>: what is thrown out of the attempt blocks the target, except for a lost lease or a shutdown.\<close>

definition lost_or_shutdown :: "ctl_error \<Rightarrow> bool" where
  "lost_or_shutdown e = (case e of AttemptAborted _ \<Rightarrow> True | Thrown g \<Rightarrow> e_code g = STALE_LEASE)"

definition on_crash :: "Services \<Rightarrow> TargetId \<Rightarrow> nat \<Rightarrow> ctl_error \<Rightarrow> unit act" where
  "on_crash sv i n e =
     (if lost_or_shutdown e \<or> sv_gone sv then ret ()
      else catchA (seqA access (andThen getWorld (\<lambda>w.
        seqA (setAttempt (\<lambda>_. loadAttempt sv (w_store w) (r_runId (w_run w)) i n))
        (blockTarget sv i (''controller error: '' @ e_message (toError INTERNAL e)) [] (toError INTERNAL e))))) (\<lambda>_. ret ()))"

definition launch :: "Services \<Rightarrow> GoalGraphDefinition \<Rightarrow> TargetId \<Rightarrow> nat \<Rightarrow> unit act" where
  "launch sv graph i n = catchA (runAttempt sv graph i n) (on_crash sv i n)"

subsection \<open>Reasoning about the programs\<close>

text \<open>
  \<open>keeps I m\<close>: \<open>m\<close> preserves \<open>I\<close>, whether it returns or throws. \<open>raises E m\<close>: what \<open>m\<close> throws satisfies \<open>E\<close>,
  or comes from the ledger.
  \<open>gives P m Q\<close>: started in \<open>P\<close>, a result of \<open>m\<close> satisfies \<open>Q\<close>.
\<close>

named_theorems act_rules "rules for the programs of the controller"

definition keeps :: "(AttemptWorld \<Rightarrow> bool) \<Rightarrow> 'a act \<Rightarrow> bool" where
  "keeps I m \<longleftrightarrow> (\<forall>w r w'. m w = (r, w') \<longrightarrow> I w \<longrightarrow> I w')"

definition raises :: "(ctl_error \<Rightarrow> bool) \<Rightarrow> 'a act \<Rightarrow> bool" where
  "raises E m \<longleftrightarrow> (\<forall>w e w'. m w = (Inl e, w') \<longrightarrow> E e \<or> w_failed w')"

definition gives :: "'a act \<Rightarrow> ('a \<Rightarrow> AttemptWorld \<Rightarrow> bool) \<Rightarrow> bool" where
  "gives m Q \<longleftrightarrow> (\<forall>w x w'. m w = (Inr x, w') \<longrightarrow> Q x w')"

lemma keeps_ret [act_rules]: "keeps I (ret x)"
  by (simp add: keeps_def ret_def)

lemma keeps_throw [act_rules]: "keeps I (throw e)"
  by (simp add: keeps_def throw_def)

lemma keeps_andThen [act_rules]: "keeps I m \<Longrightarrow> (\<And>x. keeps I (f x)) \<Longrightarrow> keeps I (andThen m f)"
  unfolding keeps_def andThen_def by (force split: prod.splits sum.splits)

lemma keeps_seqA [act_rules]: "keeps I m \<Longrightarrow> keeps I k \<Longrightarrow> keeps I (seqA m k)"
  unfolding seqA_def by (rule keeps_andThen)

lemma keeps_catchA [act_rules]: "keeps I m \<Longrightarrow> (\<And>e. keeps I (h e)) \<Longrightarrow> keeps I (catchA m h)"
  unfolding keeps_def catchA_def by (force split: prod.splits sum.splits)

lemma keeps_getWorld [act_rules]: "keeps I getWorld"
  by (simp add: keeps_def getWorld_def)

lemma keeps_stage [act_rules]: "keeps I m \<Longrightarrow> (\<And>x. keeps I (f x)) \<Longrightarrow> keeps I (stage m f)"
  unfolding stage_def by (rule keeps_andThen) (auto split: option.splits intro: keeps_ret)

lemma keeps_ending [act_rules]: "keeps I m \<Longrightarrow> keeps I (ending m)"
  unfolding ending_def by (intro keeps_seqA keeps_ret)

lemma keeps_checkAbort [act_rules]: "keeps I (checkAbort sv k)"
  by (simp add: checkAbort_def keeps_ret keeps_throw split: option.splits)

lemma keeps_has_approval [act_rules]: "keeps I (has_approval run i n)"
  by (simp add: has_approval_def keeps_ret keeps_throw split: option.splits)

lemma keeps_answer [act_rules]: "keeps I (answer r)"
  by (simp add: answer_def keeps_ret keeps_throw split: sum.splits)

lemma raises_ret [act_rules]: "raises E (ret x)"
  by (simp add: raises_def ret_def)

lemma raises_getWorld [act_rules]: "raises E getWorld"
  by (simp add: raises_def getWorld_def)

lemma raises_setAttempt [act_rules]: "raises E (setAttempt f)"
  by (simp add: raises_def setAttempt_def)

lemma raises_logCall [act_rules]: "raises E (logCall c)"
  by (simp add: raises_def logCall_def)

lemma raises_throw: "E e \<Longrightarrow> raises E (throw e)"
  by (simp add: raises_def throw_def)

lemma raises_andThen [act_rules]: "raises E m \<Longrightarrow> (\<And>x. raises E (f x)) \<Longrightarrow> raises E (andThen m f)"
  unfolding raises_def andThen_def by (force split: prod.splits sum.splits)

lemma raises_seqA [act_rules]: "raises E m \<Longrightarrow> raises E k \<Longrightarrow> raises E (seqA m k)"
  unfolding seqA_def by (rule raises_andThen)

lemma raises_stage [act_rules]: "raises E m \<Longrightarrow> (\<And>x. raises E (f x)) \<Longrightarrow> raises E (stage m f)"
  unfolding stage_def by (rule raises_andThen) (auto split: option.splits intro: raises_ret)

lemma raises_ending [act_rules]: "raises E m \<Longrightarrow> raises E (ending m)"
  unfolding ending_def by (intro raises_seqA raises_ret)

lemma gives_andThen: "(\<And>x. gives (f x) Q) \<Longrightarrow> gives (andThen m f) Q"
  unfolding gives_def andThen_def by (force split: prod.splits sum.splits)

lemma gives_seqA: "gives k Q \<Longrightarrow> gives (seqA m k) Q"
  unfolding seqA_def by (rule gives_andThen)

text \<open>A result established by \<open>m\<close> and kept by what follows\<close>

lemma gives_then: "gives m (\<lambda>x w. Q w) \<Longrightarrow> keeps Q k \<Longrightarrow> gives (seqA m k) (\<lambda>x w. Q w)"
  unfolding gives_def keeps_def seqA_def andThen_def by (force split: prod.splits sum.splits)

text \<open>An access to the ledger changes the counter and the flag only.\<close>

lemma access_first:
  assumes "seqA access k w = (r, w')"
  obtains (fault) e where "r = Inl e" "w' = w\<lparr>w_io := Suc (w_io w), w_failed := True\<rparr>"
    | (passed) "k (w\<lparr>w_io := Suc (w_io w), w_failed := False\<rparr>) = (r, w')"
  using assms by (auto simp: seqA_def andThen_def access_def split: option.splits)

subsection \<open>What the primitives do to the run\<close>

lemma saveAttempt_only_attempts: "saveAttempt a s = (r, s') \<Longrightarrow> s_runs s' = s_runs s"
  using saveAttempt_store by blast

lemma keeps_run_prims [act_rules]:
  "keeps (\<lambda>w. P (w_run w)) access" "keeps (\<lambda>w. P (w_run w)) (setAttempt f)" "keeps (\<lambda>w. P (w_run w)) saveCurrent" "keeps (\<lambda>w. P (w_run w)) (saveNext a)"
  "keeps (\<lambda>w. P (w_run w)) (enterPhase p)" "keeps (\<lambda>w. P (w_run w)) (logCall c)"
proof -
  show a: "keeps (\<lambda>w. P (w_run w)) access" by (auto simp: keeps_def access_def split: option.splits)
  show s: "keeps (\<lambda>w. P (w_run w)) (setAttempt f)" for f by (simp add: keeps_def setAttempt_def)
  have "keeps (\<lambda>w. P (w_run w)) (storeAttempt b)" for b by (auto simp: keeps_def storeAttempt_def split: prod.splits sum.splits)
  with a show n: "keeps (\<lambda>w. P (w_run w)) (saveNext b)" for b unfolding saveNext_def by (intro keeps_seqA)
  then show v: "keeps (\<lambda>w. P (w_run w)) saveCurrent" by (simp add: keeps_def saveCurrent_def)
  show "keeps (\<lambda>w. P (w_run w)) (enterPhase p)" unfolding enterPhase_def by (intro keeps_seqA s v)
  show "keeps (\<lambda>w. P (w_run w)) (logCall c)" by (simp add: keeps_def logCall_def)
qed

lemma keeps_commitPlan:
  "(\<And>run run'. apply_plan plan run = Inr run' \<Longrightarrow> P run \<Longrightarrow> P run') \<Longrightarrow> keeps (\<lambda>w. P (w_run w)) (commitPlan plan)"
  unfolding commitPlan_def by (intro keeps_seqA keeps_run_prims) (auto simp: keeps_def applyPlan_def split: sum.splits)

lemma gives_commitPlan: "(\<And>run run'. apply_plan plan run = Inr run' \<Longrightarrow> P run') \<Longrightarrow> gives (commitPlan plan) (\<lambda>x w. P (w_run w))"
  unfolding commitPlan_def by (rule gives_seqA) (auto simp: gives_def applyPlan_def split: sum.splits)

lemma apply_transition_status:
  assumes "apply_plan (transition_plan now i to reason actor x g onlyFrom) run = Inr run'" and x: "keeps_status x"
    and g: "\<And>l. r_targets (g l) = r_targets l"
  shows "run' = run \<and> (onlyFrom = None \<longrightarrow> status_of run i = to) \<or> (\<forall>j. status_of run' j = (if j = i then to else status_of run j))"
proof -
  from assms(1) consider (none) "transition_plan now i to reason actor x g onlyFrom run = Inr None" "run' = run"
    | (some) ts f where "transition_plan now i to reason actor x g onlyFrom run = Inr (Some (ts, f))" "r_targets run' = r_targets (f run)"
    unfolding apply_plan_Inr by force
  then show ?thesis
  proof cases
    case none
    then show ?thesis by (auto simp: transition_plan_def Let_def bindE_Inr split: if_splits option.splits)
  next
    case some
    from transition_plan_Some [OF some(1)] obtain t f0 where "change now run i to reason actor x = Inr (t, f0)" "f = (\<lambda>l. g (f0 l))" by blast
    then have "r_targets run' = r_targets (apply_change now i to x run)" using some(2) g by (simp add: change_Inr)
    moreover have "status_of (apply_change now i to x run) j = (if j = i then to else status_of run j)" for j
      by (rule status_apply_change) (use x in \<open>simp add: keeps_status_def Let_def\<close>)
    ultimately show ?thesis by (simp add: status_of_def)
  qed
qed

lemmas attempt_plan_defs = verifying_plan_def verified_plan_def external_plan_def approval_plan_def block_plan_def stop_plan_def
  failed_plan_def repairing_plan_def retest_plan_def no_extra_def

text \<open>Of the plans an attempt commits, only \<open>commitProgress\<close> completes a target.\<close>

lemma keeps_uncompleted:
  "to \<noteq> Completed \<Longrightarrow> keeps_status x \<Longrightarrow> (\<And>l. r_targets (g l) = r_targets l) \<Longrightarrow>
     keeps (\<lambda>w. status_of (w_run w) j \<noteq> Completed) (commitPlan (transition_plan now i to reason actor x g onlyFrom))"
  by (rule keeps_commitPlan) (metis apply_transition_status)

lemma attempt_plans_uncompleted [act_rules]:
  "keeps (\<lambda>w. status_of (w_run w) j \<noteq> Completed) (commitPlan (verifying_plan now i a route x ok))"
  "keeps (\<lambda>w. status_of (w_run w) j \<noteq> Completed) (commitPlan (verified_plan now i a evs))"
  "keeps (\<lambda>w. status_of (w_run w) j \<noteq> Completed) (commitPlan (external_plan now i a evs rs))"
  "keeps (\<lambda>w. status_of (w_run w) j \<noteq> Completed) (commitPlan (approval_plan now i att k scope rs))"
  "keeps (\<lambda>w. status_of (w_run w) j \<noteq> Completed) (commitPlan (block_plan now i a reason evs e))"
  "keeps (\<lambda>w. status_of (w_run w) j \<noteq> Completed) (commitPlan (stop_plan now i a why))"
  "keeps (\<lambda>w. status_of (w_run w) j \<noteq> Completed) (commitPlan (failed_plan now i a msg gate))"
  "keeps (\<lambda>w. status_of (w_run w) j \<noteq> Completed) (commitPlan (repairing_plan now i a action h))"
  "keeps (\<lambda>w. status_of (w_run w) j \<noteq> Completed) (commitPlan (retest_plan now i a h))"
  unfolding attempt_plan_defs by (rule keeps_uncompleted; simp add: keeps_status_def)+

lemma endings_uncompleted [act_rules]:
  "keeps (\<lambda>w. status_of (w_run w) j \<noteq> Completed) (awaitApproval sv i kind scope rs)"
  "keeps (\<lambda>w. status_of (w_run w) j \<noteq> Completed) (blockTarget sv i reason evs e)"
  "keeps (\<lambda>w. status_of (w_run w) j \<noteq> Completed) (stopTarget sv i why)"
  unfolding awaitApproval_def blockTarget_def stopTarget_def by (intro act_rules)+

lemma failAttempt_uncompleted [act_rules]: "keeps (\<lambda>w. status_of (w_run w) j \<noteq> Completed) (failAttempt sv graph i gate e)"
  unfolding failAttempt_def Let_def by (intro act_rules) (auto split: sum.splits prod.splits intro!: act_rules)

lemma permitted_uncompleted [act_rules]: "keeps (\<lambda>w. status_of (w_run w) j \<noteq> Completed) (permitted sv run i n dec denied code)"
  unfolding permitted_def by (cases "gov_effect dec") (auto intro!: act_rules)

lemma stages_uncompleted [act_rules]:
  "keeps (\<lambda>w. status_of (w_run w) j \<noteq> Completed) (plan_and_preflight sv target i n run)"
  "keeps (\<lambda>w. status_of (w_run w) j \<noteq> Completed) (route_stage sv graph i n run)"
  "keeps (\<lambda>w. status_of (w_run w) j \<noteq> Completed) (execute_stage sv graph i n route)"
  "keeps (\<lambda>w. status_of (w_run w) j \<noteq> Completed) (verify_stage sv i n)"
proof -
  let ?I = "\<lambda>w. status_of (w_run w) j \<noteq> Completed"
  show "keeps ?I (plan_and_preflight sv target i n run)" unfolding plan_and_preflight_def by (intro act_rules)
  show "keeps ?I (route_stage sv graph i n run)"
    unfolding route_stage_def by (intro act_rules) (auto split: option.splits intro!: act_rules)
  show "keeps ?I (execute_stage sv graph i n route)"
    unfolding execute_stage_def by (intro act_rules) (auto split: sum.splits intro!: act_rules)
  show "keeps ?I (verify_stage sv i n)"
    unfolding verify_stage_def by (intro act_rules) (auto split: sum.splits intro!: act_rules)
qed

lemma act_on_uncompleted:
  "fst enforced \<noteq> GCompleted \<Longrightarrow> keeps (\<lambda>w. status_of (w_run w) j \<noteq> Completed) (act_on sv graph i ids gate enforced)"
  unfolding act_on_def Let_def by (cases "fst enforced") (auto intro!: act_rules)

text \<open>What has to be true for an attempt to complete its target\<close>

definition earned :: "Services \<Rightarrow> GoalGraphDefinition \<Rightarrow> GoalTarget \<Rightarrow> TargetId \<Rightarrow> GoalRunLedger \<Rightarrow> bool" where
  "earned sv graph target i run \<longleftrightarrow>
     (\<exists>r route evidence verified gate.
        sv_route sv (remaining_budget graph run) = Inr (Some route) \<and> sv_execute sv = Inr r \<and> ex_ok r \<and> sv_verify sv = Inr evidence \<and>
        sv_gate sv verified evidence = Inr gate \<and>
        fst (enforceGate gate evidence target (mr_modelId route) (dget (r_targets verified) i)) = GCompleted)"

text \<open>What a stage hands on\<close>

definition hands :: "'a option act \<Rightarrow> ('a \<Rightarrow> bool) \<Rightarrow> bool" where
  "hands m P \<longleftrightarrow> (\<forall>w x w'. m w = (Inr (Some x), w') \<longrightarrow> P x)"

lemma keeps_stage_hands: "keeps I m \<Longrightarrow> hands m P \<Longrightarrow> (\<And>x. P x \<Longrightarrow> keeps I (f x)) \<Longrightarrow> keeps I (stage m f)"
  unfolding keeps_def hands_def stage_def andThen_def by (force simp: ret_def split: prod.splits sum.splits option.splits)

lemma hands_ret: "hands (ret (Some x)) P \<longleftrightarrow> P x"
  by (simp add: hands_def ret_def)

lemma hands_ending: "hands (ending m) P"
  by (auto simp: hands_def ending_def seqA_def andThen_def ret_def split: prod.splits sum.splits)

lemma hands_andThen: "(\<And>x. hands (f x) P) \<Longrightarrow> hands (andThen m f) P"
  unfolding hands_def andThen_def by (force split: prod.splits sum.splits)

lemma hands_seqA: "hands k P \<Longrightarrow> hands (seqA m k) P"
  unfolding seqA_def by (rule hands_andThen)

lemma hands_throw: "hands (throw e) P"
  by (simp add: hands_def throw_def)

lemma hands_stage: "(\<And>x. hands (f x) P) \<Longrightarrow> hands (stage m f) P"
  unfolding stage_def by (rule hands_andThen) (auto simp: hands_def ret_def split: option.splits)

lemma hands_answer: "(\<And>x. r = Inr x \<Longrightarrow> hands (f x) P) \<Longrightarrow> hands (andThen (answer r) f) P"
  by (cases r) (auto simp: hands_def andThen_def answer_def ret_def throw_def)

lemma hands_route: "hands (route_stage sv graph i n run) (\<lambda>route. sv_route sv (remaining_budget graph run) = Inr (Some route))"
  unfolding route_stage_def
  by (intro hands_seqA hands_answer) (auto split: option.splits intro!: hands_ending hands_seqA hands_stage simp: hands_ret)

lemma hands_execute: "hands (execute_stage sv graph i n route) (\<lambda>run. \<exists>r. sv_execute sv = Inr r \<and> ex_ok r)"
proof (cases "sv_execute sv")
  case (Inr r)
  have ret_r: "andThen (ret r) f = f r" for f :: "ExecResult \<Rightarrow> 'x act" by (simp add: andThen_def ret_def fun_eq_iff)
  show ?thesis unfolding execute_stage_def Inr sum.case ret_r
    by (intro hands_seqA hands_andThen) (auto simp: hands_ret intro: hands_ending)
next
  case (Inl e)
  have failed: "hands (andThen (seqA (checkAbort sv 3) (ret (failed_execution w e))) f) P" if "\<And>x. \<not> ex_ok x \<Longrightarrow> hands (f x) P" for f :: "ExecResult \<Rightarrow> 'x option act" and P w
    using that unfolding hands_def andThen_def seqA_def checkAbort_def
    by (force simp: ret_def throw_def failed_execution_def split: prod.splits sum.splits option.splits)
  show ?thesis unfolding execute_stage_def Inl sum.case
    by (rule hands_seqA, rule hands_andThen, rule hands_seqA, rule failed, intro hands_seqA hands_andThen) (simp add: hands_ending)
qed

lemma hands_verify: "hands (verify_stage sv i n) (\<lambda>evidence. sv_verify sv = Inr evidence)"
  unfolding verify_stage_def by (intro hands_seqA hands_andThen) (auto split: sum.splits intro!: hands_seqA hands_throw simp: hands_ret)

lemma accept_stage_uncompleted:
  "\<not> (\<exists>gate. sv_gate sv run evidence = Inr gate \<and> fst (enforceGate gate evidence target executor (dget (r_targets run) i)) = GCompleted) \<Longrightarrow>
     keeps (\<lambda>w. status_of (w_run w) j \<noteq> Completed) (accept_stage sv graph target i executor run evidence)"
  unfolding accept_stage_def by (cases "sv_gate sv run evidence") (auto intro!: act_rules act_on_uncompleted)

lemma body_uncompleted:
  assumes "\<not> earned sv graph target i run"
  shows "w_run w = run \<Longrightarrow> attempt_body sv graph target i n w = (r, w') \<Longrightarrow> status_of run j \<noteq> Completed \<Longrightarrow> status_of (w_run w') j \<noteq> Completed"
proof -
  let ?I = "\<lambda>w. status_of (w_run w) j \<noteq> Completed"
  have "keeps ?I (stage (plan_and_preflight sv target i n run) (\<lambda>_. stage (route_stage sv graph i n run) (\<lambda>route.
     stage (execute_stage sv graph i n route) (\<lambda>v. stage (verify_stage sv i n) (\<lambda>evidence.
       (ending (accept_stage sv graph target i (mr_modelId route) v evidence) :: unit option act))))))"
  proof (rule keeps_stage, rule act_rules, rule keeps_stage_hands [OF _ hands_route], rule act_rules,
      rule keeps_stage_hands [OF _ hands_execute], rule act_rules, rule keeps_stage_hands [OF _ hands_verify], rule act_rules, rule keeps_ending, rule accept_stage_uncompleted)
    fix route v evidence
    assume "sv_route sv (remaining_budget graph run) = Inr (Some route)" "\<exists>r. sv_execute sv = Inr r \<and> ex_ok r" "sv_verify sv = Inr evidence"
    with assms show "\<not> (\<exists>gate. sv_gate sv v evidence = Inr gate \<and> fst (enforceGate gate evidence target (mr_modelId route) (dget (r_targets v) i)) = GCompleted)"
      unfolding earned_def by blast
  qed
  then show "w_run w = run \<Longrightarrow> attempt_body sv graph target i n w = (r, w') \<Longrightarrow> status_of run j \<noteq> Completed \<Longrightarrow> status_of (w_run w') j \<noteq> Completed"
    unfolding attempt_body_def keeps_def by (elim access_first) (simp_all add: andThen_def getWorld_def)
qed

lemma runAttempt_split:
  assumes "targetOf graph i = Inr target" and "runAttempt sv graph i n w = (r, w')"
  obtains (fault) e where "r = Inl e" "w' = w\<lparr>w_io := Suc (w_io w), w_failed := True\<rparr>"
    | (began) u b v where
        "u = w\<lparr>w_io := Suc (w_io w), w_failed := False, w_attempt := loadAttempt sv (w_store w) (r_runId (w_run w)) i n\<rparr>"
        "attempt_body sv graph target i n u = (b, v)"
        "case b of Inr x \<Rightarrow> w' = v \<and> r = Inr () | Inl e \<Rightarrow> on_abort sv i e v = (r, w')"
proof -
  let ?u = "w\<lparr>w_io := Suc (w_io w), w_failed := False, w_attempt := loadAttempt sv (w_store w) (r_runId (w_run w)) i n\<rparr>"
  obtain b v where b: "attempt_body sv graph target i n ?u = (b, v)" by fastforce
  from assms(2) show thesis unfolding runAttempt_def assms(1) sum.case
  proof (cases rule: access_first)
    case (fault e)
    then show thesis by (rule that(1))
  next
    case passed
    then have "case b of Inr x \<Rightarrow> w' = v \<and> r = Inr () | Inl e \<Rightarrow> on_abort sv i e v = (r, w')"
      using b by (simp add: andThen_def getWorld_def seqA_def setAttempt_def catchA_def ret_def split: sum.splits)
    with b show thesis by (rule that(2) [OF refl])
  qed
qed

lemma launch_split:
  assumes "launch sv graph i n w = (r, w')"
  obtains b v where "runAttempt sv graph i n w = (b, v)" "case b of Inr x \<Rightarrow> w' = v \<and> r = Inr x | Inl e \<Rightarrow> on_crash sv i n e v = (r, w')"
  using assms by (cases "runAttempt sv graph i n w") (auto simp: launch_def catchA_def split: sum.splits)

lemma runAttempt_uncompleted:
  assumes t: "targetOf graph i = Inr target" and no: "\<not> earned sv graph target i (w_run w)"
    and r: "runAttempt sv graph i n w = (r, w')" and st: "status_of (w_run w) j \<noteq> Completed"
  shows "status_of (w_run w') j \<noteq> Completed"
proof -
  let ?I = "\<lambda>w. status_of (w_run w) j \<noteq> Completed"
  have h: "keeps ?I (on_abort sv i e)" for e unfolding on_abort_def by (auto intro!: act_rules)
  from t r show ?thesis
  proof (cases rule: runAttempt_split)
    case (began u b v)
    have v: "?I v" using body_uncompleted [OF _ _ began(2)] no st began(1) by simp
    with began(3) h show ?thesis by (cases b) (auto simp: keeps_def)
  qed (use st in simp)
qed

text \<open>
  C4. An attempt completes its target only when it has earned it: a route was found, the execution succeeded,
  the verifier returned evidence, and the gate's decision on that evidence passed the controller's own check.
  On every other path, whatever fails or is thrown, no target becomes completed.
\<close>
theorem attempt_completes_only_when_earned:
  assumes "targetOf graph i = Inr target" and "launch sv graph i n w = (r, w')"
    and "status_of (w_run w) j \<noteq> Completed" and "status_of (w_run w') j = Completed"
  shows "earned sv graph target i (w_run w)"
proof (rule ccontr)
  assume no: "\<not> earned sv graph target i (w_run w)"
  let ?I = "\<lambda>w. status_of (w_run w) j \<noteq> Completed"
  obtain b v where b: "runAttempt sv graph i n w = (b, v)" by fastforce
  have v: "?I v" by (rule runAttempt_uncompleted [OF assms(1) no b assms(3)])
  have h: "keeps ?I (on_crash sv i n e)" for e unfolding on_crash_def by (auto intro!: act_rules)
  have "?I w'"
  proof (cases b)
    case (Inl e)
    with assms(2) b h [of e] v show ?thesis by (simp add: launch_def catchA_def keeps_def)
  next
    case (Inr x)
    with assms(2) b v show ?thesis by (simp add: launch_def catchA_def)
  qed
  with assms(4) show False by simp
qed

definition sample_route :: ModelRouteDecision where
  "sample_route = \<lparr>mr_modelId = ''m'', mr_runtimeId = ''local'', mr_computerId = None, mr_hosted = False, mr_estimatedCostUsd = 0, mr_reasons = [],
     mr_rejected = [], mr_decidedAt = 0\<rparr>"

definition sample_services :: Services where
  "sample_services = \<lparr>sv_now = 5, sv_autoAdvance = True, sv_localeCompare = compare_str, sv_numberText = (\<lambda>_. []), sv_prompt = Inr None,
     sv_preflight = (\<lambda>_ _. Inr \<lparr>gov_effect = Allow, gov_reasons = [], gov_approvalScope = None\<rparr>), sv_route = (\<lambda>_. Inr (Some sample_route)),
     sv_spend = (\<lambda>_ _. \<lparr>gov_effect = Allow, gov_reasons = [], gov_approvalScope = None\<rparr>),
     sv_execute = Inr \<lparr>ex_executionId = ''x'', ex_ok = True, ex_summary = [], ex_error = None\<rparr>, sv_verify = Inr [sample_evidence],
     sv_gate = (\<lambda>_ _. Inr sample_decision), sv_decide = Inl (AttemptAborted AbortShutdown), sv_progress = Inr False, sv_aborts = (\<lambda>_. None), sv_gone = False\<rparr>"

definition sample_world :: AttemptWorld where
  "sample_world = \<lparr>w_run = sample_active, w_attempt = Ledger_Store.sample_attempt, w_store = empty_store, w_calls = [], w_faults = (\<lambda>_. None), w_io = 0, w_failed = False\<rparr>"

theorem attempt_completes_only_when_earned_witness:
  "\<exists>w' target. launch sample_services (gr_definition sample_graph) ''A'' 1 sample_world = (Inr (), w') \<and> status_of (w_run w') ''A'' = Completed \<and>
     targetOf (gr_definition sample_graph) ''A'' = Inr target \<and> earned sample_services (gr_definition sample_graph) target ''A'' sample_active"
proof -
  let ?g = "gr_definition sample_graph"
  have c: "fst (launch sample_services ?g ''A'' 1 sample_world) = Inr ()" "status_of (w_run (snd (launch sample_services ?g ''A'' 1 sample_world))) ''A'' = Completed"
    "status_of (w_run sample_world) ''A'' \<noteq> Completed" by code_simp+
  have "isOk (targetOf ?g ''A'')" by code_simp
  then obtain t where t: "targetOf ?g ''A'' = Inr t" by (auto simp: isOk_iff)
  obtain w' where l: "launch sample_services ?g ''A'' 1 sample_world = (Inr (), w')" using c(1) by (metis prod.collapse)
  from attempt_completes_only_when_earned [OF t l c(3)] l c(2) t show ?thesis by (auto simp: sample_world_def)
qed

subsection \<open>Nothing is executed without permission\<close>

definition executions_in :: "IdempotencyKey set \<Rightarrow> AttemptWorld \<Rightarrow> bool" where
  "executions_in K w \<longleftrightarrow> (\<forall>k. CallExecute k \<in> set (w_calls w) \<longrightarrow> k \<in> K)"

lemma executions_prims [act_rules]:
  "keeps (executions_in K) access" "keeps (executions_in K) (setAttempt f)" "keeps (executions_in K) saveCurrent" "keeps (executions_in K) (saveNext a)"
  "keeps (executions_in K) (enterPhase p)" "keeps (executions_in K) (commitPlan plan)"
  "keeps (executions_in K) (logCall (CallVerify k))" "keeps (executions_in K) (logCall (CallDecide k))"
proof -
  show s: "keeps (executions_in K) (setAttempt f)" for f by (simp add: keeps_def setAttempt_def executions_in_def)
  show a: "keeps (executions_in K) access" by (auto simp: keeps_def access_def executions_in_def split: option.splits)
  have "keeps (executions_in K) (storeAttempt b)" for b by (auto simp: keeps_def storeAttempt_def executions_in_def split: prod.splits sum.splits)
  with a show n: "keeps (executions_in K) (saveNext b)" for b unfolding saveNext_def by (intro keeps_seqA)
  then show v: "keeps (executions_in K) saveCurrent" by (simp add: keeps_def saveCurrent_def)
  show "keeps (executions_in K) (enterPhase p)" unfolding enterPhase_def by (intro keeps_seqA s v)
  have "keeps (executions_in K) (applyPlan plan)" by (auto simp: keeps_def applyPlan_def executions_in_def split: sum.splits)
  with a show "keeps (executions_in K) (commitPlan plan)" unfolding commitPlan_def by (intro keeps_seqA)
  show "keeps (executions_in K) (logCall (CallVerify k))" "keeps (executions_in K) (logCall (CallDecide k))"
    by (simp_all add: keeps_def logCall_def executions_in_def)
qed

lemma executions_endings [act_rules]:
  "keeps (executions_in K) (awaitApproval sv i kind scope rs)" "keeps (executions_in K) (blockTarget sv i reason evs e)"
  "keeps (executions_in K) (stopTarget sv i why)" "keeps (executions_in K) (commitProgress sv i evs actor reason)"
  unfolding awaitApproval_def blockTarget_def stopTarget_def commitProgress_def
  by (intro act_rules | simp add: act_rules split: sum.splits bool.splits)+

lemma executions_failAttempt [act_rules]: "keeps (executions_in K) (failAttempt sv graph i gate e)"
  unfolding failAttempt_def Let_def by (intro act_rules) (auto split: sum.splits prod.splits intro!: act_rules)

lemma executions_permitted [act_rules]: "keeps (executions_in K) (permitted sv run i n dec denied code)"
  unfolding permitted_def by (cases "gov_effect dec") (auto intro!: act_rules)

lemma executions_stages [act_rules]:
  "keeps (executions_in K) (plan_and_preflight sv target i n run)" "keeps (executions_in K) (route_stage sv graph i n run)"
proof -
  show "keeps (executions_in K) (plan_and_preflight sv target i n run)" unfolding plan_and_preflight_def by (intro act_rules)
  show "keeps (executions_in K) (route_stage sv graph i n run)"
    unfolding route_stage_def by (intro act_rules) (auto split: option.splits intro!: act_rules)
qed

text \<open>A decision lets the attempt go on when it allows it, or asks and the attempt's approval was granted.\<close>

definition may_run :: "GoalRunLedger \<Rightarrow> TargetId \<Rightarrow> nat \<Rightarrow> GovernanceDecision \<Rightarrow> bool" where
  "may_run run i n dec \<longleftrightarrow> gov_effect dec = Allow \<or>
     gov_effect dec = Ask \<and> (\<exists>e. dget (r_targets run) i = Some e \<and> grantedApproval e (Some ExecuteApproval) (Some n))"

lemma hands_permitted: "hands (permitted sv run i n dec denied code) (\<lambda>_. may_run run i n dec)"
proof (cases "gov_effect dec")
  case Ask
  have "hands (andThen (has_approval run i n) (\<lambda>ok. if ok then ret (Some ()) else ending m)) (\<lambda>_. may_run run i n dec)" for m
    using Ask by (auto simp: hands_def andThen_def has_approval_def ending_def seqA_def ret_def throw_def may_run_def
      split: option.splits prod.splits sum.splits if_splits)
  with Ask show ?thesis by (simp add: permitted_def)
qed (auto simp: permitted_def may_run_def hands_ret intro: hands_ending)

lemma hands_preflight: "hands (plan_and_preflight sv target i n run) (\<lambda>_. \<exists>pre. sv_preflight sv run target = Inr pre \<and> may_run run i n pre)"
proof -
  have weaker: "hands m P \<Longrightarrow> (\<And>x. P x \<Longrightarrow> Q) \<Longrightarrow> hands m (\<lambda>_. Q)" for m :: "'x option act" and P Q by (auto simp: hands_def)
  show ?thesis unfolding plan_and_preflight_def
    by (rule hands_andThen, intro hands_seqA, rule hands_answer, rule hands_seqA, rule weaker [OF hands_permitted]) blast
qed

lemma hands_stage_first: "hands m P \<Longrightarrow> (\<And>x. P x \<Longrightarrow> hands (f x) Q) \<Longrightarrow> hands (stage m f) Q"
  unfolding hands_def stage_def andThen_def by (force simp: ret_def split: prod.splits sum.splits option.splits)

definition within_budget :: "Services \<Rightarrow> GoalGraphDefinition \<Rightarrow> TargetId \<Rightarrow> nat \<Rightarrow> GoalRunLedger \<Rightarrow> ModelRouteDecision \<Rightarrow> bool" where
  "within_budget sv graph i n run route \<longleftrightarrow> (mr_hosted route \<longrightarrow>
     mr_estimatedCostUsd route \<le> remaining_budget graph run \<and> may_run run i n (sv_spend sv run (mr_estimatedCostUsd route)))"

lemma hands_route_budget: "hands (route_stage sv graph i n run) (\<lambda>route. sv_route sv (remaining_budget graph run) = Inr (Some route) \<and> within_budget sv graph i n run route)"
  unfolding route_stage_def
proof (intro hands_seqA hands_answer)
  let ?Q = "\<lambda>route. sv_route sv (remaining_budget graph run) = Inr (Some route) \<and> within_budget sv graph i n run route"
  fix found assume f: "sv_route sv (remaining_budget graph run) = Inr found"
  have "hands (if \<not> mr_hosted route then ret (Some route)
           else if mr_estimatedCostUsd route > remaining_budget graph run then ending m
           else stage (permitted sv run i n (sv_spend sv run (mr_estimatedCostUsd route)) d c) (\<lambda>_. ret (Some route))) ?Q" if "found = Some route" for m d c route
    using f that by (auto simp: hands_ret within_budget_def intro!: hands_ending hands_stage_first [OF hands_permitted])
  then show "hands (case found of None \<Rightarrow> ending (failAttempt sv graph i False (err NO_ROUTE ''No verified-ready model satisfies the requirements and budget'' True))
      | Some route \<Rightarrow>
          seqA (setAttempt (\<lambda>a. a\<lparr>at_modelRoute := Some route\<rparr>)) (seqA saveCurrent
          (if \<not> mr_hosted route then ret (Some route)
           else if mr_estimatedCostUsd route > remaining_budget graph run
           then ending (blockTarget sv i (''hosted spend '' @ sv_numberText sv (mr_estimatedCostUsd route) @ '' exceeds remaining budget '' @ sv_numberText sv (remaining_budget graph run)) [] (err BUDGET_EXCEEDED ''hosted spend exceeds budget'' False))
           else stage (permitted sv run i n (sv_spend sv run (mr_estimatedCostUsd route)) ''hosted spend denied: '' BUDGET_EXCEEDED)
             (\<lambda>_. ret (Some route))))) ?Q"
    by (cases found) (auto simp only: option.case intro!: hands_seqA hands_ending)
qed

text \<open>The conditions under which an attempt may reach its execution\<close>

definition cleared :: "Services \<Rightarrow> GoalGraphDefinition \<Rightarrow> GoalTarget \<Rightarrow> TargetId \<Rightarrow> nat \<Rightarrow> GoalRunLedger \<Rightarrow> bool" where
  "cleared sv graph target i n run \<longleftrightarrow> (\<exists>pre. sv_preflight sv run target = Inr pre \<and> may_run run i n pre) \<and>
     (\<exists>route. sv_route sv (remaining_budget graph run) = Inr (Some route) \<and> within_budget sv graph i n run route)"

lemma body_executions:
  assumes "\<not> cleared sv graph target i n run"
  shows "w_run w = run \<Longrightarrow> attempt_body sv graph target i n w = (r, w') \<Longrightarrow> executions_in K w \<Longrightarrow> executions_in K w'"
proof -
  have "keeps (executions_in K) (stage (plan_and_preflight sv target i n run) (\<lambda>_. stage (route_stage sv graph i n run) f))" for f :: "ModelRouteDecision \<Rightarrow> unit option act"
  proof (rule keeps_stage_hands [OF _ hands_preflight], rule act_rules, rule keeps_stage_hands [OF _ hands_route_budget], rule act_rules)
    fix x y
    assume "\<exists>pre. sv_preflight sv run target = Inr pre \<and> may_run run i n pre" "sv_route sv (remaining_budget graph run) = Inr (Some y) \<and> within_budget sv graph i n run y"
    with assms show "keeps (executions_in K) (f y)" unfolding cleared_def by blast
  qed
  then show "w_run w = run \<Longrightarrow> attempt_body sv graph target i n w = (r, w') \<Longrightarrow> executions_in K w \<Longrightarrow> executions_in K w'"
    unfolding attempt_body_def keeps_def by (elim access_first) (simp_all add: andThen_def getWorld_def executions_in_def)
qed

lemma handlers_executions [act_rules]: "keeps (executions_in K) (on_abort sv i e)" "keeps (executions_in K) (on_crash sv i n e)"
  unfolding on_abort_def on_crash_def by (auto intro!: act_rules)

text \<open>
  C10. Nothing is executed without permission: an attempt calls its executor only when preflight allowed it, or
  asked and this attempt has a granted approval, and when a route was found that is local, or whose cost is
  within what remains of the budget and permitted by governance in the same way.
\<close>
theorem no_execution_without_permission:
  assumes t: "targetOf graph i = Inr target" and l: "launch sv graph i n w = (r, w')"
    and k: "CallExecute k \<in> set (w_calls w')" "CallExecute k \<notin> set (w_calls w)"
  shows "cleared sv graph target i n (w_run w)"
proof (rule ccontr)
  assume no: "\<not> cleared sv graph target i n (w_run w)"
  let ?K = "{k. CallExecute k \<in> set (w_calls w)}"
  have w: "executions_in ?K w" by (simp add: executions_in_def)
  from l obtain b v where b: "runAttempt sv graph i n w = (b, v)" "case b of Inr x \<Rightarrow> w' = v \<and> r = Inr x | Inl e \<Rightarrow> on_crash sv i n e v = (r, w')"
    by (rule launch_split)
  from t b(1) have "executions_in ?K v"
  proof (cases rule: runAttempt_split)
    case (began w1 c u)
    have "executions_in ?K u" by (rule body_executions [OF no _ began(2)]) (use w began(1) in \<open>simp_all add: executions_in_def\<close>)
    then show ?thesis using began(3) handlers_executions(1) [of ?K sv i] by (cases c) (auto simp: keeps_def)
  qed (use w in \<open>simp add: executions_in_def\<close>)
  then have "executions_in ?K w'" using b(2) handlers_executions(2) [of ?K sv i n] by (cases b) (auto simp: keeps_def)
  with k show False by (auto simp: executions_in_def)
qed

theorem no_execution_without_permission_witness:
  "\<exists>w' target k. launch sample_services (gr_definition sample_graph) ''A'' 1 sample_world = (Inr (), w') \<and> CallExecute k \<in> set (w_calls w') \<and>
     targetOf (gr_definition sample_graph) ''A'' = Inr target \<and> cleared sample_services (gr_definition sample_graph) target ''A'' 1 sample_active"
proof -
  let ?g = "gr_definition sample_graph"
  let ?k = "idempotencyKey ''run-1'' ''A'' 1 EXECUTE"
  have c: "fst (launch sample_services ?g ''A'' 1 sample_world) = Inr ()" "CallExecute ?k \<in> set (w_calls (snd (launch sample_services ?g ''A'' 1 sample_world)))"
    "CallExecute ?k \<notin> set (w_calls sample_world)" by code_simp+
  have "isOk (targetOf ?g ''A'')" by code_simp
  then obtain t where t: "targetOf ?g ''A'' = Inr t" by (auto simp: isOk_iff)
  obtain w' where l: "launch sample_services ?g ''A'' 1 sample_world = (Inr (), w')" using c(1) by (metis prod.collapse)
  from no_execution_without_permission [OF t l _ c(3)] l c(2) t show ?thesis by (auto simp: sample_world_def)
qed

end
