(* ===== verification/Attempt_Steps.thy ===== *)
theory Attempt_Steps
  imports Attempt
begin

text \<open>
  The commits of an attempt. \<open>attempt_plan\<close> lists the plans that an attempt at a target may commit; a property
  of the run that they keep is kept by the attempt as a whole, which the locale \<open>run_property\<close> proves once. Its
  two uses: every commit of an attempt is a step of the controller's relation (\<open>ctl_step\<close>), so that what
  \<open>Scheduler\<close> proves of those steps holds of the code of the attempt, and a completed target stays completed.
\<close>

subsection \<open>The plans of an attempt\<close>

inductive attempt_plan :: "GoalGraphDefinition \<Rightarrow> TargetId \<Rightarrow> GoalRunLedger \<Rightarrow> (GoalRunLedger \<Rightarrow> CommitPlan option result) \<Rightarrow> bool"
  for graph i run where
  "attempt_plan graph i run (verifying_plan now i a route x ok)"
| "attempt_plan graph i run (verified_plan now i a evs)"
| "attempt_plan graph i run (external_plan now i a evs rs)"
| "attempt_plan graph i run (approval_plan now i att k scope rs)"
| "attempt_plan graph i run (block_plan now i a reason evs e)"
| "attempt_plan graph i run (stop_plan now i a why)"
| "attempt_plan graph i run (failed_plan now i a msg gate)"
| "attempt_plan graph i run (retest_plan now i a h)"
| "attempt_plan graph i run (progress_plan now i a evs CONTROLLER_ACTOR reason)"
| repairing: "after_failure (limitsOf graph) (entry_of run i now) e dec prior att = Inr h \<Longrightarrow>
    attempt_plan graph i run (repairing_plan now i a action h)"

lemma attempt_plan_controller: "attempt_plan graph i run plan \<Longrightarrow> controller_plan graph run plan"
  by (induction rule: attempt_plan.induct) (auto intro: controller_plan.intros simp: CONTROLLER_ACTOR_def)

subsection \<open>Properties that an attempt keeps\<close>

text \<open>\<open>keeps_from run I m\<close>: as \<open>keeps\<close>, for a program that starts when the ledger is \<open>run\<close>\<close>

definition keeps_from :: "GoalRunLedger \<Rightarrow> (AttemptWorld \<Rightarrow> bool) \<Rightarrow> 'a act \<Rightarrow> bool" where
  "keeps_from run I m \<longleftrightarrow> (\<forall>w r w'. w_run w = run \<longrightarrow> m w = (r, w') \<longrightarrow> I w \<longrightarrow> I w')"

lemma keeps_from_keeps: "keeps I m \<Longrightarrow> keeps_from run I m"
  unfolding keeps_from_def keeps_def by blast

lemma seqA_cases:
  assumes "seqA m k w = (r, w')"
  obtains (thrown) e where "m w = (Inl e, w')" "r = Inl e" | (passed) x w1 where "m w = (Inr x, w1)" "k w1 = (r, w')"
  using assms by (auto simp: seqA_def andThen_def split: prod.splits sum.splits)

lemma keeps_from_seqA:
  assumes "keeps (\<lambda>w. w_run w = run) m" and "keeps I m" and "keeps_from run I k"
  shows "keeps_from run I (seqA m k)"
  unfolding keeps_from_def
proof (intro allI impI)
  fix w r w' assume "w_run w = run" "seqA m k w = (r, w')" "I w"
  then show "I w'" using assms unfolding keeps_from_def keeps_def by (elim seqA_cases) blast+
qed

lemma keeps_from_first:
  assumes "keeps_from run I m" and "keeps I k"
  shows "keeps_from run I (seqA m k)"
  unfolding keeps_from_def
proof (intro allI impI)
  fix w r w' assume "w_run w = run" "seqA m k w = (r, w')" "I w"
  then show "I w'" using assms unfolding keeps_from_def keeps_def by (elim seqA_cases) blast+
qed

lemma keeps_reading:
  assumes "\<And>w. keeps_from (w_run w) I (f w)"
  shows "keeps I (andThen getWorld f)"
  unfolding keeps_def
proof (intro allI impI)
  fix w r w' assume "andThen getWorld f w = (r, w')" "I w"
  then show "I w'" using assms [of w] unfolding keeps_from_def andThen_def getWorld_def by fastforce
qed

locale run_property =
  fixes graph :: GoalGraphDefinition and i :: TargetId and P :: "GoalRunLedger \<Rightarrow> bool"
  assumes by_commit: "attempt_plan graph i run plan \<Longrightarrow> apply_plan plan run = Inr run' \<Longrightarrow> P run \<Longrightarrow> P run'"
begin

abbreviation kept :: "'a act \<Rightarrow> bool" where
  "kept \<equiv> keeps (\<lambda>w. P (w_run w))"

lemma kept_commit: "(\<And>run. attempt_plan graph i run plan) \<Longrightarrow> kept (commitPlan plan)"
  by (rule keeps_commitPlan) (rule by_commit)

lemma kept_plans:
  "kept (commitPlan (verifying_plan now i a route x ok))" "kept (commitPlan (verified_plan now i a evs))"
  "kept (commitPlan (external_plan now i a evs rs))" "kept (commitPlan (approval_plan now i att k scope rs))"
  "kept (commitPlan (block_plan now i a reason evs e))" "kept (commitPlan (stop_plan now i a why))"
  "kept (commitPlan (failed_plan now i a msg gate))" "kept (commitPlan (retest_plan now i a h))"
  "kept (commitPlan (progress_plan now i a evs CONTROLLER_ACTOR reason))"
  by (rule kept_commit, rule attempt_plan.intros)+

lemma kept_endings:
  "kept (awaitApproval sv i kind scope rs)" "kept (blockTarget sv i reason evs e)" "kept (stopTarget sv i why)"
  "kept (commitProgress sv i evs CONTROLLER_ACTOR reason)"
  unfolding awaitApproval_def blockTarget_def stopTarget_def commitProgress_def
  by (intro act_rules kept_plans | simp add: act_rules kept_plans split: sum.splits bool.splits)+

text \<open>The repair is committed on the ledger that was read before \<open>after_failure\<close> was asked.\<close>

lemma kept_repair:
  assumes "after_failure (limitsOf graph) (entry_of run i now) e dec prior att = Inr h"
  shows "keeps_from run (\<lambda>w. P (w_run w)) (commitPlan (repairing_plan now i a action h))"
proof -
  have "keeps_from run (\<lambda>w. P (w_run w)) (applyPlan (repairing_plan now i a action h))"
    using by_commit [OF attempt_plan.repairing [OF assms]] by (auto simp: keeps_from_def applyPlan_def split: sum.splits)
  then show ?thesis unfolding commitPlan_def by (intro keeps_from_seqA act_rules)
qed

lemma kept_failAttempt: "kept (failAttempt sv graph i gate e)"
proof -
  have r: "keeps_from run (\<lambda>w. P (w_run w)) (seqA (enterPhase REPAIR_HYPOTHESIS) (seqA (commitPlan (repairing_plan now i a action h)) k))"
    if "after_failure (limitsOf graph) (entry_of run i now) e dec prior att = Inr h" and "kept k" for run now e dec prior att h a action and k :: "unit act"
    by (rule keeps_from_seqA, (rule act_rules)+, rule keeps_from_first, rule kept_repair [OF that(1)], rule that(2))
  show ?thesis unfolding failAttempt_def Let_def
  proof (rule keeps_andThen [OF keeps_getWorld], intro keeps_seqA kept_plans keeps_run_prims keeps_reading keeps_from_seqA)
    fix w0 w :: AttemptWorld
    let ?a = "w_attempt w" and ?run = "w_run w"
    let ?dec = "case sv_decide sv of Inr dc \<Rightarrow> dc | Inl x \<Rightarrow> recovery_unavailable x"
    let ?next = "\<lambda>h. if sv_autoAdvance sv then saveNext (next_attempt (sv_now sv) ?a h) else seqA (commitPlan (retest_plan (sv_now sv) i (at_id ?a) h)) (ret ())"
    have n: "kept (?next h)" for h by (auto intro!: act_rules kept_plans)
    show "keeps_from ?run (\<lambda>w. P (w_run w))
      (if dget (r_targets ?run) i = None \<and> rd_action ?dec \<noteq> Block then throw (Thrown (failure INTERNAL))
       else (case after_failure (limitsOf graph) (entry_of ?run i (sv_now sv)) e ?dec (prior_attempts sv w i) (recorded_attempt ?a e ?dec (sv_now sv)) of
            Inl (reason, code) \<Rightarrow> blockTarget sv i reason [] (err code reason False)
          | Inr h \<Rightarrow> seqA (enterPhase REPAIR_HYPOTHESIS) (seqA (commitPlan (repairing_plan (sv_now sv) i (at_id ?a) (rd_action ?dec) h)) (?next h))))"
      (is "keeps_from _ _ (if _ then _ else case ?out of Inl x \<Rightarrow> ?block x | Inr h \<Rightarrow> ?repair h)")
    proof (cases ?out)
      case (Inl x)
      then show ?thesis by (auto intro!: keeps_from_keeps act_rules kept_endings split: prod.splits)
    next
      case (Inr h)
      have "keeps_from ?run (\<lambda>w. P (w_run w)) (?repair h)" by (rule r [OF Inr n])
      with Inr show ?thesis by (simp add: keeps_from_keeps keeps_throw)
    qed
  qed
qed

lemma kept_permitted: "kept (permitted sv run i n dec denied code)"
  unfolding permitted_def by (cases "gov_effect dec") (auto intro!: act_rules kept_endings)

lemma kept_stages:
  "kept (plan_and_preflight sv target i n run)" "kept (route_stage sv graph i n run)" "kept (execute_stage sv graph i n route)"
  "kept (verify_stage sv i n)" "kept (accept_stage sv graph target i executor run evidence)"
proof -
  show "kept (plan_and_preflight sv target i n run)" unfolding plan_and_preflight_def by (intro act_rules kept_permitted)
  show "kept (route_stage sv graph i n run)" unfolding route_stage_def
    by (intro act_rules) (auto split: option.splits intro!: act_rules kept_failAttempt kept_endings kept_permitted)
  show "kept (execute_stage sv graph i n route)" unfolding execute_stage_def
    by (intro act_rules kept_plans) (auto split: sum.splits intro!: act_rules kept_failAttempt)
  show "kept (verify_stage sv i n)" unfolding verify_stage_def
    by (intro act_rules) (auto split: sum.splits intro!: act_rules)
  show "kept (accept_stage sv graph target i executor run evidence)" unfolding accept_stage_def act_on_def Let_def
    by (auto split: sum.splits GateOutcome.splits intro!: act_rules kept_plans kept_endings kept_failAttempt)
qed

lemma kept_handlers: "kept (on_abort sv i e)" "kept (on_crash sv i n e)"
  unfolding on_abort_def on_crash_def by (auto intro!: act_rules kept_endings)

lemma kept_launch: "kept (launch sv graph i n)"
proof -
  have "kept (attempt_body sv graph target i n)" for target unfolding attempt_body_def by (intro act_rules kept_stages)
  then have "kept (runAttempt sv graph i n)" unfolding runAttempt_def
    by (cases "targetOf graph i") (auto intro!: act_rules kept_handlers)
  then show ?thesis unfolding launch_def by (intro act_rules kept_handlers)
qed

end

subsection \<open>A completed target stays completed\<close>

lemma completed_not_left:
  assumes "status_of run i = Completed" and "apply_plan (transition_plan now i to reason actor x g only) run = Inr run'"
  shows "run' = run"
proof -
  have "change now run i to reason actor x \<noteq> Inr c" if "to \<noteq> Completed" for c
    using assms(1) that change_not_completed by (cases c) blast
  with assms show ?thesis
    by (auto simp: apply_plan_Inr transition_plan_def Let_def bindE_Inr split: if_splits option.splits)
qed

lemma completed_progress:
  "status_of run i = Completed \<Longrightarrow> apply_plan (progress_plan now i a evs actor reason) run = Inr run' \<Longrightarrow> run' = run"
  by (auto simp: apply_plan_Inr progress_plan_def Let_def bindE_Inr status_of_def split: if_splits option.splits)

lemma attempt_plan_completed:
  "attempt_plan graph i run plan \<Longrightarrow> apply_plan plan run = Inr run' \<Longrightarrow> status_of run i = Completed \<Longrightarrow> status_of run' i = Completed"
  by (cases rule: attempt_plan.cases) (auto simp: attempt_plan_defs dest: completed_not_left completed_progress)

interpretation completed: run_property graph i "\<lambda>run. status_of run i = Completed" for graph i
  by unfold_locales (rule attempt_plan_completed)

subsection \<open>Every commit of an attempt is a step of the controller\<close>

interpretation steps: run_property graph i "\<lambda>run. (ctl_step graph)\<^sup>*\<^sup>* (run0, active) (run, active)" for graph i run0 active
proof
  fix run plan run'
  assume "attempt_plan graph i run plan" "apply_plan plan run = Inr run'" "(ctl_step graph)\<^sup>*\<^sup>* (run0, active) (run, active)"
  then show "(ctl_step graph)\<^sup>*\<^sup>* (run0, active) (run', active)"
    by (blast intro: rtranclp.rtrancl_into_rtrancl ctl_step.commit attempt_plan_controller)
qed

text \<open>
  C19. The code of an attempt refines the controller's step relation: whatever the services answer or throw,
  whichever access to the ledger fails and however the attempt ends, what it has done to the run is a sequence
  of steps of the relation. So the limits of the run and the completion of its targets, proved of those
  steps, hold of the attempt's code; the repair budget in particular is enforced by \<open>failAttempt\<close>.
\<close>
theorem attempt_refines_ctl_step:
  assumes "launch sv graph i n w = (r, w')"
  shows "(ctl_step graph)\<^sup>*\<^sup>* (w_run w, active) (w_run w', active)"
  using assms steps.kept_launch [where graph = graph and i = i and active = active and ?run0.0 = "w_run w"] unfolding keeps_def by blast

theorem attempt_refines_ctl_step_witness:
  "\<exists>w'. launch sample_services (gr_definition sample_graph) ''A'' 1 sample_world = (Inr (), w') \<and> status_of (w_run w') ''A'' = Completed \<and>
     status_of sample_active ''A'' = Active \<and> (ctl_step (gr_definition sample_graph))\<^sup>*\<^sup>* (sample_active, [''A'']) (w_run w', [''A''])"
proof -
  let ?g = "gr_definition sample_graph"
  have c: "fst (launch sample_services ?g ''A'' 1 sample_world) = Inr ()" "status_of (w_run (snd (launch sample_services ?g ''A'' 1 sample_world))) ''A'' = Completed"
    "status_of sample_active ''A'' = Active" by code_simp+
  obtain w' where l: "launch sample_services ?g ''A'' 1 sample_world = (Inr (), w')" using c(1) by (metis prod.collapse)
  from attempt_refines_ctl_step [OF l, of "[''A'']"] l c(2,3) show ?thesis by (auto simp: sample_world_def)
qed

end
