(* ===== verification/Settling.thy ===== *)
theory Settling
  imports Attempt_Steps
begin

text \<open>
  How an attempt leaves its target. An attempt that is not cut off by a shutdown or a lost lease returns only
  after its target has left the statuses of work in progress: every ending moves it on, and what is thrown
  on the way is turned into a block by \<open>launch\<close>. The exception is a failure of the last access to the
  ledger, in the commit that would have moved the target on: the code drops it. As in \<open>Attempt\<close>, nobody else
  commits to the run meanwhile.
\<close>

subsection \<open>Every ending moves the target on\<close>

definition unsettled :: "TargetStatus list" where
  "unsettled = [Active, Verifying, Verified, Failed]"

definition settled :: "TargetId \<Rightarrow> AttemptWorld \<Rightarrow> bool" where
  "settled i w \<longleftrightarrow> status_of (w_run w) i \<notin> set unsettled"

lemma keeps_settled_prims [act_rules]:
  "keeps (settled i) access" "keeps (settled i) (setAttempt f)" "keeps (settled i) saveCurrent" "keeps (settled i) (saveNext a)"
  "keeps (settled i) (enterPhase p)" "keeps (settled i) (logCall c)"
  unfolding settled_def by (rule act_rules)+

lemma gives_transition:
  assumes "to \<notin> set unsettled" and "keeps_status x" and "\<And>l. r_targets (g l) = r_targets l"
  shows "gives (commitPlan (transition_plan now i to reason actor x g None)) (\<lambda>_. settled i)"
  unfolding settled_def
proof (rule gives_commitPlan)
  fix run run' assume "apply_plan (transition_plan now i to reason actor x g None) run = Inr run'"
  from apply_transition_status [OF this assms(2,3)] assms(1) show "status_of run' i \<notin> set unsettled" by auto
qed

lemma gives_plans:
  "gives (commitPlan (approval_plan now i att k scope rs)) (\<lambda>_. settled i)"
  "gives (commitPlan (block_plan now i a reason evs e)) (\<lambda>_. settled i)"
  "gives (commitPlan (stop_plan now i a why)) (\<lambda>_. settled i)"
  "gives (commitPlan (repairing_plan now i a action h)) (\<lambda>_. settled i)"
  "gives (commitPlan (retest_plan now i a h)) (\<lambda>_. settled i)"
  "gives (commitPlan (external_plan now i a evs rs)) (\<lambda>_. settled i)"
  unfolding attempt_plan_defs by (rule gives_transition; simp add: keeps_status_def unsettled_def)+

lemma gives_progress: "gives (commitPlan (progress_plan now i a evs actor reason)) (\<lambda>_. settled i)"
  unfolding settled_def
proof (rule gives_commitPlan)
  fix run run' assume "apply_plan (progress_plan now i a evs actor reason) run = Inr run'"
  then have "status_of run' i = Completed"
    by (auto simp: apply_plan_Inr progress_plan_def Let_def bindE_Inr change_Inr status_of_def apply_change_def split: if_splits option.splits)
  then show "status_of run' i \<notin> set unsettled" by (simp add: unsettled_def)
qed

lemma keeps_settled_transition:
  "to \<notin> set unsettled \<Longrightarrow> keeps_status x \<Longrightarrow> (\<And>l. r_targets (g l) = r_targets l) \<Longrightarrow>
     keeps (settled i) (commitPlan (transition_plan now j to reason actor x g onlyFrom))"
  unfolding settled_def by (rule keeps_commitPlan) (metis apply_transition_status)

lemma gives_endings:
  "gives (awaitApproval sv i kind scope rs) (\<lambda>_. settled i)"
  "gives (blockTarget sv i reason evs e) (\<lambda>_. settled i)"
  "gives (stopTarget sv i why) (\<lambda>_. settled i)"
  unfolding awaitApproval_def blockTarget_def stopTarget_def
  by (intro gives_seqA gives_andThen gives_then gives_plans act_rules)+

lemma gives_throw: "gives (throw e) Q"
  by (simp add: gives_def throw_def)

lemma gives_commitProgress:
  "sv_progress sv \<noteq> Inr True \<Longrightarrow> gives (commitProgress sv i evs actor reason) (\<lambda>_. settled i)"
  unfolding commitProgress_def
  by (rule gives_seqA, rule gives_andThen, rule gives_then)
    (auto split: sum.splits bool.splits intro!: gives_progress gives_throw act_rules)

lemma gives_failAttempt: "gives (failAttempt sv graph i gate e) (\<lambda>_. settled i)"
proof -
  have r: "gives (seqA (commitPlan (retest_plan now i a h)) (ret ())) (\<lambda>_. settled i)" for now a h
    by (intro gives_then gives_plans act_rules)
  have n: "gives (seqA (commitPlan (repairing_plan now i a action h)) (saveNext b)) (\<lambda>_. settled i)" for now a action h b
    by (intro gives_then gives_plans act_rules)
  show ?thesis unfolding failAttempt_def Let_def
    by (intro gives_seqA gives_andThen)
      (auto split: sum.splits intro!: gives_throw gives_endings gives_seqA [OF gives_seqA [OF r]] gives_seqA [OF n])
qed


text \<open>A stage that ends the attempt has settled the target.\<close>

definition rests :: "TargetId \<Rightarrow> 'a option act \<Rightarrow> bool" where
  "rests i m \<longleftrightarrow> gives m (\<lambda>r w. r = None \<longrightarrow> settled i w)"

lemma rests_rules:
  "rests i (ret (Some x))" "rests i (throw e)" "gives u (\<lambda>_. settled i) \<Longrightarrow> rests i (ending u)"
  "(\<And>y. rests i (f y)) \<Longrightarrow> rests i (andThen m f)" "rests i k \<Longrightarrow> rests i (seqA l k)"
  by (auto simp: rests_def gives_def ret_def throw_def ending_def seqA_def andThen_def split: prod.splits sum.splits)

lemma rests_stage: "rests i m \<Longrightarrow> (\<And>x. rests i (f x)) \<Longrightarrow> rests i (stage m f)"
  unfolding rests_def gives_def stage_def andThen_def by (force simp: ret_def split: prod.splits sum.splits option.splits)

lemma rests_permitted: "rests i (permitted sv run i n dec denied code)"
  unfolding permitted_def by (cases "gov_effect dec") (auto intro!: rests_rules gives_endings)

lemma rests_stages:
  "rests i (plan_and_preflight sv target i n run)" "rests i (route_stage sv graph i n run)"
  "rests i (execute_stage sv graph i n route)" "rests i (verify_stage sv i n)"
proof -
  show "rests i (plan_and_preflight sv target i n run)" unfolding plan_and_preflight_def by (intro rests_rules rests_permitted)
  show "rests i (route_stage sv graph i n run)" unfolding route_stage_def
    by (intro rests_rules) (auto split: option.splits intro!: rests_rules rests_stage rests_permitted gives_failAttempt gives_endings)
  show "rests i (execute_stage sv graph i n route)" unfolding execute_stage_def
    by (intro rests_rules) (auto intro!: rests_rules gives_failAttempt)
  show "rests i (verify_stage sv i n)" unfolding verify_stage_def
    by (intro rests_rules) (auto split: sum.splits intro!: rests_rules)
qed

lemma gives_act_on: "sv_progress sv \<noteq> Inr True \<Longrightarrow> gives (act_on sv graph i ids gate enforced) (\<lambda>_. settled i)"
  unfolding act_on_def Let_def
  by (cases "fst enforced")
    (auto intro!: gives_commitProgress gives_endings gives_failAttempt gives_andThen gives_seqA [OF gives_endings(1)] gives_then gives_plans act_rules)

lemma gives_accept: "sv_progress sv \<noteq> Inr True \<Longrightarrow> gives (accept_stage sv graph target i executor run evidence) (\<lambda>_. settled i)"
  unfolding accept_stage_def by (auto split: sum.splits intro!: gives_throw gives_seqA gives_act_on)

lemma rests_body: "sv_progress sv \<noteq> Inr True \<Longrightarrow> rests i (attempt_body sv graph target i n)"
  unfolding attempt_body_def by (intro rests_rules rests_stage rests_stages gives_accept)


lemma body_hands_nothing: "hands (attempt_body sv graph target i n) (\<lambda>_. False)"
  unfolding attempt_body_def by (intro hands_seqA hands_andThen hands_stage hands_ending)

subsection \<open>What an attempt throws\<close>

text \<open>\<open>handled\<close>: \<open>runAttempt\<close> or \<open>launch\<close> reacts to the exception, it does not cut the attempt off.\<close>

definition handled :: "ctl_error \<Rightarrow> bool" where
  "handled e \<longleftrightarrow> e \<in> {AttemptAborted AbortStop, AttemptAborted AbortDeadline} \<or> \<not> lost_or_shutdown e"

text \<open>
  \<open>steady\<close>: no shutdown and no lost lease. The attempt is only ever told to stop or that its deadline has
  passed, and no service throws one of the exceptions that \<open>launch\<close> ignores.
\<close>

definition service_error :: "Services \<Rightarrow> ctl_error \<Rightarrow> bool" where
  "service_error sv e \<longleftrightarrow> sv_prompt sv = Inl e \<or> (\<exists>run target. sv_preflight sv run target = Inl e) \<or> (\<exists>budget. sv_route sv budget = Inl e) \<or>
     sv_verify sv = Inl e \<or> (\<exists>run evidence. sv_gate sv run evidence = Inl e) \<or> sv_progress sv = Inl e"

definition steady :: "Services \<Rightarrow> bool" where
  "steady sv \<longleftrightarrow> (\<forall>k. sv_aborts sv k \<in> {None, Some AbortStop, Some AbortDeadline}) \<and> \<not> sv_gone sv \<and>
     (\<forall>e. service_error sv e \<longrightarrow> handled e)"

lemma steadyD:
  assumes "steady sv"
  shows "sv_aborts sv k = Some why \<Longrightarrow> handled (AttemptAborted why)" "service_error sv e \<Longrightarrow> handled e" "\<not> sv_gone sv"
proof -
  assume "sv_aborts sv k = Some why"
  moreover have "sv_aborts sv k \<in> {None, Some AbortStop, Some AbortDeadline}" using assms by (simp add: steady_def)
  ultimately show "handled (AttemptAborted why)" by (auto simp: handled_def)
qed (use assms in \<open>auto simp: steady_def\<close>)

lemma handled_thrown: "handled (Thrown g) \<longleftrightarrow> e_code g \<noteq> STALE_LEASE"
  by (simp add: handled_def lost_or_shutdown_def)

lemma raises_access [act_rules]: "raises E access"
  by (auto simp: raises_def access_def split: option.splits)

lemma raises_saves [act_rules]: "raises handled (saveNext a)" "raises handled saveCurrent" "raises handled (enterPhase p)"
proof -
  have "saveAttempt b s = (Inl e, s') \<Longrightarrow> e_code e \<noteq> STALE_LEASE" for b s e s'
    by (auto simp: saveAttempt_def atomicUpdate_def save_attempt_update_def split: if_splits option.splits sum.splits prod.splits)
  then have "raises handled (storeAttempt b)" for b
    by (auto simp: raises_def storeAttempt_def handled_thrown split: prod.splits sum.splits)
  then show n: "raises handled (saveNext b)" for b unfolding saveNext_def by (intro raises_seqA raises_access)
  then show v: "raises handled saveCurrent" by (simp add: raises_def saveCurrent_def)
  show "raises handled (enterPhase p)" unfolding enterPhase_def by (intro raises_seqA raises_setAttempt v)
qed

lemma raises_commitPlan:
  assumes "\<And>run e. plan run = Inl e \<Longrightarrow> e_code e \<noteq> STALE_LEASE"
  shows "raises handled (commitPlan plan)"
  unfolding commitPlan_def
proof (intro raises_seqA raises_access)
  show "raises handled (applyPlan plan)"
    using assms by (auto simp: raises_def applyPlan_def apply_plan_def bindE_def handled_thrown split: sum.splits option.splits prod.splits)
qed

lemma raises_answer: "(\<And>e. r = Inl e \<Longrightarrow> handled e) \<Longrightarrow> raises handled (answer r)"
  by (cases r) (simp_all add: answer_def raises_throw raises_ret)

lemma change_Inl: "change now run i to reason actor x = Inl e \<Longrightarrow> e_code e = VALIDATION"
  by (auto simp: change_def Let_def assertTargetTransition_def guardE_def bindE_def split: if_splits sum.splits)

lemma raises_plans [act_rules]:
  "raises handled (commitPlan (transition_plan now i to reason actor x g onlyFrom))"
  "raises handled (commitPlan (progress_plan now i a evs actor reason'))"
  by (rule raises_commitPlan; auto simp: transition_plan_def progress_plan_def Let_def bindE_def dest!: change_Inl split: if_splits sum.splits prod.splits)+

lemma raises_endings [act_rules]:
  "raises handled (awaitApproval sv i kind scope rs)" "raises handled (blockTarget sv i reason evs e)" "raises handled (stopTarget sv i why)"
  unfolding awaitApproval_def blockTarget_def stopTarget_def attempt_plan_defs by (intro act_rules)+

lemma raises_commitProgress: "steady sv \<Longrightarrow> raises handled (commitProgress sv i evs actor reason)"
  unfolding commitProgress_def by (auto simp: raises_throw steadyD(2) service_error_def split: sum.splits bool.splits intro!: act_rules)

lemma raises_failAttempt [act_rules]: "raises handled (failAttempt sv graph i gate e)"
  unfolding failAttempt_def Let_def attempt_plan_defs
  by (intro act_rules) (auto simp: raises_throw handled_thrown split: sum.splits intro!: act_rules)

lemma raises_checkAbort: "steady sv \<Longrightarrow> raises handled (checkAbort sv k)"
  unfolding checkAbort_def by (auto simp: raises_throw steadyD(1) split: option.splits intro!: act_rules)

lemma raises_permitted [act_rules]: "raises handled (permitted sv run i n dec denied code)"
  unfolding permitted_def has_approval_def
  by (cases "gov_effect dec") (auto simp: raises_throw handled_thrown split: option.splits intro!: act_rules)

lemma raises_stages:
  assumes "steady sv"
  shows "raises handled (plan_and_preflight sv target i n run)" "raises handled (route_stage sv graph i n run)"
    "raises handled (execute_stage sv graph i n route)" "raises handled (verify_stage sv i n)"
    "raises handled (accept_stage sv graph target i executor run evidence)"
proof -
  note c = raises_checkAbort [OF assms]
  note e = steadyD(2) [OF assms, unfolded service_error_def]
  have a: "raises handled (answer (sv_prompt sv))" "raises handled (answer (sv_preflight sv run target))"
    "raises handled (answer (sv_route sv (remaining_budget graph run)))" by (rule raises_answer, use e in blast)+
  show "raises handled (plan_and_preflight sv target i n run)" unfolding plan_and_preflight_def by (intro act_rules c a)
  show "raises handled (route_stage sv graph i n run)" unfolding route_stage_def
    by (intro act_rules c a) (auto split: option.splits intro!: act_rules)
  show "raises handled (execute_stage sv graph i n route)" unfolding execute_stage_def attempt_plan_defs
    by (intro act_rules c) (auto split: sum.splits intro!: act_rules c)
  show "raises handled (verify_stage sv i n)" unfolding verify_stage_def
    using e by (auto simp: raises_throw split: sum.splits intro!: act_rules c)
  show "raises handled (accept_stage sv graph target i executor run evidence)" unfolding accept_stage_def act_on_def Let_def attempt_plan_defs
    using raises_commitProgress [OF assms] by (auto split: sum.splits GateOutcome.splits intro!: act_rules c raises_throw intro: e)
qed

lemma raises_body: "steady sv \<Longrightarrow> raises handled (attempt_body sv graph target i n)"
  unfolding attempt_body_def by (intro act_rules raises_stages)


subsection \<open>The attempt store\<close>

text \<open>
  Attempts are stored under their run and id, and an id names run, target and number. An attempt that is
  loaded can then be saved again as long as its outcome is kept.
\<close>

definition well_named :: "TargetAttempt \<Rightarrow> bool" where
  "well_named a \<longleftrightarrow> at_id a = attemptIdFor (at_runId a) (at_targetId a) (at_attempt a)"

definition attempts_ok :: "Store \<Rightarrow> bool" where
  "attempts_ok s \<longleftrightarrow> distinct (dkeys (s_attempts s)) \<and> (\<forall>(k, a) \<in> set (s_attempts s). k = (at_runId a, at_id a) \<and> well_named a)"

lemma attemptIdFor_inject: "attemptIdFor r i n = attemptIdFor r j m \<longleftrightarrow> i = j \<and> n = m"
proof
  assume "attemptIdFor r i n = attemptIdFor r j m"
  then have e: "i @ CHR '':'' # show_nat n = j @ CHR '':'' # show_nat m" by (simp add: attemptIdFor_def)
  then show "i = j \<and> n = m" using colon_sep_inject [OF e] by simp
qed simp

lemma saveAttempt_ok:
  assumes ok: "attempts_ok s" and a: "well_named a" and s: "saveAttempt a s = (r, s')"
  shows "attempts_ok s'"
proof -
  from s have "s' = s \<or> s' = s\<lparr>s_attempts := dput (at_runId a, at_id a) a (s_attempts s)\<rparr>"
    by (auto simp: saveAttempt_def atomicUpdate_def save_attempt_update_def split: if_splits option.splits)
  moreover have "attempts_ok (s\<lparr>s_attempts := dput (at_runId a, at_id a) a (s_attempts s)\<rparr>)"
    using ok a unfolding attempts_ok_def by (auto dest!: dput_set simp: distinct_update)
  ultimately show ?thesis using ok by auto
qed

lemma loadAttempt_cases:
  fixes sv r i n
  assumes ok: "attempts_ok s"
  defines "a \<equiv> loadAttempt sv s r i n"
  shows "well_named a" "at_id a = attemptIdFor r i n" "at_runId a = r" "at_targetId a = i" "at_attempt a = n"
    "dget (s_attempts s) (r, attemptIdFor r i n) \<in> {None, Some a}"
proof -
  let ?id = "attemptIdFor r i n"
  have el: "b \<in> set (attempts lc s r (Some i)) \<longleftrightarrow> ((r, at_id b), b) \<in> set (s_attempts s) \<and> at_targetId b = i" for b lc
  proof -
    have "b \<in> set (attempts lc s r (Some i)) \<longleftrightarrow> (\<exists>k. ((r, k), b) \<in> set (s_attempts s)) \<and> at_targetId b = i"
      by (force simp: attempts_def)
    moreover have "((r, k), b) \<in> set (s_attempts s) \<Longrightarrow> k = at_id b" for k using ok unfolding attempts_ok_def by fastforce
    ultimately show ?thesis by blast
  qed
  have all: "well_named a \<and> at_id a = ?id \<and> at_runId a = r \<and> at_targetId a = i \<and> at_attempt a = n \<and> dget (s_attempts s) (r, ?id) \<in> {None, Some a}"
  proof (cases "find (\<lambda>b. at_id b = ?id) (attempts (sv_localeCompare sv) s r (Some i))")
    case (Some b)
    then have b: "b \<in> set (attempts (sv_localeCompare sv) s r (Some i))" "at_id b = ?id" by (auto simp: find_Some_iff)
    with el have m: "((r, ?id), b) \<in> set (s_attempts s)" "at_targetId b = i" by metis+
    with ok have "dget (s_attempts s) (r, ?id) = Some b" "well_named b" "at_runId b = r" by (auto simp: attempts_ok_def)
    with b m Some show ?thesis by (auto simp: a_def loadAttempt_def well_named_def attemptIdFor_inject)
  next
    case None
    then have no: "b \<notin> set (attempts (sv_localeCompare sv) s r (Some i))" if "at_id b = ?id" for b using that by (auto simp: find_None_iff)
    have "dget (s_attempts s) (r, ?id) = None"
    proof (rule ccontr)
      assume "dget (s_attempts s) (r, ?id) \<noteq> None"
      then obtain b where m: "((r, ?id), b) \<in> set (s_attempts s)" using map_of_SomeD by fastforce
      with ok have "at_id b = ?id" "at_runId b = r" "well_named b" by (auto simp: attempts_ok_def)
      with no el m show False by (auto simp: well_named_def attemptIdFor_inject)
    qed
    with None show ?thesis by (simp add: a_def loadAttempt_def well_named_def)
  qed
  then show "well_named a" "at_id a = ?id" "at_runId a = r" "at_targetId a = i" "at_attempt a = n" "dget (s_attempts s) (r, ?id) \<in> {None, Some a}"
    by simp_all
qed

text \<open>A loaded attempt can be saved in any phase.\<close>

lemma loaded_can_be_saved:
  assumes "attempts_ok s" and "r \<noteq> []" and "i \<noteq> []" and "0 < n"
  shows "\<exists>s'. saveAttempt ((loadAttempt sv s r i n)\<lparr>at_phase := p\<rparr>) s = (Inr (), s')"
proof -
  note l = loadAttempt_cases [OF assms(1), where sv = sv and r = r and i = i and n = n]
  have "attemptIdFor r i n \<noteq> []" by (simp add: attemptIdFor_def)
  moreover have "\<exists>v. save_attempt_update ((loadAttempt sv s r i n)\<lparr>at_phase := p\<rparr>) (dget (s_attempts s) (r, attemptIdFor r i n)) = Inr v"
    using l(6) by (auto simp: save_attempt_update_def)
  ultimately show ?thesis using assms(2-4) l by (auto simp: saveAttempt_def atomicUpdate_def)
qed


definition attempt_inv :: "GoalRunId \<Rightarrow> AttemptWorld \<Rightarrow> bool" where
  "attempt_inv r w \<longleftrightarrow> r_runId (w_run w) = r \<and> attempts_ok (w_store w) \<and> well_named (w_attempt w)"

definition same_name :: "(TargetAttempt \<Rightarrow> TargetAttempt) \<Rightarrow> bool" where
  "same_name f \<longleftrightarrow> (\<forall>a. at_id (f a) = at_id a \<and> at_runId (f a) = at_runId a \<and> at_targetId (f a) = at_targetId a \<and> at_attempt (f a) = at_attempt a)"

lemma inv_setAttempt: "same_name f \<Longrightarrow> keeps (attempt_inv r) (setAttempt f)"
  by (simp add: keeps_def setAttempt_def attempt_inv_def well_named_def same_name_def)

lemma inv_access [act_rules]: "keeps (attempt_inv r) access"
  by (auto simp: keeps_def access_def attempt_inv_def split: option.splits)

lemma inv_storeAttempt: "well_named a \<Longrightarrow> keeps (attempt_inv r) (storeAttempt a)"
  by (auto simp: keeps_def storeAttempt_def attempt_inv_def dest: saveAttempt_ok split: prod.splits sum.splits)

lemma inv_saveNext: "well_named a \<Longrightarrow> keeps (attempt_inv r) (saveNext a)"
  unfolding saveNext_def by (intro keeps_seqA inv_access inv_storeAttempt)

lemma inv_prims [act_rules]:
  "keeps (attempt_inv r) saveCurrent" "keeps (attempt_inv r) (enterPhase p)" "keeps (attempt_inv r) (logCall c)"
proof -
  show v: "keeps (attempt_inv r) saveCurrent" unfolding keeps_def saveCurrent_def
    using inv_saveNext unfolding keeps_def attempt_inv_def by blast
  show "keeps (attempt_inv r) (enterPhase p)" unfolding enterPhase_def by (intro keeps_seqA inv_setAttempt v) (simp add: same_name_def)
  show "keeps (attempt_inv r) (logCall c)" by (simp add: keeps_def logCall_def attempt_inv_def)
qed

lemma inv_commitPlan:
  "(\<And>run ts f. plan run = Inr (Some (ts, f)) \<Longrightarrow> r_runId (f run) = r_runId run) \<Longrightarrow> keeps (attempt_inv r) (commitPlan plan)"
  unfolding commitPlan_def
  by (intro keeps_seqA inv_access) (auto simp: keeps_def applyPlan_def attempt_inv_def apply_plan_Inr split: sum.splits)

lemma inv_plans [act_rules]:
  "(\<And>l. r_runId (g l) = r_runId l) \<Longrightarrow> keeps (attempt_inv r) (commitPlan (transition_plan now i to reason actor x g onlyFrom))"
  "keeps (attempt_inv r) (commitPlan (progress_plan now i a evs actor reason'))"
  by (rule inv_commitPlan; auto simp: transition_plan_def progress_plan_def Let_def bindE_Inr change_Inr apply_change_def split: if_splits)+

lemma inv_endings [act_rules]:
  "keeps (attempt_inv r) (awaitApproval sv i kind scope rs)" "keeps (attempt_inv r) (blockTarget sv i reason evs e)"
  "keeps (attempt_inv r) (stopTarget sv i why)" "keeps (attempt_inv r) (commitProgress sv i evs actor reason)"
  unfolding awaitApproval_def blockTarget_def stopTarget_def commitProgress_def attempt_plan_defs
  by (intro act_rules inv_setAttempt | simp add: same_name_def act_rules split: sum.splits bool.splits)+

lemma inv_failAttempt [act_rules]: "keeps (attempt_inv r) (failAttempt sv graph i gate e)"
proof -
  have "same_name (\<lambda>a. recorded_attempt a e dec now)" for dec now by (simp add: same_name_def recorded_attempt_def Let_def)
  moreover have "well_named (next_attempt now a h)" for now a h by (simp add: next_attempt_def well_named_def)
  ultimately show ?thesis unfolding failAttempt_def Let_def attempt_plan_defs
    by (intro act_rules inv_setAttempt) (auto simp: same_name_def split: sum.splits intro!: act_rules inv_setAttempt inv_saveNext)
qed

lemma inv_permitted [act_rules]: "keeps (attempt_inv r) (permitted sv run i n dec denied code)"
  unfolding permitted_def by (cases "gov_effect dec") (auto intro!: act_rules)

lemma inv_stages [act_rules]:
  "keeps (attempt_inv r) (plan_and_preflight sv target i n run)" "keeps (attempt_inv r) (route_stage sv graph i n run)"
  "keeps (attempt_inv r) (execute_stage sv graph i n route)" "keeps (attempt_inv r) (verify_stage sv i n)"
  "keeps (attempt_inv r) (accept_stage sv graph target i executor run evidence)"
proof -
  show "keeps (attempt_inv r) (plan_and_preflight sv target i n run)" unfolding plan_and_preflight_def
    by (intro act_rules inv_setAttempt) (simp add: same_name_def split: option.splits)
  show "keeps (attempt_inv r) (route_stage sv graph i n run)" unfolding route_stage_def
    by (intro act_rules) (auto simp: same_name_def split: option.splits intro!: act_rules inv_setAttempt)
  show "keeps (attempt_inv r) (execute_stage sv graph i n route)" unfolding execute_stage_def attempt_plan_defs
    by (intro act_rules inv_setAttempt) (auto simp: same_name_def split: sum.splits intro!: act_rules)
  show "keeps (attempt_inv r) (verify_stage sv i n)" unfolding verify_stage_def
    by (intro act_rules) (auto split: sum.splits intro!: act_rules)
  show "keeps (attempt_inv r) (accept_stage sv graph target i executor run evidence)" unfolding accept_stage_def act_on_def Let_def attempt_plan_defs
    by (auto simp: same_name_def split: sum.splits GateOutcome.splits intro!: act_rules inv_setAttempt)
qed

lemma inv_body: "keeps (attempt_inv r) (attempt_body sv graph target i n)"
  unfolding attempt_body_def by (intro act_rules)


subsection \<open>The attempt as a whole\<close>

text \<open>Every status of work in progress may be left for \<open>Stopped\<close> and for \<open>Blocked\<close>.\<close>

lemma leaving_succeeds:
  assumes "status_of run i \<in> set unsettled" and "to = Stopped \<or> to = Blocked" and "keeps_status x"
  obtains run' where "apply_plan (transition_plan now i to reason CONTROLLER_ACTOR x id None) run = Inr run'" "status_of run' i = to"
proof -
  from assms(1,2) have "\<exists>c. change now run i to reason CONTROLLER_ACTOR x = Inr c"
    by (auto simp: change_def Let_def transition_simps unsettled_def)
  moreover have "status_of run i \<noteq> to" using assms(1,2) by (auto simp: unsettled_def)
  ultimately obtain run' where r: "apply_plan (transition_plan now i to reason CONTROLLER_ACTOR x id None) run = Inr run'"
    by (auto simp: apply_plan_def transition_plan_def Let_def split: prod.splits)
  from apply_transition_status [OF r assms(3)] \<open>status_of run i \<noteq> to\<close> have "status_of run' i = to" by auto
  with r show thesis by (rule that)
qed

text \<open>\<open>lands i m w\<close>: run in \<open>w\<close>, \<open>m\<close> leaves the target settled, or its last access to the ledger has failed.\<close>

definition lands :: "TargetId \<Rightarrow> 'a act \<Rightarrow> AttemptWorld \<Rightarrow> bool" where
  "lands i m w \<longleftrightarrow> (\<forall>r w'. m w = (r, w') \<longrightarrow> settled i w' \<or> w_failed w')"

lemma lands_kept: "keeps (settled i) m \<Longrightarrow> settled i w \<Longrightarrow> lands i m w"
  by (auto simp: lands_def keeps_def)

lemma lands_access: "(\<And>c. lands i k (w\<lparr>w_io := c, w_failed := False\<rparr>)) \<Longrightarrow> lands i (seqA access k) w"
  by (auto simp: lands_def elim!: access_first)

lemma seqA_assoc: "seqA (seqA l m) k = seqA l (seqA m k)"
  by (simp add: seqA_def andThen_def fun_eq_iff split: prod.splits sum.splits)

lemma lands_commit:
  assumes "apply_plan plan (w_run w) = Inr run" and "\<And>c. lands i k (w\<lparr>w_io := c, w_failed := False, w_run := run\<rparr>)"
  shows "lands i (seqA (commitPlan plan) k) w"
  unfolding commitPlan_def seqA_assoc
proof (rule lands_access)
  fix c
  from assms show "lands i (seqA (applyPlan plan) k) (w\<lparr>w_io := c, w_failed := False\<rparr>)"
    by (simp add: lands_def seqA_def andThen_def applyPlan_def)
qed

lemma lands_phase:
  assumes "saveAttempt ((w_attempt w)\<lparr>at_phase := p\<rparr>) (w_store w) = (Inr (), s)"
    and "\<And>c. lands i k (w\<lparr>w_attempt := (w_attempt w)\<lparr>at_phase := p\<rparr>, w_io := c, w_failed := False, w_store := s\<rparr>)"
  shows "lands i (seqA (enterPhase p) k) w"
proof -
  let ?a = "(w_attempt w)\<lparr>at_phase := p\<rparr>"
  have "lands i (seqA access (seqA (storeAttempt ?a) k)) (w\<lparr>w_attempt := ?a\<rparr>)"
  proof (rule lands_access)
    fix c
    from assms show "lands i (seqA (storeAttempt ?a) k) (w\<lparr>w_attempt := ?a, w_io := c, w_failed := False\<rparr>)"
      by (simp add: lands_def seqA_def andThen_def storeAttempt_def)
  qed
  moreover have "seqA (enterPhase p) k w = seqA access (seqA (storeAttempt ?a) k) (w\<lparr>w_attempt := ?a\<rparr>)"
    by (simp add: enterPhase_def seqA_def andThen_def setAttempt_def saveCurrent_def saveNext_def split: prod.splits sum.splits)
  ultimately show ?thesis by (simp add: lands_def)
qed

lemma lands_getWorld: "lands i (f w) w \<Longrightarrow> lands i (andThen getWorld f) w"
  by (simp add: lands_def andThen_def getWorld_def)

lemma lands_setAttempt: "lands i k (w\<lparr>w_attempt := f (w_attempt w)\<rparr>) \<Longrightarrow> lands i (seqA (setAttempt f) k) w"
  by (simp add: lands_def seqA_def andThen_def setAttempt_def)

lemma lands_caught: "lands i m w \<Longrightarrow> lands i (catchA m (\<lambda>_. ret ())) w"
  by (auto simp: lands_def catchA_def ret_def split: prod.splits sum.splits)

lemma stopTarget_lands: "lands i (stopTarget sv i why) w"
proof (cases "settled i w")
  case True
  have "keeps (settled i) (stopTarget sv i why)" unfolding stopTarget_def stop_plan_def
    by (intro act_rules keeps_settled_transition) (simp_all add: unsettled_def keeps_status_def no_extra_def)
  with True show ?thesis by (rule lands_kept [rotated])
next
  case False
  let ?p = "stop_plan (sv_now sv) i (at_id (w_attempt w)) why"
  from False obtain run' where p: "apply_plan ?p (w_run w) = Inr run'" "status_of run' i = Stopped"
    unfolding settled_def stop_plan_def by (auto elim!: leaving_succeeds [where to = Stopped] simp: keeps_status_def no_extra_def)
  show ?thesis unfolding stopTarget_def
    by (rule lands_getWorld, rule lands_commit [OF p(1)], rule lands_kept)
      (use p(2) in \<open>auto simp: settled_def unsettled_def intro!: act_rules\<close>)
qed

lemma block_lands:
  assumes ok: "attempts_ok (w_store w)" "r_runId (w_run w) \<noteq> []" "i \<noteq> []" "0 < n"
    and a: "w_attempt w = loadAttempt sv (w_store w) (r_runId (w_run w)) i n"
  shows "lands i (blockTarget sv i reason evs e) w"
proof (cases "settled i w")
  case True
  have "keeps (settled i) (blockTarget sv i reason evs e)" unfolding blockTarget_def block_plan_def
    by (intro act_rules keeps_settled_transition) (simp_all add: unsettled_def keeps_status_def)
  with True show ?thesis by (rule lands_kept [rotated])
next
  case False
  from loaded_can_be_saved [OF ok] a obtain s where s: "saveAttempt ((w_attempt w)\<lparr>at_phase := BLOCK_TARGET\<rparr>) (w_store w) = (Inr (), s)" by metis
  let ?p = "block_plan (sv_now sv) i (at_id (w_attempt w)) reason evs e"
  from False obtain run' where p: "apply_plan ?p (w_run w) = Inr run'" "status_of run' i = Blocked"
    unfolding settled_def block_plan_def by (auto elim!: leaving_succeeds [where to = Blocked] simp: keeps_status_def)
  show ?thesis unfolding blockTarget_def
    by (rule lands_phase [OF s], rule lands_getWorld, rule lands_commit, simp add: p(1), rule lands_kept)
      (use p(2) in \<open>auto simp: settled_def unsettled_def intro!: act_rules\<close>)
qed

lemma on_crash_lands:
  assumes ok: "attempts_ok (w_store w)" "r_runId (w_run w) \<noteq> []" "i \<noteq> []" "0 < n" and "\<not> lost_or_shutdown e" "\<not> sv_gone sv"
  shows "lands i (on_crash sv i n e) w"
proof -
  let ?m = "blockTarget sv i (''controller error: '' @ e_message (toError INTERNAL e)) [] (toError INTERNAL e)"
  have "lands i (catchA (seqA access (andThen getWorld (\<lambda>w. seqA (setAttempt (\<lambda>_. loadAttempt sv (w_store w) (r_runId (w_run w)) i n)) ?m))) (\<lambda>_. ret ())) w"
    by (intro lands_caught lands_access lands_getWorld lands_setAttempt block_lands [where n = n]) (use ok in simp_all)
  with assms(5,6) show ?thesis by (simp add: on_crash_def)
qed

lemma runAttempt_settles:
  assumes t: "targetOf graph i = Inr target" and st: "steady sv" and p: "sv_progress sv \<noteq> Inr True" and ok: "attempts_ok (w_store w)"
    and r: "runAttempt sv graph i n w = (r, w')"
  shows "case r of Inr u \<Rightarrow> settled i w' \<or> w_failed w'
    | Inl e \<Rightarrow> (\<not> lost_or_shutdown e \<or> w_failed w') \<and> attempts_ok (w_store w') \<and> r_runId (w_run w') = r_runId (w_run w)"
  using t r
proof (cases rule: runAttempt_split)
  case (fault e)
  with ok show ?thesis by simp
next
  case (began u b v)
  have "attempt_inv (r_runId (w_run w)) u" using ok loadAttempt_cases(1) began(1) by (simp add: attempt_inv_def)
  with inv_body began(2) have v: "attempt_inv (r_runId (w_run w)) v" unfolding keeps_def by blast
  show ?thesis
  proof (cases b)
    case (Inr x)
    with began(2) body_hands_nothing have "x = None" unfolding hands_def by (cases x) auto
    with Inr began rests_body [OF p] show ?thesis by (auto simp: rests_def gives_def)
  next
    case (Inl e)
    with raises_body [OF st] began(2) have h: "handled e \<or> w_failed v" unfolding raises_def by blast
    show ?thesis
    proof (cases "e \<in> {AttemptAborted AbortStop, AttemptAborted AbortDeadline}")
      case True
      with lands_caught [OF stopTarget_lands] have "lands i (on_abort sv i e) v" by (simp add: on_abort_def)
      moreover have "r = Inr ()" using True Inl began(3) by (auto simp: on_abort_def catchA_def ret_def split: prod.splits sum.splits if_splits)
      ultimately show ?thesis using Inl began(3) by (auto simp: lands_def)
    next
      case False
      with h Inl began(3) v show ?thesis by (auto simp: on_abort_def throw_def handled_def attempt_inv_def)
    qed
  qed
qed

subsection \<open>The result\<close>


definition sample_refusals :: Services where
  "sample_refusals = sample_services\<lparr>sv_gate := (\<lambda>_ _. Inl (Thrown (failure INTERNAL)))\<rparr>"

text \<open>An access fails on the way: the target is blocked.\<close>

definition sample_faulty :: AttemptWorld where
  "sample_faulty = sample_world\<lparr>w_faults := (\<lambda>k. if k = 5 then Some (Thrown (failure INTERNAL)) else None)\<rparr>"


end
