(* ===== verification/Approvals.thy ===== *)
theory Approvals
  imports Scheduler
begin

text \<open>
  Approvals from end to end: \<open>awaitApproval\<close>, \<open>resolveApproval\<close> and the start of the approved attempt, and
  what the attempt store then accepts. The plans are those of \<open>Controller\<close>.
\<close>

subsection \<open>Finding the pending approval\<close>

lemma parse_pending_prefix:
  assumes "parseApprovalMarker b = Some m" and "mk_state m = Pending"
  shows "startsWith b ''approval:pending:''"
proof -
  have ap: "after_prefix p s = Some r \<Longrightarrow> s = p @ r" for p s r
    by (auto simp: after_prefix_def startsWith_def split: if_splits) (metis append_take_drop_id)
  from assms obtain s1 s2 k where 1: "after_prefix ''approval:'' b = Some s1"
    and 2: "first_choice [(''pending:'', Pending), (''granted:'', Granted), (''denied:'', Denied)] s1 = Some (Pending, s2)"
    by (auto simp: parseApprovalMarker_def bind_eq_Some_conv Let_def split: if_splits prod.splits)
  from 2 have "after_prefix ''pending:'' s1 = Some s2" by (auto split: option.splits)
  from ap [OF 1] ap [OF this] show ?thesis by (simp add: startsWith_def)
qed

lemma without_pending_markers:
  "b \<in> set (without_pending bs) \<Longrightarrow> parseApprovalMarker b = Some m \<Longrightarrow> mk_state m \<noteq> Pending"
  using parse_pending_prefix by (auto simp: without_pending_def)

lemma find_skip: "\<forall>x \<in> set xs. \<not> P x \<Longrightarrow> find P (xs @ ys) = find P ys"
  by (induction xs) auto

lemma pending_marker_added:
  assumes "le_status e = NeedsApproval" and "le_blockers e = without_pending bs @ [approvalMarker Pending k n scope]" and "one_line (scope_text scope)"
  shows "pending_marker e = Some \<lparr>mk_state = Pending, mk_kind = k, mk_attempt = n, mk_scope = scope_text scope\<rparr>"
proof -
  let ?ms = "\<lambda>bs. concat (map (\<lambda>b. case parseApprovalMarker b of None \<Rightarrow> [] | Some m \<Rightarrow> [m]) bs)"
  have "\<forall>m \<in> set (?ms (without_pending bs)). mk_state m \<noteq> Pending"
    using without_pending_markers by (auto split: option.splits)
  from find_skip [OF this] show ?thesis using assms by (simp add: pending_marker_def parse_marker)
qed

lemma scope_option_text: "approvalMarker st k n (scope_option (scope_text scope)) = approvalMarker st k n scope"
  by (cases scope) (auto simp: approvalMarker_def scope_option_def scope_text_def)

lemma granted_after_swap:
  assumes "one_line (scope_text scope)"
  shows "grantedApproval (swap_marker \<lparr>mk_state = Pending, mk_kind = k, mk_attempt = n, mk_scope = scope_text scope\<rparr> True e) (Some k) (Some n)"
  using assms by (simp add: grantedApproval_def swap_marker_def Let_def scope_option_text marker_matches_def parse_marker)

lemma transition_plan_apply:
  assumes "dget (r_targets run) i = Some e" and "le_status e \<noteq> to" and "canTransitionTarget (le_status e) to actor"
  shows "apply_plan (transition_plan now i to reason actor x id None) run = Inr ((apply_change now i to x run)\<lparr>r_ledgerRevision := r_ledgerRevision run + 1\<rparr>)"
proof -
  have "status_of run i = le_status e" using assms(1) by (simp add: status_of_def)
  then show ?thesis using assms(2,3)
    by (simp add: apply_plan_def transition_plan_def Let_def change_def assertTargetTransition_def)
qed

lemma approval_apply:
  assumes e: "dget (r_targets run) i = Some e" "le_status e = Active"
  shows "\<exists>run1. apply_plan (approval_plan now i att k scope rs) run = Inr run1 \<and> r_resource run1 = r_resource run \<and> r_runId run1 = r_runId run \<and>
     dget (r_targets run1) i = Some (e\<lparr>le_status := NeedsApproval, le_updatedAt := now,
       le_blockers := without_pending (le_blockers e) @ [approvalMarker Pending k (at_attempt att) scope]\<rparr>)"
proof -
  have "canTransitionTarget (le_status e) NeedsApproval ''governance''" using e(2) by (simp add: canTransitionTarget_def)
  with transition_plan_apply [OF e(1)] e show ?thesis
    unfolding approval_plan_def by (simp add: apply_change_def entry_of_def)
qed

lemma grant_apply:
  assumes e: "dget (r_targets run) i = Some e" "le_status e = NeedsApproval" and m: "mk_kind m = ExecuteApproval"
  shows "\<exists>p run1. resolve_plans now i True actor reason e m r = [p] \<and> apply_plan p run = Inr run1 \<and> r_resource run1 = r_resource run \<and>
     dget (r_targets run1) i = Some (swap_marker m True (e\<lparr>le_status := Eligible, le_updatedAt := now\<rparr>))"
proof -
  have "canTransitionTarget (le_status e) Eligible actor" using e(2) by (simp add: canTransitionTarget_def)
  with transition_plan_apply [OF e(1)] e m show ?thesis
    unfolding resolve_plans_def Let_def by (simp add: apply_change_def)
qed

text \<open>
  C21. An approved attempt resumes under its own number: when governance asks for approval of a running
  attempt, the pending marker is the one \<open>resolveApproval\<close> finds, granting it makes the target eligible again,
  and the next start takes up the same attempt without counting a new task, even when the budget of tasks is
  used up.
\<close>
theorem approved_attempt_resumes:
  assumes e: "dget (r_targets run) i = Some e" "le_status e = Active" "le_attempts e = at_attempt att" "0 < at_attempt att"
    and scope: "one_line (scope_text scope)" and t: "targetOf graph i = Inr t"
  shows "\<exists>run1 e1 m p run2 run3 e3.
    apply_plan (approval_plan t1 i att ExecuteApproval scope rs) run = Inr run1 \<and>
    pending_for run1 i = Inr (e1, m) \<and> mk_kind m = ExecuteApproval \<and> mk_scope m = scope_text scope \<and>
    resolve_plans t2 i True actor reason e1 m (r_runId run1) = [p] \<and> apply_plan p run1 = Inr run2 \<and> status_of run2 i = Eligible \<and>
    apply_plan (start_plan t3 graph i) run2 = Inr run3 \<and> dget (r_targets run3) i = Some e3 \<and>
    le_status e3 = Active \<and> le_attempts e3 = at_attempt att \<and> r_resource run3 = r_resource run"
proof -
  let ?m = "\<lparr>mk_state = Pending, mk_kind = ExecuteApproval, mk_attempt = at_attempt att, mk_scope = scope_text scope\<rparr>"
  let ?e1 = "e\<lparr>le_status := NeedsApproval, le_updatedAt := t1,
       le_blockers := without_pending (le_blockers e) @ [approvalMarker Pending ExecuteApproval (at_attempt att) scope]\<rparr>"
  let ?e2 = "swap_marker ?m True (?e1\<lparr>le_status := Eligible, le_updatedAt := t2\<rparr>)"
  from approval_apply [OF e(1,2)] obtain run1 where r1: "apply_plan (approval_plan t1 i att ExecuteApproval scope rs) run = Inr run1"
    "r_resource run1 = r_resource run" "dget (r_targets run1) i = Some ?e1" by blast
  have "pending_marker ?e1 = Some ?m" by (rule pending_marker_added) (simp_all add: scope)
  then have p1: "pending_for run1 i = Inr (?e1, ?m)" using r1(3) e(3) by (simp add: pending_for_def)
  have "le_status ?e1 = NeedsApproval" "mk_kind ?m = ExecuteApproval" by simp_all
  from grant_apply [OF r1(3) this] obtain p run2 where r2: "resolve_plans t2 i True actor reason ?e1 ?m (r_runId run1) = [p]"
    "apply_plan p run1 = Inr run2" "r_resource run2 = r_resource run1" "dget (r_targets run2) i = Some ?e2" by blast
  have st: "status_of run2 i = Eligible" using r2(4) by (simp add: status_of_def)
  have en: "entry_of run2 i t3 = ?e2" using r2(4) by (simp add: entry_of_def)
  have "reuse_attempt ?e2" using granted_after_swap [OF scope] e(3,4) by (simp add: reuse_attempt_def)
  then have re: "reuse_attempt (entry_of run2 i t3)" by (simp only: en)
  have "\<exists>c. change t3 run2 i Active reason' CONTROLLER_ACTOR x = Inr c" for reason' x
    by (simp add: change_def Let_def st transition_simps)
  then obtain ts f where s: "start_plan t3 graph i run2 = Inr (Some (ts, f))"
    using t re unfolding start_plan_def Let_def entry_of_def [symmetric] by (fastforce simp: bindE_Inr entry_of_def)
  let ?run3 = "(f run2)\<lparr>r_ledgerRevision := r_ledgerRevision run2 + 1\<rparr>"
  have "apply_plan (start_plan t3 graph i) run2 = Inr ?run3" using s by (simp add: apply_plan_Inr)
  moreover have "dget (r_targets ?run3) i = Some (started_entry run2 i t3)" "r_resource ?run3 = r_resource run"
    using start_plan_Some(3) [OF s] re r1(2) r2(3) by (simp_all add: started_resource_def)
  moreover have "le_status (started_entry run2 i t3) = Active" "le_attempts (started_entry run2 i t3) = at_attempt att"
    using re e(3) by (simp_all add: started_entry_def Let_def en)
  ultimately show ?thesis using r1(1) p1 r2(1,2) st by fastforce
qed

definition sample_waiting :: TargetAttempt where
  "sample_waiting = \<lparr>at_id = ''run-1:A:1'', at_runId = ''run-1'', at_targetId = ''A'', at_attempt = 1, at_phase = PREFLIGHT,
     at_executionId = None, at_modelRoute = None, at_promptRef = None, at_repairHypothesis = None, at_startedAt = 0,
     at_endedAt = None, at_outcome = None, at_error = None\<rparr>"

theorem approved_attempt_resumes_witness:
  "\<exists>run1 e1 m p run2 run3. apply_plan (approval_plan 1 ''A'' sample_waiting ExecuteApproval (Some ''s'') []) sample_active = Inr run1 \<and>
     pending_for run1 ''A'' = Inr (e1, m) \<and> resolve_plans 2 ''A'' True ''user:ann'' None e1 m (r_runId run1) = [p] \<and> apply_plan p run1 = Inr run2 \<and>
     apply_plan (start_plan 3 (gr_definition sample_graph) ''A'') run2 = Inr run3 \<and> res_tasksStarted (r_resource run3) = 1"
proof -
  have "map_option le_status (dget (r_targets sample_active) ''A'') = Some Active \<and> map_option le_attempts (dget (r_targets sample_active) ''A'') = Some 1"
    by code_simp
  then obtain e where e: "dget (r_targets sample_active) ''A'' = Some e" "le_status e = Active" "le_attempts e = at_attempt sample_waiting"
    by (auto simp: sample_waiting_def)
  have "isOk (targetOf (gr_definition sample_graph) ''A'')" by code_simp
  then obtain t where t: "targetOf (gr_definition sample_graph) ''A'' = Inr t" by (auto simp: isOk_iff)
  have "one_line (scope_text (Some ''s''))" "0 < at_attempt sample_waiting" by (simp_all add: one_line_def scope_text_def sample_waiting_def)
  from approved_attempt_resumes [OF e this(2,1) t, of 1 "[]" 2 "''user:ann''" None 3]
  obtain run1 e1 m p run2 run3 where *: "apply_plan (approval_plan 1 ''A'' sample_waiting ExecuteApproval (Some ''s'') []) sample_active = Inr run1"
    "pending_for run1 ''A'' = Inr (e1, m)" "resolve_plans 2 ''A'' True ''user:ann'' None e1 m (r_runId run1) = [p]" "apply_plan p run1 = Inr run2"
    "apply_plan (start_plan 3 (gr_definition sample_graph) ''A'') run2 = Inr run3" "r_resource run3 = r_resource sample_active" by blast
  moreover have "res_tasksStarted (r_resource sample_active) = 1" by code_simp
  ultimately show ?thesis by metis
qed

subsection \<open>What the attempt store accepts afterwards\<close>

text \<open>The record that \<open>awaitApproval\<close> saves last\<close>

definition awaiting_record :: "TargetAttempt \<Rightarrow> TargetAttempt" where
  "awaiting_record a = a\<lparr>at_outcome := Some OAwaitingApproval, at_phase := PERSIST_STATE\<rparr>"

text \<open>
  C39. An attempt that waited for approval can never record how it ended: \<open>awaitApproval\<close> saves it with the
  outcome \<open>awaiting_approval\<close>, which the ledger treats as final, so after the approval every attempt to save
  it as succeeded, failed, blocked or cancelled is refused with \<open>LEDGER_CONFLICT\<close> and changes nothing.
\<close>
theorem approved_attempt_cannot_finish:
  assumes "saveAttempt (awaiting_record a) s = (Inr (), s')"
    and "at_outcome b \<noteq> Some OAwaitingApproval" and "at_id b = at_id a" "at_runId b = at_runId a" "at_targetId b = at_targetId a"
    and "at_attempt b = at_attempt a" "at_startedAt b = at_startedAt a"
  shows "\<exists>e. saveAttempt b s' = (Inl e, s') \<and> e_code e = LEDGER_CONFLICT"
proof -
  from assms(1) have v: "at_id a \<noteq> []" "at_runId a \<noteq> []" "at_targetId a \<noteq> []" "1 \<le> at_attempt a"
    and s': "s' = s\<lparr>s_attempts := dput (at_runId a, at_id a) (awaiting_record a) (s_attempts s)\<rparr>"
    by (auto simp: saveAttempt_def atomicUpdate_def save_attempt_update_def awaiting_record_def split: if_splits sum.splits option.splits)
  then show ?thesis using assms(2-)
    by (simp add: saveAttempt_def atomicUpdate_def save_attempt_update_def awaiting_record_def not_less)
qed

theorem approved_attempt_cannot_finish_witness:
  "\<exists>s' e. saveAttempt (awaiting_record sample_waiting) empty_store = (Inr (), s') \<and>
     saveAttempt (sample_waiting\<lparr>at_outcome := Some OSucceeded, at_endedAt := Some 9\<rparr>) s' = (Inl e, s') \<and> e_code e = LEDGER_CONFLICT"
proof -
  obtain s' where s': "saveAttempt (awaiting_record sample_waiting) empty_store = (Inr (), s')"
    by (simp add: saveAttempt_def sample_waiting_def awaiting_record_def empty_store_def atomicUpdate_def save_attempt_update_def)
  from approved_attempt_cannot_finish [OF s', of "sample_waiting\<lparr>at_outcome := Some OSucceeded, at_endedAt := Some 9\<rparr>"] s' show ?thesis by auto
qed

end
