(* ===== verification/Graph_Store.thy ===== *)
theory Graph_Store
  imports Graph_Order Ledger_Store Canonical
begin

text \<open>
  The store of graph revisions: \<open>src/packages/goals/src/graph/store.ts\<close>. A graph is a numbered history of
  definitions, each kept as its canonical text together with the digest of that text, and a head record
  that points at the latest one. A revision is written in two atomic updates, \<open>claimRevision\<close> and
  \<open>advanceHead\<close>, between which other writers may act and the process may die.

  The lemmas show that every history is linear and without gaps, that a revision never changes, that the
  latest revision is found although the head is behind, and that what was written is what is read.
\<close>

subsection \<open>Identifiers\<close>

definition lower_alnum :: "char \<Rightarrow> bool" where
  "lower_alnum c \<longleftrightarrow> is_digit c \<or> code_between 97 122 c"

text \<open>\<open>/^[a-z0-9][a-z0-9._-]{0,127}$/\<close>\<close>

definition GRAPH_ID_PATTERN :: "string \<Rightarrow> bool" where
  "GRAPH_ID_PATTERN s \<longleftrightarrow> s \<noteq> [] \<and> length s \<le> 128 \<and> lower_alnum (hd s) \<and> list_all (\<lambda>c. lower_alnum c \<or> c \<in> set ''._-'') (tl s)"

text \<open>\<open>/^[A-Za-z0-9][A-Za-z0-9._-]{0,63}$/\<close>, the same pattern as that of target ids\<close>

definition PROJECT_ID_PATTERN :: "string \<Rightarrow> bool" where
  "PROJECT_ID_PATTERN = TARGET_ID_PATTERN"

definition slug :: "string \<Rightarrow> string" where
  "slug s =
     (let dashed = replace_runs (\<lambda>c. \<not> lower_alnum c) (CHR ''-'') (toLowerCase s);
          trimmed = rev (dropWhile ((=) (CHR ''-'')) (rev (dropWhile ((=) (CHR ''-'')) dashed)));
          cut = take 60 trimmed
      in if cut = [] then ''graph'' else cut)"

definition deriveGraphId :: "ProjectId \<Rightarrow> string \<Rightarrow> GraphId" where
  "deriveGraphId projectId name = slug projectId @ ''--'' @ slug name"

subsection \<open>State\<close>

record GoalGraphHead =
  gh_graphId :: GraphId
  gh_projectId :: ProjectId
  gh_name :: string
  gh_latestRevision :: GraphRevision
  gh_latestDigest :: string
  gh_createdAt :: timestamp
  gh_createdBy :: string
  gh_updatedAt :: timestamp

record StoredRevision =
  sr_graphId :: GraphId
  sr_projectId :: ProjectId
  sr_revision :: GraphRevision
  sr_digest :: string
  sr_createdAt :: timestamp
  sr_createdBy :: string
  sr_parentRevision :: "GraphRevision option"
  sr_canonicalDefinition :: string

record GraphStore =
  gs_heads :: "(GraphId, GoalGraphHead) dict"
  gs_revisions :: "(GraphId \<times> GraphRevision, StoredRevision) dict"

text \<open>
  What the store uses of the platform: the text of a number, the hash, \<open>JSON.parse\<close> followed by the cast to
  a definition, and \<open>localeCompare\<close> for the validation.
\<close>

record GraphDeps =
  gx_number :: "rat \<Rightarrow> string"
  gx_sha256Hex :: "string \<Rightarrow> string"
  gx_parse :: "string \<Rightarrow> GoalGraphDefinition"
  gx_localeCompare :: "string \<Rightarrow> string \<Rightarrow> rat"

definition empty_graphs :: GraphStore where
  "empty_graphs = \<lparr>gs_heads = [], gs_revisions = []\<rparr>"

subsection \<open>Reading\<close>

definition checkGraphId :: "GraphId \<Rightarrow> unit result" where
  "checkGraphId graphId = guardE (GRAPH_ID_PATTERN graphId) (failure VALIDATION)"

definition checkActor :: "string \<Rightarrow> unit result" where
  "checkActor actor = guardE (trim actor \<noteq> [] \<and> length actor \<le> 200) (failure VALIDATION)"

definition toRecord :: "GraphDeps \<Rightarrow> StoredRevision \<Rightarrow> string \<Rightarrow> GoalGraphRevisionRecord result" where
  "toRecord d stored key =
     (let expectedKey = GOAL_STORE_KEYS (KGraphRevision (sr_graphId stored) (sr_revision stored)) in
      if expectedKey \<noteq> key \<or> gx_sha256Hex d (sr_canonicalDefinition stored) \<noteq> sr_digest stored then Inl (failure INTERNAL)
      else Inr \<lparr>gr_graphId = sr_graphId stored, gr_projectId = sr_projectId stored, gr_revision = sr_revision stored,
        gr_definition = gx_parse d (sr_canonicalDefinition stored), gr_digest = sr_digest stored, gr_createdAt = sr_createdAt stored,
        gr_createdBy = sr_createdBy stored, gr_parentRevision = sr_parentRevision stored\<rparr>)"

definition readStored :: "GraphStore \<Rightarrow> GraphId \<Rightarrow> GraphRevision \<Rightarrow> StoredRevision option" where
  "readStored s graphId revision = dget (gs_revisions s) (graphId, revision)"

text \<open>The head pointer, rolled forward past revisions that were written before a crash left the head stale\<close>

function roll_forward :: "GraphStore \<Rightarrow> GraphId \<Rightarrow> GraphRevision \<Rightarrow> GraphRevision" where
  "roll_forward s graphId latest = (if readStored s graphId (Suc latest) \<noteq> None then roll_forward s graphId (Suc latest) else latest)"
  by pat_completeness auto
termination
proof (relation "measure (\<lambda>(s, g, n). card {k \<in> set (dkeys (gs_revisions s)). fst k = g \<and> n < snd k})")
  fix s graphId latest
  assume "readStored s graphId (Suc latest) \<noteq> None"
  then have k: "(graphId, Suc latest) \<in> set (dkeys (gs_revisions s))" unfolding readStored_def by (metis dget_None_keys)
  let ?K = "\<lambda>n. {k \<in> set (dkeys (gs_revisions s)). fst k = graphId \<and> n < snd k}"
  from k have "(graphId, Suc latest) \<in> ?K latest - ?K (Suc latest)" by simp
  moreover have "?K (Suc latest) \<subseteq> ?K latest" by auto
  ultimately have "?K (Suc latest) \<subset> ?K latest" by blast
  then have "card (?K (Suc latest)) < card (?K latest)" by (rule psubset_card_mono [rotated]) simp
  then show "((s, graphId, Suc latest), s, graphId, latest) \<in> measure (\<lambda>(s, g, n). card {k \<in> set (dkeys (gs_revisions s)). fst k = g \<and> n < snd k})"
    by simp
qed simp

declare roll_forward.simps [simp del]

definition latestRevisionOf :: "GraphStore \<Rightarrow> GraphId \<Rightarrow> GoalGraphHead option \<Rightarrow> GraphRevision" where
  "latestRevisionOf s graphId head = roll_forward s graphId (case head of None \<Rightarrow> 0 | Some h \<Rightarrow> gh_latestRevision h)"

definition latest_of :: "GraphStore \<Rightarrow> GraphId \<Rightarrow> GraphRevision" where
  "latest_of s graphId = latestRevisionOf s graphId (dget (gs_heads s) graphId)"

definition MAX_SAFE :: int where "MAX_SAFE = 9007199254740991"

definition getRevision :: "GraphDeps \<Rightarrow> GraphStore \<Rightarrow> GraphId \<Rightarrow> GraphRevision option \<Rightarrow> GoalGraphRevisionRecord option result" where
  "getRevision d s graphId revision =
     bindE (checkGraphId graphId) (\<lambda>_.
       (let rev = (case revision of Some r \<Rightarrow> r | None \<Rightarrow> latest_of s graphId) in
        if revision = None \<and> rev = 0 then Inr None
        else bindE (guardE (1 \<le> rev \<and> int rev \<le> MAX_SAFE) (failure VALIDATION)) (\<lambda>_.
          case readStored s graphId rev of
            None \<Rightarrow> Inr None
          | Some stored \<Rightarrow> bindE (toRecord d stored (GOAL_STORE_KEYS (KGraphRevision graphId rev))) (\<lambda>r. Inr (Some r)))))"

subsection \<open>Writing\<close>

text \<open>Writes the revision if and only if it does not exist yet: the guard against concurrent writers.\<close>

definition claimRevision :: "StoredRevision \<Rightarrow> GraphStore \<Rightarrow> unit result \<times> GraphStore" where
  "claimRevision stored s =
     (case atomicUpdate (gs_revisions s) (sr_graphId stored, sr_revision stored)
        (\<lambda>current. if current \<noteq> None then Inl (retryable_failure LEDGER_CONFLICT) else Inr stored) of
        (Inl e, _) \<Rightarrow> (Inl e, s)
      | (Inr _, d) \<Rightarrow> (Inr (), s\<lparr>gs_revisions := d\<rparr>))"

definition head_update :: "StoredRevision \<Rightarrow> string \<Rightarrow> GoalGraphHead option \<Rightarrow> GoalGraphHead" where
  "head_update stored name current =
     (case current of
        None \<Rightarrow> \<lparr>gh_graphId = sr_graphId stored, gh_projectId = sr_projectId stored, gh_name = name, gh_latestRevision = sr_revision stored,
          gh_latestDigest = sr_digest stored, gh_createdAt = sr_createdAt stored, gh_createdBy = sr_createdBy stored, gh_updatedAt = sr_createdAt stored\<rparr>
      | Some head \<Rightarrow>
          if sr_revision stored \<le> gh_latestRevision head then head
          else head\<lparr>gh_name := name, gh_latestRevision := sr_revision stored, gh_latestDigest := sr_digest stored, gh_updatedAt := sr_createdAt stored\<rparr>)"

definition advanceHead :: "StoredRevision \<Rightarrow> string \<Rightarrow> GraphStore \<Rightarrow> GraphStore" where
  "advanceHead stored name s =
     s\<lparr>gs_heads := dput (sr_graphId stored) (head_update stored name (dget (gs_heads s) (sr_graphId stored))) (gs_heads s)\<rparr>"

definition canonical_text :: "GraphDeps \<Rightarrow> GoalGraphDefinition \<Rightarrow> string result" where
  "canonical_text d definition' = (case canonicalJson (gx_number d) (graph_json definition') of Inl _ \<Rightarrow> Inl (failure INTERNAL) | Inr t \<Rightarrow> Inr t)"

definition new_revision :: "GraphDeps \<Rightarrow> timestamp \<Rightarrow> GraphId \<Rightarrow> ProjectId \<Rightarrow> string \<Rightarrow> string \<Rightarrow> GraphRevision \<Rightarrow> GraphRevision option \<Rightarrow> StoredRevision" where
  "new_revision d now graphId projectId text actor revision parent =
     \<lparr>sr_graphId = graphId, sr_projectId = projectId, sr_revision = revision, sr_digest = gx_sha256Hex d text, sr_createdAt = now,
      sr_createdBy = actor, sr_parentRevision = parent, sr_canonicalDefinition = text\<rparr>"

definition writeRevision :: "GraphDeps \<Rightarrow> timestamp \<Rightarrow> GraphId \<Rightarrow> ProjectId \<Rightarrow> GoalGraphDefinition \<Rightarrow> string \<Rightarrow> GraphRevision \<Rightarrow> GraphRevision option
    \<Rightarrow> GraphStore \<Rightarrow> GoalGraphRevisionRecord result \<times> GraphStore" where
  "writeRevision d now graphId projectId definition' actor revision parent s =
     (case canonical_text d definition' of
        Inl e \<Rightarrow> (Inl e, s)
      | Inr text \<Rightarrow>
          (let stored = new_revision d now graphId projectId text actor revision parent in
           case claimRevision stored s of
             (Inl e, s1) \<Rightarrow> (Inl e, s1)
           | (Inr _, s1) \<Rightarrow> (toRecord d stored (GOAL_STORE_KEYS (KGraphRevision graphId revision)), advanceHead stored (g_name definition') s1)))"

definition createRevision :: "GraphDeps \<Rightarrow> timestamp \<Rightarrow> GraphId \<Rightarrow> GoalGraphDefinition \<Rightarrow> string \<Rightarrow> GraphRevision
    \<Rightarrow> GraphStore \<Rightarrow> GoalGraphRevisionRecord result \<times> GraphStore" where
  "createRevision d now graphId definition' actor parentRevision s =
     (case bindE (checkGraphId graphId) (\<lambda>_. bindE (checkActor actor) (\<lambda>_.
             bindE (guardE (1 \<le> parentRevision \<and> int parentRevision \<le> MAX_SAFE) (failure VALIDATION)) (\<lambda>_.
             bindE (assertValid (gx_localeCompare d) definition') (\<lambda>_.
             bindE (guardE (latest_of s graphId \<noteq> 0) (failure NOT_FOUND)) (\<lambda>_.
             bindE (guardE (parentRevision = latest_of s graphId) (retryable_failure LEDGER_CONFLICT)) (\<lambda>_.
             case dget (gs_heads s) graphId of
               Some head \<Rightarrow> Inr (gh_projectId head)
             | None \<Rightarrow> (case readStored s graphId parentRevision of Some p \<Rightarrow> Inr (sr_projectId p) | None \<Rightarrow> Inl (failure INTERNAL)))))))) of
        Inl e \<Rightarrow> (Inl e, s)
      | Inr projectId \<Rightarrow> writeRevision d now graphId projectId definition' actor (parentRevision + 1) (Some parentRevision) s)"

text \<open>
  \<open>importYaml\<close> with what the reader returned: a definition, when the text is one and passes the validation. The
  result carries the record and whether it was created.
\<close>

definition importYaml :: "GraphDeps \<Rightarrow> timestamp \<Rightarrow> ProjectId \<Rightarrow> string \<Rightarrow> GoalGraphDefinition option \<Rightarrow> string
    \<Rightarrow> GraphStore \<Rightarrow> (GoalGraphRevisionRecord \<times> bool) option result \<times> GraphStore" where
  "importYaml d now projectId yaml parsed actor s =
     (if \<not> PROJECT_ID_PATTERN projectId then (Inl (failure VALIDATION), s)
      else case checkActor actor of Inl e \<Rightarrow> (Inl e, s)
      | Inr _ \<Rightarrow>
        if trim yaml = [] then (Inl (failure VALIDATION), s)
        else case parsed of None \<Rightarrow> (Inr None, s)
        | Some definition' \<Rightarrow>
          (let graphId = deriveGraphId projectId (g_name definition');
               latest = latest_of s graphId;
               written = (\<lambda>(r, s'). (map_sum id (\<lambda>rec. Some (rec, True)) r, s'))
           in if latest > 0 then
                (case getRevision d s graphId (Some latest) of
                   Inl e \<Rightarrow> (Inl e, s)
                 | Inr current \<Rightarrow>
                   (case current of
                      Some rec \<Rightarrow>
                        (case canonical_text d definition' of Inl e \<Rightarrow> (Inl e, s)
                         | Inr text \<Rightarrow> if gr_digest rec = gx_sha256Hex d text then (Inr (Some (rec, False)), s)
                             else written (writeRevision d now graphId projectId definition' actor (latest + 1) (Some latest) s))
                    | None \<Rightarrow> written (writeRevision d now graphId projectId definition' actor (latest + 1) (Some latest) s)))
              else written (writeRevision d now graphId projectId definition' actor 1 None s)))"

subsection \<open>Listing\<close>

definition listRevisions :: "GraphStore \<Rightarrow> GraphId \<Rightarrow> (GraphId \<times> GraphRevision \<times> string \<times> timestamp \<times> string) list result" where
  "listRevisions s graphId =
     bindE (checkGraphId graphId) (\<lambda>_.
       Inr (map (\<lambda>x. (sr_graphId x, sr_revision x, sr_digest x, sr_createdAt x, sr_createdBy x))
         (sort_by (\<lambda>a b. of_nat (sr_revision a) - of_nat (sr_revision b))
           (filter (\<lambda>x. sr_graphId x = graphId) (map snd (filter (\<lambda>((g, _), _). g = graphId) (gs_revisions s)))))))"

definition max_revisions :: "GraphStore \<Rightarrow> (GraphId, StoredRevision) dict" where
  "max_revisions s = fold (\<lambda>((g, _), x) m.
     if (case dget m g of None \<Rightarrow> 0 | Some y \<Rightarrow> sr_revision y) < sr_revision x then dput g x m else m) (gs_revisions s) []"

record GoalGraphSummary =
  sm_graphId :: GraphId
  sm_projectId :: ProjectId
  sm_name :: string
  sm_latestRevision :: GraphRevision

definition summary :: "GraphDeps \<Rightarrow> GraphStore \<Rightarrow> GraphId \<times> StoredRevision \<Rightarrow> GoalGraphSummary" where
  "summary d s gx =
     (let head = dget (gs_heads s) (fst gx); latestStored = snd gx;
          behind = (case head of None \<Rightarrow> True | Some h \<Rightarrow> sr_revision latestStored > gh_latestRevision h)
      in \<lparr>sm_graphId = fst gx,
          sm_projectId = (case head of Some h \<Rightarrow> gh_projectId h | None \<Rightarrow> sr_projectId latestStored),
          sm_name = (if behind then g_name (gx_parse d (sr_canonicalDefinition latestStored)) else (case head of Some h \<Rightarrow> gh_name h | None \<Rightarrow> [])),
          sm_latestRevision = max (case head of Some h \<Rightarrow> gh_latestRevision h | None \<Rightarrow> 0) (sr_revision latestStored)\<rparr>)"

definition listGraphs :: "GraphDeps \<Rightarrow> GraphStore \<Rightarrow> ProjectId option \<Rightarrow> GoalGraphSummary list" where
  "listGraphs d s projectId =
     sort_by (\<lambda>a b. compare_str (sm_graphId a) (sm_graphId b))
       (filter (\<lambda>x. projectId = None \<or> projectId = Some (sm_projectId x)) (map (summary d s) (max_revisions s)))"

definition getGraph :: "GraphDeps \<Rightarrow> GraphStore \<Rightarrow> GraphId \<Rightarrow> GoalGraphHead option result" where
  "getGraph d s graphId =
     bindE (checkGraphId graphId) (\<lambda>_.
       (let head = dget (gs_heads s) graphId; latest = latestRevisionOf s graphId head in
        if latest = 0 then Inr None
        else case head of
          Some h \<Rightarrow>
            if gh_latestRevision h = latest then Inr (Some h)
            else bindE (getRevision d s graphId (Some latest)) (\<lambda>r. case r of None \<Rightarrow> Inl (failure INTERNAL) | Some rec \<Rightarrow>
              Inr (Some \<lparr>gh_graphId = graphId, gh_projectId = gr_projectId rec, gh_name = g_name (gr_definition rec), gh_latestRevision = latest,
                gh_latestDigest = gr_digest rec, gh_createdAt = gh_createdAt h, gh_createdBy = gh_createdBy h, gh_updatedAt = gr_createdAt rec\<rparr>))
        | None \<Rightarrow> bindE (getRevision d s graphId (Some latest)) (\<lambda>r. case r of None \<Rightarrow> Inl (failure INTERNAL) | Some rec \<Rightarrow>
              Inr (Some \<lparr>gh_graphId = graphId, gh_projectId = gr_projectId rec, gh_name = g_name (gr_definition rec), gh_latestRevision = latest,
                gh_latestDigest = gr_digest rec, gh_createdAt = gr_createdAt rec, gh_createdBy = gr_createdBy rec, gh_updatedAt = gr_createdAt rec\<rparr>))))"

definition graph_criticalPath :: "GraphDeps \<Rightarrow> GraphStore \<Rightarrow> GraphId \<Rightarrow> GraphRevision option
    \<Rightarrow> (GraphRevision \<times> CriticalPathResult \<times> TargetId list) result" where
  "graph_criticalPath d s graphId revision =
     bindE (getRevision d s graphId revision) (\<lambda>r. case r of None \<Rightarrow> Inl (failure NOT_FOUND) | Some rec \<Rightarrow>
       bindE (criticalPath (gx_localeCompare d) (gr_definition rec)) (\<lambda>cp.
       bindE (topologicalOrder (gx_localeCompare d) (gr_definition rec)) (\<lambda>order.
         Inr (gr_revision rec, cp, order))))"

subsection \<open>Derived identifiers\<close>

lemma replace_runs_chars: "c \<in> set (replace_runs (\<lambda>c. \<not> P c) x s) \<Longrightarrow> P c \<or> c = x"
  by (induction "\<lambda>c. \<not> P c" x s rule: replace_runs.induct) (auto split: if_splits)

lemma slug_shape: "slug s \<noteq> []" "length (slug s) \<le> 60" "lower_alnum (hd (slug s))" "\<forall>c \<in> set (slug s). lower_alnum c \<or> c = CHR ''-''"
proof -
  define d where "d = replace_runs (\<lambda>c. \<not> lower_alnum c) (CHR ''-'') (toLowerCase s)"
  define e where "e = dropWhile ((=) (CHR ''-'')) d"
  define t where "t = rev (dropWhile ((=) (CHR ''-'')) (rev e))"
  have slug: "slug s = (if take 60 t = [] then ''graph'' else take 60 t)" unfolding slug_def Let_def t_def e_def d_def ..
  have d: "lower_alnum c \<or> c = CHR ''-''" if "c \<in> set d" for c using that replace_runs_chars unfolding d_def by blast
  have sub: "set t \<subseteq> set d" unfolding t_def e_def by (auto dest!: set_dropWhileD)
  obtain u where "rev e = u @ dropWhile ((=) (CHR ''-'')) (rev e)" by (metis takeWhile_dropWhile_id)
  then have e: "e = t @ rev u" unfolding t_def by (metis rev_append rev_rev_ident)
  have t: "lower_alnum (hd t)" if "t \<noteq> []"
  proof -
    from that e have ne: "e \<noteq> []" and h: "hd t = hd e" by auto
    then have "hd e \<noteq> CHR ''-''" using hd_dropWhile [of "(=) (CHR ''-'')" d] unfolding e_def by auto
    moreover have "hd e \<in> set d" using hd_in_set [OF ne] set_dropWhileD unfolding e_def by fastforce
    ultimately show ?thesis using d h by auto
  qed
  have g: "lower_alnum (CHR ''g'')" "\<forall>c \<in> set ''graph''. lower_alnum c" by (simp_all add: lower_alnum_def code_between_def)
  show "slug s \<noteq> []" "length (slug s) \<le> 60" by (auto simp: slug)
  show "lower_alnum (hd (slug s))" using t g(1) by (cases t) (auto simp: slug)
  show "\<forall>c \<in> set (slug s). lower_alnum c \<or> c = CHR ''-''"
  proof (cases "t = []")
    case True
    then show ?thesis using g(2) by (simp only: slug take_Nil if_True simp_thms) blast
  next
    case False
    then show ?thesis using d sub by (auto simp: slug dest!: in_set_takeD)
  qed
qed

lemma deriveGraphId_pattern: "GRAPH_ID_PATTERN (deriveGraphId projectId name)"
proof -
  note p = slug_shape [of projectId] and n = slug_shape [of name]
  obtain c cs where c: "slug projectId = c # cs" using p(1) by (cases "slug projectId") auto
  have "list_all (\<lambda>c. lower_alnum c \<or> c \<in> set ''._-'') cs" using p(4) c by (auto simp: list_all_iff)
  moreover have "list_all (\<lambda>c. lower_alnum c \<or> c \<in> set ''._-'') (slug name)" using n(4) by (auto simp: list_all_iff)
  ultimately show ?thesis using p(2,3) n(2) c by (simp add: GRAPH_ID_PATTERN_def deriveGraphId_def)
qed

subsection \<open>Writers side by side\<close>

text \<open>
  The atomic updates that writers perform, in any order. A writer claims a first revision, or the successor of a
  revision it has read; revisions are never removed, so that one is still there. A claim without a later
  \<open>advanceHead\<close> is a writer that died in between.
\<close>

inductive graph_step :: "GraphDeps \<Rightarrow> GraphStore \<Rightarrow> GraphStore \<Rightarrow> bool" for d where
  claim: "canonical_text d definition' = Inr text \<Longrightarrow> well_formed_graph definition' \<Longrightarrow>
    revision = 1 \<and> parent = None \<or> 2 \<le> revision \<and> parent = Some (revision - 1) \<and> readStored s graphId (revision - 1) \<noteq> None \<Longrightarrow>
    claimRevision (new_revision d now graphId projectId text actor revision parent) s = (Inr u, s') \<Longrightarrow> graph_step d s s'"
| advance: "readStored s (sr_graphId x) (sr_revision x) = Some x \<Longrightarrow> graph_step d s (advanceHead x name s)"

definition revision_ok :: "GraphDeps \<Rightarrow> GraphStore \<Rightarrow> GraphId \<Rightarrow> GraphRevision \<Rightarrow> StoredRevision \<Rightarrow> bool" where
  "revision_ok d s g r x \<longleftrightarrow> sr_graphId x = g \<and> sr_revision x = r \<and> 1 \<le> r \<and> sr_parentRevision x = (if r = 1 then None else Some (r - 1)) \<and>
     sr_digest x = gx_sha256Hex d (sr_canonicalDefinition x) \<and> (r \<noteq> 1 \<longrightarrow> readStored s g (r - 1) \<noteq> None) \<and>
     (\<exists>g. well_formed_graph g \<and> canonical_text d g = Inr (sr_canonicalDefinition x))"

definition graphs_inv :: "GraphDeps \<Rightarrow> GraphStore \<Rightarrow> bool" where
  "graphs_inv d s \<longleftrightarrow> (\<forall>g r x. readStored s g r = Some x \<longrightarrow> revision_ok d s g r x) \<and>
     (\<forall>g h. dget (gs_heads s) g = Some h \<longrightarrow> gh_graphId h = g \<and>
        (\<exists>x. readStored s g (gh_latestRevision h) = Some x \<and> gh_latestDigest h = sr_digest x))"

lemma claim_Inr:
  "claimRevision x s = (Inr u, s') \<longleftrightarrow>
     readStored s (sr_graphId x) (sr_revision x) = None \<and> s' = s\<lparr>gs_revisions := dput (sr_graphId x, sr_revision x) x (gs_revisions s)\<rparr>"
  by (auto simp: claimRevision_def atomicUpdate_def readStored_def split: option.splits if_splits)

lemma claim_conflict:
  "readStored s (sr_graphId x) (sr_revision x) \<noteq> None \<Longrightarrow> claimRevision x s = (Inl (retryable_failure LEDGER_CONFLICT), s)"
  by (simp add: claimRevision_def atomicUpdate_def readStored_def)

lemma readStored_claimed:
  "claimRevision x s = (Inr u, s') \<Longrightarrow> readStored s' g r = (if (g, r) = (sr_graphId x, sr_revision x) then Some x else readStored s g r)"
  by (auto simp: claim_Inr readStored_def)

lemma readStored_advanced [simp]: "readStored (advanceHead x name s) = readStored s"
  by (simp add: readStored_def advanceHead_def fun_eq_iff)

lemma step_keeps_revision: "graph_step d s s' \<Longrightarrow> readStored s g r = Some x \<Longrightarrow> readStored s' g r = Some x"
  by (induction rule: graph_step.induct) (auto simp: readStored_claimed claim_Inr)

lemma steps_keep_revision: "(graph_step d)\<^sup>*\<^sup>* s s' \<Longrightarrow> readStored s g r = Some x \<Longrightarrow> readStored s' g r = Some x"
  by (induction rule: rtranclp_induct) (auto dest: step_keeps_revision)

lemma graph_step_inv:
  assumes "graph_step d s s'" and inv: "graphs_inv d s"
  shows "graphs_inv d s'"
  using assms(1)
proof cases
  case (claim definition' ct revision parent graphId now projectId actor u)
  let ?x = "new_revision d now graphId projectId ct actor revision parent"
  note st = readStored_claimed [OF claim(4)]
  have heads: "gs_heads s' = gs_heads s" using claim(4) by (auto simp: claim_Inr)
  have old: "readStored s g r = Some x \<Longrightarrow> readStored s' g r = Some x" for g r x by (rule step_keeps_revision [OF assms(1)])
  have "revision_ok d s' g r x" if "readStored s' g r = Some x" for g r x
  proof (cases "(g, r) = (graphId, revision)")
    case True
    with that st have "x = ?x" by (simp add: new_revision_def)
    with True claim(1-3) old show ?thesis unfolding revision_ok_def new_revision_def by fastforce
  next
    case False
    with that st have "readStored s g r = Some x" by (auto simp: new_revision_def split: if_splits)
    with inv have "revision_ok d s g r x" by (auto simp: graphs_inv_def)
    with old show ?thesis unfolding revision_ok_def by fastforce
  qed
  then show ?thesis using inv old unfolding graphs_inv_def heads by metis
next
  case (advance x name)
  have "gh_graphId (head_update x name c) = sr_graphId x \<and>
      (\<exists>y. readStored s (sr_graphId x) (gh_latestRevision (head_update x name c)) = Some y \<and> gh_latestDigest (head_update x name c) = sr_digest y)"
    if "c = dget (gs_heads s) (sr_graphId x)" for c
    using that inv advance(2) unfolding graphs_inv_def head_update_def by (auto split: option.splits)
  then show ?thesis using inv unfolding graphs_inv_def advance(1) readStored_advanced revision_ok_def
    by (auto simp: advanceHead_def split: if_splits)
qed

lemma graph_steps_inv: "(graph_step d)\<^sup>*\<^sup>* s s' \<Longrightarrow> graphs_inv d s \<Longrightarrow> graphs_inv d s'"
  by (induction rule: rtranclp_induct) (auto dest: graph_step_inv)

lemma empty_graphs_inv: "graphs_inv d empty_graphs"
  by (simp add: graphs_inv_def empty_graphs_def readStored_def)

subsection \<open>The latest revision\<close>

lemma roll_forward_spec:
  "m \<le> roll_forward s g m \<and> readStored s g (Suc (roll_forward s g m)) = None \<and> (\<forall>r. m < r \<and> r \<le> roll_forward s g m \<longrightarrow> readStored s g r \<noteq> None)"
proof (induction s g m rule: roll_forward.induct)
  case (1 s g m)
  show ?case
  proof (cases "readStored s g (Suc m) \<noteq> None")
    case True
    have e: "roll_forward s g m = roll_forward s g (Suc m)" using True by (subst roll_forward.simps) simp
    note ih = 1 [OF True]
    have "readStored s g r \<noteq> None" if "m < r \<and> r \<le> roll_forward s g (Suc m)" for r
      using that ih True by (cases "r = Suc m") auto
    with ih show ?thesis unfolding e by auto
  next
    case False
    then have "roll_forward s g m = m" by (subst roll_forward.simps) simp
    with False show ?thesis by auto
  qed
qed

lemma stored_downward:
  assumes "graphs_inv d s" and "readStored s g r \<noteq> None" and "1 \<le> q" and "q \<le> r"
  shows "readStored s g q \<noteq> None"
  using assms(2,4)
proof (induction r)
  case (Suc r)
  from Suc.prems(1) assms(1) have "Suc r \<noteq> 1 \<longrightarrow> readStored s g r \<noteq> None" by (fastforce simp: graphs_inv_def revision_ok_def)
  with Suc assms(3) show ?case by (cases "q = Suc r") auto
qed (use assms(3) in simp)

lemma stored_iff_latest:
  assumes inv: "graphs_inv d s" shows "readStored s g r \<noteq> None \<longleftrightarrow> 1 \<le> r \<and> r \<le> latest_of s g"
proof -
  define m where "m = (case dget (gs_heads s) g of None \<Rightarrow> 0 | Some h \<Rightarrow> gh_latestRevision h)"
  have n: "latest_of s g = roll_forward s g m" by (simp add: latest_of_def latestRevisionOf_def m_def)
  have m: "m = 0 \<or> readStored s g m \<noteq> None" using inv unfolding graphs_inv_def m_def by (fastforce split: option.splits)
  note spec = roll_forward_spec [of m s g, folded n]
  show ?thesis
  proof
    assume r: "readStored s g r \<noteq> None"
    with inv have "1 \<le> r" by (fastforce simp: graphs_inv_def revision_ok_def)
    moreover have "r \<le> latest_of s g" using stored_downward [OF inv r, of "Suc (latest_of s g)"] spec by linarith
    ultimately show "1 \<le> r \<and> r \<le> latest_of s g" by simp
  next
    assume r: "1 \<le> r \<and> r \<le> latest_of s g"
    show "readStored s g r \<noteq> None"
    proof (cases "r \<le> m")
      case True
      with r m show ?thesis using stored_downward [OF inv, of g m r] by fastforce
    qed (use r spec in simp)
  qed
qed

text \<open>
  C11. Whatever writers do side by side and wherever one of them dies, the revisions of a graph are numbered
  from one without a gap up to the one that \<open>latestRevisionOf\<close> finds, also when the head record is behind;
  each names its predecessor as its parent and holds the canonical text of a valid graph with its digest.
\<close>
theorem revisions_form_a_linear_history:
  assumes "(graph_step d)\<^sup>*\<^sup>* empty_graphs s"
  shows "(\<forall>r. readStored s g r \<noteq> None \<longleftrightarrow> 1 \<le> r \<and> r \<le> latest_of s g) \<and>
     (\<forall>r x. readStored s g r = Some x \<longrightarrow> sr_graphId x = g \<and> sr_revision x = r \<and> sr_parentRevision x = (if r = 1 then None else Some (r - 1)) \<and>
        sr_digest x = gx_sha256Hex d (sr_canonicalDefinition x) \<and>
        (\<exists>definition'. vr_valid (validateGoalGraph (gx_localeCompare d) (graph_json definition')) \<and> canonical_text d definition' = Inr (sr_canonicalDefinition x)))"
proof -
  have inv: "graphs_inv d s" using graph_steps_inv [OF assms empty_graphs_inv] .
  have "revision_ok d s g r x" if "readStored s g r = Some x" for r x using inv that by (simp add: graphs_inv_def)
  with stored_iff_latest [OF inv] show ?thesis unfolding revision_ok_def validateGoalGraph_iff by blast
qed

text \<open>
  A revision never changes once it is written, and it has one writer: whoever later claims the same
  number of the same graph is refused with a conflict and leaves the store as it is.
\<close>
theorem revision_is_immutable:
  assumes "(graph_step d)\<^sup>*\<^sup>* s s'" and "readStored s g r = Some x"
  shows "readStored s' g r = Some x \<and>
     (\<forall>y. sr_graphId y = g \<and> sr_revision y = r \<longrightarrow> claimRevision y s' = (Inl (retryable_failure LEDGER_CONFLICT), s'))"
proof -
  have "readStored s' g r = Some x" by (rule steps_keep_revision [OF assms])
  then show ?thesis using claim_conflict by fastforce
qed

subsection \<open>The operations are such steps\<close>

lemma graph_text: "\<exists>ct. canonical_text d g = Inr ct"
proof -
  have "finite_json (graph_json g)"
    by (auto simp: graph_json_def constitution_json_def limits_json_def strs_def target_json_def node_json_def opt_field_def list_all_iff comp_def split: option.splits)
  moreover have "nesting (graph_json g) \<le> 10"
    by (auto simp: graph_json_def constitution_json_def limits_json_def strs_def target_json_def node_json_def opt_field_def less_Suc_eq_le numeral_eq_Suc split: option.splits)
  ultimately have "\<exists>s. canonicalJson num (graph_json g) = Inr s" for num by (simp add: canonicalJson_iff MAX_DEPTH_def)
  then show ?thesis unfolding canonical_text_def by (metis sum.simps(6))
qed

lemma toRecord_new:
  "toRecord d (new_revision d now g pid ct actor r p) (GOAL_STORE_KEYS (KGraphRevision g r)) =
     Inr \<lparr>gr_graphId = g, gr_projectId = pid, gr_revision = r, gr_definition = gx_parse d ct, gr_digest = gx_sha256Hex d ct, gr_createdAt = now,
       gr_createdBy = actor, gr_parentRevision = p\<rparr>"
  by (simp add: toRecord_def new_revision_def Let_def)

lemma writeRevision_cases:
  assumes w: "writeRevision d now g pid definition' actor r p s = (res, s')" and ct: "canonical_text d definition' = Inr ct"
  defines "x \<equiv> new_revision d now g pid ct actor r p"
  obtains (conflict) "readStored s g r \<noteq> None" "res = Inl (retryable_failure LEDGER_CONFLICT)" "s' = s"
  | (written) s1 where "readStored s g r = None" "claimRevision x s = (Inr (), s1)" "s' = advanceHead x (g_name definition') s1"
      "res = toRecord d x (GOAL_STORE_KEYS (KGraphRevision g r))" "readStored s' g r = Some x"
proof (cases "readStored s g r = None")
  case True
  then have "claimRevision x s = (Inr (), s\<lparr>gs_revisions := dput (g, r) x (gs_revisions s)\<rparr>)"
    by (simp add: claim_Inr x_def new_revision_def)
  with w ct True show thesis
    by (intro written) (auto simp: writeRevision_def Let_def x_def [symmetric], auto simp: readStored_def x_def new_revision_def)
next
  case False
  then have "claimRevision x s = (Inl (retryable_failure LEDGER_CONFLICT), s)" by (intro claim_conflict) (simp add: x_def new_revision_def)
  with w ct False show thesis by (intro conflict) (auto simp: writeRevision_def Let_def x_def [symmetric])
qed

lemma writeRevision_steps:
  assumes w: "writeRevision d now g pid definition' actor r p s = (res, s')" and wf: "well_formed_graph definition'"
    and p: "r = 1 \<and> p = None \<or> 2 \<le> r \<and> p = Some (r - 1) \<and> readStored s g (r - 1) \<noteq> None"
  shows "(graph_step d)\<^sup>*\<^sup>* s s'"
proof -
  obtain ct where ct: "canonical_text d definition' = Inr ct" using graph_text by blast
  from w ct show ?thesis
  proof (cases rule: writeRevision_cases)
    case (written s1)
    have "graph_step d s s1" by (rule graph_step.claim [OF ct wf p written(2)])
    moreover have "graph_step d s1 s'" using written(5) unfolding written(3)
      by (intro graph_step.advance) (simp add: new_revision_def)
    ultimately show ?thesis by simp
  qed simp
qed

definition parent_of :: "GraphRevision \<Rightarrow> GraphRevision option" where
  "parent_of n = (if n = 0 then None else Some n)"

lemma createRevision_Inr:
  assumes "createRevision d now g definition' actor parent s = (res, s')"
  shows "s' = s \<and> \<not> isOk res \<or>
    (\<exists>pid. writeRevision d now g pid definition' actor (Suc (latest_of s g)) (parent_of (latest_of s g)) s = (res, s') \<and> GRAPH_ID_PATTERN g \<and>
       well_formed_graph definition' \<and> 1 \<le> parent \<and> parent = latest_of s g)"
  using assms
  by (auto simp: createRevision_def bindE_Inr guardE_Inr assertValid_iff checkGraphId_def parent_of_def split: sum.splits option.splits)

text \<open>Writing the revision after the latest one\<close>

lemma next_revision:
  assumes inv: "graphs_inv d s" and wf: "well_formed_graph definition'"
    and w: "writeRevision d now g pid definition' actor (Suc (latest_of s g)) (parent_of (latest_of s g)) s = (res, s')"
  shows "(graph_step d)\<^sup>*\<^sup>* s s'"
    "canonical_text d definition' = Inr ct \<Longrightarrow> res = Inr rec \<Longrightarrow> latest_of s' g = Suc (latest_of s g) \<and>
       readStored s' g (Suc (latest_of s g)) = Some (new_revision d now g pid ct actor (Suc (latest_of s g)) (parent_of (latest_of s g))) \<and>
       toRecord d (new_revision d now g pid ct actor (Suc (latest_of s g)) (parent_of (latest_of s g))) (GOAL_STORE_KEYS (KGraphRevision g (Suc (latest_of s g)))) = Inr rec"
proof -
  let ?n = "latest_of s g"
  show steps: "(graph_step d)\<^sup>*\<^sup>* s s'"
    by (rule writeRevision_steps [OF w wf]) (use stored_iff_latest [OF inv] in \<open>auto simp: parent_of_def\<close>)
  assume ct: "canonical_text d definition' = Inr ct" and r: "res = Inr rec"
  let ?x = "new_revision d now g pid ct actor (Suc ?n) (parent_of ?n)"
  from w ct r obtain s1 where s1: "claimRevision ?x s = (Inr (), s1)" "s' = advanceHead ?x (g_name definition') s1"
    and rec: "toRecord d ?x (GOAL_STORE_KEYS (KGraphRevision g (Suc ?n))) = Inr rec" and st: "readStored s' g (Suc ?n) = Some ?x"
    by (cases rule: writeRevision_cases) auto
  have inv': "graphs_inv d s'" by (rule graph_steps_inv [OF steps inv])
  have "readStored s' g (Suc (Suc ?n)) = readStored s g (Suc (Suc ?n))" using readStored_claimed [OF s1(1)] by (simp add: s1(2) new_revision_def)
  then have "\<not> Suc (Suc ?n) \<le> latest_of s' g"
    using stored_iff_latest [OF inv', of g "Suc (Suc ?n)"] stored_iff_latest [OF inv, of g "Suc (Suc ?n)"] by simp
  moreover have "Suc ?n \<le> latest_of s' g" using stored_iff_latest [OF inv', of g "Suc ?n"] st by simp
  ultimately show "latest_of s' g = Suc ?n \<and> readStored s' g (Suc ?n) = Some ?x \<and> toRecord d ?x (GOAL_STORE_KEYS (KGraphRevision g (Suc ?n))) = Inr rec"
    using st rec by simp
qed

lemma getRevision_stored:
  "GRAPH_ID_PATTERN g \<Longrightarrow> 1 \<le> r \<Longrightarrow> int r \<le> MAX_SAFE \<Longrightarrow> readStored s g r = Some x \<Longrightarrow> toRecord d x (GOAL_STORE_KEYS (KGraphRevision g r)) = Inr rec \<Longrightarrow>
     getRevision d s g (Some r) = Inr (Some rec) \<and> (latest_of s g = r \<longrightarrow> getRevision d s g None = Inr (Some rec))"
  by (simp add: getRevision_def checkGraphId_def del: GOAL_STORE_KEYS.simps)

lemma importYaml_cases:
  assumes i: "importYaml d now pid yaml parsed actor s = (res, s')"
  obtains (nothing) "s' = s" "\<forall>x. res \<noteq> Inr (Some x)"
  | (same) definition' rec ct where "parsed = Some definition'" "s' = s" "res = Inr (Some (rec, False))" "0 < latest_of s (deriveGraphId pid (g_name definition'))"
      "getRevision d s (deriveGraphId pid (g_name definition')) (Some (latest_of s (deriveGraphId pid (g_name definition')))) = Inr (Some rec)"
      "canonical_text d definition' = Inr ct" "gr_digest rec = gx_sha256Hex d ct"
  | (written) definition' rr where "parsed = Some definition'" "res = map_sum id (\<lambda>rec. Some (rec, True)) rr"
      "writeRevision d now (deriveGraphId pid (g_name definition')) pid definition' actor (Suc (latest_of s (deriveGraphId pid (g_name definition'))))
         (parent_of (latest_of s (deriveGraphId pid (g_name definition')))) s = (rr, s')"
proof (cases "parsed = None \<or> trim yaml = [] \<or> \<not> PROJECT_ID_PATTERN pid \<or> checkActor actor \<noteq> Inr ()")
  case True
  with i have "s' = s \<and> (\<forall>x. res \<noteq> Inr (Some x))" by (auto simp: importYaml_def split: if_splits sum.splits option.splits)
  then have "s' = s" "\<forall>x. res \<noteq> Inr (Some x)" by simp_all
  then show thesis by (rule nothing)
next
  case False
  then obtain definition' where p: "parsed = Some definition'" by (cases parsed) auto
  obtain ct where ct: "canonical_text d definition' = Inr ct" using graph_text by blast
  let ?g = "deriveGraphId pid (g_name definition')"
  let ?n = "latest_of s ?g"
  have body: "importYaml d now pid yaml parsed actor s =
     (let written = (\<lambda>(r, s'). (map_sum id (\<lambda>rec. Some (rec, True)) r, s')) in
      if ?n > 0 then (case getRevision d s ?g (Some ?n) of Inl e \<Rightarrow> (Inl e, s)
        | Inr current \<Rightarrow> (case current of Some rec \<Rightarrow> if gr_digest rec = gx_sha256Hex d ct then (Inr (Some (rec, False)), s)
              else written (writeRevision d now ?g pid definition' actor (?n + 1) (Some ?n) s)
            | None \<Rightarrow> written (writeRevision d now ?g pid definition' actor (?n + 1) (Some ?n) s)))
      else written (writeRevision d now ?g pid definition' actor 1 None s))"
    using False p ct by (simp add: importYaml_def Let_def cong: sum.case_cong option.case_cong)
  obtain rr s2 where w: "writeRevision d now ?g pid definition' actor (Suc ?n) (parent_of ?n) s = (rr, s2)" by fastforce
  from i [unfolded body] consider "s' = s" "\<forall>x. res \<noteq> Inr (Some x)"
    | rec where "s' = s" "res = Inr (Some (rec, False))" "0 < ?n" "getRevision d s ?g (Some ?n) = Inr (Some rec)" "gr_digest rec = gx_sha256Hex d ct"
    | "(res, s') = (map_sum id (\<lambda>rec. Some (rec, True)) rr, s2)"
    using w by (auto simp: Let_def parent_of_def split: if_splits sum.splits option.splits)
  then show thesis
  proof cases
    case 1 then show ?thesis by (rule nothing)
  next
    case 2 then show ?thesis using same [OF p] ct by blast
  next
    case 3 then show ?thesis using written [OF p] w by simp
  qed
qed

lemma createRevision_steps:
  assumes "graphs_inv d s" and "createRevision d now g definition' actor parent s = (res, s')"
  shows "(graph_step d)\<^sup>*\<^sup>* s s'"
  using createRevision_Inr [OF assms(2)] next_revision(1) [OF assms(1)] by auto

lemma importYaml_steps:
  assumes "graphs_inv d s" and "importYaml d now pid yaml parsed actor s = (res, s')" and "\<forall>definition'. parsed = Some definition' \<longrightarrow> well_formed_graph definition'"
  shows "(graph_step d)\<^sup>*\<^sup>* s s'"
  using assms(2)
proof (cases rule: importYaml_cases)
  case (written definition' rr)
  with assms(3) show ?thesis by (intro next_revision(1) [OF assms(1) _ written(3)]) simp
qed simp_all

text \<open>
  C25. \<open>createRevision\<close> and \<open>importYaml\<close> do nothing to the store but the atomic updates above: each is a
  sequence of claims and advances whose preconditions hold, whatever the store holds.
\<close>
theorem graph_writers_refine_steps:
  assumes "(graph_step d)\<^sup>*\<^sup>* empty_graphs s" and "\<forall>definition'. parsed = Some definition' \<longrightarrow> well_formed_graph definition'"
  shows "(graph_step d)\<^sup>*\<^sup>* s (snd (createRevision d now g definition' actor parent s)) \<and>
     (graph_step d)\<^sup>*\<^sup>* s (snd (importYaml d now pid yaml parsed actor s))"
proof -
  have "graphs_inv d s" using graph_steps_inv [OF assms(1) empty_graphs_inv] .
  then show ?thesis using createRevision_steps importYaml_steps [OF _ _ assms(2)] by (metis prod.collapse)
qed

text \<open>
  C26. What is created is what is read: a successful \<open>createRevision\<close> makes the next revision after its parent,
  which was the latest one; from then on, whatever other writers do, reading that revision returns the
  record that was returned, with the definition that was passed in, and it is the latest one until another
  is written.
\<close>
theorem created_revision_is_read_back:
  assumes reach: "(graph_step d)\<^sup>*\<^sup>* empty_graphs s" and c: "createRevision d now g definition' actor parent s = (Inr rec, s')"
    and small: "int parent < MAX_SAFE" and parse: "\<forall>ct. canonical_text d definition' = Inr ct \<longrightarrow> gx_parse d ct = definition'"
    and later: "(graph_step d)\<^sup>*\<^sup>* s' s''"
  shows "parent = latest_of s g \<and> gr_revision rec = parent + 1 \<and> gr_definition rec = definition' \<and>
     getRevision d s' g None = Inr (Some rec) \<and> getRevision d s'' g (Some (parent + 1)) = Inr (Some rec)"
proof -
  from createRevision_Inr [OF c] obtain pid where w': "writeRevision d now g pid definition' actor (Suc (latest_of s g)) (parent_of (latest_of s g)) s = (Inr rec, s')"
    and g: "GRAPH_ID_PATTERN g" and wf: "well_formed_graph definition'" and p: "1 \<le> parent" "parent = latest_of s g" by (auto simp: isOk_iff)
  have inv: "graphs_inv d s" using graph_steps_inv [OF reach empty_graphs_inv] .
  obtain ct where ct: "canonical_text d definition' = Inr ct" using graph_text by blast
  from next_revision(2) [OF inv wf w' ct refl] obtain x where x: "latest_of s' g = Suc (latest_of s g)" "readStored s' g (Suc (latest_of s g)) = Some x"
    "x = new_revision d now g pid ct actor (Suc (latest_of s g)) (parent_of (latest_of s g))"
    "toRecord d x (GOAL_STORE_KEYS (KGraphRevision g (Suc (latest_of s g)))) = Inr rec" by blast
  have "readStored s'' g (Suc (latest_of s g)) = Some x" by (rule steps_keep_revision [OF later x(2)])
  with g small p x getRevision_stored have "getRevision d s' g None = Inr (Some rec)" "getRevision d s'' g (Some (Suc (latest_of s g))) = Inr (Some rec)" by force+
  moreover have "gr_revision rec = Suc (latest_of s g)" "gr_definition rec = definition'"
    using x(4) parse ct unfolding x(3) toRecord_new by auto
  ultimately show ?thesis using p by simp
qed

text \<open>
  Importing is idempotent: after an import that returned a record, importing the same definition into the
  same project again returns that record, reports that nothing was created, and leaves the store unchanged.
\<close>
theorem import_is_idempotent:
  assumes reach: "(graph_step d)\<^sup>*\<^sup>* empty_graphs s" and wf: "well_formed_graph definition'"
    and i: "importYaml d now pid yaml (Some definition') actor s = (Inr (Some (rec, created)), s')"
    and again: "trim yaml' \<noteq> []" "checkActor actor' = Inr ()" and small: "int (latest_of s' (deriveGraphId pid (g_name definition'))) \<le> MAX_SAFE"
  shows "importYaml d later pid yaml' (Some definition') actor' s' = (Inr (Some (rec, False)), s')"
proof -
  let ?g = "deriveGraphId pid (g_name definition')"
  obtain ct where ct: "canonical_text d definition' = Inr ct" using graph_text by blast
  have inv: "graphs_inv d s" using graph_steps_inv [OF reach empty_graphs_inv] .
  have pid: "PROJECT_ID_PATTERN pid" using i by (auto simp: importYaml_def split: if_splits)
  have got: "0 < latest_of s' ?g \<and> getRevision d s' ?g (Some (latest_of s' ?g)) = Inr (Some rec) \<and> gr_digest rec = gx_sha256Hex d ct"
    using i
  proof (cases rule: importYaml_cases)
    case (same w rec' ct')
    with ct show ?thesis by auto
  next
    case (written w rr)
    then have w: "writeRevision d now ?g pid definition' actor (Suc (latest_of s ?g)) (parent_of (latest_of s ?g)) s = (Inr rec, s')" by (cases rr) auto
    from next_revision(2) [OF inv wf w ct refl] small deriveGraphId_pattern getRevision_stored [of ?g "Suc (latest_of s ?g)" s']
    show ?thesis by (auto simp: toRecord_new simp del: GOAL_STORE_KEYS.simps)
  qed simp
  then show ?thesis using pid again ct by (simp add: importYaml_def Let_def)
qed

subsection \<open>Witnesses\<close>

definition sample_definition :: GoalGraphDefinition where
  "sample_definition = (gr_definition sample_graph)\<lparr>g_targets := [\<lparr>t_id = ''A'', t_stage = ''s'', t_title = ''t'', t_dependsOn = [], t_priority = 1,
     t_executor = ''VERIFY'', t_artifacts = [], t_acceptance = [''ok''], t_externalDependency = False, t_requiresApproval = False\<rparr>]\<rparr>"

definition sample_graph_deps :: GraphDeps where
  "sample_graph_deps = \<lparr>gx_number = (\<lambda>_. ''0''), gx_sha256Hex = (\<lambda>s. CHR ''x'' # s), gx_parse = (\<lambda>_. sample_definition\<lparr>g_purpose := Some ''again''\<rparr>), gx_localeCompare = compare_str\<rparr>"

definition sample_imported :: GraphStore where
  "sample_imported = snd (importYaml sample_graph_deps 1 ''p'' ''y'' (Some sample_definition) ''ann'' empty_graphs)"

lemma sample_valid: "well_formed_graph sample_definition" "well_formed_graph (sample_definition\<lparr>g_purpose := Some x\<rparr>)"
  by (simp_all add: well_formed_graph_def sample_definition_def sample_graph_def well_formed_limits_def sample_limits_def well_formed_nodes_def
      well_formed_target_def nonblank_def trim_def is_space_def safe_nat_def TARGET_ID_PATTERN_def Graph_Validation.id_char_def code_between_def dep_rel_def acyclic_def)

lemma sample_imported_steps: "(graph_step sample_graph_deps)\<^sup>*\<^sup>* empty_graphs sample_imported"
  unfolding sample_imported_def by (rule importYaml_steps [OF empty_graphs_inv]) (auto simp: sample_valid prod_eq_iff)

theorem revisions_form_a_linear_history_witness:
  "latest_of sample_imported ''p--demo'' = 1 \<and> readStored sample_imported ''p--demo'' 1 \<noteq> None \<and> readStored sample_imported ''p--demo'' 2 = None"
proof -
  have "latest_of sample_imported ''p--demo'' = 1" by code_simp
  moreover from this revisions_form_a_linear_history [OF sample_imported_steps, of "''p--demo''"]
  have "readStored sample_imported ''p--demo'' r \<noteq> None \<longleftrightarrow> 1 \<le> r \<and> r \<le> 1" for r by metis
  from this [of 1] this [of 2] have "readStored sample_imported ''p--demo'' 1 \<noteq> None" "readStored sample_imported ''p--demo'' 2 = None" by simp_all
  ultimately show ?thesis by blast
qed

theorem revision_is_immutable_witness:
  "\<exists>x. readStored sample_imported ''p--demo'' 1 = Some x \<and> claimRevision x sample_imported = (Inl (retryable_failure LEDGER_CONFLICT), sample_imported)"
proof -
  have "(case readStored sample_imported ''p--demo'' 1 of None \<Rightarrow> False | Some x \<Rightarrow> sr_graphId x = ''p--demo'' \<and> sr_revision x = 1)" by code_simp
  then obtain x where x: "readStored sample_imported ''p--demo'' 1 = Some x" "sr_graphId x = ''p--demo''" "sr_revision x = 1" by (auto split: option.splits)
  from revision_is_immutable [OF rtranclp.rtrancl_refl x(1)] x show ?thesis by blast
qed

theorem graph_writers_refine_steps_witness:
  "(graph_step sample_graph_deps)\<^sup>*\<^sup>* sample_imported (snd (createRevision sample_graph_deps 2 ''p--demo'' (sample_definition\<lparr>g_purpose := Some ''again''\<rparr>) ''ann'' 1 sample_imported))"
  using graph_writers_refine_steps [OF sample_imported_steps, of None] by simp

definition sample_changed :: "GoalGraphRevisionRecord result \<times> GraphStore" where
  "sample_changed = createRevision sample_graph_deps 2 ''p--demo'' (sample_definition\<lparr>g_purpose := Some ''again''\<rparr>) ''ann'' 1 sample_imported"

theorem created_revision_is_read_back_witness:
  "\<exists>rec s'. sample_changed = (Inr rec, s') \<and> gr_revision rec = 2 \<and> g_purpose (gr_definition rec) = Some ''again'' \<and> getRevision sample_graph_deps s' ''p--demo'' None = Inr (Some rec)"
proof -
  have "isOk (fst sample_changed)" by code_simp
  then obtain rec where rec: "fst sample_changed = Inr rec" by (auto simp: isOk_iff)
  obtain s' where c: "createRevision sample_graph_deps 2 ''p--demo'' (sample_definition\<lparr>g_purpose := Some ''again''\<rparr>) ''ann'' 1 sample_imported = (Inr rec, s')"
    using rec unfolding sample_changed_def by (metis prod.collapse)
  have "int 1 < MAX_SAFE" "\<forall>ct. canonical_text sample_graph_deps (sample_definition\<lparr>g_purpose := Some ''again''\<rparr>) = Inr ct \<longrightarrow>
      gx_parse sample_graph_deps ct = sample_definition\<lparr>g_purpose := Some ''again''\<rparr>"
    by (simp_all add: MAX_SAFE_def sample_graph_deps_def)
  from created_revision_is_read_back [OF sample_imported_steps c this rtranclp.rtrancl_refl] c show ?thesis by (auto simp: sample_changed_def)
qed

theorem import_is_idempotent_witness:
  "\<exists>rec. importYaml sample_graph_deps 5 ''p'' ''y'' (Some sample_definition) ''bob'' sample_imported = (Inr (Some (rec, False)), sample_imported)"
proof -
  have "(case fst (importYaml sample_graph_deps 1 ''p'' ''y'' (Some sample_definition) ''ann'' empty_graphs) of Inr (Some x) \<Rightarrow> True | _ \<Rightarrow> False)" by code_simp
  then obtain rec created where "fst (importYaml sample_graph_deps 1 ''p'' ''y'' (Some sample_definition) ''ann'' empty_graphs) = Inr (Some (rec, created))"
    by (auto split: sum.splits option.splits)
  then have i: "importYaml sample_graph_deps 1 ''p'' ''y'' (Some sample_definition) ''ann'' empty_graphs = (Inr (Some (rec, created)), sample_imported)"
    by (simp add: sample_imported_def prod_eq_iff)
  have "trim ''y'' \<noteq> []" "checkActor ''bob'' = Inr ()" "int (latest_of sample_imported (deriveGraphId ''p'' (g_name sample_definition))) \<le> MAX_SAFE" by code_simp+
  from import_is_idempotent [OF rtranclp.rtrancl_refl sample_valid(1) i this] show ?thesis by blast
qed

text \<open>Different projects, and different names of one project, may share a graph id and so a history.\<close>

lemma derived_ids_collide:
  "PROJECT_ID_PATTERN ''Team.A'' \<and> PROJECT_ID_PATTERN ''team-a'' \<and> deriveGraphId ''Team.A'' ''demo'' = deriveGraphId ''team-a'' ''Demo!''"
  by code_simp

end
