(* ===== verification/Capabilities.thy ===== *)
theory Capabilities
  imports Prelude
begin

text \<open>
  What the router knows of models and where they run, and what a task may require of them:
  \<open>routing/types.ts\<close>, \<open>routing/capabilities.ts\<close> and \<open>routing/hosting.ts\<close> of \<open>src/packages/goals/src\<close>. Of the
  records of \<open>packages/core\<close> only the fields that routing reads are kept.
\<close>

subsection \<open>Models, instances, runtimes and computers\<close>

datatype ModelLifecycleState = Discovered | Installed | Loading | Loaded | Ready | Draining | Unloaded | Unloading | FailedState | Unavailable

datatype Health = Healthy | Degraded | HealthUnavailable

record ModelPerformanceProfile =
  pf_samples :: nat
  pf_verifiedSuccessRate :: rat

record ModelRecord =
  mo_id :: string
  mo_family :: string
  mo_contextMax :: rat
  mo_configuredContext :: "rat option"
  mo_capabilities :: "string list"
  mo_toolCalling :: bool
  mo_structuredOutput :: bool
  mo_vision :: bool
  mo_audio :: bool
  mo_embedding :: bool
  mo_reasoning :: bool
  mo_minSystemGB :: "rat option"
  mo_runtimeCompatibility :: "string list option"
  mo_local :: bool
  mo_performance :: "(string, ModelPerformanceProfile) dict"

text \<open>The runtime compatibility \<open>'any'\<close> is \<open>None\<close>.\<close>

record ModelInstance =
  mi_id :: string
  mi_computerId :: "string option"
  mi_runtimeId :: string
  mi_loaded :: bool
  mi_state :: "ModelLifecycleState option"
  mi_health :: Health
  mi_contextTokens :: "rat option"

record RuntimeRecord =
  rt_id :: string
  rt_type :: string
  rt_hosted :: bool
  rt_health :: Health

record ComputerRecord =
  cp_id :: string
  cp_online :: bool
  cp_health :: Health
  cp_local :: bool
  cp_cpuPercent :: "rat option"

datatype CheckVerdict = Verified' | Failed' | Untested'

datatype ReadinessSource = FromProbe | FromExecution | FromExternal

record ReadinessRecord =
  rr_modelId :: string
  rr_instanceId :: string
  rr_ready :: bool
  rr_checkedAt :: timestamp
  rr_latencyMs :: "rat option"
  rr_source :: ReadinessSource
  rr_generation :: CheckVerdict
  rr_toolUse :: CheckVerdict

subsection \<open>Hosted or local\<close>

definition HOSTED_RUNTIME_TYPES :: "string list" where
  "HOSTED_RUNTIME_TYPES = [''anthropic'', ''openai'', ''google'', ''nvidia'']"

definition HOSTED_ADAPTER_TYPES :: "string list" where
  "HOSTED_ADAPTER_TYPES = HOSTED_RUNTIME_TYPES @ [''anthropic'', ''openai'', ''google'', ''nvidia'']"

definition isHostedInstance :: "ModelInstance \<Rightarrow> RuntimeRecord option \<Rightarrow> ModelRecord option \<Rightarrow> bool" where
  "isHostedInstance inst runtime record' \<longleftrightarrow>
     (case mi_computerId inst of None \<Rightarrow> True | Some c \<Rightarrow> c = []) \<or>
     (case runtime of Some r \<Rightarrow> rt_hosted r \<or> rt_type r \<in> set HOSTED_RUNTIME_TYPES
      | None \<Rightarrow> toLowerCase (mi_runtimeId inst) \<in> set HOSTED_ADAPTER_TYPES) \<or>
     (case record' of None \<Rightarrow> False
      | Some m \<Rightarrow> \<not> mo_local m \<or>
          (case mo_runtimeCompatibility m of None \<Rightarrow> False | Some ts \<Rightarrow> ts \<noteq> [] \<and> (\<forall>t \<in> set ts. t \<in> set HOSTED_RUNTIME_TYPES)))"

definition isHostedAdapter :: "string option option \<Rightarrow> bool" where
  "isHostedAdapter adapter_type =
     (case adapter_type of Some (Some t) \<Rightarrow> t \<noteq> [] \<and> toLowerCase t \<in> set HOSTED_ADAPTER_TYPES | _ \<Rightarrow> False)"

subsection \<open>Capability requirements\<close>

text \<open>
  The aliases are looked up in an object literal, which inherits from \<open>Object.prototype\<close>: the names \<open>constructor\<close>
  and \<open>__proto__\<close> have a value there too, and it is taken for a flag.
\<close>

datatype CapabilityFlag = Vision | StructuredOutput | Reasoning | Embedding | Audio | PrototypeMember string

record CapabilityRequirements =
  cr_toolCalling :: bool
  cr_flags :: "CapabilityFlag list"
  cr_minContextTokens :: rat
  cr_localOnly :: bool
  cr_declared :: "string list"
  cr_invalid :: "string list"

definition TOOL_ALIASES :: "string list" where
  "TOOL_ALIASES = [''toolcalling'', ''tools'', ''tool-use'', ''tool_use'', ''tooluse'', ''function-calling'', ''functioncalling'', ''tool-calling'']"

definition FLAG_ALIASES :: "(string \<times> CapabilityFlag) list" where
  "FLAG_ALIASES = [(''vision'', Vision), (''structuredoutput'', StructuredOutput), (''structured-output'', StructuredOutput), (''json'', StructuredOutput),
     (''reasoning'', Reasoning), (''embedding'', Embedding), (''embeddings'', Embedding), (''audio'', Audio)]"

definition flag_alias :: "string \<Rightarrow> CapabilityFlag option" where
  "flag_alias lower = (case map_of FLAG_ALIASES lower of Some f \<Rightarrow> Some f
     | None \<Rightarrow> if lower = ''constructor'' \<or> lower = ''__proto__'' then Some (PrototypeMember lower) else None)"

definition DECLARED_SYNONYMS :: "(string \<times> string list) list" where
  "DECLARED_SYNONYMS = [(''text-generation'', [''generalchat'', ''text-generation'']), (''code-generation'', [''coding'', ''code-generation'']),
     (''formal-verification'', [''reasoning'', ''formal-verification''])]"

definition strip_prefix :: "string \<Rightarrow> string \<Rightarrow> string option" where
  "strip_prefix p s = (if startsWith s p then Some (drop (length p) s) else None)"

fun first_some :: "('a \<Rightarrow> 'b option) \<Rightarrow> 'a list \<Rightarrow> 'b option" where
  "first_some f [] = None"
| "first_some f (x # xs) = (case f x of Some y \<Rightarrow> Some y | None \<Rightarrow> first_some f xs)"

text \<open>
  \<open>/^(?:context|mincontext|min-context|context-tokens)\s*(?::|>=|=)\s*(.+)$/\<close> on text without blanks at the end:
  what follows the operator
\<close>

definition context_value :: "string \<Rightarrow> string option" where
  "context_value s =
     (case first_some (\<lambda>p. case strip_prefix p s of None \<Rightarrow> None | Some r \<Rightarrow> first_some (\<lambda>op'. strip_prefix op' (dropWhile is_space r)) ['':'', ''>='', ''=''])
        [''context'', ''mincontext'', ''min-context'', ''context-tokens''] of
        None \<Rightarrow> None
      | Some r \<Rightarrow> (let v = dropWhile is_space r in if v = [] \<or> (\<exists>ch \<in> set v. of_char ch = (10::nat) \<or> of_char ch = (13::nat)) then None else Some v))"

text \<open>\<open>/^(\d+(?:\.\d+)?)\s*(k|m)?$/\<close>, and the number it stands for\<close>

definition decimal :: "string \<Rightarrow> (rat \<times> string) option" where
  "decimal s =
     (let ds = takeWhile is_digit s; r = dropWhile is_digit s in
      if ds = [] then None
      else case r of
        c # r' \<Rightarrow>
          (let fs = takeWhile is_digit r' in
           if c = CHR ''.'' \<and> fs \<noteq> [] then Some (of_nat (read_nat (ds @ fs)) / 10 ^ length fs, dropWhile is_digit r')
           else Some (of_nat (read_nat ds), r))
      | [] \<Rightarrow> Some (of_nat (read_nat ds), r))"

definition round_rat :: "rat \<Rightarrow> rat" where
  "round_rat q = of_int \<lfloor>q + 1 / 2\<rfloor>"

definition parseTokens :: "string \<Rightarrow> rat option" where
  "parseTokens value =
     (case decimal (toLowerCase (trim value)) of
        None \<Rightarrow> None
      | Some (q, r) \<Rightarrow>
          (let unit' = dropWhile is_space r;
               n = (if unit' = ''k'' then Some (q * 1024) else if unit' = ''m'' then Some (q * (1024 * 1024)) else if unit' = [] then Some q else None)
           in case n of None \<Rightarrow> None | Some n \<Rightarrow> if n > 0 then Some (round_rat n) else None))"

definition parse_capability :: "string \<Rightarrow> CapabilityRequirements \<Rightarrow> CapabilityRequirements" where
  "parse_capability entry out =
     (let cap = trim entry; lower = toLowerCase cap in
      if cap = [] then out
      else case context_value lower of
        Some v \<Rightarrow> (case parseTokens v of None \<Rightarrow> out\<lparr>cr_invalid := cr_invalid out @ [cap]\<rparr>
          | Some tokens \<Rightarrow> out\<lparr>cr_minContextTokens := max (cr_minContextTokens out) tokens\<rparr>)
      | None \<Rightarrow>
          if lower \<in> set TOOL_ALIASES then out\<lparr>cr_toolCalling := True\<rparr>
          else case flag_alias lower of
            Some f \<Rightarrow> if f \<in> set (cr_flags out) then out else out\<lparr>cr_flags := cr_flags out @ [f]\<rparr>
          | None \<Rightarrow>
              if lower = ''local'' \<or> lower = ''local-only'' then out\<lparr>cr_localOnly := True\<rparr>
              else if cap \<in> set (cr_declared out) then out else out\<lparr>cr_declared := cr_declared out @ [cap]\<rparr>)"

definition parseCapabilities :: "string list \<Rightarrow> CapabilityRequirements" where
  "parseCapabilities required = fold parse_capability required
     \<lparr>cr_toolCalling = False, cr_flags = [], cr_minContextTokens = 0, cr_localOnly = False, cr_declared = [], cr_invalid = []\<rparr>"

definition effectiveContextTokens :: "ModelRecord \<Rightarrow> rat" where
  "effectiveContextTokens m = (case mo_configuredContext m of Some n \<Rightarrow> n | None \<Rightarrow> mo_contextMax m)"

definition instanceContextTokens :: "ModelRecord \<Rightarrow> ModelInstance \<Rightarrow> rat" where
  "instanceContextTokens m i = (case mi_contextTokens i of Some n \<Rightarrow> n | None \<Rightarrow> effectiveContextTokens m)"

definition flag_supported :: "ModelRecord \<Rightarrow> CapabilityFlag \<Rightarrow> bool" where
  "flag_supported m f =
     (case f of Vision \<Rightarrow> mo_vision m
      | StructuredOutput \<Rightarrow> mo_structuredOutput m \<or> ''structuredOutput'' \<in> set (mo_capabilities m)
      | Reasoning \<Rightarrow> mo_reasoning m \<or> ''reasoning'' \<in> set (mo_capabilities m)
      | Embedding \<Rightarrow> mo_embedding m
      | _ \<Rightarrow> mo_audio m)"

definition declared_present :: "ModelRecord \<Rightarrow> string \<Rightarrow> bool" where
  "declared_present m cap =
     (let lowerCap = toLowerCase cap;
          synonyms = (case map_of DECLARED_SYNONYMS lowerCap of Some ss \<Rightarrow> ss | None \<Rightarrow> [lowerCap])
      in (\<exists>c \<in> set (mo_capabilities m). toLowerCase c \<in> set synonyms) \<or>
         lowerCap = ''text-generation'' \<and> mo_capabilities m \<noteq> [] \<or>
         lowerCap = ''formal-verification'' \<and> mo_reasoning m)"

datatype CapabilityFailure =
  InvalidRequirement "string list" | ToolsUndeclared | ToolsUnverified | FlagUnsupported CapabilityFlag | ContextTooSmall | CapabilityMissing string

text \<open>The first requirement that is not met\<close>

definition checkCapabilities :: "CapabilityRequirements \<Rightarrow> ModelRecord \<Rightarrow> ModelInstance \<Rightarrow> ReadinessRecord option \<Rightarrow> CapabilityFailure option" where
  "checkCapabilities req m i readiness =
     (if cr_invalid req \<noteq> [] then Some (InvalidRequirement (cr_invalid req))
      else if cr_toolCalling req \<and> \<not> mo_toolCalling m then Some ToolsUndeclared
      else if cr_toolCalling req \<and> map_option rr_toolUse readiness \<noteq> Some Verified' then Some ToolsUnverified
      else case find (\<lambda>f. \<not> flag_supported m f) (cr_flags req) of
        Some f \<Rightarrow> Some (FlagUnsupported f)
      | None \<Rightarrow>
          if cr_minContextTokens req > 0 \<and> instanceContextTokens m i < cr_minContextTokens req then Some ContextTooSmall
          else map_option CapabilityMissing (find (\<lambda>c. \<not> declared_present m c) (cr_declared req)))"

subsection \<open>What the check establishes\<close>

lemma checkCapabilities_None:
  "checkCapabilities req m i readiness = None \<longleftrightarrow>
     cr_invalid req = [] \<and> (cr_toolCalling req \<longrightarrow> mo_toolCalling m \<and> map_option rr_toolUse readiness = Some Verified') \<and>
     (\<forall>f \<in> set (cr_flags req). flag_supported m f) \<and> (0 < cr_minContextTokens req \<longrightarrow> cr_minContextTokens req \<le> instanceContextTokens m i) \<and>
     (\<forall>c \<in> set (cr_declared req). declared_present m c)"
  by (auto simp: checkCapabilities_def find_None_iff find_Some_iff not_le split: option.splits)

text \<open>What a single required capability asks of a model: the meaning of the entry on its own\<close>

definition entry_met :: "ModelRecord \<Rightarrow> ModelInstance \<Rightarrow> ReadinessRecord option \<Rightarrow> bool \<Rightarrow> string \<Rightarrow> bool" where
  "entry_met m i readiness is_local entry \<longleftrightarrow>
     (let cap = trim entry; lower = toLowerCase cap in cap = [] \<or>
      (case context_value lower of
         Some v \<Rightarrow> (case parseTokens v of None \<Rightarrow> False | Some n \<Rightarrow> 0 < n \<longrightarrow> n \<le> instanceContextTokens m i)
       | None \<Rightarrow>
           if lower \<in> set TOOL_ALIASES then mo_toolCalling m \<and> map_option rr_toolUse readiness = Some Verified'
           else case flag_alias lower of Some f \<Rightarrow> flag_supported m f
           | None \<Rightarrow> if lower = ''local'' \<or> lower = ''local-only'' then is_local else declared_present m cap))"

definition met :: "CapabilityRequirements \<Rightarrow> ModelRecord \<Rightarrow> ModelInstance \<Rightarrow> ReadinessRecord option \<Rightarrow> bool \<Rightarrow> bool" where
  "met req m i readiness is_local \<longleftrightarrow> checkCapabilities req m i readiness = None \<and> (cr_localOnly req \<longrightarrow> is_local)"

lemma met_parse_capability:
  "met (parse_capability entry req) m i readiness is_local \<longleftrightarrow> met req m i readiness is_local \<and> entry_met m i readiness is_local entry"
proof -
  define cap where "cap = trim entry"
  define lower where "lower = toLowerCase cap"
  have mx: "(0 < max a n \<longrightarrow> max a n \<le> x) \<longleftrightarrow> (0 < a \<longrightarrow> a \<le> x) \<and> (0 < n \<longrightarrow> n \<le> x)" for a n x :: rat by (auto simp: max_def)
  note defs = parse_capability_def entry_met_def met_def checkCapabilities_None Let_def cap_def [symmetric] lower_def [symmetric]
  consider (blank) "cap = []" | (context') v where "cap \<noteq> []" "context_value lower = Some v"
    | (tools) "cap \<noteq> []" "context_value lower = None" "lower \<in> set TOOL_ALIASES"
    | (flag) f where "cap \<noteq> []" "context_value lower = None" "lower \<notin> set TOOL_ALIASES" "flag_alias lower = Some f"
    | (local) "cap \<noteq> []" "context_value lower = None" "lower \<notin> set TOOL_ALIASES" "flag_alias lower = None" "lower = ''local'' \<or> lower = ''local-only''"
    | (declared) "cap \<noteq> []" "context_value lower = None" "lower \<notin> set TOOL_ALIASES" "flag_alias lower = None" "\<not> (lower = ''local'' \<or> lower = ''local-only'')"
    by (cases "context_value lower"; cases "flag_alias lower") blast+
  then show ?thesis
  proof cases
    case (context' v)
    then show ?thesis by (cases "parseTokens v") (auto simp: defs mx)
  next
    case (flag f)
    then show ?thesis by (auto simp: defs)
  next
    case local
    then have "parse_capability entry req = req\<lparr>cr_localOnly := True\<rparr>" "entry_met m i readiness is_local entry = is_local"
      by (simp_all only: parse_capability_def entry_met_def Let_def cap_def [symmetric] lower_def [symmetric] option.simps if_False if_True simp_thms)
    then show ?thesis by (auto simp: met_def checkCapabilities_None)
  next
    case declared
    then have "parse_capability entry req = (if cap \<in> set (cr_declared req) then req else req\<lparr>cr_declared := cr_declared req @ [cap]\<rparr>)"
      "entry_met m i readiness is_local entry = declared_present m cap"
      by (simp_all only: parse_capability_def entry_met_def Let_def cap_def [symmetric] lower_def [symmetric] option.simps if_False if_True simp_thms)
    then show ?thesis by (auto simp: met_def checkCapabilities_None)
  qed (auto simp: defs)
qed

lemma capabilities_exact:
  "checkCapabilities (parseCapabilities required) m i readiness = None \<and> (cr_localOnly (parseCapabilities required) \<longrightarrow> is_local) \<longleftrightarrow>
     (\<forall>entry \<in> set required. entry_met m i readiness is_local entry)"
proof -
  have "met (fold parse_capability required req) m i readiness is_local \<longleftrightarrow>
      met req m i readiness is_local \<and> (\<forall>entry \<in> set required. entry_met m i readiness is_local entry)" for req
    by (induction required arbitrary: req) (auto simp: met_parse_capability)
  moreover have "met \<lparr>cr_toolCalling = False, cr_flags = [], cr_minContextTokens = 0, cr_localOnly = False, cr_declared = [], cr_invalid = []\<rparr> m i readiness is_local"
    by (simp add: met_def checkCapabilities_None)
  ultimately show ?thesis unfolding parseCapabilities_def met_def by blast
qed

text \<open>
  C31. The requirements of a task are checked exactly: an instance passes the combined check if and only if every
  single entry of the list is met on its own, whatever the order, the repetitions and the mixture of
  entries; an entry that cannot be read is never met, and tool calling is met only when a probe verified it.
\<close>
theorem capabilities_checked_entry_by_entry:
  "checkCapabilities (parseCapabilities required) m i readiness = None \<and> (cr_localOnly (parseCapabilities required) \<longrightarrow> is_local) \<longleftrightarrow>
     (\<forall>entry \<in> set required. entry_met m i readiness is_local entry)"
  by (rule capabilities_exact)

definition sample_model :: ModelRecord where
  "sample_model = \<lparr>mo_id = ''m'', mo_family = ''qwen'', mo_contextMax = 32768, mo_configuredContext = None, mo_capabilities = [''coding''], mo_toolCalling = True,
     mo_structuredOutput = False, mo_vision = False, mo_audio = False, mo_embedding = False, mo_reasoning = False, mo_minSystemGB = None,
     mo_runtimeCompatibility = None, mo_local = True, mo_performance = []\<rparr>"

definition sample_instance :: ModelInstance where
  "sample_instance = \<lparr>mi_id = ''m@ollama'', mi_computerId = Some ''local'', mi_runtimeId = ''ollama'', mi_loaded = True, mi_state = Some Ready,
     mi_health = Healthy, mi_contextTokens = None\<rparr>"

definition sample_readiness :: ReadinessRecord where
  "sample_readiness = \<lparr>rr_modelId = ''m'', rr_instanceId = ''m@ollama'', rr_ready = True, rr_checkedAt = 0, rr_latencyMs = Some 100, rr_source = FromProbe,
     rr_generation = Verified', rr_toolUse = Verified'\<rparr>"

theorem capabilities_checked_entry_by_entry_witness:
  "list_all (entry_met sample_model sample_instance (Some sample_readiness) True) [''tools'', '' Context: 32k'', ''coding'', ''local''] \<and>
   \<not> entry_met sample_model sample_instance (Some sample_readiness) True ''context>=33k''"
proof
  have "checkCapabilities (parseCapabilities [''tools'', '' Context: 32k'', ''coding'', ''local'']) sample_model sample_instance (Some sample_readiness) = None" by code_simp
  with capabilities_checked_entry_by_entry [of "[''tools'', '' Context: 32k'', ''coding'', ''local'']" sample_model sample_instance "Some sample_readiness" True]
  show "list_all (entry_met sample_model sample_instance (Some sample_readiness) True) [''tools'', '' Context: 32k'', ''coding'', ''local'']" unfolding list_all_iff by blast
  show "\<not> entry_met sample_model sample_instance (Some sample_readiness) True ''context>=33k''" by code_simp
qed

text \<open>An entry named like a member of \<open>Object.prototype\<close> asks for audio, not for a declared capability.\<close>

lemma prototype_name_asks_for_audio:
  "entry_met m i readiness is_local ''constructor'' \<longleftrightarrow> mo_audio m"
proof -
  have "toLowerCase (trim ''constructor'') = ''constructor''" "trim ''constructor'' \<noteq> []" "context_value ''constructor'' = None"
    "''constructor'' \<notin> set TOOL_ALIASES" "flag_alias ''constructor'' = Some (PrototypeMember ''constructor'')" by code_simp+
  then show ?thesis by (simp add: entry_met_def Let_def flag_supported_def)
qed

end
