(* ===== verification/Readiness.thy ===== *)
theory Readiness
  imports Capabilities
begin

text \<open>
  Readiness evidence: \<open>src/packages/goals/src/routing/readinessProbe.ts\<close>. A model instance counts as ready after a
  real generation or a routed execution, and only for a while. The stream of a generation is an argument;
  the texts of reasons and errors and the sharing of a probe in flight are left out.

  The lemmas show that hosted instances are never contacted, what a probe certifies, and that evidence is
  neither replaced by older evidence nor revived after it was invalidated.
\<close>

subsection \<open>The records\<close>

type_synonym readiness = "(string \<times> string, ReadinessRecord) dict"

definition isFresh :: "int \<Rightarrow> timestamp \<Rightarrow> ReadinessRecord \<Rightarrow> bool" where
  "isFresh ttlMs now r \<longleftrightarrow> rr_ready r \<and> 0 \<le> now - rr_checkedAt r \<and> now - rr_checkedAt r \<le> ttlMs"

definition readinessOf :: "readiness \<Rightarrow> string \<Rightarrow> string \<Rightarrow> ReadinessRecord option" where
  "readinessOf rs modelId instanceId = dget rs (modelId, instanceId)"

text \<open>\<open>status\<close> of a model without an instance: its freshest record\<close>

definition freshest :: "int \<Rightarrow> timestamp \<Rightarrow> (string \<Rightarrow> string \<Rightarrow> rat) \<Rightarrow> readiness \<Rightarrow> string \<Rightarrow> ReadinessRecord option" where
  "freshest ttlMs now localeCompare rs modelId =
     (case sort_by (\<lambda>a b.
        let c1 = of_bool (isFresh ttlMs now b) - of_bool (isFresh ttlMs now a); c2 = rat_of_int (rr_checkedAt b - rr_checkedAt a)
        in if c1 \<noteq> 0 then c1 else if c2 \<noteq> 0 then c2 else localeCompare (rr_instanceId a) (rr_instanceId b))
        (filter (\<lambda>r. rr_modelId r = modelId) (map snd rs)) of [] \<Rightarrow> None | r # _ \<Rightarrow> Some r)"

definition record_readiness :: "ReadinessRecord \<Rightarrow> readiness \<Rightarrow> readiness" where
  "record_readiness r rs =
     (case readinessOf rs (rr_modelId r) (rr_instanceId r) of
        Some old \<Rightarrow> if rr_checkedAt old > rr_checkedAt r then rs else dput (rr_modelId r, rr_instanceId r) r rs
      | None \<Rightarrow> dput (rr_modelId r, rr_instanceId r) r rs)"

definition invalidated :: "timestamp \<Rightarrow> ReadinessRecord \<Rightarrow> ReadinessRecord" where
  "invalidated now r = r\<lparr>rr_ready := False, rr_checkedAt := now, rr_latencyMs := None\<rparr>"

definition invalidate :: "timestamp \<Rightarrow> string \<Rightarrow> string option \<Rightarrow> readiness \<Rightarrow> readiness" where
  "invalidate now modelId instanceId rs =
     map (\<lambda>(k, r). (k, if rr_modelId r \<noteq> modelId \<or> (case instanceId of None \<Rightarrow> False | Some i \<Rightarrow> i \<noteq> [] \<and> rr_instanceId r \<noteq> i) then r else invalidated now r)) rs"

subsection \<open>Probing\<close>

definition UNPROBEABLE_STATES :: "ModelLifecycleState list" where
  "UNPROBEABLE_STATES = [Draining, Unloading, Unavailable, Loading]"

definition unprobeable :: "ModelInstance \<Rightarrow> bool" where
  "unprobeable i = (case mi_state i of Some st \<Rightarrow> st \<in> set UNPROBEABLE_STATES | None \<Rightarrow> False)"

definition rank :: "ModelInstance \<Rightarrow> rat" where
  "rank i = (if mi_loaded i \<and> mi_state i = Some Ready then 0 else if mi_loaded i then 1 else 2)"

record ProbeDeps =
  pd_model :: "string \<Rightarrow> ModelRecord option"
  pd_instancesOf :: "string \<Rightarrow> ModelInstance list"
  pd_runtimeOf :: "string \<Rightarrow> RuntimeRecord option"
  pd_adapterType :: "string \<Rightarrow> string option option"
  pd_localeCompare :: "string \<Rightarrow> string \<Rightarrow> rat"
  pd_ttlMs :: int

definition selectInstance :: "ProbeDeps \<Rightarrow> string \<Rightarrow> ModelInstance option" where
  "selectInstance d modelId =
     (case sort_by (\<lambda>a b. if rank a - rank b \<noteq> 0 then rank a - rank b else pd_localeCompare d (mi_id a) (mi_id b))
        (filter (\<lambda>i. \<not> isHostedInstance i (pd_runtimeOf d (mi_runtimeId i)) (pd_model d modelId) \<and> \<not> unprobeable i \<and> mi_health i \<noteq> HealthUnavailable)
          (pd_instancesOf d modelId)) of [] \<Rightarrow> None | i # _ \<Rightarrow> Some i)"

definition base_record :: "timestamp \<Rightarrow> string \<Rightarrow> string \<Rightarrow> ReadinessRecord" where
  "base_record now modelId instanceId = \<lparr>rr_modelId = modelId, rr_instanceId = instanceId, rr_ready = False, rr_checkedAt = now, rr_latencyMs = None,
     rr_source = FromProbe, rr_generation = Untested', rr_toolUse = Untested'\<rparr>"

text \<open>What \<open>probe\<close> does: answer at once, or contact the runtime, with or without the tool probe\<close>

datatype ProbeStep = Answer ReadinessRecord | Contact ModelInstance bool

definition probe :: "ProbeDeps \<Rightarrow> timestamp \<Rightarrow> readiness \<Rightarrow> string \<Rightarrow> string option \<Rightarrow> bool \<Rightarrow> bool option \<Rightarrow> ProbeStep" where
  "probe d now rs modelId instanceId force tools =
     (let named = (case instanceId of None \<Rightarrow> ''(none)'' | Some i \<Rightarrow> i);
          inst = (case instanceId of Some i \<Rightarrow> if i = [] then selectInstance d modelId else find (\<lambda>x. mi_id x = i) (pd_instancesOf d modelId)
            | None \<Rightarrow> selectInstance d modelId)
      in case pd_model d modelId of None \<Rightarrow> Answer (base_record now modelId named)
      | Some m \<Rightarrow>
        (case inst of None \<Rightarrow> Answer (base_record now modelId named)
         | Some i \<Rightarrow>
            (let runtime = pd_runtimeOf d (mi_runtimeId i); adapter = pd_adapterType d (mi_runtimeId i);
                 wantTools = (case tools of Some t \<Rightarrow> t | None \<Rightarrow> mo_toolCalling m) in
             if isHostedInstance i runtime (Some m) \<or> isHostedAdapter adapter \<or> (case runtime of Some r \<Rightarrow> rt_hosted r | None \<Rightarrow> False)
             then Answer (base_record now modelId (mi_id i))
             else if unprobeable i then Answer (base_record now modelId (mi_id i))
             else if adapter = None then Answer (base_record now modelId (mi_id i))
             else case readinessOf rs modelId (mi_id i) of
               Some cached \<Rightarrow> if \<not> force \<and> isFresh (pd_ttlMs d) now cached \<and> (\<not> wantTools \<or> rr_toolUse cached \<noteq> Untested')
                 then Answer cached else Contact i (wantTools \<and> mo_toolCalling m)
             | None \<Rightarrow> Contact i (wantTools \<and> mo_toolCalling m))))"

text \<open>The events of a generation, and what \<open>collect\<close> makes of them\<close>

datatype GenerationEvent = Token string | ReasoningText string | ToolCall string | ErrorEvent | CompletedEvent string

record Collected =
  cl_text :: string
  cl_completed :: bool
  cl_toolCalled :: bool
  cl_error :: bool

definition TOOL_NAME :: string where "TOOL_NAME = ''report_status''"

fun collect_event :: "GenerationEvent \<Rightarrow> Collected \<Rightarrow> Collected" where
  "collect_event (Token t) out = out\<lparr>cl_text := cl_text out @ t\<rparr>"
| "collect_event (ReasoningText t) out = out"
| "collect_event (ToolCall name) out = (if name = TOOL_NAME then out\<lparr>cl_toolCalled := True\<rparr> else out)"
| "collect_event ErrorEvent out = out\<lparr>cl_error := True\<rparr>"
| "collect_event (CompletedEvent t) out =
     (out\<lparr>cl_completed := True\<rparr>)\<lparr>cl_text := (if cl_text out = [] \<and> t \<noteq> [] then t else cl_text out)\<rparr>"

definition collect :: "GenerationEvent list \<Rightarrow> Collected" where
  "collect es = fold collect_event es \<lparr>cl_text = [], cl_completed = False, cl_toolCalled = False, cl_error = False\<rparr>"

text \<open>
  \<open>runProbe\<close>. A stream is \<open>None\<close> when it throws or runs into the deadline; \<open>tool\<close> is the stream of the tool
  probe, if that is asked for.
\<close>

definition runProbe :: "timestamp \<Rightarrow> rat \<Rightarrow> string \<Rightarrow> string \<Rightarrow> GenerationEvent list option \<Rightarrow> GenerationEvent list option option \<Rightarrow> ReadinessRecord" where
  "runProbe now latency modelId instanceId stream tool =
     (let result = (base_record now modelId instanceId)\<lparr>rr_latencyMs := Some latency\<rparr> in
      case stream of None \<Rightarrow> result\<lparr>rr_generation := Failed'\<rparr>
      | Some es \<Rightarrow>
          (let gen = collect es in
           if cl_error gen \<and> \<not> cl_completed gen then result\<lparr>rr_generation := Failed'\<rparr>
           else if \<not> cl_completed gen \<or> trim (cl_text gen) = [] then result\<lparr>rr_generation := Failed'\<rparr>
           else (result\<lparr>rr_generation := Verified', rr_ready := True\<rparr>)\<lparr>rr_toolUse :=
             (case tool of None \<Rightarrow> Untested' | Some None \<Rightarrow> Failed' | Some (Some ts) \<Rightarrow> if cl_toolCalled (collect ts) then Verified' else Failed')\<rparr>))"

subsection \<open>What readiness means\<close>

lemma first_sorted_in: "(case sort_by c xs of [] \<Rightarrow> None | x # _ \<Rightarrow> Some x) = Some y \<Longrightarrow> y \<in> set xs"
  by (metis list.case(2) list.exhaust list.set_intros(1) list.simps(4) option.distinct(1) option.inject set_sort_by)

text \<open>
  A hosted instance is never contacted for a probe, nor one that is draining, unloading, unavailable or
  loading, nor one without an adapter: a probe never makes a paid call. What it contacts is a registered
  instance of the model it was asked about.
\<close>
theorem probe_contacts_local_only:
  assumes "probe d now rs modelId instanceId force tools = Contact i with_tools"
  shows "\<exists>m. pd_model d modelId = Some m \<and> i \<in> set (pd_instancesOf d modelId) \<and> \<not> isHostedInstance i (pd_runtimeOf d (mi_runtimeId i)) (Some m) \<and>
     \<not> isHostedAdapter (pd_adapterType d (mi_runtimeId i)) \<and> pd_adapterType d (mi_runtimeId i) \<noteq> None \<and> \<not> unprobeable i \<and> (with_tools \<longrightarrow> mo_toolCalling m)"
proof -
  define inst where "inst = (case instanceId of Some i \<Rightarrow> if i = [] then selectInstance d modelId else find (\<lambda>x. mi_id x = i) (pd_instancesOf d modelId)
            | None \<Rightarrow> selectInstance d modelId)"
  obtain m where m: "pd_model d modelId = Some m" using assms by (cases "pd_model d modelId") (simp_all add: probe_def Let_def)
  obtain j where j: "inst = Some j" using assms m by (cases inst) (simp_all add: probe_def Let_def inst_def [symmetric])
  have "selectInstance d modelId = Some j \<Longrightarrow> j \<in> set (pd_instancesOf d modelId)" unfolding selectInstance_def by (auto dest!: first_sorted_in)
  with j have member: "j \<in> set (pd_instancesOf d modelId)" unfolding inst_def by (auto simp: find_Some_iff split: option.splits if_splits)
  let ?hosted = "isHostedInstance j (pd_runtimeOf d (mi_runtimeId j)) (Some m) \<or> isHostedAdapter (pd_adapterType d (mi_runtimeId j)) \<or>
    (case pd_runtimeOf d (mi_runtimeId j) of Some r \<Rightarrow> rt_hosted r | None \<Rightarrow> False)"
  from assms m j have step: "(if ?hosted then Answer (base_record now modelId (mi_id j)) else if unprobeable j then Answer (base_record now modelId (mi_id j))
      else if pd_adapterType d (mi_runtimeId j) = None then Answer (base_record now modelId (mi_id j))
      else case readinessOf rs modelId (mi_id j) of
        Some cached \<Rightarrow> if \<not> force \<and> isFresh (pd_ttlMs d) now cached \<and> (\<not> (case tools of Some t \<Rightarrow> t | None \<Rightarrow> mo_toolCalling m) \<or> rr_toolUse cached \<noteq> Untested')
          then Answer cached else Contact j ((case tools of Some t \<Rightarrow> t | None \<Rightarrow> mo_toolCalling m) \<and> mo_toolCalling m)
      | None \<Rightarrow> Contact j ((case tools of Some t \<Rightarrow> t | None \<Rightarrow> mo_toolCalling m) \<and> mo_toolCalling m)) = Contact i with_tools"
    unfolding probe_def Let_def inst_def [symmetric] by simp
  then have "\<not> ?hosted" "\<not> unprobeable j" "pd_adapterType d (mi_runtimeId j) \<noteq> None" by (simp_all split: if_splits)
  moreover from step this have "i = j" "with_tools \<longrightarrow> mo_toolCalling m" by (auto split: option.splits if_splits)
  ultimately show ?thesis using m member by blast
qed

text \<open>
  A probe certifies an instance only on a real answer: it reports ready exactly when the generation was
  completed and left text that is not blank, and tool use as verified only when it is ready and the
  expected tool was called.
\<close>
theorem runProbe_certifies_generation:
  "(rr_ready (runProbe now latency m i stream tool) \<longleftrightarrow> (\<exists>es. stream = Some es \<and> cl_completed (collect es) \<and> trim (cl_text (collect es)) \<noteq> [])) \<and>
   (rr_toolUse (runProbe now latency m i stream tool) = Verified' \<longleftrightarrow>
      rr_ready (runProbe now latency m i stream tool) \<and> (\<exists>ts. tool = Some (Some ts) \<and> ToolCall TOOL_NAME \<in> set ts))"
proof -
  have c: "cl_toolCalled (fold collect_event ts out) \<longleftrightarrow> cl_toolCalled out \<or> ToolCall TOOL_NAME \<in> set ts" for ts out
  proof (induction ts arbitrary: out)
    case (Cons e ts)
    then show ?case by (cases e) auto
  qed simp
  have "cl_toolCalled (collect ts) \<longleftrightarrow> ToolCall TOOL_NAME \<in> set ts" for ts by (simp add: collect_def c)
  note called = this
  show ?thesis
  proof (cases stream)
    case None
    then show ?thesis by (simp add: runProbe_def base_record_def)
  next
    case (Some es)
    show ?thesis
    proof (cases "cl_completed (collect es) \<and> trim (cl_text (collect es)) \<noteq> []")
      case True
      have "rr_ready (runProbe now latency m i stream tool)" using True Some by (simp add: runProbe_def Let_def)
      moreover have "rr_toolUse (runProbe now latency m i stream tool) = Verified' \<longleftrightarrow> (\<exists>ts. tool = Some (Some ts) \<and> cl_toolCalled (collect ts))"
        using True Some by (simp add: runProbe_def Let_def split: option.splits)
      ultimately show ?thesis unfolding called using True Some by simp
    next
      case False
      then have "runProbe now latency m i stream tool = (base_record now m i)\<lparr>rr_latencyMs := Some latency, rr_generation := Failed'\<rparr>"
        using Some unfolding runProbe_def Let_def by (cases "cl_completed (collect es)") simp_all
      then have "\<not> rr_ready (runProbe now latency m i stream tool)" "rr_toolUse (runProbe now latency m i stream tool) = Untested'"
        by (simp_all add: base_record_def)
      with False Some show ?thesis by simp
    qed
  qed
qed

lemma record_monotone:
  "readinessOf rs m i = Some r \<Longrightarrow> \<exists>r'. readinessOf (record_readiness x rs) m i = Some r' \<and> rr_checkedAt r \<le> rr_checkedAt r' \<and>
     (r' = r \<or> r' = x \<and> (m, i) = (rr_modelId x, rr_instanceId x))"
  by (auto simp: record_readiness_def readinessOf_def split: option.splits)

definition readiness_ok :: "readiness \<Rightarrow> bool" where
  "readiness_ok rs \<longleftrightarrow> (\<forall>m i r. readinessOf rs m i = Some r \<longrightarrow> rr_modelId r = m \<and> rr_instanceId r = i)"

lemma record_readiness_ok: "readiness_ok rs \<Longrightarrow> readiness_ok (record_readiness x rs)"
  by (auto simp: readiness_ok_def record_readiness_def readinessOf_def split: option.splits)

lemma readinessOf_invalidate:
  "readinessOf (invalidate now modelId instanceId rs) m i =
     map_option (\<lambda>r. if rr_modelId r \<noteq> modelId \<or> (case instanceId of None \<Rightarrow> False | Some i \<Rightarrow> i \<noteq> [] \<and> rr_instanceId r \<noteq> i) then r else invalidated now r) (readinessOf rs m i)"
  unfolding readinessOf_def invalidate_def map_of_map comp_def ..

lemma invalidate_ok: "readiness_ok rs \<Longrightarrow> readiness_ok (invalidate now m i rs)"
  by (auto simp: readiness_ok_def readinessOf_invalidate invalidated_def)

lemma invalidated_stays:
  assumes "readinessOf rs m i = Some r" and "\<not> rr_ready r \<and> t \<le> rr_checkedAt r" and "\<forall>x \<in> set xs. rr_checkedAt x < t"
  shows "\<exists>r'. readinessOf (fold record_readiness xs rs) m i = Some r' \<and> \<not> rr_ready r' \<and> t \<le> rr_checkedAt r'"
  using assms
proof (induction xs arbitrary: rs r)
  case (Cons x xs)
  from record_monotone [OF Cons.prems(1), of x] obtain r' where r': "readinessOf (record_readiness x rs) m i = Some r'" "rr_checkedAt r \<le> rr_checkedAt r'" "r' = r \<or> r' = x" by auto
  have "r' = r" using r' Cons.prems(2,3) by auto
  with r' Cons.prems show ?case using Cons.IH [of "record_readiness x rs" r'] by simp
qed auto

text \<open>
  Invalidated evidence is not revived by what was observed before: after an instance was invalidated, no
  observations made earlier, in whatever order they still arrive, make it ready again.
\<close>
theorem invalidation_outlives_old_evidence:
  assumes "readiness_ok rs" and "readinessOf rs m i = Some r" and "i \<noteq> []" and "\<forall>x \<in> set xs. rr_checkedAt x < t"
  shows "\<exists>r'. readinessOf (fold record_readiness xs (invalidate t m (Some i) rs)) m i = Some r' \<and> \<not> isFresh ttlMs now r'"
proof -
  have "readinessOf (invalidate t m (Some i) rs) m i = Some (invalidated t r)"
    using assms(1,2) by (auto simp: readinessOf_invalidate readiness_ok_def)
  from invalidated_stays [OF this _ assms(4)] show ?thesis by (auto simp: invalidated_def isFresh_def)
qed

definition sample_probe_deps :: ProbeDeps where
  "sample_probe_deps = \<lparr>pd_model = (\<lambda>_. Some sample_model), pd_instancesOf = (\<lambda>_. [sample_instance]), pd_runtimeOf = (\<lambda>_. None),
     pd_adapterType = (\<lambda>_. Some (Some ''ollama'')), pd_localeCompare = compare_str, pd_ttlMs = 600000\<rparr>"

theorem probe_contacts_local_only_witness:
  "probe sample_probe_deps 5 [] ''m'' None False None = Contact sample_instance True \<and>
   \<not> isHostedInstance sample_instance None (Some sample_model)"
proof
  have "(case probe sample_probe_deps 5 [] ''m'' None False None of Contact i b \<Rightarrow> mi_id i = mi_id sample_instance \<and> b | Answer r \<Rightarrow> False)" by code_simp
  then obtain i where c: "probe sample_probe_deps 5 [] ''m'' None False None = Contact i True" by (auto split: ProbeStep.splits)
  from probe_contacts_local_only [OF c] have "i = sample_instance" "\<not> isHostedInstance i None (Some sample_model)" by (auto simp: sample_probe_deps_def)
  with c show "probe sample_probe_deps 5 [] ''m'' None False None = Contact sample_instance True" "\<not> isHostedInstance sample_instance None (Some sample_model)"
    by simp_all
qed

theorem invalidation_outlives_old_evidence_witness:
  "\<exists>r'. readinessOf (record_readiness sample_readiness (invalidate 5 ''m'' (Some ''m@ollama'') [((''m'', ''m@ollama''), sample_readiness)])) ''m'' ''m@ollama'' = Some r' \<and>
     \<not> isFresh 600000 6 r' \<and> isFresh 600000 6 sample_readiness"
proof -
  have "readiness_ok [((''m'', ''m@ollama''), sample_readiness)]" "readinessOf [((''m'', ''m@ollama''), sample_readiness)] ''m'' ''m@ollama'' = Some sample_readiness"
    by (auto simp: readiness_ok_def readinessOf_def sample_readiness_def split: if_splits)
  from invalidation_outlives_old_evidence [OF this, of "[sample_readiness]" 5 600000 6] show ?thesis
    by (auto simp: sample_readiness_def isFresh_def)
qed

end
