(* ===== verification/Reliability.thy ===== *)
theory Reliability
  imports Prelude "HOL-Library.Sublist"
begin

text \<open>
  The circuit breaker that keeps unreliable models out of routing:
  \<open>src/packages/core/src/services/modelReliability.ts\<close>. Recent outcomes are kept for every model and task
  class; a circuit opens on their failure rate, admits a trial after a cool-down, and closes when the trial
  succeeds. The status leaves out the rounded failure rate and the texts, which only people read.

  The lemmas give the exact transitions of a circuit, show that it opens only on enough recent failures of
  that very model and class, and that no model is shut out for good.
\<close>

subsection \<open>State\<close>

datatype CircuitState = CLOSED | OPEN | HALF_OPEN

record ModelReliabilityOptions =
  ro_window :: nat
  ro_minSamples :: nat
  ro_threshold :: rat
  ro_cooldownMs :: int

record ReliabilityOutcome =
  rl_modelId :: string
  rl_taskClass :: string
  rl_success :: bool
  rl_reason :: "string option"
  rl_at :: timestamp

record CircuitOutcome =
  co_success :: bool
  co_reason :: "string option"
  co_at :: timestamp

record Circuit =
  ci_outcomes :: "CircuitOutcome list"
  ci_openedAt :: "timestamp option"

record CircuitStatus =
  cs_state :: CircuitState
  cs_samples :: nat
  cs_failures :: nat
  cs_openedAt :: "timestamp option"

type_synonym circuits = "(string, Circuit) dict"

definition default_reliability :: ModelReliabilityOptions where
  "default_reliability = \<lparr>ro_window = 10, ro_minSamples = 4, ro_threshold = 3 / 5, ro_cooldownMs = 600000\<rparr>"

text \<open>The constructor's checks\<close>

definition reliability_options_ok :: "ModelReliabilityOptions \<Rightarrow> bool" where
  "reliability_options_ok opts \<longleftrightarrow> \<not> (ro_window opts < 1 \<or> ro_minSamples opts < 1 \<or> ro_minSamples opts > ro_window opts) \<and>
     0 < ro_threshold opts \<and> ro_threshold opts \<le> 1"

definition circuit_key :: "string \<Rightarrow> string \<Rightarrow> string" where
  "circuit_key modelId taskClass = modelId @ CHR 0x00 # taskClass"

subsection \<open>Which terminations count\<close>

definition MODEL_ATTRIBUTABLE_FAILURES :: "string list" where
  "MODEL_ATTRIBUTABLE_FAILURES = [''MODEL_PROTOCOL_BUDGET_EXHAUSTED'', ''IDENTICAL_VALIDATION_FAILURE'', ''NO_PROGRESS'', ''REPEATED_ACTION'',
     ''MAX_REPAIRS'', ''MAX_TURNS'', ''MAX_TOOL_CALLS'', ''MAX_TOKENS'', ''VERIFICATION_FAILED'']"

definition SUCCESS_REASONS :: "string list" where
  "SUCCESS_REASONS = [''VERIFICATION_PASSED'', ''COMPLETED'']"

text \<open>\<open>Some True\<close> for a success, \<open>Some False\<close> for a failure of the model\<close>

definition classifyTerminationForReliability :: "string option \<Rightarrow> bool option" where
  "classifyTerminationForReliability reason =
     (case reason of None \<Rightarrow> None
      | Some r \<Rightarrow> if r = [] then None else if r \<in> set SUCCESS_REASONS then Some True
          else if r \<in> set MODEL_ATTRIBUTABLE_FAILURES then Some False else None)"

subsection \<open>Operations\<close>

definition failure_count :: "CircuitOutcome list \<Rightarrow> nat" where
  "failure_count os = length (filter (\<lambda>o'. \<not> co_success o') os)"

definition evaluate :: "ModelReliabilityOptions \<Rightarrow> Circuit \<Rightarrow> timestamp \<Rightarrow> CircuitStatus" where
  "evaluate opts c now =
     \<lparr>cs_state = (case ci_openedAt c of None \<Rightarrow> CLOSED | Some t \<Rightarrow> if now - t < ro_cooldownMs opts then OPEN else HALF_OPEN),
      cs_samples = length (ci_outcomes c), cs_failures = failure_count (ci_outcomes c), cs_openedAt = ci_openedAt c\<rparr>"

text \<open>\<open>splice(0, length - window)\<close> on a list that has grown too long\<close>

definition last_n :: "nat \<Rightarrow> 'a list \<Rightarrow> 'a list" where
  "last_n n xs = drop (length xs - n) xs"

definition trips :: "ModelReliabilityOptions \<Rightarrow> CircuitOutcome list \<Rightarrow> bool" where
  "trips opts os \<longleftrightarrow> ro_minSamples opts \<le> length os \<and> ro_threshold opts \<le> rat_of_nat (failure_count os) / rat_of_nat (length os)"

definition record_circuit :: "ModelReliabilityOptions \<Rightarrow> bool \<Rightarrow> string option \<Rightarrow> timestamp \<Rightarrow> Circuit \<Rightarrow> Circuit" where
  "record_circuit opts success reason at' c =
     (let prior = cs_state (evaluate opts c at'); new = \<lparr>co_success = success, co_reason = reason, co_at = at'\<rparr>;
          c' = (if prior = HALF_OPEN then
                  (if success then \<lparr>ci_outcomes = [new], ci_openedAt = None\<rparr>
                   else \<lparr>ci_outcomes = ci_outcomes c @ [new], ci_openedAt = Some at'\<rparr>)
                else
                  (let os = last_n (ro_window opts) (ci_outcomes c @ [new]) in
                   \<lparr>ci_outcomes = os, ci_openedAt = (if prior = CLOSED \<and> trips opts os then Some at' else ci_openedAt c)\<rparr>))
      in c'\<lparr>ci_outcomes := last_n (ro_window opts) (ci_outcomes c')\<rparr>)"

definition new_circuit :: Circuit where
  "new_circuit = \<lparr>ci_outcomes = [], ci_openedAt = None\<rparr>"

definition circuit_of :: "circuits \<Rightarrow> string \<Rightarrow> Circuit" where
  "circuit_of cs k = (case dget cs k of Some c \<Rightarrow> c | None \<Rightarrow> new_circuit)"

definition record_outcome :: "ModelReliabilityOptions \<Rightarrow> ReliabilityOutcome \<Rightarrow> circuits \<Rightarrow> CircuitStatus \<times> circuits" where
  "record_outcome opts o' cs =
     (let k = circuit_key (rl_modelId o') (rl_taskClass o');
          c = record_circuit opts (rl_success o') (rl_reason o') (rl_at o') (circuit_of cs k)
      in (evaluate opts c (rl_at o'), dput k c cs))"

definition recordTermination :: "ModelReliabilityOptions \<Rightarrow> string \<Rightarrow> string \<Rightarrow> string option \<Rightarrow> timestamp \<Rightarrow> circuits
    \<Rightarrow> CircuitStatus option \<times> circuits" where
  "recordTermination opts modelId taskClass reason at' cs =
     (case classifyTerminationForReliability reason of None \<Rightarrow> (None, cs)
      | Some verdict \<Rightarrow> apfst Some (record_outcome opts
          \<lparr>rl_modelId = modelId, rl_taskClass = taskClass, rl_success = verdict, rl_reason = reason, rl_at = at'\<rparr> cs))"

definition circuit_status :: "ModelReliabilityOptions \<Rightarrow> circuits \<Rightarrow> string \<Rightarrow> string \<Rightarrow> timestamp \<Rightarrow> CircuitStatus" where
  "circuit_status opts cs modelId taskClass now =
     (case dget cs (circuit_key modelId taskClass) of
        Some c \<Rightarrow> evaluate opts c now
      | None \<Rightarrow> \<lparr>cs_state = CLOSED, cs_samples = 0, cs_failures = 0, cs_openedAt = None\<rparr>)"

definition allows :: "ModelReliabilityOptions \<Rightarrow> circuits \<Rightarrow> string \<Rightarrow> string \<Rightarrow> timestamp \<Rightarrow> bool" where
  "allows opts cs modelId taskClass now \<longleftrightarrow> cs_state (circuit_status opts cs modelId taskClass now) \<noteq> OPEN"

text \<open>A tracker that has recorded a list of outcomes\<close>

definition record_all :: "ModelReliabilityOptions \<Rightarrow> ReliabilityOutcome list \<Rightarrow> circuits" where
  "record_all opts os = fold (\<lambda>o' cs. snd (record_outcome opts o' cs)) os []"

subsection \<open>Transitions of a circuit\<close>

lemma last_n_suffix: "suffix (last_n n xs) xs"
  by (simp add: last_n_def suffix_drop)

lemma length_last_n: "length (last_n n xs) = min n (length xs)"
  by (auto simp: last_n_def)

lemma last_n_short [simp]: "length xs \<le> n \<Longrightarrow> last_n n xs = xs"
  by (simp add: last_n_def)

lemma status_circuit_of: "circuit_status opts cs m t now = evaluate opts (circuit_of cs (circuit_key m t)) now"
  by (simp add: circuit_status_def circuit_of_def evaluate_def new_circuit_def failure_count_def split: option.splits)

lemma circuit_of_recorded:
  "circuit_of (snd (record_outcome opts o' cs)) k =
     (if k = circuit_key (rl_modelId o') (rl_taskClass o') then record_circuit opts (rl_success o') (rl_reason o') (rl_at o') (circuit_of cs k) else circuit_of cs k)"
  by (simp add: circuit_of_def record_outcome_def Let_def)

lemma record_circuit_state:
  assumes "0 < ro_cooldownMs opts"
  shows "cs_state (evaluate opts (record_circuit opts success reason at' c) at') =
     (case cs_state (evaluate opts c at') of
        CLOSED \<Rightarrow> if trips opts (last_n (ro_window opts) (ci_outcomes c @ [\<lparr>co_success = success, co_reason = reason, co_at = at'\<rparr>])) then OPEN else CLOSED
      | HALF_OPEN \<Rightarrow> if success then CLOSED else OPEN
      | OPEN \<Rightarrow> OPEN)"
  using assms by (cases success; cases "ci_openedAt c") (simp_all add: evaluate_def record_circuit_def Let_def)

text \<open>
  What recording an outcome does to the circuit of its model and task class, and to no other: a closed
  circuit opens exactly when, with the new outcome, the window holds the required number of samples and its
  share of failures reaches the threshold; a half-open one closes on success and opens again on failure; an
  open one stays open.
\<close>
theorem circuit_transitions:
  assumes "0 < ro_cooldownMs opts" and "snd (record_outcome opts o' cs) = cs'"
  shows "cs_state (circuit_status opts cs' (rl_modelId o') (rl_taskClass o') (rl_at o')) =
     (let c = circuit_of cs (circuit_key (rl_modelId o') (rl_taskClass o'));
          os = last_n (ro_window opts) (ci_outcomes c @ [\<lparr>co_success = rl_success o', co_reason = rl_reason o', co_at = rl_at o'\<rparr>])
      in case cs_state (circuit_status opts cs (rl_modelId o') (rl_taskClass o') (rl_at o')) of
           CLOSED \<Rightarrow> if ro_minSamples opts \<le> length os \<and> ro_threshold opts \<le> rat_of_nat (failure_count os) / rat_of_nat (length os) then OPEN else CLOSED
         | HALF_OPEN \<Rightarrow> if rl_success o' then CLOSED else OPEN
         | OPEN \<Rightarrow> OPEN) \<and>
     (\<forall>m t now. circuit_key m t \<noteq> circuit_key (rl_modelId o') (rl_taskClass o') \<longrightarrow> circuit_status opts cs' m t now = circuit_status opts cs m t now)"
  using record_circuit_state [OF assms(1)] assms(2)
  by (auto simp: status_circuit_of circuit_of_recorded Let_def trips_def split: CircuitState.splits)

definition sample_outcome :: "bool \<Rightarrow> timestamp \<Rightarrow> ReliabilityOutcome" where
  "sample_outcome ok at' = \<lparr>rl_modelId = ''m'', rl_taskClass = ''c'', rl_success = ok, rl_reason = None, rl_at = at'\<rparr>"

definition sample_outcomes :: "ReliabilityOutcome list" where
  "sample_outcomes = map (sample_outcome False) [1, 2, 3]"

theorem circuit_transitions_witness:
  "cs_state (circuit_status default_reliability (record_all default_reliability sample_outcomes) ''m'' ''c'' 3) = CLOSED \<and>
   cs_state (circuit_status default_reliability (record_all default_reliability (sample_outcomes @ [sample_outcome False 4])) ''m'' ''c'' 4) = OPEN"
proof -
  let ?cs = "record_all default_reliability sample_outcomes"
  have c: "cs_state (circuit_status default_reliability ?cs ''m'' ''c'' 3) = CLOSED" "cs_state (circuit_status default_reliability ?cs ''m'' ''c'' 4) = CLOSED"
    "(let os = last_n (ro_window default_reliability) (ci_outcomes (circuit_of ?cs (circuit_key ''m'' ''c'')) @ [\<lparr>co_success = False, co_reason = None, co_at = 4\<rparr>])
      in ro_minSamples default_reliability \<le> length os \<and> ro_threshold default_reliability \<le> rat_of_nat (failure_count os) / rat_of_nat (length os))"
    by code_simp+
  have e: "record_all default_reliability (sample_outcomes @ [sample_outcome False 4]) = snd (record_outcome default_reliability (sample_outcome False 4) ?cs)"
    by (simp add: record_all_def)
  have "0 < ro_cooldownMs default_reliability" by (simp add: default_reliability_def)
  from circuit_transitions [OF this refl, of "sample_outcome False 4" ?cs] c show ?thesis
    unfolding e by (simp add: sample_outcome_def Let_def)
qed

subsection \<open>What an open circuit rests on\<close>

text \<open>The outcomes of one model and class, in order\<close>

definition outcomes_for :: "string \<Rightarrow> ReliabilityOutcome list \<Rightarrow> CircuitOutcome list" where
  "outcomes_for k os = map (\<lambda>o'. \<lparr>co_success = rl_success o', co_reason = rl_reason o', co_at = rl_at o'\<rparr>)
     (filter (\<lambda>o'. circuit_key (rl_modelId o') (rl_taskClass o') = k) os)"

definition evidence_for_opening :: "ModelReliabilityOptions \<Rightarrow> CircuitOutcome list \<Rightarrow> bool" where
  "evidence_for_opening opts os \<longleftrightarrow> (\<exists>ys. sublist ys os \<and> ro_minSamples opts \<le> length ys \<and> length ys \<le> ro_window opts \<and>
     ro_threshold opts * rat_of_nat (length ys) \<le> rat_of_nat (failure_count ys))"

definition circuit_inv :: "ModelReliabilityOptions \<Rightarrow> CircuitOutcome list \<Rightarrow> Circuit \<Rightarrow> bool" where
  "circuit_inv opts os c \<longleftrightarrow> suffix (ci_outcomes c) os \<and> length (ci_outcomes c) \<le> ro_window opts \<and>
     (case ci_openedAt c of None \<Rightarrow> True | Some t \<Rightarrow> t \<in> co_at ` set os \<and> evidence_for_opening opts os)"

lemma evidence_grows: "evidence_for_opening opts os \<Longrightarrow> evidence_for_opening opts (os @ zs)"
  unfolding evidence_for_opening_def by (meson sublist_appendI sublist_order.order_trans prefix_imp_sublist prefixI)

lemma trips_evidence:
  assumes "trips opts ys" and "suffix ys os" and "length ys \<le> ro_window opts"
  shows "evidence_for_opening opts os"
proof -
  have "ro_threshold opts * rat_of_nat (length ys) \<le> rat_of_nat (failure_count ys)"
    using assms(1) by (cases "length ys = 0") (auto simp: trips_def failure_count_def pos_le_divide_eq)
  then show ?thesis using assms unfolding evidence_for_opening_def trips_def by (meson suffix_imp_sublist)
qed

lemma record_circuit_inv:
  assumes inv: "circuit_inv opts os c" and w: "1 \<le> ro_window opts"
  shows "circuit_inv opts (os @ [\<lparr>co_success = success, co_reason = reason, co_at = at'\<rparr>]) (record_circuit opts success reason at' c)"
proof -
  let ?new = "\<lparr>co_success = success, co_reason = reason, co_at = at'\<rparr>"
  let ?os = "last_n (ro_window opts) (ci_outcomes c @ [?new])"
  have suf: "suffix (ci_outcomes c @ [?new]) (os @ [?new])" using inv by (simp add: circuit_inv_def)
  have s1: "suffix ?os (os @ [?new])" using last_n_suffix suf by (rule suffix_order.order_trans)
  have s2: "suffix [?new] (os @ [?new])" by (simp add: suffix_def)
  have len: "length ?os \<le> ro_window opts" by (simp add: length_last_n)
  have tr: "trips opts ?os \<Longrightarrow> evidence_for_opening opts (os @ [?new])" by (rule trips_evidence [OF _ s1 len])
  have ev: "ci_openedAt c = Some t \<Longrightarrow> evidence_for_opening opts (os @ [?new])" for t using inv evidence_grows by (auto simp: circuit_inv_def)
  show ?thesis
  proof (cases "ci_openedAt c")
    case None
    then show ?thesis using s1 len tr by (auto simp: circuit_inv_def record_circuit_def evaluate_def Let_def)
  next
    case (Some t)
    then show ?thesis using s1 s2 len w ev inv by (auto simp: circuit_inv_def record_circuit_def evaluate_def Let_def)
  qed
qed

lemma record_all_snoc: "record_all opts (os @ [o']) = snd (record_outcome opts o' (record_all opts os))"
  by (simp add: record_all_def)

lemma record_all_inv:
  assumes "1 \<le> ro_window opts" shows "circuit_inv opts (outcomes_for k os) (circuit_of (record_all opts os) k)"
proof (induction os rule: rev_induct)
  case Nil
  show ?case by (simp add: record_all_def circuit_of_def new_circuit_def circuit_inv_def outcomes_for_def)
next
  case (snoc o' os)
  have "outcomes_for k (os @ [o']) = outcomes_for k os @
      (if circuit_key (rl_modelId o') (rl_taskClass o') = k then [\<lparr>co_success = rl_success o', co_reason = rl_reason o', co_at = rl_at o'\<rparr>] else [])"
    by (simp add: outcomes_for_def)
  with snoc record_circuit_inv [OF snoc assms] show ?case by (auto simp: record_all_snoc circuit_of_recorded)
qed

text \<open>While a circuit is open, what is recorded does not prolong it.\<close>

lemma open_circuit_keeps_time:
  assumes "ci_openedAt c = Some u" and "at' < u + ro_cooldownMs opts"
  shows "ci_openedAt (record_circuit opts success reason at' c) = Some u"
  using assms by (simp add: record_circuit_def evaluate_def Let_def)

lemma open_circuit_keeps_time_all:
  assumes "ci_openedAt (circuit_of (record_all opts os) k) = Some u" and "\<forall>o' \<in> set os2. rl_at o' < u + ro_cooldownMs opts"
  shows "ci_openedAt (circuit_of (record_all opts (os @ os2)) k) = Some u"
  using assms(2)
proof (induction os2 rule: rev_induct)
  case (snoc o' os2)
  then show ?case
    using open_circuit_keeps_time [of "circuit_of (record_all opts (os @ os2)) k" u "rl_at o'" opts]
    by (auto simp: record_all_snoc [of opts "os @ os2", simplified] circuit_of_recorded)
qed (simp add: assms(1))

text \<open>
  C30. A model is kept out of a task class only on evidence, and only for the cool-down. Whatever outcomes have
  been recorded, if routing is not free then among the outcomes of that very model and class there is a run of
  at least \<open>minSamples\<close> and at most \<open>window\<close> consecutive ones whose share of failures reaches the threshold. A
  circuit that opened at a time keeps the model out from then until the cool-down has passed, whatever
  outcomes are recorded meanwhile, and admits it, if only for a trial, from then on until the next outcome. A model about which
  nothing has been recorded since the cool-down began is admitted as well.
\<close>
theorem circuit_opens_on_evidence_and_reopens:
  assumes "reliability_options_ok opts"
  shows "(cs_state (circuit_status opts (record_all opts os) m t now) \<noteq> CLOSED \<longrightarrow>
      (\<exists>ys. sublist ys (outcomes_for (circuit_key m t) os) \<and> ro_minSamples opts \<le> length ys \<and> length ys \<le> ro_window opts \<and>
         ro_threshold opts * rat_of_nat (length ys) \<le> rat_of_nat (failure_count ys))) \<and>
    ((\<forall>o' \<in> set os. rl_at o' + ro_cooldownMs opts \<le> now) \<longrightarrow> allows opts (record_all opts os) m t now) \<and>
    (\<forall>u os2. cs_openedAt (circuit_status opts (record_all opts os) m t now) = Some u \<and> (\<forall>o' \<in> set os2. rl_at o' < u + ro_cooldownMs opts) \<longrightarrow>
       (\<forall>later. allows opts (record_all opts (os @ os2)) m t later \<longleftrightarrow> u + ro_cooldownMs opts \<le> later))"
proof -
  let ?k = "circuit_key m t"
  let ?c = "circuit_of (record_all opts os) ?k"
  have inv: "circuit_inv opts (outcomes_for ?k os) ?c" by (rule record_all_inv) (use assms in \<open>simp add: reliability_options_ok_def\<close>)
  have 1: "cs_state (evaluate opts ?c now) \<noteq> CLOSED \<Longrightarrow> evidence_for_opening opts (outcomes_for ?k os)"
    using inv by (auto simp: circuit_inv_def evaluate_def split: option.splits)
  have 2: "cs_state (evaluate opts ?c now) \<noteq> OPEN" if late: "\<forall>o' \<in> set os. rl_at o' + ro_cooldownMs opts \<le> now"
  proof (cases "ci_openedAt ?c")
    case (Some u)
    with inv have "u \<in> co_at ` set (outcomes_for ?k os)" by (simp add: circuit_inv_def)
    then obtain o' where "o' \<in> set os" "u = rl_at o'" by (auto simp: outcomes_for_def)
    with late have "u + ro_cooldownMs opts \<le> now" by blast
    with Some show ?thesis by (simp add: evaluate_def)
  qed (simp add: evaluate_def)
  have 3: "allows opts (record_all opts (os @ os2)) m t later \<longleftrightarrow> u + ro_cooldownMs opts \<le> later"
    if "cs_openedAt (circuit_status opts (record_all opts os) m t now) = Some u" "\<forall>o' \<in> set os2. rl_at o' < u + ro_cooldownMs opts" for u os2 later
  proof -
    have "ci_openedAt ?c = Some u" using that(1) unfolding status_circuit_of by (simp add: evaluate_def)
    from open_circuit_keeps_time_all [OF this that(2)] show ?thesis by (auto simp: allows_def status_circuit_of evaluate_def)
  qed
  show ?thesis using 1 2 3 unfolding allows_def status_circuit_of evidence_for_opening_def by blast
qed

text \<open>The circuit opens at time 4; a success and a failure that come in while it is open change nothing.\<close>

theorem circuit_opens_on_evidence_and_reopens_witness:
  "allows default_reliability (record_all default_reliability (sample_outcomes @ [sample_outcome False 4] @ [sample_outcome True 9, sample_outcome False 600003])) ''m'' ''c'' 600004 \<and>
   \<not> allows default_reliability (record_all default_reliability (sample_outcomes @ [sample_outcome False 4] @ [sample_outcome True 9, sample_outcome False 600003])) ''m'' ''c'' 600003"
proof -
  let ?os = "sample_outcomes @ [sample_outcome False 4]" and ?more = "[sample_outcome True 9, sample_outcome False 600003]"
  have "reliability_options_ok default_reliability" by (simp add: reliability_options_ok_def default_reliability_def)
  note t = circuit_opens_on_evidence_and_reopens [OF this, of ?os "''m''" "''c''" 4]
  have "cs_openedAt (circuit_status default_reliability (record_all default_reliability ?os) ''m'' ''c'' 4) = Some 4" by code_simp
  moreover have "\<forall>o' \<in> set ?more. rl_at o' < 4 + ro_cooldownMs default_reliability" by (simp add: sample_outcome_def default_reliability_def)
  ultimately have "allows default_reliability (record_all default_reliability (?os @ ?more)) ''m'' ''c'' later \<longleftrightarrow> 4 + ro_cooldownMs default_reliability \<le> later" for later
    using t by blast
  from this [of 600004] this [of 600003] show ?thesis by (simp add: default_reliability_def)
qed

end
