(* ===== verification/Model_Router.thy ===== *)
theory Model_Router
  imports Readiness Reliability Contracts
begin

text \<open>
  The model router: \<open>src/packages/goals/src/routing/modelRouter.ts\<close>. For every registered model it evaluates the
  instances against hard rules, scores those that pass, and takes the best. The registries, the price list and
  the resource snapshots it reads are a record of answers, \<open>Fleet\<close>; its own state are the recorded outcomes, the
  circuits (\<open>Reliability\<close>) and the readiness records (\<open>Readiness\<close>). Texts of reasons are left out; a rejection is
  a value that names its rule. Numbers are rationals.

  The lemmas show that the hard rules hold of whatever is routed, that nothing better was passed over, and
  what recording a failure does to later routes.
\<close>

subsection \<open>State and requests\<close>

text \<open>A price that is not a finite number is \<open>None\<close>; a snapshot that throws is \<open>None\<close>.\<close>

record Pricing =
  pr_inputPerMTok :: "rat option"
  pr_outputPerMTok :: "rat option"

record ResourceSnapshot =
  sn_availableMemoryBytes :: "rat option"
  sn_openReservations :: "rat list"

record Fleet =
  fl_models :: "ModelRecord list"
  fl_instancesOf :: "string \<Rightarrow> ModelInstance list"
  fl_runtimes :: "(string \<Rightarrow> RuntimeRecord option) option"
  fl_computers :: "(string \<Rightarrow> ComputerRecord option) option"
  fl_snapshot :: "string \<Rightarrow> ResourceSnapshot option"
  fl_pricing :: "(string \<Rightarrow> string \<Rightarrow> Pricing option) option"

record RouterConfig =
  rc_taskClass :: string
  rc_inputTokens :: rat
  rc_outputTokens :: rat
  rc_ttlMs :: int
  rc_reliability :: ModelReliabilityOptions
  rc_localeCompare :: "string \<Rightarrow> string \<Rightarrow> rat"

record RouteOutcomeRecord =
  ou_seq :: nat
  ou_modelId :: string
  ou_instanceId :: "string option"
  ou_hosted :: bool
  ou_ok :: bool
  ou_attributable :: bool
  ou_taskClass :: string
  ou_estimatedCostUsd :: rat
  ou_actualCostUsd :: rat
  ou_estimatedLatencyMs :: "rat option"
  ou_actualLatencyMs :: rat
  ou_terminationReason :: "string option"
  ou_recordedAt :: timestamp

record RouterState =
  rs_outcomes :: "RouteOutcomeRecord list"
  rs_seq :: nat
  rs_circuits :: circuits
  rs_readiness :: readiness

record RouteRequest =
  rq_requiredCapabilities :: "string list"
  rq_remainingHostedBudgetUsd :: rat
  rq_localFirst :: bool
  rq_excludeModelIds :: "string list"

definition OUTCOME_WINDOW :: nat where "OUTCOME_WINDOW = 20"
definition MIN_HISTORY :: nat where "MIN_HISTORY = 3"

definition round2 :: "rat \<Rightarrow> rat" where
  "round2 n = round_rat (n * 100) / 100"

definition round6 :: "rat \<Rightarrow> rat" where
  "round6 n = round_rat (n * 1000000) / 1000000"

subsection \<open>The evaluation of an instance\<close>

datatype Rejection =
  BadState | InstanceUnavailable | RuntimeUnavailable | HostedRuntimeUnknown | ComputerUnknown | ComputerOffline | ComputerUnavailable
| NotLocal | NeverVerified | NotReady | Stale | Capability CapabilityFailure
| NoHostedBudget | NoPricing | OverBudget | CircuitOpen | NoMemory

record InstanceEval =
  ie_instance :: ModelInstance
  ie_hosted :: bool
  ie_tier :: rat
  ie_score :: rat
  ie_estimatedCostUsd :: rat
  ie_estimatedLatencyMs :: "rat option"
  ie_readiness :: ReadinessRecord

definition runtime_of :: "Fleet \<Rightarrow> ModelInstance \<Rightarrow> RuntimeRecord option" where
  "runtime_of fl i = (case fl_runtimes fl of None \<Rightarrow> None | Some f \<Rightarrow> f (mi_runtimeId i))"

definition computer_of :: "Fleet \<Rightarrow> ModelInstance \<Rightarrow> ComputerRecord option" where
  "computer_of fl i = (case mi_computerId i of None \<Rightarrow> None
     | Some c \<Rightarrow> if c = [] then None else (case fl_computers fl of None \<Rightarrow> None | Some f \<Rightarrow> f c))"

definition hosted_on :: "Fleet \<Rightarrow> ModelRecord \<Rightarrow> ModelInstance \<Rightarrow> bool" where
  "hosted_on fl m i = isHostedInstance i (runtime_of fl i) (Some m)"

text \<open>Rule 2: the instance can serve\<close>

definition not_servable :: "Fleet \<Rightarrow> CapabilityRequirements \<Rightarrow> ModelRecord \<Rightarrow> ModelInstance \<Rightarrow> Rejection option" where
  "not_servable fl req m i =
     (let hosted = hosted_on fl m i in
      if unprobeable i then Some BadState
      else if mi_health i = HealthUnavailable then Some InstanceUnavailable
      else if map_option rt_health (runtime_of fl i) = Some HealthUnavailable then Some RuntimeUnavailable
      else if hosted \<and> runtime_of fl i = None \<and> fl_runtimes fl \<noteq> None then Some HostedRuntimeUnknown
      else if (case mi_computerId i of None \<Rightarrow> False | Some c \<Rightarrow> c \<noteq> []) \<and> fl_computers fl \<noteq> None \<and> computer_of fl i = None then Some ComputerUnknown
      else if (case computer_of fl i of Some c \<Rightarrow> \<not> cp_online c | None \<Rightarrow> False) then Some ComputerOffline
      else if (case computer_of fl i of Some c \<Rightarrow> cp_health c = HealthUnavailable | None \<Rightarrow> False) then Some ComputerUnavailable
      else if cr_localOnly req \<and> hosted then Some NotLocal
      else None)"

text \<open>Rule 3: verified ready, and recently so\<close>

definition not_verified :: "RouterConfig \<Rightarrow> timestamp \<Rightarrow> ReadinessRecord option \<Rightarrow> Rejection option" where
  "not_verified cfg now readiness =
     (case readiness of None \<Rightarrow> Some NeverVerified
      | Some r \<Rightarrow> if \<not> rr_ready r then Some NotReady else if \<not> isFresh (rc_ttlMs cfg) now r then Some Stale else None)"

definition validPricing :: "Pricing \<Rightarrow> bool" where
  "validPricing p \<longleftrightarrow> (case (pr_inputPerMTok p, pr_outputPerMTok p) of (Some a, Some b) \<Rightarrow> 0 \<le> a \<and> 0 \<le> b | _ \<Rightarrow> False)"

definition price_of :: "Fleet \<Rightarrow> ModelRecord \<Rightarrow> ModelInstance \<Rightarrow> Pricing option" where
  "price_of fl m i = (case fl_pricing fl of None \<Rightarrow> None | Some f \<Rightarrow> f (mo_id m) (mi_runtimeId i))"

definition cost_under :: "RouterConfig \<Rightarrow> Pricing \<Rightarrow> rat" where
  "cost_under cfg p = (case (pr_inputPerMTok p, pr_outputPerMTok p) of
     (Some a, Some b) \<Rightarrow> round6 ((rc_inputTokens cfg * a + rc_outputTokens cfg * b) / 1000000) | _ \<Rightarrow> 0)"

text \<open>Rule 5: hosted spend. The estimated cost, or why it cannot be borne\<close>

definition hosted_cost :: "RouterConfig \<Rightarrow> Fleet \<Rightarrow> RouteRequest \<Rightarrow> ModelRecord \<Rightarrow> ModelInstance \<Rightarrow> Rejection + rat" where
  "hosted_cost cfg fl rq m i =
     (if \<not> hosted_on fl m i then Inr 0
      else if rq_remainingHostedBudgetUsd rq \<le> 0 then Inl NoHostedBudget
      else case price_of fl m i of None \<Rightarrow> Inl NoPricing
      | Some p \<Rightarrow> if \<not> validPricing p then Inl NoPricing
          else if cost_under cfg p > rq_remainingHostedBudgetUsd rq then Inl OverBudget else Inr (cost_under cfg p))"

text \<open>Rule 7: a local model that is not loaded has to fit into the memory that is free\<close>

definition memory_short :: "Fleet \<Rightarrow> ModelRecord \<Rightarrow> ModelInstance \<Rightarrow> bool" where
  "memory_short fl m i =
     (case (computer_of fl i, mo_minSystemGB m) of
        (Some c, Some need) \<Rightarrow> \<not> hosted_on fl m i \<and> \<not> mi_loaded i \<and> need \<noteq> 0 \<and>
          (case fl_snapshot fl (cp_id c) of None \<Rightarrow> False
           | Some snap \<Rightarrow> (case sn_availableMemoryBytes snap of None \<Rightarrow> False
               | Some avail \<Rightarrow> (avail - sum_list (sn_openReservations snap)) / 1073741824 < need))
      | _ \<Rightarrow> False)"

definition attributableHistory :: "RouterState \<Rightarrow> string \<Rightarrow> RouteOutcomeRecord list" where
  "attributableHistory st modelId = last_n OUTCOME_WINDOW (filter (\<lambda>x. ou_modelId x = modelId \<and> ou_attributable x) (rs_outcomes st))"

definition estimatedLatency :: "RouterState \<Rightarrow> string \<Rightarrow> ReadinessRecord option \<Rightarrow> rat option" where
  "estimatedLatency st modelId readiness =
     (let recent = last_n OUTCOME_WINDOW (filter (\<lambda>x. ou_modelId x = modelId \<and> ou_ok x) (rs_outcomes st)) in
      if recent \<noteq> [] then Some (round_rat (sum_list (map ou_actualLatencyMs recent) / of_nat (length recent)))
      else (case readiness of None \<Rightarrow> None | Some r \<Rightarrow> rr_latencyMs r))"

definition score_of :: "RouterConfig \<Rightarrow> Fleet \<Rightarrow> RouterState \<Rightarrow> CapabilityRequirements \<Rightarrow> CircuitState \<Rightarrow> ModelRecord \<Rightarrow> ModelInstance
    \<Rightarrow> ReadinessRecord \<Rightarrow> rat \<Rightarrow> rat" where
  "score_of cfg fl st req circuit m i readiness cost =
     (let hosted = hosted_on fl m i;
          residency = (if mi_loaded i \<and> mi_state i = Some Ready then 20 else if mi_loaded i then 10 else -5);
          qwen = (if \<not> hosted \<and> (mo_family m = ''qwen'' \<or> has_substring (toLowerCase (mo_id m)) ''qwen'') then 3 else 0);
          hist = attributableHistory st (mo_id m);
          history = (if length hist \<ge> MIN_HISTORY then round_rat (of_nat (length (filter ou_ok hist)) / of_nat (length hist) * 30) else 0);
          evidence = (case dget (mo_performance m) (rc_taskClass cfg) of
             Some p \<Rightarrow> if pf_samples p \<ge> MIN_HISTORY then round_rat (pf_verifiedSuccessRate p * 10) else 0 | None \<Rightarrow> 0);
          half = (if circuit = HALF_OPEN then 10 else 0);
          slow = (case estimatedLatency st (mo_id m) (Some readiness) of Some l \<Rightarrow> round2 (min 20 (l / 500)) | None \<Rightarrow> 0);
          room = (if cr_minContextTokens req > 0 \<and> instanceContextTokens m i \<ge> cr_minContextTokens req * 2 then 2 else 0);
          computer = (case computer_of fl i of None \<Rightarrow> 0
            | Some c \<Rightarrow> - (case cp_cpuPercent c of Some cpu \<Rightarrow> round2 (min 5 (max 0 cpu / 20)) | None \<Rightarrow> 0)
                - (if cp_health c = Degraded then 5 else 0) + (if cp_local c then 1 else 0));
          costly = (if hosted \<and> cost > 0 then round2 (min 20 (cost * 100)) else 0)
      in round2 (residency + qwen + history + evidence - half - slow + room + computer - costly))"

definition evaluateInstance :: "RouterConfig \<Rightarrow> Fleet \<Rightarrow> RouterState \<Rightarrow> timestamp \<Rightarrow> CapabilityRequirements \<Rightarrow> RouteRequest \<Rightarrow> CircuitState
    \<Rightarrow> ModelRecord \<Rightarrow> ModelInstance \<Rightarrow> Rejection + InstanceEval" where
  "evaluateInstance cfg fl st now req rq circuit m i =
     (case not_servable fl req m i of Some x \<Rightarrow> Inl x | None \<Rightarrow>
      (let readiness = readinessOf (rs_readiness st) (mo_id m) (mi_id i) in
       case not_verified cfg now readiness of Some x \<Rightarrow> Inl x | None \<Rightarrow>
      (case checkCapabilities req m i readiness of Some f \<Rightarrow> Inl (Capability f) | None \<Rightarrow>
      (case hosted_cost cfg fl rq m i of Inl x \<Rightarrow> Inl x | Inr cost \<Rightarrow>
       if circuit = OPEN then Inl CircuitOpen
       else if memory_short fl m i then Inl NoMemory
       else Inr \<lparr>ie_instance = i, ie_hosted = hosted_on fl m i, ie_tier = (if rq_localFirst rq \<and> hosted_on fl m i then 1 else 0),
         ie_score = score_of cfg fl st req circuit m i (the readiness) cost, ie_estimatedCostUsd = cost,
         ie_estimatedLatencyMs = estimatedLatency st (mo_id m) readiness, ie_readiness = the readiness\<rparr>))))"

subsection \<open>The evaluation of a model, and the route\<close>

definition compareInstance :: "(string \<Rightarrow> string \<Rightarrow> rat) \<Rightarrow> InstanceEval \<Rightarrow> InstanceEval \<Rightarrow> rat" where
  "compareInstance lc a b =
     (if ie_tier a - ie_tier b \<noteq> 0 then ie_tier a - ie_tier b
      else if ie_score b - ie_score a \<noteq> 0 then ie_score b - ie_score a
      else lc (mi_id (ie_instance a)) (mi_id (ie_instance b)))"

datatype ModelRejection = ExcludedByCaller | NoInstance | AllRejected "(string \<times> Rejection) list" | Outranked string

record ModelEval =
  me_record :: ModelRecord
  me_best :: "InstanceEval option"
  me_rejection :: "ModelRejection option"

definition evaluateModel :: "RouterConfig \<Rightarrow> Fleet \<Rightarrow> RouterState \<Rightarrow> timestamp \<Rightarrow> CapabilityRequirements \<Rightarrow> RouteRequest \<Rightarrow> ModelRecord \<Rightarrow> ModelEval" where
  "evaluateModel cfg fl st now req rq m =
     (if mo_id m \<in> set (rq_excludeModelIds rq) then \<lparr>me_record = m, me_best = None, me_rejection = Some ExcludedByCaller\<rparr>
      else
        (let instances = fl_instancesOf fl (mo_id m) in
         if instances = [] then \<lparr>me_record = m, me_best = None, me_rejection = Some NoInstance\<rparr>
         else
           (let circuit = cs_state (circuit_status (rc_reliability cfg) (rs_circuits st) (mo_id m) (rc_taskClass cfg) now);
                evals = map (\<lambda>i. (i, evaluateInstance cfg fl st now req rq circuit m i)) instances;
                ok = sort_by (compareInstance (rc_localeCompare cfg)) (concat (map (\<lambda>(_, r). case r of Inl _ \<Rightarrow> [] | Inr e \<Rightarrow> [e]) evals))
            in case ok of
                 best # _ \<Rightarrow> \<lparr>me_record = m, me_best = Some best, me_rejection = None\<rparr>
               | [] \<Rightarrow> \<lparr>me_record = m, me_best = None,
                    me_rejection = Some (AllRejected (concat (map (\<lambda>(i, r). case r of Inl x \<Rightarrow> [(mi_id i, x)] | Inr _ \<Rightarrow> []) evals)))\<rparr>)))"

record GoalModelRouteDecision =
  gm_modelId :: string
  gm_instanceId :: string
  gm_runtimeId :: string
  gm_computerId :: "string option"
  gm_hosted :: bool
  gm_estimatedCostUsd :: rat
  gm_score :: rat
  gm_estimatedLatencyMs :: "rat option"
  gm_readiness :: ReadinessRecord
  gm_rejected :: "(string \<times> ModelRejection) list"
  gm_decidedAt :: timestamp

text \<open>The request as \<open>explain\<close> takes it over\<close>

definition normalized :: "RouteRequest \<Rightarrow> RouteRequest" where
  "normalized rq = rq\<lparr>rq_remainingHostedBudgetUsd := max 0 (rq_remainingHostedBudgetUsd rq)\<rparr>"

definition compareModels :: "(string \<Rightarrow> string \<Rightarrow> rat) \<Rightarrow> ModelRecord \<times> InstanceEval \<Rightarrow> ModelRecord \<times> InstanceEval \<Rightarrow> rat" where
  "compareModels lc a b = (if compareInstance lc (snd a) (snd b) \<noteq> 0 then compareInstance lc (snd a) (snd b) else lc (mo_id (fst a)) (mo_id (fst b)))"

definition evaluations :: "RouterConfig \<Rightarrow> Fleet \<Rightarrow> RouterState \<Rightarrow> timestamp \<Rightarrow> RouteRequest \<Rightarrow> ModelEval list" where
  "evaluations cfg fl st now rq = map (evaluateModel cfg fl st now (parseCapabilities (rq_requiredCapabilities rq)) (normalized rq)) (fl_models fl)"

definition eligible_models :: "ModelEval list \<Rightarrow> (ModelRecord \<times> InstanceEval) list" where
  "eligible_models evals = concat (map (\<lambda>e. case me_best e of None \<Rightarrow> [] | Some b \<Rightarrow> [(me_record e, b)]) evals)"

text \<open>Every model but the winner is listed as rejected, in the order of their ids.\<close>

definition rejected_models :: "(string \<Rightarrow> string \<Rightarrow> rat) \<Rightarrow> string \<Rightarrow> ModelEval list \<Rightarrow> (string \<times> ModelRejection) list" where
  "rejected_models lc winner evals =
     map (\<lambda>e. (mo_id (me_record e), case me_rejection e of Some x \<Rightarrow> x | None \<Rightarrow> Outranked winner))
       (filter (\<lambda>e. mo_id (me_record e) \<noteq> winner) (sort_by (\<lambda>a b. lc (mo_id (me_record a)) (mo_id (me_record b))) evals))"

definition route :: "RouterConfig \<Rightarrow> Fleet \<Rightarrow> RouterState \<Rightarrow> timestamp \<Rightarrow> RouteRequest \<Rightarrow> GoalModelRouteDecision option" where
  "route cfg fl st now rq =
     (let evals = evaluations cfg fl st now rq in
      case sort_by (compareModels (rc_localeCompare cfg)) (eligible_models evals) of
        [] \<Rightarrow> None
      | (m, b) # _ \<Rightarrow> Some \<lparr>gm_modelId = mo_id m, gm_instanceId = mi_id (ie_instance b), gm_runtimeId = mi_runtimeId (ie_instance b),
          gm_computerId = mi_computerId (ie_instance b), gm_hosted = ie_hosted b, gm_estimatedCostUsd = ie_estimatedCostUsd b, gm_score = ie_score b,
          gm_estimatedLatencyMs = ie_estimatedLatencyMs b, gm_readiness = ie_readiness b,
          gm_rejected = rejected_models (rc_localeCompare cfg) (mo_id m) evals, gm_decidedAt = now\<rparr>)"

subsection \<open>Outcomes\<close>

record RouteOutcomeInput =
  oi_modelId :: string
  oi_instanceId :: "string option"
  oi_runtimeId :: string
  oi_computerId :: "string option"
  oi_hosted :: bool
  oi_estimatedCostUsd :: rat
  oi_estimatedLatencyMs :: "rat option"
  oi_ok :: bool
  oi_latencyMs :: rat
  oi_actualCostUsd :: "rat option"
  oi_error :: "string option"
  oi_terminationReason :: "string option"
  oi_modelAttributable :: bool
  oi_taskClass :: "string option"

text \<open>What the outcome tells the circuit breaker, and whether it is attributable to the model\<close>

definition reliability_feedback :: "RouterConfig \<Rightarrow> timestamp \<Rightarrow> RouteOutcomeInput \<Rightarrow> circuits \<Rightarrow> bool \<times> circuits" where
  "reliability_feedback cfg now inp cs =
     (let taskClass = (case oi_taskClass inp of Some t \<Rightarrow> t | None \<Rightarrow> rc_taskClass cfg);
          note' = (\<lambda>ok why. snd (record_outcome (rc_reliability cfg)
            \<lparr>rl_modelId = oi_modelId inp, rl_taskClass = taskClass, rl_success = ok, rl_reason = Some why, rl_at = now\<rparr> cs))
      in case oi_terminationReason inp of
           Some (c # r) \<Rightarrow> (case recordTermination (rc_reliability cfg) (oi_modelId inp) taskClass (Some (c # r)) now cs of (status, cs') \<Rightarrow> (status \<noteq> None, cs'))
         | _ \<Rightarrow> if oi_ok inp then (True, note' True ''COMPLETED'')
             else if oi_modelAttributable inp then (True, note' False (case oi_error inp of Some e \<Rightarrow> e | None \<Rightarrow> ''model failure''))
             else (False, cs))"

definition outcome_instance :: "Fleet \<Rightarrow> RouteOutcomeInput \<Rightarrow> string option" where
  "outcome_instance fl inp =
     (case oi_instanceId inp of Some i \<Rightarrow> Some i
      | None \<Rightarrow> map_option mi_id (find (\<lambda>i. mi_runtimeId i = oi_runtimeId inp \<and> mi_computerId i = oi_computerId inp) (fl_instancesOf fl (oi_modelId inp))))"

definition readiness_feedback :: "timestamp \<Rightarrow> RouteOutcomeInput \<Rightarrow> string option \<Rightarrow> readiness \<Rightarrow> readiness" where
  "readiness_feedback now inp inst rs =
     (case inst of
        Some (c # i) \<Rightarrow>
          if oi_ok inp then
            (let prior = readinessOf rs (oi_modelId inp) (c # i) in
             record_readiness \<lparr>rr_modelId = oi_modelId inp, rr_instanceId = c # i, rr_ready = True, rr_checkedAt = now,
               rr_latencyMs = (case prior of Some p \<Rightarrow> rr_latencyMs p | None \<Rightarrow> None), rr_source = FromExecution, rr_generation = Verified',
               rr_toolUse = (case prior of Some p \<Rightarrow> rr_toolUse p | None \<Rightarrow> Untested')\<rparr> rs)
          else invalidate now (oi_modelId inp) (Some (c # i)) rs
      | _ \<Rightarrow> rs)"

definition recordOutcome :: "RouterConfig \<Rightarrow> Fleet \<Rightarrow> timestamp \<Rightarrow> RouteOutcomeInput \<Rightarrow> RouterState \<Rightarrow> RouterState" where
  "recordOutcome cfg fl now inp st =
     (case reliability_feedback cfg now inp (rs_circuits st) of (attributable, cs) \<Rightarrow>
      \<lparr>rs_outcomes = rs_outcomes st @ [\<lparr>ou_seq = rs_seq st + 1, ou_modelId = oi_modelId inp, ou_instanceId = oi_instanceId inp, ou_hosted = oi_hosted inp,
         ou_ok = oi_ok inp, ou_attributable = attributable, ou_taskClass = (case oi_taskClass inp of Some t \<Rightarrow> t | None \<Rightarrow> rc_taskClass cfg),
         ou_estimatedCostUsd = oi_estimatedCostUsd inp,
         ou_actualCostUsd = (case oi_actualCostUsd inp of Some c \<Rightarrow> c | None \<Rightarrow> if oi_hosted inp then oi_estimatedCostUsd inp else 0),
         ou_estimatedLatencyMs = oi_estimatedLatencyMs inp, ou_actualLatencyMs = max 0 (round_rat (oi_latencyMs inp)),
         ou_terminationReason = oi_terminationReason inp, ou_recordedAt = now\<rparr>],
       rs_seq = rs_seq st + 1, rs_circuits = cs,
       rs_readiness = readiness_feedback now inp (outcome_instance fl inp) (rs_readiness st)\<rparr>)"

definition fallback :: "RouterConfig \<Rightarrow> Fleet \<Rightarrow> timestamp \<Rightarrow> RouteRequest \<Rightarrow> RouteOutcomeInput \<Rightarrow> RouterState \<Rightarrow> GoalModelRouteDecision option \<times> RouterState" where
  "fallback cfg fl now rq failed st =
     (let st' = recordOutcome cfg fl now (failed\<lparr>oi_ok := False, oi_taskClass := None, oi_actualCostUsd := None\<rparr>) st in
      (route cfg fl st' now (rq\<lparr>rq_excludeModelIds := remdups (rq_excludeModelIds rq @ [oi_modelId failed])\<rparr>), st'))"

record ModelAccounting =
  ma_modelId :: string
  ma_routes :: nat
  ma_successes :: nat
  ma_failures :: nat
  ma_attributableSamples :: nat
  ma_attributableSuccessRate :: "rat option"
  ma_estimatedCostUsd :: rat
  ma_actualCostUsd :: rat
  ma_avgEstimatedLatencyMs :: "rat option"
  ma_avgActualLatencyMs :: "rat option"
  ma_lastOutcomeAt :: "timestamp option"

definition average :: "rat list \<Rightarrow> rat option" where
  "average xs = (if xs = [] then None else Some (round_rat (sum_list xs / of_nat (length xs))))"

definition accountingFor :: "RouterState \<Rightarrow> string \<Rightarrow> ModelAccounting" where
  "accountingFor st modelId =
     (let all = filter (\<lambda>x. ou_modelId x = modelId) (rs_outcomes st);
          attributable = filter ou_attributable all;
          est = filter (\<lambda>x. ou_estimatedLatencyMs x \<noteq> None) all
      in \<lparr>ma_modelId = modelId, ma_routes = length all, ma_successes = length (filter ou_ok all), ma_failures = length (filter (\<lambda>x. \<not> ou_ok x) all),
          ma_attributableSamples = length attributable,
          ma_attributableSuccessRate = (if attributable = [] then None else Some (round2 (of_nat (length (filter ou_ok attributable)) / of_nat (length attributable)))),
          ma_estimatedCostUsd = round6 (sum_list (map ou_estimatedCostUsd all)), ma_actualCostUsd = round6 (sum_list (map ou_actualCostUsd all)),
          ma_avgEstimatedLatencyMs = average (map (the \<circ> ou_estimatedLatencyMs) est), ma_avgActualLatencyMs = average (map ou_actualLatencyMs all),
          ma_lastOutcomeAt = (if all = [] then None else Some (ou_recordedAt (last all)))\<rparr>)"

subsection \<open>The hard rules\<close>

definition circuit_state :: "RouterConfig \<Rightarrow> RouterState \<Rightarrow> timestamp \<Rightarrow> ModelRecord \<Rightarrow> CircuitState" where
  "circuit_state cfg st now m = cs_state (circuit_status (rc_reliability cfg) (rs_circuits st) (mo_id m) (rc_taskClass cfg) now)"

definition servable :: "Fleet \<Rightarrow> ModelRecord \<Rightarrow> ModelInstance \<Rightarrow> bool" where
  "servable fl m i \<longleftrightarrow> \<not> unprobeable i \<and> mi_health i \<noteq> HealthUnavailable \<and>
     (\<forall>r. runtime_of fl i = Some r \<longrightarrow> rt_health r \<noteq> HealthUnavailable) \<and>
     (hosted_on fl m i \<and> fl_runtimes fl \<noteq> None \<longrightarrow> runtime_of fl i \<noteq> None) \<and>
     (\<forall>c computers. mi_computerId i = Some c \<and> c \<noteq> [] \<and> fl_computers fl = Some computers \<longrightarrow>
        (\<exists>r. computers c = Some r \<and> cp_online r \<and> cp_health r \<noteq> HealthUnavailable))"

definition hard_rules :: "RouterConfig \<Rightarrow> Fleet \<Rightarrow> RouterState \<Rightarrow> timestamp \<Rightarrow> RouteRequest \<Rightarrow> ModelRecord \<Rightarrow> ModelInstance \<Rightarrow> bool" where
  "hard_rules cfg fl st now rq m i \<longleftrightarrow>
     m \<in> set (fl_models fl) \<and> mo_id m \<notin> set (rq_excludeModelIds rq) \<and> i \<in> set (fl_instancesOf fl (mo_id m)) \<and> servable fl m i \<and>
     (\<exists>r. readinessOf (rs_readiness st) (mo_id m) (mi_id i) = Some r \<and> isFresh (rc_ttlMs cfg) now r \<and>
        (\<forall>entry \<in> set (rq_requiredCapabilities rq). entry_met m i (Some r) (\<not> hosted_on fl m i) entry)) \<and>
     (hosted_on fl m i \<longrightarrow> 0 < rq_remainingHostedBudgetUsd rq \<and>
        (\<exists>p. price_of fl m i = Some p \<and> validPricing p \<and> cost_under cfg p \<le> rq_remainingHostedBudgetUsd rq)) \<and>
     circuit_state cfg st now m \<noteq> OPEN \<and> \<not> memory_short fl m i"

definition cost_on :: "RouterConfig \<Rightarrow> Fleet \<Rightarrow> ModelRecord \<Rightarrow> ModelInstance \<Rightarrow> rat" where
  "cost_on cfg fl m i = (if hosted_on fl m i then (case price_of fl m i of Some p \<Rightarrow> cost_under cfg p | None \<Rightarrow> 0) else 0)"

definition evaluated :: "RouterConfig \<Rightarrow> Fleet \<Rightarrow> RouterState \<Rightarrow> timestamp \<Rightarrow> RouteRequest \<Rightarrow> ModelRecord \<Rightarrow> ModelInstance \<Rightarrow> InstanceEval" where
  "evaluated cfg fl st now rq m i =
     (let r = the (readinessOf (rs_readiness st) (mo_id m) (mi_id i)); req = parseCapabilities (rq_requiredCapabilities rq); cost = cost_on cfg fl m i in
      \<lparr>ie_instance = i, ie_hosted = hosted_on fl m i, ie_tier = (if rq_localFirst rq \<and> hosted_on fl m i then 1 else 0),
       ie_score = score_of cfg fl st req (circuit_state cfg st now m) m i r cost, ie_estimatedCostUsd = cost,
       ie_estimatedLatencyMs = estimatedLatency st (mo_id m) (Some r), ie_readiness = r\<rparr>)"

lemma not_servable_None: "not_servable fl req m i = None \<longleftrightarrow> servable fl m i \<and> (cr_localOnly req \<longrightarrow> \<not> hosted_on fl m i)"
  unfolding not_servable_def servable_def Let_def computer_of_def
  by (cases "mi_computerId i"; cases "fl_computers fl"; cases "runtime_of fl i") (auto split: option.splits)

lemma not_verified_None: "not_verified cfg now r \<noteq> None \<or> (\<exists>x. r = Some x \<and> isFresh (rc_ttlMs cfg) now x)"
  by (auto simp: not_verified_def split: option.splits if_splits)

lemma not_verified_fresh: "not_verified cfg now (Some x) = None \<longleftrightarrow> isFresh (rc_ttlMs cfg) now x"
  by (auto simp: not_verified_def isFresh_def)

lemma hosted_cost_Inr:
  "hosted_cost cfg fl (normalized rq) m i = Inr c \<longleftrightarrow> c = cost_on cfg fl m i \<and>
     (hosted_on fl m i \<longrightarrow> 0 < rq_remainingHostedBudgetUsd rq \<and>
        (\<exists>p. price_of fl m i = Some p \<and> validPricing p \<and> cost_under cfg p \<le> rq_remainingHostedBudgetUsd rq))"
  by (auto simp: hosted_cost_def cost_on_def normalized_def max_def split: option.splits if_splits)

lemma evaluateInstance_Inr:
  assumes "m \<in> set (fl_models fl)" "mo_id m \<notin> set (rq_excludeModelIds rq)" "i \<in> set (fl_instancesOf fl (mo_id m))"
  shows "evaluateInstance cfg fl st now (parseCapabilities (rq_requiredCapabilities rq)) (normalized rq) (circuit_state cfg st now m) m i = Inr e \<longleftrightarrow>
     hard_rules cfg fl st now rq m i \<and> e = evaluated cfg fl st now rq m i"
proof -
  let ?req = "parseCapabilities (rq_requiredCapabilities rq)"
  let ?r = "readinessOf (rs_readiness st) (mo_id m) (mi_id i)"
  let ?e = "evaluateInstance cfg fl st now ?req (normalized rq) (circuit_state cfg st now m) m i"
  have lf: "rq_localFirst (normalized rq) = rq_localFirst rq" by (simp add: normalized_def)
  show ?thesis
  proof (cases "\<exists>x. ?r = Some x \<and> isFresh (rc_ttlMs cfg) now x")
    case False
    then have "not_verified cfg now ?r \<noteq> None" using not_verified_None by blast
    then have "?e \<noteq> Inr e" by (auto simp: evaluateInstance_def Let_def split: option.splits)
    with False show ?thesis by (auto simp: hard_rules_def)
  next
    case True
    then obtain x where x: "?r = Some x" "isFresh (rc_ttlMs cfg) now x" by blast
    let ?rules = "not_servable fl ?req m i = None \<and> checkCapabilities ?req m i (Some x) = None \<and> (\<exists>c. hosted_cost cfg fl (normalized rq) m i = Inr c) \<and>
      circuit_state cfg st now m \<noteq> OPEN \<and> \<not> memory_short fl m i"
    have c: "c = cost_on cfg fl m i" if "hosted_cost cfg fl (normalized rq) m i = Inr c" for c using that hosted_cost_Inr by blast
    have "not_verified cfg now (Some x) = None" using x(2) not_verified_fresh by blast
    then have "?e = Inr e \<longleftrightarrow> ?rules \<and> e = evaluated cfg fl st now rq m i"
      using x(1) c by (auto simp: evaluateInstance_def evaluated_def Let_def lf split: option.splits sum.splits)
    also have "?rules \<longleftrightarrow> hard_rules cfg fl st now rq m i"
      using x assms capabilities_exact [of "rq_requiredCapabilities rq" m i "Some x" "\<not> hosted_on fl m i"]
      by (auto simp: hard_rules_def not_servable_None hosted_cost_Inr)
    finally show ?thesis .
  qed
qed

lemma evaluateModel_best:
  assumes m: "m \<in> set (fl_models fl)"
  shows "me_best (evaluateModel cfg fl st now (parseCapabilities (rq_requiredCapabilities rq)) (normalized rq) m) = Some b \<Longrightarrow>
      \<exists>i. hard_rules cfg fl st now rq m i \<and> b = evaluated cfg fl st now rq m i"
    and "me_best (evaluateModel cfg fl st now (parseCapabilities (rq_requiredCapabilities rq)) (normalized rq) m) = None \<Longrightarrow> \<not> hard_rules cfg fl st now rq m i"
    and "me_best (evaluateModel cfg fl st now (parseCapabilities (rq_requiredCapabilities rq)) (normalized rq) m) = Some b \<Longrightarrow> comparator (compareInstance (rc_localeCompare cfg)) \<Longrightarrow>
      hard_rules cfg fl st now rq m i \<Longrightarrow> compareInstance (rc_localeCompare cfg) b (evaluated cfg fl st now rq m i) \<le> 0"
    and "me_record (evaluateModel cfg fl st now req rq' m) = m"
proof -
  let ?req = "parseCapabilities (rq_requiredCapabilities rq)"
  let ?M = "evaluateModel cfg fl st now ?req (normalized rq) m"
  let ?E = "\<lambda>i. evaluateInstance cfg fl st now ?req (normalized rq) (circuit_state cfg st now m) m i"
  let ?ok = "concat (map (\<lambda>(_, r). case r of Inl _ \<Rightarrow> [] | Inr e \<Rightarrow> [e]) (map (\<lambda>i. (i, ?E i)) (fl_instancesOf fl (mo_id m))))"
  have ex: "rq_excludeModelIds (normalized rq) = rq_excludeModelIds rq" by (simp add: normalized_def)
  have ok: "e \<in> set ?ok \<longleftrightarrow> (\<exists>i. hard_rules cfg fl st now rq m i \<and> e = evaluated cfg fl st now rq m i)" if "mo_id m \<notin> set (rq_excludeModelIds rq)" for e
  proof -
    have "e \<in> set ?ok \<longleftrightarrow> (\<exists>i \<in> set (fl_instancesOf fl (mo_id m)). ?E i = Inr e)" by (force split: sum.splits)
    also have "\<dots> \<longleftrightarrow> (\<exists>i. hard_rules cfg fl st now rq m i \<and> e = evaluated cfg fl st now rq m i)"
      using evaluateInstance_Inr [OF m that] by (auto simp: hard_rules_def)
    finally show ?thesis .
  qed
  have best: "me_best ?M = (if mo_id m \<in> set (rq_excludeModelIds rq) then None else (case sort_by (compareInstance (rc_localeCompare cfg)) ?ok of [] \<Rightarrow> None | b # _ \<Rightarrow> Some b))"
  proof (cases "fl_instancesOf fl (mo_id m) = []")
    case True
    then show ?thesis by (simp add: evaluateModel_def ex)
  next
    case False
    then show ?thesis unfolding evaluateModel_def ex Let_def circuit_state_def [symmetric]
      by (cases "sort_by (compareInstance (rc_localeCompare cfg)) ?ok") (simp_all only: if_False list.case ModelEval.simps split: if_split, simp_all)
  qed
  show "\<exists>i. hard_rules cfg fl st now rq m i \<and> b = evaluated cfg fl st now rq m i" if b: "me_best ?M = Some b"
  proof -
    have ne: "mo_id m \<notin> set (rq_excludeModelIds rq)" using b unfolding best by (auto split: if_splits)
    with b have "b \<in> set ?ok" unfolding best by (auto dest!: first_sorted_in simp del: set_concat set_map)
    with ok [OF ne] show ?thesis by blast
  qed
  show "\<not> hard_rules cfg fl st now rq m i" if n: "me_best ?M = None"
  proof
    assume h: "hard_rules cfg fl st now rq m i"
    then have ne: "mo_id m \<notin> set (rq_excludeModelIds rq)" by (simp add: hard_rules_def)
    with n have "sort_by (compareInstance (rc_localeCompare cfg)) ?ok = []" unfolding best by (auto split: list.splits)
    then have "?ok = []" by (simp only: sort_by_Nil)
    with ok [OF ne] h show False by fastforce
  qed
  show "compareInstance (rc_localeCompare cfg) b (evaluated cfg fl st now rq m i) \<le> 0"
    if b: "me_best ?M = Some b" and c: "comparator (compareInstance (rc_localeCompare cfg))" and h: "hard_rules cfg fl st now rq m i"
  proof -
    have ne: "mo_id m \<notin> set (rq_excludeModelIds rq)" using h by (simp add: hard_rules_def)
    with b have "b = hd (sort_by (compareInstance (rc_localeCompare cfg)) ?ok)" unfolding best by (auto split: list.splits)
    moreover have "evaluated cfg fl st now rq m i \<in> set ?ok" using ok [OF ne] h by blast
    ultimately show ?thesis using comparator.hd_sort_by_least [OF c] by blast
  qed
  show "me_record (evaluateModel cfg fl st now req rq' m) = m" by (auto simp: evaluateModel_def Let_def split: list.splits)
qed

lemma eligible_iff:
  "(m, b) \<in> set (eligible_models (evaluations cfg fl st now rq)) \<longleftrightarrow>
     m \<in> set (fl_models fl) \<and> me_best (evaluateModel cfg fl st now (parseCapabilities (rq_requiredCapabilities rq)) (normalized rq) m) = Some b"
  using evaluateModel_best(4) by (force simp: eligible_models_def evaluations_def split: option.splits)

lemma route_cases:
  obtains (none) "route cfg fl st now rq = None" "\<And>m i. \<not> hard_rules cfg fl st now rq m i"
  | (some) m i d where "route cfg fl st now rq = Some d" "hard_rules cfg fl st now rq m i" "gm_modelId d = mo_id m" "gm_instanceId d = mi_id i"
      "gm_runtimeId d = mi_runtimeId i" "gm_hosted d = hosted_on fl m i" "gm_estimatedCostUsd d = cost_on cfg fl m i"
      "gm_readiness d = the (readinessOf (rs_readiness st) (mo_id m) (mi_id i))" "gm_score d = ie_score (evaluated cfg fl st now rq m i)"
      "(m, evaluated cfg fl st now rq m i) = hd (sort_by (compareModels (rc_localeCompare cfg)) (eligible_models (evaluations cfg fl st now rq)))"
proof (cases "sort_by (compareModels (rc_localeCompare cfg)) (eligible_models (evaluations cfg fl st now rq))")
  case Nil
  then have "eligible_models (evaluations cfg fl st now rq) = []" by simp
  then have "\<not> hard_rules cfg fl st now rq m i" for m i
    using eligible_iff evaluateModel_best(2) by (metis hard_rules_def list.set(1) empty_iff option.exhaust)
  moreover have "route cfg fl st now rq = None" using Nil by (simp add: route_def Let_def)
  ultimately show thesis by (rule none [rotated])
next
  case (Cons mb rest)
  obtain m b where mb: "mb = (m, b)" by fastforce
  have "(m, b) \<in> set (eligible_models (evaluations cfg fl st now rq))" using Cons mb by (metis list.set_intros(1) set_sort_by)
  then have "m \<in> set (fl_models fl)" "me_best (evaluateModel cfg fl st now (parseCapabilities (rq_requiredCapabilities rq)) (normalized rq) m) = Some b"
    by (simp_all add: eligible_iff)
  from evaluateModel_best(1) [OF this] obtain i where i: "hard_rules cfg fl st now rq m i" "b = evaluated cfg fl st now rq m i" by blast
  show thesis by (rule some [OF _ i(1)]) (use Cons mb i(2) in \<open>simp_all add: route_def Let_def, simp_all add: evaluated_def Let_def\<close>)
qed

subsection \<open>Comparators in turn\<close>

text \<open>
  What \<open>localeCompare\<close> and the comparators built from it satisfy: a total preorder whose sign changes with the
  order of the arguments. A comparator that falls back on another one satisfies it again.
\<close>

locale collation = comparator cmp for cmp :: "'a \<Rightarrow> 'a \<Rightarrow> rat" +
  assumes cmp_sign: "cmp x y < 0 \<longleftrightarrow> 0 < cmp y x"
begin

lemma cmp_tie: "cmp x y = 0 \<longleftrightarrow> cmp x y \<le> 0 \<and> cmp y x \<le> 0"
  using cmp_sign [of x y] cmp_sign [of y x] by linarith

lemma collation_on: "collation (\<lambda>a b. cmp (f a) (f b))"
  by unfold_locales (use cmp_total cmp_trans cmp_sign in blast)+

lemma collation_then:
  assumes "collation c2"
  shows "collation (\<lambda>a b. if cmp a b \<noteq> 0 then cmp a b else c2 a b)"
proof -
  have r: "(if cmp a b \<noteq> 0 then cmp a b else c2 a b) \<le> 0 \<longleftrightarrow> cmp a b \<le> 0 \<and> (cmp b a \<le> 0 \<longrightarrow> c2 a b \<le> 0)" for a b
    using cmp_tie [of a b] by auto
  note c2 = assms [unfolded collation_def comparator_def collation_axioms_def]
  show ?thesis
  proof unfold_locales
    fix x y z
    show "(if cmp x y \<noteq> 0 then cmp x y else c2 x y) \<le> 0 \<or> (if cmp y x \<noteq> 0 then cmp y x else c2 y x) \<le> 0"
      unfolding r using cmp_total c2 by blast
    show "(if cmp x y \<noteq> 0 then cmp x y else c2 x y) \<le> 0 \<Longrightarrow> (if cmp y z \<noteq> 0 then cmp y z else c2 y z) \<le> 0 \<Longrightarrow>
        (if cmp x z \<noteq> 0 then cmp x z else c2 x z) \<le> 0"
      unfolding r using cmp_trans c2 by blast
    show "(if cmp x y \<noteq> 0 then cmp x y else c2 x y) < 0 \<longleftrightarrow> 0 < (if cmp y x \<noteq> 0 then cmp y x else c2 y x)"
    proof -
      have "c2 x y < 0 \<longleftrightarrow> 0 < c2 y x" using c2 by blast
      then show ?thesis using cmp_sign [of x y] cmp_sign [of y x] by (cases "cmp x y = 0"; cases "cmp y x = 0") auto
    qed
  qed
qed

end

lemma collation_key: "collation (\<lambda>a b. f a - f b)" "collation (\<lambda>a b. f b - f a)"
  by (unfold_locales; auto)+

interpretation str_collation: collation compare_str
  by unfold_locales (auto simp: compare_str_def)

lemma collation_instances: "collation lc \<Longrightarrow> collation (compareInstance lc)"
  unfolding compareInstance_def
  by (intro collation.collation_then collation_key collation.collation_on [where f = "\<lambda>a. mi_id (ie_instance a)"])

lemma collation_models: "collation lc \<Longrightarrow> collation (compareModels lc)"
  unfolding compareModels_def
  by (intro collation.collation_then collation.collation_on [where f = snd, OF collation_instances] collation.collation_on [where f = "\<lambda>a. mo_id (fst a)"])

subsection \<open>What is routed\<close>

text \<open>
  C12. The router obeys its hard rules and gives up only when it must: a decision names a registered, not
  excluded model and an instance of it that can serve, was verified recently enough, meets every required
  capability, whose circuit is not open and which fits into memory; a hosted one has a known price and
  an estimated cost within the remaining budget, which is positive. There is no decision exactly when no
  instance of any model satisfies these rules.
\<close>
theorem route_obeys_hard_rules:
  "(route cfg fl st now rq = None \<longleftrightarrow> (\<forall>m i. \<not> hard_rules cfg fl st now rq m i)) \<and>
   (\<forall>d. route cfg fl st now rq = Some d \<longrightarrow>
      (\<exists>m i. hard_rules cfg fl st now rq m i \<and> gm_modelId d = mo_id m \<and> gm_instanceId d = mi_id i \<and> gm_runtimeId d = mi_runtimeId i \<and>
         gm_hosted d = hosted_on fl m i \<and> gm_estimatedCostUsd d = cost_on cfg fl m i) \<and>
      (gm_hosted d \<longrightarrow> 0 < rq_remainingHostedBudgetUsd rq \<and> gm_estimatedCostUsd d \<le> rq_remainingHostedBudgetUsd rq))"
proof (cases rule: route_cases [of cfg fl st now rq])
  case none
  then show ?thesis by simp
next
  case (some m i d)
  have "hosted_on fl m i \<Longrightarrow> 0 < rq_remainingHostedBudgetUsd rq \<and> cost_on cfg fl m i \<le> rq_remainingHostedBudgetUsd rq"
    using some(2) by (auto simp: hard_rules_def cost_on_def)
  with some(1-7) show ?thesis by auto
qed

text \<open>
  C29. The router takes the best of what the hard rules admit: with local-first no hosted instance is chosen
  while a local one is admissible, and among the instances of the same rank none has a higher score.
\<close>
theorem route_takes_the_best:
  assumes lc: "collation (rc_localeCompare cfg)" and d: "route cfg fl st now rq = Some d" and h: "hard_rules cfg fl st now rq m' i'"
  shows "(rq_localFirst rq \<and> \<not> hosted_on fl m' i' \<longrightarrow> \<not> gm_hosted d) \<and>
     ((rq_localFirst rq \<longrightarrow> hosted_on fl m' i' = gm_hosted d) \<longrightarrow>
        score_of cfg fl st (parseCapabilities (rq_requiredCapabilities rq)) (circuit_state cfg st now m') m' i'
          (the (readinessOf (rs_readiness st) (mo_id m') (mi_id i'))) (cost_on cfg fl m' i') \<le> gm_score d)"
proof -
  let ?lc = "rc_localeCompare cfg"
  have ci: "comparator (compareInstance ?lc)" and cm: "comparator (compareModels ?lc)"
    using collation_instances [OF lc] collation_models [OF lc] by (simp_all add: collation_def)
  from d h show ?thesis
  proof (cases rule: route_cases [of cfg fl st now rq])
    case (some m i d')
    let ?b = "evaluated cfg fl st now rq m i"
    let ?e = "evaluated cfg fl st now rq m' i'"
    have m': "m' \<in> set (fl_models fl)" using h by (simp add: hard_rules_def)
    obtain b' where b': "me_best (evaluateModel cfg fl st now (parseCapabilities (rq_requiredCapabilities rq)) (normalized rq) m') = Some b'"
      using evaluateModel_best(2) [OF m'] h by (metis option.exhaust)
    have "compareInstance ?lc b' ?e \<le> 0" by (rule evaluateModel_best(3) [OF m' b' ci h])
    moreover have "compareModels ?lc (m, ?b) (m', b') \<le> 0"
      using comparator.hd_sort_by_least [OF cm] m' b' eligible_iff some(10) by metis
    then have "compareInstance ?lc ?b b' \<le> 0" by (auto simp: compareModels_def split: if_splits)
    ultimately have "compareInstance ?lc ?b ?e \<le> 0" using comparator.cmp_trans [OF ci] by blast
    moreover have "gm_hosted d = hosted_on fl m i" "gm_score d = ie_score ?b" using some d by simp_all
    ultimately show ?thesis by (auto simp: compareInstance_def evaluated_def Let_def split: if_splits)
  qed simp
qed

subsection \<open>After a failure\<close>

text \<open>
  A failed instance is out until it is verified again: after a failure is recorded for an instance, no later
  request, at whatever time and with whatever requirements, is routed to it, as long as no newer readiness
  evidence arrives.
\<close>
theorem failure_excludes_instance:
  assumes ok: "readiness_ok (rs_readiness st)" and failed: "\<not> oi_ok inp" and inst: "outcome_instance fl inp = Some inst" "inst \<noteq> []"
    and old: "\<forall>x \<in> set xs. rr_checkedAt x < now"
    and known: "\<forall>x \<in> set xs. (rr_modelId x, rr_instanceId x) = (oi_modelId inp, inst) \<longrightarrow> readinessOf (rs_readiness st) (oi_modelId inp) inst \<noteq> None"
    and st': "st' = (recordOutcome cfg fl now inp st)\<lparr>rs_readiness := fold record_readiness xs (rs_readiness (recordOutcome cfg fl now inp st))\<rparr>"
    and d: "route cfg' fl' st' later rq = Some d"
  shows "(gm_modelId d, gm_instanceId d) \<noteq> (oi_modelId inp, inst)"
proof -
  let ?m = "oi_modelId inp"
  let ?rs = "rs_readiness (recordOutcome cfg fl now inp st)"
  have rs: "?rs = invalidate now ?m (Some inst) (rs_readiness st)"
    using failed inst by (cases inst) (simp_all add: recordOutcome_def readiness_feedback_def split: prod.splits)
  have stale: "case readinessOf (rs_readiness st') ?m inst of None \<Rightarrow> True | Some r \<Rightarrow> \<not> rr_ready r"
  proof (cases "readinessOf (rs_readiness st) ?m inst")
    case None
    have none: "readinessOf (fold record_readiness ys q) ?m inst = None"
      if "readinessOf q ?m inst = None" "\<forall>x \<in> set ys. (rr_modelId x, rr_instanceId x) \<noteq> (?m, inst)" for ys q
      using that
    proof (induction ys arbitrary: q)
      case (Cons y ys)
      then have "readinessOf (record_readiness y q) ?m inst = None" by (auto simp: record_readiness_def readinessOf_def split: option.splits)
      with Cons show ?case by simp
    qed simp
    have "readinessOf ?rs ?m inst = None" using None by (simp add: rs readinessOf_invalidate)
    from none [OF this] known None show ?thesis by (auto simp: st')
  next
    case (Some r)
    have "readinessOf ?rs ?m inst = Some (invalidated now r)"
      using Some ok inst by (auto simp: rs readinessOf_invalidate readiness_ok_def)
    from invalidated_stays [OF this _ old] show ?thesis by (auto simp: st' invalidated_def)
  qed
  show ?thesis
  proof
    assume eq: "(gm_modelId d, gm_instanceId d) = (?m, inst)"
    from d show False
    proof (cases rule: route_cases [of cfg' fl' st' later rq])
      case (some m i d')
      with eq d have "mo_id m = ?m" "mi_id i = inst" by simp_all
      with some(2) stale show False by (auto simp: hard_rules_def isFresh_def)
    qed simp
  qed
qed

text \<open>A fallback goes neither to the failed model nor to one the caller excluded.\<close>

lemma fallback_avoids:
  assumes "fallback cfg fl now rq failed st = (Some d, st')"
  shows "gm_modelId d \<noteq> oi_modelId failed \<and> gm_modelId d \<notin> set (rq_excludeModelIds rq)"
proof -
  let ?rq = "rq\<lparr>rq_excludeModelIds := remdups (rq_excludeModelIds rq @ [oi_modelId failed])\<rparr>"
  from assms have r: "route cfg fl st' now ?rq = Some d" unfolding fallback_def Let_def by (metis prod.inject)
  show ?thesis
  proof (cases rule: route_cases [of cfg fl st' now ?rq])
    case (some m i d')
    with r show ?thesis by (auto simp: hard_rules_def)
  qed (use r in simp)
qed

subsection \<open>Witnesses\<close>

definition sample_hosted_model :: ModelRecord where
  "sample_hosted_model = sample_model\<lparr>mo_id := ''h'', mo_family := ''gpt'', mo_local := False\<rparr>"

definition sample_hosted_instance :: ModelInstance where
  "sample_hosted_instance = sample_instance\<lparr>mi_id := ''h@openai'', mi_computerId := None, mi_runtimeId := ''openai''\<rparr>"

definition sample_fleet :: Fleet where
  "sample_fleet = \<lparr>fl_models = [sample_hosted_model, sample_model],
     fl_instancesOf = (\<lambda>m. if m = ''m'' then [sample_instance] else [sample_hosted_instance]), fl_runtimes = None, fl_computers = None,
     fl_snapshot = (\<lambda>_. None), fl_pricing = Some (\<lambda>_ _. Some \<lparr>pr_inputPerMTok = Some 3, pr_outputPerMTok = Some 15\<rparr>)\<rparr>"

definition sample_config :: RouterConfig where
  "sample_config = \<lparr>rc_taskClass = ''goal-studio'', rc_inputTokens = 8000, rc_outputTokens = 2000, rc_ttlMs = 600000, rc_reliability = default_reliability,
     rc_localeCompare = compare_str\<rparr>"

definition sample_router :: RouterState where
  "sample_router = \<lparr>rs_outcomes = [], rs_seq = 0, rs_circuits = [],
     rs_readiness = [((''m'', ''m@ollama''), sample_readiness), ((''h'', ''h@openai''), sample_readiness\<lparr>rr_modelId := ''h'', rr_instanceId := ''h@openai''\<rparr>)]\<rparr>"

definition sample_request :: RouteRequest where
  "sample_request = \<lparr>rq_requiredCapabilities = [''tools''], rq_remainingHostedBudgetUsd = 1, rq_localFirst = True, rq_excludeModelIds = []\<rparr>"

theorem route_obeys_hard_rules_witness:
  "\<exists>d. route sample_config sample_fleet sample_router 5 (sample_request\<lparr>rq_localFirst := False, rq_excludeModelIds := [''m'']\<rparr>) = Some d \<and> gm_hosted d \<and>
     gm_estimatedCostUsd d \<le> 1"
proof -
  let ?rq = "sample_request\<lparr>rq_localFirst := False, rq_excludeModelIds := [''m'']\<rparr>"
  have "(case route sample_config sample_fleet sample_router 5 ?rq of None \<Rightarrow> False | Some d \<Rightarrow> gm_hosted d)" by code_simp
  then obtain d where d: "route sample_config sample_fleet sample_router 5 ?rq = Some d" "gm_hosted d" by (auto split: option.splits)
  have "gm_estimatedCostUsd d \<le> rq_remainingHostedBudgetUsd ?rq"
    using route_obeys_hard_rules [of sample_config sample_fleet sample_router 5 ?rq] d by blast
  with d show ?thesis by (auto simp: sample_request_def)
qed

theorem route_takes_the_best_witness:
  "\<exists>d. route sample_config sample_fleet sample_router 5 sample_request = Some d \<and> gm_modelId d = ''m'' \<and> \<not> gm_hosted d \<and>
     hard_rules sample_config sample_fleet sample_router 5 sample_request sample_hosted_model sample_hosted_instance"
proof -
  have "(case route sample_config sample_fleet sample_router 5 sample_request of None \<Rightarrow> False | Some d \<Rightarrow> gm_modelId d = ''m'')" by code_simp
  then obtain d where d: "route sample_config sample_fleet sample_router 5 sample_request = Some d" "gm_modelId d = ''m''" by (auto split: option.splits)
  have lc: "collation (rc_localeCompare sample_config)" using str_collation.collation_axioms by (simp add: sample_config_def)
  have rule: "hard_rules sample_config sample_fleet sample_router 5 sample_request m i"
    if "m \<in> set (fl_models sample_fleet)" "i \<in> set (fl_instancesOf sample_fleet (mo_id m))"
      "isOk (evaluateInstance sample_config sample_fleet sample_router 5 (parseCapabilities (rq_requiredCapabilities sample_request)) (normalized sample_request)
         (circuit_state sample_config sample_router 5 m) m i)" for m i
    using that evaluateInstance_Inr [of m sample_fleet sample_request i sample_config sample_router 5] by (auto simp: isOk_iff sample_request_def)
  have "hard_rules sample_config sample_fleet sample_router 5 sample_request sample_hosted_model sample_hosted_instance"
  proof (rule rule)
    show "isOk (evaluateInstance sample_config sample_fleet sample_router 5 (parseCapabilities (rq_requiredCapabilities sample_request)) (normalized sample_request)
         (circuit_state sample_config sample_router 5 sample_hosted_model) sample_hosted_model sample_hosted_instance)" by code_simp
  qed (simp_all add: sample_fleet_def sample_hosted_model_def sample_model_def)
  moreover have "hard_rules sample_config sample_fleet sample_router 5 sample_request sample_model sample_instance"
  proof (rule rule)
    show "isOk (evaluateInstance sample_config sample_fleet sample_router 5 (parseCapabilities (rq_requiredCapabilities sample_request)) (normalized sample_request)
         (circuit_state sample_config sample_router 5 sample_model) sample_model sample_instance)" by code_simp
  qed (simp_all add: sample_fleet_def sample_model_def)
  then have "rq_localFirst sample_request \<and> \<not> hosted_on sample_fleet sample_model sample_instance \<longrightarrow> \<not> gm_hosted d"
    using route_takes_the_best [OF lc d(1)] by blast
  moreover have "\<not> hosted_on sample_fleet sample_model sample_instance" by code_simp
  ultimately show ?thesis using d by (auto simp: sample_request_def)
qed

definition sample_failure :: RouteOutcomeInput where
  "sample_failure = \<lparr>oi_modelId = ''m'', oi_instanceId = Some ''m@ollama'', oi_runtimeId = ''ollama'', oi_computerId = Some ''local'', oi_hosted = False,
     oi_estimatedCostUsd = 0, oi_estimatedLatencyMs = None, oi_ok = False, oi_latencyMs = 7, oi_actualCostUsd = None, oi_error = None,
     oi_terminationReason = None, oi_modelAttributable = False, oi_taskClass = None\<rparr>"

theorem failure_excludes_instance_witness:
  "\<exists>d. route sample_config sample_fleet (recordOutcome sample_config sample_fleet 5 sample_failure sample_router) 6 sample_request = Some d \<and>
     (gm_modelId d, gm_instanceId d) \<noteq> (''m'', ''m@ollama'')"
proof -
  let ?st = "recordOutcome sample_config sample_fleet 5 sample_failure sample_router"
  have "route sample_config sample_fleet ?st 6 sample_request \<noteq> None" by code_simp
  then obtain d where d: "route sample_config sample_fleet ?st 6 sample_request = Some d" by blast
  have ok: "readiness_ok (rs_readiness sample_router)"
    by (auto simp: readiness_ok_def readinessOf_def sample_router_def sample_readiness_def split: if_splits)
  have f: "outcome_instance sample_fleet sample_failure = Some ''m@ollama''" "\<not> oi_ok sample_failure" "oi_modelId sample_failure = ''m''"
    by (simp_all add: outcome_instance_def sample_failure_def)
  have "(gm_modelId d, gm_instanceId d) \<noteq> (oi_modelId sample_failure, ''m@ollama'')"
    by (rule failure_excludes_instance [where xs = "[]", OF ok f(2) f(1) _ _ _ _ d]) simp_all
  with d f(3) show ?thesis by simp
qed

end
