(* ===== verification/Accounts.thy ===== *)
theory Accounts
  imports Prelude
begin

text \<open>
  Accounts, limits and accounting windows of the resource governor: \<open>src/packages/core/src/resources/\<close>
  (\<open>types.ts\<close>, \<open>windows.ts\<close>, \<open>accounts.ts\<close>, \<open>estimator.ts\<close>). An account is one authorised source of inference
  with its limits; a limit counts a unit over a window, which slides or follows the UTC calendar. The
  calendar is that of the language: a time value counts the milliseconds of days of 86400 seconds.

  The lemmas show that a window contains the time it is computed for, that the calendar windows of a kind
  partition the time line, what the validation of a configuration guarantees, and how far an estimate can be
  from the raw count.
\<close>

subsection \<open>Types\<close>

datatype AccountKind = KLocal | KApi | KSubscription
datatype LimitUnit = UTokens | UInputTokens | UOutputTokens | URequests | UCostUsd
datatype WorkloadClass = WDeterministic | WSummarization | WBulk | WRoutine | WComplex | WCriticalReview
datatype UnknownLimitPolicy = UAllow | UConserve | UDeny
datatype AccountHealth = HOk | HCooldown | HAuthBlocked | HQuotaBlocked
datatype UsageSource = ProviderReported | Estimated | Conservative

text \<open>The thresholds of a limit that override the defaults are given one by one.\<close>

record LimitSpec =
  lim_unit :: LimitUnit
  lim_window :: string
  lim_limit :: "rat option"
  lim_hard :: bool
  lim_advisory :: "rat option"
  lim_conserve :: "rat option"
  lim_critical :: "rat option"

record TokenPricing =
  tp_inputPerMTok :: rat
  tp_outputPerMTok :: rat
  tp_cachedInputPerMTok :: "rat option"

datatype PricingSpec = FlatPricing TokenPricing | PricingTable "(string \<times> TokenPricing) list"

text \<open>A missing list of workloads is the empty one where the code treats both alike; \<open>enabled\<close> is \<open>!== false\<close>.\<close>

record AccountConfig =
  acc_id :: string
  acc_quotaGroup :: "string option"
  acc_kind :: AccountKind
  acc_vendorCli :: bool
  acc_runtimeIds :: "string list"
  acc_agents :: "string list"
  acc_models :: "string list"
  acc_contextLimits :: "(string, rat) dict"
  acc_limits :: "LimitSpec list"
  acc_maxConcurrent :: "rat option"
  acc_rpm :: "rat option"
  acc_tpm :: "rat option"
  acc_pricing :: "PricingSpec option"
  acc_priority :: "rat option"
  acc_workloads :: "WorkloadClass list"
  acc_reserveFor :: "WorkloadClass list option"
  acc_criticalOnly :: "WorkloadClass list option"
  acc_allowPaid :: bool
  acc_env :: "(string \<times> string) list"
  acc_enabled :: bool
  acc_unknownLimitPolicy :: "UnknownLimitPolicy option"

record ResourcePolicy =
  pol_enforce :: bool
  pol_paidApiFallback :: bool
  pol_estimateMargin :: rat
  pol_leaseMs :: int
  pol_maxTaskTokens :: rat
  pol_dailySpendUsd :: rat
  pol_monthlySpendUsd :: rat
  pol_localQueueTimeoutMs :: int
  pol_localOnlyWorkloads :: "WorkloadClass list"

definition DEFAULT_POLICY :: ResourcePolicy where
  "DEFAULT_POLICY = \<lparr>pol_enforce = False, pol_paidApiFallback = False, pol_estimateMargin = 1 / 4, pol_leaseMs = 900000, pol_maxTaskTokens = 0,
     pol_dailySpendUsd = 0, pol_monthlySpendUsd = 0, pol_localQueueTimeoutMs = 120000, pol_localOnlyWorkloads = []\<rparr>"

definition DEFAULT_RESERVE_FOR :: "WorkloadClass list" where "DEFAULT_RESERVE_FOR = [WComplex, WCriticalReview]"
definition DEFAULT_CRITICAL_ONLY :: "WorkloadClass list" where "DEFAULT_CRITICAL_ONLY = [WCriticalReview]"

text \<open>The modes of a budget, from \<open>normal\<close> to \<open>exhausted\<close>, ordered by \<open>MODE_RANK\<close>\<close>

datatype BudgetMode = MNormal | MUnknown | MAdvisory | MConserve | MCritical | MExhausted

fun MODE_RANK :: "BudgetMode \<Rightarrow> nat" where
  "MODE_RANK MNormal = 0"
| "MODE_RANK MUnknown = 1"
| "MODE_RANK MAdvisory = 2"
| "MODE_RANK MConserve = 3"
| "MODE_RANK MCritical = 4"
| "MODE_RANK MExhausted = 5"

lemma MODE_RANK_inject: "MODE_RANK a = MODE_RANK b \<longleftrightarrow> a = b"
  by (cases a; cases b) simp_all

instantiation BudgetMode :: linorder
begin

definition less_eq_BudgetMode :: "BudgetMode \<Rightarrow> BudgetMode \<Rightarrow> bool" where
  "less_eq_BudgetMode a b \<longleftrightarrow> MODE_RANK a \<le> MODE_RANK b"

definition less_BudgetMode :: "BudgetMode \<Rightarrow> BudgetMode \<Rightarrow> bool" where
  "less_BudgetMode a b \<longleftrightarrow> MODE_RANK a < MODE_RANK b"

instance
  by standard (auto simp: less_eq_BudgetMode_def less_BudgetMode_def MODE_RANK_inject)

end

definition worse :: "BudgetMode \<Rightarrow> BudgetMode \<Rightarrow> BudgetMode" where
  "worse a b = (if a < b then b else a)"

lemma worse_max: "worse a b = max a b"
  by (auto simp: worse_def max_def)

subsection \<open>Windows\<close>

datatype Window = Rolling int | CalendarDay | CalendarWeek | CalendarMonth

record WindowBounds =
  wb_start :: timestamp
  wb_end :: "timestamp option"
  wb_resetHint :: timestamp

definition UNIT_MS :: "char \<Rightarrow> int option" where
  "UNIT_MS c = (if c = CHR ''s'' then Some 1000 else if c = CHR ''m'' then Some 60000 else if c = CHR ''h'' then Some 3600000
     else if c = CHR ''d'' then Some 86400000 else None)"

definition DAY_MS :: int where "DAY_MS = 86400000"

text \<open>\<open>/^(\d+)(s|m|h|d)$/\<close> or the name of a calendar window\<close>

definition parse_window :: "string \<Rightarrow> Window option" where
  "parse_window spec =
     (if spec = ''day'' then Some CalendarDay else if spec = ''week'' then Some CalendarWeek else if spec = ''month'' then Some CalendarMonth
      else if spec = [] \<or> butlast spec = [] \<or> \<not> list_all is_digit (butlast spec) then None
      else map_option (\<lambda>ms. Rolling (int (read_nat (butlast spec)) * ms)) (UNIT_MS (last spec)))"

definition isValidWindow :: "string \<Rightarrow> bool" where
  "isValidWindow spec \<longleftrightarrow> parse_window spec \<noteq> None"

text \<open>
  Days since 1970-01-01, the first day of a year, the year of a day, and the first day of a month, which
  may be the thirteenth of a year, as \<open>Date.UTC\<close> takes it
\<close>

definition day_of :: "timestamp \<Rightarrow> int" where "day_of t = t div DAY_MS"

definition day_from_year :: "int \<Rightarrow> int" where
  "day_from_year y = 365 * (y - 1970) + (y - 1969) div 4 - (y - 1901) div 100 + (y - 1601) div 400"

definition year_of :: "int \<Rightarrow> int" where
  "year_of d = (let g = 1970 + (400 * d) div 146097 in
     if day_from_year (g + 1) \<le> d then g + 1 else if day_from_year g \<le> d then g else g - 1)"

definition leap_day :: "int \<Rightarrow> int" where "leap_day y = day_from_year (y + 1) - day_from_year y - 365"

definition month_starts :: "int \<Rightarrow> int list" where
  "month_starts l = [0, 31, 59 + l, 90 + l, 120 + l, 151 + l, 181 + l, 212 + l, 243 + l, 273 + l, 304 + l, 334 + l]"

definition first_of_month :: "int \<Rightarrow> nat \<Rightarrow> int" where
  "first_of_month y m = (let y' = y + int (m div 12) in day_from_year y' + month_starts (leap_day y') ! (m mod 12))"

definition month_of :: "int \<Rightarrow> nat" where
  "month_of d = (let y = year_of d in length (filter (\<lambda>s. s \<le> d - day_from_year y) (month_starts (leap_day y))) - 1)"

definition window_at :: "Window \<Rightarrow> timestamp \<Rightarrow> WindowBounds" where
  "window_at w now =
     (let d = day_of now; calendar = (\<lambda>a b. \<lparr>wb_start = a * DAY_MS, wb_end = Some (b * DAY_MS), wb_resetHint = b * DAY_MS\<rparr>) in
      case w of
        Rolling len \<Rightarrow> \<lparr>wb_start = now - len, wb_end = None, wb_resetHint = now + len\<rparr>
      | CalendarDay \<Rightarrow> calendar d (d + 1)
      | CalendarWeek \<Rightarrow> (let monday = d - ((d + 4) mod 7 + 6) mod 7 in calendar monday (monday + 7))
      | CalendarMonth \<Rightarrow> calendar (first_of_month (year_of d) (month_of d)) (first_of_month (year_of d) (month_of d + 1)))"

definition windowBounds :: "string \<Rightarrow> timestamp \<Rightarrow> string + WindowBounds" where
  "windowBounds spec now = (case parse_window spec of None \<Rightarrow> Inl (''INVALID_WINDOW: '' @ spec) | Some w \<Rightarrow> Inr (window_at w now))"

lemma day_of_le: "a * DAY_MS \<le> t \<longleftrightarrow> a \<le> day_of t" "t < b * DAY_MS \<longleftrightarrow> day_of t < b"
  unfolding day_of_def DAY_MS_def by linarith+

lemma day_of_iff: "day_of t = d \<longleftrightarrow> d * DAY_MS \<le> t \<and> t < (d + 1) * DAY_MS"
  unfolding day_of_def DAY_MS_def by (auto simp: algebra_simps)

lemma day_from_year_bounds:
  "146097 * (y - 1970) - 608 < 400 * day_from_year y" "400 * day_from_year y < 146097 * (y - 1970) + 594"
proof -
  have q: "k * (a div k) \<le> a" "a < k * (a div k) + k" if "0 < k" for a k :: int
    using pos_mod_bound [OF that, of a] pos_mod_sign [OF that, of a] mult_div_mod_eq [of k a] by linarith+
  have "4 * ((y - 1969) div 4) \<le> y - 1969" "y - 1969 < 4 * ((y - 1969) div 4) + 4"
    "100 * ((y - 1901) div 100) \<le> y - 1901" "y - 1901 < 100 * ((y - 1901) div 100) + 100"
    "400 * ((y - 1601) div 400) \<le> y - 1601" "y - 1601 < 400 * ((y - 1601) div 400) + 400"
    using q [of 4 "y - 1969"] q [of 100 "y - 1901"] q [of 400 "y - 1601"] by simp_all
  moreover define A B C where "A = (y - 1969) div 4" and "B = (y - 1901) div 100" and "C = (y - 1601) div 400"
  ultimately show "146097 * (y - 1970) - 608 < 400 * day_from_year y" "400 * day_from_year y < 146097 * (y - 1970) + 594"
    unfolding day_from_year_def A_def [symmetric] B_def [symmetric] C_def [symmetric] by (simp_all add: algebra_simps)
qed

lemma day_from_year_gap: "y + k \<le> y' \<Longrightarrow> 146097 * k - 1202 < 400 * (day_from_year y' - day_from_year y)"
proof -
  assume "y + k \<le> y'"
  then have "146097 * (y + k) \<le> 146097 * y'" by simp
  then show ?thesis using day_from_year_bounds [of y] day_from_year_bounds [of y'] by (simp add: algebra_simps)
qed

lemma day_from_year_mono: "y < y' \<Longrightarrow> day_from_year y < day_from_year y'"
  using day_from_year_gap [of y 1 y'] by simp

lemma leap_day_bounds: "- 3 \<le> leap_day y" "leap_day y \<le> 3"
  using day_from_year_bounds [of y] day_from_year_bounds [of "y + 1"] unfolding leap_day_def by (simp_all add: algebra_simps)

lemma year_of_bounds: "day_from_year (year_of d) \<le> d" "d < day_from_year (year_of d + 1)"
proof -
  define n where "n = (400 * d) div 146097"
  have "0 \<le> 400 * d - 146097 * n" "400 * d - 146097 * n < 146097"
    unfolding n_def using pos_mod_bound [of 146097 "400 * d"] pos_mod_sign [of 146097 "400 * d"] mult_div_mod_eq [of 146097 "400 * d"] by linarith+
  moreover have "year_of d = (if day_from_year (1970 + n + 1) \<le> d then 1970 + n + 1 else if day_from_year (1970 + n) \<le> d then 1970 + n else 1970 + n - 1)"
    by (simp add: year_of_def n_def Let_def)
  moreover have "day_from_year (1970 + n - 1) \<le> d" "d < day_from_year (1970 + n + 1 + 1)"
    using day_from_year_bounds [of "1970 + n - 1"] day_from_year_bounds [of "1970 + n + 1 + 1"] calculation(1,2) by (simp_all add: algebra_simps)
  ultimately show "day_from_year (year_of d) \<le> d" "d < day_from_year (year_of d + 1)"
    by (simp_all split: if_splits)
qed

lemma year_of_unique:
  assumes "day_from_year y \<le> d" "d < day_from_year (y + 1)"
  shows "year_of d = y"
proof -
  have "\<not> y + 1 \<le> year_of d"
    using day_from_year_mono [of "y + 1" "year_of d"] year_of_bounds(1) [of d] assms(2) by (cases "y + 1 = year_of d") auto
  moreover have "\<not> year_of d + 1 \<le> y"
    using day_from_year_mono [of "year_of d + 1" y] year_of_bounds(2) [of d] assms(1) by (cases "year_of d + 1 = y") auto
  ultimately show ?thesis by linarith
qed

text \<open>The month of a day of the year: the last one that has started\<close>

lemma count_started:
  assumes "sorted_wrt (<) xs" "i < length xs" "xs ! i \<le> (k :: int)" "i + 1 < length xs \<Longrightarrow> k < xs ! (i + 1)"
  shows "length (filter (\<lambda>s. s \<le> k) xs) = i + 1"
proof -
  have *: "xs ! j \<le> k \<longleftrightarrow> j < i + 1" if "j < length xs" for j
  proof (cases "j < i + 1")
    case True
    then have "xs ! j \<le> xs ! i" using assms(1,2) by (cases "j = i") (auto simp: sorted_wrt_iff_nth_less less_imp_le)
    with True assms(3) show ?thesis by simp
  next
    case False
    with that have "xs ! (i + 1) \<le> xs ! j" using assms(1) by (cases "j = i + 1") (auto simp: sorted_wrt_iff_nth_less less_imp_le)
    with False that assms(4) show ?thesis by simp
  qed
  have "length (filter (\<lambda>s. s \<le> k) xs) = card {j. j < length xs \<and> xs ! j \<le> k}" by (rule length_filter_conv_card)
  also have "{j. j < length xs \<and> xs ! j \<le> k} = {..<i + 1}" using * assms(2) by auto
  finally show ?thesis by simp
qed

lemma month_starts_sorted: "sorted_wrt (<) (month_starts (leap_day y))"
  using leap_day_bounds [of y] by (simp add: month_starts_def)

lemma length_month_starts [simp]: "length (month_starts l) = 12"
  by (simp add: month_starts_def)

lemma month_starts_first: "month_starts l ! 0 = 0"
  by (simp add: month_starts_def)

lemma first_of_month_year: "m < 12 \<Longrightarrow> first_of_month y m = day_from_year y + month_starts (leap_day y) ! m"
  "first_of_month y 12 = day_from_year (y + 1)"
  by (simp_all add: first_of_month_def month_starts_def)

lemma month_of_unique:
  assumes m: "m < 12" and "first_of_month y m \<le> d" "d < first_of_month y (m + 1)"
  shows "year_of d = y" "month_of d = m"
proof -
  let ?s = "month_starts (leap_day y)"
  have lo: "0 \<le> ?s ! m"
    using m month_starts_sorted [of y] month_starts_first [of "leap_day y"]
    by (cases "m = 0") (simp_all add: sorted_wrt_iff_nth_less, metis gr0I less_imp_le length_month_starts)
  have hi: "first_of_month y (m + 1) \<le> day_from_year (y + 1)"
  proof (cases "m = 11")
    case False
    then have "m + 1 < 12" using m by simp
    moreover have "?s ! (m + 1) \<le> ?s ! 11"
      using month_starts_sorted [of y] \<open>m + 1 < 12\<close> by (cases "m + 1 = 11") (auto simp: sorted_wrt_iff_nth_less less_imp_le)
    moreover have "?s ! 11 = 334 + leap_day y" by (simp add: month_starts_def)
    ultimately show ?thesis by (simp add: first_of_month_year leap_day_def)
  qed (simp add: first_of_month_year)
  show y: "year_of d = y"
    using lo hi assms first_of_month_year(1) [OF m, of y] by (intro year_of_unique) linarith+
  have "length (filter (\<lambda>s. s \<le> d - day_from_year y) ?s) = m + 1"
    using assms first_of_month_year(1) [of "m + 1" y]
    by (intro count_started month_starts_sorted) (simp_all add: first_of_month_year(1) [OF m])
  then show "month_of d = m" by (simp add: month_of_def y Let_def)
qed

lemma month_of_bounds: "month_of d < 12" "first_of_month (year_of d) (month_of d) \<le> d" "d < first_of_month (year_of d) (month_of d + 1)"
proof -
  let ?y = "year_of d"
  let ?s = "month_starts (leap_day ?y)"
  let ?k = "d - day_from_year ?y"
  define i where "i = month_of d"
  have k: "0 \<le> ?k" "?k < 365 + leap_day ?y" using year_of_bounds [of d] by (simp_all add: leap_day_def)
  have len: "length (filter (\<lambda>s. s \<le> ?k) ?s) = i + 1"
  proof -
    have "0 \<in> set (filter (\<lambda>s. s \<le> ?k) ?s)" using k by (simp add: month_starts_def)
    then have "0 < length (filter (\<lambda>s. s \<le> ?k) ?s)" by (metis length_greater_0_conv list.set(1) empty_iff)
    then show ?thesis by (simp add: i_def month_of_def Let_def)
  qed
  have i: "i < 12" using length_filter_le [of "\<lambda>s. s \<le> ?k" ?s] len by simp
  have "?s ! i \<le> ?k \<and> (i + 1 < 12 \<longrightarrow> ?k < ?s ! (i + 1))"
  proof -
    define j where "j = Max {j. j < 12 \<and> ?s ! j \<le> ?k}"
    have "0 \<in> {j. j < 12 \<and> ?s ! j \<le> ?k}" using k by (simp add: month_starts_def)
    then have ne: "{j. j < 12 \<and> ?s ! j \<le> ?k} \<noteq> {}" by blast
    have fin: "finite {j. j < 12 \<and> ?s ! j \<le> ?k}" by simp
    have j: "j < 12" "?s ! j \<le> ?k" "\<And>j'. j' < 12 \<Longrightarrow> ?s ! j' \<le> ?k \<Longrightarrow> j' \<le> j"
      using Max_in [OF fin ne] Max_ge [OF fin] unfolding j_def by blast+
    have next_start: "?k < ?s ! (j + 1)" if "j + 1 < 12" using j(3) [of "j + 1"] that by fastforce
    then have "i + 1 = j + 1" using count_started [OF month_starts_sorted, of j ?y ?k] j(1,2) len by simp
    then show ?thesis using j(2) next_start by simp
  qed
  then show "month_of d < 12" "first_of_month ?y (month_of d) \<le> d" "d < first_of_month ?y (month_of d + 1)"
    using i k first_of_month_year(2) [of ?y] unfolding i_def [symmetric]
    by (cases "i = 11"; simp add: first_of_month_year leap_day_def)+
qed


lemma week_start: "0 \<le> ((d + 4) mod 7 + 6) mod (7 :: int)" "((d + 4) mod 7 + 6) mod (7 :: int) < 7"
  by simp_all

lemma week_unique: "monday \<le> d \<Longrightarrow> d < monday + 7 \<Longrightarrow> (monday + 3) mod 7 = 0 \<Longrightarrow> d - ((d + 4) mod 7 + 6) mod 7 = (monday :: int)"
  by presburger

lemma week_monday: "(d - ((d + 4) mod 7 + 6) mod 7 + 3) mod (7 :: int) = 0"
  by presburger

lemma same_window:
  assumes "w \<noteq> Rolling len" "wb_end (window_at w now) = Some e" "wb_start (window_at w now) \<le> t" "t < e"
  shows "window_at w t = window_at w now"
proof (cases w)
  case CalendarDay
  with assms have "day_of t = day_of now" by (simp add: window_at_def Let_def day_of_iff)
  with CalendarDay show ?thesis by (simp add: window_at_def)
next
  case CalendarWeek
  let ?m = "day_of now - ((day_of now + 4) mod 7 + 6) mod 7"
  have "?m * DAY_MS \<le> t" "t < (?m + 7) * DAY_MS" using assms CalendarWeek by (simp_all add: window_at_def Let_def)
  then have "?m \<le> day_of t" "day_of t < ?m + 7" unfolding day_of_le .
  then have "day_of t - ((day_of t + 4) mod 7 + 6) mod 7 = ?m" by (intro week_unique week_monday)
  with CalendarWeek show ?thesis by (simp add: window_at_def Let_def)
next
  case CalendarMonth
  let ?y = "year_of (day_of now)" and ?m = "month_of (day_of now)"
  have "first_of_month ?y ?m * DAY_MS \<le> t" "t < first_of_month ?y (?m + 1) * DAY_MS" using assms CalendarMonth by (simp_all add: window_at_def Let_def)
  then have "first_of_month ?y ?m \<le> day_of t" "day_of t < first_of_month ?y (?m + 1)" unfolding day_of_le .
  from month_of_unique [OF month_of_bounds(1) this] show ?thesis using CalendarMonth by (simp add: window_at_def Let_def)
qed (use assms in \<open>simp add: window_at_def\<close>)

lemma window_contains:
  assumes "case w of Rolling len \<Rightarrow> 0 \<le> len | _ \<Rightarrow> True"
  shows "wb_start (window_at w now) \<le> now" "case wb_end (window_at w now) of None \<Rightarrow> True | Some e \<Rightarrow> now < e"
proof -
  show "wb_start (window_at w now) \<le> now" "case wb_end (window_at w now) of None \<Rightarrow> True | Some e \<Rightarrow> now < e"
    using assms month_of_bounds [of "day_of now"] by (cases w; simp add: window_at_def Let_def day_of_le)+
qed

lemma parsed_window_length: "parse_window spec = Some (Rolling len) \<Longrightarrow> 0 \<le> len"
  by (auto simp: parse_window_def UNIT_MS_def split: if_splits)

lemma parsed_window_contains:
  assumes "parse_window spec = Some w"
  shows "wb_start (window_at w now) \<le> now" "case wb_end (window_at w now) of None \<Rightarrow> True | Some e \<Rightarrow> now < e"
  using window_contains [of w now] parsed_window_length [of spec] assms by (auto split: Window.splits)

text \<open>
  C27. A window contains the time it is computed for, and the calendar windows of a kind partition the time
  line: every time that lies in the day, week or month of another one has the same bounds. So usage counted
  in a calendar window is counted in one window only. The text of a window is accepted by \<open>isValidWindow\<close>
  exactly when bounds exist for it.
\<close>
theorem windows_partition_time:
  "(isValidWindow spec \<longleftrightarrow> isOk (windowBounds spec now)) \<and>
   (\<forall>b. windowBounds spec now = Inr b \<longrightarrow>
      wb_start b \<le> now \<and>
      (\<forall>e. wb_end b = Some e \<longrightarrow> now < e \<and> wb_resetHint b = e \<and>
         (\<forall>t. wb_start b \<le> t \<and> t < e \<longrightarrow> windowBounds spec t = Inr b)))"
proof (cases "parse_window spec")
  case None
  then show ?thesis by (simp add: isValidWindow_def windowBounds_def)
next
  case (Some w)
  have b: "windowBounds spec t = Inr (window_at w t)" for t by (simp add: windowBounds_def Some)
  have "wb_resetHint (window_at w now) = e" if "wb_end (window_at w now) = Some e" for e
    using that by (cases w) (auto simp: window_at_def Let_def)
  moreover have "window_at w t = window_at w now" if "wb_end (window_at w now) = Some e" "wb_start (window_at w now) \<le> t" "t < e" for t e
    using that same_window [OF _ that] by (cases w) (auto simp: window_at_def Let_def)
  moreover have "wb_start (window_at w now) \<le> now" "\<And>e. wb_end (window_at w now) = Some e \<Longrightarrow> now < e"
    using parsed_window_contains [OF Some, of now] by simp_all
  moreover have "isValidWindow spec \<longleftrightarrow> isOk (windowBounds spec now)" by (simp add: b isValidWindow_def Some)
  ultimately show ?thesis unfolding b by (metis sum.inject(2))
qed

text \<open>The leap day of 2024 lies in the February that a time of its first week has.\<close>

lemma windows_partition_time_witness:
  "windowBounds ''month'' 1709164800000 = Inr \<lparr>wb_start = 1706745600000, wb_end = Some 1709251200000, wb_resetHint = 1709251200000\<rparr> \<and>
   windowBounds ''month'' 1707000000000 = windowBounds ''month'' 1709164800000"
proof -
  have "windowBounds ''month'' 1709164800000 = Inr \<lparr>wb_start = 1706745600000, wb_end = Some 1709251200000, wb_resetHint = 1709251200000\<rparr>"
    by code_simp
  with windows_partition_time [of "''month''" 1709164800000] show ?thesis by auto
qed

subsection \<open>Prices\<close>

text \<open>A glob as \<open>new RegExp\<close> of the pattern with \<open>.*\<close> for the star; the dot does not match a line terminator.\<close>

definition line_terminator :: "char \<Rightarrow> bool" where
  "line_terminator c \<longleftrightarrow> of_char c = (10 :: nat) \<or> of_char c = (13 :: nat)"

function glob :: "string \<Rightarrow> string \<Rightarrow> bool" where
  "glob [] s \<longleftrightarrow> s = []"
| "glob (c # p) s \<longleftrightarrow>
     (if c = CHR ''*'' then glob p s \<or> (case s of [] \<Rightarrow> False | x # s' \<Rightarrow> \<not> line_terminator x \<and> glob (c # p) s')
      else (case s of [] \<Rightarrow> False | x # s' \<Rightarrow> x = c \<and> glob p s'))"
  by pat_completeness auto
termination by (relation "measures [\<lambda>(p, s). length s, \<lambda>(p, s). length p]") auto

definition servesModel :: "AccountConfig \<Rightarrow> string \<Rightarrow> bool" where
  "servesModel a modelId \<longleftrightarrow> acc_models a = [] \<or> (\<exists>p \<in> set (acc_models a). glob p modelId)"

definition pricingFor :: "AccountConfig \<Rightarrow> string \<Rightarrow> TokenPricing option" where
  "pricingFor a modelId =
     (case acc_pricing a of None \<Rightarrow> None
      | Some (FlatPricing p) \<Rightarrow> Some p
      | Some (PricingTable table) \<Rightarrow>
          (case find (\<lambda>(k, _). glob k modelId) table of Some (k, p) \<Rightarrow> if k = [] then None else Some p | None \<Rightarrow> None))"

definition costUsd :: "TokenPricing option \<Rightarrow> rat \<Rightarrow> rat \<Rightarrow> rat \<Rightarrow> rat" where
  "costUsd pricing input output cachedInput =
     (case pricing of None \<Rightarrow> 0
      | Some p \<Rightarrow> (let cached = min cachedInput input in
          ((input - cached) * tp_inputPerMTok p + cached * (case tp_cachedInputPerMTok p of Some c \<Rightarrow> c | None \<Rightarrow> tp_inputPerMTok p)
             + output * tp_outputPerMTok p) / 1000000))"

definition isPaid :: "AccountConfig \<Rightarrow> bool" where "isPaid a \<longleftrightarrow> acc_kind a = KApi"

subsection \<open>Validation of a configuration\<close>

text \<open>
  The problems \<open>validateResourceConfig\<close> lists, by the index of the account and of the limit. That values have
  the shapes of their types, and names belong to their enumerations, holds by the types.
\<close>

datatype ConfigProblem =
  NegativePolicy string | MissingId nat | DuplicateId nat | SubscriptionIntegration nat | SubscriptionAgents nat | MissingRuntimes nat
| BadWindow nat nat | BadLimit nat nat | NegativeNumber nat string | SecretInEnv nat string

definition checkLimit :: "nat \<Rightarrow> nat \<times> LimitSpec \<Rightarrow> ConfigProblem list" where
  "checkLimit i jl = (case jl of (j, l) \<Rightarrow>
     (if isValidWindow (lim_window l) then [] else [BadWindow i j]) @
     (case lim_limit l of None \<Rightarrow> [] | Some n \<Rightarrow> if 0 < n then [] else [BadLimit i j]))"

definition negative :: "nat \<Rightarrow> string \<times> rat option \<Rightarrow> ConfigProblem list" where
  "negative i kn = (case snd kn of Some n \<Rightarrow> if 0 \<le> n then [] else [NegativeNumber i (fst kn)] | None \<Rightarrow> [])"

definition looks_secret :: "string \<Rightarrow> bool" where
  "looks_secret k \<longleftrightarrow> (\<exists>w \<in> set [''key'', ''token'', ''secret'', ''password'']. has_substring (toLowerCase k) w)"

definition account_problems :: "nat \<Rightarrow> string list \<Rightarrow> AccountConfig \<Rightarrow> ConfigProblem list" where
  "account_problems i seen a =
     (if acc_id a = [] then [MissingId i]
      else (if acc_id a \<in> set seen then [DuplicateId i] else []) @
        (if acc_kind a = KSubscription \<and> \<not> acc_vendorCli a then [SubscriptionIntegration i] else []) @
        (if acc_kind a = KSubscription \<and> acc_agents a = [] then [SubscriptionAgents i] else []) @
        (if acc_kind a \<noteq> KSubscription \<and> acc_runtimeIds a = [] then [MissingRuntimes i] else []) @
        concat (map (checkLimit i) (enumerate 0 (acc_limits a))) @
        concat (map (negative i) [(''maxConcurrent'', acc_maxConcurrent a), (''rpm'', acc_rpm a), (''tpm'', acc_tpm a), (''priority'', acc_priority a)]) @
        map (\<lambda>(k, _). SecretInEnv i k) (filter (\<lambda>(k, v). looks_secret k \<and> v \<noteq> []) (acc_env a)))"

fun accounts_problems :: "nat \<Rightarrow> string list \<Rightarrow> AccountConfig list \<Rightarrow> ConfigProblem list" where
  "accounts_problems i seen [] = []"
| "accounts_problems i seen (a # as) = account_problems i seen a @ accounts_problems (i + 1) (if acc_id a = [] then seen else acc_id a # seen) as"

definition policy_problems :: "ResourcePolicy \<Rightarrow> ConfigProblem list" where
  "policy_problems p = map (NegativePolicy \<circ> fst) (filter (\<lambda>(_, n). n < 0)
     [(''estimateMargin'', pol_estimateMargin p), (''leaseMs'', of_int (pol_leaseMs p)), (''maxTaskTokens'', pol_maxTaskTokens p),
      (''dailySpendUsd'', pol_dailySpendUsd p), (''monthlySpendUsd'', pol_monthlySpendUsd p), (''localQueueTimeoutMs'', of_int (pol_localQueueTimeoutMs p))])"

definition validateResourceConfig :: "ResourcePolicy \<Rightarrow> AccountConfig list \<Rightarrow> ConfigProblem list + (ResourcePolicy \<times> AccountConfig list)" where
  "validateResourceConfig policy accounts =
     (let problems = policy_problems policy @ accounts_problems 0 [] accounts in
      if problems = [] then Inr (policy, accounts) else Inl problems)"

text \<open>What an accepted configuration satisfies\<close>

definition limit_ok :: "LimitSpec \<Rightarrow> bool" where
  "limit_ok l \<longleftrightarrow> isValidWindow (lim_window l) \<and> (\<forall>n. lim_limit l = Some n \<longrightarrow> 0 < n)"

definition account_ok :: "AccountConfig \<Rightarrow> bool" where
  "account_ok a \<longleftrightarrow> acc_id a \<noteq> [] \<and> (\<forall>l \<in> set (acc_limits a). limit_ok l) \<and>
     (\<forall>n \<in> {acc_maxConcurrent a, acc_rpm a, acc_tpm a, acc_priority a}. \<forall>x. n = Some x \<longrightarrow> 0 \<le> x) \<and>
     (acc_kind a = KSubscription \<longrightarrow> acc_vendorCli a \<and> acc_agents a \<noteq> []) \<and> (acc_kind a \<noteq> KSubscription \<longrightarrow> acc_runtimeIds a \<noteq> []) \<and>
     (\<forall>(k, v) \<in> set (acc_env a). looks_secret k \<longrightarrow> v = [])"

lemma checkLimit_Nil: "checkLimit i (j, l) = [] \<longleftrightarrow> limit_ok l"
  by (auto simp: checkLimit_def limit_ok_def split: option.splits)

lemma enumerate_all: "(\<forall>x \<in> set (enumerate n xs). P (snd x)) \<longleftrightarrow> (\<forall>x \<in> set xs. P x)"
  by (induction xs arbitrary: n) auto

lemma account_problems_Nil: "account_problems i seen a = [] \<longleftrightarrow> account_ok a \<and> acc_id a \<notin> set seen"
proof -
  have "(\<forall>x \<in> set (enumerate 0 (acc_limits a)). checkLimit i x = []) \<longleftrightarrow> (\<forall>l \<in> set (acc_limits a). limit_ok l)"
    using enumerate_all [of 0 "acc_limits a" limit_ok] by (metis checkLimit_Nil prod.collapse)
  moreover have "negative i (k, n) = [] \<longleftrightarrow> (\<forall>x. n = Some x \<longrightarrow> 0 \<le> x)" for k n by (auto simp: negative_def split: option.splits)
  ultimately show ?thesis
    by (auto simp: account_problems_def account_ok_def filter_empty_conv)
qed

lemma accounts_problems_Nil:
  "accounts_problems i seen as = [] \<longleftrightarrow> (\<forall>a \<in> set as. account_ok a) \<and> distinct (map acc_id as) \<and> set (map acc_id as) \<inter> set seen = {}"
proof (induction as arbitrary: i seen)
  case (Cons a as)
  have "accounts_problems i seen (a # as) = [] \<longleftrightarrow> account_ok a \<and> acc_id a \<notin> set seen \<and> (\<forall>x \<in> set as. account_ok x) \<and> distinct (map acc_id as) \<and>
      set (map acc_id as) \<inter> set (if acc_id a = [] then seen else acc_id a # seen) = {}"
    using Cons by (simp add: account_problems_Nil)
  also have "\<dots> \<longleftrightarrow> (\<forall>x \<in> set (a # as). account_ok x) \<and> distinct (map acc_id (a # as)) \<and> set (map acc_id (a # as)) \<inter> set seen = {}"
    by (auto simp: account_ok_def)
  finally show ?case .
qed simp

lemma validated_accounts: "isOk (validateResourceConfig policy accounts) \<Longrightarrow> \<forall>a \<in> set accounts. account_ok a"
  by (simp add: validateResourceConfig_def Let_def accounts_problems_Nil isOk_def split: if_splits)

text \<open>
  A configuration is accepted exactly when every account is well formed: it has an id of its own, its limits
  are positive or unknown over windows that exist, its numbers are not negative, a subscription is used
  through its vendor's CLI by named agents, the others name runtimes, no value that looks like a secret is
  in its environment, and no number of the policy is negative.
\<close>
theorem validateResourceConfig_exact:
  "isOk (validateResourceConfig policy accounts) \<longleftrightarrow>
     (\<forall>a \<in> set accounts. account_ok a) \<and> distinct (map acc_id accounts) \<and>
     0 \<le> pol_estimateMargin policy \<and> 0 \<le> pol_leaseMs policy \<and> 0 \<le> pol_maxTaskTokens policy \<and> 0 \<le> pol_dailySpendUsd policy \<and>
     0 \<le> pol_monthlySpendUsd policy \<and> 0 \<le> pol_localQueueTimeoutMs policy"
proof -
  have "policy_problems policy = [] \<longleftrightarrow> 0 \<le> pol_estimateMargin policy \<and> 0 \<le> pol_leaseMs policy \<and> 0 \<le> pol_maxTaskTokens policy \<and>
      0 \<le> pol_dailySpendUsd policy \<and> 0 \<le> pol_monthlySpendUsd policy \<and> 0 \<le> pol_localQueueTimeoutMs policy"
    by (auto simp: policy_problems_def not_less)
  then show ?thesis by (auto simp: validateResourceConfig_def Let_def accounts_problems_Nil isOk_def)
qed

subsection \<open>The registry of accounts\<close>

text \<open>A \<open>Map\<close> by id: a later account with the same id replaces an earlier one, in its place.\<close>

type_synonym AccountRegistry = "(string, AccountConfig) dict"

definition registry :: "AccountConfig list \<Rightarrow> AccountRegistry" where
  "registry accounts = fold (\<lambda>a. dput (acc_id a) a) accounts []"

definition list_accounts :: "AccountRegistry \<Rightarrow> AccountConfig list" where
  "list_accounts r = map snd r"

definition candidates :: "(string \<Rightarrow> string \<Rightarrow> rat) \<Rightarrow> AccountRegistry \<Rightarrow> string option \<Rightarrow> string option \<Rightarrow> string option \<Rightarrow> AccountConfig list" where
  "candidates lc r runtimeId agent modelId =
     (let given = (\<lambda>x. case x of Some (c # cs) \<Rightarrow> Some (c # cs) | _ \<Rightarrow> None);
          priority = (\<lambda>a. case acc_priority a of Some p \<Rightarrow> p | None \<Rightarrow> 0)
      in sort_by (\<lambda>a b. if priority b - priority a \<noteq> 0 then priority b - priority a else lc (acc_id a) (acc_id b))
          (filter (\<lambda>a. case given modelId of None \<Rightarrow> True | Some m \<Rightarrow> servesModel a m)
            (filter (\<lambda>a. case given agent of Some g \<Rightarrow> g \<in> set (acc_agents a)
                | None \<Rightarrow> (case given runtimeId of None \<Rightarrow> False | Some t \<Rightarrow> t \<in> set (acc_runtimeIds a)))
              (filter acc_enabled (list_accounts r)))))"

record ImplicitInput =
  ii_localRuntimes :: "string list"
  ii_hostedRuntimes :: "string list"
  ii_agents :: "string list"
  ii_hostedAuthorized :: bool
  ii_hostedConcurrency :: "(string, rat) dict"
  ii_hostedLimits :: "(string, LimitSpec list) dict"
  ii_hostedPricing :: "(string, PricingSpec) dict"

definition covered :: "AccountRegistry \<Rightarrow> (AccountConfig \<Rightarrow> bool) \<Rightarrow> bool" where
  "covered r p \<longleftrightarrow> (\<exists>a \<in> set (list_accounts r). acc_enabled a \<and> p a)"

definition blank_account :: "string \<Rightarrow> AccountKind \<Rightarrow> AccountConfig" where
  "blank_account i k = \<lparr>acc_id = i, acc_quotaGroup = None, acc_kind = k, acc_vendorCli = (k = KSubscription), acc_runtimeIds = [], acc_agents = [], acc_models = [],
     acc_contextLimits = [], acc_limits = [], acc_maxConcurrent = None, acc_rpm = None, acc_tpm = None, acc_pricing = None, acc_priority = None, acc_workloads = [],
     acc_reserveFor = None, acc_criticalOnly = None, acc_allowPaid = False, acc_env = [], acc_enabled = True, acc_unknownLimitPolicy = None\<rparr>"

definition implicit_local :: "string \<Rightarrow> AccountConfig" where
  "implicit_local t = (blank_account (''local:'' @ t) KLocal)\<lparr>acc_runtimeIds := [t], acc_maxConcurrent := Some 2\<rparr>"

definition implicit_api :: "ImplicitInput \<Rightarrow> string \<Rightarrow> AccountConfig" where
  "implicit_api inp t = (blank_account (''api:'' @ t) KApi)\<lparr>acc_runtimeIds := [t], acc_allowPaid := ii_hostedAuthorized inp,
     acc_maxConcurrent := (case dget (ii_hostedConcurrency inp) t of Some n \<Rightarrow> Some n | None \<Rightarrow> if t = ''nvidia'' then Some 2 else None),
     acc_limits := (case dget (ii_hostedLimits inp) t of Some ls \<Rightarrow> ls | None \<Rightarrow> []), acc_pricing := dget (ii_hostedPricing inp) t\<rparr>"

definition implicit_subscription :: "string \<Rightarrow> AccountConfig" where
  "implicit_subscription g = (blank_account (''sub:'' @ g) KSubscription)\<lparr>acc_agents := [g], acc_unknownLimitPolicy := Some UAllow,
     acc_limits := [\<lparr>lim_unit = URequests, lim_window = ''5h'', lim_limit = None, lim_hard = True, lim_advisory = None, lim_conserve = None, lim_critical = None\<rparr>]\<rparr>"

definition add_unless :: "(AccountConfig \<Rightarrow> string list) \<Rightarrow> (string \<Rightarrow> AccountConfig) \<Rightarrow> string \<Rightarrow> AccountRegistry \<Rightarrow> AccountRegistry" where
  "add_unless serves mk x r = (if covered r (\<lambda>a. x \<in> set (serves a)) then r else dput (acc_id (mk x)) (mk x) r)"

definition addImplicit :: "ImplicitInput \<Rightarrow> AccountRegistry \<Rightarrow> AccountRegistry" where
  "addImplicit inp r =
     fold (add_unless acc_agents implicit_subscription) (ii_agents inp)
       (fold (add_unless acc_runtimeIds (implicit_api inp)) (ii_hostedRuntimes inp)
         (fold (add_unless acc_runtimeIds implicit_local) (ii_localRuntimes inp) r))"

text \<open>Every id in the registry is that of its account.\<close>

definition registry_ok :: "AccountRegistry \<Rightarrow> bool" where
  "registry_ok r \<longleftrightarrow> distinct (dkeys r) \<and> (\<forall>(k, a) \<in> set r. acc_id a = k)"

lemma registry_ok_dput: "registry_ok r \<Longrightarrow> registry_ok (dput (acc_id a) a r)"
  by (auto simp: registry_ok_def distinct_update dest!: dput_set)

lemma registry_ok_registry: "registry_ok (registry accounts)"
proof -
  have "registry_ok r \<Longrightarrow> registry_ok (fold (\<lambda>a. dput (acc_id a) a) accounts r)" for r
    by (induction accounts arbitrary: r) (simp_all add: registry_ok_dput)
  moreover have "registry_ok []" by (simp add: registry_ok_def)
  ultimately show ?thesis unfolding registry_def by blast
qed

lemma registry_ok_add: "registry_ok r \<Longrightarrow> registry_ok (fold (add_unless serves mk) xs r)"
  by (induction xs arbitrary: r) (simp_all add: add_unless_def registry_ok_dput)

lemma registry_ok_implicit: "registry_ok r \<Longrightarrow> registry_ok (addImplicit inp r)"
  by (simp add: addImplicit_def registry_ok_add)

lemma registry_get: "registry_ok r \<Longrightarrow> dget r i = Some a \<longleftrightarrow> a \<in> set (list_accounts r) \<and> acc_id a = i"
  by (auto simp: registry_ok_def list_accounts_def dest: map_of_SomeD) (force intro: map_of_is_SomeI)

text \<open>The account that is assumed for a local runtime is well formed.\<close>

lemma validateResourceConfig_exact_witness:
  "isOk (validateResourceConfig DEFAULT_POLICY [implicit_local ''ollama'']) \<and> account_ok (implicit_local ''ollama'')"
proof -
  have "isOk (validateResourceConfig DEFAULT_POLICY [implicit_local ''ollama''])" by code_simp
  with validateResourceConfig_exact [of DEFAULT_POLICY "[implicit_local ''ollama'']"] show ?thesis by auto
qed

text \<open>
  An account that is configured but disabled does not count as covering its runtime, so \<open>addImplicit\<close>
  adds an enabled account without limits beside it, or, under the same id, in its place.
\<close>

lemma disabled_account_is_replaced:
  assumes "\<forall>x \<in> set (list_accounts r). t \<in> set (acc_runtimeIds x) \<longrightarrow> \<not> acc_enabled x"
  shows "dget (addImplicit \<lparr>ii_localRuntimes = [t], ii_hostedRuntimes = [], ii_agents = [], ii_hostedAuthorized = h, ii_hostedConcurrency = [],
      ii_hostedLimits = [], ii_hostedPricing = []\<rparr> r) (''local:'' @ t) = Some (implicit_local t)"
  using assms by (auto simp: addImplicit_def add_unless_def covered_def implicit_local_def blank_account_def)

subsection \<open>Estimates\<close>

record EstimatableRequest =
  er_systemPrompt :: string
  er_prompt :: string
  er_messages :: "(string \<times> string) list"
  er_tools :: string
  er_maxTokens :: rat

text \<open>The number of tokens of a text of a length: 3.2 characters each, rounded up\<close>

definition estimateTextTokens :: "string \<Rightarrow> rat" where
  "estimateTextTokens text = of_int \<lceil>of_nat (length text) * 5 / 16 :: rat\<rceil>"

definition PER_MESSAGE_TOKENS :: rat where "PER_MESSAGE_TOKENS = 4"

text \<open>The contents, tool calls and tools of the request as the text \<open>JSON.stringify\<close> gives, empty when they are absent\<close>

definition estimateInputTokens :: "EstimatableRequest \<Rightarrow> rat" where
  "estimateInputTokens r =
     (if er_systemPrompt r = [] then 0 else estimateTextTokens (er_systemPrompt r) + PER_MESSAGE_TOKENS) +
     (if er_prompt r = [] then 0 else estimateTextTokens (er_prompt r) + PER_MESSAGE_TOKENS) +
     sum_list (map (\<lambda>(content, calls). estimateTextTokens content + PER_MESSAGE_TOKENS + (if calls = [] then 0 else estimateTextTokens calls)) (er_messages r)) +
     (if er_tools r = [] then 0 else estimateTextTokens (er_tools r))"

fun DEFAULT_OUTPUT :: "WorkloadClass \<Rightarrow> rat" where
  "DEFAULT_OUTPUT WDeterministic = 0"
| "DEFAULT_OUTPUT WSummarization = 1024"
| "DEFAULT_OUTPUT WBulk = 1024"
| "DEFAULT_OUTPUT WRoutine = 2048"
| "DEFAULT_OUTPUT WComplex = 4096"
| "DEFAULT_OUTPUT WCriticalReview = 4096"

definition estimateOutputTokens :: "EstimatableRequest \<Rightarrow> WorkloadClass \<Rightarrow> rat" where
  "estimateOutputTokens r w = (if er_maxTokens r > 0 then er_maxTokens r else DEFAULT_OUTPUT w)"

definition padEstimate :: "rat \<Rightarrow> rat \<Rightarrow> rat \<Rightarrow> rat" where
  "padEstimate raw ratio margin = of_int \<lceil>raw * max 1 ratio * (1 + max 0 margin)\<rceil>"

lemma estimateTextTokens_nonneg: "0 \<le> estimateTextTokens t"
  by (simp add: estimateTextTokens_def)

lemma estimateInputTokens_nonneg: "0 \<le> estimateInputTokens r"
proof -
  have "0 \<le> sum_list (map (\<lambda>(content, calls). estimateTextTokens content + PER_MESSAGE_TOKENS + (if calls = [] then 0 else estimateTextTokens calls)) ms)" for ms
    by (induction ms) (auto simp: estimateTextTokens_nonneg PER_MESSAGE_TOKENS_def intro!: add_nonneg_nonneg)
  then show ?thesis
    unfolding estimateInputTokens_def by (intro add_nonneg_nonneg) (simp_all add: estimateTextTokens_nonneg PER_MESSAGE_TOKENS_def)
qed

lemma padEstimate_bounds:
  assumes "0 \<le> raw"
  shows "raw \<le> padEstimate raw ratio margin" "ratio \<le> 4 \<Longrightarrow> padEstimate raw ratio margin < raw * 4 * (1 + max 0 margin) + 1"
proof -
  let ?x = "raw * max 1 ratio * (1 + max 0 margin)"
  have "1 \<le> max 1 ratio * (1 + max 0 margin)" using mult_mono [of 1 "max 1 ratio" 1 "1 + max 0 margin"] by simp
  then have "raw * 1 \<le> raw * (max 1 ratio * (1 + max 0 margin))" using assms by (intro mult_left_mono)
  also have "\<dots> = ?x" by (simp add: mult.assoc)
  also have "?x \<le> padEstimate raw ratio margin" unfolding padEstimate_def by (rule le_of_int_ceiling)
  finally show "raw \<le> padEstimate raw ratio margin" by simp
  assume "ratio \<le> 4"
  then have "?x \<le> raw * 4 * (1 + max 0 margin)" using assms by (intro mult_right_mono mult_left_mono) simp_all
  moreover have "padEstimate raw ratio margin < ?x + 1" unfolding padEstimate_def using ceiling_correct [of ?x] by linarith
  ultimately show "padEstimate raw ratio margin < raw * 4 * (1 + max 0 margin) + 1" by linarith
qed

end
