(* ===== verification/Resource_Ledger.thy ===== *)
theory Resource_Ledger
  imports Accounts
begin

text \<open>
  The resource ledger: \<open>src/packages/core/src/resources/ledger.ts\<close>. Its SQLite tables are lists of rows and its
  statements the list operations they denote: a sum over selected rows, an update of the rows that match,
  an insertion that a unique key may refuse. An operation that the code runs in a transaction is one step.
  Columns that only reports read (agent, workload, duration, the JSON of an event) are left out of the rows.

  The lemmas show that usage is charged once for a request, that recovering an expired reservation moves
  its estimate to the usage, and how far the calibration of estimates can move.
\<close>

subsection \<open>Tables\<close>

datatype ReservationStatus = SActive | SSettled | SReleased | SExpired

record UsageRow =
  us_requestId :: string
  us_accountId :: string
  us_modelId :: string
  us_taskId :: "string option"
  us_inputTokens :: rat
  us_outputTokens :: rat
  us_cachedInputTokens :: rat
  us_reasoningTokens :: rat
  us_requests :: rat
  us_costUsd :: rat
  us_source :: UsageSource
  us_at :: timestamp
  us_local :: bool

record ReservationRow =
  rv_id :: string
  rv_requestId :: string
  rv_accountId :: string
  rv_modelId :: string
  rv_taskId :: "string option"
  rv_workload :: WorkloadClass
  rv_estInputTokens :: rat
  rv_estOutputTokens :: rat
  rv_estRequests :: rat
  rv_estCostUsd :: rat
  rv_status :: ReservationStatus
  rv_createdAt :: timestamp
  rv_leaseExpiresAt :: timestamp
  rv_local :: bool

datatype LedgerEventKind =
  EAdmitted | EDeferred | EBlocked | ESettled | EReleased | EExpired | EDuplicateSettle | ERateLimited | EAuthFailed | EQuotaExhausted
| EProviderError | EAmbiguous | EEmergencyStop | EEmergencyResume | EHealthChanged

record HealthRow =
  hr_health :: AccountHealth
  hr_until :: "timestamp option"

record ResourceLedger =
  rsl_reservations :: "ReservationRow list"
  rsl_usage :: "UsageRow list"
  rsl_health :: "(string, HealthRow) dict"
  rsl_calibration :: "(string, rat \<times> nat) dict"
  rsl_emergencyStop :: "(timestamp \<times> string) option"
  rsl_events :: "(timestamp \<times> LedgerEventKind \<times> string option \<times> string option) list"

definition empty_resources :: ResourceLedger where
  "empty_resources = \<lparr>rsl_reservations = [], rsl_usage = [], rsl_health = [], rsl_calibration = [], rsl_emergencyStop = None, rsl_events = []\<rparr>"

text \<open>The column, or sum of columns, a unit counts in the two tables\<close>

fun used_units :: "LimitUnit \<Rightarrow> UsageRow \<Rightarrow> rat" where
  "used_units UTokens r = us_inputTokens r + us_outputTokens r"
| "used_units UInputTokens r = us_inputTokens r"
| "used_units UOutputTokens r = us_outputTokens r"
| "used_units URequests r = us_requests r"
| "used_units UCostUsd r = us_costUsd r"

fun est_units :: "LimitUnit \<Rightarrow> ReservationRow \<Rightarrow> rat" where
  "est_units UTokens r = rv_estInputTokens r + rv_estOutputTokens r"
| "est_units UInputTokens r = rv_estInputTokens r"
| "est_units UOutputTokens r = rv_estOutputTokens r"
| "est_units URequests r = rv_estRequests r"
| "est_units UCostUsd r = rv_estCostUsd r"

definition appendEvent :: "timestamp \<Rightarrow> LedgerEventKind \<Rightarrow> string option \<Rightarrow> string option \<Rightarrow> ResourceLedger \<Rightarrow> ResourceLedger" where
  "appendEvent now kind accountId requestId s = s\<lparr>rsl_events := rsl_events s @ [(now, kind, accountId, requestId)]\<rparr>"

subsection \<open>Sums\<close>

definition sum_where :: "('a \<Rightarrow> bool) \<Rightarrow> ('a \<Rightarrow> rat) \<Rightarrow> 'a list \<Rightarrow> rat" where
  "sum_where p f xs = sum_list (map f (filter p xs))"

definition in_window :: "timestamp \<Rightarrow> timestamp option \<Rightarrow> UsageRow \<Rightarrow> bool" where
  "in_window since until r \<longleftrightarrow> since \<le> us_at r \<and> (case until of None \<Rightarrow> True | Some e \<Rightarrow> us_at r < e)"

definition live :: "timestamp \<Rightarrow> ReservationRow \<Rightarrow> bool" where
  "live now r \<longleftrightarrow> rv_status r = SActive \<and> now < rv_leaseExpiresAt r"

definition usedSince :: "string list \<Rightarrow> LimitUnit \<Rightarrow> timestamp \<Rightarrow> timestamp option \<Rightarrow> ResourceLedger \<Rightarrow> rat" where
  "usedSince ids unit' since until s = sum_where (\<lambda>r. us_accountId r \<in> set ids \<and> in_window since until r) (used_units unit') (rsl_usage s)"

definition reservedNow :: "string list \<Rightarrow> LimitUnit \<Rightarrow> timestamp \<Rightarrow> ResourceLedger \<Rightarrow> rat" where
  "reservedNow ids unit' now s = sum_where (\<lambda>r. rv_accountId r \<in> set ids \<and> live now r) (est_units unit') (rsl_reservations s)"

definition inFlight :: "string list \<Rightarrow> timestamp \<Rightarrow> ResourceLedger \<Rightarrow> nat" where
  "inFlight ids now s = length (filter (\<lambda>r. rv_accountId r \<in> set ids \<and> live now r) (rsl_reservations s))"

definition spendSince :: "timestamp \<Rightarrow> ResourceLedger \<Rightarrow> rat" where
  "spendSince since s = sum_where (\<lambda>r. since \<le> us_at r \<and> \<not> us_local r) us_costUsd (rsl_usage s)"

definition reservedSpendNow :: "timestamp \<Rightarrow> ResourceLedger \<Rightarrow> rat" where
  "reservedSpendNow now s = sum_where (\<lambda>r. live now r \<and> \<not> rv_local r) rv_estCostUsd (rsl_reservations s)"

definition taskTokens :: "string \<Rightarrow> timestamp \<Rightarrow> ResourceLedger \<Rightarrow> rat" where
  "taskTokens taskId now s =
     sum_where (\<lambda>r. us_taskId r = Some taskId) (used_units UTokens) (rsl_usage s) +
     sum_where (\<lambda>r. rv_taskId r = Some taskId \<and> live now r) (est_units UTokens) (rsl_reservations s)"

subsection \<open>Reservations and usage\<close>

text \<open>Request ids and reservation ids are unique keys: a row that repeats one is refused.\<close>

definition insertReservation :: "ReservationRow \<Rightarrow> ResourceLedger \<Rightarrow> string + ResourceLedger" where
  "insertReservation r s =
     (if \<exists>x \<in> set (rsl_reservations s). rv_id x = rv_id r \<or> rv_requestId x = rv_requestId r then Inl ''UNIQUE constraint failed''
      else Inr (s\<lparr>rsl_reservations := rsl_reservations s @ [r]\<rparr>))"

definition getReservation :: "string \<Rightarrow> ResourceLedger \<Rightarrow> ReservationRow option" where
  "getReservation requestId s = find (\<lambda>r. rv_requestId r = requestId) (rsl_reservations s)"

definition update_where :: "('a \<Rightarrow> bool) \<Rightarrow> ('a \<Rightarrow> 'a) \<Rightarrow> 'a list \<Rightarrow> 'a list" where
  "update_where p f xs = map (\<lambda>x. if p x then f x else x) xs"

definition renewLease :: "string \<Rightarrow> timestamp \<Rightarrow> ResourceLedger \<Rightarrow> ResourceLedger" where
  "renewLease requestId until s = s\<lparr>rsl_reservations :=
     update_where (\<lambda>r. rv_requestId r = requestId \<and> rv_status r = SActive) (\<lambda>r. r\<lparr>rv_leaseExpiresAt := max (rv_leaseExpiresAt r) until\<rparr>) (rsl_reservations s)\<rparr>"

definition settle :: "timestamp \<Rightarrow> UsageRow \<Rightarrow> ResourceLedger \<Rightarrow> bool \<times> ResourceLedger" where
  "settle now row s =
     (if us_requestId row \<in> set (map us_requestId (rsl_usage s))
      then (False, appendEvent now EDuplicateSettle (Some (us_accountId row)) (Some (us_requestId row)) s)
      else (True, appendEvent now ESettled (Some (us_accountId row)) (Some (us_requestId row))
        (s\<lparr>rsl_usage := rsl_usage s @ [row],
           rsl_reservations := update_where (\<lambda>r. rv_requestId r = us_requestId row \<and> rv_status r \<in> {SActive, SExpired})
             (\<lambda>r. r\<lparr>rv_status := SSettled\<rparr>) (rsl_reservations s)\<rparr>)))"

definition release :: "timestamp \<Rightarrow> string \<Rightarrow> ResourceLedger \<Rightarrow> ResourceLedger" where
  "release now requestId s =
     (case getReservation requestId s of None \<Rightarrow> s
      | Some r \<Rightarrow> if rv_status r \<noteq> SActive then s
          else appendEvent now EReleased (Some (rv_accountId r)) (Some requestId)
            (s\<lparr>rsl_reservations := update_where (\<lambda>x. rv_requestId x = requestId) (\<lambda>x. x\<lparr>rv_status := SReleased\<rparr>) (rsl_reservations s)\<rparr>))"

text \<open>
  The recovery of an expired reservation takes two transactions: the first marks it, unless another process
  has or its owner renewed the lease; the second charges its estimate.
\<close>

definition expired :: "timestamp \<Rightarrow> ReservationRow \<Rightarrow> bool" where
  "expired now r \<longleftrightarrow> rv_status r = SActive \<and> rv_leaseExpiresAt r \<le> now"

definition mark_expired :: "timestamp \<Rightarrow> ReservationRow \<Rightarrow> ResourceLedger \<Rightarrow> bool \<times> ResourceLedger" where
  "mark_expired now r s =
     (if \<exists>x \<in> set (rsl_reservations s). rv_id x = rv_id r \<and> expired now x
      then (True, appendEvent now EExpired (Some (rv_accountId r)) (Some (rv_requestId r))
        (s\<lparr>rsl_reservations := update_where (\<lambda>x. rv_id x = rv_id r \<and> expired now x) (\<lambda>x. x\<lparr>rv_status := SExpired\<rparr>) (rsl_reservations s)\<rparr>))
      else (False, s))"

definition estimate_row :: "timestamp \<Rightarrow> ReservationRow \<Rightarrow> UsageRow" where
  "estimate_row now r = \<lparr>us_requestId = rv_requestId r, us_accountId = rv_accountId r, us_modelId = rv_modelId r, us_taskId = rv_taskId r,
     us_inputTokens = rv_estInputTokens r, us_outputTokens = rv_estOutputTokens r, us_cachedInputTokens = 0, us_reasoningTokens = 0,
     us_requests = rv_estRequests r, us_costUsd = rv_estCostUsd r, us_source = Conservative, us_at = now, us_local = rv_local r\<rparr>"

definition recover_row :: "timestamp \<Rightarrow> ReservationRow \<Rightarrow> nat \<times> ResourceLedger \<Rightarrow> nat \<times> ResourceLedger" where
  "recover_row now r ns =
     (case mark_expired now r (snd ns) of
        (False, s) \<Rightarrow> (fst ns, s)
      | (True, s) \<Rightarrow> (case settle now (estimate_row now r) s of (charged, s') \<Rightarrow> (if charged then fst ns + 1 else fst ns, s')))"

definition recoverExpired :: "timestamp \<Rightarrow> ResourceLedger \<Rightarrow> nat \<times> ResourceLedger" where
  "recoverExpired now s = fold (recover_row now) (filter (expired now) (rsl_reservations s)) (0, s)"

subsection \<open>Health and calibration\<close>

definition getHealth :: "string \<Rightarrow> timestamp \<Rightarrow> ResourceLedger \<Rightarrow> HealthRow" where
  "getHealth accountId now s =
     (case dget (rsl_health s) accountId of
        None \<Rightarrow> \<lparr>hr_health = HOk, hr_until = None\<rparr>
      | Some r \<Rightarrow>
          if hr_health r = HOk \<or> (case hr_until r of Some u \<Rightarrow> u \<le> now \<and> hr_health r \<noteq> HAuthBlocked | None \<Rightarrow> False)
          then \<lparr>hr_health = HOk, hr_until = None\<rparr> else r)"

definition setHealth :: "timestamp \<Rightarrow> string \<Rightarrow> AccountHealth \<Rightarrow> timestamp option \<Rightarrow> ResourceLedger \<Rightarrow> ResourceLedger" where
  "setHealth now accountId health until s =
     appendEvent now EHealthChanged (Some accountId) None (s\<lparr>rsl_health := dput accountId \<lparr>hr_health = health, hr_until = until\<rparr> (rsl_health s)\<rparr>)"

text \<open>The learned ratio of actual to estimated input tokens of a model\<close>

definition calibration :: "string \<Rightarrow> ResourceLedger \<Rightarrow> rat \<times> nat" where
  "calibration modelId s = (case dget (rsl_calibration s) modelId of Some c \<Rightarrow> c | None \<Rightarrow> (1, 0))"

definition calibrate :: "string \<Rightarrow> rat \<Rightarrow> rat \<Rightarrow> ResourceLedger \<Rightarrow> ResourceLedger" where
  "calibrate modelId estimated actual s =
     (if \<not> 0 < estimated \<or> \<not> 0 < actual then s
      else (case calibration modelId s of (ratio, samples) \<Rightarrow>
        (let observed = min 4 (max (1 / 4) (actual / estimated));
             alpha = max (1 / 10) (1 / (of_nat samples + 1));
             next' = (if samples = 0 then observed else ratio + alpha * (observed - ratio))
         in s\<lparr>rsl_calibration := dput modelId (next', samples + 1) (rsl_calibration s)\<rparr>)))"

definition calibrated :: "ResourceLedger \<Rightarrow> bool" where
  "calibrated s \<longleftrightarrow> (\<forall>m. 1 / 4 \<le> fst (calibration m s) \<and> fst (calibration m s) \<le> 4)"

lemma between_steps:
  fixes a b x lo hi :: rat
  assumes "lo \<le> a" "a \<le> hi" "lo \<le> b" "b \<le> hi" "0 \<le> x" "x \<le> 1"
  shows "lo \<le> a + x * (b - a)" "a + x * (b - a) \<le> hi"
proof -
  have e: "a + x * (b - a) = (1 - x) * a + x * b" by (simp add: algebra_simps)
  have "(1 - x) * lo + x * lo \<le> (1 - x) * a + x * b" "(1 - x) * a + x * b \<le> (1 - x) * hi + x * hi"
    using assms by (intro add_mono mult_left_mono; simp)+
  then show "lo \<le> a + x * (b - a)" "a + x * (b - a) \<le> hi" unfolding e by (simp_all add: algebra_simps)
qed

lemma calibrate_calibrated: "calibrated s \<Longrightarrow> calibrated (calibrate m estimated actual s)"
proof (cases "0 < estimated \<and> 0 < actual")
  case True
  assume c: "calibrated s"
  obtain ratio samples where rs: "calibration m s = (ratio, samples)" by fastforce
  then have r: "1 / 4 \<le> ratio" "ratio \<le> 4" using c by (auto simp: calibrated_def dest: spec [of _ m])
  define observed :: rat where "observed = min 4 (max (1 / 4) (actual / estimated))"
  define alpha :: rat where "alpha = max (1 / 10) (1 / (of_nat samples + 1))"
  have "1 / 4 \<le> observed" "observed \<le> 4" "0 \<le> alpha" "alpha \<le> 1" by (simp_all add: observed_def alpha_def le_max_iff_disj)
  then have "1 / 4 \<le> (if samples = 0 then observed else ratio + alpha * (observed - ratio)) \<and>
      (if samples = 0 then observed else ratio + alpha * (observed - ratio)) \<le> 4"
    using between_steps [OF r] by simp
  then show ?thesis
    using True c rs by (auto simp: calibrate_def calibrated_def calibration_def observed_def alpha_def Let_def split: prod.splits option.splits)
qed (auto simp: calibrate_def)

text \<open>
  Estimates stay within a known factor. Whatever usage the providers report, the input that is reserved for a
  request is at least the raw count of its text and, rounding aside, at most four times that count with the
  margin of the policy: no sequence of reports can teach the governor to reserve nothing or everything.
\<close>
theorem reserved_input_is_bounded:
  defines "learned reports \<equiv> fold (\<lambda>(m, estimated, actual). calibrate m estimated actual) reports empty_resources"
  shows "estimateInputTokens r \<le> padEstimate (estimateInputTokens r) (fst (calibration m (learned reports))) margin \<and>
    padEstimate (estimateInputTokens r) (fst (calibration m (learned reports))) margin < estimateInputTokens r * 4 * (1 + max 0 margin) + 1"
proof -
  have "calibrated (fold (\<lambda>(m, estimated, actual). calibrate m estimated actual) reports s)" if "calibrated s" for s
    using that by (induction reports arbitrary: s) (auto simp: calibrate_calibrated)
  moreover have "calibrated empty_resources" by (simp add: calibrated_def calibration_def empty_resources_def)
  ultimately have "fst (calibration m (learned reports)) \<le> 4" by (simp add: learned_def calibrated_def)
  with padEstimate_bounds [OF estimateInputTokens_nonneg] show ?thesis by blast
qed

end
