(* ===== verification/Budget.thy ===== *)
theory Budget
  imports Resource_Ledger
begin

text \<open>
  Admission and reconciliation: \<open>src/packages/core/src/resources/budgetManager.ts\<close>. \<open>admit\<close> checks a request
  against the state of its account and reserves its estimate in one write-locked transaction, \<open>reconcile\<close>
  replaces the reservation by what was used, \<open>fail\<close> records a failure and releases or charges it. Limits are
  taken to be positive, as the validation of the configuration demands; the text of reasons is left out, a
  refusal is a value that names its rule.

  The lemmas show what an admission means: a request is admitted exactly when every rule allows it.
\<close>

subsection \<open>Requests and decisions\<close>

record AdmissionRequest =
  adm_requestId :: string
  adm_accountId :: string
  adm_modelId :: string
  adm_workload :: WorkloadClass
  adm_inputTokens :: rat
  adm_outputTokens :: rat
  adm_taskId :: "string option"
  adm_requests :: "rat option"

datatype Refusal =
  RUnknownAccount | RDisabled | REmergencyStop | RPaidNotAuthorized | RWorkloadNotServed | RLocalOnly | RContext
| RAuthBlocked | RQuotaBlocked | RRateLimited | RConcurrency | RUnknownLimit LimitSpec | RLimit LimitSpec
| RConservation | RCritical | RTaskTokens | RSpend Window | RDuplicate

text \<open>Admitted with the id of the reservation, if one was made; deferred with the time of a retry; or blocked\<close>

datatype Outcome = Admitted "string option" | Deferred Refusal "timestamp option" | Refused Refusal

record Decision =
  dec_outcome :: Outcome
  dec_mode :: BudgetMode

record LimitStatus =
  lst_used :: rat
  lst_reserved :: rat
  lst_utilization :: "rat option"
  lst_windowEnd :: timestamp
  lst_mode :: BudgetMode

definition blocked :: "Refusal \<Rightarrow> BudgetMode \<Rightarrow> Decision" where
  "blocked r m = \<lparr>dec_outcome = Refused r, dec_mode = m\<rparr>"

definition deferred :: "Refusal \<Rightarrow> BudgetMode \<Rightarrow> timestamp option \<Rightarrow> Decision" where
  "deferred r m t = \<lparr>dec_outcome = Deferred r t, dec_mode = m\<rparr>"

text \<open>An evaluation ends early with a decision, or with an exception.\<close>

datatype stop = Threw string | Denied Decision

subsection \<open>The emergency stop\<close>

definition emergencyStop :: "timestamp \<Rightarrow> string \<Rightarrow> ResourceLedger \<Rightarrow> ResourceLedger" where
  "emergencyStop now reason s = appendEvent now EEmergencyStop None None (s\<lparr>rsl_emergencyStop := Some (now, reason)\<rparr>)"

definition resume_dispatch :: "timestamp \<Rightarrow> ResourceLedger \<Rightarrow> ResourceLedger" where
  "resume_dispatch now s = appendEvent now EEmergencyResume None None (s\<lparr>rsl_emergencyStop := None\<rparr>)"

subsection \<open>Limits\<close>

fun unitsOf :: "LimitUnit \<Rightarrow> AdmissionRequest \<Rightarrow> rat \<Rightarrow> rat" where
  "unitsOf UTokens q cost = adm_inputTokens q + adm_outputTokens q"
| "unitsOf UInputTokens q cost = adm_inputTokens q"
| "unitsOf UOutputTokens q cost = adm_outputTokens q"
| "unitsOf URequests q cost = (case adm_requests q of Some n \<Rightarrow> n | None \<Rightarrow> 1)"
| "unitsOf UCostUsd q cost = cost"

definition minute_limit :: "LimitUnit \<Rightarrow> rat \<Rightarrow> LimitSpec" where
  "minute_limit u n = \<lparr>lim_unit = u, lim_window = ''1m'', lim_limit = Some n, lim_hard = True, lim_advisory = None, lim_conserve = None, lim_critical = None\<rparr>"

definition truthy_number :: "rat option \<Rightarrow> rat list" where
  "truthy_number n = (case n of Some x \<Rightarrow> if x = 0 then [] else [x] | None \<Rightarrow> [])"

definition effectiveLimits :: "AccountConfig \<Rightarrow> LimitSpec list" where
  "effectiveLimits a = acc_limits a @ map (minute_limit URequests) (truthy_number (acc_rpm a)) @ map (minute_limit UTokens) (truthy_number (acc_tpm a))"

text \<open>The accounts that share the quota of an account\<close>

definition account_scope :: "AccountRegistry \<Rightarrow> AccountConfig \<Rightarrow> string list" where
  "account_scope accounts a =
     (case acc_quotaGroup a of
        Some (c # g) \<Rightarrow> map acc_id (filter (\<lambda>x. acc_enabled x \<and> acc_quotaGroup x = Some (c # g)) (list_accounts accounts))
      | _ \<Rightarrow> [acc_id a])"

definition threshold_mode :: "LimitSpec \<Rightarrow> rat \<Rightarrow> BudgetMode" where
  "threshold_mode l utilization =
     (let t = (\<lambda>x d. case x of Some v \<Rightarrow> v | None \<Rightarrow> d) in
      if utilization > 1 \<and> lim_hard l then MExhausted
      else if utilization \<ge> t (lim_critical l) (19 / 20) then MCritical
      else if utilization \<ge> t (lim_conserve l) (17 / 20) then MConserve
      else if utilization \<ge> t (lim_advisory l) (7 / 10) then MAdvisory else MNormal)"

definition limitStatus :: "AccountRegistry \<Rightarrow> AccountConfig \<Rightarrow> LimitSpec \<Rightarrow> rat \<Rightarrow> timestamp \<Rightarrow> ResourceLedger \<Rightarrow> stop + LimitStatus" where
  "limitStatus accounts a l adding now s =
     (case windowBounds (lim_window l) now of
        Inl e \<Rightarrow> Inl (Threw e)
      | Inr b \<Rightarrow>
          (let scope = account_scope accounts a;
               used = usedSince scope (lim_unit l) (wb_start b) (wb_end b) s;
               reserved = reservedNow scope (lim_unit l) now s;
               windowEnd = (case wb_end b of Some e \<Rightarrow> e | None \<Rightarrow> wb_resetHint b)
           in case lim_limit l of
                None \<Rightarrow> Inr \<lparr>lst_used = used, lst_reserved = reserved, lst_utilization = None, lst_windowEnd = windowEnd,
                  lst_mode = (case acc_unknownLimitPolicy a of Some UAllow \<Rightarrow> MUnknown | Some UDeny \<Rightarrow> MExhausted | _ \<Rightarrow> MConserve)\<rparr>
              | Some n \<Rightarrow> (let utilization = (used + reserved + adding) / n in
                  Inr \<lparr>lst_used = used, lst_reserved = reserved, lst_utilization = Some utilization, lst_windowEnd = windowEnd, lst_mode = threshold_mode l utilization\<rparr>)))"

record AccountStatus =
  ast_health :: HealthRow
  ast_mode :: BudgetMode
  ast_limits :: "LimitStatus list"
  ast_inFlight :: nat

definition account_status :: "AccountRegistry \<Rightarrow> timestamp \<Rightarrow> ResourceLedger \<Rightarrow> string \<Rightarrow> stop + AccountStatus option" where
  "account_status accounts now s accountId =
     (case dget accounts accountId of None \<Rightarrow> Inr None
      | Some a \<Rightarrow> bindE (foldE (\<lambda>acc l. bindE (limitStatus accounts a l 0 now s) (\<lambda>x. Inr (acc @ [x]))) [] (effectiveLimits a)) (\<lambda>limits.
          Inr (Some \<lparr>ast_health = getHealth accountId now s, ast_mode = fold (\<lambda>x m. worse m (lst_mode x)) limits MNormal, ast_limits = limits,
            ast_inFlight = inFlight (account_scope accounts a) now s\<rparr>)))"

subsection \<open>Admission\<close>

definition estimated_cost :: "AccountConfig \<Rightarrow> AdmissionRequest \<Rightarrow> rat" where
  "estimated_cost a q = costUsd (pricingFor a (adm_modelId q)) (adm_inputTokens q) (adm_outputTokens q) 0"

text \<open>The limits in turn: the worst mode, unless a limit is exhausted\<close>

fun scan_limits :: "AccountRegistry \<Rightarrow> AccountConfig \<Rightarrow> AdmissionRequest \<Rightarrow> timestamp \<Rightarrow> ResourceLedger \<Rightarrow> LimitSpec list \<Rightarrow> BudgetMode \<Rightarrow> stop + BudgetMode" where
  "scan_limits accounts a q now s [] mode = Inr mode"
| "scan_limits accounts a q now s (l # ls) mode =
     bindE (limitStatus accounts a l (unitsOf (lim_unit l) q (estimated_cost a q)) now s) (\<lambda>x.
       if lst_mode x = MExhausted
       then Inl (Denied (if lim_limit l = None then blocked (RUnknownLimit l) MExhausted else deferred (RLimit l) MExhausted (Some (lst_windowEnd x))))
       else scan_limits accounts a q now s ls (worse mode (lst_mode x)))"

definition over_ceiling :: "rat \<Rightarrow> Window \<Rightarrow> rat \<Rightarrow> timestamp \<Rightarrow> ResourceLedger \<Rightarrow> bool" where
  "over_ceiling limitUsd w estCost now s \<longleftrightarrow> 0 < limitUsd \<and> limitUsd < spendSince (wb_start (window_at w now)) s + reservedSpendNow now s + estCost"

definition spend_check :: "ResourcePolicy \<Rightarrow> rat \<Rightarrow> timestamp \<Rightarrow> ResourceLedger \<Rightarrow> stop + unit" where
  "spend_check p estCost now s =
     (let d = (\<lambda>w. Inl (Denied (deferred (RSpend w) MExhausted (Some (wb_resetHint (window_at w now)))))) in
      if over_ceiling (pol_dailySpendUsd p) CalendarDay estCost now s then d CalendarDay
      else if over_ceiling (pol_monthlySpendUsd p) CalendarMonth estCost now s then d CalendarMonth else Inr ())"

definition check_health :: "AccountConfig \<Rightarrow> timestamp \<Rightarrow> ResourceLedger \<Rightarrow> stop + unit" where
  "check_health a now s =
     (let h = getHealth (acc_id a) now s in
      case hr_health h of
        HAuthBlocked \<Rightarrow> Inl (Denied (blocked RAuthBlocked MExhausted))
      | HQuotaBlocked \<Rightarrow> Inl (Denied (deferred RQuotaBlocked MExhausted (hr_until h)))
      | HCooldown \<Rightarrow> Inl (Denied (deferred RRateLimited MNormal (hr_until h)))
      | HOk \<Rightarrow> Inr ())"

definition too_many :: "AccountRegistry \<Rightarrow> AccountConfig \<Rightarrow> timestamp \<Rightarrow> ResourceLedger \<Rightarrow> bool" where
  "too_many accounts a now s \<longleftrightarrow> (\<exists>n \<in> set (truthy_number (acc_maxConcurrent a)). n \<le> of_nat (inFlight (account_scope accounts a) now s))"

definition exceeds_context :: "AccountConfig \<Rightarrow> AdmissionRequest \<Rightarrow> bool" where
  "exceeds_context a q \<longleftrightarrow> (\<exists>n \<in> set (truthy_number (dget (acc_contextLimits a) (adm_modelId q))). n < adm_inputTokens q + adm_outputTokens q)"

definition reserve_workloads :: "AccountConfig \<Rightarrow> WorkloadClass list" where
  "reserve_workloads a = (case acc_reserveFor a of Some w \<Rightarrow> w | None \<Rightarrow> DEFAULT_RESERVE_FOR)"

definition critical_workloads :: "AccountConfig \<Rightarrow> WorkloadClass list" where
  "critical_workloads a = (case acc_criticalOnly a of Some w \<Rightarrow> w | None \<Rightarrow> DEFAULT_CRITICAL_ONLY)"

definition over_task_tokens :: "ResourcePolicy \<Rightarrow> AdmissionRequest \<Rightarrow> timestamp \<Rightarrow> ResourceLedger \<Rightarrow> bool" where
  "over_task_tokens p q now s \<longleftrightarrow>
     0 < pol_maxTaskTokens p \<and>
     (case adm_taskId q of Some (c # t) \<Rightarrow> pol_maxTaskTokens p < taskTokens (c # t) now s + adm_inputTokens q + adm_outputTokens q | _ \<Rightarrow> False)"

text \<open>The checks of \<open>evaluate\<close>, in the order of the code: the mode of the admission, unless one denies it\<close>

definition judge :: "ResourcePolicy \<Rightarrow> AccountRegistry \<Rightarrow> AccountConfig \<Rightarrow> AdmissionRequest \<Rightarrow> timestamp \<Rightarrow> ResourceLedger \<Rightarrow> stop + BudgetMode" where
  "judge p accounts a q now s =
     (let deny = (\<lambda>r m. Denied (blocked r m)) in
      bindE (guardE (acc_enabled a) (deny RDisabled MExhausted)) (\<lambda>_.
      bindE (guardE (acc_kind a = KLocal \<or> rsl_emergencyStop s = None) (deny REmergencyStop MExhausted)) (\<lambda>_.
      if \<not> pol_enforce p then Inr MNormal
      else
      bindE (guardE (\<not> isPaid a \<or> pol_paidApiFallback p \<or> acc_allowPaid a) (deny RPaidNotAuthorized MExhausted)) (\<lambda>_.
      bindE (guardE (acc_workloads a = [] \<or> adm_workload q \<in> set (acc_workloads a)) (deny RWorkloadNotServed MNormal)) (\<lambda>_.
      bindE (guardE (acc_kind a = KLocal \<or> adm_workload q \<notin> set (pol_localOnlyWorkloads p)) (deny RLocalOnly MNormal)) (\<lambda>_.
      bindE (guardE (\<not> exceeds_context a q) (deny RContext MNormal)) (\<lambda>_.
      bindE (check_health a now s) (\<lambda>_.
      bindE (guardE (\<not> too_many accounts a now s) (Denied (deferred RConcurrency MNormal (Some (now + 250))))) (\<lambda>_.
      bindE (scan_limits accounts a q now s (effectiveLimits a) MNormal) (\<lambda>mode.
      bindE (guardE (mode = MConserve \<longrightarrow> adm_workload q \<in> set (reserve_workloads a)) (deny RConservation mode)) (\<lambda>_.
      bindE (guardE (mode = MCritical \<longrightarrow> adm_workload q \<in> set (critical_workloads a)) (deny RCritical mode)) (\<lambda>_.
      bindE (guardE (\<not> over_task_tokens p q now s) (deny RTaskTokens mode)) (\<lambda>_.
      bindE (if isPaid a \<and> 0 < estimated_cost a q then spend_check p (estimated_cost a q) now s else Inr ()) (\<lambda>_.
      Inr mode))))))))))))))"

definition reservation_for :: "ResourcePolicy \<Rightarrow> AccountConfig \<Rightarrow> AdmissionRequest \<Rightarrow> timestamp \<Rightarrow> string \<Rightarrow> ReservationRow" where
  "reservation_for p a q now uuid =
     \<lparr>rv_id = uuid, rv_requestId = adm_requestId q, rv_accountId = acc_id a, rv_modelId = adm_modelId q, rv_taskId = adm_taskId q, rv_workload = adm_workload q,
      rv_estInputTokens = adm_inputTokens q, rv_estOutputTokens = adm_outputTokens q, rv_estRequests = (case adm_requests q of Some n \<Rightarrow> n | None \<Rightarrow> 1),
      rv_estCostUsd = estimated_cost a q, rv_status = SActive, rv_createdAt = now, rv_leaseExpiresAt = now + pol_leaseMs p, rv_local = (acc_kind a = KLocal)\<rparr>"

definition evaluate_admission :: "ResourcePolicy \<Rightarrow> AccountRegistry \<Rightarrow> AccountConfig \<Rightarrow> AdmissionRequest \<Rightarrow> timestamp \<Rightarrow> string \<Rightarrow> bool \<Rightarrow> ResourceLedger
    \<Rightarrow> string + Decision \<times> ResourceLedger" where
  "evaluate_admission p accounts a q now uuid reserve s =
     (case judge p accounts a q now s of
        Inl (Threw e) \<Rightarrow> Inl e
      | Inl (Denied d) \<Rightarrow> Inr (d, s)
      | Inr mode \<Rightarrow>
          if \<not> reserve then Inr (\<lparr>dec_outcome = Admitted None, dec_mode = mode\<rparr>, s)
          else if getReservation (adm_requestId q) s \<noteq> None then Inr (blocked RDuplicate mode, s)
          else bindE (insertReservation (reservation_for p a q now uuid) s) (\<lambda>s'. Inr (\<lparr>dec_outcome = Admitted (Some uuid), dec_mode = mode\<rparr>, s')))"

definition outcome_event :: "Outcome \<Rightarrow> LedgerEventKind" where
  "outcome_event x = (case x of Admitted _ \<Rightarrow> EAdmitted | Deferred _ _ \<Rightarrow> EDeferred | Refused _ \<Rightarrow> EBlocked)"

text \<open>The clock is read for the recovery and again for the evaluation.\<close>

definition admit :: "ResourcePolicy \<Rightarrow> AccountRegistry \<Rightarrow> timestamp \<Rightarrow> timestamp \<Rightarrow> string \<Rightarrow> AdmissionRequest \<Rightarrow> ResourceLedger
    \<Rightarrow> (string + Decision) \<times> ResourceLedger" where
  "admit p accounts t1 t2 uuid q s =
     (case dget accounts (adm_accountId q) of
        None \<Rightarrow> (Inr (blocked RUnknownAccount MExhausted), s)
      | Some a \<Rightarrow>
          (let s1 = snd (recoverExpired t1 s) in
           case evaluate_admission p accounts a q t2 uuid True s1 of
             Inl e \<Rightarrow> (Inl e, s1)
           | Inr (d, s2) \<Rightarrow> (Inr d, appendEvent t2 (outcome_event (dec_outcome d)) (Some (adm_accountId q)) (Some (adm_requestId q)) s2)))"

definition preview :: "ResourcePolicy \<Rightarrow> AccountRegistry \<Rightarrow> timestamp \<Rightarrow> AdmissionRequest \<Rightarrow> ResourceLedger \<Rightarrow> string + Decision" where
  "preview p accounts now q s =
     (case dget accounts (adm_accountId q) of
        None \<Rightarrow> Inr (blocked RUnknownAccount MExhausted)
      | Some a \<Rightarrow> bindE (evaluate_admission p accounts a q now [] False s) (\<lambda>(d, _). Inr d))"

subsection \<open>Reconciliation and failure\<close>

record UsageMeasurement =
  um_inputTokens :: rat
  um_outputTokens :: rat
  um_cachedInputTokens :: "rat option"
  um_reasoningTokens :: "rat option"
  um_source :: UsageSource

definition or_zero :: "rat option \<Rightarrow> rat" where "or_zero x = (case x of Some v \<Rightarrow> v | None \<Rightarrow> 0)"

definition charge_row :: "AccountRegistry \<Rightarrow> timestamp \<Rightarrow> ReservationRow \<Rightarrow> UsageMeasurement \<Rightarrow> UsageRow" where
  "charge_row accounts now r u =
     \<lparr>us_requestId = rv_requestId r, us_accountId = rv_accountId r, us_modelId = rv_modelId r, us_taskId = rv_taskId r,
      us_inputTokens = um_inputTokens u, us_outputTokens = um_outputTokens u, us_cachedInputTokens = or_zero (um_cachedInputTokens u),
      us_reasoningTokens = or_zero (um_reasoningTokens u), us_requests = rv_estRequests r,
      us_costUsd = (case dget accounts (rv_accountId r) of None \<Rightarrow> 0
        | Some a \<Rightarrow> costUsd (pricingFor a (rv_modelId r)) (um_inputTokens u) (um_outputTokens u) (or_zero (um_cachedInputTokens u))),
      us_source = um_source u, us_at = now, us_local = rv_local r\<rparr>"

definition reconcile :: "AccountRegistry \<Rightarrow> timestamp \<Rightarrow> string \<Rightarrow> UsageMeasurement \<Rightarrow> rat option \<Rightarrow> ResourceLedger \<Rightarrow> bool \<times> ResourceLedger" where
  "reconcile accounts now requestId u rawEstimatedInput s =
     (case getReservation requestId s of
        None \<Rightarrow> (False, s)
      | Some r \<Rightarrow> (case settle now (charge_row accounts now r u) s of (settled, s') \<Rightarrow>
          (settled, if settled \<and> um_source u = ProviderReported \<and> or_zero rawEstimatedInput \<noteq> 0
            then calibrate (rv_modelId r) (or_zero rawEstimatedInput) (um_inputTokens u) s' else s')))"

datatype failure_kind = AuthFailed | QuotaExhausted | RateLimit | OtherFailure

record FailureReport =
  fr_kind :: failure_kind
  fr_retryAfterMs :: "int option"
  fr_ambiguous :: bool
  fr_partial :: "UsageMeasurement option"

definition reset_hints :: "AccountConfig \<Rightarrow> timestamp \<Rightarrow> string + timestamp list" where
  "reset_hints a now = foldE (\<lambda>acc l. bindE (windowBounds (lim_window l) now) (\<lambda>b. Inr (acc @ [wb_resetHint b]))) []
     (filter (\<lambda>l. lim_limit l \<noteq> None) (effectiveLimits a))"

definition quota_until :: "AccountRegistry \<Rightarrow> timestamp \<Rightarrow> string \<Rightarrow> FailureReport \<Rightarrow> string + timestamp" where
  "quota_until accounts now accountId report =
     bindE (case dget accounts accountId of None \<Rightarrow> Inr [] | Some a \<Rightarrow> reset_hints a now) (\<lambda>resets.
       Inr (case fr_retryAfterMs report of Some ms \<Rightarrow> now + ms
         | None \<Rightarrow> (case resets of [] \<Rightarrow> now + 3600000 | x # xs \<Rightarrow> fold min xs x)))"

definition record_failure :: "AccountRegistry \<Rightarrow> timestamp \<Rightarrow> ReservationRow \<Rightarrow> FailureReport \<Rightarrow> ResourceLedger \<Rightarrow> string + ResourceLedger" where
  "record_failure accounts now r report s =
     (let accountId = rv_accountId r; event = (\<lambda>k. appendEvent now k (Some accountId) (Some (rv_requestId r))) in
      case fr_kind report of
        AuthFailed \<Rightarrow> Inr (event EAuthFailed (setHealth now accountId HAuthBlocked None s))
      | QuotaExhausted \<Rightarrow> bindE (quota_until accounts now accountId report) (\<lambda>until.
          Inr (event EQuotaExhausted (setHealth now accountId HQuotaBlocked (Some until) s)))
      | RateLimit \<Rightarrow> Inr (event ERateLimited (setHealth now accountId HCooldown
          (Some (now + (case fr_retryAfterMs report of Some ms \<Rightarrow> ms | None \<Rightarrow> 30000))) s))
      | OtherFailure \<Rightarrow> Inr (event EProviderError s))"

definition conservative_usage :: "ReservationRow \<Rightarrow> UsageMeasurement option \<Rightarrow> UsageMeasurement" where
  "conservative_usage r partial' =
     (let part = (\<lambda>f. case partial' of Some u \<Rightarrow> f u | None \<Rightarrow> 0) in
      \<lparr>um_inputTokens = max (part um_inputTokens) (rv_estInputTokens r), um_outputTokens = max (part um_outputTokens) (rv_estOutputTokens r),
       um_cachedInputTokens = (case partial' of Some u \<Rightarrow> um_cachedInputTokens u | None \<Rightarrow> None), um_reasoningTokens = None, um_source = Conservative\<rparr>)"

definition fail_request :: "AccountRegistry \<Rightarrow> timestamp \<Rightarrow> string \<Rightarrow> FailureReport \<Rightarrow> ResourceLedger \<Rightarrow> string + ResourceLedger" where
  "fail_request accounts now requestId report s =
     (case getReservation requestId s of
        None \<Rightarrow> Inr s
      | Some r \<Rightarrow> bindE (record_failure accounts now r report s) (\<lambda>s1.
          Inr (if fr_ambiguous report
            then snd (reconcile accounts now requestId (conservative_usage r (fr_partial report)) None
              (appendEvent now EAmbiguous (Some (rv_accountId r)) (Some requestId) s1))
            else release now requestId s1)))"

definition resetHealth :: "timestamp \<Rightarrow> string \<Rightarrow> ResourceLedger \<Rightarrow> ResourceLedger" where
  "resetHealth now accountId = setHealth now accountId HOk None"

subsection \<open>What an admission means\<close>

text \<open>
  The total a limit would count after the request, the mode of the limit, and the mode of the request: the
  worst of its limits
\<close>

definition limit_total :: "AccountRegistry \<Rightarrow> AccountConfig \<Rightarrow> AdmissionRequest \<Rightarrow> timestamp \<Rightarrow> ResourceLedger \<Rightarrow> LimitSpec \<Rightarrow> rat" where
  "limit_total accounts a q now s l =
     (let b = window_at (the (parse_window (lim_window l))) now; scope = account_scope accounts a in
      usedSince scope (lim_unit l) (wb_start b) (wb_end b) s + reservedNow scope (lim_unit l) now s + unitsOf (lim_unit l) q (estimated_cost a q))"

definition limit_mode :: "AccountRegistry \<Rightarrow> AccountConfig \<Rightarrow> AdmissionRequest \<Rightarrow> timestamp \<Rightarrow> ResourceLedger \<Rightarrow> LimitSpec \<Rightarrow> BudgetMode" where
  "limit_mode accounts a q now s l =
     (case lim_limit l of
        None \<Rightarrow> (case acc_unknownLimitPolicy a of Some UAllow \<Rightarrow> MUnknown | Some UDeny \<Rightarrow> MExhausted | _ \<Rightarrow> MConserve)
      | Some n \<Rightarrow> threshold_mode l (limit_total accounts a q now s l / n))"

definition admission_mode :: "AccountRegistry \<Rightarrow> AccountConfig \<Rightarrow> AdmissionRequest \<Rightarrow> timestamp \<Rightarrow> ResourceLedger \<Rightarrow> BudgetMode" where
  "admission_mode accounts a q now s = fold (\<lambda>l m. max m (limit_mode accounts a q now s l)) (effectiveLimits a) MNormal"

text \<open>A limit admits the request: it is known and, if hard, not exceeded, or unknown and not to be denied.\<close>

definition limit_admits :: "AccountRegistry \<Rightarrow> AccountConfig \<Rightarrow> AdmissionRequest \<Rightarrow> timestamp \<Rightarrow> ResourceLedger \<Rightarrow> LimitSpec \<Rightarrow> bool" where
  "limit_admits accounts a q now s l \<longleftrightarrow>
     (case lim_limit l of None \<Rightarrow> acc_unknownLimitPolicy a \<noteq> Some UDeny | Some n \<Rightarrow> lim_hard l \<longrightarrow> limit_total accounts a q now s l \<le> n)"

definition within_spend :: "ResourcePolicy \<Rightarrow> rat \<Rightarrow> timestamp \<Rightarrow> ResourceLedger \<Rightarrow> bool" where
  "within_spend p estCost now s \<longleftrightarrow>
     (0 < pol_dailySpendUsd p \<longrightarrow> spendSince (wb_start (window_at CalendarDay now)) s + reservedSpendNow now s + estCost \<le> pol_dailySpendUsd p) \<and>
     (0 < pol_monthlySpendUsd p \<longrightarrow> spendSince (wb_start (window_at CalendarMonth now)) s + reservedSpendNow now s + estCost \<le> pol_monthlySpendUsd p)"

definition admissible :: "ResourcePolicy \<Rightarrow> AccountRegistry \<Rightarrow> AccountConfig \<Rightarrow> AdmissionRequest \<Rightarrow> timestamp \<Rightarrow> ResourceLedger \<Rightarrow> bool" where
  "admissible p accounts a q now s \<longleftrightarrow>
     acc_enabled a \<and> (acc_kind a = KLocal \<or> rsl_emergencyStop s = None) \<and>
     (pol_enforce p \<longrightarrow>
        (isPaid a \<longrightarrow> pol_paidApiFallback p \<or> acc_allowPaid a) \<and>
        (acc_workloads a = [] \<or> adm_workload q \<in> set (acc_workloads a)) \<and>
        (adm_workload q \<in> set (pol_localOnlyWorkloads p) \<longrightarrow> acc_kind a = KLocal) \<and>
        \<not> exceeds_context a q \<and>
        hr_health (getHealth (acc_id a) now s) = HOk \<and>
        \<not> too_many accounts a now s \<and>
        (\<forall>l \<in> set (effectiveLimits a). limit_admits accounts a q now s l) \<and>
        (admission_mode accounts a q now s = MConserve \<longrightarrow> adm_workload q \<in> set (reserve_workloads a)) \<and>
        (admission_mode accounts a q now s = MCritical \<longrightarrow> adm_workload q \<in> set (critical_workloads a)) \<and>
        \<not> over_task_tokens p q now s \<and>
        (isPaid a \<and> 0 < estimated_cost a q \<longrightarrow> within_spend p (estimated_cost a q) now s))"

lemma effectiveLimits_ok: "account_ok a \<Longrightarrow> l \<in> set (effectiveLimits a) \<Longrightarrow> limit_ok l"
proof -
  have "limit_ok (minute_limit u n)" if "0 < n" for u n
  proof -
    have "isValidWindow ''1m''" by code_simp
    with that show ?thesis by (simp add: limit_ok_def minute_limit_def)
  qed
  then show "account_ok a \<Longrightarrow> l \<in> set (effectiveLimits a) \<Longrightarrow> limit_ok l"
    by (auto simp: effectiveLimits_def account_ok_def truthy_number_def less_le split: option.splits if_splits)
qed

lemma limitStatus_ok:
  assumes "limit_ok l"
  obtains x where "limitStatus accounts a l (unitsOf (lim_unit l) q (estimated_cost a q)) now s = Inr x" "lst_mode x = limit_mode accounts a q now s l"
proof -
  obtain w where "parse_window (lim_window l) = Some w" using assms by (auto simp: limit_ok_def isValidWindow_def)
  then show thesis using that
    by (cases "lim_limit l") (auto simp: limitStatus_def limit_mode_def limit_total_def windowBounds_def Let_def)
qed

lemma threshold_exhausted: "threshold_mode l u = MExhausted \<longleftrightarrow> 1 < u \<and> lim_hard l"
  by (simp add: threshold_mode_def Let_def)

lemma limit_mode_admits: "limit_ok l \<Longrightarrow> limit_mode accounts a q now s l \<noteq> MExhausted \<longleftrightarrow> limit_admits accounts a q now s l"
  by (auto simp: limit_mode_def limit_admits_def limit_ok_def threshold_exhausted less_divide_eq not_less
    split: option.splits UnknownLimitPolicy.splits)

lemma scan_limits_Inr:
  assumes "\<forall>l \<in> set ls. limit_ok l"
  shows "scan_limits accounts a q now s ls mode = Inr m \<longleftrightarrow>
    (\<forall>l \<in> set ls. limit_admits accounts a q now s l) \<and> m = fold (\<lambda>l m. max m (limit_mode accounts a q now s l)) ls mode"
  using assms
proof (induction ls arbitrary: mode)
  case (Cons l ls)
  then have l: "limit_ok l" by simp
  obtain x where "limitStatus accounts a l (unitsOf (lim_unit l) q (estimated_cost a q)) now s = Inr x" "lst_mode x = limit_mode accounts a q now s l"
    using limitStatus_ok [OF l] .
  moreover have "limit_mode accounts a q now s l = MExhausted \<longleftrightarrow> \<not> limit_admits accounts a q now s l"
    using limit_mode_admits [OF l] by blast
  ultimately show ?case using Cons by (cases "limit_admits accounts a q now s l") (simp_all add: worse_max)
qed auto

lemma scan_limits_Threw: "\<forall>l \<in> set ls. limit_ok l \<Longrightarrow> scan_limits accounts a q now s ls mode \<noteq> Inl (Threw e)"
proof (induction ls arbitrary: mode)
  case (Cons l ls)
  then have l: "limit_ok l" by simp
  obtain x where "limitStatus accounts a l (unitsOf (lim_unit l) q (estimated_cost a q)) now s = Inr x"
    using limitStatus_ok [OF l] .
  then show ?case using Cons by auto
qed simp

lemma scan_limits_outcome: "scan_limits accounts a q now s ls mode = Inl (Denied d) \<Longrightarrow> dec_outcome d \<noteq> Admitted i"
proof (induction ls arbitrary: mode)
  case (Cons l ls)
  then show ?case
    by (auto simp: bindE_Inl limitStatus_def blocked_def deferred_def Let_def split: sum.splits option.splits if_splits)
qed simp

lemma check_health_Inr: "check_health a now s = Inr u \<longleftrightarrow> hr_health (getHealth (acc_id a) now s) = HOk"
  by (auto simp: check_health_def Let_def split: AccountHealth.splits)

lemma spend_check_Inr: "spend_check p c now s = Inr u \<longleftrightarrow> within_spend p c now s"
  by (auto simp: spend_check_def within_spend_def over_ceiling_def Let_def)

lemma judge_Inr:
  assumes "account_ok a"
  shows "judge p accounts a q now s = Inr m \<longleftrightarrow> admissible p accounts a q now s \<and> m = (if pol_enforce p then admission_mode accounts a q now s else MNormal)"
proof -
  have "\<forall>l \<in> set (effectiveLimits a). limit_ok l" using effectiveLimits_ok [OF assms] by blast
  note scan = scan_limits_Inr [OF this, of accounts a q now s MNormal, folded admission_mode_def]
  have spend: "(if isPaid a \<and> 0 < estimated_cost a q then spend_check p (estimated_cost a q) now s else Inr ()) = Inr u \<longleftrightarrow>
      (isPaid a \<and> 0 < estimated_cost a q \<longrightarrow> within_spend p (estimated_cost a q) now s)" for u
    by (auto simp: spend_check_Inr)
  show ?thesis
  proof (cases "pol_enforce p")
    case True
    then show ?thesis
      by (simp add: judge_def Let_def bindE_Inr guardE_Inr check_health_Inr scan spend admissible_def, argo)
  next
    case False
    then show ?thesis unfolding judge_def Let_def bindE_Inr guardE_Inr admissible_def by auto
  qed
qed

lemma judge_Threw:
  assumes "account_ok a"
  shows "judge p accounts a q now s \<noteq> Inl (Threw e)"
proof -
  have "\<forall>l \<in> set (effectiveLimits a). limit_ok l" using effectiveLimits_ok [OF assms] by blast
  from scan_limits_Threw [OF this]
  show ?thesis
    unfolding judge_def Let_def
    by (auto simp: bindE_Inl guardE_Inl check_health_def spend_check_def Let_def split: if_splits AccountHealth.splits)
qed

text \<open>Nothing else of the ledger is touched by an evaluation, which reserves exactly what it admits.\<close>

lemma evaluate_cases:
  assumes "account_ok a"
  obtains (admitted) m where "evaluate_admission p accounts a q now uuid True s =
        Inr (\<lparr>dec_outcome = Admitted (Some uuid), dec_mode = m\<rparr>, s\<lparr>rsl_reservations := rsl_reservations s @ [reservation_for p a q now uuid]\<rparr>)"
      "admissible p accounts a q now s" "getReservation (adm_requestId q) s = None" "\<forall>x \<in> set (rsl_reservations s). rv_id x \<noteq> uuid"
  | (refused) d where "evaluate_admission p accounts a q now uuid True s = Inr (d, s)" "\<And>i. dec_outcome d \<noteq> Admitted i"
      "\<not> (admissible p accounts a q now s \<and> getReservation (adm_requestId q) s = None)"
  | (clash) e where "evaluate_admission p accounts a q now uuid True s = Inl e" "\<exists>x \<in> set (rsl_reservations s). rv_id x = uuid"
proof (cases "judge p accounts a q now s")
  case (Inl st)
  then have "\<not> admissible p accounts a q now s" by (metis judge_Inr [OF assms] sum.distinct(1))
  moreover from Inl judge_Threw [OF assms] obtain d where d: "st = Denied d" by (cases st) auto
  have "dec_outcome d \<noteq> Admitted i" for i
    using Inl unfolding d judge_def Let_def
    by (auto simp: bindE_Inl guardE_Inl check_health_def spend_check_def blocked_def deferred_def Let_def dest!: scan_limits_outcome
      split: if_splits AccountHealth.splits)
  ultimately show thesis using refused Inl d by (simp add: evaluate_admission_def)
next
  case (Inr m)
  then have adm: "admissible p accounts a q now s" using judge_Inr [OF assms] by blast
  show thesis
  proof (cases "getReservation (adm_requestId q) s")
    case None
    then have fresh: "\<forall>x \<in> set (rsl_reservations s). rv_requestId x \<noteq> adm_requestId q" by (auto simp: getReservation_def find_None_iff)
    show thesis
    proof (cases "\<exists>x \<in> set (rsl_reservations s). rv_id x = uuid")
      case True
      then have "insertReservation (reservation_for p a q now uuid) s = Inl ''UNIQUE constraint failed''"
        by (auto simp: insertReservation_def reservation_for_def)
      with Inr None have "evaluate_admission p accounts a q now uuid True s = Inl ''UNIQUE constraint failed''" by (simp add: evaluate_admission_def)
      from clash [OF this True] show thesis .
    next
      case False
      with fresh have "insertReservation (reservation_for p a q now uuid) s = Inr (s\<lparr>rsl_reservations := rsl_reservations s @ [reservation_for p a q now uuid]\<rparr>)"
        by (auto simp: insertReservation_def reservation_for_def)
      with Inr None False adm admitted show thesis by (auto simp: evaluate_admission_def)
    qed
  next
    case (Some r)
    with Inr refused [of "blocked RDuplicate m"] show thesis by (simp add: evaluate_admission_def blocked_def)
  qed
qed

text \<open>A rate limit that is reported after an authentication failure replaces the block, and ends by itself.\<close>

lemma auth_block_is_replaced:
  assumes "hr_health (getHealth (rv_accountId r) now s) = HAuthBlocked" and "getReservation i s = Some r"
    and "fr_kind report = RateLimit" "fr_retryAfterMs report = Some ms" "\<not> fr_ambiguous report"
    and "fail_request accounts now i report s = Inr s'" and "now + ms \<le> t"
  shows "hr_health (getHealth (rv_accountId r) t s') = HOk"
proof -
  have "rsl_health s' = dput (rv_accountId r) \<lparr>hr_health = HCooldown, hr_until = Some (now + ms)\<rparr> (rsl_health s)"
    using assms(2-6) by (auto simp: fail_request_def record_failure_def release_def setHealth_def appendEvent_def Let_def split: option.splits if_splits)
  then show ?thesis using assms(7) by (simp add: getHealth_def)
qed

text \<open>
  C15. A request is admitted exactly when every rule allows it. After the expired reservations have been charged,
  \<open>admit\<close> admits the request if and only if the account is enabled and not stopped, the policy allows what it
  costs and where it runs, the account is healthy and has a free slot, no hard limit would be exceeded with
  what is used and reserved, the workload is one the mode of the budget still serves, and no reservation
  has been made for the request. An admission reserves the estimate; a refusal reserves nothing.
\<close>
theorem admitted_iff_admissible:
  fixes p accounts t1 t2 uuid q s
  defines "res \<equiv> admit p accounts t1 t2 uuid q s" and "s1 \<equiv> snd (recoverExpired t1 s)"
  assumes a: "dget accounts (adm_accountId q) = Some a" "account_ok a" and fresh: "uuid \<notin> set (map rv_id (rsl_reservations s1))"
  shows "if admissible p accounts a q t2 s1 \<and> getReservation (adm_requestId q) s1 = None
    then map_sum id dec_outcome (fst res) = Inr (Admitted (Some uuid)) \<and>
      rsl_reservations (snd res) = rsl_reservations s1 @ [reservation_for p a q t2 uuid] \<and> rsl_usage (snd res) = rsl_usage s1
    else (\<forall>i. map_sum id dec_outcome (fst res) \<noteq> Inr (Admitted i)) \<and>
      rsl_reservations (snd res) = rsl_reservations s1 \<and> rsl_usage (snd res) = rsl_usage s1"
  using a(2)
proof (cases rule: evaluate_cases [of a p accounts q t2 uuid s1])
  case (admitted m)
  then show ?thesis by (simp add: res_def admit_def a(1) s1_def [symmetric] Let_def appendEvent_def)
next
  case (refused d)
  then show ?thesis by (auto simp: res_def admit_def a(1) s1_def [symmetric] Let_def appendEvent_def)
next
  case (clash e)
  then show ?thesis using fresh by auto
qed

text \<open>A local account with one slot: the first request gets it, the second has to wait.\<close>

definition sample_account :: AccountConfig where
  "sample_account = (implicit_local ''ollama'')\<lparr>acc_maxConcurrent := Some 1\<rparr>"

definition sample_request :: "string \<Rightarrow> AdmissionRequest" where
  "sample_request i = \<lparr>adm_requestId = i, adm_accountId = ''local:ollama'', adm_modelId = ''m'', adm_workload = WRoutine, adm_inputTokens = 100,
     adm_outputTokens = 50, adm_taskId = None, adm_requests = None\<rparr>"

definition sample_policy :: ResourcePolicy where
  "sample_policy = DEFAULT_POLICY\<lparr>pol_enforce := True\<rparr>"

lemma admitted_iff_admissible_witness:
  defines "accounts \<equiv> registry [sample_account]"
  defines "first \<equiv> admit sample_policy accounts 0 0 ''u1'' (sample_request ''r1'') empty_resources"
  defines "second \<equiv> admit sample_policy accounts 1 1 ''u2'' (sample_request ''r2'') (snd first)"
  shows "map_sum id dec_outcome (fst first) = Inr (Admitted (Some ''u1'')) \<and> length (rsl_reservations (snd first)) = 1 \<and>
    length (rsl_reservations (snd second)) = 1"
proof -
  have a: "dget accounts (adm_accountId (sample_request i)) = Some sample_account" "account_ok sample_account" for i
    by (simp_all add: accounts_def sample_request_def registry_def sample_account_def implicit_local_def blank_account_def account_ok_def)
  have rows: "rsl_reservations empty_resources = []" "rsl_usage empty_resources = []" by (simp_all add: empty_resources_def)
  have start: "snd (recoverExpired 0 empty_resources) = empty_resources" by code_simp
  have "admissible sample_policy accounts sample_account (sample_request ''r1'') 0 empty_resources" unfolding accounts_def by code_simp
  moreover have "getReservation (adm_requestId (sample_request ''r1'')) empty_resources = None" by code_simp
  ultimately have adm: "map_sum id dec_outcome (fst first) = Inr (Admitted (Some ''u1''))"
      "rsl_reservations (snd first) = [reservation_for sample_policy sample_account (sample_request ''r1'') 0 ''u1'']"
    using admitted_iff_admissible [OF a(1) [of "''r1''"] a(2), where uuid = "''u1''" and ?t1.0 = 0 and s = empty_resources and p = sample_policy and ?t2.0 = 0] by (simp_all add: first_def start rows)
  have after_first: "rsl_reservations (snd (recoverExpired 1 (snd first))) = [reservation_for sample_policy sample_account (sample_request ''r1'') 0 ''u1'']"
    unfolding first_def accounts_def by code_simp
  have "\<not> admissible sample_policy accounts sample_account (sample_request ''r2'') 1 (snd (recoverExpired 1 (snd first)))"
    unfolding first_def accounts_def by code_simp
  then have "rsl_reservations (snd second) = [reservation_for sample_policy sample_account (sample_request ''r1'') 0 ''u1'']"
    using admitted_iff_admissible [OF a(1) [of "''r2''"] a(2), where uuid = "''u2''" and ?t1.0 = 1 and s = "snd first" and p = sample_policy and ?t2.0 = 1] after_first by (simp add: second_def reservation_for_def)
  with adm show ?thesis by simp
qed

end
