(* ===== verification/Budget_Limits.thy ===== *)
theory Budget_Limits
  imports Budget
begin

text \<open>
  What the resource governor keeps: the well-formedness of its ledger under every operation, and with it the
  limits of the accounts. Several processes share the ledger, so the steps of the relation \<open>budget_step\<close> are its
  transactions: the two of a recovery and the evaluation of an admission are separate steps, other
  processes may act and the clock may advance between any two steps, and a process may stop between them.
  \<open>recoverExpired\<close> and \<open>admit\<close>, which read the clock once and twice, are sequences of such steps.
\<close>

subsection \<open>Sums over tables\<close>

lemma sum_where_append [simp]: "sum_where p f (xs @ ys) = sum_where p f xs + sum_where p f ys"
  by (simp add: sum_where_def)

lemma sum_where_Nil [simp]: "sum_where p f [] = 0"
  by (simp add: sum_where_def)

lemma sum_where_Cons [simp]: "sum_where p f (x # xs) = (if p x then f x else 0) + sum_where p f xs"
  by (simp add: sum_where_def)

lemma sum_where_nonneg: "\<forall>x \<in> set xs. 0 \<le> f x \<Longrightarrow> 0 \<le> sum_where p f xs"
  by (induction xs) auto

lemma sum_where_mono: "\<forall>x \<in> set xs. 0 \<le> f x \<Longrightarrow> \<forall>x \<in> set xs. p x \<longrightarrow> q x \<Longrightarrow> sum_where p f xs \<le> sum_where q f xs"
  by (induction xs) (auto intro: add_mono order_trans)

lemma sum_where_cong: "\<forall>x \<in> set xs. p x \<longleftrightarrow> q x \<Longrightarrow> sum_where p f xs = sum_where q f xs"
  by (induction xs) auto

text \<open>One row of a table without repetitions is replaced.\<close>

definition replace_row :: "'a \<Rightarrow> 'a \<Rightarrow> 'a list \<Rightarrow> 'a list" where
  "replace_row x y xs = map (\<lambda>z. if z = x then y else z) xs"

lemma replace_row_absent [simp]: "x \<notin> set xs \<Longrightarrow> replace_row x y xs = xs"
  by (induction xs) (auto simp: replace_row_def)

lemma replace_row_Cons [simp]: "replace_row x y (z # zs) = (if z = x then y else z) # replace_row x y zs"
  by (simp add: replace_row_def)

lemma sum_replace_row:
  "distinct xs \<Longrightarrow> x \<in> set xs \<Longrightarrow>
    sum_where p f (replace_row x y xs) = sum_where p f xs - (if p x then f x else 0) + (if p y then f y else 0)"
  by (induction xs) auto

lemma set_replace_row: "x \<in> set xs \<Longrightarrow> set (replace_row x y xs) = insert y (set xs - {x})"
  by (auto simp: replace_row_def)

lemma map_replace_row: "g y = g x \<Longrightarrow> map g (replace_row x y xs) = map g xs"
  by (simp add: replace_row_def)

lemma update_where_row: "\<forall>z \<in> set xs. p z \<longleftrightarrow> z = x \<Longrightarrow> update_where p f xs = replace_row x (f x) xs"
  by (auto simp: update_where_def replace_row_def)

lemma update_where_none: "\<forall>z \<in> set xs. \<not> p z \<Longrightarrow> update_where p f xs = xs"
  by (simp add: update_where_def map_idI)

subsection \<open>Well-formed ledgers\<close>

definition usage_ids :: "ResourceLedger \<Rightarrow> string set" where
  "usage_ids s = us_requestId ` set (rsl_usage s)"

definition resources_ok :: "timestamp \<Rightarrow> ResourceLedger \<Rightarrow> bool" where
  "resources_ok now s \<longleftrightarrow>
     distinct (map rv_requestId (rsl_reservations s)) \<and> distinct (map rv_id (rsl_reservations s)) \<and> distinct (map us_requestId (rsl_usage s)) \<and>
     (\<forall>x \<in> set (rsl_usage s). us_at x \<le> now) \<and> usage_ids s \<subseteq> rv_requestId ` set (rsl_reservations s) \<and>
     (\<forall>r \<in> set (rsl_reservations s). (rv_status r \<in> {SActive, SExpired} \<longrightarrow> rv_requestId r \<notin> usage_ids s) \<and>
        (rv_status r = SSettled \<longrightarrow> rv_requestId r \<in> usage_ids s))"

lemma resources_okI:
  assumes "resources_ok now s" "rsl_reservations s' = rsl_reservations s" "rsl_usage s' = rsl_usage s"
  shows "resources_ok now s'"
  using assms by (simp add: resources_ok_def usage_ids_def)

lemma row_keys:
  assumes "resources_ok now s" "r \<in> set (rsl_reservations s)" "x \<in> set (rsl_reservations s)"
  shows "rv_requestId x = rv_requestId r \<longleftrightarrow> x = r" "rv_id x = rv_id r \<longleftrightarrow> x = r"
  using assms by (auto simp: resources_ok_def distinct_map inj_on_def)

lemma getReservation_row: "resources_ok now s \<Longrightarrow> getReservation i s = Some r \<longleftrightarrow> r \<in> set (rsl_reservations s) \<and> rv_requestId r = i"
proof
  assume ok: "resources_ok now s" and r: "r \<in> set (rsl_reservations s) \<and> rv_requestId r = i"
  then obtain x where x: "getReservation i s = Some x"
    by (cases "getReservation i s") (auto simp: getReservation_def find_None_iff)
  then have "x \<in> set (rsl_reservations s)" "rv_requestId x = i" by (auto simp: getReservation_def find_Some_iff)
  with r x row_keys(1) [OF ok, of r x] show "getReservation i s = Some r" by simp
qed (auto simp: getReservation_def find_Some_iff)

lemma charged_ok:
  assumes ok: "resources_ok now s" and r: "r \<in> set (rsl_reservations s)" "rv_status r \<in> {SActive, SExpired}" and row: "us_requestId row = rv_requestId r" "us_at row \<le> now"
    and s': "rsl_usage s' = rsl_usage s @ [row]" "rsl_reservations s' = replace_row r (r\<lparr>rv_status := SSettled\<rparr>) (rsl_reservations s)"
  shows "resources_ok now s'"
proof -
  have "us_requestId row \<notin> set (map us_requestId (rsl_usage s))" using ok r row by (auto simp: resources_ok_def usage_ids_def)
  then show ?thesis
    using ok r row row_keys(1) [OF ok r(1)] by (auto simp: s' resources_ok_def usage_ids_def set_replace_row map_replace_row)
qed

text \<open>A settlement of an active or expired reservation appends the usage and marks the reservation, and nothing else.\<close>

lemma settle_active:
  assumes ok: "resources_ok now s" and r: "r \<in> set (rsl_reservations s)" "rv_status r \<in> {SActive, SExpired}" and row: "us_requestId row = rv_requestId r" "us_at row \<le> now"
  shows "settle t row s = (True, appendEvent t ESettled (Some (us_accountId row)) (Some (us_requestId row))
      (s\<lparr>rsl_usage := rsl_usage s @ [row], rsl_reservations := replace_row r (r\<lparr>rv_status := SSettled\<rparr>) (rsl_reservations s)\<rparr>))"
    and "resources_ok now (snd (settle t row s))"
proof -
  have fresh: "us_requestId row \<notin> set (map us_requestId (rsl_usage s))" using ok r row by (auto simp: resources_ok_def usage_ids_def)
  have "\<forall>z \<in> set (rsl_reservations s). rv_requestId z = us_requestId row \<and> rv_status z \<in> {SActive, SExpired} \<longleftrightarrow> z = r"
    using row_keys(1) [OF ok r(1)] r(2) row by auto
  from update_where_row [OF this] fresh
  show eq: "settle t row s = (True, appendEvent t ESettled (Some (us_accountId row)) (Some (us_requestId row))
      (s\<lparr>rsl_usage := rsl_usage s @ [row], rsl_reservations := replace_row r (r\<lparr>rv_status := SSettled\<rparr>) (rsl_reservations s)\<rparr>))"
    by (simp add: settle_def)
  show "resources_ok now (snd (settle t row s))"
    by (rule charged_ok [OF ok r row]) (simp_all add: eq appendEvent_def)
qed

lemma settle_again:
  assumes "us_requestId row \<in> usage_ids s"
  shows "settle t row s = (False, appendEvent t EDuplicateSettle (Some (us_accountId row)) (Some (us_requestId row)) s)"
  using assms by (simp add: settle_def usage_ids_def image_iff)

subsection \<open>Recovery\<close>

lemma recover_row_step:
  assumes ok: "resources_ok now s" and r: "r \<in> set (rsl_reservations s)" "expired now r"
  obtains s' where "recover_row now r (n, s) = (n + 1, s')" "resources_ok now s'" "rsl_usage s' = rsl_usage s @ [estimate_row now r]"
    "rsl_reservations s' = replace_row r (r\<lparr>rv_status := SSettled\<rparr>) (rsl_reservations s)" "rsl_health s' = rsl_health s"
    "rsl_calibration s' = rsl_calibration s" "rsl_emergencyStop s' = rsl_emergencyStop s"
proof -
  let ?x = "r\<lparr>rv_status := SExpired\<rparr>"
  have act: "rv_status r = SActive" using r(2) by (simp add: expired_def)
  have "\<forall>z \<in> set (rsl_reservations s). rv_id z = rv_id r \<and> expired now z \<longleftrightarrow> z = r" using row_keys(2) [OF ok r(1)] r(2) by auto
  note upd = update_where_row [OF this]
  let ?s1 = "appendEvent now EExpired (Some (rv_accountId r)) (Some (rv_requestId r)) (s\<lparr>rsl_reservations := replace_row r ?x (rsl_reservations s)\<rparr>)"
  have mark: "mark_expired now r s = (True, ?s1)" using r upd by (auto simp: mark_expired_def)
  have fresh: "rv_requestId r \<notin> us_requestId ` set (rsl_usage s)" using ok r act by (auto simp: resources_ok_def usage_ids_def)
  have "rv_status ?x \<noteq> rv_status r" using act by simp
  then have "?x \<noteq> r" by metis
  then have new_row: "?x \<notin> set (rsl_reservations s)" using row_keys(1) [OF ok r(1), of ?x] by (metis ReservationRow.select_convs(2) ReservationRow.surjective ReservationRow.update_convs(11))
  have "\<forall>z \<in> set (replace_row r ?x (rsl_reservations s)). rv_requestId z = rv_requestId r \<and> rv_status z \<in> {SActive, SExpired} \<longleftrightarrow> z = ?x"
    using row_keys(1) [OF ok r(1)] new_row by (auto simp: set_replace_row [OF r(1)])
  note upd2 = update_where_row [OF this]
  from new_row have twice: "replace_row ?x (?x\<lparr>rv_status := SSettled\<rparr>) (replace_row r ?x (rsl_reservations s)) = replace_row r (r\<lparr>rv_status := SSettled\<rparr>) (rsl_reservations s)"
    by (auto simp: replace_row_def)
  let ?s' = "snd (settle now (estimate_row now r) ?s1)"
  have st: "settle now (estimate_row now r) ?s1 = (True, appendEvent now ESettled (Some (rv_accountId r)) (Some (rv_requestId r))
      (?s1\<lparr>rsl_usage := rsl_usage s @ [estimate_row now r], rsl_reservations := replace_row r (r\<lparr>rv_status := SSettled\<rparr>) (rsl_reservations s)\<rparr>))"
    using fresh upd2 twice by (simp add: settle_def estimate_row_def appendEvent_def)
  have "resources_ok now ?s'"
    by (rule charged_ok [OF ok r(1), of "estimate_row now r"]) (simp_all add: act st, simp_all add: estimate_row_def appendEvent_def)
  then show thesis by (intro that [of ?s']) (simp_all add: recover_row_def mark st, simp_all add: appendEvent_def)
qed

text \<open>A property of the ledger that every recovered row keeps is kept by the recovery, which leaves no expired reservation.\<close>

lemma recoverExpired_induct:
  assumes ok: "resources_ok now s" and init: "P s"
    and step: "\<And>r s s'. resources_ok now s \<Longrightarrow> P s \<Longrightarrow> r \<in> set (rsl_reservations s) \<Longrightarrow> rv_status r = SActive \<Longrightarrow> rsl_usage s' = rsl_usage s @ [estimate_row now r] \<Longrightarrow>
      rsl_reservations s' = replace_row r (r\<lparr>rv_status := SSettled\<rparr>) (rsl_reservations s) \<Longrightarrow> rsl_health s' = rsl_health s \<Longrightarrow>
      rsl_calibration s' = rsl_calibration s \<Longrightarrow> rsl_emergencyStop s' = rsl_emergencyStop s \<Longrightarrow> P s'"
  shows "P (snd (recoverExpired now s))" "resources_ok now (snd (recoverExpired now s))" "\<forall>x \<in> set (rsl_reservations (snd (recoverExpired now s))). \<not> expired now x"
proof -
  have *: "resources_ok now (snd (fold (recover_row now) rows (n, s))) \<and> P (snd (fold (recover_row now) rows (n, s))) \<and>
      (\<forall>x \<in> set (rsl_reservations (snd (fold (recover_row now) rows (n, s)))). \<not> expired now x)"
    if "resources_ok now s" "P s" "distinct rows" "set rows = {x \<in> set (rsl_reservations s). expired now x}" for rows n s
    using that
  proof (induction rows arbitrary: n s)
    case (Cons r rows)
    then have r: "r \<in> set (rsl_reservations s)" "expired now r" by auto
    obtain s' where s': "recover_row now r (n, s) = (n + 1, s')" "resources_ok now s'" "rsl_usage s' = rsl_usage s @ [estimate_row now r]"
      "rsl_reservations s' = replace_row r (r\<lparr>rv_status := SSettled\<rparr>) (rsl_reservations s)" "rsl_health s' = rsl_health s"
      "rsl_calibration s' = rsl_calibration s" "rsl_emergencyStop s' = rsl_emergencyStop s"
      using recover_row_step [OF Cons.prems(1) r] .
    have "P s'" using step [OF Cons.prems(1,2) r(1) _ s'(3-7)] r(2) by (simp add: expired_def)
    moreover have "set rows = {x \<in> set (rsl_reservations s'). expired now x}"
      using Cons.prems(3,4) r by (auto simp: s'(4) set_replace_row expired_def)
    ultimately show ?case using Cons.IH [OF s'(2), of "n + 1"] Cons.prems(3) s'(1) by simp
  qed auto
  have "distinct (filter (expired now) (rsl_reservations s))" using ok by (auto simp: resources_ok_def distinct_map)
  from * [OF ok init this, of 0]
  show "P (snd (recoverExpired now s))" "resources_ok now (snd (recoverExpired now s))" "\<forall>x \<in> set (rsl_reservations (snd (recoverExpired now s))). \<not> expired now x"
    by (simp_all add: recoverExpired_def)
qed

subsection \<open>Committed amounts\<close>

text \<open>
  What a limit has to bound: the usage since a time and everything that is reserved and not yet charged,
  whether its lease runs, has ended, or has been marked as expired
\<close>

definition held :: "string list \<Rightarrow> LimitUnit \<Rightarrow> ResourceLedger \<Rightarrow> rat" where
  "held ids u s = sum_where (\<lambda>r. rv_accountId r \<in> set ids \<and> rv_status r \<in> {SActive, SExpired}) (est_units u) (rsl_reservations s)"

definition committed :: "string list \<Rightarrow> LimitUnit \<Rightarrow> timestamp \<Rightarrow> ResourceLedger \<Rightarrow> rat" where
  "committed ids u since s = usedSince ids u since None s + held ids u s"

definition amounts_ok :: "LimitUnit \<Rightarrow> ResourceLedger \<Rightarrow> bool" where
  "amounts_ok u s \<longleftrightarrow> (\<forall>x \<in> set (rsl_usage s). 0 \<le> used_units u x) \<and> (\<forall>r \<in> set (rsl_reservations s). 0 \<le> est_units u r)"

lemma est_units_status [simp]: "est_units u (r\<lparr>rv_status := st\<rparr>) = est_units u r"
  by (cases u) simp_all

lemma est_units_lease [simp]: "est_units u (r\<lparr>rv_leaseExpiresAt := t\<rparr>) = est_units u r"
  by (cases u) simp_all

lemma estimate_row_fields [simp]:
  "us_requestId (estimate_row now r) = rv_requestId r" "us_accountId (estimate_row now r) = rv_accountId r" "us_at (estimate_row now r) = now"
  by (simp_all add: estimate_row_def)

lemma estimate_units: "used_units u (estimate_row now r) = est_units u r"
  by (cases u) (simp_all add: estimate_row_def)

lemma charge_committed:
  assumes ok: "resources_ok now s" and am: "amounts_ok u s" and r: "r \<in> set (rsl_reservations s)" "rv_status r \<in> {SActive, SExpired}"
    and row: "us_accountId row = rv_accountId r" "0 \<le> used_units u row" "used_units u row \<le> est_units u r"
    and s': "rsl_usage s' = rsl_usage s @ [row]" "rsl_reservations s' = replace_row r (r\<lparr>rv_status := SSettled\<rparr>) (rsl_reservations s)"
  shows "committed ids u since s' \<le> committed ids u since s" "amounts_ok u s'"
proof -
  have "distinct (rsl_reservations s)" using ok by (auto simp: resources_ok_def distinct_map)
  then have "held ids u s' = held ids u s - (if rv_accountId r \<in> set ids then est_units u r else 0)"
    using r by (simp add: held_def s' sum_replace_row)
  then show "committed ids u since s' \<le> committed ids u since s"
    using row by (auto simp: committed_def usedSince_def s')
  show "amounts_ok u s'" using am r row by (auto simp: amounts_ok_def s' set_replace_row)
qed

text \<open>
  \<open>recovered now s\<close>: every reservation whose lease has ended by \<open>now\<close> has been charged. A recovery that runs to
  its end establishes it, unless another one stopped half way, or a lease ends after the recovery read
  the clock.
\<close>

definition recovered :: "timestamp \<Rightarrow> ResourceLedger \<Rightarrow> bool" where
  "recovered now s \<longleftrightarrow> (\<forall>r \<in> set (rsl_reservations s). rv_status r \<noteq> SExpired \<and> \<not> expired now r)"

lemma recovery_recovers:
  assumes ok: "resources_ok t1 s" and none: "\<forall>r \<in> set (rsl_reservations s). rv_status r \<noteq> SExpired"
    and leases: "\<forall>r \<in> set (rsl_reservations s). rv_status r = SActive \<longrightarrow> rv_leaseExpiresAt r \<le> t1 \<or> t2 < rv_leaseExpiresAt r"
  shows "recovered t2 (snd (recoverExpired t1 s))"
proof -
  let ?P = "\<lambda>x. \<forall>r \<in> set (rsl_reservations x). rv_status r \<noteq> SExpired \<and> (rv_status r = SActive \<longrightarrow> rv_leaseExpiresAt r \<le> t1 \<or> t2 < rv_leaseExpiresAt r)"
  have 1: "?P s" using none leases by blast
  have 2: "?P x'" if "?P x" "r \<in> set (rsl_reservations x)" "rsl_reservations x' = replace_row r (r\<lparr>rv_status := SSettled\<rparr>) (rsl_reservations x)" for r x x'
    using that by (auto simp: set_replace_row)
  have "?P (snd (recoverExpired t1 s))" by (rule recoverExpired_induct(1) [where P = ?P, OF ok 1]) (rule 2; assumption)
  moreover have "\<forall>x \<in> set (rsl_reservations (snd (recoverExpired t1 s))). \<not> expired t1 x"
    by (rule recoverExpired_induct(3) [where P = ?P, OF ok 1]) (rule 2; assumption)
  ultimately show ?thesis by (fastforce simp: recovered_def expired_def)
qed

lemma window_start_mono:
  assumes w: "parse_window spec = Some w" and "now \<le> now'"
  shows "wb_start (window_at w now) \<le> wb_start (window_at w now')"
proof (cases "wb_end (window_at w now')")
  case None
  then obtain len where "w = Rolling len" by (cases w) (simp_all add: window_at_def Let_def)
  with assms show ?thesis by (simp add: window_at_def Let_def)
next
  case (Some e)
  show ?thesis
  proof (rule ccontr)
    assume "\<not> ?thesis"
    then have "wb_start (window_at w now') \<le> now" using parsed_window_contains(1) [OF w, of now] by linarith
    moreover have "now < e" using parsed_window_contains(2) [OF w, of now'] Some assms(2) by simp
    moreover have "w \<noteq> Rolling 0" using Some by (auto simp: window_at_def Let_def)
    ultimately have "window_at w now = window_at w now'" using same_window Some by metis
    with \<open>\<not> ?thesis\<close> show False by simp
  qed
qed

lemma committed_later: "amounts_ok u s \<Longrightarrow> since \<le> since' \<Longrightarrow> committed ids u since' s \<le> committed ids u since s"
  unfolding committed_def usedSince_def by (rule add_right_mono, rule sum_where_mono) (auto simp: amounts_ok_def in_window_def)

subsection \<open>The operations as steps\<close>

text \<open>
  The usage a charge reports stays within the reservation. Nothing is demanded of the number of requests,
  which \<open>reconcile\<close> takes from the reservation itself. A request that was released is not reported again.
\<close>

definition charge_covered :: "AccountRegistry \<Rightarrow> LimitUnit \<Rightarrow> timestamp \<Rightarrow> string \<Rightarrow> UsageMeasurement \<Rightarrow> ResourceLedger \<Rightarrow> bool" where
  "charge_covered accounts u now requestId m s \<longleftrightarrow>
     (case getReservation requestId s of None \<Rightarrow> True
      | Some r \<Rightarrow> rv_status r \<noteq> SReleased \<and>
          (u = URequests \<or> 0 \<le> used_units u (charge_row accounts now r m) \<and> used_units u (charge_row accounts now r m) \<le> est_units u r))"

text \<open>
  \<open>t\<close> is the time of the clock, \<open>t1\<close> a time that was read before. A row that is charged by a recovery is one the
  recovery has marked, whoever has settled it since; an evaluation that throws is rolled back and is no step.
\<close>

inductive budget_step :: "ResourcePolicy \<Rightarrow> AccountRegistry \<Rightarrow> (timestamp \<Rightarrow> AdmissionRequest \<Rightarrow> ResourceLedger \<Rightarrow> bool)
    \<Rightarrow> (timestamp \<Rightarrow> string \<Rightarrow> UsageMeasurement \<Rightarrow> ResourceLedger \<Rightarrow> bool) \<Rightarrow> timestamp \<times> ResourceLedger \<Rightarrow> timestamp \<times> ResourceLedger \<Rightarrow> bool"
  for p accounts may cov where
  tick: "t \<le> t' \<Longrightarrow> budget_step p accounts may cov (t, s) (t', s)"
| marking: "t1 \<le> t \<Longrightarrow> budget_step p accounts may cov (t, s) (t, snd (mark_expired t1 r s))"
| charging: "t1 \<le> t \<Longrightarrow> r \<in> set (rsl_reservations s) \<Longrightarrow> rv_status r \<in> {SExpired, SSettled} \<Longrightarrow>
    budget_step p accounts may cov (t, s) (t, snd (settle t1 (estimate_row t1 r) s))"
| evaluation: "dget accounts (adm_accountId q) = Some a \<Longrightarrow> may t q s \<Longrightarrow> evaluate_admission p accounts a q t uuid True s = Inr (d, s') \<Longrightarrow>
    budget_step p accounts may cov (t, s) (t, s')"
| event: "budget_step p accounts may cov (t, s) (t, appendEvent t1 kind accountId requestId s)"
| reconciliation: "cov t requestId m s \<Longrightarrow> budget_step p accounts may cov (t, s) (t, snd (reconcile accounts t requestId m raw s))"
| failed_request: "fail_request accounts t requestId report s = Inr s' \<Longrightarrow>
    (\<forall>r. fr_ambiguous report \<and> getReservation requestId s = Some r \<longrightarrow> cov t requestId (conservative_usage r (fr_partial report)) s) \<Longrightarrow>
    budget_step p accounts may cov (t, s) (t, s')"
| renewal: "budget_step p accounts may cov (t, s) (t, renewLease requestId until s)"
| health_set: "budget_step p accounts may cov (t, s) (t, setHealth t accountId h until s)"
| stopped: "budget_step p accounts may cov (t, s) (t, emergencyStop t reason s)"
| resumed: "budget_step p accounts may cov (t, s) (t, resume_dispatch t s)"

text \<open>The operations that take more than one step\<close>

lemma mark_marks:
  assumes ok: "resources_ok t s" and r: "r \<in> set (rsl_reservations s)" and m: "mark_expired t1 r s = (True, s1)"
  shows "r\<lparr>rv_status := SExpired\<rparr> \<in> set (rsl_reservations s1)"
proof -
  have "expired t1 r" using m row_keys(2) [OF ok r] by (auto simp: mark_expired_def split: if_splits)
  then show ?thesis using m r by (force simp: mark_expired_def update_where_def appendEvent_def split: if_splits)
qed

lemma recover_row_steps:
  assumes ok: "resources_ok t s" and r: "r \<in> set (rsl_reservations s)" and t: "t1 \<le> t"
  shows "(budget_step p accounts may cov)\<^sup>*\<^sup>* (t, s) (t, snd (recover_row t1 r (n, s)))"
proof (cases "mark_expired t1 r s")
  case (Pair won s1)
  then have 1: "budget_step p accounts may cov (t, s) (t, s1)" using budget_step.marking [OF t, of p accounts may cov s r] by simp
  show ?thesis
  proof (cases won)
    case True
    from mark_marks [OF ok r] Pair True have "r\<lparr>rv_status := SExpired\<rparr> \<in> set (rsl_reservations s1)" by simp
    from budget_step.charging [OF t this, of p accounts may cov]
    have "budget_step p accounts may cov (t, s1) (t, snd (settle t1 (estimate_row t1 r) s1))" by (simp add: estimate_row_def)
    with 1 have "(budget_step p accounts may cov)\<^sup>*\<^sup>* (t, s) (t, snd (settle t1 (estimate_row t1 r) s1))" by (meson r_into_rtranclp rtranclp.rtrancl_into_rtrancl)
    then show ?thesis using Pair True by (simp add: recover_row_def case_prod_beta)
  qed (use 1 Pair in \<open>simp add: recover_row_def\<close>)
qed

definition request_covered :: "AccountRegistry \<Rightarrow> LimitUnit \<Rightarrow> AdmissionRequest \<Rightarrow> bool" where
  "request_covered accounts u q \<longleftrightarrow> (case dget accounts (adm_accountId q) of None \<Rightarrow> True | Some a \<Rightarrow> 0 \<le> unitsOf u q (estimated_cost a q))"

text \<open>The limits of a scope are kept if all accounts that share it are under the limit.\<close>

definition limit_shared :: "AccountRegistry \<Rightarrow> AccountConfig \<Rightarrow> LimitSpec \<Rightarrow> bool" where
  "limit_shared accounts a l \<longleftrightarrow> l \<in> set (effectiveLimits a) \<and>
     (\<forall>b \<in> set (list_accounts accounts). acc_enabled b \<and> acc_id b \<in> set (account_scope accounts a) \<longrightarrow>
        l \<in> set (effectiveLimits b) \<and> set (account_scope accounts b) = set (account_scope accounts a))"

definition budget_inv :: "LimitUnit \<Rightarrow> string list \<Rightarrow> Window \<Rightarrow> rat \<Rightarrow> timestamp \<times> ResourceLedger \<Rightarrow> bool" where
  "budget_inv u ids w n ts \<longleftrightarrow> resources_ok (fst ts) (snd ts) \<and> amounts_ok u (snd ts) \<and> committed ids u (wb_start (window_at w (fst ts))) (snd ts) \<le> n"

subsection \<open>What every operation keeps\<close>

lemma resources_ok_update:
  assumes ok: "resources_ok t s" and f: "\<And>r. rv_id (f r) = rv_id r \<and> rv_requestId (f r) = rv_requestId r"
    and st: "\<And>r. c r \<Longrightarrow> rv_status (f r) \<in> {rv_status r, SReleased} \<or> rv_status r = SActive \<and> rv_status (f r) = SExpired"
    and s': "rsl_usage s' = rsl_usage s" "rsl_reservations s' = update_where c f (rsl_reservations s)"
  shows "resources_ok t s'"
proof -
  have m: "map rv_id (rsl_reservations s') = map rv_id (rsl_reservations s)" "map rv_requestId (rsl_reservations s') = map rv_requestId (rsl_reservations s)"
    using f by (simp_all add: s' update_where_def comp_def if_distrib [of rv_id] if_distrib [of rv_requestId] cong: if_cong)
  have ids: "rv_requestId ` set (rsl_reservations s') = rv_requestId ` set (rsl_reservations s)" using m(2) by (metis list.set_map)
  have st: "(rv_status r \<in> {SActive, SExpired} \<longrightarrow> rv_requestId r \<notin> usage_ids s) \<and> (rv_status r = SSettled \<longrightarrow> rv_requestId r \<in> usage_ids s)"
    if r: "r \<in> set (rsl_reservations s')" for r
  proof -
    from r obtain x where x: "x \<in> set (rsl_reservations s)" "r = (if c x then f x else x)" by (auto simp: s' update_where_def)
    then show ?thesis using ok f [of x] st [of x] by (cases "c x") (auto simp: resources_ok_def)
  qed
  show ?thesis using ok st m ids s'(1) unfolding resources_ok_def usage_ids_def by simp
qed

lemma held_update:
  assumes am: "amounts_ok u s" and f: "\<And>r. est_units u (f r) = est_units u r \<and> rv_accountId (f r) = rv_accountId r"
    and c: "\<And>r. c r \<Longrightarrow> r \<in> set (rsl_reservations s) \<Longrightarrow> rv_status (f r) \<in> {SActive, SExpired} \<Longrightarrow> rv_status r \<in> {SActive, SExpired}"
    and s': "rsl_usage s' = rsl_usage s" "rsl_reservations s' = update_where c f (rsl_reservations s)"
  shows "committed ids u since s' \<le> committed ids u since s" "amounts_ok u s'"
proof -
  have "sum_where (\<lambda>r. rv_accountId r \<in> set ids \<and> rv_status r \<in> {SActive, SExpired}) (est_units u) (update_where c f xs)
      \<le> sum_where (\<lambda>r. rv_accountId r \<in> set ids \<and> rv_status r \<in> {SActive, SExpired}) (est_units u) xs" if "set xs \<subseteq> set (rsl_reservations s)" for xs
    using that
  proof (induction xs)
    case (Cons x xs)
    then have "0 \<le> est_units u x" using am by (auto simp: amounts_ok_def)
    with Cons show ?case using f [of x] c [of x] by (cases "c x") (auto simp: update_where_def)
  qed (simp add: update_where_def)
  then show "committed ids u since s' \<le> committed ids u since s" by (simp add: committed_def usedSince_def held_def s')
  show "amounts_ok u s'" using am f by (auto simp: amounts_ok_def s' update_where_def)
qed

lemma settle_ok:
  assumes ok: "resources_ok t s" and r: "r \<in> set (rsl_reservations s)" and row: "us_requestId row = rv_requestId r" "us_at row \<le> t"
  shows "resources_ok t (snd (settle t1 row s))" "\<exists>xs. rsl_usage (snd (settle t1 row s)) = rsl_usage s @ xs"
proof -
  show "\<exists>xs. rsl_usage (snd (settle t1 row s)) = rsl_usage s @ xs" by (simp add: settle_def appendEvent_def)
  consider "us_requestId row \<in> usage_ids s" | "rv_status r \<in> {SActive, SExpired}" | "us_requestId row \<notin> usage_ids s" "rv_status r = SReleased"
    using ok r row by (cases "rv_status r") (auto simp: resources_ok_def)
  then show "resources_ok t (snd (settle t1 row s))"
  proof cases
    case 1
    from settle_again [OF this] show ?thesis using ok by (auto simp: appendEvent_def intro: resources_okI)
  next
    case 2
    then show ?thesis using settle_active(2) [OF ok r _ row] by blast
  next
    case 3
    have "\<forall>z \<in> set (rsl_reservations s). \<not> (rv_requestId z = us_requestId row \<and> rv_status z \<in> {SActive, SExpired})"
      using row_keys(1) [OF ok r] row(1) 3(2) by auto
    from update_where_none [OF this]
    have "rsl_usage (snd (settle t1 row s)) = rsl_usage s @ [row]" "rsl_reservations (snd (settle t1 row s)) = rsl_reservations s"
      using 3(1) by (auto simp: settle_def appendEvent_def usage_ids_def)
    then show ?thesis using ok r row 3 row_keys(1) [OF ok r] by (auto simp: resources_ok_def usage_ids_def)
  qed
qed

text \<open>\<open>grows s s'\<close>: the ledger stays well formed, and usage is only appended.\<close>

definition grows :: "timestamp \<Rightarrow> ResourceLedger \<Rightarrow> ResourceLedger \<Rightarrow> bool" where
  "grows t s s' \<longleftrightarrow> resources_ok t s' \<and> (\<exists>xs. rsl_usage s' = rsl_usage s @ xs)"

lemma grows_refl: "resources_ok t s \<Longrightarrow> grows t s s"
  by (simp add: grows_def)

lemma grows_rows: "grows t s s1 \<Longrightarrow> rsl_usage s' = rsl_usage s1 \<Longrightarrow> rsl_reservations s' = rsl_reservations s1 \<Longrightarrow> grows t s s'"
  by (auto simp: grows_def intro: resources_okI)

lemma grows_event [simp]: "grows t s (appendEvent now k a i s') \<longleftrightarrow> grows t s s'"
  by (simp add: grows_def appendEvent_def resources_ok_def usage_ids_def)

lemma grows_settle: "resources_ok t s \<Longrightarrow> r \<in> set (rsl_reservations s) \<Longrightarrow> us_requestId row = rv_requestId r \<Longrightarrow> us_at row \<le> t \<Longrightarrow> grows t s (snd (settle t1 row s))"
  using settle_ok by (simp add: grows_def)

lemma calibrate_rows [simp]: "rsl_usage (calibrate m e a s) = rsl_usage s" "rsl_reservations (calibrate m e a s) = rsl_reservations s"
  by (simp_all add: calibrate_def Let_def split: prod.splits)

lemma grows_reconcile: "resources_ok t s \<Longrightarrow> grows t s (snd (reconcile accounts t i m raw s))"
proof (cases "getReservation i s")
  case (Some r)
  assume ok: "resources_ok t s"
  then have r: "r \<in> set (rsl_reservations s)" "rv_requestId r = i" using Some getReservation_row by blast+
  have "grows t s (snd (settle t (charge_row accounts t r m) s))" using r(2) by (intro grows_settle [OF ok r(1)]) (simp_all add: charge_row_def)
  then show ?thesis by (rule grows_rows) (simp_all add: reconcile_def Some split: prod.splits)
qed (simp add: reconcile_def grows_refl)

lemma setHealth_rows [simp]: "rsl_usage (setHealth now a h u s) = rsl_usage s" "rsl_reservations (setHealth now a h u s) = rsl_reservations s"
  by (simp_all add: setHealth_def appendEvent_def)

lemma appendEvent_rows [simp]: "rsl_usage (appendEvent now k a i s) = rsl_usage s" "rsl_reservations (appendEvent now k a i s) = rsl_reservations s"
  by (simp_all add: appendEvent_def)

lemma record_failure_rows:
  "record_failure accounts now r report s = Inr s1 \<Longrightarrow> rsl_usage s1 = rsl_usage s \<and> rsl_reservations s1 = rsl_reservations s"
  by (auto simp: record_failure_def Let_def bindE_Inr split: failure_kind.splits)

lemma release_rows:
  "release t i s = s \<or> (rsl_usage (release t i s) = rsl_usage s \<and> (\<exists>r. getReservation i s = Some r \<and> rv_status r = SActive) \<and>
    rsl_reservations (release t i s) = update_where (\<lambda>x. rv_requestId x = i) (\<lambda>x. x\<lparr>rv_status := SReleased\<rparr>) (rsl_reservations s))"
  by (simp add: release_def split: option.split)

lemma release_ok: "resources_ok t s \<Longrightarrow> resources_ok t (release t i s)"
proof -
  assume ok: "resources_ok t s"
  have "resources_ok t s'" if "rsl_usage s' = rsl_usage s"
    "rsl_reservations s' = update_where (\<lambda>x. rv_requestId x = i) (\<lambda>x. x\<lparr>rv_status := SReleased\<rparr>) (rsl_reservations s)" for s'
    by (rule resources_ok_update [OF ok _ _ that]) simp_all
  with ok release_rows [of t i s] show ?thesis by metis
qed

lemma renewLease_ok: "resources_ok t s \<Longrightarrow> resources_ok t (renewLease i u s)"
  by (rule resources_ok_update [where f = "\<lambda>r. r\<lparr>rv_leaseExpiresAt := max (rv_leaseExpiresAt r) u\<rparr>" and c = "\<lambda>r. rv_requestId r = i \<and> rv_status r = SActive"])
    (simp_all add: renewLease_def)

lemma grows_fail: "resources_ok t s \<Longrightarrow> fail_request accounts t i report s = Inr s' \<Longrightarrow> grows t s s'"
proof (cases "getReservation i s")
  case (Some r)
  assume ok: "resources_ok t s" and "fail_request accounts t i report s = Inr s'"
  then obtain s1 where s1: "record_failure accounts t r report s = Inr s1"
    and s': "s' = (if fr_ambiguous report then snd (reconcile accounts t i (conservative_usage r (fr_partial report)) None (appendEvent t EAmbiguous (Some (rv_accountId r)) (Some i) s1))
      else release t i s1)"
    using Some by (auto simp: fail_request_def bindE_Inr)
  note rows = record_failure_rows [OF s1]
  let ?s2 = "appendEvent t EAmbiguous (Some (rv_accountId r)) (Some i) s1"
  have ok1: "resources_ok t s1" "resources_ok t ?s2" using ok rows by (auto intro: resources_okI)
  show ?thesis
  proof (cases "fr_ambiguous report")
    case True
    then show ?thesis using grows_reconcile [OF ok1(2)] rows by (simp add: s' grows_def)
  next
    case False
    have "rsl_usage (release t i s1) = rsl_usage s1" using release_rows [of t i s1] by auto
    with False show ?thesis using release_ok [OF ok1(1), of i] rows by (simp add: s' grows_def)
  qed
qed (simp add: fail_request_def grows_refl)

lemma mark_rows:
  "rsl_usage (snd (mark_expired t1 r s)) = rsl_usage s"
  "rsl_reservations (snd (mark_expired t1 r s)) = rsl_reservations s \<or>
   rsl_reservations (snd (mark_expired t1 r s)) = update_where (\<lambda>x. rv_id x = rv_id r \<and> expired t1 x) (\<lambda>x. x\<lparr>rv_status := SExpired\<rparr>) (rsl_reservations s)"
  by (auto simp: mark_expired_def)

lemma grows_mark:
  assumes ok: "resources_ok t s"
  shows "grows t s (snd (mark_expired t1 r s))"
proof -
  have "resources_ok t s'" if "rsl_usage s' = rsl_usage s"
    "rsl_reservations s' = update_where (\<lambda>x. rv_id x = rv_id r \<and> expired t1 x) (\<lambda>x. x\<lparr>rv_status := SExpired\<rparr>) (rsl_reservations s)" for s'
    by (rule resources_ok_update [OF ok _ _ that]) (simp_all add: expired_def)
  then have "resources_ok t (snd (mark_expired t1 r s))" using mark_rows [of t1 r s] ok resources_okI by metis
  with mark_rows(1) [of t1 r s] show ?thesis by (simp add: grows_def)
qed

lemma reserved_ok:
  assumes ok: "resources_ok t s" and fresh: "getReservation (adm_requestId q) s = None" "\<forall>x \<in> set (rsl_reservations s). rv_id x \<noteq> uuid"
  shows "resources_ok t (s\<lparr>rsl_reservations := rsl_reservations s @ [reservation_for p a q now uuid]\<rparr>)"
proof -
  have "\<forall>x \<in> set (rsl_reservations s). rv_requestId x \<noteq> adm_requestId q" using fresh(1) by (auto simp: getReservation_def find_None_iff)
  then show ?thesis using ok fresh(2) by (auto simp: resources_ok_def usage_ids_def reservation_for_def image_iff subset_iff)
qed

lemma grows_evaluate:
  assumes ok: "resources_ok t s" and a: "account_ok a" and e: "evaluate_admission p accounts a q t uuid True s = Inr (d, s')"
  shows "grows t s s'"
  using a
proof (cases rule: evaluate_cases [of a p accounts q t uuid s])
  case (admitted m)
  have "grows t s (s\<lparr>rsl_reservations := rsl_reservations s @ [reservation_for p a q t uuid]\<rparr>)"
    using reserved_ok [OF ok admitted(3,4)] by (simp add: grows_def)
  with admitted(1) e show ?thesis by simp
qed (use e grows_refl [OF ok] in simp_all)

lemma budget_step_time: "budget_step p accounts may cov ts ts' \<Longrightarrow> fst ts \<le> fst ts'"
  by (induction rule: budget_step.induct) simp_all

lemma budget_step_grows:
  assumes accounts: "\<forall>a \<in> set (list_accounts accounts). account_ok a" "registry_ok accounts"
  shows "budget_step p accounts may cov ts ts' \<Longrightarrow> resources_ok (fst ts) (snd ts) \<Longrightarrow> grows (fst ts') (snd ts) (snd ts')"
proof (induction rule: budget_step.induct)
  case tick
  then show ?case by (force simp: grows_def resources_ok_def)
next
  case (charging t1 t r s)
  then show ?case by (simp add: grows_settle [of t s r])
next
  case (evaluation q a t s uuid d s')
  then have "account_ok a" using accounts registry_get by blast
  with evaluation show ?case using grows_evaluate [of t s a] by simp
next
  case (renewal t s requestId until)
  then show ?case using renewLease_ok [of t s] by (simp add: grows_def) (simp add: renewLease_def)
qed (simp_all add: grows_mark grows_reconcile grows_fail grows_refl,
  auto simp: setHealth_def emergencyStop_def resume_dispatch_def intro: grows_rows [OF grows_refl])

lemma budget_steps_grow:
  assumes accounts: "\<forall>a \<in> set (list_accounts accounts). account_ok a" "registry_ok accounts"
    and steps: "(budget_step p accounts may cov)\<^sup>*\<^sup>* ts ts'" and ok: "resources_ok (fst ts) (snd ts)"
  shows "grows (fst ts') (snd ts) (snd ts')"
  using steps
proof (induction rule: rtranclp_induct)
  case (step y z)
  then have "grows (fst z) (snd y) (snd z)" using budget_step_grows [OF accounts step(2)] by (simp add: grows_def)
  with step.IH show ?case by (auto simp: grows_def)
qed (simp add: grows_refl ok)

subsection \<open>Limits are kept\<close>

lemma settle_committed:
  assumes ok: "resources_ok t s" and am: "amounts_ok u s" and r: "r \<in> set (rsl_reservations s)" "rv_status r \<noteq> SReleased"
    and row: "us_requestId row = rv_requestId r" "us_accountId row = rv_accountId r" "0 \<le> used_units u row" "used_units u row \<le> est_units u r" "us_at row \<le> t"
  shows "amounts_ok u (snd (settle t1 row s)) \<and> committed ids u since (snd (settle t1 row s)) \<le> committed ids u since s"
proof (cases "rv_status r \<in> {SActive, SExpired}")
  case True
  from settle_active(1) [OF ok r(1) True row(1,5)] charge_committed [OF ok am r(1) True row(2-4)]
  show ?thesis by (simp add: appendEvent_def)
next
  case False
  then have "us_requestId row \<in> usage_ids s" using ok r row(1) by (cases "rv_status r") (auto simp: resources_ok_def)
  from settle_again [OF this] am show ?thesis by (simp add: appendEvent_def amounts_ok_def committed_def usedSince_def held_def)
qed

lemma same_rows_committed:
  assumes "rsl_usage s' = rsl_usage s" "rsl_reservations s' = rsl_reservations s"
  shows "amounts_ok u s' = amounts_ok u s" "committed ids u since s' = committed ids u since s"
  using assms by (simp_all add: amounts_ok_def committed_def usedSince_def held_def)

lemma reconcile_committed:
  assumes ok: "resources_ok t s" and am: "amounts_ok u s" and cov: "charge_covered accounts u t i m s"
  shows "amounts_ok u (snd (reconcile accounts t i m raw s)) \<and> committed ids u since (snd (reconcile accounts t i m raw s)) \<le> committed ids u since s"
proof (cases "getReservation i s")
  case (Some r)
  then have r: "r \<in> set (rsl_reservations s)" "rv_requestId r = i" using getReservation_row [OF ok] by blast+
  let ?row = "charge_row accounts t r m"
  let ?s1 = "snd (settle t ?row s)"
  have "0 \<le> used_units u ?row" "used_units u ?row \<le> est_units u r" "rv_status r \<noteq> SReleased"
    using cov am r(1) by (auto simp: charge_covered_def Some charge_row_def amounts_ok_def)
  then have "amounts_ok u ?s1 \<and> committed ids u since ?s1 \<le> committed ids u since s"
    by (intro settle_committed [OF ok am r(1)]) (simp_all add: charge_row_def)
  moreover have "rsl_usage (snd (reconcile accounts t i m raw s)) = rsl_usage ?s1" "rsl_reservations (snd (reconcile accounts t i m raw s)) = rsl_reservations ?s1"
    by (simp_all add: reconcile_def Some split: prod.splits)
  ultimately show ?thesis using same_rows_committed by metis
qed (use am in \<open>simp add: reconcile_def\<close>)

lemma release_committed:
  assumes ok: "resources_ok t s" and am: "amounts_ok u s"
  shows "amounts_ok u (release t i s) \<and> committed ids u since (release t i s) \<le> committed ids u since s"
proof -
  have "amounts_ok u s' \<and> committed ids u since s' \<le> committed ids u since s" if "rsl_usage s' = rsl_usage s"
    "rsl_reservations s' = update_where (\<lambda>x. rv_requestId x = i) (\<lambda>x. x\<lparr>rv_status := SReleased\<rparr>) (rsl_reservations s)" for s'
    using held_update [OF am _ _ that] by simp
  with am release_rows [of t i s] show ?thesis by (metis order_refl)
qed

lemma fail_committed:
  assumes ok: "resources_ok t s" and am: "amounts_ok u s" and f: "fail_request accounts t i report s = Inr s'"
    and cov: "\<forall>r. fr_ambiguous report \<and> getReservation i s = Some r \<longrightarrow> charge_covered accounts u t i (conservative_usage r (fr_partial report)) s"
  shows "amounts_ok u s' \<and> committed ids u since s' \<le> committed ids u since s"
proof (cases "getReservation i s")
  case (Some r)
  then obtain s1 where s1: "record_failure accounts t r report s = Inr s1"
    and s': "s' = (if fr_ambiguous report then snd (reconcile accounts t i (conservative_usage r (fr_partial report)) None (appendEvent t EAmbiguous (Some (rv_accountId r)) (Some i) s1))
      else release t i s1)"
    using f by (auto simp: fail_request_def bindE_Inr)
  note rows = record_failure_rows [OF s1]
  let ?s2 = "appendEvent t EAmbiguous (Some (rv_accountId r)) (Some i) s1"
  have ok1: "resources_ok t s1" "resources_ok t ?s2" using ok rows by (auto intro: resources_okI)
  have am1: "amounts_ok u s1" "amounts_ok u ?s2" "committed ids u since s1 = committed ids u since s" "committed ids u since ?s2 = committed ids u since s"
    using am rows same_rows_committed [of s1 s] same_rows_committed [of ?s2 s] by simp_all
  show ?thesis
  proof (cases "fr_ambiguous report")
    case True
    then have "charge_covered accounts u t i (conservative_usage r (fr_partial report)) ?s2"
      using cov Some rows by (simp add: charge_covered_def getReservation_def)
    from reconcile_committed [OF ok1(2) am1(2) this, of None ids since] show ?thesis unfolding am1(4) using True by (simp add: s')
  next
    case False
    with release_committed [OF ok1(1) am1(1), of i ids since] show ?thesis unfolding am1(3) by (simp add: s')
  qed
qed (use f am in \<open>simp add: fail_request_def\<close>)

lemma reservation_units: "est_units u (reservation_for p a q now uuid) = unitsOf u q (estimated_cost a q)"
  by (cases u) (simp_all add: reservation_for_def)

lemma mark_committed:
  assumes am: "amounts_ok u s"
  shows "amounts_ok u (snd (mark_expired t1 r s)) \<and> committed ids u since (snd (mark_expired t1 r s)) \<le> committed ids u since s"
proof -
  have "amounts_ok u s' \<and> committed ids u since s' \<le> committed ids u since s" if "rsl_usage s' = rsl_usage s"
    "rsl_reservations s' = update_where (\<lambda>x. rv_id x = rv_id r \<and> expired t1 x) (\<lambda>x. x\<lparr>rv_status := SExpired\<rparr>) (rsl_reservations s)" for s'
    using held_update [OF am _ _ that] by (simp add: expired_def)
  with am mark_rows [of t1 r s] same_rows_committed [of "snd (mark_expired t1 r s)" s] show ?thesis by (metis order_refl)
qed

text \<open>When nothing is left to recover, what is committed is what an evaluation sees.\<close>

lemma seen_committed:
  assumes ok: "resources_ok t s" and rec: "recovered t s" and w: "parse_window spec = Some w" and ids: "set ids' = set ids"
  shows "usedSince ids' u (wb_start (window_at w t)) (wb_end (window_at w t)) s + reservedNow ids' u t s = committed ids u (wb_start (window_at w t)) s"
proof -
  have "usedSince ids' u (wb_start (window_at w t)) (wb_end (window_at w t)) s = usedSince ids u (wb_start (window_at w t)) None s"
    unfolding usedSince_def using ok parsed_window_contains(2) [OF w, of t] ids
    by (intro sum_where_cong) (fastforce simp: in_window_def resources_ok_def split: option.splits)
  moreover have "reservedNow ids' u t s = held ids u s"
    unfolding reservedNow_def held_def using rec ids by (intro sum_where_cong) (auto simp: live_def recovered_def expired_def)
  ultimately show ?thesis by (simp add: committed_def)
qed

lemma evaluate_committed:
  assumes ok: "resources_ok t s" and am: "amounts_ok u s" and q: "request_covered accounts u q" and rec: "recovered t s"
    and accounts: "\<forall>a \<in> set (list_accounts accounts). account_ok a" "registry_ok accounts" and enforce: "pol_enforce p"
    and shared: "limit_shared accounts a l" and l: "lim_unit l = u" "lim_limit l = Some n" "lim_hard l" "parse_window (lim_window l) = Some w"
    and b: "dget accounts (adm_accountId q) = Some b" and e: "evaluate_admission p accounts b q t uuid True s = Inr (d, s')"
  defines "ids \<equiv> account_scope accounts a" and "since \<equiv> wb_start (window_at w t)"
  assumes c: "committed ids u since s \<le> n"
  shows "amounts_ok u s' \<and> committed ids u since s' \<le> n"
proof -
  have b': "account_ok b" "b \<in> set (list_accounts accounts)" using accounts b registry_get by blast+
  from b'(1) show ?thesis
  proof (cases rule: evaluate_cases [of b p accounts q t uuid s])
    case (admitted m)
    let ?r = "reservation_for p b q t uuid"
    have s': "s' = s\<lparr>rsl_reservations := rsl_reservations s @ [?r]\<rparr>" using admitted(1) e by simp
    have q0: "0 \<le> est_units u ?r" using q b by (simp add: request_covered_def reservation_units)
    then have "amounts_ok u s'" using am by (simp add: amounts_ok_def s')
    moreover have "committed ids u since s' \<le> n"
    proof (cases "acc_id b \<in> set ids")
      case False
      then have "committed ids u since s' = committed ids u since s" by (simp add: committed_def usedSince_def held_def reservation_for_def s')
      with c show ?thesis by simp
    next
      case True
      have en: "acc_enabled b" using admitted(2) by (simp add: admissible_def)
      then have lb: "l \<in> set (effectiveLimits b)" "set (account_scope accounts b) = set ids"
        using shared b'(2) True by (auto simp: limit_shared_def ids_def)
      have "limit_admits accounts b q t s l" using admitted(2) enforce lb(1) by (simp add: admissible_def)
      then have "limit_total accounts b q t s l \<le> n" using l by (simp add: limit_admits_def)
      then have "committed ids u since s + unitsOf u q (estimated_cost b q) \<le> n"
        using seen_committed [OF ok rec l(4) lb(2), of u] l by (simp add: limit_total_def since_def Let_def)
      moreover have "held ids u s' = held ids u s + unitsOf u q (estimated_cost b q)"
        using True reservation_units [of u p b q t uuid] by (simp add: held_def reservation_for_def s')
      ultimately show ?thesis by (simp add: committed_def usedSince_def s')
    qed
    ultimately show ?thesis by simp
  qed (use e am c in simp_all)
qed

text \<open>The condition on the evaluations under which limits are kept\<close>

definition evaluated_recovered :: "AccountRegistry \<Rightarrow> LimitUnit \<Rightarrow> timestamp \<Rightarrow> AdmissionRequest \<Rightarrow> ResourceLedger \<Rightarrow> bool" where
  "evaluated_recovered accounts u t q s \<longleftrightarrow> request_covered accounts u q \<and> recovered t s"

lemma budget_step_inv:
  assumes accounts: "\<forall>a \<in> set (list_accounts accounts). account_ok a" "registry_ok accounts" and enforce: "pol_enforce p"
    and shared: "limit_shared accounts a l" and l: "lim_unit l = u" "lim_limit l = Some n" "lim_hard l" "parse_window (lim_window l) = Some w"
    and step: "budget_step p accounts (evaluated_recovered accounts u) (charge_covered accounts u) ts ts'"
    and inv: "budget_inv u (account_scope accounts a) w n ts"
  shows "budget_inv u (account_scope accounts a) w n ts'"
proof -
  let ?ids = "account_scope accounts a"
  have ok': "resources_ok (fst ts') (snd ts')"
    using budget_step_grows [OF accounts step] inv by (simp add: budget_inv_def grows_def)
  have "amounts_ok u (snd ts') \<and> committed ?ids u (wb_start (window_at w (fst ts'))) (snd ts') \<le> n"
    using step inv
  proof (induction rule: budget_step.induct)
    case (tick t t' s)
    then have "committed ?ids u (wb_start (window_at w t')) s \<le> committed ?ids u (wb_start (window_at w t)) s"
      by (intro committed_later window_start_mono [OF l(4)]) (simp_all add: budget_inv_def)
    with tick show ?case by (auto simp: budget_inv_def)
  next
    case (marking t1 t s r)
    then show ?case using mark_committed [of u s t1 r ?ids "wb_start (window_at w t)"] by (auto simp: budget_inv_def)
  next
    case (charging t1 t r s)
    then have i: "resources_ok t s" "amounts_ok u s" "committed ?ids u (wb_start (window_at w t)) s \<le> n" by (simp_all add: budget_inv_def)
    have "0 \<le> est_units u r" "rv_status r \<noteq> SReleased" using i(2) charging by (auto simp: amounts_ok_def)
    then have "amounts_ok u (snd (settle t1 (estimate_row t1 r) s)) \<and>
        committed ?ids u (wb_start (window_at w t)) (snd (settle t1 (estimate_row t1 r) s)) \<le> committed ?ids u (wb_start (window_at w t)) s"
      using charging(1) by (intro settle_committed [OF i(1,2) charging(2)]) (simp_all add: estimate_units)
    with i(3) show ?case by auto
  next
    case (evaluation q b t s uuid d s')
    then show ?case using evaluate_committed [OF _ _ _ _ accounts enforce shared l evaluation(1,3)] by (simp add: budget_inv_def evaluated_recovered_def)
  next
    case (reconciliation t i m s raw)
    then show ?case using reconcile_committed [of t s u accounts i m raw ?ids "wb_start (window_at w t)"] by (auto simp: budget_inv_def)
  next
    case (failed_request t i report s s')
    then show ?case using fail_committed [of t s u accounts i report s' ?ids "wb_start (window_at w t)"] by (auto simp: budget_inv_def)
  next
    case (renewal t s i until)
    have "amounts_ok u s' \<and> committed ?ids u since s' \<le> committed ?ids u since s" if "rsl_usage s' = rsl_usage s"
      "rsl_reservations s' = update_where (\<lambda>r. rv_requestId r = i \<and> rv_status r = SActive) (\<lambda>r. r\<lparr>rv_leaseExpiresAt := max (rv_leaseExpiresAt r) until\<rparr>) (rsl_reservations s)"
      for s' since
      using held_update(1) [OF _ _ _ that, of u ?ids since] held_update(2) [OF _ _ _ that, of u] renewal by (simp add: budget_inv_def)
    from this [of "renewLease i until s" "wb_start (window_at w t)"] show ?case using renewal by (auto simp: renewLease_def budget_inv_def)
  qed (simp_all add: budget_inv_def setHealth_def emergencyStop_def resume_dispatch_def appendEvent_def amounts_ok_def committed_def usedSince_def held_def)
  with ok' show ?thesis by (simp add: budget_inv_def)
qed

lemma empty_resources_ok: "resources_ok t empty_resources"
  by (simp add: resources_ok_def empty_resources_def usage_ids_def)

lemma steps_inv:
  assumes accounts: "\<forall>a \<in> set (list_accounts accounts). account_ok a" "registry_ok accounts" "a \<in> set (list_accounts accounts)" and enforce: "pol_enforce p"
    and shared: "limit_shared accounts a l" and l: "lim_unit l = u" "lim_limit l = Some n" "lim_hard l" "parse_window (lim_window l) = Some w"
    and steps: "(budget_step p accounts (evaluated_recovered accounts u) (charge_covered accounts u))\<^sup>*\<^sup>* (t0, empty_resources) ts"
  shows "budget_inv u (account_scope accounts a) w n ts"
  using steps
proof (induction rule: rtranclp_induct)
  case base
  have "limit_ok l" using shared accounts(1,3) by (auto simp: limit_shared_def intro: effectiveLimits_ok)
  then have "0 < n" using l(2) by (simp add: limit_ok_def)
  then show ?case using empty_resources_ok by (simp add: budget_inv_def amounts_ok_def committed_def usedSince_def held_def empty_resources_def)
qed (rule budget_step_inv [OF accounts(1,2) enforce shared l])

text \<open>
  Between the two transactions of a recovery the reservation is neither held nor charged, and a process that
  stops there leaves it so: no later recovery finds it.
\<close>

lemma recovered_ids: "usage_ids (snd (fold (recover_row t) rs ns)) \<subseteq> usage_ids (snd ns) \<union> rv_requestId ` set rs"
proof (induction rs arbitrary: ns)
  case (Cons r rs)
  have "usage_ids (snd (recover_row t r ns)) \<subseteq> insert (rv_requestId r) (usage_ids (snd ns))"
  proof -
    have m: "usage_ids (snd (mark_expired t r x)) = usage_ids x" for x by (simp add: mark_expired_def appendEvent_def usage_ids_def)
    have "usage_ids (snd (settle t (estimate_row t r) x)) \<subseteq> insert (rv_requestId r) (usage_ids x)" for x
      by (auto simp: settle_def appendEvent_def usage_ids_def estimate_row_def)
    then show ?thesis using m [of "snd ns"] by (auto simp: recover_row_def split: prod.splits bool.splits) (metis insertE snd_conv subsetD)+
  qed
  with Cons [of "recover_row t r ns"] show ?case by auto
qed simp

lemma half_recovered_is_lost:
  assumes ok: "resources_ok t s" and r: "r \<in> set (rsl_reservations s)" "expired t r"
  defines "s1 \<equiv> snd (mark_expired t r s)"
  shows "rv_requestId r \<notin> usage_ids (snd (recoverExpired t' s1))"
proof -
  have keys: "z = r" if "z \<in> set (rsl_reservations s)" "rv_requestId z = rv_requestId r" for z
    using row_keys(1) [OF ok r(1)] that by blast
  have "rv_requestId r \<notin> usage_ids s" using ok r by (auto simp: resources_ok_def expired_def)
  then have "rv_requestId r \<notin> usage_ids s1" by (simp add: s1_def mark_expired_def appendEvent_def usage_ids_def)
  moreover have "rv_requestId r \<noteq> rv_requestId z" if "z \<in> set (rsl_reservations s1)" "expired t' z" for z
  proof
    assume i: "rv_requestId r = rv_requestId z"
    note z = that
    have m: "rsl_reservations s1 = update_where (\<lambda>x. rv_id x = rv_id r \<and> expired t x) (\<lambda>x. x\<lparr>rv_status := SExpired\<rparr>) (rsl_reservations s)"
      using r by (auto simp: s1_def mark_expired_def appendEvent_def)
    obtain x where x: "x \<in> set (rsl_reservations s)" "z = (if rv_id x = rv_id r \<and> expired t x then x\<lparr>rv_status := SExpired\<rparr> else x)"
      using z(1) by (auto simp: m update_where_def)
    then have "rv_requestId x = rv_requestId r" using i by (simp split: if_splits)
    with keys [OF x(1)] x(2) r(2) z(2) show False by (simp add: expired_def)
  qed
  ultimately show ?thesis using recovered_ids [of t' "filter (expired t') (rsl_reservations s1)" "(0, s1)"]
    unfolding recoverExpired_def by auto
qed

text \<open>A recovery that runs to its end charges every reservation whose lease had ended when it began.\<close>

lemma recovery_charges:
  assumes ok: "resources_ok t s" and r: "r \<in> set (rsl_reservations s)" "expired t r"
  shows "rv_requestId r \<in> usage_ids (snd (recoverExpired t s))"
proof -
  let ?P = "\<lambda>x. \<exists>y \<in> set (rsl_reservations x). rv_requestId y = rv_requestId r \<and> (expired t y \<or> rv_status y = SSettled)"
  have 1: "?P s" using r by blast
  have 2: "?P x'" if "?P x" "z \<in> set (rsl_reservations x)" "rsl_reservations x' = replace_row z (z\<lparr>rv_status := SSettled\<rparr>) (rsl_reservations x)" for z x x'
  proof -
    from that(1) obtain y where y: "y \<in> set (rsl_reservations x)" "rv_requestId y = rv_requestId r" "expired t y \<or> rv_status y = SSettled" by blast
    have "(if y = z then z\<lparr>rv_status := SSettled\<rparr> else y) \<in> set (rsl_reservations x')" using y(1) that(2) by (auto simp: that(3) set_replace_row)
    with y(2,3) show ?thesis by (intro bexI [of _ "if y = z then z\<lparr>rv_status := SSettled\<rparr> else y"]) auto
  qed
  have "?P (snd (recoverExpired t s))" by (rule recoverExpired_induct(1) [where P = ?P, OF ok 1]) (rule 2; assumption)
  moreover have "resources_ok t (snd (recoverExpired t s))" by (rule recoverExpired_induct(2) [where P = ?P, OF ok 1]) (rule 2; assumption)
  moreover have "\<forall>x \<in> set (rsl_reservations (snd (recoverExpired t s))). \<not> expired t x"
    by (rule recoverExpired_induct(3) [where P = ?P, OF ok 1]) (rule 2; assumption)
  ultimately show ?thesis by (auto simp: resources_ok_def)
qed

text \<open>\<open>recoverExpired\<close> and \<open>admit\<close>, run without interruption, are sequences of the steps.\<close>

lemma recoverExpired_steps:
  assumes ok: "resources_ok t s" and t: "t1 \<le> t" and accounts: "\<forall>a \<in> set (list_accounts accounts). account_ok a" "registry_ok accounts"
  shows "(budget_step p accounts may cov)\<^sup>*\<^sup>* (t, s) (t, snd (recoverExpired t1 s))"
proof -
  have "(budget_step p accounts may cov)\<^sup>*\<^sup>* (t, s) (t, snd (fold (recover_row t1) rows (n, s)))"
    if "resources_ok t s" "distinct (map rv_id rows)" "set rows \<subseteq> set (rsl_reservations s)" for rows n s
    using that
  proof (induction rows arbitrary: n s)
    case (Cons r rows)
    obtain n' s' where s': "recover_row t1 r (n, s) = (n', s')" by fastforce
    have steps: "(budget_step p accounts may cov)\<^sup>*\<^sup>* (t, s) (t, s')"
      using recover_row_steps [OF Cons.prems(1) _ t, of r p accounts may cov n] Cons.prems(3) s' by simp
    have "resources_ok t s'" using budget_steps_grow [OF accounts steps] Cons.prems(1) by (simp add: grows_def)
    moreover have "x \<in> set (rsl_reservations s')" if x: "x \<in> set rows" for x
    proof -
      have k: "x \<in> set (rsl_reservations s)" "rv_id x \<noteq> rv_id r" using x Cons.prems(2,3) by (auto simp: subset_iff) (metis imageI)
      then have q: "rv_requestId x \<noteq> rv_requestId r" using row_keys [OF Cons.prems(1), of r x] Cons.prems(3) by auto
      have m: "x \<in> set (rsl_reservations (snd (mark_expired t1 r s)))"
        using mark_rows(2) [of t1 r s] k by (auto simp: update_where_def image_iff)
      then have "x \<in> set (rsl_reservations (snd (settle t1 (estimate_row t1 r) (snd (mark_expired t1 r s)))))"
        using q by (auto simp: settle_def update_where_def estimate_row_def image_iff)
      with m s' show ?thesis by (auto simp: recover_row_def split: prod.splits bool.splits)
    qed
    ultimately have "(budget_step p accounts may cov)\<^sup>*\<^sup>* (t, s') (t, snd (fold (recover_row t1) rows (n', s')))"
      using Cons.prems(2) by (intro Cons.IH) auto
    with steps s' show ?case by simp
  qed simp
  from this [of s "filter (expired t1) (rsl_reservations s)" 0] ok show ?thesis
    by (auto simp: recoverExpired_def resources_ok_def distinct_map inj_on_def)
qed

lemma admit_steps:
  assumes ok: "resources_ok t1 s" and t: "t1 \<le> t2" and accounts: "\<forall>a \<in> set (list_accounts accounts). account_ok a" "registry_ok accounts"
    and may: "may t2 q (snd (recoverExpired t1 s))"
  shows "(budget_step p accounts may cov)\<^sup>*\<^sup>* (t1, s) (t2, snd (admit p accounts t1 t2 uuid q s))"
proof -
  let ?S = "budget_step p accounts may cov"
  let ?s1 = "snd (recoverExpired t1 s)"
  have tick: "?S (t1, x) (t2, x)" for x using t by (rule budget_step.tick)
  show ?thesis
  proof (cases "dget accounts (adm_accountId q)")
    case (Some a)
    have "?S\<^sup>*\<^sup>* (t1, s) (t1, ?s1)" by (rule recoverExpired_steps [OF ok order_refl accounts])
    with tick have r: "?S\<^sup>*\<^sup>* (t1, s) (t2, ?s1)" by (meson rtranclp.rtrancl_into_rtrancl)
    show ?thesis
    proof (cases "evaluate_admission p accounts a q t2 uuid True ?s1")
      case (Inr ds)
      obtain d s2 where ds: "ds = (d, s2)" by fastforce
      from budget_step.evaluation [where may = may, OF Some may] Inr ds have "?S (t2, ?s1) (t2, s2)" by blast
      moreover have "?S (t2, s2) (t2, snd (admit p accounts t1 t2 uuid q s))"
        using budget_step.event [of p accounts may cov t2 s2] Inr ds by (simp add: admit_def Some Let_def)
      ultimately show ?thesis using r by (meson rtranclp.rtrancl_into_rtrancl)
    qed (use r in \<open>simp add: admit_def Some Let_def\<close>)
  qed (use tick in \<open>simp add: admit_def r_into_rtranclp\<close>)
qed



text \<open>Two requests of one account with a limit of one request a day: the second is not admitted.\<close>

definition sample_limit :: LimitSpec where
  "sample_limit = \<lparr>lim_unit = URequests, lim_window = ''day'', lim_limit = Some 1, lim_hard = True, lim_advisory = None, lim_conserve = None, lim_critical = None\<rparr>"

definition limited_account :: AccountConfig where
  "limited_account = (implicit_local ''ollama'')\<lparr>acc_limits := [sample_limit]\<rparr>"

definition sample_admit :: "timestamp \<Rightarrow> string \<Rightarrow> ResourceLedger \<Rightarrow> ResourceLedger" where
  "sample_admit t i s = snd (admit sample_policy (registry [limited_account]) t t i ((sample_request i)\<lparr>adm_workload := WCriticalReview\<rparr>) s)"

lemma sample_accounts: "list_accounts (registry [limited_account]) = [limited_account]" "registry_ok (registry [limited_account])"
  "\<forall>a \<in> set (list_accounts (registry [limited_account])). account_ok a"
proof -
  show "list_accounts (registry [limited_account]) = [limited_account]" by (simp add: registry_def list_accounts_def)
  moreover have "account_ok limited_account"
  proof -
    have "isValidWindow ''day''" by code_simp
    then show ?thesis by (simp add: limited_account_def implicit_local_def blank_account_def account_ok_def limit_ok_def sample_limit_def)
  qed
  ultimately show "\<forall>a \<in> set (list_accounts (registry [limited_account])). account_ok a" by simp
qed (rule registry_ok_registry)

lemma sample_admit_steps:
  assumes "resources_ok t s" and "may t ((sample_request i)\<lparr>adm_workload := WCriticalReview\<rparr>) (snd (recoverExpired t s))"
  shows "(budget_step sample_policy (registry [limited_account]) may cov)\<^sup>*\<^sup>* (t, s) (t, sample_admit t i s)"
  unfolding sample_admit_def by (rule admit_steps [where may = may, OF assms(1) order_refl sample_accounts(3,2) assms(2)])


text \<open>
  Without the condition the limit of one request is exceeded: the lease of the first request, of fifteen minutes,
  ends between the two times the second admission reads the clock.
\<close>

lemma limit_can_be_exceeded:
  defines "q i \<equiv> (sample_request i)\<lparr>adm_workload := WCriticalReview\<rparr>"
  defines "s1 \<equiv> snd (admit sample_policy (registry [limited_account]) 0 0 ''u1'' (q ''r1'') empty_resources)"
  defines "s2 \<equiv> snd (admit sample_policy (registry [limited_account]) 899999 900000 ''u2'' (q ''r2'') s1)"
  shows "held [''local:ollama''] URequests s2 = 2" "usedSince [''local:ollama''] URequests 0 (Some 86400000) (snd (recoverExpired 1800000 s2)) = 2"
  unfolding s2_def s1_def q_def by code_simp+


end
