(* ===== verification/Approval_Queue.thy ===== *)
theory Approval_Queue
  imports Prelude
begin

text \<open>
  The queue of approvals: \<open>src/packages/core/src/services/approvalQueue.ts\<close>. A request waits until it is approved,
  denied or expires; a scoped request is bound to one decision point, and the decision of a scope is kept, so
  that the same question is not asked twice. A promise that waits is named by the id of its request. Records
  are written to the store by a chain of writes, which is lost when the process ends; \<open>init\<close> of the next
  process reads what was written. Listeners react by further calls, so notifying them is not a step of its own.
  The input of a call, which no rule reads, and the audit events are left out.

  The lemmas show that a scope is answered with yes only if a request for exactly this scope was approved, in
  this process or an earlier one, that an answer is final, and that a scope has one open request at most.
\<close>

subsection \<open>Scopes and their keys\<close>

record ApprovalScope =
  asc_kind :: string
  asc_runId :: string
  asc_targetId :: string
  asc_attempt :: nat
  asc_action :: string

text \<open>\<open>encodeURIComponent\<close>: all but the unreserved characters become the bytes of their UTF-8 form in hexadecimal.\<close>

definition unreserved :: "char \<Rightarrow> bool" where
  "unreserved c \<longleftrightarrow> (let n = of_char c :: nat in
     (48 \<le> n \<and> n \<le> 57) \<or> (65 \<le> n \<and> n \<le> 90) \<or> (97 \<le> n \<and> n \<le> 122) \<or> c \<in> set ''-_.!~*()'' \<or> n = 39)"

definition upper_hex :: "nat \<Rightarrow> char" where
  "upper_hex n = (if n < 10 then char_of (48 + n) else char_of (55 + n))"

definition percent_byte :: "nat \<Rightarrow> string" where
  "percent_byte b = [CHR ''%'', upper_hex (b div 16), upper_hex (b mod 16)]"

definition encode_char :: "char \<Rightarrow> string" where
  "encode_char c =
     (let n = of_char c in
      if unreserved c then [c] else if n < 128 then percent_byte n
      else percent_byte (192 + n div 64) @ percent_byte (128 + n mod 64))"

definition encodeURIComponent :: "string \<Rightarrow> string" where
  "encodeURIComponent s = concat (map encode_char s)"

definition approvalScopeKey :: "ApprovalScope \<Rightarrow> string" where
  "approvalScopeKey s = join_with '':'' (map encodeURIComponent [asc_kind s, asc_runId s, asc_targetId s, show_nat (asc_attempt s), asc_action s])"

definition validateScope :: "ApprovalScope \<Rightarrow> string + unit" where
  "validateScope s =
     (if asc_kind s = [] then Inl ''approval scope requires a non-empty kind''
      else if asc_runId s = [] then Inl ''approval scope requires a non-empty runId''
      else if asc_targetId s = [] then Inl ''approval scope requires a non-empty targetId''
      else if asc_action s = [] then Inl ''approval scope requires a non-empty action'' else Inr ())"

text \<open>Some fields of a scope\<close>

record PartialScope =
  ps_kind :: "string option"
  ps_runId :: "string option"
  ps_targetId :: "string option"
  ps_attempt :: "nat option"
  ps_action :: "string option"

definition agrees :: "'a option \<Rightarrow> 'a \<Rightarrow> bool" where
  "agrees expected v \<longleftrightarrow> (case expected of None \<Rightarrow> True | Some x \<Rightarrow> v = x)"

definition scopeMatches :: "ApprovalScope option \<Rightarrow> PartialScope \<Rightarrow> bool" where
  "scopeMatches actual expected =
     (case actual of None \<Rightarrow> False
      | Some s \<Rightarrow> agrees (ps_kind expected) (asc_kind s) \<and> agrees (ps_runId expected) (asc_runId s) \<and> agrees (ps_targetId expected) (asc_targetId s) \<and>
          agrees (ps_attempt expected) (asc_attempt s) \<and> agrees (ps_action expected) (asc_action s))"

lemma of_upper_hex: "n < 16 \<Longrightarrow> of_char (upper_hex n) = (if n < 10 then 48 + n else 55 + n)"
  by (simp add: upper_hex_def)

lemma upper_hex_inject: "m < 16 \<Longrightarrow> n < 16 \<Longrightarrow> upper_hex m = upper_hex n \<longleftrightarrow> m = n"
proof
  assume h: "m < 16" "n < 16" "upper_hex m = upper_hex n"
  then have "(of_char (upper_hex m) :: nat) = of_char (upper_hex n)" by simp
  then show "m = n" unfolding of_upper_hex [OF h(1)] of_upper_hex [OF h(2)] by (simp split: if_splits)
qed simp

lemma percent_byte_inject: "a < 256 \<Longrightarrow> b < 256 \<Longrightarrow> percent_byte a = percent_byte b \<longleftrightarrow> a = b"
proof
  assume h: "a < 256" "b < 256" "percent_byte a = percent_byte b"
  then have "a div 16 = b div 16" "a mod 16 = b mod 16" by (simp_all add: percent_byte_def upper_hex_inject)
  then show "a = b" by (metis div_mult_mod_eq)
qed simp

lemma percent_byte_append: "percent_byte a @ x = percent_byte b @ y \<longleftrightarrow> percent_byte a = percent_byte b \<and> x = y"
  by (simp add: percent_byte_def)

text \<open>The codes of characters form a prefix code.\<close>

lemma utf8_prefix:
  fixes n m :: nat
  defines "code k \<equiv> (if k < 128 then percent_byte k else percent_byte (192 + k div 64) @ percent_byte (128 + k mod 64))"
  assumes lt: "n < 256" "m < 256" and eq: "code n @ x = code m @ y"
  shows "n = m \<and> x = y"
proof -
  have b: "192 + n div 64 < 256" "128 + n mod 64 < 256" "192 + m div 64 < 256" "128 + m mod 64 < 256"
    using lt less_mult_imp_div_less [of n 4 64] less_mult_imp_div_less [of m 4 64] by simp_all
  consider "n < 128" "m < 128" | "n < 128" "\<not> m < 128" | "\<not> n < 128" "m < 128" | "\<not> n < 128" "\<not> m < 128" by blast
  then show ?thesis
  proof cases
    case 4
    then have "percent_byte (192 + n div 64) = percent_byte (192 + m div 64)" "percent_byte (128 + n mod 64) = percent_byte (128 + m mod 64)" "x = y"
      using eq by (simp_all add: code_def percent_byte_append)
    then have "n div 64 = m div 64" "n mod 64 = m mod 64" by (simp_all only: percent_byte_inject b add_left_cancel)
    then show ?thesis using \<open>x = y\<close> by (metis div_mult_mod_eq)
  qed (use eq lt b in \<open>auto simp: code_def percent_byte_append percent_byte_inject\<close>)
qed

lemma encode_char_prefix: "encode_char c @ x = encode_char d @ y \<Longrightarrow> c = d \<and> x = y"
proof -
  have pct: "\<not> unreserved (CHR ''%'')" by (simp add: unreserved_def)
  assume a: "encode_char c @ x = encode_char d @ y"
  then have u: "unreserved c \<longleftrightarrow> unreserved d" using pct by (auto simp: encode_char_def percent_byte_def Let_def split: if_splits)
  show ?thesis
  proof (cases "unreserved c")
    case False
    with a u have "(of_char c :: nat) = of_char d \<and> x = y" by (intro utf8_prefix) (simp_all add: encode_char_def Let_def)
    then show ?thesis by simp
  qed (use a u in \<open>simp add: encode_char_def\<close>)
qed

lemma encodeURIComponent_inject: "encodeURIComponent s = encodeURIComponent t \<longleftrightarrow> s = t"
proof
  show "encodeURIComponent s = encodeURIComponent t \<Longrightarrow> s = t"
  proof (induction s arbitrary: t)
    case Nil
    then show ?case by (cases t) (auto simp: encodeURIComponent_def encode_char_def percent_byte_def Let_def split: if_splits)
  next
    case (Cons c s)
    then obtain d t' where t: "t = d # t'"
      by (cases t) (auto simp: encodeURIComponent_def encode_char_def percent_byte_def Let_def split: if_splits)
    then have "encode_char c @ encodeURIComponent s = encode_char d @ encodeURIComponent t'" using Cons.prems by (simp add: encodeURIComponent_def)
    from encode_char_prefix [OF this] Cons.IH t show ?case by blast
  qed
qed simp

lemma encode_char_no_colon: "CHR '':'' \<notin> set (encode_char c)"
proof -
  have "CHR '':'' \<noteq> upper_hex n" if "n < 16" for n
  proof
    assume "CHR '':'' = upper_hex n"
    then have "upper_hex n = CHR '':''" by simp
    then have "(of_char (upper_hex n) :: nat) = 58" by simp
    then show False using of_upper_hex [OF that] by (simp split: if_splits)
  qed
  moreover have "\<not> unreserved (CHR '':'')" by (simp add: unreserved_def)
  moreover have "(of_char c :: nat) < 256" by simp
  moreover have "(192 + n div 64) div 16 < 16 \<and> (128 + n mod 64) div 16 < 16 \<and> n div 16 < 16" if "n < 256" for n :: nat
  proof -
    have "n div 64 < 4" "n div 16 < 16" using that less_mult_imp_div_less [of n 4 64] less_mult_imp_div_less [of n 16 16] by simp_all
    moreover have "n mod 64 < 64" by simp
    ultimately have "192 + n div 64 < 16 * 16" "128 + n mod 64 < 16 * 16" by linarith+
    then show ?thesis using less_mult_imp_div_less \<open>n div 16 < 16\<close> by blast
  qed
  ultimately show ?thesis by (auto simp: encode_char_def percent_byte_def Let_def)
qed

lemma encodeURIComponent_no_colon: "CHR '':'' \<notin> set (encodeURIComponent s)"
  by (simp add: encodeURIComponent_def encode_char_no_colon)

lemma approvalScopeKey_inject: "approvalScopeKey s = approvalScopeKey t \<longleftrightarrow> s = t"
proof
  let ?e = encodeURIComponent
  assume k: "approvalScopeKey s = approvalScopeKey t"
  have split5: "a1 = b1 \<and> a2 = b2 \<and> a3 = b3 \<and> a4 = b4 \<and> a5 = b5"
    if "a1 @ '':'' @ a2 @ '':'' @ a3 @ '':'' @ a4 @ '':'' @ a5 = b1 @ '':'' @ b2 @ '':'' @ b3 @ '':'' @ b4 @ '':'' @ b5"
      "\<forall>x \<in> {a2, a3, a4, a5, b2, b3, b4, b5}. CHR '':'' \<notin> set x" for a1 a2 a3 a4 a5 b1 b2 b3 b4 b5 :: string
  proof -
    have 5: "a1 @ '':'' @ a2 @ '':'' @ a3 @ '':'' @ a4 = b1 @ '':'' @ b2 @ '':'' @ b3 @ '':'' @ b4 \<and> a5 = b5"
      by (rule sep_inject [of _ "CHR '':''"]) (use that in simp_all)
    have 4: "a1 @ '':'' @ a2 @ '':'' @ a3 = b1 @ '':'' @ b2 @ '':'' @ b3 \<and> a4 = b4"
      by (rule sep_inject [of _ "CHR '':''"]) (use that 5 in simp_all)
    have 3: "a1 @ '':'' @ a2 = b1 @ '':'' @ b2 \<and> a3 = b3"
      by (rule sep_inject [of _ "CHR '':''"]) (use that 4 in simp_all)
    have "a1 = b1 \<and> a2 = b2" by (rule sep_inject [of _ "CHR '':''"]) (use that 3 in simp_all)
    with 3 4 5 show ?thesis by blast
  qed
  have "?e (asc_kind s) = ?e (asc_kind t) \<and> ?e (asc_runId s) = ?e (asc_runId t) \<and> ?e (asc_targetId s) = ?e (asc_targetId t) \<and>
      ?e (show_nat (asc_attempt s)) = ?e (show_nat (asc_attempt t)) \<and> ?e (asc_action s) = ?e (asc_action t)"
    using k by (intro split5) (auto simp: approvalScopeKey_def encodeURIComponent_no_colon)
  then show "s = t" by (simp add: encodeURIComponent_inject)
qed simp

subsection \<open>Requests, records and the queue\<close>

datatype ApprovalStatus = QPending | QApproved | QDenied | QExpired

record QueuedRequest =
  qr_id :: string
  qr_jobId :: "string option"
  qr_taskId :: "string option"
  qr_executionId :: "string option"
  qr_agentId :: "string option"
  qr_tool :: string
  qr_rule :: string
  qr_reasons :: "string list"
  qr_createdAt :: timestamp
  qr_expiresAt :: "timestamp option"
  qr_scope :: "ApprovalScope option"
  qr_scopeKey :: "string option"

record ApprovalRecord =
  apr_request :: QueuedRequest
  apr_status :: ApprovalStatus
  apr_resolvedAt :: "timestamp option"
  apr_resolvedBy :: "string option"

record QueueOptions =
  qo_autoDenyNonInteractive :: bool
  qo_defaultTimeoutMs :: "int option"
  qo_allowEnvAutoApprove :: bool
  qo_durable :: bool
  qo_scopedTimeoutMs :: "int option"
  qo_historyLimit :: "nat option"

text \<open>The two switches of the environment: \<open>WAZIR_AUTO_DENY\<close> and \<open>WAZIR_AUTO_APPROVE\<close>\<close>

record QueueEnv =
  qe_autoDeny :: bool
  qe_autoApprove :: bool

text \<open>\<open>aq_answers\<close> keeps what the promises of requests were resolved with, in all processes; no code reads it.\<close>

record ApprovalQueue =
  aq_pending :: "(string, QueuedRequest) dict"
  aq_pendingByScope :: "(string, string) dict"
  aq_history :: "(string, ApprovalRecord) dict"
  aq_decidedScopes :: "(string, ApprovalRecord) dict"
  aq_listeners :: nat
  aq_chain :: "ApprovalRecord list"
  aq_store :: "(string, ApprovalRecord) dict"
  aq_answers :: "(string, QueuedRequest \<times> bool) dict"

definition new_queue :: ApprovalQueue where
  "new_queue = \<lparr>aq_pending = [], aq_pendingByScope = [], aq_history = [], aq_decidedScopes = [], aq_listeners = 0, aq_chain = [], aq_store = [], aq_answers = []\<rparr>"

datatype Promise = Settled bool | Awaiting string

definition queue_record :: "QueuedRequest \<Rightarrow> ApprovalStatus \<Rightarrow> timestamp option \<Rightarrow> string option \<Rightarrow> ApprovalRecord" where
  "queue_record item status moment by' = \<lparr>apr_request = item, apr_status = status, apr_resolvedAt = moment, apr_resolvedBy = by'\<rparr>"

text \<open>The oldest records leave the history, and with them the decisions of their scopes.\<close>

fun forget_oldest :: "nat \<Rightarrow> (string, ApprovalRecord) dict \<Rightarrow> (string, ApprovalRecord) dict \<Rightarrow> (string, ApprovalRecord) dict \<times> (string, ApprovalRecord) dict" where
  "forget_oldest limit [] decided = ([], decided)"
| "forget_oldest limit ((i, r) # history) decided =
     (if length history + 1 \<le> limit then ((i, r) # history, decided)
      else forget_oldest limit history
        (case qr_scopeKey (apr_request r) of
           None \<Rightarrow> decided
         | Some k \<Rightarrow> if map_option (\<lambda>d. qr_id (apr_request d)) (dget decided k) = Some (qr_id (apr_request r)) then AList.delete k decided else decided))"

definition remember :: "QueueOptions \<Rightarrow> ApprovalRecord \<Rightarrow> ApprovalQueue \<Rightarrow> ApprovalQueue" where
  "remember opt r q =
     (let i = qr_id (apr_request r);
          history = AList.delete i (aq_history q) @ [(i, r)];
          decided = (case qr_scopeKey (apr_request r) of Some k \<Rightarrow> if apr_status r \<noteq> QPending then dput k r (aq_decidedScopes q) else aq_decidedScopes q
            | None \<Rightarrow> aq_decidedScopes q);
          kept = forget_oldest (case qo_historyLimit opt of Some n \<Rightarrow> n | None \<Rightarrow> 500) history decided
      in q\<lparr>aq_history := fst kept, aq_decidedScopes := snd kept\<rparr>)"

definition persist_record :: "QueueOptions \<Rightarrow> ApprovalRecord \<Rightarrow> ApprovalQueue \<Rightarrow> ApprovalQueue" where
  "persist_record opt r q = (if qo_durable opt then q\<lparr>aq_chain := aq_chain q @ [r]\<rparr> else q)"

text \<open>A write of the chain reaches the store, or is given up.\<close>

definition write_done :: "bool \<Rightarrow> ApprovalQueue \<Rightarrow> ApprovalQueue" where
  "write_done ok q = (case aq_chain q of [] \<Rightarrow> q
     | r # rs \<Rightarrow> q\<lparr>aq_chain := rs, aq_store := (if ok then dput (qr_id (apr_request r)) r (aq_store q) else aq_store q)\<rparr>)"

subsection \<open>Asking\<close>

record QueueAsk =
  ak_tool :: string
  ak_rule :: string
  ak_reasons :: "string list"
  ak_executionId :: "string option"
  ak_jobId :: "string option"
  ak_taskId :: "string option"
  ak_agentId :: "string option"
  ak_ttlMs :: "int option"

definition expiry_of :: "timestamp \<Rightarrow> int option \<Rightarrow> timestamp option" where
  "expiry_of now ttl = (case ttl of Some ms \<Rightarrow> if 0 < ms then Some (now + ms) else None | None \<Rightarrow> None)"

definition createPending :: "QueueOptions \<Rightarrow> timestamp \<Rightarrow> string \<Rightarrow> QueueAsk \<Rightarrow> (ApprovalScope \<times> string) option \<Rightarrow> ApprovalQueue \<Rightarrow> ApprovalQueue" where
  "createPending opt now i ask scope q =
     (let item = \<lparr>qr_id = i, qr_jobId = ak_jobId ask, qr_taskId = (if ak_taskId ask = None then ak_executionId ask else ak_taskId ask),
            qr_executionId = ak_executionId ask, qr_agentId = ak_agentId ask, qr_tool = ak_tool ask, qr_rule = ak_rule ask, qr_reasons = ak_reasons ask,
            qr_createdAt = now, qr_expiresAt = expiry_of now (ak_ttlMs ask), qr_scope = map_option fst scope, qr_scopeKey = map_option snd scope\<rparr>
      in persist_record opt (queue_record item QPending None None) (q\<lparr>aq_pending := dput i item (aq_pending q)\<rparr>))"

definition enqueue :: "QueueOptions \<Rightarrow> QueueEnv \<Rightarrow> timestamp \<Rightarrow> string \<Rightarrow> QueueAsk \<Rightarrow> ApprovalQueue \<Rightarrow> Promise \<times> ApprovalQueue" where
  "enqueue opt e now i ask q =
     (if qe_autoDeny e then (Settled False, q)
      else if qe_autoApprove e \<and> qo_allowEnvAutoApprove opt then (Settled True, q)
      else if qo_autoDenyNonInteractive opt \<and> aq_listeners q = 0 then (Settled False, q)
      else (Awaiting i, createPending opt now i (ask\<lparr>ak_ttlMs := (if ak_ttlMs ask = None then qo_defaultTimeoutMs opt else ak_ttlMs ask)\<rparr>) None q))"

record ScopedDetails =
  sd_tool :: "string option"
  sd_rule :: "string option"
  sd_reasons :: "string list option"
  sd_agentId :: "string option"
  sd_ttlMs :: "int option"

definition scoped_ask :: "QueueOptions \<Rightarrow> ApprovalScope \<Rightarrow> ScopedDetails \<Rightarrow> QueueAsk" where
  "scoped_ask opt s d =
     \<lparr>ak_tool = (case sd_tool d of Some t \<Rightarrow> t | None \<Rightarrow> asc_kind s @ ''.'' @ asc_action s),
      ak_rule = (case sd_rule d of Some r \<Rightarrow> r | None \<Rightarrow> asc_kind s @ ''-approval''),
      ak_reasons = (case sd_reasons d of Some rs \<Rightarrow> rs | None \<Rightarrow> [asc_action s @ '' requires explicit human approval'']),
      ak_executionId = Some (asc_runId s), ak_jobId = None, ak_taskId = Some (asc_runId s @ '':'' @ asc_targetId s), ak_agentId = sd_agentId d,
      ak_ttlMs = Some (case sd_ttlMs d of Some ms \<Rightarrow> ms | None \<Rightarrow> (case qo_scopedTimeoutMs opt of Some ms \<Rightarrow> ms | None \<Rightarrow> 1800000))\<rparr>"

definition requestScoped :: "QueueOptions \<Rightarrow> QueueEnv \<Rightarrow> timestamp \<Rightarrow> string \<Rightarrow> ApprovalScope \<Rightarrow> ScopedDetails \<Rightarrow> ApprovalQueue \<Rightarrow> string + Promise \<times> ApprovalQueue" where
  "requestScoped opt e now i s d q =
     bindE (validateScope s) (\<lambda>_.
       let key = approvalScopeKey s in
       case dget (aq_pendingByScope q) key of
         Some j \<Rightarrow> Inr (Awaiting j, q)
       | None \<Rightarrow>
           (case dget (aq_decidedScopes q) key of
              Some r \<Rightarrow> Inr (Settled (apr_status r = QApproved), q)
            | None \<Rightarrow>
                if qe_autoDeny e then Inr (Settled False, q)
                else (let q' = createPending opt now i (scoped_ask opt s d) (Some (s, key)) q
                      in Inr (Awaiting i, q'\<lparr>aq_pendingByScope := dput key i (aq_pendingByScope q')\<rparr>))))"

subsection \<open>Answering\<close>

definition timed_out :: "timestamp \<Rightarrow> QueuedRequest \<Rightarrow> bool" where
  "timed_out now item \<longleftrightarrow> (case qr_expiresAt item of Some t \<Rightarrow> t \<le> now | None \<Rightarrow> False)"

text \<open>The closure \<open>resolve\<close> of a request that is still pending\<close>

definition resolve_item :: "QueueOptions \<Rightarrow> timestamp \<Rightarrow> bool \<Rightarrow> string option \<Rightarrow> QueuedRequest \<Rightarrow> ApprovalQueue \<Rightarrow> ApprovalQueue" where
  "resolve_item opt now approved resolvedBy item q =
     (let i = qr_id item;
          who = (case resolvedBy of Some w \<Rightarrow> w | None \<Rightarrow> if approved then ''approver'' else ''approver_denied'');
          status = (if resolvedBy = Some ''timeout'' then QExpired else if approved then QApproved else QDenied);
          r = queue_record item status (Some now) (Some who);
          q1 = q\<lparr>aq_pending := AList.delete i (aq_pending q),
                 aq_pendingByScope := (case qr_scopeKey item of Some k \<Rightarrow> AList.delete k (aq_pendingByScope q) | None \<Rightarrow> aq_pendingByScope q)\<rparr>;
          q2 = persist_record opt r (remember opt r q1)
      in q2\<lparr>aq_answers := dput i (item, approved) (aq_answers q2)\<rparr>)"

definition timer_fires :: "QueueOptions \<Rightarrow> timestamp \<Rightarrow> string \<Rightarrow> ApprovalQueue \<Rightarrow> ApprovalQueue" where
  "timer_fires opt now i q = (case dget (aq_pending q) i of None \<Rightarrow> q | Some item \<Rightarrow> resolve_item opt now False (Some ''timeout'') item q)"

datatype Resolution = ResolvedWith ApprovalRecord | NotFound | AlreadyResolved ApprovalRecord | HasExpired "ApprovalRecord option" | ScopeMismatch ApprovalRecord

definition resolve_request :: "QueueOptions \<Rightarrow> timestamp \<Rightarrow> string \<Rightarrow> bool \<Rightarrow> string option \<Rightarrow> PartialScope option \<Rightarrow> ApprovalQueue \<Rightarrow> Resolution \<times> ApprovalQueue" where
  "resolve_request opt now i approved resolvedBy expected q =
     (case dget (aq_pending q) i of
        None \<Rightarrow> ((case dget (aq_history q) i of None \<Rightarrow> NotFound | Some r \<Rightarrow> if apr_status r = QExpired then HasExpired (Some r) else AlreadyResolved r), q)
      | Some item \<Rightarrow>
          if timed_out now item then (let q' = resolve_item opt now False (Some ''timeout'') item q in (HasExpired (dget (aq_history q') i), q'))
          else if (case expected of Some e \<Rightarrow> \<not> scopeMatches (qr_scope item) e | None \<Rightarrow> False)
            then (ScopeMismatch (queue_record item QPending None None), q)
          else (let q' = resolve_item opt now approved resolvedBy item q in
            (ResolvedWith (case dget (aq_history q') i of Some r \<Rightarrow> r | None \<Rightarrow> queue_record item (if approved then QApproved else QDenied) None None), q')))"

definition approve :: "QueueOptions \<Rightarrow> timestamp \<Rightarrow> string \<Rightarrow> string option \<Rightarrow> ApprovalQueue \<Rightarrow> bool \<times> ApprovalQueue" where
  "approve opt now i by' q = (case resolve_request opt now i True by' None q of (r, q') \<Rightarrow> (case r of ResolvedWith _ \<Rightarrow> True | _ \<Rightarrow> False, q'))"

definition deny :: "QueueOptions \<Rightarrow> timestamp \<Rightarrow> string \<Rightarrow> string option \<Rightarrow> ApprovalQueue \<Rightarrow> bool \<times> ApprovalQueue" where
  "deny opt now i by' q = (case resolve_request opt now i False by' None q of (r, q') \<Rightarrow> (case r of ResolvedWith _ \<Rightarrow> True | _ \<Rightarrow> False, q'))"

definition resolve_all :: "QueueOptions \<Rightarrow> timestamp \<Rightarrow> bool \<Rightarrow> ApprovalQueue \<Rightarrow> nat \<times> ApprovalQueue" where
  "resolve_all opt now approved q = (length (aq_pending q), fold (\<lambda>(_, item). resolve_item opt now approved None item) (aq_pending q) q)"

definition approvalRecord :: "string \<Rightarrow> ApprovalQueue \<Rightarrow> ApprovalRecord option" where
  "approvalRecord i q = (case dget (aq_pending q) i of Some item \<Rightarrow> Some (queue_record item QPending None None) | None \<Rightarrow> dget (aq_history q) i)"

definition findByScope :: "ApprovalScope \<Rightarrow> ApprovalQueue \<Rightarrow> QueuedRequest option" where
  "findByScope s q = (case dget (aq_pendingByScope q) (approvalScopeKey s) of Some i \<Rightarrow> dget (aq_pending q) i | None \<Rightarrow> None)"

definition approvalRecords :: "string option \<Rightarrow> string option \<Rightarrow> ApprovalStatus option \<Rightarrow> ApprovalQueue \<Rightarrow> ApprovalRecord list" where
  "approvalRecords kind runId status q =
     sort_key (\<lambda>r. - qr_createdAt (apr_request r))
       (filter (\<lambda>r. (kind = None \<or> map_option asc_kind (qr_scope (apr_request r)) = kind) \<and> (runId = None \<or> map_option asc_runId (qr_scope (apr_request r)) = runId)
           \<and> agrees status (apr_status r))
         (map (\<lambda>(_, item). queue_record item QPending None None) (aq_pending q) @ map snd (aq_history q)))"

subsection \<open>Starting again\<close>

text \<open>What is still pending in the store has no one waiting for it any more: it expires. A write may fail.\<close>

definition restart_record :: "timestamp \<Rightarrow> ApprovalRecord \<Rightarrow> ApprovalRecord" where
  "restart_record now r = (if apr_status r = QPending then r\<lparr>apr_status := QExpired, apr_resolvedAt := Some now, apr_resolvedBy := Some ''restart''\<rparr> else r)"

definition load_record :: "QueueOptions \<Rightarrow> timestamp \<Rightarrow> string list \<Rightarrow> ApprovalRecord \<Rightarrow> ApprovalQueue \<Rightarrow> ApprovalQueue" where
  "load_record opt now failing r q =
     (let i = qr_id (apr_request r) in
      if i \<in> set (dkeys (aq_pending q)) then q
      else remember opt (restart_record now r)
        (if apr_status r = QPending \<and> i \<notin> set failing then q\<lparr>aq_store := dput i (restart_record now r) (aq_store q)\<rparr> else q))"

definition init_queue :: "QueueOptions \<Rightarrow> timestamp \<Rightarrow> string list \<Rightarrow> ApprovalQueue \<Rightarrow> ApprovalQueue" where
  "init_queue opt now failing q =
     (if \<not> qo_durable opt then q
      else fold (load_record opt now failing)
        (sort_key (\<lambda>r. qr_createdAt (apr_request r)) (filter (\<lambda>r. qr_id (apr_request r) \<noteq> []) (map snd (aq_store q)))) q)"

text \<open>A new process: nothing but the store is left of the one before.\<close>

definition restart :: "QueueOptions \<Rightarrow> timestamp \<Rightarrow> string list \<Rightarrow> ApprovalQueue \<Rightarrow> ApprovalQueue" where
  "restart opt now failing q = init_queue opt now failing (new_queue\<lparr>aq_store := aq_store q, aq_answers := aq_answers q\<rparr>)"

subsection \<open>Everything that can happen\<close>

datatype QueueEvent =
  EvEnqueue QueueEnv string QueueAsk | EvScoped QueueEnv string ApprovalScope ScopedDetails | EvResolve string bool "string option" "PartialScope option"
| EvResolveAll bool | EvTimer string | EvWrite bool | EvListeners nat | EvRestart "string list"

definition queue_event :: "QueueOptions \<Rightarrow> timestamp \<Rightarrow> QueueEvent \<Rightarrow> ApprovalQueue \<Rightarrow> ApprovalQueue" where
  "queue_event opt now ev q =
     (case ev of
        EvEnqueue e i ask \<Rightarrow> snd (enqueue opt e now i ask q)
      | EvScoped e i s d \<Rightarrow> (case requestScoped opt e now i s d q of Inl _ \<Rightarrow> q | Inr (_, q') \<Rightarrow> q')
      | EvResolve i b by' x \<Rightarrow> snd (resolve_request opt now i b by' x q)
      | EvResolveAll b \<Rightarrow> snd (resolve_all opt now b q)
      | EvTimer i \<Rightarrow> timer_fires opt now i q
      | EvWrite ok \<Rightarrow> write_done ok q
      | EvListeners n \<Rightarrow> q\<lparr>aq_listeners := n\<rparr>
      | EvRestart failing \<Rightarrow> restart opt now failing q)"

definition run_queue :: "QueueOptions \<Rightarrow> (timestamp \<times> QueueEvent) list \<Rightarrow> ApprovalQueue" where
  "run_queue opt es = fold (\<lambda>(now, ev). queue_event opt now ev) es new_queue"

lemma run_queue_snoc [simp]: "run_queue opt (es @ [(now, ev)]) = queue_event opt now ev (run_queue opt es)"
  by (simp add: run_queue_def)

text \<open>An event that approves a request for a scope, and a run in which one did\<close>

definition says_yes :: "timestamp \<Rightarrow> QueueEvent \<Rightarrow> ApprovalQueue \<Rightarrow> ApprovalScope \<Rightarrow> bool" where
  "says_yes now ev q s \<longleftrightarrow>
     (case ev of
        EvResolve i b _ _ \<Rightarrow> b \<and> (\<exists>item. dget (aq_pending q) i = Some item \<and> qr_scope item = Some s \<and> \<not> timed_out now item)
      | EvResolveAll b \<Rightarrow> b \<and> (\<exists>item \<in> snd ` set (aq_pending q). qr_scope item = Some s)
      | _ \<Rightarrow> False)"

definition approved_in :: "QueueOptions \<Rightarrow> (timestamp \<times> QueueEvent) list \<Rightarrow> ApprovalScope \<Rightarrow> bool" where
  "approved_in opt es s \<longleftrightarrow> (\<exists>k < length es. says_yes (fst (es ! k)) (snd (es ! k)) (run_queue opt (take k es)) s)"

lemma approved_in_snoc: "approved_in opt (es @ [(now, ev)]) s \<longleftrightarrow> approved_in opt es s \<or> says_yes now ev (run_queue opt es) s"
  unfolding approved_in_def by (simp add: Ex_less_Suc nth_append disj_commute cong: conj_cong)

subsection \<open>Nothing is approved by anything else\<close>

definition keyed :: "QueuedRequest \<Rightarrow> bool" where
  "keyed r \<longleftrightarrow> qr_scopeKey r = map_option approvalScopeKey (qr_scope r)"

definition record_ok :: "(ApprovalScope \<Rightarrow> bool) \<Rightarrow> ApprovalRecord \<Rightarrow> bool" where
  "record_ok P r \<longleftrightarrow> keyed (apr_request r) \<and> (apr_status r = QApproved \<longrightarrow> (\<forall>s. qr_scope (apr_request r) = Some s \<longrightarrow> P s))"

definition answer_ok :: "(ApprovalScope \<Rightarrow> bool) \<Rightarrow> QueuedRequest \<times> bool \<Rightarrow> bool" where
  "answer_ok P a \<longleftrightarrow> (snd a \<longrightarrow> (\<forall>s. qr_scope (fst a) = Some s \<longrightarrow> P s))"

definition yes_inv :: "(ApprovalScope \<Rightarrow> bool) \<Rightarrow> ApprovalQueue \<Rightarrow> bool" where
  "yes_inv P q \<longleftrightarrow>
     (\<forall>x \<in> set (aq_history q). record_ok P (snd x)) \<and>
     (\<forall>x \<in> set (aq_decidedScopes q). record_ok P (snd x) \<and> qr_scopeKey (apr_request (snd x)) = Some (fst x)) \<and>
     (\<forall>r \<in> set (aq_chain q). record_ok P r) \<and>
     (\<forall>x \<in> set (aq_store q). record_ok P (snd x)) \<and>
     (\<forall>x \<in> set (aq_pending q). keyed (snd x)) \<and>
     (\<forall>x \<in> set (aq_answers q). answer_ok P (snd x))"

lemma delete_subset: "set (AList.delete k d) \<subseteq> set d"
  by (auto simp: AList.delete_eq)

lemma yes_invI:
  assumes "yes_inv P q" "set (aq_history q') \<subseteq> set (aq_history q)" "set (aq_decidedScopes q') \<subseteq> set (aq_decidedScopes q)" "set (aq_chain q') \<subseteq> set (aq_chain q)"
    "set (aq_store q') \<subseteq> set (aq_store q)" "set (aq_pending q') \<subseteq> set (aq_pending q)" "set (aq_answers q') \<subseteq> set (aq_answers q)"
  shows "yes_inv P q'"
  using assms unfolding yes_inv_def by (simp add: subset_eq)

lemma yes_inv_mono:
  assumes q: "yes_inv P q" and P: "\<And>s. P s \<Longrightarrow> P' s"
  shows "yes_inv P' q"
proof -
  have "record_ok P r \<Longrightarrow> record_ok P' r" "answer_ok P a \<Longrightarrow> answer_ok P' a" for r a using P by (auto simp: record_ok_def answer_ok_def)
  with q show ?thesis by (simp add: yes_inv_def)
qed

lemma forget_oldest_subset: "set (fst (forget_oldest n h d)) \<subseteq> set h \<and> set (snd (forget_oldest n h d)) \<subseteq> set d"
proof (induction n h d rule: forget_oldest.induct)
  case (2 limit i r history decided)
  define decided' where "decided' = (case qr_scopeKey (apr_request r) of None \<Rightarrow> decided
    | Some k \<Rightarrow> if map_option (\<lambda>d. qr_id (apr_request d)) (dget decided k) = Some (qr_id (apr_request r)) then AList.delete k decided else decided)"
  have "set decided' \<subseteq> set decided" by (auto simp: decided'_def AList.delete_eq split: option.splits)
  with 2 show ?case by (auto simp: decided'_def [symmetric])
qed simp

lemma remember_yes: "yes_inv P q \<Longrightarrow> record_ok P r \<Longrightarrow> yes_inv P (remember opt r q)"
proof -
  assume a: "yes_inv P q" "record_ok P r"
  let ?q = "q\<lparr>aq_history := AList.delete (qr_id (apr_request r)) (aq_history q) @ [(qr_id (apr_request r), r)],
      aq_decidedScopes := (case qr_scopeKey (apr_request r) of Some k \<Rightarrow> if apr_status r \<noteq> QPending then dput k r (aq_decidedScopes q) else aq_decidedScopes q
        | None \<Rightarrow> aq_decidedScopes q)\<rparr>"
  have "yes_inv P ?q"
    using a delete_subset [of "qr_id (apr_request r)" "aq_history q"] unfolding yes_inv_def
    by (auto split: option.splits dest!: dput_set)
  then show ?thesis
    by (rule yes_invI) (simp_all add: remember_def Let_def forget_oldest_subset del: set_append)
qed

lemma persist_yes: "yes_inv P q \<Longrightarrow> record_ok P r \<Longrightarrow> yes_inv P (persist_record opt r q)"
  by (auto simp: persist_record_def yes_inv_def)

lemma createPending_yes:
  assumes "yes_inv P q" "map_option approvalScopeKey (map_option fst scope) = map_option snd scope"
  shows "yes_inv P (createPending opt now i ask scope q)"
proof -
  obtain item where item: "createPending opt now i ask scope q = persist_record opt (queue_record item QPending None None) (q\<lparr>aq_pending := dput i item (aq_pending q)\<rparr>)"
    "qr_scope item = map_option fst scope" "qr_scopeKey item = map_option snd scope"
    unfolding createPending_def Let_def by fastforce
  then have "keyed item" using assms(2) by (simp add: keyed_def)
  then show ?thesis unfolding item(1) using assms(1)
    by (intro persist_yes) (auto simp: yes_inv_def record_ok_def queue_record_def dest!: dput_set)
qed

lemma resolve_item_yes:
  assumes q: "yes_inv P q" and item: "keyed item" and ok: "\<And>s. approved \<Longrightarrow> qr_scope item = Some s \<Longrightarrow> P s"
  shows "yes_inv P (resolve_item opt now approved by' item q)"
proof -
  define r where "r = queue_record item (if by' = Some ''timeout'' then QExpired else if approved then QApproved else QDenied) (Some now)
    (Some (case by' of Some w \<Rightarrow> w | None \<Rightarrow> if approved then ''approver'' else ''approver_denied''))"
  let ?q1 = "q\<lparr>aq_pending := AList.delete (qr_id item) (aq_pending q),
     aq_pendingByScope := (case qr_scopeKey item of Some k \<Rightarrow> AList.delete k (aq_pendingByScope q) | None \<Rightarrow> aq_pendingByScope q)\<rparr>"
  let ?q2 = "persist_record opt r (remember opt r ?q1)"
  have "record_ok P r" using item ok by (auto simp: r_def record_ok_def queue_record_def)
  moreover have "yes_inv P ?q1" by (rule yes_invI [OF q]) (simp_all add: delete_subset)
  ultimately have "yes_inv P ?q2" by (intro persist_yes remember_yes)
  then have "yes_inv P (?q2\<lparr>aq_answers := dput (qr_id item) (item, approved) (aq_answers ?q2)\<rparr>)"
    using ok unfolding yes_inv_def by (auto simp: answer_ok_def dest!: dput_set)
  then show ?thesis by (simp add: resolve_item_def r_def Let_def)
qed

lemma pending_keyed: "yes_inv P q \<Longrightarrow> dget (aq_pending q) i = Some item \<Longrightarrow> keyed item"
  by (force simp: yes_inv_def dest: map_of_SomeD)

lemma resolve_all_yes:
  "yes_inv P q \<Longrightarrow> \<forall>x \<in> set xs. keyed (snd x) \<and> (approved \<longrightarrow> (\<forall>s. qr_scope (snd x) = Some s \<longrightarrow> P s)) \<Longrightarrow>
    yes_inv P (fold (\<lambda>(_, item). resolve_item opt now approved None item) xs q)"
  by (induction xs arbitrary: q) (auto simp: resolve_item_yes)

lemma load_yes: "yes_inv P q \<Longrightarrow> record_ok P r \<Longrightarrow> yes_inv P (load_record opt now failing r q)"
proof -
  assume a: "yes_inv P q" "record_ok P r"
  then have r: "record_ok P (restart_record now r)" by (simp add: record_ok_def restart_record_def)
  moreover have "yes_inv P (if apr_status r = QPending \<and> qr_id (apr_request r) \<notin> set failing
      then q\<lparr>aq_store := dput (qr_id (apr_request r)) (restart_record now r) (aq_store q)\<rparr> else q)"
    using a r by (auto simp: yes_inv_def dest!: dput_set)
  ultimately show ?thesis using a(1) unfolding load_record_def Let_def by (simp add: remember_yes)
qed

lemma restart_yes: "yes_inv P q \<Longrightarrow> yes_inv P (restart opt now failing q)"
proof -
  have load: "yes_inv P q' \<Longrightarrow> \<forall>r \<in> set rs. record_ok P r \<Longrightarrow> yes_inv P (fold (load_record opt now failing) rs q')" for q' rs
    by (induction rs arbitrary: q') (auto simp: load_yes)
  assume q: "yes_inv P q"
  then have start: "yes_inv P (new_queue\<lparr>aq_store := aq_store q, aq_answers := aq_answers q\<rparr>)"
    by (intro yes_invI [OF q]) (auto simp: new_queue_def)
  have "\<forall>r \<in> set (sort_key (\<lambda>r. qr_createdAt (apr_request r)) (filter (\<lambda>r. qr_id (apr_request r) \<noteq> []) (map snd (aq_store q)))). record_ok P r"
    using q by (auto simp: yes_inv_def)
  from load [OF start this] start show ?thesis unfolding restart_def init_queue_def by simp
qed

lemma event_yes:
  assumes q: "yes_inv P q" and P': "\<And>s. P s \<or> says_yes now ev q s \<Longrightarrow> P' s"
  shows "yes_inv P' (queue_event opt now ev q)"
proof -
  have q': "yes_inv P' q" using yes_inv_mono [OF q] P' by blast
  show ?thesis
  proof (cases ev)
    case (EvEnqueue e i ask)
    then show ?thesis using createPending_yes [OF q'] q' by (simp add: queue_event_def enqueue_def)
  next
    case (EvScoped e i s d)
    have "yes_inv P' (let q2 = createPending opt now i ask (Some (s, approvalScopeKey s)) q in q2\<lparr>aq_pendingByScope := f (aq_pendingByScope q2)\<rparr>)" for ask f
    proof -
      have "yes_inv P' (createPending opt now i ask (Some (s, approvalScopeKey s)) q)" by (rule createPending_yes [OF q']) simp
      then show ?thesis unfolding Let_def by (rule yes_invI) simp_all
    qed
    with EvScoped q' show ?thesis by (auto simp: queue_event_def requestScoped_def Let_def bindE_def split: sum.splits option.splits)
  next
    case (EvResolve i b by' x)
    show ?thesis
    proof (cases "dget (aq_pending q) i")
      case (Some item)
      then have "keyed item" "\<And>s. b \<Longrightarrow> \<not> timed_out now item \<Longrightarrow> qr_scope item = Some s \<Longrightarrow> P' s"
        using pending_keyed [OF q'] P' EvResolve by (auto simp: says_yes_def)
      with EvResolve Some q' show ?thesis by (simp add: queue_event_def resolve_request_def Let_def resolve_item_yes)
    qed (use EvResolve q' in \<open>simp add: queue_event_def resolve_request_def\<close>)
  next
    case (EvResolveAll b)
    have "\<forall>x \<in> set (aq_pending q). keyed (snd x) \<and> (b \<longrightarrow> (\<forall>s. qr_scope (snd x) = Some s \<longrightarrow> P' s))"
      using q' P' EvResolveAll by (auto simp: says_yes_def yes_inv_def)
    from resolve_all_yes [OF q' this] EvResolveAll show ?thesis by (simp add: queue_event_def resolve_all_def)
  next
    case (EvTimer i)
    then show ?thesis using q' pending_keyed [OF q'] by (auto simp: queue_event_def timer_fires_def resolve_item_yes split: option.splits)
  next
    case (EvWrite ok)
    then show ?thesis using q' by (auto simp: queue_event_def write_done_def yes_inv_def split: list.splits dest!: dput_set)
  next
    case (EvListeners n)
    then show ?thesis using q' by (auto simp: queue_event_def intro: yes_invI)
  next
    case (EvRestart failing)
    then show ?thesis using restart_yes [OF q'] by (simp add: queue_event_def)
  qed
qed

lemma run_yes: "yes_inv (approved_in opt es) (run_queue opt es)"
proof (induction es rule: rev_induct)
  case Nil
  then show ?case by (simp add: run_queue_def new_queue_def yes_inv_def)
next
  case (snoc x es)
  obtain now ev where x: "x = (now, ev)" by (cases x)
  show ?case unfolding x run_queue_snoc by (rule event_yes [OF snoc.IH]) (simp add: approved_in_snoc)
qed


subsection \<open>One request for a scope, and one answer\<close>

definition event_ids :: "(timestamp \<times> QueueEvent) list \<Rightarrow> string list" where
  "event_ids es = concat (map (\<lambda>(_, ev). case ev of EvEnqueue _ i _ \<Rightarrow> [i] | EvScoped _ i _ _ \<Rightarrow> [i] | _ \<Rightarrow> []) es)"

definition queue_inv :: "string set \<Rightarrow> ApprovalQueue \<Rightarrow> bool" where
  "queue_inv U q \<longleftrightarrow>
     distinct (dkeys (aq_pending q)) \<and> (\<forall>i item. dget (aq_pending q) i = Some item \<longrightarrow> qr_id item = i \<and> i \<in> U) \<and>
     (\<forall>i. dget (aq_answers q) i \<noteq> None \<longrightarrow> i \<in> U \<and> dget (aq_pending q) i = None) \<and>
     (\<forall>k i. dget (aq_pendingByScope q) k = Some i \<longleftrightarrow> (\<exists>item. dget (aq_pending q) i = Some item \<and> qr_scopeKey item = Some k)) \<and>
     (\<forall>k. dget (aq_decidedScopes q) k \<noteq> None \<longrightarrow> dget (aq_pendingByScope q) k = None)"

lemma forget_oldest_get: "dget (snd (forget_oldest n h d)) k \<noteq> None \<Longrightarrow> dget d k \<noteq> None"
  by (induction n h d rule: forget_oldest.induct) (auto simp: delete_conv split: option.splits if_splits)

lemma remember_get: "dget (aq_decidedScopes (remember opt r q)) k \<noteq> None \<Longrightarrow> dget (aq_decidedScopes q) k \<noteq> None \<or> qr_scopeKey (apr_request r) = Some k"
  using forget_oldest_get by (fastforce simp: remember_def Let_def split: option.splits if_splits)

lemma remember_rest [simp]: "aq_pending (remember opt r q) = aq_pending q" "aq_pendingByScope (remember opt r q) = aq_pendingByScope q"
  "aq_answers (remember opt r q) = aq_answers q" "aq_store (remember opt r q) = aq_store q"
  by (simp_all add: remember_def Let_def)

lemma persist_rest [simp]: "aq_pending (persist_record opt r q) = aq_pending q" "aq_pendingByScope (persist_record opt r q) = aq_pendingByScope q"
  "aq_answers (persist_record opt r q) = aq_answers q" "aq_decidedScopes (persist_record opt r q) = aq_decidedScopes q"
  by (simp_all add: persist_record_def)

lemma resolve_item_fields:
  "aq_pending (resolve_item opt now b by' item q) = AList.delete (qr_id item) (aq_pending q)"
  "aq_pendingByScope (resolve_item opt now b by' item q) =
    (case qr_scopeKey item of Some k \<Rightarrow> AList.delete k (aq_pendingByScope q) | None \<Rightarrow> aq_pendingByScope q)"
  "aq_answers (resolve_item opt now b by' item q) = dput (qr_id item) (item, b) (aq_answers q)"
  "dget (aq_decidedScopes (resolve_item opt now b by' item q)) k \<noteq> None \<Longrightarrow> dget (aq_decidedScopes q) k \<noteq> None \<or> qr_scopeKey item = Some k"
  using remember_get by (fastforce simp: resolve_item_def Let_def queue_record_def)+

lemma distinct_delete: "distinct (dkeys d) \<Longrightarrow> distinct (dkeys (AList.delete k d))"
  by (simp add: AList.delete_eq distinct_map_filter)

lemma resolve_item_inv:
  assumes q: "queue_inv U q" and i: "dget (aq_pending q) i = Some item"
  shows "queue_inv U (resolve_item opt now b by' item q)"
proof -
  let ?q = "resolve_item opt now b by' item q"
  have id: "qr_id item = i" "i \<in> U" using q i by (auto simp: queue_inv_def)
  have p: "dget (aq_pending ?q) j = (if j = i then None else dget (aq_pending q) j)" for j by (simp add: resolve_item_fields delete_conv id)
  have s: "dget (aq_pendingByScope ?q) k = (if qr_scopeKey item = Some k then None else dget (aq_pendingByScope q) k)" for k
    by (auto simp: resolve_item_fields delete_conv split: option.splits)
  have uniq: "j = i" if "dget (aq_pending q) j = Some x" "qr_scopeKey x = Some k" "qr_scopeKey item = Some k" for j x k
  proof -
    have "dget (aq_pendingByScope q) k = Some j" "dget (aq_pendingByScope q) k = Some i" using q that i by (auto simp: queue_inv_def)
    then show ?thesis by simp
  qed
  have "dget (aq_pendingByScope ?q) k = Some j \<longleftrightarrow> (\<exists>x. dget (aq_pending ?q) j = Some x \<and> qr_scopeKey x = Some k)" for k j
  proof (cases "qr_scopeKey item = Some k")
    case True
    with uniq [of j _ k] show ?thesis by (auto simp: s p)
  next
    case False
    have "dget (aq_pendingByScope q) k = Some j \<longleftrightarrow> (\<exists>x. dget (aq_pending q) j = Some x \<and> qr_scopeKey x = Some k)"
      using q unfolding queue_inv_def by blast
    with i False show ?thesis by (auto simp: s p)
  qed
  moreover have "distinct (dkeys (aq_pending ?q))" using q by (simp add: resolve_item_fields distinct_delete queue_inv_def)
  moreover have "dget (aq_answers ?q) j \<noteq> None \<longrightarrow> j \<in> U \<and> dget (aq_pending ?q) j = None" for j
    using q id by (auto simp: resolve_item_fields(3) p queue_inv_def)
  moreover have "dget (aq_decidedScopes ?q) k \<noteq> None \<longrightarrow> dget (aq_pendingByScope ?q) k = None" for k
    using resolve_item_fields(4) [of opt now b by' item q k] q unfolding s queue_inv_def by (auto split: if_splits)
  moreover have "dget (aq_pending ?q) j = Some x \<longrightarrow> qr_id x = j \<and> j \<in> U" for j x using q unfolding p by (auto simp: queue_inv_def)
  ultimately show ?thesis unfolding queue_inv_def by blast
qed

lemma resolve_all_inv:
  "queue_inv U q \<Longrightarrow> \<forall>x \<in> set xs. dget (aq_pending q) (fst x) = Some (snd x) \<Longrightarrow> distinct (dkeys xs) \<Longrightarrow>
    queue_inv U (fold (\<lambda>(_, item). resolve_item opt now b None item) xs q)"
proof (induction xs arbitrary: q)
  case (Cons x xs)
  obtain i item where x: "x = (i, item)" by (cases x)
  then have i: "dget (aq_pending q) i = Some item" using Cons.prems(2) by simp
  then have id: "qr_id item = i" using Cons.prems(1) by (auto simp: queue_inv_def)
  have "\<forall>y \<in> set xs. dget (aq_pending (resolve_item opt now b None item q)) (fst y) = Some (snd y)"
    using Cons.prems(2,3) x by (force simp: resolve_item_fields delete_conv id)
  with Cons.IH resolve_item_inv [OF Cons.prems(1) i] Cons.prems(3) show ?case by (simp add: x)
qed simp

text \<open>What the steps share: the queue stays well formed, ids that are new may be used, and answers stay.\<close>

definition keeps_answers :: "ApprovalQueue \<Rightarrow> ApprovalQueue \<Rightarrow> bool" where
  "keeps_answers q q' \<longleftrightarrow> (\<forall>i a. dget (aq_answers q) i = Some a \<longrightarrow> dget (aq_answers q') i = Some a)"

lemma resolve_item_keeps: "queue_inv U q \<Longrightarrow> dget (aq_pending q) i = Some item \<Longrightarrow> keeps_answers q (resolve_item opt now b by' item q)"
proof -
  assume q: "queue_inv U q" and i: "dget (aq_pending q) i = Some item"
  then have "dget (aq_answers q) (qr_id item) = None" unfolding queue_inv_def by (metis option.distinct(1))
  then show ?thesis by (auto simp: keeps_answers_def resolve_item_fields(3))
qed

lemma resolve_all_keeps:
  "queue_inv U q \<Longrightarrow> \<forall>x \<in> set xs. dget (aq_pending q) (fst x) = Some (snd x) \<Longrightarrow> distinct (dkeys xs) \<Longrightarrow>
    keeps_answers q (fold (\<lambda>(_, item). resolve_item opt now b None item) xs q)"
proof (induction xs arbitrary: q)
  case (Cons x xs)
  obtain i item where x: "x = (i, item)" by (cases x)
  then have i: "dget (aq_pending q) i = Some item" using Cons.prems(2) by simp
  then have id: "qr_id item = i" using Cons.prems(1) by (auto simp: queue_inv_def)
  let ?q = "resolve_item opt now b None item q"
  have "\<forall>y \<in> set xs. dget (aq_pending ?q) (fst y) = Some (snd y)"
    using Cons.prems(2,3) x by (force simp: resolve_item_fields delete_conv id)
  with Cons.IH [OF resolve_item_inv [OF Cons.prems(1) i]] Cons.prems(3) x
  have "keeps_answers ?q (fold (\<lambda>(_, item). resolve_item opt now b None item) xs ?q)" by simp
  with resolve_item_keeps [OF Cons.prems(1) i, of opt now b None] show ?case by (simp add: keeps_answers_def x)
qed (simp add: keeps_answers_def)

lemma createPending_inv:
  assumes q: "queue_inv U q" and i: "i \<notin> U"
  shows "queue_inv (insert i U) (createPending opt now i ask None q)"
    "dget (aq_pendingByScope q) k = None \<Longrightarrow> dget (aq_decidedScopes q) k = None \<Longrightarrow>
      queue_inv (insert i U) (let q' = createPending opt now i ask (Some (s, k)) q in q'\<lparr>aq_pendingByScope := dput k i (aq_pendingByScope q')\<rparr>)"
proof -
  have none: "dget (aq_pending q) i = None" using q i by (metis queue_inv_def not_None_eq)
  then have d: "distinct (dkeys (dput i x (aq_pending q)))" for x using q by (simp add: queue_inv_def distinct_update)
  have a: "dget (aq_answers q) j \<noteq> None \<Longrightarrow> j \<noteq> i" for j using q i by (metis queue_inv_def)
  have p: "dget (aq_pendingByScope q) k' \<noteq> Some i" for k' using q none by (simp add: queue_inv_def)
  show "queue_inv (insert i U) (createPending opt now i ask None q)"
    using q d a p unfolding queue_inv_def createPending_def Let_def by auto
  assume k: "dget (aq_pendingByScope q) k = None" "dget (aq_decidedScopes q) k = None"
  let ?q = "let q' = createPending opt now i ask (Some (s, k)) q in q'\<lparr>aq_pendingByScope := dput k i (aq_pendingByScope q')\<rparr>"
  obtain item where item: "aq_pending ?q = dput i item (aq_pending q)" "qr_id item = i" "qr_scopeKey item = Some k"
    unfolding createPending_def Let_def by fastforce
  have rest: "aq_pendingByScope ?q = dput k i (aq_pendingByScope q)" "aq_answers ?q = aq_answers q" "aq_decidedScopes ?q = aq_decidedScopes q"
    by (simp_all add: createPending_def Let_def)
  have pb: "dget (aq_pendingByScope q) k' = Some j \<longleftrightarrow> (\<exists>x. dget (aq_pending q) j = Some x \<and> qr_scopeKey x = Some k')" for k' j
    using q unfolding queue_inv_def by blast
  have "dget (aq_pendingByScope ?q) k' = Some j \<longleftrightarrow> (\<exists>x. dget (aq_pending ?q) j = Some x \<and> qr_scopeKey x = Some k')" for k' j
  proof (cases "k' = k")
    case True
    have "\<not> (dget (aq_pending q) j = Some x \<and> qr_scopeKey x = Some k)" for x using pb [of k j] k(1) by auto
    with True item(3) show ?thesis by (auto simp: item(1) rest)
  next
    case False
    with pb [of k' j] p [of k'] none item(3) show ?thesis by (auto simp: item(1) rest)
  qed
  moreover have "distinct (dkeys (aq_pending ?q))" using d by (simp add: item(1))
  moreover have "dget (aq_pending ?q) j = Some x \<longrightarrow> qr_id x = j \<and> j \<in> insert i U" for j x using q item(2) by (auto simp: item(1) queue_inv_def)
  moreover have "dget (aq_answers ?q) j \<noteq> None \<longrightarrow> j \<in> insert i U \<and> dget (aq_pending ?q) j = None" for j
    using q a [of j] unfolding rest item(1) queue_inv_def by auto
  moreover have "dget (aq_decidedScopes ?q) k' \<noteq> None \<longrightarrow> dget (aq_pendingByScope ?q) k' = None" for k'
    using q k(2) unfolding rest queue_inv_def by auto
  ultimately show "queue_inv (insert i U) ?q" unfolding queue_inv_def by blast
qed

lemma createPending_answers: "aq_answers (createPending opt now i ask scope q) = aq_answers q"
  by (simp add: createPending_def Let_def)

lemma load_rest: "aq_pending (load_record opt now failing r q) = aq_pending q" "aq_pendingByScope (load_record opt now failing r q) = aq_pendingByScope q"
  "aq_answers (load_record opt now failing r q) = aq_answers q"
  by (simp_all add: load_record_def Let_def)

lemma loads_rest: "aq_pending (fold (load_record opt now failing) rs q) = aq_pending q"
  "aq_pendingByScope (fold (load_record opt now failing) rs q) = aq_pendingByScope q" "aq_answers (fold (load_record opt now failing) rs q) = aq_answers q"
  by (induction rs arbitrary: q) (simp_all add: load_rest)

lemma restart_rest: "aq_pending (restart opt now failing q) = []" "aq_pendingByScope (restart opt now failing q) = []"
  "aq_answers (restart opt now failing q) = aq_answers q"
  by (simp_all add: restart_def init_queue_def loads_rest new_queue_def)

lemma event_inv:
  assumes q: "queue_inv U q" and new: "set (event_ids [(now, ev)]) \<inter> U = {}"
  shows "queue_inv (set (event_ids [(now, ev)]) \<union> U) (queue_event opt now ev q) \<and> keeps_answers q (queue_event opt now ev q)"
proof (cases ev)
  case (EvEnqueue e i ask)
  then have "i \<notin> U" using new by (simp add: event_ids_def)
  moreover have "queue_inv (insert i U) q" using q by (auto simp: queue_inv_def)
  ultimately show ?thesis using EvEnqueue createPending_inv(1) [OF q]
    by (auto simp: queue_event_def enqueue_def event_ids_def keeps_answers_def createPending_answers)
next
  case (EvScoped e i s d)
  then have i: "i \<notin> U" using new by (simp add: event_ids_def)
  have "queue_inv (insert i U) q" using q by (auto simp: queue_inv_def)
  moreover have "keeps_answers q (let q' = createPending opt now i ask sc q in q'\<lparr>aq_pendingByScope := f q'\<rparr>)" for ask sc f
    by (simp add: keeps_answers_def createPending_answers Let_def)
  moreover have "keeps_answers q q" by (simp add: keeps_answers_def)
  ultimately show ?thesis using EvScoped createPending_inv(2) [OF q i]
    by (auto simp: queue_event_def requestScoped_def event_ids_def bindE_def Let_def split: sum.splits option.splits)
next
  case (EvResolve i b by' x)
  have "queue_inv U q \<and> keeps_answers q q" using q by (simp add: keeps_answers_def)
  with EvResolve show ?thesis using resolve_item_inv [OF q] resolve_item_keeps [OF q]
    by (simp add: queue_event_def resolve_request_def event_ids_def Let_def split: option.split)
next
  case (EvResolveAll b)
  have "\<forall>x \<in> set (aq_pending q). dget (aq_pending q) (fst x) = Some (snd x)" "distinct (dkeys (aq_pending q))"
    using q by (auto simp: queue_inv_def)
  with EvResolveAll show ?thesis using resolve_all_inv [OF q] resolve_all_keeps [OF q]
    by (simp add: queue_event_def resolve_all_def event_ids_def)
next
  case (EvTimer i)
  have "queue_inv U q \<and> keeps_answers q q" using q by (simp add: keeps_answers_def)
  with EvTimer show ?thesis using resolve_item_inv [OF q] resolve_item_keeps [OF q]
    by (simp add: queue_event_def timer_fires_def event_ids_def split: option.split)
next
  case (EvWrite ok)
  then show ?thesis using q by (simp add: queue_event_def write_done_def event_ids_def queue_inv_def keeps_answers_def split: list.split)
next
  case (EvListeners n)
  then show ?thesis using q by (simp add: queue_event_def event_ids_def queue_inv_def keeps_answers_def)
next
  case (EvRestart failing)
  then show ?thesis using q by (simp add: queue_event_def event_ids_def queue_inv_def keeps_answers_def restart_rest)
qed

lemma event_ids_append [simp]: "event_ids (es @ es') = event_ids es @ event_ids es'"
  by (simp add: event_ids_def)

lemma queue_run_inv: "distinct (event_ids es) \<Longrightarrow> queue_inv (set (event_ids es)) (run_queue opt es)"
proof (induction es rule: rev_induct)
  case Nil
  then show ?case by (simp add: run_queue_def new_queue_def queue_inv_def event_ids_def)
next
  case (snoc x es)
  obtain now ev where x: "x = (now, ev)" by (cases x)
  have "queue_inv (set (event_ids es)) (run_queue opt es)" "set (event_ids [x]) \<inter> set (event_ids es) = {}"
    using snoc by auto
  from event_inv [OF this(1), of now ev opt] this(2) show ?case by (simp add: x Un_commute)
qed

lemma run_keeps: "distinct (event_ids (es @ es')) \<Longrightarrow> keeps_answers (run_queue opt es) (run_queue opt (es @ es'))"
proof (induction es' rule: rev_induct)
  case (snoc x es')
  obtain now ev where x: "x = (now, ev)" by (cases x)
  have "queue_inv (set (event_ids (es @ es'))) (run_queue opt (es @ es'))" "set (event_ids [x]) \<inter> set (event_ids (es @ es')) = {}"
    using snoc.prems queue_run_inv [of "es @ es'" opt] by auto
  moreover have "run_queue opt (es @ es' @ [x]) = queue_event opt now ev (run_queue opt (es @ es'))"
    using run_queue_snoc [of opt "es @ es'" now ev] by (simp add: x)
  ultimately have "keeps_answers (run_queue opt (es @ es')) (run_queue opt (es @ es' @ [x]))" using event_inv [of _ _ now ev opt] by (metis x)
  moreover have "distinct (event_ids (es @ es'))" using snoc.prems by auto
  ultimately show ?case using snoc.IH unfolding keeps_answers_def by blast
qed (simp add: keeps_answers_def)

text \<open>
  An answer is final, and a decision point has one open question at most. Ids are new with every request. An
  answer that a promise got is never changed by anything that follows, a restart included, and no call of
  \<open>resolve\<close> succeeds for it again. Two pending requests never have the same scope, and the pending request
  of a scope is the one \<open>findByScope\<close> returns.
\<close>
theorem answers_are_final:
  assumes ids: "distinct (event_ids (es @ es'))"
  shows "(dget (aq_answers (run_queue opt es)) i = Some a \<longrightarrow>
      dget (aq_answers (run_queue opt (es @ es'))) i = Some a \<and>
      (\<forall>now b who x r. fst (resolve_request opt now i b who x (run_queue opt (es @ es'))) \<noteq> ResolvedWith r \<and>
        snd (resolve_request opt now i b who x (run_queue opt (es @ es'))) = run_queue opt (es @ es'))) \<and>
    (dget (aq_pending (run_queue opt es)) j = Some item \<and> qr_scope item = Some s \<longrightarrow>
      findByScope s (run_queue opt es) = Some item \<and>
      (\<forall>j' item'. dget (aq_pending (run_queue opt es)) j' = Some item' \<and> qr_scope item' = Some s \<longrightarrow> j' = j))"
proof -
  let ?q = "run_queue opt es" and ?q' = "run_queue opt (es @ es')"
  have inv: "queue_inv (set (event_ids es)) ?q" "queue_inv (set (event_ids (es @ es'))) ?q'" using ids queue_run_inv [of es opt] queue_run_inv [of "es @ es'" opt] by auto
  have first: "dget (aq_answers ?q') i = Some a \<and> dget (aq_pending ?q') i = None" if "dget (aq_answers ?q) i = Some a"
  proof -
    have "dget (aq_answers ?q') i = Some a" using run_keeps [OF ids, of opt] that unfolding keeps_answers_def by blast
    moreover have "dget (aq_answers ?q') i \<noteq> None \<Longrightarrow> dget (aq_pending ?q') i = None" using inv(2) unfolding queue_inv_def by blast
    ultimately show ?thesis by simp
  qed
  have key: "dget (aq_pendingByScope ?q) (approvalScopeKey s) = Some j'" if "dget (aq_pending ?q) j' = Some x" "qr_scope x = Some s" for j' x
  proof -
    have "qr_scopeKey x = Some (approvalScopeKey s)" using pending_keyed [OF run_yes that(1)] that(2) by (simp add: keyed_def)
    with that(1) show ?thesis using inv(1) unfolding queue_inv_def by blast
  qed
  show ?thesis
  proof (intro conjI impI)
    assume "dget (aq_answers ?q) i = Some a"
    from first [OF this] show "dget (aq_answers ?q') i = Some a"
      "\<forall>now b who x r. fst (resolve_request opt now i b who x ?q') \<noteq> ResolvedWith r \<and> snd (resolve_request opt now i b who x ?q') = ?q'"
      by (auto simp: resolve_request_def split: option.splits)
  next
    assume j: "dget (aq_pending ?q) j = Some item \<and> qr_scope item = Some s"
    then have k: "dget (aq_pendingByScope ?q) (approvalScopeKey s) = Some j" using key by blast
    with j show "findByScope s ?q = Some item" by (simp add: findByScope_def)
    show "\<forall>j' item'. dget (aq_pending ?q) j' = Some item' \<and> qr_scope item' = Some s \<longrightarrow> j' = j"
      using key k by (metis option.inject)
  qed
qed

subsection \<open>Witnesses, and what the code does besides\<close>

definition plain_options :: QueueOptions where
  "plain_options = \<lparr>qo_autoDenyNonInteractive = False, qo_defaultTimeoutMs = None, qo_allowEnvAutoApprove = False, qo_durable = True, qo_scopedTimeoutMs = Some 100,
     qo_historyLimit = Some 1\<rparr>"

definition plain_env :: QueueEnv where "plain_env = \<lparr>qe_autoDeny = False, qe_autoApprove = True\<rparr>"

definition plain_details :: ScopedDetails where
  "plain_details = \<lparr>sd_tool = None, sd_rule = None, sd_reasons = None, sd_agentId = None, sd_ttlMs = None\<rparr>"

definition sample_scope :: "nat \<Rightarrow> ApprovalScope" where
  "sample_scope n = \<lparr>asc_kind = ''goal-studio'', asc_runId = ''r'', asc_targetId = ''t'', asc_attempt = n, asc_action = ''execute''\<rparr>"

definition ask_at :: "timestamp \<Rightarrow> string \<Rightarrow> nat \<Rightarrow> timestamp \<times> QueueEvent" where
  "ask_at now i n = (now, EvScoped plain_env i (sample_scope n) plain_details)"

definition answer_at :: "timestamp \<Rightarrow> string \<Rightarrow> bool \<Rightarrow> string \<Rightarrow> timestamp \<times> QueueEvent" where
  "answer_at now i b who = (now, EvResolve i b (Some who) None)"

text \<open>The promise that a request for scope 1 would get after a run\<close>

definition asked_again :: "(timestamp \<times> QueueEvent) list \<Rightarrow> Promise option" where
  "asked_again es = (case requestScoped plain_options plain_env 1000 ''z'' (sample_scope 1) plain_details (run_queue plain_options es) of Inr (p, _) \<Rightarrow> Some p | Inl _ \<Rightarrow> None)"


lemma answers_are_final_witness:
  defines "es \<equiv> [ask_at 0 ''a'' 1, answer_at 5 ''a'' True ''ada'']" and "es' \<equiv> [answer_at 6 ''a'' False ''bob'', (7, EvWrite True), (8, EvRestart [])]"
  shows "map_option snd (dget (aq_answers (run_queue plain_options (es @ es'))) ''a'') = Some True"
proof -
  have ids: "distinct (event_ids (es @ es'))" unfolding es_def es'_def by code_simp
  have "map_option snd (dget (aq_answers (run_queue plain_options es)) ''a'') = Some True" unfolding es_def by code_simp
  then obtain a where a: "dget (aq_answers (run_queue plain_options es)) ''a'' = Some a" "snd a = True" by auto
  with answers_are_final [OF ids, of plain_options "''a''" a] show ?thesis by simp
qed

text \<open>
  \<open>approveAll\<close> does not look at the expiry, which \<open>resolve\<close> does: a request whose time is over, and whose
  timer has not fired yet, is approved.
\<close>

lemma approve_all_takes_expired:
  "asked_again [ask_at 0 ''a'' 1, (200, EvResolveAll True)] = Some (Settled True)"
  "asked_again [ask_at 0 ''a'' 1, answer_at 200 ''a'' True ''ada''] = Some (Settled False)"
  by code_simp+

text \<open>The history is bounded, and so is the memory of decisions: after enough others a scope is asked again.\<close>

lemma decision_is_forgotten:
  "asked_again [ask_at 0 ''a'' 1, answer_at 1 ''a'' False ''ada''] = Some (Settled False)"
  "asked_again [ask_at 0 ''a'' 1, answer_at 1 ''a'' False ''ada'', ask_at 2 ''b'' 2, answer_at 3 ''b'' True ''ada''] = Some (Awaiting ''z'')"
  by code_simp+

text \<open>An approver whose name is \<open>timeout\<close>: the promise is a yes, the record and every later question a no.\<close>

lemma approver_named_timeout:
  "map_option snd (dget (aq_answers (run_queue plain_options [ask_at 0 ''a'' 1, answer_at 1 ''a'' True ''timeout''])) ''a'') = Some True"
  "asked_again [ask_at 0 ''a'' 1, answer_at 1 ''a'' True ''timeout''] = Some (Settled False)"
  by code_simp+

end
