(* ===== verification/File_Store.thy ===== *)
theory File_Store
  imports Prelude
begin

text \<open>
  The key-value store on a file: \<open>src/packages/shared/src/store.ts\<close>. Every mutation takes a lock file, reads the
  document unless the copy of the instance is current, changes it, replaces the file and removes the lock. Each
  access to the file system is one step, and the steps of calls of several processes interleave; a process may
  die between any two of them. Renaming and exclusive creation are atomic, as the code relies on. The stamp of
  the file (inode, times and size) is a version that every replacement increases. Values are any type, \<open>update\<close>
  may throw. Parsing and writing the JSON, dates in values, permissions and damaged files are left out.

  The lemmas show that in orderly runs the store is an atomic dictionary, which is what the goal runner takes
  it to be: no step steals the lock of a process that lives, and no mutation fails. They also show what becomes
  of it otherwise.
\<close>

subsection \<open>State\<close>

type_synonym 'v doc = "(string, 'v) dict"

text \<open>What \<open>update\<close>, \<open>put\<close>, \<open>delete\<close> and \<open>clear\<close> do to the document; a function given to \<open>update\<close> may throw.\<close>

type_synonym 'v doc_mutation = "'v doc \<Rightarrow> 'v doc option"

definition mut_update :: "string \<Rightarrow> ('v option \<Rightarrow> 'v option) \<Rightarrow> 'v doc_mutation" where
  "mut_update k f d = map_option (\<lambda>v. dput k v d) (f (dget d k))"

definition mut_put :: "string \<Rightarrow> 'v \<Rightarrow> 'v doc_mutation" where
  "mut_put k v d = Some (dput k v d)"

definition mut_delete :: "string \<Rightarrow> 'v doc_mutation" where
  "mut_delete k d = Some (AList.delete k d)"

definition mut_clear :: "'v doc_mutation" where
  "mut_clear d = Some []"

text \<open>The phases of a mutation. \<open>PStale\<close>: it has judged the lock stale and is about to rename it away.\<close>

datatype 'v phase =
  PTrying | PStale | PTimedOut | POpened | PHeld | PLoaded "'v doc" | PMutated "'v doc" | PEnding bool | PUnlinking bool | PFinished bool

record 'v call =
  ca_pid :: nat
  ca_mutate :: "'v doc_mutation"
  ca_phase :: "'v phase"

text \<open>A lock file belongs to the call that created it; its text names the process once it has been written.\<close>

record lock_file =
  lf_owner :: nat
  lf_pid :: "nat option"

text \<open>The copy of a store instance, one for each process\<close>

record 'v store_instance =
  si_data :: "'v doc"
  si_lastStat :: "nat option"
  si_loaded :: bool

text \<open>\<open>fs_log\<close> keeps the calls that replaced the file, in order; no code reads it.\<close>

record 'v file_system =
  fs_doc :: "'v doc option"
  fs_version :: nat
  fs_lock :: "lock_file option"
  fs_dead :: "nat list"
  fs_calls :: "(nat, 'v call) dict"
  fs_instances :: "(nat, 'v store_instance) dict"
  fs_log :: "nat list"

definition new_instance :: "'v store_instance" where
  "new_instance = \<lparr>si_data = [], si_lastStat = None, si_loaded = False\<rparr>"

definition empty_files :: "'v file_system" where
  "empty_files = \<lparr>fs_doc = None, fs_version = 0, fs_lock = None, fs_dead = [], fs_calls = [], fs_instances = [], fs_log = []\<rparr>"

definition instance_of :: "nat \<Rightarrow> 'v file_system \<Rightarrow> 'v store_instance" where
  "instance_of p s = (case dget (fs_instances s) p of Some i \<Rightarrow> i | None \<Rightarrow> new_instance)"

subsection \<open>The lock\<close>

text \<open>
  What \<open>inspectForeignHolder\<close> and the age of the file say: the lock is stale if its process is another one that
  is dead, or if it is old and no other live process is found in it. A lock whose text is not written yet, or
  that names the process itself, belongs to no other process.
\<close>

definition stale_lock :: "nat \<Rightarrow> bool \<Rightarrow> 'v file_system \<Rightarrow> bool" where
  "stale_lock pid old s =
     (case fs_lock s of None \<Rightarrow> False
      | Some l \<Rightarrow> (case lf_pid l of None \<Rightarrow> old | Some p \<Rightarrow> if p = pid then old else p \<in> set (fs_dead s)))"

definition move_to :: "nat \<Rightarrow> 'v phase \<Rightarrow> 'v file_system \<Rightarrow> 'v file_system" where
  "move_to c ph s = (case dget (fs_calls s) c of None \<Rightarrow> s | Some ca \<Rightarrow> s\<lparr>fs_calls := dput c (ca\<lparr>ca_phase := ph\<rparr>) (fs_calls s)\<rparr>)"

text \<open>A step of a call whose process is alive\<close>

definition on_call :: "nat \<Rightarrow> ('v call \<Rightarrow> 'v file_system) \<Rightarrow> 'v file_system \<Rightarrow> 'v file_system" where
  "on_call c k s = (case dget (fs_calls s) c of None \<Rightarrow> s | Some ca \<Rightarrow> if ca_pid ca \<in> set (fs_dead s) then s else k ca)"

definition open_lock :: "nat \<Rightarrow> 'v file_system \<Rightarrow> 'v file_system" where
  "open_lock c s = on_call c (\<lambda>ca. case (ca_phase ca, fs_lock s) of
     (PTrying, None) \<Rightarrow> move_to c POpened (s\<lparr>fs_lock := Some \<lparr>lf_owner = c, lf_pid = None\<rparr>\<rparr>) | _ \<Rightarrow> s) s"

definition write_token :: "nat \<Rightarrow> 'v file_system \<Rightarrow> 'v file_system" where
  "write_token c s = on_call c (\<lambda>ca. case ca_phase ca of
     POpened \<Rightarrow> move_to c PHeld (s\<lparr>fs_lock := map_option (\<lambda>l. if lf_owner l = c then l\<lparr>lf_pid := Some (ca_pid ca)\<rparr> else l) (fs_lock s)\<rparr>) | _ \<Rightarrow> s) s"

definition inspect_lock :: "nat \<Rightarrow> bool \<Rightarrow> 'v file_system \<Rightarrow> 'v file_system" where
  "inspect_lock c old s = on_call c (\<lambda>ca. case ca_phase ca of PTrying \<Rightarrow> if stale_lock (ca_pid ca) old s then move_to c PStale s else s | _ \<Rightarrow> s) s"

definition steal_lock :: "nat \<Rightarrow> 'v file_system \<Rightarrow> 'v file_system" where
  "steal_lock c s = on_call c (\<lambda>ca. case ca_phase ca of PStale \<Rightarrow> move_to c PTrying (s\<lparr>fs_lock := None\<rparr>) | _ \<Rightarrow> s) s"

definition lock_timeout :: "nat \<Rightarrow> 'v file_system \<Rightarrow> 'v file_system" where
  "lock_timeout c s = on_call c (\<lambda>ca. case ca_phase ca of PTrying \<Rightarrow> move_to c PTimedOut s | _ \<Rightarrow> s) s"

text \<open>The release removes the file at the path if it held the token of the call a moment ago.\<close>

definition check_token :: "nat \<Rightarrow> 'v file_system \<Rightarrow> 'v file_system" where
  "check_token c s = on_call c (\<lambda>ca. case ca_phase ca of
     PEnding ok \<Rightarrow> move_to c (if fs_lock s = Some \<lparr>lf_owner = c, lf_pid = Some (ca_pid ca)\<rparr> then PUnlinking ok else PFinished ok) s | _ \<Rightarrow> s) s"

definition remove_lock :: "nat \<Rightarrow> 'v file_system \<Rightarrow> 'v file_system" where
  "remove_lock c s = on_call c (\<lambda>ca. case ca_phase ca of PUnlinking ok \<Rightarrow> move_to c (PFinished ok) (s\<lparr>fs_lock := None\<rparr>) | _ \<Rightarrow> s) s"

subsection \<open>The document\<close>

definition statMatches :: "'v store_instance \<Rightarrow> 'v file_system \<Rightarrow> bool" where
  "statMatches i s \<longleftrightarrow> si_loaded i \<and> fs_doc s \<noteq> None \<and> si_lastStat i = Some (fs_version s)"

text \<open>A writer works on its own copy of the document; the instance remembers the stamp of what it has read.\<close>

definition load_doc :: "nat \<Rightarrow> 'v file_system \<Rightarrow> 'v file_system" where
  "load_doc c s = on_call c (\<lambda>ca. case ca_phase ca of
     PHeld \<Rightarrow> (let p = ca_pid ca; i = instance_of p s in
       if statMatches i s then move_to c (PLoaded (si_data i)) s
       else (case fs_doc s of
           None \<Rightarrow> move_to c (PLoaded []) (s\<lparr>fs_instances := dput p (i\<lparr>si_lastStat := None\<rparr>) (fs_instances s)\<rparr>)
         | Some d \<Rightarrow> move_to c (PLoaded d) (s\<lparr>fs_instances := dput p (i\<lparr>si_lastStat := Some (fs_version s)\<rparr>) (fs_instances s)\<rparr>)))
   | _ \<Rightarrow> s) s"

definition mutate_doc :: "nat \<Rightarrow> 'v file_system \<Rightarrow> 'v file_system" where
  "mutate_doc c s = on_call c (\<lambda>ca. case ca_phase ca of
     PLoaded d \<Rightarrow> move_to c (case ca_mutate ca d of Some d' \<Rightarrow> PMutated d' | None \<Rightarrow> PEnding False) s | _ \<Rightarrow> s) s"

text \<open>The file is replaced, or writing it fails.\<close>

definition persist_doc :: "nat \<Rightarrow> bool \<Rightarrow> 'v file_system \<Rightarrow> 'v file_system" where
  "persist_doc c ok s = on_call c (\<lambda>ca. case ca_phase ca of
     PMutated d \<Rightarrow>
       if ok then move_to c (PEnding True) (s\<lparr>fs_doc := Some d, fs_version := Suc (fs_version s), fs_log := fs_log s @ [c],
         fs_instances := dput (ca_pid ca) \<lparr>si_data = d, si_lastStat = Some (Suc (fs_version s)), si_loaded = True\<rparr> (fs_instances s)\<rparr>)
       else move_to c (PEnding False) s
   | _ \<Rightarrow> s) s"

text \<open>\<open>get\<close> and \<open>list\<close> take no lock: they bring the copy of the instance up to date, unless its stamp is current.\<close>

definition reloadFromDisk :: "nat \<Rightarrow> 'v file_system \<Rightarrow> 'v file_system" where
  "reloadFromDisk p s =
     (let i = instance_of p s in
      if statMatches i s then s
      else s\<lparr>fs_instances := dput p (case fs_doc s of
          None \<Rightarrow> \<lparr>si_data = [], si_lastStat = None, si_loaded = True\<rparr>
        | Some d \<Rightarrow> \<lparr>si_data = d, si_lastStat = Some (fs_version s), si_loaded = True\<rparr>) (fs_instances s)\<rparr>)"

definition store_get :: "nat \<Rightarrow> string \<Rightarrow> 'v file_system \<Rightarrow> 'v option \<times> 'v file_system" where
  "store_get p k s = (let s' = reloadFromDisk p s in (dget (si_data (instance_of p s')) k, s'))"

definition store_list :: "nat \<Rightarrow> string \<Rightarrow> 'v file_system \<Rightarrow> 'v doc \<times> 'v file_system" where
  "store_list p prefix s = (let s' = reloadFromDisk p s in (filter (\<lambda>(k, _). startsWith k prefix) (si_data (instance_of p s')), s'))"

subsection \<open>Runs\<close>

datatype 'v store_step =
  SBegin nat nat "'v doc_mutation" | SOpen nat | SToken nat | SInspect nat bool | SSteal nat | STimeout nat | SLoad nat | SMutate nat | SPersist nat bool
| SCheck nat | SRemove nat | SRead nat | SDie nat

fun store_event :: "'v store_step \<Rightarrow> 'v file_system \<Rightarrow> 'v file_system" where
  "store_event (SBegin c p f) s =
     (if dget (fs_calls s) c = None then s\<lparr>fs_calls := dput c \<lparr>ca_pid = p, ca_mutate = f, ca_phase = PTrying\<rparr> (fs_calls s)\<rparr> else s)"
| "store_event (SOpen c) s = open_lock c s"
| "store_event (SToken c) s = write_token c s"
| "store_event (SInspect c old) s = inspect_lock c old s"
| "store_event (SSteal c) s = steal_lock c s"
| "store_event (STimeout c) s = lock_timeout c s"
| "store_event (SLoad c) s = load_doc c s"
| "store_event (SMutate c) s = mutate_doc c s"
| "store_event (SPersist c ok) s = persist_doc c ok s"
| "store_event (SCheck c) s = check_token c s"
| "store_event (SRemove c) s = remove_lock c s"
| "store_event (SRead p) s = reloadFromDisk p s"
| "store_event (SDie p) s = s\<lparr>fs_dead := p # fs_dead s\<rparr>"

definition run_store :: "'v store_step list \<Rightarrow> 'v file_system" where
  "run_store es = fold store_event es empty_files"

lemma run_store_snoc [simp]: "run_store (es @ [e]) = store_event e (run_store es)"
  by (simp add: run_store_def)

text \<open>A step is orderly if it steals from the dead only, no function throws and the file can be written.\<close>

definition orderly :: "'v store_step \<Rightarrow> 'v file_system \<Rightarrow> bool" where
  "orderly e s \<longleftrightarrow>
     (case e of
        SSteal c \<Rightarrow> (\<forall>l. fs_lock s = Some l \<longrightarrow> (\<exists>ca. dget (fs_calls s) (lf_owner l) = Some ca \<and> ca_pid ca \<in> set (fs_dead s)))
      | SMutate c \<Rightarrow> (\<forall>ca d. dget (fs_calls s) c = Some ca \<longrightarrow> ca_phase ca = PLoaded d \<longrightarrow> ca_mutate ca d \<noteq> None)
      | SPersist c ok \<Rightarrow> ok
      | _ \<Rightarrow> True)"

fun orderly_run :: "'v store_step list \<Rightarrow> 'v file_system \<Rightarrow> bool" where
  "orderly_run [] s \<longleftrightarrow> True"
| "orderly_run (e # es) s \<longleftrightarrow> orderly e s \<and> orderly_run es (store_event e s)"

lemma orderly_run_snoc: "orderly_run (es @ [e]) s \<longleftrightarrow> orderly_run es s \<and> orderly e (fold store_event es s)"
  by (induction es arbitrary: s) auto

subsection \<open>What orderly runs keep\<close>

definition the_doc :: "'v file_system \<Rightarrow> 'v doc" where
  "the_doc s = (case fs_doc s of None \<Rightarrow> [] | Some d \<Rightarrow> d)"

fun in_section :: "'v phase \<Rightarrow> bool" where
  "in_section PTrying = False"
| "in_section PStale = False"
| "in_section PTimedOut = False"
| "in_section (PFinished _) = False"
| "in_section _ = True"

fun between :: "'v phase \<Rightarrow> bool" where
  "between (PLoaded _) = True"
| "between (PMutated _) = True"
| "between _ = False"

fun stored :: "'v phase \<Rightarrow> bool" where
  "stored (PEnding ok) = ok"
| "stored (PUnlinking ok) = ok"
| "stored (PFinished ok) = ok"
| "stored _ = False"

text \<open>What a call in its section relies on: the lock is its own, and what it has read is the document.\<close>

definition section_ok :: "'v file_system \<Rightarrow> nat \<Rightarrow> 'v call \<Rightarrow> bool" where
  "section_ok s c ca \<longleftrightarrow>
     (in_section (ca_phase ca) \<longrightarrow> fs_lock s = Some \<lparr>lf_owner = c, lf_pid = (case ca_phase ca of POpened \<Rightarrow> None | _ \<Rightarrow> Some (ca_pid ca))\<rparr>) \<and>
     (\<forall>d. ca_phase ca = PLoaded d \<longrightarrow> d = the_doc s) \<and> (\<forall>d. ca_phase ca = PMutated d \<longrightarrow> ca_mutate ca (the_doc s) = Some d)"

definition live_call :: "'v file_system \<Rightarrow> nat \<Rightarrow> 'v call \<Rightarrow> bool" where
  "live_call s c ca \<longleftrightarrow> dget (fs_calls s) c = Some ca \<and> ca_pid ca \<notin> set (fs_dead s)"

definition sections_ok :: "'v file_system \<Rightarrow> bool" where
  "sections_ok s \<longleftrightarrow> (\<forall>c ca. live_call s c ca \<longrightarrow> section_ok s c ca)"

text \<open>The copy of a live instance is the document when its stamp is current and none of its writers is between reading and writing.\<close>

definition calm :: "'v file_system \<Rightarrow> nat \<Rightarrow> bool" where
  "calm s p \<longleftrightarrow> (\<forall>c ca. live_call s c ca \<and> ca_pid ca = p \<longrightarrow> \<not> between (ca_phase ca))"

definition copies_ok :: "'v file_system \<Rightarrow> bool" where
  "copies_ok s \<longleftrightarrow>
     (\<forall>p. (\<forall>v. si_lastStat (instance_of p s) = Some v \<longrightarrow> v \<le> fs_version s) \<and>
       (p \<notin> set (fs_dead s) \<and> calm s p \<and> statMatches (instance_of p s) s \<longrightarrow>
         si_data (instance_of p s) = the_doc s))"

definition mutation_of :: "'v file_system \<Rightarrow> nat \<Rightarrow> 'v doc_mutation" where
  "mutation_of s c = (case dget (fs_calls s) c of Some ca \<Rightarrow> ca_mutate ca | None \<Rightarrow> Some)"

text \<open>The mutations of the log, one after the other\<close>

fun replay_log :: "(nat \<Rightarrow> 'v doc_mutation) \<Rightarrow> nat list \<Rightarrow> 'v doc \<Rightarrow> 'v doc option" where
  "replay_log f [] d = Some d"
| "replay_log f (c # cs) d = (case f c d of None \<Rightarrow> None | Some d' \<Rightarrow> replay_log f cs d')"

definition log_ok :: "'v file_system \<Rightarrow> bool" where
  "log_ok s \<longleftrightarrow> distinct (fs_log s) \<and> (\<forall>c. c \<in> set (fs_log s) \<longleftrightarrow> (\<exists>ca. dget (fs_calls s) c = Some ca \<and> stored (ca_phase ca))) \<and>
     replay_log (mutation_of s) (fs_log s) [] = Some (the_doc s)"

definition store_inv :: "'v file_system \<Rightarrow> bool" where
  "store_inv s \<longleftrightarrow> sections_ok s \<and> copies_ok s \<and> log_ok s"

lemma replay_cong: "\<forall>c \<in> set cs. f c = g c \<Longrightarrow> replay_log f cs d = replay_log g cs d"
  by (induction cs arbitrary: d) (auto split: option.split)

lemma replay_snoc: "replay_log f (cs @ [c]) d = (case replay_log f cs d of None \<Rightarrow> None | Some d' \<Rightarrow> f c d')"
  by (induction cs arbitrary: d) (auto split: option.splits)

lemma section_unique:
  "sections_ok s \<Longrightarrow> live_call s c ca \<Longrightarrow> in_section (ca_phase ca) \<Longrightarrow> live_call s c' ca' \<Longrightarrow> in_section (ca_phase ca') \<Longrightarrow> c' = c"
  unfolding sections_ok_def section_ok_def by (metis lock_file.ext_inject option.inject)

lemma between_section: "between ph \<Longrightarrow> in_section ph"
  by (cases ph) simp_all

lemma the_doc_lock [simp]: "the_doc (s\<lparr>fs_lock := lk\<rparr>) = the_doc s" "the_doc (s\<lparr>fs_instances := x\<rparr>) = the_doc s"
  by (simp_all add: the_doc_def)

text \<open>A step that changes the phase of a call, and perhaps the lock\<close>

lemma phase_step:
  assumes inv: "store_inv s" and c: "live_call s c ca"
    and own: "section_ok (s\<lparr>fs_lock := lk\<rparr>) c (ca\<lparr>ca_phase := ph\<rparr>)"
    and others: "\<And>c' ca'. c' \<noteq> c \<Longrightarrow> live_call s c' ca' \<Longrightarrow> in_section (ca_phase ca') \<Longrightarrow> lk = fs_lock s"
    and keeps: "between (ca_phase ca) \<Longrightarrow> between ph" "stored ph \<longleftrightarrow> stored (ca_phase ca)"
  shows "store_inv (move_to c ph (s\<lparr>fs_lock := lk\<rparr>))"
proof -
  let ?s = "s\<lparr>fs_lock := lk, fs_calls := dput c (ca\<lparr>ca_phase := ph\<rparr>) (fs_calls s)\<rparr>"
  have s': "move_to c ph (s\<lparr>fs_lock := lk\<rparr>) = ?s" using c by (simp add: move_to_def live_call_def)
  have live: "live_call ?s c' ca' \<longleftrightarrow> (if c' = c then ca' = ca\<lparr>ca_phase := ph\<rparr> else live_call s c' ca')" for c' ca'
    using c by (auto simp: live_call_def)
  have sec: "sections_ok ?s"
    using inv own others unfolding sections_ok_def live store_inv_def by (auto simp: section_ok_def the_doc_def)
  have "copies_ok ?s"
  proof -
    have "calm s p" if q: "calm ?s p" for p
      unfolding calm_def
    proof (intro allI impI)
      fix c' ca' assume a: "live_call s c' ca' \<and> ca_pid ca' = p"
      show "\<not> between (ca_phase ca')"
      proof (cases "c' = c")
        case True
        then have "ca' = ca" using a c by (simp add: live_call_def)
        with q [unfolded calm_def, rule_format, of c "ca\<lparr>ca_phase := ph\<rparr>"] a True keeps(1) show ?thesis by (auto simp: live)
      next
        case False
        with q [unfolded calm_def, rule_format, of c' ca'] a show ?thesis by (simp add: live)
      qed
    qed
    moreover have "instance_of p ?s = instance_of p s" "statMatches i ?s = statMatches i s" "the_doc ?s = the_doc s" for p i
      by (simp_all add: instance_of_def statMatches_def the_doc_def)
    ultimately show ?thesis using inv unfolding store_inv_def copies_ok_def by simp
  qed
  moreover have "log_ok ?s"
  proof -
    have "mutation_of ?s = mutation_of s" using c by (auto simp: mutation_of_def live_call_def)
    moreover have "(\<exists>x. dget (fs_calls ?s) c' = Some x \<and> stored (ca_phase x)) \<longleftrightarrow> (\<exists>x. dget (fs_calls s) c' = Some x \<and> stored (ca_phase x))" for c'
      using c keeps(2) by (auto simp: live_call_def)
    ultimately show ?thesis using inv by (simp add: store_inv_def log_ok_def the_doc_def)
  qed
  ultimately show ?thesis using sec unfolding s' store_inv_def by blast
qed

lemma move_to_same: "move_to c ph s = move_to c ph (s\<lparr>fs_lock := fs_lock s\<rparr>)"
  by simp

lemma on_callI: "store_inv s \<Longrightarrow> (\<And>ca. live_call s c ca \<Longrightarrow> store_inv (k ca)) \<Longrightarrow> store_inv (on_call c k s)"
  by (simp add: on_call_def live_call_def split: option.split)

lemma section_lock:
  "store_inv s \<Longrightarrow> live_call s c ca \<Longrightarrow> in_section (ca_phase ca) \<Longrightarrow>
    fs_lock s = Some \<lparr>lf_owner = c, lf_pid = (case ca_phase ca of POpened \<Rightarrow> None | _ \<Rightarrow> Some (ca_pid ca))\<rparr>"
  unfolding store_inv_def sections_ok_def section_ok_def by blast

lemma lock_steps:
  assumes inv: "store_inv s"
  shows "store_inv (open_lock c s)" "store_inv (write_token c s)" "store_inv (inspect_lock c old s)" "store_inv (lock_timeout c s)"
    "store_inv (check_token c s)" "store_inv (remove_lock c s)"
    "orderly (SSteal c) s \<Longrightarrow> store_inv (steal_lock c s)" "orderly (SMutate c) s \<Longrightarrow> store_inv (mutate_doc c s)"
proof -
  note same = phase_step [OF inv, of c _ "fs_lock s", folded move_to_same]
  show "store_inv (open_lock c s)" unfolding open_lock_def
  proof (rule on_callI [OF inv])
    fix ca assume ca: "live_call s c ca"
    have "store_inv (move_to c POpened (s\<lparr>fs_lock := Some \<lparr>lf_owner = c, lf_pid = None\<rparr>\<rparr>))" if ph: "ca_phase ca = PTrying" "fs_lock s = None"
    proof (rule phase_step [OF inv ca])
      show "section_ok (s\<lparr>fs_lock := Some \<lparr>lf_owner = c, lf_pid = None\<rparr>\<rparr>) c (ca\<lparr>ca_phase := POpened\<rparr>)" by (simp add: section_ok_def)
    qed (use ph section_lock [OF inv] in auto)
    then show "store_inv (case (ca_phase ca, fs_lock s) of (PTrying, None) \<Rightarrow> move_to c POpened (s\<lparr>fs_lock := Some \<lparr>lf_owner = c, lf_pid = None\<rparr>\<rparr>) | _ \<Rightarrow> s)"
      using inv by (simp split: phase.split option.split)
  qed
  show "store_inv (write_token c s)" unfolding write_token_def
  proof (rule on_callI [OF inv])
    fix ca assume ca: "live_call s c ca"
    let ?lk = "map_option (\<lambda>l. if lf_owner l = c then l\<lparr>lf_pid := Some (ca_pid ca)\<rparr> else l) (fs_lock s)"
    have "store_inv (move_to c PHeld (s\<lparr>fs_lock := ?lk\<rparr>))" if ph: "ca_phase ca = POpened"
    proof (rule phase_step [OF inv ca])
      have l: "fs_lock s = Some \<lparr>lf_owner = c, lf_pid = None\<rparr>" using section_lock [OF inv ca] ph by simp
      then show "section_ok (s\<lparr>fs_lock := ?lk\<rparr>) c (ca\<lparr>ca_phase := PHeld\<rparr>)" by (simp add: section_ok_def)
      show "?lk = fs_lock s" if "c' \<noteq> c" "live_call s c' ca'" "in_section (ca_phase ca')" for c' ca'
        using section_lock [OF inv that(2,3)] l that(1) by simp
    qed (use ph in simp_all)
    then show "store_inv (case ca_phase ca of POpened \<Rightarrow> move_to c PHeld (s\<lparr>fs_lock := ?lk\<rparr>) | _ \<Rightarrow> s)" using inv by (simp split: phase.split)
  qed
  show "store_inv (inspect_lock c old s)" unfolding inspect_lock_def
    by (rule on_callI [OF inv]) (use inv in \<open>auto simp: section_ok_def intro!: same split: phase.split\<close>)
  show "store_inv (lock_timeout c s)" unfolding lock_timeout_def
    by (rule on_callI [OF inv]) (use inv in \<open>auto simp: section_ok_def intro!: same split: phase.split\<close>)
  show "store_inv (check_token c s)" unfolding check_token_def
    by (rule on_callI [OF inv]) (use inv in \<open>auto simp: section_ok_def intro!: same split: phase.split\<close>)
  show "store_inv (remove_lock c s)" unfolding remove_lock_def
  proof (rule on_callI [OF inv])
    fix ca assume ca: "live_call s c ca"
    have "store_inv (move_to c (PFinished ok) (s\<lparr>fs_lock := None\<rparr>))" if ph: "ca_phase ca = PUnlinking ok" for ok
    proof (rule phase_step [OF inv ca])
      show "None = fs_lock s" if "c' \<noteq> c" "live_call s c' ca'" "in_section (ca_phase ca')" for c' ca'
        using section_lock [OF inv that(2,3)] section_lock [OF inv ca] ph that(1) by simp
    qed (use ph in \<open>simp_all add: section_ok_def\<close>)
    then show "store_inv (case ca_phase ca of PUnlinking ok \<Rightarrow> move_to c (PFinished ok) (s\<lparr>fs_lock := None\<rparr>) | _ \<Rightarrow> s)"
      using inv by (simp split: phase.split)
  qed
  show "store_inv (steal_lock c s)" if o: "orderly (SSteal c) s" unfolding steal_lock_def
  proof (rule on_callI [OF inv])
    fix ca assume ca: "live_call s c ca"
    have "store_inv (move_to c PTrying (s\<lparr>fs_lock := None\<rparr>))" if ph: "ca_phase ca = PStale"
    proof (rule phase_step [OF inv ca])
      show "None = fs_lock s" if "c' \<noteq> c" "live_call s c' ca'" "in_section (ca_phase ca')" for c' ca'
        using section_lock [OF inv that(2,3)] o that(2) by (auto simp: orderly_def live_call_def)
    qed (use ph in \<open>simp_all add: section_ok_def\<close>)
    then show "store_inv (case ca_phase ca of PStale \<Rightarrow> move_to c PTrying (s\<lparr>fs_lock := None\<rparr>) | _ \<Rightarrow> s)"
      using inv by (simp split: phase.split)
  qed
  show "store_inv (mutate_doc c s)" if o: "orderly (SMutate c) s" unfolding mutate_doc_def
  proof (rule on_callI [OF inv])
    fix ca assume ca: "live_call s c ca"
    have "store_inv (move_to c (case ca_mutate ca d of Some d' \<Rightarrow> PMutated d' | None \<Rightarrow> PEnding False) s)" if ph: "ca_phase ca = PLoaded d" for d
    proof -
      obtain d' where d': "ca_mutate ca d = Some d'" using o ca ph by (auto simp: orderly_def live_call_def)
      have d: "d = the_doc s" using inv ca ph by (auto simp: store_inv_def sections_ok_def section_ok_def)
      have "section_ok (s\<lparr>fs_lock := fs_lock s\<rparr>) c (ca\<lparr>ca_phase := PMutated d'\<rparr>)"
        using section_lock [OF inv ca] ph d d' by (simp add: section_ok_def)
      from same [OF ca this] ph d' show ?thesis by simp
    qed
    then show "store_inv (case ca_phase ca of PLoaded d \<Rightarrow> move_to c (case ca_mutate ca d of Some d' \<Rightarrow> PMutated d' | None \<Rightarrow> PEnding False) s | _ \<Rightarrow> s)"
      using inv by (simp split: phase.split)
  qed
qed

text \<open>A step that changes the copy of an instance\<close>

lemma instance_step:
  assumes inv: "store_inv s" and v: "\<And>v. si_lastStat i = Some v \<Longrightarrow> v \<le> fs_version s"
    and data: "p \<notin> set (fs_dead s) \<Longrightarrow> calm s p \<Longrightarrow> statMatches i s \<Longrightarrow> si_data i = the_doc s"
  shows "store_inv (s\<lparr>fs_instances := dput p i (fs_instances s)\<rparr>)"
proof -
  let ?s = "s\<lparr>fs_instances := dput p i (fs_instances s)\<rparr>"
  have same: "live_call ?s = live_call s" "section_ok ?s = section_ok s" "mutation_of ?s = mutation_of s" "statMatches j ?s = statMatches j s" "calm ?s = calm s" for j
    by (simp_all add: live_call_def section_ok_def mutation_of_def statMatches_def calm_def fun_eq_iff)
  have "instance_of p' ?s = (if p' = p then i else instance_of p' s)" for p' by (simp add: instance_of_def)
  then have "copies_ok ?s" using inv v data unfolding store_inv_def copies_ok_def same by auto
  with inv show ?thesis by (simp add: store_inv_def sections_ok_def log_ok_def same)
qed

lemma move_to_instances: "move_to c ph (s\<lparr>fs_instances := x\<rparr>) = (move_to c ph s)\<lparr>fs_instances := x\<rparr>"
  by (simp add: move_to_def split: option.split)

lemma move_to_fields [simp]: "fs_doc (move_to c ph s) = fs_doc s" "fs_version (move_to c ph s) = fs_version s" "fs_instances (move_to c ph s) = fs_instances s"
  "fs_dead (move_to c ph s) = fs_dead s" "fs_log (move_to c ph s) = fs_log s" "fs_lock (move_to c ph s) = fs_lock s"
  by (simp_all add: move_to_def split: option.split)

lemma move_to_live: "live_call s c ca \<Longrightarrow> live_call (move_to c ph s) c' ca' \<longleftrightarrow> (if c' = c then ca' = ca\<lparr>ca_phase := ph\<rparr> else live_call s c' ca')"
  by (auto simp: live_call_def move_to_def)

lemma load_step: "store_inv s \<Longrightarrow> store_inv (load_doc c s)"
  unfolding load_doc_def
proof (rule on_callI)
  fix ca assume inv: "store_inv s" and ca: "live_call s c ca"
  let ?p = "ca_pid ca"
  let ?i = "instance_of ?p s"
  have loaded: "store_inv (move_to c (PLoaded (the_doc s)) s)" if ph: "ca_phase ca = PHeld"
  proof -
    have "section_ok (s\<lparr>fs_lock := fs_lock s\<rparr>) c (ca\<lparr>ca_phase := PLoaded (the_doc s)\<rparr>)"
      using section_lock [OF inv ca] ph by (simp add: section_ok_def)
    from phase_step [OF inv ca this] ph show ?thesis by simp
  qed
  have cached: "si_data ?i = the_doc s" if ph: "ca_phase ca = PHeld" and m: "statMatches ?i s"
  proof -
    have "calm s ?p" unfolding calm_def
    proof (intro allI impI notI)
      fix c' ca' assume a: "live_call s c' ca' \<and> ca_pid ca' = ?p" "between (ca_phase ca')"
      have "sections_ok s" using inv by (simp add: store_inv_def)
      from section_unique [OF this ca _ _ between_section [OF a(2)]] a(1) ph have "c' = c" by simp
      with a ca ph show False by (simp add: live_call_def)
    qed
    then show ?thesis using inv ca m by (simp add: store_inv_def copies_ok_def live_call_def)
  qed
  have stamped: "store_inv (move_to c (PLoaded (the_doc s)) (s\<lparr>fs_instances := dput ?p (?i\<lparr>si_lastStat := v\<rparr>) (fs_instances s)\<rparr>))"
    if ph: "ca_phase ca = PHeld" and v: "v = None \<or> v = Some (fs_version s)" for v
  proof -
    let ?s = "move_to c (PLoaded (the_doc s)) s"
    have "\<not> calm ?s ?p" using move_to_live [OF ca, of "PLoaded (the_doc s)"] by (force simp: calm_def)
    then have "store_inv (?s\<lparr>fs_instances := dput ?p (?i\<lparr>si_lastStat := v\<rparr>) (fs_instances ?s)\<rparr>)"
      using v by (intro instance_step [OF loaded [OF ph]]) auto
    then show ?thesis by (simp add: move_to_instances)
  qed
  have "fs_doc s = None \<Longrightarrow> the_doc s = []" "fs_doc s = Some d \<Longrightarrow> the_doc s = d" for d by (simp_all add: the_doc_def)
  then show "store_inv (case ca_phase ca of PHeld \<Rightarrow> (let p = ?p; i = instance_of p s in
       if statMatches i s then move_to c (PLoaded (si_data i)) s
       else (case fs_doc s of
           None \<Rightarrow> move_to c (PLoaded []) (s\<lparr>fs_instances := dput p (i\<lparr>si_lastStat := None\<rparr>) (fs_instances s)\<rparr>)
         | Some d \<Rightarrow> move_to c (PLoaded d) (s\<lparr>fs_instances := dput p (i\<lparr>si_lastStat := Some (fs_version s)\<rparr>) (fs_instances s)\<rparr>))) | _ \<Rightarrow> s)"
    using inv loaded cached stamped [of None] stamped [of "Some (fs_version s)"] by (auto simp: Let_def split: phase.split option.split)
qed assumption

lemma read_step: "store_inv s \<Longrightarrow> store_inv (reloadFromDisk p s)"
  unfolding reloadFromDisk_def Let_def
  by (auto intro!: instance_step simp: the_doc_def split: option.split)

lemma persist_step: "store_inv s \<Longrightarrow> store_inv (persist_doc c True s)"
  unfolding persist_doc_def
proof (rule on_callI)
  fix ca assume inv: "store_inv s" and ca: "live_call s c ca"
  let ?p = "ca_pid ca"
  have "store_inv (move_to c (PEnding True) (s\<lparr>fs_doc := Some d, fs_version := Suc (fs_version s), fs_log := fs_log s @ [c],
         fs_instances := dput ?p \<lparr>si_data = d, si_lastStat = Some (Suc (fs_version s)), si_loaded = True\<rparr> (fs_instances s)\<rparr>))"
    (is "store_inv ?s") if ph: "ca_phase ca = PMutated d" for d
  proof -
    have d: "ca_mutate ca (the_doc s) = Some d" using inv ca ph by (simp add: store_inv_def sections_ok_def section_ok_def)
    have calls: "fs_calls ?s = dput c (ca\<lparr>ca_phase := PEnding True\<rparr>) (fs_calls s)" using ca by (simp add: move_to_def live_call_def)
    have live: "live_call ?s c' ca' \<longleftrightarrow> (if c' = c then ca' = ca\<lparr>ca_phase := PEnding True\<rparr> else live_call s c' ca')" for c' ca'
      using ca by (auto simp: live_call_def calls)
    have doc: "the_doc ?s = d" by (simp add: the_doc_def)
    have out: "\<not> in_section (ca_phase ca')" if "c' \<noteq> c" "live_call s c' ca'" for c' ca'
      using section_unique [of s c ca c' ca'] that ca ph inv by (auto simp: store_inv_def)
    have "section_ok ?s c' ca'" if l: "live_call ?s c' ca'" for c' ca'
    proof (cases "c' = c")
      case True
      with l section_lock [OF inv ca] ph show ?thesis by (simp add: live section_ok_def)
    next
      case False
      then have "\<not> in_section (ca_phase ca')" using out l by (simp add: live)
      then show ?thesis unfolding section_ok_def by auto
    qed
    then have "sections_ok ?s" by (simp add: sections_ok_def)
    moreover have "copies_ok ?s"
    proof -
      have i: "instance_of p' ?s = (if p' = ?p then \<lparr>si_data = d, si_lastStat = Some (Suc (fs_version s)), si_loaded = True\<rparr> else instance_of p' s)" for p'
        by (simp add: instance_of_def)
      have old: "si_lastStat (instance_of p' s) = Some v \<Longrightarrow> v \<le> fs_version s" for p' v using inv by (simp add: store_inv_def copies_ok_def)
      then have "si_lastStat (instance_of p' s) \<noteq> Some (Suc (fs_version s))" for p' by fastforce
      then show ?thesis using old unfolding copies_ok_def i doc by (auto simp: statMatches_def intro: le_SucI)
    qed
    moreover have "log_ok ?s"
    proof -
      have m: "mutation_of ?s = mutation_of s" using ca by (auto simp: mutation_of_def calls live_call_def)
      have "c \<notin> set (fs_log s)" using inv ca ph by (auto simp: store_inv_def log_ok_def live_call_def)
      moreover have "mutation_of s c = ca_mutate ca" using ca by (simp add: mutation_of_def live_call_def)
      ultimately show ?thesis using inv d ca ph
        by (auto simp: store_inv_def log_ok_def m doc replay_snoc calls live_call_def)
    qed
    ultimately show ?thesis by (simp add: store_inv_def)
  qed
  then show "store_inv (case ca_phase ca of PMutated d \<Rightarrow>
       if True then move_to c (PEnding True) (s\<lparr>fs_doc := Some d, fs_version := Suc (fs_version s), fs_log := fs_log s @ [c],
         fs_instances := dput ?p \<lparr>si_data = d, si_lastStat = Some (Suc (fs_version s)), si_loaded = True\<rparr> (fs_instances s)\<rparr>)
       else move_to c (PEnding False) s | _ \<Rightarrow> s)"
    using inv by (simp split: phase.split)
qed assumption

lemma begin_step: "store_inv s \<Longrightarrow> store_inv (store_event (SBegin c p f) s)"
proof (cases "dget (fs_calls s) c")
  case None
  assume inv: "store_inv s"
  let ?new = "\<lparr>ca_pid = p, ca_mutate = f, ca_phase = PTrying\<rparr>"
  let ?s = "s\<lparr>fs_calls := dput c ?new (fs_calls s)\<rparr>"
  have live: "live_call ?s c' ca' \<longleftrightarrow> (if c' = c then ca' = ?new \<and> p \<notin> set (fs_dead s) else live_call s c' ca')" for c' ca'
    by (auto simp: live_call_def)
  have same: "section_ok ?s c' ca' = section_ok s c' ca'" "instance_of p' ?s = instance_of p' s" "statMatches i ?s = statMatches i s" "the_doc ?s = the_doc s" for c' ca' p' i
    by (simp_all add: section_ok_def instance_of_def statMatches_def the_doc_def)
  have "section_ok s c ?new" by (simp add: section_ok_def)
  then have "sections_ok ?s" using inv by (auto simp: sections_ok_def live same store_inv_def)
  moreover have "calm s p'" if "calm ?s p'" for p'
    using that None unfolding calm_def live by (metis live_call_def option.distinct(1))
  then have "copies_ok ?s" using inv by (simp add: copies_ok_def same store_inv_def)
  moreover have "log_ok ?s"
  proof -
    have "c \<notin> set (fs_log s)" using inv None by (auto simp: store_inv_def log_ok_def)
    then have "replay_log (mutation_of ?s) (fs_log s) [] = replay_log (mutation_of s) (fs_log s) []"
      by (intro replay_cong) (auto simp: mutation_of_def)
    moreover have "(\<exists>x. dget (fs_calls ?s) c' = Some x \<and> stored (ca_phase x)) \<longleftrightarrow> (\<exists>x. dget (fs_calls s) c' = Some x \<and> stored (ca_phase x))" for c'
      using None by simp
    ultimately show ?thesis using inv by (simp add: store_inv_def log_ok_def same)
  qed
  ultimately show ?thesis using None by (simp add: store_inv_def)
qed simp

lemma die_step: "store_inv s \<Longrightarrow> store_inv (store_event (SDie p) s)"
proof -
  assume inv: "store_inv s"
  let ?s = "s\<lparr>fs_dead := p # fs_dead s\<rparr>"
  have live: "live_call ?s c ca \<longleftrightarrow> live_call s c ca \<and> ca_pid ca \<noteq> p" for c ca by (auto simp: live_call_def)
  have same: "section_ok ?s = section_ok s" "instance_of p' ?s = instance_of p' s" "statMatches i ?s = statMatches i s" "the_doc ?s = the_doc s" "mutation_of ?s = mutation_of s" for p' i
    by (simp_all add: section_ok_def instance_of_def statMatches_def the_doc_def mutation_of_def fun_eq_iff)
  have "calm s p'" if "calm ?s p'" "p' \<noteq> p" for p' using that unfolding calm_def live by blast
  then have "copies_ok ?s" using inv unfolding copies_ok_def same store_inv_def by simp
  then show ?thesis using inv by (simp add: store_inv_def sections_ok_def live same log_ok_def)
qed

lemma store_event_step: "store_inv s \<Longrightarrow> orderly e s \<Longrightarrow> store_inv (store_event e s)"
proof (cases e)
  case (SPersist c ok)
  then show "store_inv s \<Longrightarrow> orderly e s \<Longrightarrow> ?thesis" using persist_step by (simp add: orderly_def)
qed (simp_all add: lock_steps load_step read_step begin_step [simplified] die_step [simplified])

lemma store_run_inv: "orderly_run es empty_files \<Longrightarrow> store_inv (run_store es)"
proof (induction es rule: rev_induct)
  case Nil
  show ?case
    by (simp add: run_store_def empty_files_def store_inv_def sections_ok_def live_call_def copies_ok_def instance_of_def new_instance_def statMatches_def log_ok_def the_doc_def)
next
  case (snoc e es)
  then have "orderly_run es empty_files" "orderly e (run_store es)" by (simp_all add: orderly_run_snoc run_store_def)
  with snoc.IH store_event_step show ?case by simp
qed

lemma log_grows: "\<exists>xs. fs_log (fold store_event es s) = fs_log s @ xs"
proof (induction es arbitrary: s)
  case (Cons e es)
  have "\<exists>xs. fs_log (on_call c k s) = fs_log s @ xs" if "\<And>ca. \<exists>xs. fs_log (k ca) = fs_log s @ xs" for c k
    using that by (auto simp: on_call_def split: option.split)
  then have "\<exists>xs. fs_log (store_event e s) = fs_log s @ xs"
    by (cases e) (simp_all add: open_lock_def write_token_def inspect_lock_def steal_lock_def lock_timeout_def load_doc_def mutate_doc_def persist_doc_def
      check_token_def remove_lock_def reloadFromDisk_def Let_def split: phase.split option.split)
  with Cons [of "store_event e s"] show ?case by force
qed simp


definition enter :: "nat \<Rightarrow> nat \<Rightarrow> 'v doc_mutation \<Rightarrow> 'v store_step list" where
  "enter c p f = [SBegin c p f, SOpen c, SToken c, SLoad c]"

definition leave :: "nat \<Rightarrow> 'v store_step list" where
  "leave c = [SMutate c, SPersist c True, SCheck c, SRemove c]"

text \<open>A process dies with the lock, another one clears it, and a third one writes after that.\<close>

definition sample_store_run :: "nat store_step list" where
  "sample_store_run = enter 1 1 (mut_put ''x'' 1) @ [SDie 1, SBegin 2 2 (mut_put ''y'' 2), SOpen 2, SInspect 2 False, SSteal 2, SOpen 2, SToken 2, SLoad 2,
     SBegin 3 3 (mut_update ''y'' (map_option (\<lambda>n. n + 5))), SOpen 3, SInspect 3 True] @ leave 2 @ [SOpen 3, SToken 3, SLoad 3] @ leave 3"


subsection \<open>What happens otherwise\<close>

text \<open>
  Two processes find the lock of a dead one. The first one clears it, takes the lock and reads; the second one
  then renames the lock of the first away, since a rename names the path and not the file that was judged.
  Both are in their sections, both succeed, and one of the two updates is lost.
\<close>

lemma stale_lock_is_judged_too_early:
  defines "es \<equiv> enter 1 1 mut_clear @ [SDie 1, SBegin 2 2 (mut_put ''x'' (1 :: nat)), SBegin 3 3 (mut_put ''y'' 2), SInspect 2 False, SInspect 3 False,
    SSteal 2, SOpen 2, SToken 2, SLoad 2, SSteal 3, SOpen 3, SToken 3, SLoad 3] @ leave 3 @ leave 2"
  shows "map (\<lambda>c. map_option ca_phase (dget (fs_calls (run_store es)) c)) [2, 3] = [Some (PFinished True), Some (PFinished True)] \<and>
    the_doc (run_store es) = [(''x'', 1)]"
  unfolding es_def by code_simp

text \<open>A lock of the own process counts as nobody's: when it is old, another call of the same process steals it from a live one.\<close>

lemma own_lock_is_stolen:
  defines "es \<equiv> enter 1 1 (mut_put ''x'' (1 :: nat)) @ [SBegin 2 1 (mut_put ''y'' 2), SInspect 2 True, SSteal 2, SOpen 2, SToken 2, SLoad 2] @ leave 2 @ leave 1"
  shows "map (\<lambda>c. map_option ca_phase (dget (fs_calls (run_store es)) c)) [1, 2] = [Some (PFinished True), Some (PFinished True)] \<and>
    the_doc (run_store es) = [(''x'', 1)]"
  unfolding es_def by code_simp

text \<open>
  A function given to \<open>update\<close> throws after the instance has noted the stamp of what another process wrote, and
  before its copy is replaced. The next call of this process takes the stamp for that of its old copy,
  and writes the old document back: the update of the other process is lost, and no lock was stolen.
\<close>

lemma throwing_update_loses_others:
  defines "es \<equiv> [SRead 1] @ enter 1 2 (mut_put ''x'' (1 :: nat)) @ leave 1 @ enter 2 1 (mut_update ''y'' (\<lambda>_. None)) @ [SMutate 2, SCheck 2, SRemove 2] @
    enter 3 1 (mut_put ''z'' 3)"
  shows "the_doc (run_store es) = [(''x'', 1)] \<and> fst (store_get 1 ''x'' (run_store es)) = None \<and> the_doc (run_store (es @ leave 3)) = [(''z'', 3)]"
  unfolding es_def by code_simp

end
