(* ===== verification/Spec2Isabelle.thy ===== *)
theory Spec2Isabelle
  imports Idempotency Event_Log Verification Graph_Order Scheduling_Pass Settling Approvals Graph_Store Model_Router Budget_Limits Approval_Queue File_Store
begin

text \<open>
  A verification development for the goal runner of Wazir (\<open>src/packages/goals/src\<close>) and for the services of
  \<open>src/packages/core/src\<close> and \<open>src/packages/shared/src\<close> whose promises it rests on.

  \<^bold>\<open>The program.\<close> A goal is a graph of targets with dependencies. A run works through the graph: the controller
  selects an eligible target, makes an attempt at it (plan, preflight by governance, routing to a model,
  execution, independent verification, acceptance gate), and commits the outcome to a durable ledger. After a
  failure, recovery decides between a retry, a repair under a new hypothesis, and blocking the target. A run
  is driven by one controller at a time, the holder of a lease; other processes may take the lease over, people
  may pause, stop, retry and approve, and any process may die at any moment.

  \<^bold>\<open>Theories and code.\<close> Names under \<open>src/packages/goals/src\<close> unless given in full. Every definition keeps the name
  of the function, method or type it models.

  \<^item> \<open>Prelude\<close>: results of code that may throw, dictionaries, sorting, text and numbers. \<open>Regex\<close>: the regular
    expressions the code tests text with, as an executable matcher and as a relation.
  \<^item> \<open>Contracts\<close> (\<open>contracts.ts\<close>): the data model; keys are injective. \<open>Canonical\<close> (\<open>graph/canonical.ts\<close>,
    \<open>prompts/canonical.ts\<close>): canonical JSON text, injective up to the order of members.
  \<^item> \<open>Eligibility\<close> (\<open>controller/eligibility.ts\<close>): critical-path metrics, scheduling order, the state machine of targets.
  \<^item> \<open>Graph_Cycles\<close>, \<open>Graph_Validation\<close>, \<open>Graph_Order\<close> (\<open>graph/validation.ts\<close>): Tarjan's search, validation of
    untrusted definitions, topological order and critical path. \<open>Graph_Store\<close> (\<open>graph/store.ts\<close>): graph revisions.
  \<^item> \<open>Ledger_Store\<close> (\<open>ledger/ledgerStore.ts\<close>, \<open>ledger/atomic.ts\<close>): runs, leases, commits, transitions and attempts.
    \<open>Idempotency\<close> (same file): effects that run once. \<open>Event_Log\<close> (\<open>ledger/eventLog.ts\<close>): the event streams.
  \<^item> \<open>Gate\<close> and \<open>Verification\<close> (\<open>verification/\<close>): the acceptance gate, evidence, declared checks and signoffs.
  \<^item> \<open>Governance\<close> and \<open>Audit_Trail\<close> (\<open>governance/index.ts\<close>): constitution, preflight, spending, and the chain of
    audit records.
  \<^item> \<open>Failure_Classes\<close>, \<open>Hypothesis\<close>, \<open>Recovery\<close> (\<open>recovery/\<close>): what a failure is, and what is done about it.
  \<^item> \<open>Controller\<close>, \<open>Scheduler\<close>, \<open>Scheduling_Pass\<close>, \<open>Commit_Refinement\<close>, \<open>Approvals\<close>, \<open>Attempt\<close>, \<open>Attempt_Steps\<close>,
    \<open>Settling\<close> (\<open>controller/controller.ts\<close>): the plans of all commits and the second gate; the commit loop, the
    scheduling pass, the actions of the API and the step relation \<open>ctl_step\<close>; the pass as steps; the plans against
    the ledger's checks; approvals from end to end; one attempt as a program that may throw; its commits as
    steps; how it leaves its target.
  \<^item> \<open>Reliability\<close> (\<open>src/packages/core/src/services/modelReliability.ts\<close>), \<open>Capabilities\<close>, \<open>Readiness\<close>,
    \<open>Model_Router\<close> (\<open>routing/\<close>): circuits, requirements, evidence of readiness, and the choice of a model.
  \<^item> \<open>Accounts\<close>, \<open>Resource_Ledger\<close>, \<open>Budget\<close>, \<open>Budget_Limits\<close> (\<open>src/packages/core/src/resources/\<close>): accounts and
    windows, reservations and usage, admission, and the limits under interleaved transactions.
  \<^item> \<open>Approval_Queue\<close> (\<open>src/packages/core/src/services/approvalQueue.ts\<close>): approvals bound to a decision point.
  \<^item> \<open>File_Store\<close> (\<open>src/packages/shared/src/store.ts\<close>): the key-value store on a file with its lock.
  \<^item> This theory: what follows for controller and governance together.

  \<^bold>\<open>State and interaction.\<close> A component's state is a record, an operation a function from the state (and what it
  reads from outside) to a result and the next state; a throw is a value. Where callers interleave, the atomic
  updates of the store are the steps of a relation or of an executable function on actions, and callers may
  die between any two of them: commits in \<open>Ledger_Store\<close>, calls of \<open>once\<close> and of \<open>reconcileEffect\<close>
  in \<open>Idempotency\<close>, appends in \<open>Event_Log\<close>, revisions in \<open>Graph_Store\<close>, transactions in \<open>Budget_Limits\<close>, accesses to
  the file system in \<open>File_Store\<close>. That an atomic update is one step is what \<open>File_Store\<close> shows of the file-backed
  store in orderly runs.

  The controller is layered. \<open>commit_try\<close> is its commit loop on the store, with other holders writing between read
  and write; \<open>commit_loses_no_update\<close> says that it stores a plan applied to exactly the ledger its last write found.
  \<open>commit_implements_apply_plan\<close> says that without interference it does what \<open>apply_plan\<close> describes; the scheduling
  pass and the attempt are modelled over \<open>apply_plan\<close>, so that nobody else commits to the run between their
  commits. Each is a sequence of steps of \<open>ctl_step\<close> (\<open>step_refines_ctl_step\<close>, \<open>attempt_refines_ctl_step\<close>), the
  actions of the API are steps as well (\<open>action_steps\<close>, with separate ledgers for their check and their
  commit), and the limits of a run hold under all interleavings of steps (\<open>run_stays_within_limits\<close>).

  \<^bold>\<open>Parameters.\<close> The clock, random identifiers, SHA-256, \<open>localeCompare\<close>, the text of numbers, \<open>JSON.parse\<close>, the command
  runner, snapshots of the workspace, the executor, model completions, registries and price lists, and whether
  a process lives are arguments. Where a property relies on one of them, what it relies on is a hypothesis
  (a text that parses to the value it was made from; the collisions that would have to occur). Time stamps are
  integers of milliseconds, finite numbers rationals; text is ASCII where the code folds or compares it.

  \<^bold>\<open>Termination and bounds.\<close> No model uses fuel that could hide a result. The commit loop counts down \<open>COMMIT_RETRIES\<close>,
  as the code counts up to it. Loops over work stacks and queues (Tarjan's search, Kahn's order, critical
  paths, dependents, the matcher) are functions with a termination proof. The nesting of JSON is bounded by
  \<open>MAX_DEPTH\<close>, the code's own limit; the window of 64 events is that of \<open>eventLog.ts\<close>.

  \<^bold>\<open>Not modelled.\<close> Promises, timers, the renewal of leases and the wake-ups of the driver loop; events, audit entries
  and log texts that the controller emits, whose failures it catches and which no branch reads; commits by
  others in the middle of a scheduling pass or of an attempt; the YAML reader, the importer, the graph diff and
  the prompt registry; registering models, the fleet view, probing sweeps and restored outcomes of the router;
  reports over the resource ledger; the executor bridge; the other packages and applications.

  \<^bold>\<open>What the models show to be wrong.\<close> Theorems and lemmas that exhibit a defect say so in their text, for
  example \<open>last_task_is_denied\<close>, \<open>approved_attempt_cannot_finish\<close>, \<open>read_over_commit_loses_batch\<close>,
  \<open>start_ignores_pause\<close>, \<open>once_race_runs_effect_twice\<close>, \<open>overlapping_appends_lose_an_event\<close>,
  \<open>limit_can_be_exceeded\<close>, \<open>half_recovered_is_lost\<close>, \<open>approve_all_takes_expired\<close> and \<open>stale_lock_is_judged_too_early\<close>.
\<close>

section \<open>Controller and governance\<close>

lemma limit_reasons_tasks:
  "0 < maxTasksPerRun limits \<Longrightarrow> maxTasksPerRun limits \<le> res_tasksStarted (r_resource (pi_run inp)) \<Longrightarrow> limit_reasons d now limits inp \<noteq> []"
  by (simp add: limit_reasons_def Let_def tag_def)

text \<open>
  C40. The last task of a run's budget is started but never executed: the start of a new attempt counts the task
  before preflight is asked, and preflight refuses a run whose tasks have reached the limit. So the attempt
  that \<open>startAttempt\<close> accepts as the last one within \<open>maxTasksPerRun\<close> is denied, whatever it is about.
\<close>
theorem last_task_is_denied:
  assumes s: "start_plan t graph i run = Inr (Some (ts, f))" and fresh: "\<not> reuse_attempt (entry_of run i t)"
    and last: "res_tasksStarted (r_resource run) + 1 = maxTasksPerRun (limitsOf graph)"
    and inp: "pi_run inp = f run"
    and limit: "maxTasksPerRun (con_resourceLimits (resolveConstitution d (Some (pi_run inp)) (pi_constitution inp))) = maxTasksPerRun (limitsOf graph)"
  shows "gov_effect (fst (preflight d now inp st)) = Deny"
proof -
  have "res_tasksStarted (r_resource (pi_run inp)) = maxTasksPerRun (limitsOf graph)"
    using start_plan_Some(3) [OF s] fresh last inp by (simp add: started_resource_def)
  with limit last have "limit_reasons d now (con_resourceLimits (resolveConstitution d (Some (pi_run inp)) (pi_constitution inp))) inp \<noteq> []"
    by (intro limit_reasons_tasks) simp_all
  then show ?thesis by (simp add: preflight_def deny_reasons_def Let_def decision_def)
qed

definition sample_nearly_used :: GoalRunLedger where
  "sample_nearly_used = sample_running\<lparr>r_resource := (r_resource sample_running)\<lparr>res_tasksStarted := 9\<rparr>\<rparr>"

definition sample_last_start :: "GoalRunLedger \<Rightarrow> GoalRunLedger" where
  "sample_last_start = (case start_plan 0 (gr_definition sample_graph) ''A'' sample_nearly_used of Inr (Some (ts, f)) \<Rightarrow> f | _ \<Rightarrow> id)"

definition sample_last_input :: GoalPreflightInput where
  "sample_last_input = (sample_input ''ada'' False None)\<lparr>pi_run := sample_last_start sample_nearly_used,
     pi_constitution := Some (g_constitution (gr_definition sample_graph))\<rparr>"

theorem last_task_is_denied_witness:
  "res_tasksStarted (r_resource sample_nearly_used) < maxTasksPerRun (limitsOf (gr_definition sample_graph)) \<and>
   gov_effect (fst (preflight sample_governance 0 sample_last_input [])) = Deny"
proof -
  let ?g = "gr_definition sample_graph"
  have "(case start_plan 0 ?g ''A'' sample_nearly_used of Inr (Some p) \<Rightarrow> True | _ \<Rightarrow> False)" by code_simp
  then obtain ts f where s: "start_plan 0 ?g ''A'' sample_nearly_used = Inr (Some (ts, f))" by (auto split: sum.splits option.splits)
  have c: "\<not> reuse_attempt (entry_of sample_nearly_used ''A'' 0)" "res_tasksStarted (r_resource sample_nearly_used) + 1 = maxTasksPerRun (limitsOf ?g)" by code_simp+
  have "pi_run sample_last_input = f sample_nearly_used" using s by (simp add: sample_last_input_def sample_last_start_def)
  moreover have "maxTasksPerRun (con_resourceLimits (resolveConstitution sample_governance (Some (pi_run sample_last_input)) (pi_constitution sample_last_input))) =
      maxTasksPerRun (limitsOf ?g)"
    by (simp add: resolveConstitution_def sample_last_input_def mergeConstitution_def limitsOf_def)
  ultimately show ?thesis using last_task_is_denied [OF s c] c(2) by simp
qed

end
